(* ===== verification/Tsch_Prelude.thy ===== *)
theory Tsch_Prelude
  imports Main "HOL-Library.Word" "HOL-Library.Monad_Syntax"
begin

text \<open>
  The vocabulary the component theories share.

  C code that may go wrong (an index outside its array, a null pointer, a division by zero) is a
  value of an option type: None stands for the undefined behaviour, and a loop that never ends is
  None as well, because such loops are defined with the option mode of partial functions.
  runs_to m Q says that the code returns and that its result satisfies Q; it distributes
  over bind and over the for loop, so a proof about a body of C code is a walk along its
  statements.
\<close>

unbundle bit_operations_syntax

type_synonym u8 = "8 word"
type_synonym u16 = "16 word"
type_synonym u32 = "32 word"

named_theorems wp \<open>rules that push runs-to through the statements of a body\<close>

section \<open>Total correctness over the option monad\<close>

definition runs_to :: "'a option \<Rightarrow> ('a \<Rightarrow> bool) \<Rightarrow> bool" where
  "runs_to m Q \<longleftrightarrow> (\<exists>x. m = Some x \<and> Q x)"

lemma runs_to_Some [simp, wp]: "runs_to (Some x) Q \<longleftrightarrow> Q x"
  by (simp add: runs_to_def)

lemma runs_to_None [simp]: "\<not> runs_to None Q"
  by (simp add: runs_to_def)

lemma runs_to_bind [simp, wp]: "runs_to (m \<bind> f) Q \<longleftrightarrow> runs_to m (\<lambda>x. runs_to (f x) Q)"
  by (cases m) auto

lemma runs_to_if [wp]:
  "runs_to (if b then m else n) Q \<longleftrightarrow> (if b then runs_to m Q else runs_to n Q)"
  by simp

lemma runs_to_mono: "runs_to m P \<Longrightarrow> (\<And>x. P x \<Longrightarrow> Q x) \<Longrightarrow> runs_to m Q"
  by (auto simp: runs_to_def)

lemma runs_toD: "runs_to m Q \<Longrightarrow> m = Some x \<Longrightarrow> Q x"
  by (simp add: runs_to_def)

lemma runs_to_conj: "runs_to m P \<Longrightarrow> runs_to m Q \<Longrightarrow> runs_to m (\<lambda>x. P x \<and> Q x)"
  by (auto simp: runs_to_def)

lemma runs_toI: "m = Some x \<Longrightarrow> Q x \<Longrightarrow> runs_to m Q"
  by (simp add: runs_to_def)

lemma runs_to_eq: "runs_to m (\<lambda>x. x = v) \<longleftrightarrow> m = Some v"
  by (cases m) auto

section \<open>Arrays with checked indices\<close>

definition rd :: "'a list \<Rightarrow> nat \<Rightarrow> 'a option" where
  "rd a i = (if i < length a then Some (a ! i) else None)"

definition wr :: "'a list \<Rightarrow> nat \<Rightarrow> 'a \<Rightarrow> 'a list option" where
  "wr a i v = (if i < length a then Some (a[i := v]) else None)"

text \<open>C indices are signed: a negative index is as much out of range as a large one.\<close>

definition rdi :: "'a list \<Rightarrow> int \<Rightarrow> 'a option" where
  "rdi a i = (if 0 \<le> i then rd a (nat i) else None)"

definition wri :: "'a list \<Rightarrow> int \<Rightarrow> 'a \<Rightarrow> 'a list option" where
  "wri a i v = (if 0 \<le> i then wr a (nat i) v else None)"

definition rd2 :: "'a list list \<Rightarrow> int \<Rightarrow> int \<Rightarrow> 'a option" where
  "rd2 m i j = do { row \<leftarrow> rdi m i; rdi row j }"

definition wr2 :: "'a list list \<Rightarrow> int \<Rightarrow> int \<Rightarrow> 'a \<Rightarrow> 'a list list option" where
  "wr2 m i j v = do { row \<leftarrow> rdi m i; row' \<leftarrow> wri row j v; wri m i row' }"

text \<open>A matrix of the given dimensions, and its cells as a total function of in-range indices.\<close>

definition dims :: "nat \<Rightarrow> nat \<Rightarrow> 'a list list \<Rightarrow> bool" where
  "dims r c m \<longleftrightarrow> length m = r \<and> (\<forall>row \<in> set m. length row = c)"

abbreviation cell :: "'a list list \<Rightarrow> nat \<Rightarrow> nat \<Rightarrow> 'a" where
  "cell m i j \<equiv> m ! i ! j"

definition upd2 :: "'a list list \<Rightarrow> nat \<Rightarrow> nat \<Rightarrow> 'a \<Rightarrow> 'a list list" where
  "upd2 m i j v = m[i := (m ! i)[j := v]]"

lemma rd_Some [simp]: "i < length a \<Longrightarrow> rd a i = Some (a ! i)"
  by (simp add: rd_def)

lemma wr_Some [simp]: "i < length a \<Longrightarrow> wr a i v = Some (a[i := v])"
  by (simp add: wr_def)

lemma rdi_of_nat [simp]: "i < length a \<Longrightarrow> rdi a (int i) = Some (a ! i)"
  by (simp add: rdi_def)

lemma wri_of_nat [simp]: "i < length a \<Longrightarrow> wri a (int i) v = Some (a[i := v])"
  by (simp add: wri_def)

lemma rdi_Some: "0 \<le> i \<Longrightarrow> nat i < length a \<Longrightarrow> rdi a i = Some (a ! nat i)"
  by (simp add: rdi_def)

lemma wri_Some: "0 \<le> i \<Longrightarrow> nat i < length a \<Longrightarrow> wri a i v = Some (a[nat i := v])"
  by (simp add: wri_def)

lemma dims_length: "dims r c m \<Longrightarrow> length m = r"
  by (simp add: dims_def)

lemma dims_row: "dims r c m \<Longrightarrow> i < r \<Longrightarrow> length (m ! i) = c"
  by (auto simp: dims_def)

lemma rd2_dims [simp]:
  "dims r c m \<Longrightarrow> i < r \<Longrightarrow> j < c \<Longrightarrow> rd2 m (int i) (int j) = Some (cell m i j)"
  by (auto simp: rd2_def dims_length dims_row)

lemma rd2_dims_0 [simp]: "dims r c m \<Longrightarrow> i < r \<Longrightarrow> 0 < c \<Longrightarrow> rd2 m (int i) 0 = Some (cell m i 0)"
  using rd2_dims [of r c m i 0] by simp

lemma rd2_dims_1 [simp]: "dims r c m \<Longrightarrow> i < r \<Longrightarrow> 1 < c \<Longrightarrow> rd2 m (int i) 1 = Some (cell m i 1)"
  using rd2_dims [of r c m i 1] by simp

lemma rd2_dims_int:
  "dims r c m \<Longrightarrow> 0 \<le> i \<Longrightarrow> i < int r \<Longrightarrow> 0 \<le> j \<Longrightarrow> j < int c \<Longrightarrow>
   rd2 m i j = Some (cell m (nat i) (nat j))"
  using rd2_dims [of r c m "nat i" "nat j"] by (simp add: nat_less_iff)

lemma wr2_dims [simp]:
  "dims r c m \<Longrightarrow> i < r \<Longrightarrow> j < c \<Longrightarrow> wr2 m (int i) (int j) v = Some (upd2 m i j v)"
  by (auto simp: wr2_def upd2_def dims_length dims_row)

lemma wr2_dims_0 [simp]:
  "dims r c m \<Longrightarrow> i < r \<Longrightarrow> 0 < c \<Longrightarrow> wr2 m (int i) 0 v = Some (upd2 m i 0 v)"
  using wr2_dims [of r c m i 0] by simp

lemma wr2_dims_1 [simp]:
  "dims r c m \<Longrightarrow> i < r \<Longrightarrow> 1 < c \<Longrightarrow> wr2 m (int i) 1 v = Some (upd2 m i 1 v)"
  using wr2_dims [of r c m i 1] by simp

lemma wr2_dims_int:
  "dims r c m \<Longrightarrow> 0 \<le> i \<Longrightarrow> i < int r \<Longrightarrow> 0 \<le> j \<Longrightarrow> j < int c \<Longrightarrow>
   wr2 m i j v = Some (upd2 m (nat i) (nat j) v)"
  using wr2_dims [of r c m "nat i" "nat j"] by (simp add: nat_less_iff)

lemma dims_nth: "dims r c m \<longleftrightarrow> length m = r \<and> (\<forall>i < r. length (m ! i) = c)"
  unfolding dims_def by (metis in_set_conv_nth)

lemma dims_upd2 [intro]: "dims r c m \<Longrightarrow> dims r c (upd2 m i j v)"
proof -
  have "length (upd2 m i j v ! k) = length (m ! k)" if "k < length m" for k
    using that by (cases "i = k") (simp_all add: upd2_def)
  then show "dims r c m \<Longrightarrow> dims r c (upd2 m i j v)"
    by (simp add: dims_nth) (simp add: upd2_def)
qed

lemma cell_upd2:
  "dims r c m \<Longrightarrow> i < r \<Longrightarrow> j < c \<Longrightarrow> i' < r \<Longrightarrow> j' < c \<Longrightarrow>
   cell (upd2 m i j v) i' j' = (if i = i' \<and> j = j' then v else cell m i' j')"
  unfolding dims_nth upd2_def by (auto simp: nth_list_update)

lemma dims_replicate [simp]: "dims r c (replicate r (replicate c v))"
  by (simp add: dims_def)

lemma cell_replicate [simp]: "i < r \<Longrightarrow> j < c \<Longrightarrow> cell (replicate r (replicate c v)) i j = v"
  by simp

lemma dims_ext:
  assumes "dims r c m" and "dims r c n"
    and "\<And>i j. i < r \<Longrightarrow> j < c \<Longrightarrow> cell m i j = cell n i j"
  shows "m = n"
  using assms unfolding dims_nth by (intro nth_equalityI) auto

section \<open>For loops\<close>

fun loopM :: "('i \<Rightarrow> 's \<Rightarrow> 's option) \<Rightarrow> 'i list \<Rightarrow> 's \<Rightarrow> 's option" where
  "loopM f [] s = Some s"
| "loopM f (i # is) s = do { s' \<leftarrow> f i s; loopM f is s' }"

text \<open>for-upt is the loop for(i = a; i < b; i++).\<close>

definition for_upt :: "nat \<Rightarrow> nat \<Rightarrow> (nat \<Rightarrow> 's \<Rightarrow> 's option) \<Rightarrow> 's \<Rightarrow> 's option" where
  "for_upt a b f s = loopM f [a..<b] s"

lemma loopM_append [simp]: "loopM f (xs @ ys) s = do { s' \<leftarrow> loopM f xs s; loopM f ys s' }"
  by (induction xs arbitrary: s) (auto split: bind_splits)

lemma loopM_Nil [simp]: "loopM f [] = Some"
  by (rule ext) simp

lemma for_upt_ge [simp]: "b \<le> a \<Longrightarrow> for_upt a b f s = Some s"
  by (simp add: for_upt_def)

lemma for_upt_Suc: "a \<le> b \<Longrightarrow> for_upt a (Suc b) f s = do { s' \<leftarrow> for_upt a b f s; f b s' }"
  by (simp add: for_upt_def)

lemma for_upt_unfold:
  "for_upt a b f s = (if a < b then do { s' \<leftarrow> f a s; for_upt (Suc a) b f s' } else Some s)"
  by (simp add: for_upt_def upt_rec)

text \<open>The loop rule: an invariant indexed by the loop variable gives total correctness.\<close>

lemma for_upt_inv:
  assumes "a \<le> b" and "P a s"
    and step: "\<And>i s. a \<le> i \<Longrightarrow> i < b \<Longrightarrow> P i s \<Longrightarrow> runs_to (f i s) (P (Suc i))"
  shows "runs_to (for_upt a b f s) (P b)"
  using assms(1) step
proof (induction "b - a" arbitrary: b)
  case 0
  with assms(1,2) show ?case by simp
next
  case (Suc d)
  then obtain c where b: "b = Suc c" and "a \<le> c" by (cases b) auto
  moreover have "runs_to (for_upt a c f s) (P c)"
    using Suc.prems b \<open>a \<le> c\<close> by (intro Suc.hyps(1)) (use Suc.hyps(2) b in auto)
  ultimately show ?case
    using Suc.prems(2) [of c]
    by (auto simp: for_upt_Suc elim!: runs_to_mono)
qed

lemma for_upt_post:
  assumes "P a s" and "\<And>i s. a \<le> i \<Longrightarrow> i < b \<Longrightarrow> P i s \<Longrightarrow> runs_to (f i s) (P (Suc i))"
    and "a \<le> b" and "\<And>s. P b s \<Longrightarrow> Q s"
  shows "runs_to (for_upt a b f s) Q"
  using for_upt_inv [of a b P s f] assms runs_to_mono by blast

lemma loopM_inv:
  assumes "P s" and "\<And>i s. i \<in> set is \<Longrightarrow> P s \<Longrightarrow> runs_to (f i s) P"
  shows "runs_to (loopM f is s) P"
  using assms
proof (induction "is" arbitrary: s)
  case Nil
  then show ?case by simp
next
  case (Cons i "is")
  then have "runs_to (f i s) P" by simp
  then have "runs_to (f i s) (\<lambda>x. runs_to (loopM f is x) P)"
    by (rule runs_to_mono) (use Cons in auto)
  then show ?case by simp
qed

text \<open>
  The loop rule over any list of indices: the invariant speaks of the indices already visited.
  Nested loops are one loop over the product of their ranges.
\<close>

lemma loopM_prefix_aux:
  assumes "P pre s"
    and "\<And>ys i zs s. pre @ xs = ys @ i # zs \<Longrightarrow> P ys s \<Longrightarrow> runs_to (f i s) (P (ys @ [i]))"
  shows "runs_to (loopM f xs s) (P (pre @ xs))"
  using assms
proof (induction xs arbitrary: pre s)
  case Nil
  then show ?case by simp
next
  case (Cons i xs)
  have "runs_to (f i s) (P (pre @ [i]))"
    using Cons.prems(2) [of pre i xs s] Cons.prems(1) by simp
  then have "runs_to (f i s) (\<lambda>s'. runs_to (loopM f xs s') (P ((pre @ [i]) @ xs)))"
    by (rule runs_to_mono) (rule Cons.IH, use Cons.prems(2) in auto)
  then show ?case by simp
qed

lemma loopM_prefix:
  assumes "P [] s" and "\<And>ys i zs s. xs = ys @ i # zs \<Longrightarrow> P ys s \<Longrightarrow> runs_to (f i s) (P (ys @ [i]))"
  shows "runs_to (loopM f xs s) (P xs)"
  using loopM_prefix_aux [of P "[]" s xs f] assms by simp

lemma loopM_map: "loopM f (map g xs) s = loopM (\<lambda>i. f (g i)) xs s"
  by (induction xs arbitrary: s) (auto split: bind_splits)

lemma loopM_product:
  "loopM (\<lambda>x. loopM (f x) ys) xs = loopM (\<lambda>(x, y). f x y) (List.product xs ys)"
proof (induction xs)
  case (Cons a xs)
  show ?case by (rule ext) (simp add: loopM_map Cons.IH)
qed simp

lemma loopM_Sigma:
  "loopM (\<lambda>x. loopM (f x) (g x)) xs =
   loopM (\<lambda>(x, y). f x y) (concat (map (\<lambda>x. map (Pair x) (g x)) xs))"
proof (induction xs)
  case (Cons a xs)
  show ?case by (rule ext) (simp add: loopM_map Cons.IH)
qed simp

section \<open>Words\<close>

lemma unat_minus_word: "b \<le> a \<Longrightarrow> unat (a - b :: 'w::len word) = unat a - unat b"
  by (simp add: unat_sub)

lemma word_eq_unat: "(a :: 'w::len word) = b \<longleftrightarrow> unat a = unat b"
  by (simp add: word_unat_eq_iff)

lemma unat_less32: "unat (w :: u32) < 4294967296"
  using unsigned_less [of w, where ?'a = nat] by simp

lemma unat_less16: "unat (w :: u16) < 65536"
  using unsigned_less [of w, where ?'a = nat] by simp

lemma unat_less8: "unat (w :: u8) < 256"
  using unsigned_less [of w, where ?'a = nat] by simp

lemma unat_ucast_8_16 [simp]: "unat (ucast (w :: u8) :: u16) = unat w"
  by (simp add: unsigned_ucast_eq take_bit_nat_eq_self order_less_trans [OF unat_less8])

lemma unat_ucast_8_32 [simp]: "unat (ucast (w :: u8) :: u32) = unat w"
  by (simp add: unsigned_ucast_eq take_bit_nat_eq_self order_less_trans [OF unat_less8])

lemma unat_ucast_16_32 [simp]: "unat (ucast (w :: u16) :: u32) = unat w"
  by (simp add: unsigned_ucast_eq take_bit_nat_eq_self order_less_trans [OF unat_less16])

lemma unat_ucast_down16: "unat (w :: u32) < 65536 \<Longrightarrow> unat (ucast w :: u16) = unat w"
  by (simp add: unsigned_ucast_eq take_bit_nat_eq_self)

lemma unat_Suc8: "unat (m + 1 :: u8) = Suc (unat m) mod 256"
  by (simp add: unat_word_ariths)

lemma unat_add32: "unat (l + k :: u32) = (unat l + unat k) mod 4294967296"
  by (simp add: unat_word_ariths)

text \<open>Two digits in base d determine each other.\<close>

lemma digits_eq:
  "a * d + b = a' * d + b' \<Longrightarrow> b < d \<Longrightarrow> b' < d \<Longrightarrow> a = a' \<and> b = (b' :: nat)"
  by (metis add.commute div_mult_self1 div_less mod_mult_self2 mod_less mult.commute
      add_left_cancel add_right_cancel mult_cancel2 less_nat_zero_code plus_nat.add_0)

text \<open>The unsigned value of a word, read from the value as a natural number.\<close>

lemma uint_unat: "uint (w :: 'w::len word) = int (unat w)"
  by simp

section \<open>Partial correctness over the option monad\<close>

lemma bind_SomeE:
  assumes "m \<bind> f = Some y" obtains x where "m = Some x" "f x = Some y"
  using assms by (cases m) auto

definition sempre :: "'a option \<Rightarrow> ('a \<Rightarrow> bool) \<Rightarrow> bool" where
  "sempre m Q \<longleftrightarrow> (\<forall>x. m = Some x \<longrightarrow> Q x)"

named_theorems leva \<open>rules that push sempre through the statements of a body\<close>

lemma sempreD: "sempre m Q \<Longrightarrow> m = Some x \<Longrightarrow> Q x"
  by (simp add: sempre_def)

lemma sempre_any: "(\<And>x. m = Some x \<Longrightarrow> Q x) \<Longrightarrow> sempre m Q"
  by (simp add: sempre_def)

lemma sempre_weaken: "sempre m R \<Longrightarrow> (\<And>x. R x \<Longrightarrow> Q x) \<Longrightarrow> sempre m Q"
  by (simp add: sempre_def)

lemma sempre_Some [leva]: "Q x \<Longrightarrow> sempre (Some x) Q"
  by (simp add: sempre_def)

lemma sempre_None [leva]: "sempre None Q"
  by (simp add: sempre_def)

lemma sempre_bind [leva]: "sempre m (\<lambda>x. sempre (f x) Q) \<Longrightarrow> sempre (m \<bind> f) Q"
  by (cases m) (auto simp: sempre_def)

lemma sempre_if [leva]: "(b \<Longrightarrow> sempre m Q) \<Longrightarrow> (\<not> b \<Longrightarrow> sempre n Q) \<Longrightarrow> sempre (if b then m else n) Q"
  by simp

lemma sempre_let [leva]: "sempre (g v) Q \<Longrightarrow> sempre (let x = v in g x) Q"
  by simp

lemma sempre_prod [leva]: "(\<And>a b. p = (a, b) \<Longrightarrow> sempre (h a b) Q) \<Longrightarrow> sempre (case p of (a, b) \<Rightarrow> h a b) Q"
  by (cases p) simp

lemma sempre_option [leva]:
  "(v = None \<Longrightarrow> sempre m Q) \<Longrightarrow> (\<And>y. v = Some y \<Longrightarrow> sempre (k y) Q)
    \<Longrightarrow> sempre (case v of None \<Rightarrow> m | Some y \<Rightarrow> k y) Q"
  by (cases v) simp_all

lemma sempre_sum [leva]:
  "(\<And>a. v = Inl a \<Longrightarrow> sempre (f a) Q) \<Longrightarrow> (\<And>b. v = Inr b \<Longrightarrow> sempre (g b) Q)
    \<Longrightarrow> sempre (case v of Inl a \<Rightarrow> f a | Inr b \<Rightarrow> g b) Q"
  by (cases v) simp_all

lemma loopM_sempre:
  assumes "\<And>i x. P x \<Longrightarrow> sempre (f i x) P" and "P x"
  shows "sempre (loopM f is x) P"
  using assms(2)
proof (induction "is" arbitrary: x)
  case (Cons i "is")
  then show ?case using assms(1) [of x i] by (fastforce simp: sempre_def elim!: bind_SomeE)
qed (simp add: sempre_def)

end
