(* ===== verification/Clist.thy ===== *)
theory Clist
  imports Tsch_Prelude
begin

text \<open>
  os/lib/list.c: singly linked lists threaded through their items. A pointer is an option of an
  address (None is NULL); the first word of the item at an address is its next pointer, so the
  items form a heap of next pointers, and a list_t is a cell holding the head pointer. A loop
  that walks a cyclic list does not end, and dereferencing NULL is undefined: both are None.

  The second half relates the heap to abstract lists of addresses: every operation, run on a heap
  that represents a list, ends and leaves the heap of the expected list, touching no item outside.
\<close>

section \<open>Definitions\<close>

type_synonym ptr = "nat option"

record clist =
  cabeca :: ptr
  prox :: "nat \<Rightarrow> ptr"

definition deref :: "clist \<Rightarrow> ptr \<Rightarrow> ptr option" where
  "deref c p = (case p of None \<Rightarrow> None | Some a \<Rightarrow> Some (prox c a))"

definition set_next :: "ptr \<Rightarrow> ptr \<Rightarrow> clist \<Rightarrow> clist option" where
  "set_next p q c = (case p of None \<Rightarrow> None | Some a \<Rightarrow> Some (c\<lparr>prox := (prox c)(a := q)\<rparr>))"

definition list_init :: "clist \<Rightarrow> clist" where
  "list_init c = c\<lparr>cabeca := None\<rparr>"

definition list_head :: "clist \<Rightarrow> ptr" where
  "list_head c = cabeca c"

definition list_copy :: "ptr \<Rightarrow> ptr" where
  "list_copy src = src"

partial_function (option) tail_loop :: "(nat \<Rightarrow> ptr) \<Rightarrow> nat \<Rightarrow> nat option" where
  "tail_loop nx l = (case nx l of None \<Rightarrow> Some l | Some m \<Rightarrow> tail_loop nx m)"

definition list_tail :: "clist \<Rightarrow> ptr option" where
  "list_tail c = (case cabeca c of None \<Rightarrow> Some None
     | Some a \<Rightarrow> do { l \<leftarrow> tail_loop (prox c) a; Some (Some l) })"

partial_function (option) remove_loop :: "ptr \<Rightarrow> ptr \<Rightarrow> ptr \<Rightarrow> clist \<Rightarrow> clist option" where
  "remove_loop item l r c = (case l of None \<Rightarrow> Some c
     | Some a \<Rightarrow>
         if l = item then do {
           c \<leftarrow> (if r = None then Some (c\<lparr>cabeca := prox c a\<rparr>) else set_next r (prox c a) c);
           set_next l None c }
         else remove_loop item (prox c a) l c)"

definition list_remove :: "ptr \<Rightarrow> clist \<Rightarrow> clist option" where
  "list_remove item c = (if cabeca c = None then Some c else remove_loop item (cabeca c) None c)"

definition list_add :: "ptr \<Rightarrow> clist \<Rightarrow> clist option" where
  "list_add item c = do {
     c \<leftarrow> list_remove item c;
     c \<leftarrow> set_next item None c;
     l \<leftarrow> list_tail c;
     (if l = None then Some (c\<lparr>cabeca := item\<rparr>) else set_next l item c) }"

definition list_push :: "ptr \<Rightarrow> clist \<Rightarrow> clist option" where
  "list_push item c = do {
     c \<leftarrow> list_remove item c;
     c \<leftarrow> set_next item (cabeca c) c;
     Some (c\<lparr>cabeca := item\<rparr>) }"

text \<open>The loop of list-chop stops at the last item but one.\<close>

partial_function (option) chop_loop :: "(nat \<Rightarrow> ptr) \<Rightarrow> nat \<Rightarrow> nat option" where
  "chop_loop nx l = (case nx l of None \<Rightarrow> None
     | Some m \<Rightarrow> (if nx m = None then Some l else chop_loop nx m))"

definition list_chop :: "clist \<Rightarrow> (ptr \<times> clist) option" where
  "list_chop c = (case cabeca c of None \<Rightarrow> Some (None, c)
     | Some a \<Rightarrow>
         if prox c a = None then Some (Some a, c\<lparr>cabeca := None\<rparr>)
         else do {
           l \<leftarrow> chop_loop (prox c) a;
           c' \<leftarrow> set_next (Some l) None c;
           Some (prox c l, c') })"

definition list_pop :: "clist \<Rightarrow> ptr \<times> clist" where
  "list_pop c = (cabeca c,
     (case cabeca c of None \<Rightarrow> c | Some a \<Rightarrow> c\<lparr>cabeca := prox c a\<rparr>))"

partial_function (option) length_loop :: "(nat \<Rightarrow> ptr) \<Rightarrow> ptr \<Rightarrow> int \<Rightarrow> int option" where
  "length_loop nx l n = (case l of None \<Rightarrow> Some n | Some a \<Rightarrow> length_loop nx (nx a) (n + 1))"

definition list_length :: "clist \<Rightarrow> int option" where
  "list_length c = length_loop (prox c) (cabeca c) 0"

definition list_insert :: "ptr \<Rightarrow> ptr \<Rightarrow> clist \<Rightarrow> clist option" where
  "list_insert previtem newitem c =
     (if previtem = None then list_push newitem c
      else do {
        c \<leftarrow> list_remove newitem c;
        q \<leftarrow> deref c previtem;
        c \<leftarrow> set_next newitem q c;
        set_next previtem newitem c })"

definition list_item_next :: "clist \<Rightarrow> ptr \<Rightarrow> ptr" where
  "list_item_next c item = (case item of None \<Rightarrow> None | Some a \<Rightarrow> prox c a)"

partial_function (option) contains_loop :: "(nat \<Rightarrow> ptr) \<Rightarrow> ptr \<Rightarrow> ptr \<Rightarrow> bool option" where
  "contains_loop nx item l = (case l of None \<Rightarrow> Some False
     | Some a \<Rightarrow> if item = l then Some True else contains_loop nx item (nx a))"

definition list_contains :: "ptr \<Rightarrow> clist \<Rightarrow> bool option" where
  "list_contains item c = contains_loop (prox c) item (cabeca c)"

declare tail_loop.simps [code] remove_loop.simps [code] chop_loop.simps [code]
  length_loop.simps [code] contains_loop.simps [code]

section \<open>The list a heap represents\<close>

text \<open>Following the next pointers from p visits the addresses xs and arrives at q.\<close>

fun seg :: "(nat \<Rightarrow> ptr) \<Rightarrow> ptr \<Rightarrow> nat list \<Rightarrow> ptr \<Rightarrow> bool" where
  "seg nx p [] q \<longleftrightarrow> p = q"
| "seg nx p (x # xs) q \<longleftrightarrow> p = Some x \<and> seg nx (nx x) xs q"

definition rep :: "clist \<Rightarrow> nat list \<Rightarrow> bool" where
  "rep c xs \<longleftrightarrow> seg (prox c) (cabeca c) xs None \<and> distinct xs"

lemma seg_append [simp]: "seg nx p (xs @ ys) q \<longleftrightarrow> (\<exists>m. seg nx p xs m \<and> seg nx m ys q)"
  by (induction xs arbitrary: p) auto

lemma seg_upd [simp]: "x \<notin> set xs \<Longrightarrow> seg (nx(x := v)) p xs q \<longleftrightarrow> seg nx p xs q"
  by (induction xs arbitrary: p) auto

lemma seg_None [simp]: "seg nx None xs q \<longleftrightarrow> xs = [] \<and> q = None"
  by (cases xs) auto

text \<open>A chain that ends in NULL visits no address twice, so distinctness comes for free.\<close>

lemma seg_det: "seg nx p xs None \<Longrightarrow> seg nx p ys None \<Longrightarrow> xs = ys"
proof (induction xs arbitrary: p ys)
  case Nil
  then show ?case by simp
next
  case (Cons x xs)
  then show ?case by (cases ys) auto
qed

lemma seg_distinct: "seg nx p xs None \<Longrightarrow> distinct xs"
proof (induction xs arbitrary: p)
  case (Cons x xs)
  have "x \<notin> set xs"
  proof
    assume "x \<in> set xs"
    then obtain as bs where xs: "xs = as @ x # bs" by (meson split_list)
    then have "seg nx (nx x) bs None" using Cons.prems by auto
    then have "bs = xs" using seg_det Cons.prems by auto
    then show False using xs by simp
  qed
  then show ?case using Cons by auto
qed simp

lemma rep_seg: "rep c xs \<longleftrightarrow> seg (prox c) (cabeca c) xs None"
  using seg_distinct by (auto simp: rep_def)

lemma rep_det: "rep c xs \<Longrightarrow> rep c ys \<Longrightarrow> xs = ys"
  using seg_det by (auto simp: rep_seg)

lemma set_next_Some [simp]: "set_next (Some a) q c = Some (c\<lparr>prox := (prox c)(a := q)\<rparr>)"
  by (simp add: set_next_def)

text \<open>Only the items xs (and x) may change their next pointer.\<close>

definition quadro :: "nat set \<Rightarrow> clist \<Rightarrow> clist \<Rightarrow> bool" where
  "quadro A c c' \<longleftrightarrow> (\<forall>y. y \<notin> A \<longrightarrow> prox c' y = prox c y)"

lemma quadroI [intro]: "(\<And>y. y \<notin> A \<Longrightarrow> prox c' y = prox c y) \<Longrightarrow> quadro A c c'"
  by (simp add: quadro_def)

lemma list_init_rep [simp]: "rep (list_init c) []"
  by (simp add: rep_def list_init_def)

lemma list_head_rep: "rep c xs \<Longrightarrow> list_head c = (if xs = [] then None else Some (hd xs))"
  by (cases xs) (auto simp: rep_def list_head_def)

lemma tail_loop_seg: "seg nx (nx a) xs None \<Longrightarrow> tail_loop nx a = Some (last (a # xs))"
  by (induction xs arbitrary: a) (auto simp: tail_loop.simps)

lemma list_tail_rep:
  "rep c xs \<Longrightarrow> list_tail c = Some (if xs = [] then None else Some (last xs))"
  by (cases xs) (auto simp: rep_def list_tail_def tail_loop_seg)

lemma remove_loop_seg:
  assumes "seg (prox c) (cabeca c) (pre @ xs) None" and "x \<notin> set pre"
    and "l = (if xs = [] then None else Some (hd xs))" and "r = (if pre = [] then None else Some (last pre))"
  shows "\<exists>c'. remove_loop (Some x) l r c = Some c' \<and> seg (prox c') (cabeca c') (pre @ remove1 x xs) None \<and>
     quadro (set (pre @ xs)) c c' \<and> (x \<in> set xs \<longrightarrow> prox c' x = None)"
  using assms
proof (induction xs arbitrary: pre l r)
  case Nil
  then show ?case by (auto simp: remove_loop.simps)
next
  case (Cons a xs)
  have dist: "distinct (pre @ a # xs)" using Cons.prems(1) by (rule seg_distinct)
  show ?case
  proof (cases "a = x")
    case True
    show ?thesis
    proof (cases pre rule: rev_cases)
      case Nil
      then show ?thesis using Cons.prems True dist by (auto simp: remove_loop.simps quadro_def)
    next
      case (snoc ps b)
      then show ?thesis using Cons.prems True dist by (auto simp: remove_loop.simps quadro_def)
    qed
  next
    case False
    have "\<exists>c'. remove_loop (Some x) (prox c a) (Some a) c = Some c' \<and>
       seg (prox c') (cabeca c') ((pre @ [a]) @ remove1 x xs) None \<and>
       quadro (set ((pre @ [a]) @ xs)) c c' \<and> (x \<in> set xs \<longrightarrow> prox c' x = None)"
    proof (rule Cons.IH)
      show "seg (prox c) (cabeca c) ((pre @ [a]) @ xs) None" using Cons.prems(1) by simp
      show "x \<notin> set (pre @ [a])" using Cons.prems(2) False by auto
      show "prox c a = (if xs = [] then None else Some (hd xs))"
        using Cons.prems(1) by (cases xs) auto
    qed simp
    then show ?thesis
      using Cons.prems(3,4) False by (subst remove_loop.simps) auto
  qed
qed

lemma list_remove_rep:
  assumes "rep c xs"
  shows "\<exists>c'. list_remove (Some x) c = Some c' \<and> rep c' (remove1 x xs) \<and> quadro (set xs) c c' \<and>
     (x \<in> set xs \<longrightarrow> prox c' x = None)"
proof (cases xs)
  case Nil
  then show ?thesis using assms by (auto simp: list_remove_def rep_def)
next
  case (Cons a ys)
  then have "cabeca c = Some a" using assms by (auto simp: rep_def)
  then have "list_remove (Some x) c = remove_loop (Some x) (Some a) None c"
    by (simp add: list_remove_def)
  moreover have "\<exists>c'. remove_loop (Some x) (Some a) None c = Some c' \<and>
     seg (prox c') (cabeca c') ([] @ remove1 x xs) None \<and>
     quadro (set ([] @ xs)) c c' \<and> (x \<in> set xs \<longrightarrow> prox c' x = None)"
    by (rule remove_loop_seg) (use assms Cons in \<open>simp_all add: rep_seg\<close>)
  ultimately show ?thesis unfolding rep_seg by simp
qed

text \<open>Linking a new item behind the last one.\<close>

lemma append_rep:
  assumes c: "rep c xs" and x: "x \<notin> set xs" and nx: "prox c x = None"
  shows "\<exists>c'. do { l \<leftarrow> list_tail c;
      (if l = None then Some (c\<lparr>cabeca := Some x\<rparr>) else set_next l (Some x) c) } = Some c' \<and>
    rep c' (xs @ [x]) \<and> quadro (set xs) c c'"
proof (cases xs rule: rev_cases)
  case Nil
  then show ?thesis using nx list_tail_rep [OF c] by (simp add: rep_seg quadro_def)
next
  case (snoc ys b)
  have s: "seg (prox c) (cabeca c) (ys @ [b]) None" "distinct (ys @ [b])" and xb: "x \<noteq> b"
    using c x snoc by (auto simp: rep_def)
  let ?c = "c\<lparr>prox := (prox c)(b := Some x)\<rparr>"
  have "rep ?c (xs @ [x])" using s xb nx snoc by (simp add: rep_seg)
  moreover have "quadro (set xs) c ?c" using snoc by (simp add: quadro_def)
  ultimately show ?thesis using list_tail_rep [OF c] snoc by simp
qed

lemma list_add_rep:
  assumes "rep c xs"
  shows "\<exists>c'. list_add (Some x) c = Some c' \<and> rep c' (remove1 x xs @ [x]) \<and> quadro (insert x (set xs)) c c'"
proof -
  let ?xs = "remove1 x xs"
  obtain c1 where c1: "list_remove (Some x) c = Some c1" "rep c1 ?xs" "quadro (set xs) c c1"
    using list_remove_rep [OF assms] by blast
  have x: "x \<notin> set ?xs" using assms by (auto simp: rep_def)
  let ?c2 = "c1\<lparr>prox := (prox c1)(x := None)\<rparr>"
  have r2: "rep ?c2 ?xs" using c1(2) x by (simp add: rep_seg)
  obtain c' where c': "do { l \<leftarrow> list_tail ?c2;
      (if l = None then Some (?c2\<lparr>cabeca := Some x\<rparr>) else set_next l (Some x) ?c2) } = Some c'"
    "rep c' (?xs @ [x])" "quadro (set ?xs) ?c2 c'"
    using append_rep [OF r2 x] by auto
  have "quadro (insert x (set xs)) c c'"
    using c1(3) c'(3) set_remove1_subset [of x xs] by (auto simp: quadro_def)
  moreover have "list_add (Some x) c = Some c'" unfolding list_add_def using c1(1) c'(1) by simp
  ultimately show ?thesis using c'(2) by blast
qed

lemma list_push_rep:
  assumes "rep c xs"
  shows "\<exists>c'. list_push (Some x) c = Some c' \<and> rep c' (x # remove1 x xs) \<and> quadro (insert x (set xs)) c c'"
proof -
  obtain c1 where c1: "list_remove (Some x) c = Some c1" "rep c1 (remove1 x xs)" "quadro (set xs) c c1"
    using list_remove_rep [OF assms] by blast
  have x: "x \<notin> set (remove1 x xs)" using assms by (auto simp: rep_def)
  show ?thesis using c1 x by (auto simp: list_push_def rep_seg quadro_def)
qed

lemma chop_loop_seg:
  "seg nx (Some a) (a # xs) None \<Longrightarrow> xs \<noteq> [] \<Longrightarrow> chop_loop nx a = Some (last (butlast (a # xs)))"
proof (induction xs arbitrary: a)
  case (Cons b xs)
  then show ?case by (cases xs) (auto simp: chop_loop.simps)
qed simp

lemma list_chop_rep:
  assumes "rep c xs"
  shows "\<exists>c'. list_chop c = Some (if xs = [] then None else Some (last xs), c') \<and> rep c' (butlast xs) \<and>
     quadro (set xs) c c'"
proof (cases xs)
  case Nil
  then show ?thesis using assms by (auto simp: list_chop_def rep_def)
next
  case (Cons a ys)
  show ?thesis
  proof (cases ys rule: rev_cases)
    case Nil
    then show ?thesis using assms Cons by (auto simp: list_chop_def rep_def)
  next
    case (snoc zs b)
    let ?l = "last (a # zs)"
    have s: "seg (prox c) (cabeca c) ((a # zs) @ [b]) None" using assms Cons snoc by (simp add: rep_seg)
    then have d: "distinct ((a # zs) @ [b])" by (rule seg_distinct)
    have "chop_loop (prox c) a = Some ?l"
      using chop_loop_seg [of "prox c" a "zs @ [b]"] s by auto
    moreover have "prox c a \<noteq> None" using s by (cases zs) auto
    moreover have pl: "prox c ?l = Some b" "rep (c\<lparr>prox := (prox c)(?l := None)\<rparr>) (a # zs)"
      using s d by (cases "a # zs" rule: rev_cases; auto simp: rep_seg)+
    ultimately show ?thesis
      using s Cons snoc by (auto simp: list_chop_def quadro_def butlast_append)
  qed
qed

lemma list_pop_rep:
  "rep c xs \<Longrightarrow> list_pop c = (if xs = [] then None else Some (hd xs), snd (list_pop c)) \<and>
     rep (snd (list_pop c)) (tl xs) \<and> prox (snd (list_pop c)) = prox c"
  by (cases xs) (auto simp: list_pop_def rep_def)

lemma length_loop_seg: "seg nx p xs None \<Longrightarrow> length_loop nx p n = Some (n + int (length xs))"
  by (induction xs arbitrary: p n) (auto simp: length_loop.simps)

lemma list_length_rep: "rep c xs \<Longrightarrow> list_length c = Some (int (length xs))"
  using length_loop_seg [of "prox c" "cabeca c" xs 0] by (simp add: list_length_def rep_def)

lemma contains_loop_seg: "seg nx p xs None \<Longrightarrow> contains_loop nx (Some x) p = Some (x \<in> set xs)"
  by (induction xs arbitrary: p) (auto simp: contains_loop.simps)

lemma list_contains_rep: "rep c xs \<Longrightarrow> list_contains (Some x) c = Some (x \<in> set xs)"
  by (simp add: list_contains_def rep_def contains_loop_seg)

lemma list_item_next_rep:
  "rep c (xs @ x # ys) \<Longrightarrow> list_item_next c (Some x) = (if ys = [] then None else Some (hd ys))"
  by (cases ys) (auto simp: list_item_next_def rep_def)

lemma list_insert_rep:
  assumes c: "rep c (xs @ p # ys)" and "x \<noteq> p"
  shows "\<exists>c'. list_insert (Some p) (Some x) c = Some c' \<and>
     rep c' (remove1 x xs @ p # x # (if x \<in> set xs then ys else remove1 x ys)) \<and>
     quadro (insert x (set (xs @ p # ys))) c c'"
proof -
  let ?ys = "if x \<in> set xs then ys else remove1 x ys"
  have e: "remove1 x (xs @ p # ys) = remove1 x xs @ p # ?ys"
    using assms(2) by (simp add: remove1_append remove1_idem)
  obtain c1 where c1: "list_remove (Some x) c = Some c1" "rep c1 (remove1 x xs @ p # ?ys)"
    "quadro (set (xs @ p # ys)) c c1"
    using list_remove_rep [OF c, of x] unfolding e by blast
  have d: "distinct (remove1 x xs @ p # ?ys)" using c1(2) by (simp add: rep_def)
  have x: "x \<notin> set (remove1 x xs @ p # ?ys)"
    using c assms(2) unfolding rep_def by (auto dest: notin_set_remove1)
  show ?thesis
    using c1 d x assms(2) by (auto simp: list_insert_def rep_seg deref_def quadro_def)
qed

text \<open>Inserting an item after itself leaves it pointing at itself, outside the list.\<close>

lemma list_insert_self:
  assumes "rep c xs" and "x \<in> set xs"
  shows "\<exists>c'. list_insert (Some x) (Some x) c = Some c' \<and> prox c' x = Some x"
  using list_remove_rep [OF assms(1), of x] assms(2)
  by (auto simp: list_insert_def deref_def)

section \<open>Abstract lists for the components\<close>

text \<open>
  The components keep their lists as lists of addresses; the operations below are what the lemmas
  above prove of the heap.
\<close>

definition l_remove :: "'a \<Rightarrow> 'a list \<Rightarrow> 'a list" where "l_remove x xs = remove1 x xs"
definition l_add :: "'a \<Rightarrow> 'a list \<Rightarrow> 'a list" where "l_add x xs = remove1 x xs @ [x]"
definition l_head :: "'a list \<Rightarrow> 'a option" where "l_head xs = (if xs = [] then None else Some (hd xs))"

text \<open>The item after x, and NULL for the last item or one that is not in the list.\<close>

fun l_next :: "'a list \<Rightarrow> 'a \<Rightarrow> 'a option" where
  "l_next [] x = None"
| "l_next (y # ys) x = (if x = y then l_head ys else l_next ys x)"

lemma set_l_add [simp]: "set (l_add x xs) = insert x (set xs)"
  using set_remove1_subset [of x xs] by (auto simp: l_add_def) (metis in_set_remove1)

lemma distinct_l_add [simp]: "distinct xs \<Longrightarrow> distinct (l_add x xs)"
  by (simp add: l_add_def distinct_remove1)

lemma set_l_remove [simp]: "distinct xs \<Longrightarrow> set (l_remove x xs) = set xs - {x}"
  by (simp add: l_remove_def)

lemma distinct_l_remove [simp]: "distinct xs \<Longrightarrow> distinct (l_remove x xs)"
  by (simp add: l_remove_def distinct_remove1)

lemma l_add_new: "x \<notin> set xs \<Longrightarrow> l_add x xs = xs @ [x]"
  by (simp add: l_add_def remove1_idem)

lemma l_next_split: "x \<notin> set pre \<Longrightarrow> l_next (pre @ x # post) x = l_head post"
  by (induction pre) auto

lemma l_head_Nil [simp]: "l_head [] = None" and l_head_Cons [simp]: "l_head (x # xs) = Some x"
  by (simp_all add: l_head_def)

text \<open>
  Iterating with head and next. Any pair of head and next functions that agree with a list of
  items visits exactly these items, in order, and then arrives at NULL.
\<close>

locale list_iter =
  fixes itens :: "'s \<Rightarrow> 'a list"
    and head :: "'s \<Rightarrow> 'a option"
    and nextf :: "'s \<Rightarrow> 'a \<Rightarrow> 'a option"
    and ok :: "'s \<Rightarrow> bool"
  assumes head: "ok s \<Longrightarrow> head s = l_head (itens s)"
    and nextf: "ok s \<Longrightarrow> x \<in> set (itens s) \<Longrightarrow> nextf s x = l_next (itens s) x"
    and dist: "ok s \<Longrightarrow> distinct (itens s)"
begin

text \<open>for(l = head; l != NULL; l = next(l)), with the number of turns as fuel.\<close>

primrec walk :: "nat \<Rightarrow> 's \<Rightarrow> ('a \<Rightarrow> 'b \<Rightarrow> 'b) \<Rightarrow> 'a option \<Rightarrow> 'b \<Rightarrow> 'b \<times> 'a option" where
  "walk 0 s f p b = (b, p)"
| "walk (Suc n) s f p b = (case p of None \<Rightarrow> (b, None) | Some x \<Rightarrow> walk n s f (nextf s x) (f x b))"

lemma walk_suffix:
  assumes "ok s" and "itens s = pre @ xs" and "length xs \<le> n"
  shows "walk n s f (l_head xs) b = (fold f xs b, None)"
  using assms(2,3)
proof (induction xs arbitrary: pre b n)
  case Nil
  then show ?case by (cases n) auto
next
  case (Cons x xs)
  then obtain m where n: "n = Suc m" "length xs \<le> m" by (cases n) auto
  have "x \<notin> set pre" using dist [OF assms(1)] Cons.prems(1) by auto
  then have "nextf s x = l_head xs" using nextf [OF assms(1), of x] Cons.prems(1) l_next_split [of x pre xs] by simp
  then show ?case using Cons.IH [of "pre @ [x]" m "f x b"] Cons.prems(1) n by simp
qed

lemma walk_all: "ok s \<Longrightarrow> length (itens s) \<le> n \<Longrightarrow> walk n s f (head s) b = (fold f (itens s) b, None)"
  using walk_suffix [of s "[]" "itens s" n f b] head [of s] by simp

end

text \<open>The heap provides such an iteration: the list it represents is determined by it.\<close>

definition heap_ok :: "nat list \<times> clist \<Rightarrow> bool" where
  "heap_ok = (\<lambda>(xs, c). rep c xs)"

interpretation heap: list_iter fst "\<lambda>(xs, c). list_head c" "\<lambda>(xs, c) x. list_item_next c (Some x)" heap_ok
proof (unfold_locales, goal_cases)
  case (1 s)
  then show ?case by (auto simp: heap_ok_def list_head_rep l_head_def split: prod.splits)
next
  case (2 s x)
  then obtain xs c where s: "s = (xs, c)" "rep c xs" "x \<in> set xs" by (cases s) (auto simp: heap_ok_def)
  then obtain pre post where xs: "xs = pre @ x # post" by (meson split_list)
  moreover have "x \<notin> set pre" using s xs by (auto simp: rep_def)
  ultimately show ?case
    using list_item_next_rep [of c pre x post] s l_next_split [of x pre post] by (simp add: l_head_def)
next
  case (3 s)
  then show ?case by (auto simp: heap_ok_def rep_def)
qed

end
