(* ===== verification/Memb.thy ===== *)
theory Memb
  imports Tsch_Prelude
begin

text \<open>
  os/lib/memb.c: pools of equally sized blocks. A pointer into a pool is the number of the block
  it points to, NULL is None; the pointers the clients hold come from memb-alloc and point at the
  start of a block. The contents of the blocks are a list beside the flags.

  The locale pool is the contract of such an allocator: its client lemma says that two blocks
  alive at the same time are different, whatever the sequence of operations.
\<close>

section \<open>Definitions\<close>

record 'a memb =
  used :: "bool list"
  mem :: "'a list"

definition memb_init :: "'a \<Rightarrow> 'a memb \<Rightarrow> 'a memb" where
  "memb_init zero m = \<lparr>used = replicate (length (used m)) False, mem = replicate (length (used m)) zero\<rparr>"

fun alloc_loop :: "bool list \<Rightarrow> nat list \<Rightarrow> nat option" where
  "alloc_loop us [] = None"
| "alloc_loop us (i # is) = (if us ! i = False then Some i else alloc_loop us is)"

definition memb_alloc :: "'a memb \<Rightarrow> nat option \<times> 'a memb" where
  "memb_alloc m = (case alloc_loop (used m) [0..<length (used m)] of
     Some i \<Rightarrow> (Some i, m\<lparr>used := (used m)[i := True]\<rparr>)
   | None \<Rightarrow> (None, m))"

fun free_loop :: "nat option \<Rightarrow> nat list \<Rightarrow> 'a memb \<Rightarrow> int \<times> 'a memb" where
  "free_loop ptr [] m = (-1, m)"
| "free_loop ptr (i # is) m =
     (if Some i = ptr then
        (if used m ! i = False then (-1, m) else (0, m\<lparr>used := (used m)[i := False]\<rparr>))
      else free_loop ptr is m)"

definition memb_free :: "nat option \<Rightarrow> 'a memb \<Rightarrow> int \<times> 'a memb" where
  "memb_free ptr m = free_loop ptr [0..<length (used m)] m"

definition memb_inmemb :: "'a memb \<Rightarrow> nat option \<Rightarrow> bool" where
  "memb_inmemb m ptr = (case ptr of None \<Rightarrow> False | Some i \<Rightarrow> i < length (used m))"

definition memb_numfree :: "'a memb \<Rightarrow> nat" where
  "memb_numfree m = foldl (\<lambda>k i. if used m ! i = False then k + 1 else k) 0 [0..<length (used m)]"

section \<open>The operations in closed form\<close>

definition vivos :: "'a memb \<Rightarrow> nat set" where
  "vivos m = {i. i < length (used m) \<and> used m ! i}"

lemma vivos_set: "vivos m = set (filter (\<lambda>i. used m ! i) [0..<length (used m)])"
  by (auto simp: vivos_def)

lemma alloc_loop_find: "alloc_loop us is = List.find (\<lambda>i. \<not> us ! i) is"
  by (induction "is") auto

lemma alloc_loop_None: "alloc_loop us [0..<n] = None \<longleftrightarrow> (\<forall>i < n. us ! i)"
  by (simp add: alloc_loop_find find_None_iff)

lemma alloc_loop_Some: "alloc_loop us [0..<n] = Some i \<longleftrightarrow> i < n \<and> \<not> us ! i \<and> (\<forall>j < i. us ! j)"
  by (auto simp: alloc_loop_find find_Some_iff)

lemma fst_memb_alloc: "fst (memb_alloc m) = alloc_loop (used m) [0..<length (used m)]"
  by (simp add: memb_alloc_def split: option.splits)

lemma memb_alloc_Some:
  assumes "fst (memb_alloc m) = Some i"
  shows "i < length (used m) \<and> \<not> used m ! i \<and> snd (memb_alloc m) = m\<lparr>used := (used m)[i := True]\<rparr>"
proof -
  have a: "alloc_loop (used m) [0..<length (used m)] = Some i" using assms by (simp add: fst_memb_alloc)
  then show ?thesis using alloc_loop_Some [of "used m" "length (used m)" i] by (simp add: memb_alloc_def)
qed

lemma memb_alloc_None:
  "fst (memb_alloc m) = None \<longleftrightarrow> (\<forall>i < length (used m). used m ! i)"
  unfolding fst_memb_alloc by (rule alloc_loop_None)

lemma memb_alloc_fail: "fst (memb_alloc m) = None \<Longrightarrow> snd (memb_alloc m) = m"
  by (auto simp: memb_alloc_def split: option.splits)

lemma free_loop_eq:
  "free_loop ptr is m = (case ptr of
     Some i \<Rightarrow> if i \<in> set is \<and> used m ! i then (0, m\<lparr>used := (used m)[i := False]\<rparr>) else (-1, m)
   | None \<Rightarrow> (-1, m))"
  by (induction "is") (auto split: option.splits)

lemma memb_free_eq:
  "memb_free ptr m = (case ptr of
     Some i \<Rightarrow> if i \<in> vivos m then (0, m\<lparr>used := (used m)[i := False]\<rparr>) else (-1, m)
   | None \<Rightarrow> (-1, m))"
  by (auto simp: memb_free_def free_loop_eq vivos_def split: option.splits)

lemma vivos_free: "vivos (snd (memb_free (Some i) m)) = vivos m - {i}"
  by (auto simp: memb_free_eq vivos_def nth_list_update split: if_splits)

lemma vivos_alloc:
  "fst (memb_alloc m) = Some i \<Longrightarrow> vivos (snd (memb_alloc m)) = insert i (vivos m) \<and> i \<notin> vivos m"
  using memb_alloc_Some [of m i] by (auto simp: vivos_def nth_list_update)

lemma vivos_init [simp]: "vivos (memb_init z m) = {}"
  by (auto simp: vivos_def memb_init_def)

lemma length_alloc [simp]: "length (used (snd (memb_alloc m))) = length (used m)"
  by (cases "alloc_loop (used m) [0..<length (used m)]") (auto simp: memb_alloc_def)

lemma length_free [simp]: "length (used (snd (memb_free p m))) = length (used m)"
  by (cases p) (auto simp: memb_free_eq)

lemma mem_alloc [simp]: "mem (snd (memb_alloc m)) = mem m"
  by (cases "alloc_loop (used m) [0..<length (used m)]") (auto simp: memb_alloc_def)

lemma mem_free [simp]: "mem (snd (memb_free p m)) = mem m"
  by (cases p) (auto simp: memb_free_eq)

lemma finite_vivos [simp]: "finite (vivos m)"
  by (simp add: vivos_def)

lemma memb_numfree_vivos: "memb_numfree m = length (used m) - card (vivos m)"
proof -
  have "foldl (\<lambda>k i. if us ! i = False then k + 1 else k) k is = k + length (filter (\<lambda>i. \<not> us ! i) is)"
    for us :: "bool list" and k and "is"
    by (induction "is" arbitrary: k) auto
  then have "memb_numfree m = length (filter (\<lambda>i. \<not> used m ! i) [0..<length (used m)])"
    by (simp add: memb_numfree_def)
  also have "\<dots> = card ({i. i < length (used m)} - vivos m)"
    by (subst distinct_card [symmetric]) (auto simp: vivos_def intro!: arg_cong [where f = card])
  also have "\<dots> = length (used m) - card (vivos m)"
    by (subst card_Diff_subset) (auto simp: vivos_def)
  finally show ?thesis .
qed

section \<open>The contract of an allocator\<close>

locale pool =
  fixes alive :: "'m \<Rightarrow> nat set"
    and cap :: "'m \<Rightarrow> nat"
    and alloc :: "'m \<Rightarrow> nat option \<times> 'm"
    and free :: "nat option \<Rightarrow> 'm \<Rightarrow> int \<times> 'm"
  assumes bound: "alive m \<subseteq> {..<cap m}"
    and alloc_ok: "fst (alloc m) = Some i \<Longrightarrow>
      i \<notin> alive m \<and> alive (snd (alloc m)) = insert i (alive m) \<and> cap (snd (alloc m)) = cap m"
    and alloc_full: "fst (alloc m) = None \<Longrightarrow> alive m = {..<cap m} \<and> snd (alloc m) = m"
    and free_ok: "i \<in> alive m \<Longrightarrow>
      fst (free (Some i) m) = 0 \<and> alive (snd (free (Some i) m)) = alive m - {i} \<and>
      cap (snd (free (Some i) m)) = cap m"
    and free_bad: "i \<notin> alive m \<Longrightarrow> free (Some i) m = (-1, m)"
begin

lemma alloc_room: "card (alive m) < cap m \<Longrightarrow> \<exists>i. fst (alloc m) = Some i"
  using alloc_full [of m] by (cases "fst (alloc m)") auto

lemma double_free: "i \<in> alive m \<Longrightarrow> fst (free (Some i) (snd (free (Some i) m))) = -1"
  using free_ok [of i m] free_bad [of i "snd (free (Some i) m)"] by simp

lemma alloc_card: "fst (alloc m) = Some i \<Longrightarrow> card (alive (snd (alloc m))) = Suc (card (alive m))"
proof -
  assume "fst (alloc m) = Some i"
  moreover have "finite (alive m)" using bound [of m] finite_subset by blast
  ultimately show ?thesis using alloc_ok by simp
qed

text \<open>A run of allocations and frees; the list holds the blocks given out and not yet returned.\<close>

fun run :: "(nat + unit) list \<Rightarrow> 'm \<Rightarrow> nat list \<Rightarrow> 'm \<times> nat list" where
  "run [] m held = (m, held)"
| "run (Inr () # ops) m held = (case alloc m of
     (Some i, m') \<Rightarrow> run ops m' (i # held) | (None, m') \<Rightarrow> run ops m' held)"
| "run (Inl i # ops) m held = (if i \<in> set held then run ops (snd (free (Some i) m)) (remove1 i held)
     else run ops m held)"

lemma run_distinct:
  assumes "alive m = set held" and "distinct held"
  shows "distinct (snd (run ops m held)) \<and> alive (fst (run ops m held)) = set (snd (run ops m held))"
  using assms
proof (induction ops m held rule: run.induct)
  case (2 ops m held)
  show ?case
  proof (cases "fst (alloc m)")
    case None
    then show ?thesis using 2 alloc_full [of m] by (cases "alloc m") auto
  next
    case (Some i)
    then show ?thesis using 2 alloc_ok [of m i] by (cases "alloc m") auto
  qed
next
  case (3 i ops m held)
  then show ?case using free_ok [of i m] by auto
qed simp

end

interpretation memb: pool vivos "\<lambda>m. length (used m)" memb_alloc memb_free
proof (unfold_locales, goal_cases)
  case (1 m)
  then show ?case by (auto simp: vivos_def)
next
  case (2 m i)
  then show ?case using vivos_alloc [of m i] by simp
next
  case (3 m)
  then show ?case using memb_alloc_None [of m] memb_alloc_fail [of m] by (auto simp: vivos_def)
next
  case (4 i m)
  then show ?case using vivos_free [of i m] by (simp add: memb_free_eq)
next
  case (5 i m)
  then show ?case by (simp add: memb_free_eq)
qed

end
