(* ===== verification/Linkaddr.thy ===== *)
theory Linkaddr
  imports Tsch_Prelude
begin

text \<open>
  os/net/linkaddr.c: link-layer addresses of eight bytes, and the node numbers the scheduler
  stores in them (an address is a list of LINKADDR-SIZE bytes, and memcmp is equality): byte 6 is the high and byte 7 the low byte, repeated in every pair of bytes.
\<close>

section \<open>Definitions\<close>

type_synonym linkaddr = "u8 list"

definition LINKADDR_SIZE :: nat where "LINKADDR_SIZE = 8"

definition linkaddr_null :: linkaddr where "linkaddr_null = replicate 8 0"

definition linkaddr_copy :: "linkaddr \<Rightarrow> linkaddr" where
  "linkaddr_copy src = src"

definition linkaddr_cmp :: "linkaddr \<Rightarrow> linkaddr \<Rightarrow> bool" where
  "linkaddr_cmp a b \<longleftrightarrow> a = b"

text \<open>The expression addr.u8[LINKADDR_SIZE - 1] + (addr.u8[LINKADDR_SIZE - 2] << 8), an int.\<close>

definition node_num :: "linkaddr \<Rightarrow> int" where
  "node_num a = uint (a ! (LINKADDR_SIZE - 1)) + uint (a ! (LINKADDR_SIZE - 2)) * 256"

text \<open>The loop that stores an int in every pair of bytes.\<close>

definition addr_of_num :: "int \<Rightarrow> linkaddr" where
  "addr_of_num n = concat (replicate 4 [word_of_int (n div 256), word_of_int n])"

section \<open>Round trip\<close>

lemma length_addr_of_num [simp]: "length (addr_of_num n) = LINKADDR_SIZE"
  by (simp add: addr_of_num_def LINKADDR_SIZE_def numeral_eq_Suc)

lemma node_num_addr:
  assumes "0 \<le> n" and "n < 65536"
  shows "node_num (addr_of_num n) = n"
proof -
  have "addr_of_num n ! 7 = word_of_int n" "addr_of_num n ! 6 = word_of_int (n div 256)"
    by (simp_all add: addr_of_num_def numeral_eq_Suc)
  then show ?thesis
    using assms by (simp add: node_num_def LINKADDR_SIZE_def uint_word_of_int)
qed

lemma addr_of_num_inject:
  "0 \<le> m \<Longrightarrow> m < 65536 \<Longrightarrow> 0 \<le> n \<Longrightarrow> n < 65536 \<Longrightarrow> addr_of_num m = addr_of_num n \<longleftrightarrow> m = n"
  using node_num_addr by metis

end
