(* ===== verification/Nbr_Table.thy ===== *)
theory Nbr_Table
  imports Clist Memb Linkaddr
begin

text \<open>
  os/net/nbr-table.c: one list of neighbor addresses shared by up to eight tables. A key and the
  items of that neighbor in every table are numbered by the same index, so keys and items are
  indices here (None is NULL). The key pool has the flags of a memb and the addresses as its
  contents; the list of keys is the abstract list of Clist.

  A table is the number of its struct; nt_index and nt_cb are the index field and whether it has a
  callback. What the code does to the data of a table (the callbacks and the memset of a new item)
  is an event in nt_log. The policy function NBR_TABLE_FIND_REMOVABLE belongs to the routing
  layer; the address it answers is the argument vic.
\<close>

section \<open>Definitions\<close>

datatype nbr_event = Callback nat nat | Memset nat nat

record nbr_state =
  nt_mem :: "linkaddr memb"
  nt_keys :: "nat list"
  nt_used :: "u8 list"
  nt_locked :: "u8 list"
  nt_all :: "nat option list"
  nt_num :: nat
  nt_index :: "nat \<Rightarrow> nat"
  nt_cb :: "nat \<Rightarrow> bool"
  nt_log :: "nbr_event list"

definition MAX_NUM_TABLES :: nat where "MAX_NUM_TABLES = 8"

abbreviation nt_addr :: "nbr_state \<Rightarrow> nat \<Rightarrow> linkaddr" where
  "nt_addr s k \<equiv> mem (nt_mem s) ! k"

fun index_lookup :: "nbr_state \<Rightarrow> linkaddr \<Rightarrow> nat list \<Rightarrow> nat option" where
  "index_lookup s a [] = None"
| "index_lookup s a (k # ks) = (if linkaddr_cmp a (nt_addr s k) then Some k else index_lookup s a ks)"

definition index_from_lladdr :: "nbr_state \<Rightarrow> linkaddr option \<Rightarrow> nat option" where
  "index_from_lladdr s lladdr =
     index_lookup s (case lladdr of None \<Rightarrow> linkaddr_null | Some a \<Rightarrow> a) (nt_keys s)"

definition nbr_get_bit :: "u8 list \<Rightarrow> nbr_state \<Rightarrow> nat \<Rightarrow> nat option \<Rightarrow> bool" where
  "nbr_get_bit bitmap s table item = (case item of
     Some i \<Rightarrow> (bitmap ! i) AND (push_bit (nt_index s table) 1) \<noteq> 0
   | None \<Rightarrow> False)"

definition nbr_set_bit :: "u8 list \<Rightarrow> nbr_state \<Rightarrow> nat \<Rightarrow> nat option \<Rightarrow> bool \<Rightarrow> int \<times> u8 list" where
  "nbr_set_bit bitmap s table item v = (case item of
     Some i \<Rightarrow> (1, bitmap[i := (if v then (bitmap ! i) OR (push_bit (nt_index s table) 1)
                                    else (bitmap ! i) AND NOT (push_bit (nt_index s table) 1))])
   | None \<Rightarrow> (0, bitmap))"

fun remove_callbacks :: "nbr_state \<Rightarrow> nat \<Rightarrow> nat list \<Rightarrow> nbr_event list" where
  "remove_callbacks s k [] = []"
| "remove_callbacks s k (i # is) = (case nt_all s ! i of
     Some t \<Rightarrow> (if nt_cb s t \<and> nbr_get_bit (nt_used s) s t (Some k)
                    then Callback t k # remove_callbacks s k is else remove_callbacks s k is)
   | None \<Rightarrow> remove_callbacks s k is)"

definition remove_key :: "nat \<Rightarrow> nbr_state \<Rightarrow> nbr_state" where
  "remove_key k s = s\<lparr>
     nt_log := nt_log s @ remove_callbacks s k [0..<MAX_NUM_TABLES],
     nt_used := (nt_used s)[k := 0],
     nt_keys := l_remove k (nt_keys s)\<rparr>"

text \<open>The loop while(used != 0) that counts the tables of a neighbor.\<close>

fun used_count :: "nat \<Rightarrow> nat" where
  "used_count u = (if u = 0 then 0 else (if u mod 2 = 1 then 1 else 0) + used_count (u div 2))"

declare used_count.simps [simp del]

fun least_loop :: "nbr_state \<Rightarrow> nat list \<Rightarrow> nat option \<Rightarrow> nat \<Rightarrow> nat option" where
  "least_loop s [] best best_count = best"
| "least_loop s (k # ks) best best_count =
     (if nt_locked s ! k = 0 then
        (let c = used_count (unat (nt_used s ! k)) in
         if best = None \<or> c < best_count then
           (if c = 0 then Some k else least_loop s ks (Some k) c)
         else least_loop s ks best best_count)
      else least_loop s ks best best_count)"

text \<open>
  vic is what NBR_TABLE_FIND_REMOVABLE(reason, data) answers. Locked entries it names are unlocked
  and given up.
\<close>

definition nbr_table_allocate :: "linkaddr option \<Rightarrow> nbr_state \<Rightarrow> nat option \<times> nbr_state" where
  "nbr_table_allocate vic s = (case memb_alloc (nt_mem s) of
     (Some k, m) \<Rightarrow> (Some k, s\<lparr>nt_mem := m\<rparr>)
   | (None, m) \<Rightarrow>
      (case vic of
         None \<Rightarrow> (None, s)
       | Some a \<Rightarrow>
          (case index_from_lladdr s (Some a) of
             Some k \<Rightarrow>
               (let s' = (if nt_locked s ! k \<noteq> 0 then s\<lparr>nt_locked := (nt_locked s)[k := 0]\<rparr> else s)
                in (Some k, remove_key k s'))
           | None \<Rightarrow>
              (case least_loop s (nt_keys s) None 0 of
                 None \<Rightarrow> (None, s)
               | Some k \<Rightarrow> (Some k, remove_key k s)))))"

definition nbr_table_is_registered :: "nbr_state \<Rightarrow> nat option \<Rightarrow> bool" where
  "nbr_table_is_registered s table = (case table of
     None \<Rightarrow> False
   | Some t \<Rightarrow> nt_index s t < MAX_NUM_TABLES \<and> nt_all s ! nt_index s t = Some t)"

definition nbr_table_register :: "nat \<Rightarrow> bool \<Rightarrow> nbr_state \<Rightarrow> int \<times> nbr_state" where
  "nbr_table_register t callback s =
     (if nbr_table_is_registered s (Some t) then (1, s\<lparr>nt_cb := (nt_cb s)(t := callback)\<rparr>)
      else if nt_num s < MAX_NUM_TABLES then
        (1, s\<lparr>nt_index := (nt_index s)(t := nt_num s), nt_num := nt_num s + 1,
              nt_cb := (nt_cb s)(t := callback), nt_all := (nt_all s)[nt_num s := Some t]\<rparr>)
      else (0, s))"

text \<open>The do-while loop: the first key after the given one whose item is in the table.\<close>

fun next_loop :: "nbr_state \<Rightarrow> nat \<Rightarrow> nat list \<Rightarrow> nat option" where
  "next_loop s t [] = None"
| "next_loop s t (k # ks) = (if nbr_get_bit (nt_used s) s t (Some k) then Some k else next_loop s t ks)"

fun after :: "nat option \<Rightarrow> nat list \<Rightarrow> nat list" where
  "after item [] = []"
| "after item (k # ks) = (if item = Some k then ks else after item ks)"

definition nbr_table_next :: "nbr_state \<Rightarrow> nat \<Rightarrow> nat option \<Rightarrow> nat option" where
  "nbr_table_next s t item = next_loop s t (after item (nt_keys s))"

definition nbr_table_head :: "nbr_state \<Rightarrow> nat \<Rightarrow> nat option" where
  "nbr_table_head s t = (let item = l_head (nt_keys s) in
     if nbr_get_bit (nt_used s) s t item then item else nbr_table_next s t item)"

definition nbr_table_add_lladdr ::
  "linkaddr option \<Rightarrow> nat option \<Rightarrow> linkaddr option \<Rightarrow> nbr_state \<Rightarrow> nat option \<times> nbr_state" where
  "nbr_table_add_lladdr vic table lladdr s = (case table of
     None \<Rightarrow> (None, s)
   | Some t \<Rightarrow>
      (let a = (case lladdr of None \<Rightarrow> linkaddr_null | Some a \<Rightarrow> a);
           (index, s) = (case index_from_lladdr s (Some a) of
               Some k \<Rightarrow> (Some k, s)
             | None \<Rightarrow> (case nbr_table_allocate vic s of
                 (None, s) \<Rightarrow> (None, s)
               | (Some k, s) \<Rightarrow> (Some k, s\<lparr>nt_keys := l_add k (nt_keys s),
                    nt_mem := (nt_mem s)\<lparr>mem := (mem (nt_mem s))[k := linkaddr_copy a]\<rparr>\<rparr>)))
       in case index of
            None \<Rightarrow> (None, s)
          | Some k \<Rightarrow> (Some k, s\<lparr>nt_log := nt_log s @ [Memset t k],
                nt_used := snd (nbr_set_bit (nt_used s) s t (Some k) True)\<rparr>)))"

definition nbr_table_get_from_lladdr :: "nbr_state \<Rightarrow> nat \<Rightarrow> linkaddr option \<Rightarrow> nat option" where
  "nbr_table_get_from_lladdr s t lladdr = (let item = index_from_lladdr s lladdr in
     if nbr_get_bit (nt_used s) s t item then item else None)"

definition nbr_table_remove :: "nat \<Rightarrow> nat option \<Rightarrow> nbr_state \<Rightarrow> int \<times> nbr_state" where
  "nbr_table_remove t item s = (let (ret, u) = nbr_set_bit (nt_used s) s t item False in
     (ret, s\<lparr>nt_used := u, nt_locked := snd (nbr_set_bit (nt_locked s) s t item False)\<rparr>))"

definition nbr_table_lock :: "nat \<Rightarrow> nat option \<Rightarrow> nbr_state \<Rightarrow> int \<times> nbr_state" where
  "nbr_table_lock t item s = (let (ret, l) = nbr_set_bit (nt_locked s) s t item True in
     (ret, s\<lparr>nt_locked := l\<rparr>))"

definition nbr_table_unlock :: "nat \<Rightarrow> nat option \<Rightarrow> nbr_state \<Rightarrow> int \<times> nbr_state" where
  "nbr_table_unlock t item s = (let (ret, l) = nbr_set_bit (nt_locked s) s t item False in
     (ret, s\<lparr>nt_locked := l\<rparr>))"

definition nbr_table_get_lladdr :: "nbr_state \<Rightarrow> nat option \<Rightarrow> linkaddr option" where
  "nbr_table_get_lladdr s item = (case item of None \<Rightarrow> None | Some k \<Rightarrow> Some (nt_addr s k))"

section \<open>Bits of the maps\<close>

definition usa :: "nbr_state \<Rightarrow> nat \<Rightarrow> nat \<Rightarrow> bool" where
  "usa s t k \<longleftrightarrow> bit (nt_used s ! k) (nt_index s t)"

lemma get_bit_bit: "nbr_get_bit bm s t (Some k) \<longleftrightarrow> bit (bm ! k) (nt_index s t)"
  by (simp add: nbr_get_bit_def push_bit_eq_mult and_exp_eq_0_iff_not_bit)

lemma get_bit_None [simp]: "\<not> nbr_get_bit bm s t None"
  by (simp add: nbr_get_bit_def)

lemma set_bit_bit:
  assumes "k < length bm" and "nt_index s t < 8"
  shows "bit (snd (nbr_set_bit bm s t (Some k) v) ! j) i \<longleftrightarrow>
    (if j = k \<and> i = nt_index s t then v else bit (bm ! j) i)"
proof -
  have p: "bit (push_bit (nt_index s t) 1 :: u8) i \<longleftrightarrow> i = nt_index s t"
    using assms(2) by (auto simp: push_bit_eq_mult bit_exp_iff)
  have "i < 8 \<or> \<not> bit (bm ! j) i" using bit_imp_le_length [of "bm ! j" i] by auto
  then show ?thesis
    using assms by (cases v) (auto simp: nbr_set_bit_def nth_list_update bit_simps p dest: bit_imp_le_length)
qed

lemma bits_step: "{i. bit n i} = {i. i = 0 \<and> odd n} \<union> Suc ` {i. bit (n div 2) i}" for n :: nat
proof (rule set_eqI)
  fix i show "i \<in> {i. bit n i} \<longleftrightarrow> i \<in> {i. i = 0 \<and> odd n} \<union> Suc ` {i. bit (n div 2) i}"
    by (cases i) (auto simp: bit_0 bit_Suc)
qed

lemma finite_bits: "finite {i. bit n i}" for n :: nat
proof (induction n rule: less_induct)
  case (less n)
  then show ?case
    by (cases "n = 0") (auto simp: bits_step [of n])
qed

text \<open>The loop counts the set bits.\<close>

lemma used_count_card: "used_count n = card {i. bit n i}"
proof (induction n rule: used_count.induct)
  case (1 n)
  show ?case
  proof (cases "n = 0")
    case True
    then show ?thesis by (simp add: used_count.simps)
  next
    case False
    then have IH: "used_count (n div 2) = card {i. bit (n div 2) i}" by (rule 1)
    have "card {i. bit n i} = card {i :: nat. i = 0 \<and> odd n} + card (Suc ` {i. bit (n div 2) i})"
      unfolding bits_step [of n] by (rule card_Un_disjoint) (auto simp: finite_bits)
    also have "card {i :: nat. i = 0 \<and> odd n} = (if n mod 2 = 1 then 1 else 0)"
      by (auto simp: odd_iff_mod_2_eq_one)
    finally show ?thesis
      using IH False by (subst used_count.simps) (simp add: card_image)
  qed
qed

section \<open>The members of a table\<close>

text \<open>The keys in list order whose used bit of the table is set, and the invariant of the module.\<close>

definition em :: "nbr_state \<Rightarrow> nat \<Rightarrow> nat list" where
  "em s t = filter (usa s t) (nt_keys s)"

definition nt_inv :: "nbr_state \<Rightarrow> bool" where
  "nt_inv s \<longleftrightarrow> distinct (nt_keys s) \<and> set (nt_keys s) = vivos (nt_mem s) \<and>
     inj_on (nt_addr s) (vivos (nt_mem s)) \<and>
     length (mem (nt_mem s)) = length (used (nt_mem s)) \<and>
     length (nt_used s) = length (used (nt_mem s)) \<and> length (nt_locked s) = length (used (nt_mem s)) \<and>
     (\<forall>k < length (used (nt_mem s)). k \<notin> vivos (nt_mem s) \<longrightarrow> nt_used s ! k = 0) \<and>
     length (nt_all s) = MAX_NUM_TABLES \<and> nt_num s \<le> MAX_NUM_TABLES \<and> (\<forall>t. nt_index s t < 8)"

lemma nt_invD:
  assumes "nt_inv s"
  shows "distinct (nt_keys s)" "set (nt_keys s) = vivos (nt_mem s)" "inj_on (nt_addr s) (set (nt_keys s))"
    "length (mem (nt_mem s)) = length (used (nt_mem s))" "length (nt_used s) = length (used (nt_mem s))"
    "length (nt_locked s) = length (used (nt_mem s))" "nt_index s t < 8"
    "k \<in> set (nt_keys s) \<Longrightarrow> k < length (used (nt_mem s))"
  using assms by (auto simp: nt_inv_def vivos_def)

lemma index_lookup_Some:
  assumes "index_lookup s a ks = Some k"
  shows "k \<in> set ks \<and> nt_addr s k = a"
  using assms by (induction ks) (auto simp: linkaddr_cmp_def split: if_splits)

lemma index_lookup_None: "index_lookup s a ks = None \<longleftrightarrow> a \<notin> nt_addr s ` set ks"
  by (induction ks) (auto simp: linkaddr_cmp_def)

lemma index_lookup_iff:
  assumes "inj_on (nt_addr s) (set ks)"
  shows "index_lookup s a ks = Some k \<longleftrightarrow> k \<in> set ks \<and> nt_addr s k = a"
proof
  assume k: "k \<in> set ks \<and> nt_addr s k = a"
  then obtain j where j: "index_lookup s a ks = Some j"
    using index_lookup_None [of s a ks] by (cases "index_lookup s a ks") auto
  then have "j \<in> set ks" "nt_addr s j = a" using index_lookup_Some by auto
  then have "j = k" using assms k by (auto simp: inj_on_def)
  then show "index_lookup s a ks = Some k" using j by simp
qed (rule index_lookup_Some)

lemma index_from_iff:
  "nt_inv s \<Longrightarrow> index_from_lladdr s (Some a) = Some k \<longleftrightarrow> k \<in> set (nt_keys s) \<and> nt_addr s k = a"
  by (simp add: index_from_lladdr_def index_lookup_iff nt_invD(3))

lemma index_from_None: "index_from_lladdr s (Some a) = None \<longleftrightarrow> a \<notin> nt_addr s ` set (nt_keys s)"
  by (simp add: index_from_lladdr_def index_lookup_None)

text \<open>Looking an address up finds the member of the table with that address.\<close>

lemma nbr_get_iff:
  assumes "nt_inv s"
  shows "nbr_table_get_from_lladdr s t (Some a) = Some k \<longleftrightarrow> k \<in> set (em s t) \<and> nt_addr s k = a"
proof -
  have "nbr_table_get_from_lladdr s t (Some a) = Some k \<longleftrightarrow>
      index_from_lladdr s (Some a) = Some k \<and> usa s t k"
    by (cases "index_from_lladdr s (Some a)")
      (auto simp: nbr_table_get_from_lladdr_def Let_def usa_def get_bit_bit)
  then show ?thesis using index_from_iff [OF assms] by (auto simp: em_def)
qed

section \<open>Iterating over a table\<close>

lemma next_loop_filter: "next_loop s t ks = l_head (filter (usa s t) ks)"
  by (induction ks) (auto simp: get_bit_bit usa_def)

lemma after_split: "k \<notin> set pre \<Longrightarrow> after (Some k) (pre @ k # post) = post"
  by (induction pre) auto

lemma nbr_head_em:
  assumes "nt_inv s"
  shows "nbr_table_head s t = l_head (em s t)"
proof (cases "nt_keys s")
  case Nil
  then show ?thesis by (simp add: nbr_table_head_def nbr_table_next_def em_def)
next
  case (Cons k ks)
  then show ?thesis
    by (simp add: nbr_table_head_def nbr_table_next_def em_def next_loop_filter get_bit_bit usa_def)
qed

lemma nbr_next_em:
  assumes "nt_inv s" and "k \<in> set (em s t)"
  shows "nbr_table_next s t (Some k) = l_next (em s t) k"
proof -
  have "k \<in> set (nt_keys s)" and u: "usa s t k" using assms(2) by (auto simp: em_def)
  then obtain pre post where ks: "nt_keys s = pre @ k # post" by (meson split_list)
  have np: "k \<notin> set pre" using nt_invD(1) [OF assms(1)] ks by auto
  have "em s t = filter (usa s t) pre @ k # filter (usa s t) post" using ks u by (simp add: em_def)
  then have "l_next (em s t) k = l_head (filter (usa s t) post)" using np by (simp add: l_next_split)
  then show ?thesis by (simp add: nbr_table_next_def ks after_split [OF np] next_loop_filter)
qed

interpretation nbr: list_iter "\<lambda>(s, t). em s t" "\<lambda>(s, t). nbr_table_head s t"
  "\<lambda>(s, t) k. nbr_table_next s t (Some k)" "\<lambda>(s, t). nt_inv s"
  by unfold_locales (auto simp: nbr_head_em nbr_next_em em_def nt_invD(1))

section \<open>Which neighbor is given up\<close>

abbreviation nuso :: "nbr_state \<Rightarrow> nat \<Rightarrow> nat" where
  "nuso s k \<equiv> used_count (unat (nt_used s ! k))"

text \<open>k is unlocked, in the fewest tables, and the oldest of those.\<close>

definition menos_usado :: "nbr_state \<Rightarrow> nat list \<Rightarrow> nat \<Rightarrow> bool" where
  "menos_usado s ks k \<longleftrightarrow> (\<exists>pre post. ks = pre @ k # post \<and> nt_locked s ! k = 0 \<and>
     (\<forall>j \<in> set pre. nt_locked s ! j = 0 \<longrightarrow> nuso s k < nuso s j) \<and>
     (\<forall>j \<in> set post. nt_locked s ! j = 0 \<longrightarrow> nuso s k \<le> nuso s j))"

lemma menos_usado_Cons:
  "menos_usado s ks k \<Longrightarrow> (nt_locked s ! j = 0 \<longrightarrow> nuso s k < nuso s j) \<Longrightarrow> menos_usado s (j # ks) k"
  unfolding menos_usado_def by (elim exE) (rule_tac x = "j # pre" in exI, auto)

lemma menos_usado_head:
  "nt_locked s ! j = 0 \<Longrightarrow> \<forall>i \<in> set ks. nt_locked s ! i = 0 \<longrightarrow> nuso s j \<le> nuso s i \<Longrightarrow>
   menos_usado s (j # ks) j"
  unfolding menos_usado_def by (rule exI [of _ "[]"], rule exI [of _ ks]) simp

lemma least_loop_best:
  "least_loop s ks (Some b) (nuso s b) = Some r \<Longrightarrow>
     (r = b \<and> (\<forall>j \<in> set ks. nt_locked s ! j = 0 \<longrightarrow> nuso s b \<le> nuso s j)) \<or>
     (nuso s r < nuso s b \<and> menos_usado s ks r)"
proof (induction ks arbitrary: b)
  case (Cons j ks)
  consider (travado) "nt_locked s ! j \<noteq> 0" | (pior) "nt_locked s ! j = 0" "nuso s b \<le> nuso s j"
    | (zero) "nt_locked s ! j = 0" "nuso s j < nuso s b" "nuso s j = 0"
    | (melhor) "nt_locked s ! j = 0" "nuso s j < nuso s b" "nuso s j \<noteq> 0"
    by linarith
  then show ?case
  proof cases
    case travado
    then show ?thesis using Cons menos_usado_Cons by fastforce
  next
    case pior
    then have "least_loop s ks (Some b) (nuso s b) = Some r" using Cons.prems by simp
    from Cons.IH [OF this] show ?thesis using pior menos_usado_Cons [of s ks r j] by auto
  next
    case zero
    then have "r = j" using Cons.prems by simp
    then show ?thesis using zero by (auto intro: menos_usado_head)
  next
    case melhor
    then have "least_loop s ks (Some j) (nuso s j) = Some r" using Cons.prems by simp
    from Cons.IH [OF this] show ?thesis
    proof
      assume "r = j \<and> (\<forall>i \<in> set ks. nt_locked s ! i = 0 \<longrightarrow> nuso s j \<le> nuso s i)"
      then show ?thesis using melhor by (auto intro: menos_usado_head)
    next
      assume "nuso s r < nuso s j \<and> menos_usado s ks r"
      then show ?thesis using melhor menos_usado_Cons [of s ks r j] by auto
    qed
  qed
qed simp

lemma least_loop_Some: "least_loop s ks None 0 = Some r \<Longrightarrow> menos_usado s ks r"
proof (induction ks)
  case (Cons j ks)
  show ?case
  proof (cases "nt_locked s ! j = 0")
    case False
    then show ?thesis using Cons menos_usado_Cons by simp
  next
    case True
    show ?thesis
    proof (cases "nuso s j = 0")
      case True
      then have "r = j" using Cons.prems \<open>nt_locked s ! j = 0\<close> by simp
      then show ?thesis using True \<open>nt_locked s ! j = 0\<close> by (auto intro: menos_usado_head)
    next
      case False
      then have "least_loop s ks (Some j) (nuso s j) = Some r" using Cons.prems True by simp
      from least_loop_best [OF this] show ?thesis
        using True menos_usado_Cons [of s ks r j] by (auto intro: menos_usado_head)
    qed
  qed
qed simp

lemma least_loop_not_None: "\<exists>r. least_loop s ks (Some b) c = Some r"
  by (induction ks arbitrary: b c) (auto simp: Let_def)

lemma least_loop_None: "least_loop s ks None 0 = None \<longleftrightarrow> (\<forall>k \<in> set ks. nt_locked s ! k \<noteq> 0)"
  by (induction ks) (auto simp: Let_def least_loop_not_None)

section \<open>Adding a neighbor\<close>

text \<open>The state between the allocation of key k and its insertion into the list.\<close>

definition reservado :: "nat \<Rightarrow> nbr_state \<Rightarrow> bool" where
  "reservado k s \<longleftrightarrow> distinct (nt_keys s) \<and> k \<in> vivos (nt_mem s) \<and> set (nt_keys s) = vivos (nt_mem s) - {k} \<and>
     inj_on (nt_addr s) (vivos (nt_mem s) - {k}) \<and> nt_used s ! k = 0 \<and>
     length (mem (nt_mem s)) = length (used (nt_mem s)) \<and>
     length (nt_used s) = length (used (nt_mem s)) \<and> length (nt_locked s) = length (used (nt_mem s)) \<and>
     (\<forall>k < length (used (nt_mem s)). k \<notin> vivos (nt_mem s) \<longrightarrow> nt_used s ! k = 0) \<and>
     length (nt_all s) = MAX_NUM_TABLES \<and> nt_num s \<le> MAX_NUM_TABLES \<and> (\<forall>t. nt_index s t < 8)"

lemma remove_key_reservado:
  assumes "nt_inv s" and "k \<in> set (nt_keys s)"
  shows "reservado k (remove_key k s)"
proof -
  have "k < length (nt_used s)" using nt_invD(8) [OF assms] nt_invD(5) [OF assms(1)] by simp
  then show ?thesis
    using assms by (auto simp: reservado_def remove_key_def nt_inv_def inj_on_diff nth_list_update)
qed

lemma unlock_inv: "nt_inv s \<Longrightarrow> nt_inv (s\<lparr>nt_locked := (nt_locked s)[k := v]\<rparr>)"
  by (simp add: nt_inv_def)

text \<open>Whom the module gives up for a new neighbor, when the pool is exhausted.\<close>

definition despejado :: "linkaddr option \<Rightarrow> nbr_state \<Rightarrow> nat \<Rightarrow> bool" where
  "despejado vic s k \<longleftrightarrow> (\<exists>b. vic = Some b \<and>
     (k \<in> set (nt_keys s) \<and> nt_addr s k = b \<or>
      b \<notin> nt_addr s ` set (nt_keys s) \<and> menos_usado s (nt_keys s) k))"

definition cheia :: "nbr_state \<Rightarrow> bool" where
  "cheia s \<longleftrightarrow> vivos (nt_mem s) = {..<length (used (nt_mem s))}"

text \<open>s and s1 agree about all keys but k.\<close>

definition iguais :: "nat \<Rightarrow> nbr_state \<Rightarrow> nbr_state \<Rightarrow> bool" where
  "iguais k s s1 \<longleftrightarrow> nt_index s1 = nt_index s \<and>
     (\<forall>j. j \<noteq> k \<longrightarrow> nt_addr s1 j = nt_addr s j \<and> nt_used s1 ! j = nt_used s ! j \<and> nt_locked s1 ! j = nt_locked s ! j)"

lemma menos_usado_in: "menos_usado s ks k \<Longrightarrow> k \<in> set ks"
  by (auto simp: menos_usado_def)

lemma allocate_spec:
  assumes inv: "nt_inv s" and r: "nbr_table_allocate vic s = (r, s1)"
  shows "(r = None \<longrightarrow> s1 = s \<and> cheia s) \<and>
    (\<forall>k. r = Some k \<longrightarrow> reservado k s1 \<and> nt_keys s1 = l_remove k (nt_keys s) \<and> iguais k s s1 \<and>
       (k \<notin> vivos (nt_mem s) \<or> cheia s \<and> despejado vic s k))"
proof (cases "fst (memb_alloc (nt_mem s))")
  case (Some k)
  then have e: "memb_alloc (nt_mem s) = (Some k, snd (memb_alloc (nt_mem s)))" by (simp add: prod_eq_iff)
  then have r': "r = Some k" "s1 = s\<lparr>nt_mem := snd (memb_alloc (nt_mem s))\<rparr>"
    using r by (auto simp: nbr_table_allocate_def split: prod.splits)
  have k: "k \<notin> vivos (nt_mem s)" "vivos (snd (memb_alloc (nt_mem s))) = insert k (vivos (nt_mem s))"
    using vivos_alloc [OF Some] by auto
  have kl: "k < length (used (nt_mem s))" using memb_alloc_Some [OF Some] by simp
  have "k \<notin> set (nt_keys s)" using nt_invD(2) [OF inv] k by simp
  then show ?thesis
    using inv k kl unfolding r'
    by (auto simp: reservado_def nt_inv_def iguais_def l_remove_def remove1_idem)
next
  case None
  then have e: "memb_alloc (nt_mem s) = (None, nt_mem s)"
    using memb_alloc_fail [OF None] by (simp add: prod_eq_iff)
  have cheia: "cheia s" using None memb.alloc_full [OF None] by (simp add: cheia_def)
  have evict: ?thesis if ev: "r = Some k" "s1 = remove_key k s'" and k: "k \<in> set (nt_keys s)" "despejado vic s k"
    and s': "s' = s \<or> s' = s\<lparr>nt_locked := (nt_locked s)[k := 0]\<rparr>" for k s'
  proof -
    have "nt_inv s'" "k \<in> set (nt_keys s')" using inv unlock_inv [OF inv] s' k by auto
    then have "reservado k s1" unfolding ev by (rule remove_key_reservado)
    moreover have "nt_keys s1 = l_remove k (nt_keys s)" "iguais k s s1"
      using ev s' by (auto simp: remove_key_def iguais_def)
    ultimately show ?thesis using ev cheia k by simp
  qed
  show ?thesis
  proof (cases vic)
    case None
    then show ?thesis using r e cheia by (simp add: nbr_table_allocate_def)
  next
    case (Some b)
    show ?thesis
    proof (cases "index_from_lladdr s (Some b)")
      case (Some k)
      then have k: "k \<in> set (nt_keys s)" "nt_addr s k = b" using index_from_iff [OF inv] by auto
      let ?s' = "if nt_locked s ! k \<noteq> 0 then s\<lparr>nt_locked := (nt_locked s)[k := 0]\<rparr> else s"
      have "r = Some k" "s1 = remove_key k ?s'"
        using r e Some \<open>vic = Some b\<close> by (auto simp: nbr_table_allocate_def Let_def)
      moreover have "despejado vic s k" using k \<open>vic = Some b\<close> by (auto simp: despejado_def)
      ultimately show ?thesis by (intro evict [of k ?s'] k(1)) auto
    next
      case None
      then have unk: "b \<notin> nt_addr s ` set (nt_keys s)" by (simp add: index_from_None)
      show ?thesis
      proof (cases "least_loop s (nt_keys s) None 0")
        case n: None
        then show ?thesis using r e None \<open>vic = Some b\<close> cheia by (simp add: nbr_table_allocate_def)
      next
        case (Some k)
        then have m: "menos_usado s (nt_keys s) k" by (rule least_loop_Some)
        have "r = Some k" "s1 = remove_key k s"
          using r e None Some \<open>vic = Some b\<close> by (auto simp: nbr_table_allocate_def)
        moreover have "despejado vic s k" using m unk \<open>vic = Some b\<close> by (auto simp: despejado_def)
        ultimately show ?thesis using menos_usado_in [OF m] by (intro evict [of k s]) auto
      qed
    qed
  qed
qed

text \<open>Linking the reserved key with its address and marking it used.\<close>

lemma liga_inv:
  assumes k: "reservado k s1" and a: "a \<notin> nt_addr s1 ` set (nt_keys s1)"
  shows "nt_inv (s1\<lparr>nt_keys := l_add k (nt_keys s1), nt_mem := (nt_mem s1)\<lparr>mem := (mem (nt_mem s1))[k := a]\<rparr>\<rparr>)"
    (is "nt_inv ?s")
proof -
  have kn: "k \<notin> set (nt_keys s1)" and kl: "k < length (mem (nt_mem s1))"
    using k by (auto simp: reservado_def vivos_def)
  have ad: "nt_addr ?s j = (if j = k then a else nt_addr s1 j)" for j
    using kl by (auto simp: nth_list_update)
  have sk: "set (nt_keys s1) = vivos (nt_mem s1) - {k}" using k by (simp add: reservado_def)
  have i1: "inj_on (nt_addr s1) (set (nt_keys s1))" using k unfolding sk by (simp add: reservado_def)
  have "nt_addr ?s ` set (nt_keys s1) = nt_addr s1 ` set (nt_keys s1)"
    using kn ad by (intro image_cong) auto
  moreover have "inj_on (nt_addr ?s) (set (nt_keys s1))"
    using i1 kn ad by (simp add: inj_on_def)
  ultimately have "inj_on (nt_addr ?s) (insert k (set (nt_keys s1)))"
    using a kn ad by simp
  moreover have "insert k (set (nt_keys s1)) = vivos (nt_mem s1)" using k by (auto simp: reservado_def)
  ultimately show ?thesis using k unfolding reservado_def nt_inv_def by (simp add: vivos_def)
qed

text \<open>The last two statements: clear the item and set the used bit.\<close>

definition marca_uso :: "nat \<Rightarrow> nat \<Rightarrow> nbr_state \<Rightarrow> nbr_state" where
  "marca_uso t k s = s\<lparr>nt_log := nt_log s @ [Memset t k],
                  nt_used := snd (nbr_set_bit (nt_used s) s t (Some k) True)\<rparr>"

lemma marca_uso_inv:
  assumes inv: "nt_inv s" and k: "k \<in> set (nt_keys s)"
  shows "nt_inv (marca_uso t k s)" and "k \<in> set (em (marca_uso t k s) t)" and "iguais k s (marca_uso t k s)"
    and "nt_keys (marca_uso t k s) = nt_keys s" and "nt_mem (marca_uso t k s) = nt_mem s"
proof -
  let ?s' = "marca_uso t k s"
  have kl: "k < length (nt_used s)" "nt_index s t < 8" using nt_invD [OF inv] k by auto
  have u: "nt_used ?s' = (nt_used s)[k := nt_used s ! k OR push_bit (nt_index s t) 1]"
    by (simp add: marca_uso_def nbr_set_bit_def)
  have "k \<in> vivos (nt_mem s)" using nt_invD(2) [OF inv] k by simp
  then have "(nt_used ?s') ! j = 0" if "j < length (used (nt_mem s))" "j \<notin> vivos (nt_mem s)" for j
    using that inv unfolding u by (cases "j = k") (auto simp: nt_inv_def)
  then show "nt_inv ?s'" using inv unfolding nt_inv_def by (simp add: marca_uso_def nbr_set_bit_def)
  show "nt_keys ?s' = nt_keys s" "nt_mem ?s' = nt_mem s" by (simp_all add: marca_uso_def)
  then show "k \<in> set (em ?s' t)"
    using k kl set_bit_bit [of k "nt_used s" s t True k "nt_index s t"]
    by (simp add: em_def usa_def marca_uso_def)
  show "iguais k s ?s'" by (auto simp: iguais_def u) (simp_all add: marca_uso_def)
qed

lemma iguais_trans: "iguais k s s1 \<Longrightarrow> iguais k s1 s2 \<Longrightarrow> iguais k s s2"
  by (simp add: iguais_def)

text \<open>
  The effect of adding address a. Either it fails, leaving the state as it was, or the answer is a
  member of the table with that address: the key it already had, a key from the pool, or the
  key of the neighbor given up; nothing is changed about any other neighbor.
\<close>

definition adicionado :: "linkaddr option \<Rightarrow> nat \<Rightarrow> linkaddr \<Rightarrow> nbr_state \<Rightarrow> nat option \<Rightarrow> nbr_state \<Rightarrow> bool" where
  "adicionado vic t a s r s' \<longleftrightarrow> nt_inv s' \<and> (case r of
     None \<Rightarrow> s' = s \<and> cheia s \<and> a \<notin> nt_addr s ` set (nt_keys s)
   | Some k \<Rightarrow> k \<in> set (em s' t) \<and> nt_addr s' k = a \<and> iguais k s s' \<and>
       (k \<in> set (nt_keys s) \<and> nt_addr s k = a \<and> nt_keys s' = nt_keys s \<or>
        a \<notin> nt_addr s ` set (nt_keys s) \<and> nt_keys s' = l_add k (nt_keys s) \<and>
          (k \<notin> set (nt_keys s) \<or> cheia s \<and> despejado vic s k)))"

lemma nbr_add_run:
  assumes inv: "nt_inv s" and r: "nbr_table_add_lladdr vic (Some t) (Some a) s = (r, s')"
  shows "adicionado vic t a s r s'"
proof (cases "index_from_lladdr s (Some a)")
  case (Some k)
  then have k: "k \<in> set (nt_keys s)" "nt_addr s k = a" using index_from_iff [OF inv] by auto
  have e: "r = Some k" "s' = marca_uso t k s"
    using r Some by (auto simp: nbr_table_add_lladdr_def Let_def marca_uso_def)
  show ?thesis using marca_uso_inv [OF inv k(1), of t] k unfolding e by (simp add: adicionado_def)
next
  case None
  then have unk: "a \<notin> nt_addr s ` set (nt_keys s)" by (simp add: index_from_None)
  obtain q s1 where q: "nbr_table_allocate vic s = (q, s1)" by force
  note al = allocate_spec [OF inv q]
  show ?thesis
  proof (cases q)
    case n: None
    then have "r = None" "s' = s1"
      using r None q by (auto simp: nbr_table_add_lladdr_def Let_def)
    then show ?thesis using al n inv unk by (simp add: adicionado_def)
  next
    case (Some k)
    let ?s2 = "s1\<lparr>nt_keys := l_add k (nt_keys s1), nt_mem := (nt_mem s1)\<lparr>mem := (mem (nt_mem s1))[k := a]\<rparr>\<rparr>"
    have e: "r = Some k" "s' = marca_uso t k ?s2"
      using r None q Some by (auto simp: nbr_table_add_lladdr_def Let_def linkaddr_copy_def marca_uso_def)
    have k: "reservado k s1" "nt_keys s1 = l_remove k (nt_keys s)" "iguais k s s1"
      "k \<notin> vivos (nt_mem s) \<or> cheia s \<and> despejado vic s k"
      using al Some by auto
    have d: "distinct (nt_keys s)" by (rule nt_invD(1) [OF inv])
    have "nt_addr s1 j \<noteq> a" if "j \<in> set (nt_keys s1)" for j
      using that unk k(2,3) d by (auto simp: iguais_def)
    then have inv2: "nt_inv ?s2" using liga_inv [OF k(1), of a] by auto
    have k2: "k \<in> set (nt_keys ?s2)" by simp
    note u = marca_uso_inv [OF inv2 k2, of t, folded e(2)]
    have kl: "k < length (mem (nt_mem s1))" using k(1) by (auto simp: reservado_def vivos_def)
    have "iguais k s1 ?s2" by (auto simp: iguais_def)
    then have ig: "iguais k s s'" using k(3) u(3) iguais_trans by blast
    have "nt_keys s' = l_add k (nt_keys s)"
      using u(4) k(2) d by (simp add: l_add_def l_remove_def remove1_idem distinct_remove1)
    moreover have "nt_addr s' k = a" using u(5) kl by simp
    moreover have "k \<notin> set (nt_keys s) \<or> cheia s \<and> despejado vic s k"
      using k(4) nt_invD(2) [OF inv] by auto
    ultimately show ?thesis using u(1,2) ig unk unfolding e(1) adicionado_def by simp
  qed
qed

section \<open>Removing and locking\<close>

lemma nbr_remove_run:
  fixes t :: nat
  assumes inv: "nt_inv s" and k: "k \<in> set (nt_keys s)"
  defines "s' \<equiv> snd (nbr_table_remove t (Some k) s)"
  shows "nt_inv s'" and "em s' t = l_remove k (em s t)" and "nt_keys s' = nt_keys s" and "nt_mem s' = nt_mem s"
    and "iguais k s s'"
proof -
  have kl: "k < length (nt_used s)" "nt_index s t < 8" using nt_invD [OF inv] k by auto
  have u: "nt_used s' = snd (nbr_set_bit (nt_used s) s t (Some k) False)"
    and o: "nt_keys s' = nt_keys s" "nt_mem s' = nt_mem s" "nt_index s' = nt_index s" "nt_all s' = nt_all s"
      "nt_num s' = nt_num s" "length (nt_locked s') = length (nt_locked s)"
    by (simp_all add: s'_def nbr_table_remove_def nbr_set_bit_def)
  show "nt_keys s' = nt_keys s" "nt_mem s' = nt_mem s" using o by auto
  have uj: "usa s' t j \<longleftrightarrow> j \<noteq> k \<and> usa s t j" for j
    using set_bit_bit [OF kl, of False j] by (simp add: usa_def u o)
  have d: "distinct (nt_keys s)" by (rule nt_invD(1) [OF inv])
  have "filter (\<lambda>j. j \<noteq> k \<and> P j) xs = remove1 k (filter P xs)" if "distinct xs" for P and xs :: "nat list"
    using that by (induction xs) (auto simp: remove1_idem filter_id_conv intro!: filter_cong)
  then show "em s' t = l_remove k (em s t)"
    unfolding em_def o uj l_remove_def using d by simp
  have "(nt_used s') ! j = nt_used s ! j" if "j \<noteq> k" for j
    using that by (simp add: u nbr_set_bit_def)
  moreover have "k \<in> vivos (nt_mem s)" using k nt_invD(2) [OF inv] by simp
  ultimately have "(nt_used s') ! j = 0" if "j < length (used (nt_mem s))" "j \<notin> vivos (nt_mem s)" for j
    using that inv by (cases "j = k") (auto simp: nt_inv_def)
  moreover have "length (nt_used s') = length (nt_used s)" by (simp add: u nbr_set_bit_def)
  ultimately show "nt_inv s'" using inv o unfolding nt_inv_def by simp
  show "iguais k s s'"
    by (simp add: iguais_def s'_def nbr_table_remove_def nbr_set_bit_def)
qed

lemma nbr_lock_run:
  fixes t k :: nat
  assumes inv: "nt_inv s"
  defines "s' \<equiv> snd (nbr_table_lock t (Some k) s)"
  shows "nt_inv s'" and "em s' u = em s u" and "nt_keys s' = nt_keys s" and "nt_mem s' = nt_mem s"
    and "nt_index s' = nt_index s" and "nt_used s' = nt_used s"
proof -
  have o: "nt_keys s' = nt_keys s" "nt_mem s' = nt_mem s" "nt_index s' = nt_index s" "nt_all s' = nt_all s"
      "nt_num s' = nt_num s" "length (nt_locked s') = length (nt_locked s)" "nt_used s' = nt_used s"
    by (simp_all add: s'_def nbr_table_lock_def nbr_set_bit_def)
  show "nt_keys s' = nt_keys s" "nt_mem s' = nt_mem s" "nt_index s' = nt_index s" "nt_used s' = nt_used s"
    using o by auto
  show "nt_inv s'" using inv o unfolding nt_inv_def by simp
  show "em s' u = em s u" using o by (simp add: em_def usa_def [abs_def])
qed

text \<open>A locked neighbor is given up exactly when the policy function names it.\<close>

lemma evicted_locked:
  assumes inv: "nt_inv s" and full: "cheia s" and run: "nbr_table_allocate vic s = (Some k, s')"
  shows "k \<in> set (nt_keys s) \<and> nt_keys s' = l_remove k (nt_keys s) \<and>
    (\<forall>j \<in> set (nt_keys s). vic = Some (nt_addr s j) \<longrightarrow> k = j) \<and>
    (nt_locked s ! k \<noteq> 0 \<longrightarrow> vic = Some (nt_addr s k))"
proof -
  have sp: "reservado k s'" "nt_keys s' = l_remove k (nt_keys s)" "k \<notin> vivos (nt_mem s) \<or> despejado vic s k"
    using allocate_spec [OF inv run] by auto
  have fk: "fst (memb_alloc (nt_mem s)) = None"
  proof (rule ccontr)
    assume "fst (memb_alloc (nt_mem s)) \<noteq> None"
    then obtain i where "fst (memb_alloc (nt_mem s)) = Some i" by blast
    then show False using vivos_alloc memb_alloc_Some full by (fastforce simp: cheia_def)
  qed
  have "k \<in> set (nt_keys s)"
    using run fk unfolding nbr_table_allocate_def
    by (auto simp: index_from_iff [OF inv] Let_def split: prod.splits option.splits dest!: least_loop_Some menos_usado_in)
  then have "k \<in> vivos (nt_mem s)" using nt_invD(2) [OF inv] by simp
  then have d: "despejado vic s k" using sp(3) by simp
  have "inj_on (nt_addr s) (set (nt_keys s))" using inv by (simp add: nt_inv_def)
  then show ?thesis using d sp(2) by (auto simp: despejado_def menos_usado_def dest: inj_onD)
qed

text \<open>Registration gives the tables different bits.\<close>

definition reg_inv :: "nbr_state \<Rightarrow> bool" where
  "reg_inv s \<longleftrightarrow> length (nt_all s) = MAX_NUM_TABLES \<and> nt_num s \<le> MAX_NUM_TABLES \<and>
     (\<forall>i < MAX_NUM_TABLES. \<forall>t. nt_all s ! i = Some t \<longrightarrow> i < nt_num s \<and> nt_index s t = i)"

lemma register_run:
  assumes inv: "reg_inv s"
  shows "reg_inv (snd (nbr_table_register t cb s))"
    and "fst (nbr_table_register t cb s) = 1 \<Longrightarrow> nbr_table_is_registered (snd (nbr_table_register t cb s)) (Some t)"
    and "nbr_table_is_registered s (Some u) \<Longrightarrow>
      nbr_table_is_registered (snd (nbr_table_register t cb s)) (Some u) \<and>
      nt_index (snd (nbr_table_register t cb s)) u = nt_index s u"
proof -
  have ni: "nt_all s ! i \<noteq> Some t" if "\<not> nbr_table_is_registered s (Some t)" "i < MAX_NUM_TABLES" for i
    using inv that by (auto simp: reg_inv_def nbr_table_is_registered_def)
  show "reg_inv (snd (nbr_table_register t cb s))"
  proof (cases "nbr_table_is_registered s (Some t) \<or> nt_num s \<ge> MAX_NUM_TABLES")
    case True
    then show ?thesis using inv by (auto simp: reg_inv_def nbr_table_register_def)
  next
    case False
    let ?s = "s\<lparr>nt_index := (nt_index s)(t := nt_num s), nt_num := nt_num s + 1,
              nt_cb := (nt_cb s)(t := cb), nt_all := (nt_all s)[nt_num s := Some t]\<rparr>"
    have "i < nt_num ?s \<and> nt_index ?s u = i" if "i < MAX_NUM_TABLES" "nt_all ?s ! i = Some u" for i u
    proof (cases "i = nt_num s")
      case True
      then show ?thesis using that False inv by (simp add: reg_inv_def)
    next
      case i: False
      then have "nt_all s ! i = Some u" using that by simp
      moreover from this have "u \<noteq> t" using ni [OF _ that(1)] False by auto
      ultimately show ?thesis using inv that(1) by (auto simp: reg_inv_def)
    qed
    then have "reg_inv ?s" using inv False by (simp add: reg_inv_def)
    then show ?thesis using False by (simp add: nbr_table_register_def)
  qed
  show "nbr_table_is_registered (snd (nbr_table_register t cb s)) (Some t)"
    if r: "fst (nbr_table_register t cb s) = 1"
  proof (cases "nbr_table_is_registered s (Some t)")
    case True
    then show ?thesis by (simp add: nbr_table_register_def nbr_table_is_registered_def)
  next
    case False
    then have "nt_num s < MAX_NUM_TABLES" using r by (simp add: nbr_table_register_def split: if_splits)
    moreover have "length (nt_all s) = MAX_NUM_TABLES" using inv by (simp add: reg_inv_def)
    ultimately show ?thesis using False by (simp add: nbr_table_register_def nbr_table_is_registered_def [of "_ \<lparr> nt_index := _, nt_num := _, nt_cb := _, nt_all := _ \<rparr>"])
  qed
  show "nbr_table_is_registered (snd (nbr_table_register t cb s)) (Some u) \<and>
      nt_index (snd (nbr_table_register t cb s)) u = nt_index s u"
    if u: "nbr_table_is_registered s (Some u)"
  proof (cases "nbr_table_is_registered s (Some t) \<or> nt_num s \<ge> MAX_NUM_TABLES")
    case True
    then show ?thesis using u by (auto simp: nbr_table_register_def nbr_table_is_registered_def)
  next
    case False
    then have "u \<noteq> t" using u by auto
    moreover have "nt_index s u < nt_num s" using u inv by (auto simp: nbr_table_is_registered_def reg_inv_def)
    ultimately show ?thesis
      using u False by (simp add: nbr_table_register_def nbr_table_is_registered_def)
  qed
qed

section \<open>The items of a table, as the loops of its users visit them\<close>

text \<open>
  for(n = nbr_table_head(t); n != NULL; n = nbr_table_next(t, n)): the items visited, with the
  number of keys as fuel. Under the invariant these are the members of the table.
\<close>

primrec collect :: "nat \<Rightarrow> nbr_state \<Rightarrow> nat \<Rightarrow> nat option \<Rightarrow> nat list" where
  "collect 0 s t p = []"
| "collect (Suc n) s t p = (case p of None \<Rightarrow> [] | Some k \<Rightarrow> k # collect n s t (nbr_table_next s t (Some k)))"

definition nbr_itens :: "nbr_state \<Rightarrow> nat \<Rightarrow> nat list" where
  "nbr_itens s t = collect (length (nt_keys s)) s t (nbr_table_head s t)"

lemma collect_walk: "fst (nbr.walk n (s, t) (\<lambda>x b. b @ [x]) p b) = b @ collect n s t p"
  by (induction n arbitrary: p b) (auto split: option.splits)

lemma nbr_itens_em: "nt_inv s \<Longrightarrow> nbr_itens s t = em s t"
proof -
  assume inv: "nt_inv s"
  have "length (em s t) \<le> length (nt_keys s)" by (simp add: em_def)
  then have "nbr.walk (length (nt_keys s)) (s, t) (\<lambda>x b. b @ [x]) (nbr_table_head s t) []
      = (fold (\<lambda>x b. b @ [x]) (em s t) [], None)"
    using nbr.walk_all [of "(s, t)"] inv by simp
  moreover have "fold (\<lambda>x b. b @ [x]) xs b = b @ xs" for xs b :: "nat list"
    by (induction xs arbitrary: b) auto
  ultimately show ?thesis
    using collect_walk [of "length (nt_keys s)" s t "nbr_table_head s t" "[]"] by (simp add: nbr_itens_def)
qed

end
