(* ===== verification/Ringbufindex.thy ===== *)
theory Ringbufindex
  imports Tsch_Prelude
begin

text \<open>
  os/lib/ringbufindex.c and os/lib/ringbuf.c: ring buffers of a power of two slots, with 8-bit
  read and write pointers. C computes put_ptr - get_ptr as an int and masks it; the low eight
  bits are those of the 8-bit difference, which is what is written here.

  The locale index-queue is the contract the packet queues rely on: a queue of slot numbers.
  Its client lemmas turn it into a queue of the data stored in the slots.
\<close>

section \<open>Definitions\<close>

record ringbufindex =
  rb_mask :: u8
  put_ptr :: u8
  get_ptr :: u8

definition rb_dif :: "ringbufindex \<Rightarrow> u8" where
  "rb_dif r = (put_ptr r - get_ptr r) AND rb_mask r"

definition ringbufindex_init :: "u8 \<Rightarrow> ringbufindex" where
  "ringbufindex_init sz = \<lparr>rb_mask = sz - 1, put_ptr = 0, get_ptr = 0\<rparr>"

definition ringbufindex_put :: "ringbufindex \<Rightarrow> int \<times> ringbufindex" where
  "ringbufindex_put r =
     (if rb_dif r = rb_mask r then (0, r)
      else (1, r\<lparr>put_ptr := (put_ptr r + 1) AND rb_mask r\<rparr>))"

definition ringbufindex_peek_put :: "ringbufindex \<Rightarrow> int" where
  "ringbufindex_peek_put r = (if rb_dif r = rb_mask r then -1 else uint (put_ptr r))"

definition ringbufindex_get :: "ringbufindex \<Rightarrow> int \<times> ringbufindex" where
  "ringbufindex_get r =
     (if rb_dif r > 0 then (uint (get_ptr r), r\<lparr>get_ptr := (get_ptr r + 1) AND rb_mask r\<rparr>)
      else (-1, r))"

definition ringbufindex_peek_get :: "ringbufindex \<Rightarrow> int" where
  "ringbufindex_peek_get r = (if rb_dif r > 0 then uint (get_ptr r) else -1)"

definition ringbufindex_size :: "ringbufindex \<Rightarrow> int" where
  "ringbufindex_size r = uint (rb_mask r) + 1"

definition ringbufindex_elements :: "ringbufindex \<Rightarrow> int" where
  "ringbufindex_elements r = uint (rb_dif r)"

definition ringbufindex_full :: "ringbufindex \<Rightarrow> bool" where
  "ringbufindex_full r \<longleftrightarrow> rb_dif r = rb_mask r"

definition ringbufindex_empty :: "ringbufindex \<Rightarrow> bool" where
  "ringbufindex_empty r \<longleftrightarrow> ringbufindex_elements r = 0"

text \<open>ringbuf.c keeps the data beside the same indices.\<close>

record ringbuf =
  rb_data :: "u8 list"
  rb_idx :: ringbufindex

definition ringbuf_init :: "u8 list \<Rightarrow> u8 \<Rightarrow> ringbuf" where
  "ringbuf_init dataptr sz =
     \<lparr>rb_data = dataptr, rb_idx = \<lparr>rb_mask = sz - 1, put_ptr = 0, get_ptr = 0\<rparr>\<rparr>"

definition ringbuf_put :: "ringbuf \<Rightarrow> u8 \<Rightarrow> (int \<times> ringbuf) option" where
  "ringbuf_put r c =
     (if rb_dif (rb_idx r) = rb_mask (rb_idx r) then Some (0, r)
      else do {
        d \<leftarrow> wr (rb_data r) (unat (put_ptr (rb_idx r))) c;
        Some (1, \<lparr>rb_data = d, rb_idx = (rb_idx r)
                   \<lparr>put_ptr := (put_ptr (rb_idx r) + 1) AND rb_mask (rb_idx r)\<rparr>\<rparr>) })"

definition ringbuf_get :: "ringbuf \<Rightarrow> (int \<times> ringbuf) option" where
  "ringbuf_get r =
     (if rb_dif (rb_idx r) > 0 then do {
        c \<leftarrow> rd (rb_data r) (unat (get_ptr (rb_idx r)));
        Some (uint c, r\<lparr>rb_idx := (rb_idx r)
                   \<lparr>get_ptr := (get_ptr (rb_idx r) + 1) AND rb_mask (rb_idx r)\<rparr>\<rparr>) }
      else Some (-1, r))"

definition ringbuf_size :: "ringbuf \<Rightarrow> int" where
  "ringbuf_size r = uint (rb_mask (rb_idx r)) + 1"

definition ringbuf_elements :: "ringbuf \<Rightarrow> int" where
  "ringbuf_elements r = uint (rb_dif (rb_idx r))"

section \<open>The contract of an index queue\<close>

text \<open>
  els q lists the slots in use, oldest first; a queue of size n never holds more than n - 1.
  The operations answer -1 (or 0 for put) when they cannot proceed.
\<close>

locale index_queue =
  fixes ok :: "'q \<Rightarrow> bool"
    and sz :: "'q \<Rightarrow> nat"
    and els :: "'q \<Rightarrow> nat list"
    and peek_put :: "'q \<Rightarrow> int"
    and put :: "'q \<Rightarrow> int \<times> 'q"
    and peek_get :: "'q \<Rightarrow> int"
    and get :: "'q \<Rightarrow> int \<times> 'q"
  assumes els_ok: "ok q \<Longrightarrow> distinct (els q) \<and> (\<forall>i \<in> set (els q). i < sz q) \<and> length (els q) < sz q"
    and full: "ok q \<Longrightarrow> length (els q) + 1 = sz q \<Longrightarrow> peek_put q = -1 \<and> put q = (0, q)"
    and room: "ok q \<Longrightarrow> length (els q) + 1 < sz q \<Longrightarrow>
      \<exists>i. peek_put q = int i \<and> i < sz q \<and> i \<notin> set (els q) \<and> fst (put q) = 1 \<and>
        ok (snd (put q)) \<and> sz (snd (put q)) = sz q \<and> els (snd (put q)) = els q @ [i]"
    and empty: "ok q \<Longrightarrow> els q = [] \<Longrightarrow> peek_get q = -1 \<and> get q = (-1, q)"
    and front: "ok q \<Longrightarrow> els q = i # is \<Longrightarrow> peek_get q = int i \<and> fst (get q) = int i \<and>
        ok (snd (get q)) \<and> sz (snd (get q)) = sz q \<and> els (snd (get q)) = is"
begin

text \<open>The data in the slots of the queue, oldest first.\<close>

definition conteudo :: "'d list \<Rightarrow> 'q \<Rightarrow> 'd list" where
  "conteudo d q = map (\<lambda>i. d ! i) (els q)"

lemma write_put:
  assumes "ok q" and "length (els q) + 1 < sz q" and "length d = sz q"
  shows "conteudo (d[nat (peek_put q) := v]) (snd (put q)) = conteudo d q @ [v]"
proof -
  obtain i where i: "peek_put q = int i" "i < sz q" "i \<notin> set (els q)" "els (snd (put q)) = els q @ [i]"
    using room [OF assms(1,2)] by auto
  have "map ((!) (d[i := v])) (els q) = map ((!) d) (els q)"
    using i(3) by (intro map_cong refl) (metis nth_list_update_neq)
  then show ?thesis using i assms(3) by (simp add: conteudo_def)
qed

lemma read_get:
  assumes "ok q" and "conteudo d q = v # vs"
  shows "d ! nat (peek_get q) = v \<and> fst (get q) = peek_get q \<and> conteudo d (snd (get q)) = vs"
proof -
  obtain i "is" where e: "els q = i # is" using assms(2) by (cases "els q") (auto simp: conteudo_def)
  show ?thesis using front [OF assms(1) e] assms(2) e by (auto simp: conteudo_def)
qed

lemma peek_put_fresh:
  "ok q \<Longrightarrow> peek_put q \<noteq> -1 \<Longrightarrow> 0 \<le> peek_put q \<and> nat (peek_put q) < sz q \<and> nat (peek_put q) \<notin> set (els q)"
  using els_ok [of q] full [of q] room [of q] by (cases "length (els q) + 1 = sz q") force+

end

section \<open>The pointers as a window of slots\<close>

definition rb_k :: "nat \<Rightarrow> ringbufindex \<Rightarrow> bool" where
  "rb_k k r \<longleftrightarrow> k \<le> 8 \<and> rb_mask r = mask k \<and> unat (put_ptr r) < 2 ^ k \<and> unat (get_ptr r) < 2 ^ k"

definition rb_ok :: "ringbufindex \<Rightarrow> bool" where
  "rb_ok r \<longleftrightarrow> (\<exists>k. rb_k k r)"

definition rb_sz :: "ringbufindex \<Rightarrow> nat" where
  "rb_sz r = unat (rb_mask r) + 1"

definition rb_els :: "ringbufindex \<Rightarrow> nat list" where
  "rb_els r = map (\<lambda>i. (unat (get_ptr r) + i) mod rb_sz r) [0..<unat (rb_dif r)]"

lemma unat_and_mask: "unat (w AND mask k :: u8) = unat w mod 2 ^ k"
proof -
  have "w AND mask k = take_bit k w" by (simp add: take_bit_eq_mask)
  then have "unat (w AND mask k) = take_bit k (unat w)" by (simp only: unsigned_take_bit_eq)
  then show ?thesis by (simp only: take_bit_eq_mod)
qed

lemma unat_mask8: "k \<le> 8 \<Longrightarrow> unat (mask k :: u8) = 2 ^ k - 1"
proof -
  assume "k \<le> 8"
  then consider "k = 0" | "k = 1" | "k = 2" | "k = 3" | "k = 4" | "k = 5" | "k = 6" | "k = 7" | "k = 8"
    by linarith
  then show ?thesis by cases (simp_all add: mask_eq_exp_minus_1)
qed

lemma rb_k_sz: "rb_k k r \<Longrightarrow> rb_sz r = 2 ^ k"
  by (simp add: rb_k_def rb_sz_def unat_mask8)

lemma dvd_256: "k \<le> 8 \<Longrightarrow> (2 :: nat) ^ k dvd 256"
  using le_imp_power_dvd [of k 8 "2 :: nat"] by simp

lemma rb_dif_val:
  assumes "rb_k k r"
  shows "unat (rb_dif r) = (unat (put_ptr r) + 2 ^ k - unat (get_ptr r)) mod 2 ^ k"
proof -
  let ?p = "unat (put_ptr r)" and ?g = "unat (get_ptr r)"
  have k: "k \<le> 8" "?g < 2 ^ k" "?p < 2 ^ k" and m: "rb_mask r = mask k" using assms by (auto simp: rb_k_def)
  have "unat (put_ptr r - get_ptr r) = (?p + 256 - ?g) mod 256"
    using unat_less8 [of "put_ptr r"] unat_less8 [of "get_ptr r"]
    by (cases "get_ptr r \<le> put_ptr r")
      (simp_all add: unat_sub_if' word_le_nat_alt mod_if)
  then have d: "unat (rb_dif r) = (?p + 256 - ?g) mod 2 ^ k"
    using dvd_256 [OF k(1)] by (simp add: rb_dif_def m unat_and_mask mod_mod_cancel)
  obtain j where j: "(256 :: nat) = 2 ^ k * j" using dvd_256 [OF k(1)] by blast
  then have "0 < j" by (cases j) auto
  then obtain i where "j = Suc i" by (cases j) auto
  then have "?p + 256 - ?g = (?p + 2 ^ k - ?g) + 2 ^ k * i" using k j by simp
  then show ?thesis unfolding d by simp
qed

lemma suc_mask:
  assumes "rb_k k r"
  shows "unat ((w + 1) AND rb_mask r) = (unat w + 1) mod 2 ^ k"
  using assms dvd_256 [of k] by (simp add: rb_k_def unat_and_mask unat_Suc8 mod_mod_cancel)

text \<open>Modular arithmetic of a window that starts at g and ends before p.\<close>

lemma window_le: "g \<le> p \<Longrightarrow> p < n \<Longrightarrow> (p + n - g) mod n = p - (g :: nat)"
proof -
  assume "g \<le> p" "p < n"
  then have e: "p + n - g = (p - g) + n" by simp
  show "(p + n - g) mod n = p - g" unfolding e mod_add_self2 using \<open>p < n\<close> by simp
qed

lemma window_gt: "p < g \<Longrightarrow> g \<le> n \<Longrightarrow> (p + n - g) mod n = p + n - (g :: nat)"
  by simp

lemma window_suc:
  assumes "g < n" and "p < n" and nf: "(p + n - g) mod n \<noteq> n - (1 :: nat)"
  shows "((p + 1) mod n + n - g) mod n = (p + n - g) mod n + 1" and "(g + (p + n - g) mod n) mod n = p"
proof -
  consider "g \<le> p" "p + 1 < n" | "g \<le> p" "p + 1 = n" | "p < g" using assms by linarith
  then have "((p + 1) mod n + n - g) mod n = (p + n - g) mod n + 1 \<and> (g + (p + n - g) mod n) mod n = p"
  proof cases
    case 1
    then have m: "(p + 1) mod n = p + 1" by simp
    show ?thesis
      unfolding m using window_le [of g p n] window_le [of g "p + 1" n] 1 by simp
  next
    case 2
    then have m: "(p + 1) mod n = 0" by simp
    have w: "(p + n - g) mod n = p - g" using window_le [of g p n] 2 by simp
    then have g: "0 < g" using 2 nf by auto
    show ?thesis
      unfolding m w using window_gt [of 0 g n] 2 g assms(1) by simp
  next
    case 3
    have w: "(p + n - g) mod n = p + n - g" using window_gt [of p g n] 3 assms(1) by simp
    have m: "(p + 1) mod n = p + 1" using 3 assms by simp
    have "(p + 1 + n - g) mod n = p + n - g + 1"
    proof (cases "p + 1 = g")
      case True
      then show ?thesis using w nf by simp
    next
      case False
      then show ?thesis using window_gt [of "p + 1" g n] 3 assms(1) by simp
    qed
    moreover have "g + (p + n - g) = p + n" using 3 assms by simp
    ultimately show ?thesis unfolding m w using assms(2) by (simp del: add_diff_assoc2)
  qed
  then show "((p + 1) mod n + n - g) mod n = (p + n - g) mod n + 1"
    and "(g + (p + n - g) mod n) mod n = p" by auto
qed

lemma window_pred:
  assumes "g < n" and "p < n" and ne: "(p + n - g) mod n > (0 :: nat)"
  shows "(p + n - (g + 1) mod n) mod n = (p + n - g) mod n - 1"
proof -
  have "g \<noteq> p" using ne by (cases "g = p") auto
  then consider "g < p" | "p < g" "g + 1 < n" | "p < g" "g + 1 = n"
    using assms(1) by linarith
  then show ?thesis
  proof cases
    case 1
    then show ?thesis using window_le [of g p n] window_le [of "g + 1" p n] assms by simp
  next
    case 2
    then show ?thesis using window_gt [of p g n] window_gt [of p "g + 1" n] by simp
  next
    case 3
    then show ?thesis using window_gt [of p g n] assms by simp
  qed
qed

lemma window_inj: "g < n \<Longrightarrow> inj_on (\<lambda>i. (g + i) mod n) {0..<n}" for g n :: nat
proof (rule inj_onI)
  fix i j
  assume g: "g < n" and ij: "i \<in> {0..<n}" "j \<in> {0..<n}" and e: "(g + i) mod n = (g + j) mod n"
  have "(g + k) mod n = (if g + k < n then g + k else g + k - n)" if "k < n" for k
    using that g by (simp add: mod_if)
  then show "i = j" using e g ij by (auto split: if_splits)
qed

lemma window_distinct: "g < n \<Longrightarrow> m \<le> n \<Longrightarrow> distinct (map (\<lambda>i. (g + i) mod n) [0..<m])"
  using inj_on_subset [OF window_inj [of g n], of "{0..<m}"] by (simp add: distinct_map)

lemma window_shift: "map (\<lambda>i. ((g + 1) mod n + i) mod n) [0..<m] = map (\<lambda>i. (g + i) mod n) [1..<Suc m]"
  by (rule nth_equalityI) (auto simp: mod_simps add.commute add.left_commute nth_append simp del: upt_Suc)

lemma rb_full_iff: "rb_k k r \<Longrightarrow> rb_dif r = rb_mask r \<longleftrightarrow> unat (rb_dif r) = 2 ^ k - 1"
  by (simp add: word_eq_unat rb_k_def unat_mask8)

lemma rb_put_els:
  assumes r: "rb_k k r" and nf: "rb_dif r \<noteq> rb_mask r"
  shows "rb_k k (snd (ringbufindex_put r))"
    and "rb_els (snd (ringbufindex_put r)) = rb_els r @ [unat (put_ptr r)]"
proof -
  let ?r = "r\<lparr>put_ptr := (put_ptr r + 1) AND rb_mask r\<rparr>"
  let ?p = "unat (put_ptr r)" and ?g = "unat (get_ptr r)"
  have k: "?g < 2 ^ k" "?p < 2 ^ k" using r by (auto simp: rb_k_def)
  have nf': "(?p + 2 ^ k - ?g) mod 2 ^ k \<noteq> 2 ^ k - 1"
    using nf rb_full_iff [OF r] rb_dif_val [OF r] by simp
  note w = window_suc [OF k nf']
  show r': "rb_k k (snd (ringbufindex_put r))"
    using r nf suc_mask [OF r, of "put_ptr r"] by (simp add: ringbufindex_put_def rb_k_def)
  have "unat (rb_dif ?r) = unat (rb_dif r) + 1"
    using rb_dif_val [of k ?r] r' nf w(1) rb_dif_val [OF r] suc_mask [OF r, of "put_ptr r"]
    by (simp add: ringbufindex_put_def)
  then have "rb_els ?r = map (\<lambda>i. (?g + i) mod rb_sz r) [0..<Suc (unat (rb_dif r))]"
    by (simp add: rb_els_def rb_sz_def)
  also have "\<dots> = rb_els r @ [?p]"
    using w(2) rb_dif_val [OF r] rb_k_sz [OF r] by (simp add: rb_els_def)
  finally show "rb_els (snd (ringbufindex_put r)) = rb_els r @ [?p]"
    using nf by (simp add: ringbufindex_put_def)
qed

lemma rb_get_els:
  assumes r: "rb_k k r" and ne: "rb_dif r > 0"
  shows "rb_k k (snd (ringbufindex_get r))"
    and "rb_els r = unat (get_ptr r) # rb_els (snd (ringbufindex_get r))"
proof -
  let ?r = "r\<lparr>get_ptr := (get_ptr r + 1) AND rb_mask r\<rparr>"
  let ?p = "unat (put_ptr r)" and ?g = "unat (get_ptr r)"
  have k: "?g < 2 ^ k" "?p < 2 ^ k" using r by (auto simp: rb_k_def)
  have ne': "0 < unat (rb_dif r)" using ne by (simp add: word_less_nat_alt)
  show r': "rb_k k (snd (ringbufindex_get r))"
    using r ne suc_mask [OF r, of "get_ptr r"] by (simp add: ringbufindex_get_def rb_k_def)
  have "unat (rb_dif ?r) = unat (rb_dif r) - 1"
    using rb_dif_val [of k ?r] r' ne window_pred [OF k] ne' rb_dif_val [OF r] suc_mask [OF r, of "get_ptr r"]
    by (simp add: ringbufindex_get_def)
  then have "rb_els ?r = map (\<lambda>i. ((?g + 1) mod rb_sz r + i) mod rb_sz r) [0..<unat (rb_dif r) - 1]"
    using suc_mask [OF r, of "get_ptr r"] rb_k_sz [OF r] by (simp add: rb_els_def rb_sz_def)
  also have "\<dots> = map (\<lambda>i. (?g + i) mod rb_sz r) [1..<unat (rb_dif r)]"
    using window_shift [of ?g "rb_sz r" "unat (rb_dif r) - 1"] ne' by simp
  finally have "unat (get_ptr r) # rb_els ?r = rb_els r"
    using ne' k rb_k_sz [OF r] by (simp add: rb_els_def upt_rec [of 0])
  then show "rb_els r = unat (get_ptr r) # rb_els (snd (ringbufindex_get r))"
    using ne by (simp add: ringbufindex_get_def)
qed

interpretation rbi: index_queue rb_ok rb_sz rb_els ringbufindex_peek_put ringbufindex_put
  ringbufindex_peek_get ringbufindex_get
proof (unfold_locales, goal_cases)
  case (1 q)
  then obtain k where k: "rb_k k q" by (auto simp: rb_ok_def)
  have lt: "unat (rb_dif q) < 2 ^ k" unfolding rb_dif_val [OF k] by simp
  have "unat (get_ptr q) < 2 ^ k" using k by (simp add: rb_k_def)
  from window_distinct [OF this less_imp_le [OF lt]] show ?case
    using lt rb_k_sz [OF k] by (auto simp: rb_els_def)
next
  case (2 q)
  then obtain k where k: "rb_k k q" by (auto simp: rb_ok_def)
  then have "rb_dif q = rb_mask q" using 2(2) rb_full_iff [OF k] rb_k_sz [OF k] by (simp add: rb_els_def)
  then show ?case by (simp add: ringbufindex_peek_put_def ringbufindex_put_def)
next
  case (3 q)
  then obtain k where k: "rb_k k q" by (auto simp: rb_ok_def)
  have nf: "rb_dif q \<noteq> rb_mask q" using 3(2) rb_full_iff [OF k] rb_k_sz [OF k] by (simp add: rb_els_def)
  note p = rb_put_els [OF k nf]
  have "distinct (rb_els q @ [unat (put_ptr q)])"
  proof -
    have "unat (rb_dif (snd (ringbufindex_put q))) \<le> 2 ^ k"
      unfolding rb_dif_val [OF p(1)] by (simp add: less_imp_le)
    then have "distinct (rb_els (snd (ringbufindex_put q)))"
      using window_distinct p(1) rb_k_sz [OF p(1)] unfolding rb_els_def by (auto simp: rb_k_def)
    then show ?thesis using p(2) by simp
  qed
  then show ?case
    using p k nf rb_k_sz [OF k] rb_k_sz [OF p(1)]
    by (intro exI [of _ "unat (put_ptr q)"])
      (auto simp: ringbufindex_peek_put_def ringbufindex_put_def rb_ok_def rb_k_def)
next
  case (4 q)
  then have "unat (rb_dif q) = 0" by (simp add: rb_els_def)
  then have "\<not> rb_dif q > 0" by (simp add: word_less_nat_alt)
  then show ?case by (simp add: ringbufindex_peek_get_def ringbufindex_get_def)
next
  case (5 q i "is")
  then obtain k where k: "rb_k k q" by (auto simp: rb_ok_def)
  have "rb_dif q > 0" using 5(2) by (cases "unat (rb_dif q) = 0") (auto simp: rb_els_def word_less_nat_alt)
  note g = rb_get_els [OF k this]
  show ?case
    using g 5(2) \<open>rb_dif q > 0\<close> rb_k_sz [OF k] rb_k_sz [OF g(1)] rb_ok_def
    by (auto simp: ringbufindex_peek_get_def ringbufindex_get_def)
qed

lemma rb_init_ok:
  assumes "k < 8"
  shows "rb_k k (ringbufindex_init (2 ^ k))" and "rb_els (ringbufindex_init (2 ^ k)) = []"
    and "rb_sz (ringbufindex_init (2 ^ k)) = 2 ^ k"
proof -
  have m: "(2 ^ k - 1 :: u8) = mask k" by (simp add: mask_eq_exp_minus_1)
  show k: "rb_k k (ringbufindex_init (2 ^ k))" using assms m by (simp add: ringbufindex_init_def rb_k_def)
  show "rb_els (ringbufindex_init (2 ^ k)) = []" by (simp add: ringbufindex_init_def rb_els_def rb_dif_def)
  show "rb_sz (ringbufindex_init (2 ^ k)) = 2 ^ k" by (rule rb_k_sz [OF k])
qed

lemma ringbufindex_elements_els: "ringbufindex_elements r = int (length (rb_els r))"
  by (simp add: ringbufindex_elements_def rb_els_def)

lemma ringbufindex_empty_els: "ringbufindex_empty r \<longleftrightarrow> rb_els r = []"
  by (simp add: ringbufindex_empty_def ringbufindex_elements_els)

lemma ringbufindex_full_els: "rb_ok r \<Longrightarrow> ringbufindex_full r \<longleftrightarrow> length (rb_els r) + 1 = rb_sz r"
  using rb_full_iff rb_k_sz by (fastforce simp: ringbufindex_full_def rb_ok_def rb_els_def)

section \<open>ringbuf is a queue of bytes\<close>

definition fila :: "ringbuf \<Rightarrow> u8 list" where
  "fila r = rbi.conteudo (rb_data r) (rb_idx r)"

definition ringbuf_ok :: "ringbuf \<Rightarrow> bool" where
  "ringbuf_ok r \<longleftrightarrow> rb_ok (rb_idx r) \<and> length (rb_data r) = rb_sz (rb_idx r)"

lemma ringbuf_put_fila:
  assumes "ringbuf_ok r"
  shows "\<exists>v r'. ringbuf_put r c = Some (v, r') \<and> ringbuf_ok r' \<and> rb_sz (rb_idx r') = rb_sz (rb_idx r) \<and>
    (if length (fila r) + 1 < rb_sz (rb_idx r) then v = 1 \<and> fila r' = fila r @ [c] else v = 0 \<and> r' = r)"
proof -
  let ?q = "rb_idx r"
  have ok: "rb_ok ?q" "length (rb_data r) = rb_sz ?q" using assms by (auto simp: ringbuf_ok_def)
  have len: "length (fila r) = length (rb_els ?q)" by (simp add: fila_def rbi.conteudo_def)
  show ?thesis
  proof (cases "length (rb_els ?q) + 1 < rb_sz ?q")
    case True
    then have nf: "rb_dif ?q \<noteq> rb_mask ?q"
      using ringbufindex_full_els [OF ok(1)] by (auto simp: ringbufindex_full_def)
    then have pp: "ringbufindex_peek_put ?q = int (unat (put_ptr ?q))"
      by (simp add: ringbufindex_peek_put_def)
    let ?q' = "?q\<lparr>put_ptr := (put_ptr ?q + 1) AND rb_mask ?q\<rparr>"
    have q': "snd (ringbufindex_put ?q) = ?q'" using nf by (simp add: ringbufindex_put_def)
    have "unat (put_ptr ?q) < length (rb_data r)"
      using rbi.room [OF ok(1) True] unfolding pp ok(2) by (metis of_nat_eq_iff)
    then show ?thesis
      using rbi.write_put [OF ok(1) True ok(2), of c] rbi.room [OF ok(1) True] pp q' nf ok len True
      by (auto simp: ringbuf_put_def ringbuf_ok_def fila_def)
  next
    case False
    then have "rb_dif ?q = rb_mask ?q"
      using ringbufindex_full_els [OF ok(1)] rbi.els_ok [OF ok(1)] by (auto simp: ringbufindex_full_def)
    then show ?thesis using assms False len by (simp add: ringbuf_put_def)
  qed
qed

lemma ringbuf_get_fila:
  assumes "ringbuf_ok r"
  shows "\<exists>v r'. ringbuf_get r = Some (v, r') \<and> ringbuf_ok r' \<and>
    (case fila r of [] \<Rightarrow> v = -1 \<and> r' = r | b # bs \<Rightarrow> v = uint b \<and> fila r' = bs)"
proof -
  let ?q = "rb_idx r"
  have ok: "rb_ok ?q" "length (rb_data r) = rb_sz ?q" using assms by (auto simp: ringbuf_ok_def)
  show ?thesis
  proof (cases "rb_els ?q")
    case Nil
    then have "\<not> rb_dif ?q > 0" by (simp add: rb_els_def word_less_nat_alt)
    then show ?thesis using assms Nil by (simp add: ringbuf_get_def fila_def rbi.conteudo_def)
  next
    case (Cons i "is")
    then have g: "rb_dif ?q > 0"
      by (cases "unat (rb_dif ?q) = 0") (auto simp: rb_els_def word_less_nat_alt)
    note f = rbi.front [OF ok(1) Cons]
    have "uint (get_ptr ?q) = int i" using f g by (simp add: ringbufindex_peek_get_def)
    then have gi: "unat (get_ptr ?q) = i" using nat_uint_eq [of "get_ptr ?q"] by simp
    have "i < rb_sz ?q" using rbi.els_ok [OF ok(1)] Cons by simp
    then show ?thesis
      using f g gi ok Cons
      by (auto simp: ringbuf_get_def ringbuf_ok_def fila_def rbi.conteudo_def ringbufindex_get_def
        ringbufindex_peek_get_def)
  qed
qed

end
