(* ===== verification/Tsch_Lock.thy ===== *)
theory Tsch_Lock
  imports Tsch_Prelude
begin

text \<open>
  The lock of os/net/mac/tsch/tsch-slot-operation.c (lines 135 to 235): tsch_locked protects the
  schedule and the queues outside of interrupts, tsch_lock_requested keeps the slot interrupt from
  starting a slot operation, tsch_in_slot_operation is set while one runs.

  The functions are first given as sequential code: the busy wait of tsch_get_lock never ends if
  nothing else runs, so it is None when it is entered. The second half interleaves the statements
  of the main program and of the interrupt handler as a step relation.
\<close>

section \<open>Sequential code\<close>

record tsch_lk =
  tsch_locked :: bool
  tsch_lock_requested :: bool
  tsch_in_slot_operation :: bool

definition tsch_is_locked :: "tsch_lk \<Rightarrow> bool" where
  "tsch_is_locked l = tsch_locked l"

definition tsch_get_lock :: "tsch_lk \<Rightarrow> (int \<times> tsch_lk) option" where
  "tsch_get_lock l =
     (if \<not> tsch_locked l then
        (if tsch_in_slot_operation l then None
         else Some (1, l\<lparr>tsch_locked := True, tsch_lock_requested := False\<rparr>))
      else Some (0, l))"

definition tsch_release_lock :: "tsch_lk \<Rightarrow> tsch_lk" where
  "tsch_release_lock l = l\<lparr>tsch_locked := False\<rparr>"

text \<open>The state in which the operations of the other components are called: unlocked, no slot running.\<close>

definition livre :: "tsch_lk \<Rightarrow> bool" where
  "livre l \<longleftrightarrow> \<not> tsch_locked l \<and> \<not> tsch_in_slot_operation l"

lemma get_lock_livre [simp]:
  "livre l \<Longrightarrow> tsch_get_lock l = Some (1, l\<lparr>tsch_locked := True, tsch_lock_requested := False\<rparr>)"
  by (simp add: livre_def tsch_get_lock_def)

lemma livre_not_locked [simp]: "livre l \<Longrightarrow> \<not> tsch_is_locked l"
  by (simp add: livre_def tsch_is_locked_def)

lemma get_lock_taken [simp]: "tsch_is_locked l \<Longrightarrow> tsch_get_lock l = Some (0, l)"
  by (simp add: tsch_is_locked_def tsch_get_lock_def)

lemma release_livre [simp]:
  "livre l \<Longrightarrow> livre (tsch_release_lock (l\<lparr>tsch_locked := True, tsch_lock_requested := b\<rparr>))"
  by (simp add: livre_def tsch_release_lock_def)

section \<open>Main program and slot interrupt, interleaved\<close>

text \<open>
  Where the main program is in tsch_get_lock, and who runs. The busy wait reads the flag of the
  interrupt; the interrupt handler starts a slot operation only when no lock is requested.
\<close>

datatype main_pc = Fora | Pedindo | Livre_visto | Com_lock

record mundo =
  lk :: tsch_lk
  pc :: main_pc

inductive passo :: "mundo \<Rightarrow> mundo \<Rightarrow> bool" where
  pede: "pc w = Fora \<Longrightarrow> \<not> tsch_locked (lk w) \<Longrightarrow>
    passo w (w\<lparr>pc := Pedindo, lk := (lk w)\<lparr>tsch_lock_requested := True\<rparr>\<rparr>)"
| espera: "pc w = Pedindo \<Longrightarrow> tsch_in_slot_operation (lk w) \<Longrightarrow> passo w w"
| ve_livre: "pc w = Pedindo \<Longrightarrow> \<not> tsch_in_slot_operation (lk w) \<Longrightarrow> passo w (w\<lparr>pc := Livre_visto\<rparr>)"
| toma: "pc w = Livre_visto \<Longrightarrow> \<not> tsch_locked (lk w) \<Longrightarrow>
    passo w (w\<lparr>pc := Com_lock, lk := (lk w)\<lparr>tsch_locked := True, tsch_lock_requested := False\<rparr>\<rparr>)"
| solta: "pc w = Com_lock \<Longrightarrow> passo w (w\<lparr>pc := Fora, lk := tsch_release_lock (lk w)\<rparr>)"
| slot_inicia: "\<not> tsch_in_slot_operation (lk w) \<Longrightarrow> \<not> tsch_lock_requested (lk w) \<Longrightarrow>
    passo w (w\<lparr>lk := (lk w)\<lparr>tsch_in_slot_operation := True\<rparr>\<rparr>)"
| slot_termina: "tsch_in_slot_operation (lk w) \<Longrightarrow>
    passo w (w\<lparr>lk := (lk w)\<lparr>tsch_in_slot_operation := False\<rparr>\<rparr>)"

inductive_simps passo_Pedindo: "passo \<lparr>lk = l, pc = Pedindo\<rparr> w"

definition inicio :: mundo where
  "inicio = \<lparr>lk = \<lparr>tsch_locked = False, tsch_lock_requested = False, tsch_in_slot_operation = False\<rparr>, pc = Fora\<rparr>"

definition alcanca :: "mundo \<Rightarrow> bool" where
  "alcanca w \<longleftrightarrow> passo\<^sup>*\<^sup>* inicio w"

definition lock_inv :: "mundo \<Rightarrow> bool" where
  "lock_inv w \<longleftrightarrow>
     (tsch_locked (lk w) \<longleftrightarrow> pc w = Com_lock) \<and>
     (tsch_lock_requested (lk w) \<longleftrightarrow> pc w = Pedindo \<or> pc w = Livre_visto) \<and>
     (pc w = Livre_visto \<longrightarrow> \<not> tsch_in_slot_operation (lk w))"

lemma lock_inv_passo: "passo w w' \<Longrightarrow> lock_inv w \<Longrightarrow> lock_inv w'"
  by (induction rule: passo.induct) (auto simp: lock_inv_def tsch_release_lock_def)

lemma lock_inv_alcanca: "alcanca w \<Longrightarrow> lock_inv w"
  unfolding alcanca_def
proof (induction rule: rtranclp_induct)
  case base
  show ?case by (simp add: lock_inv_def inicio_def)
next
  case (step y z)
  then show ?case using lock_inv_passo by blast
qed

text \<open>The lock is taken only while no slot operation runs.\<close>

lemma toma_fora_do_slot:
  assumes "alcanca w" and "passo w w'" and "pc w \<noteq> Com_lock" and "pc w' = Com_lock"
  shows "\<not> tsch_in_slot_operation (lk w) \<and> tsch_locked (lk w')"
  using assms(2) lock_inv_alcanca [OF assms(1)] assms(3,4)
  by (induction rule: passo.induct) (auto simp: lock_inv_def)

text \<open>While the lock is requested no slot operation starts, so the busy wait is bounded by one slot.\<close>

lemma pedido_bloqueia_slot:
  assumes "alcanca w" and "pc w = Pedindo \<or> pc w = Livre_visto" and "passo w w'"
    and "\<not> tsch_in_slot_operation (lk w)"
  shows "\<not> tsch_in_slot_operation (lk w')"
  using assms(3) lock_inv_alcanca [OF assms(1)] assms(2,4)
  by (induction rule: passo.induct) (auto simp: lock_inv_def)

text \<open>
  The wait for the lock is bounded in every interleaving. Only a turn of the busy wait leaves the state
  as it is; every other step made while the lock is requested brings the main program nearer to it: the
  running slot operation ends, it is seen to have ended, the lock is taken.
\<close>

definition falta :: "mundo \<Rightarrow> nat" where
  "falta w = (if pc w = Pedindo then (if tsch_in_slot_operation (lk w) then 3 else 2)
     else if pc w = Livre_visto then 1 else 0)"

definition avanca :: "mundo \<Rightarrow> mundo \<Rightarrow> bool" where
  "avanca w w' \<longleftrightarrow> passo w w' \<and> w' \<noteq> w \<and> pc w \<noteq> Com_lock"

lemma avanca_falta:
  assumes "avanca w w'" and "lock_inv w" and "pc w \<noteq> Fora"
  shows "falta w = Suc (falta w') \<and> lock_inv w' \<and> pc w' \<noteq> Fora"
proof -
  have p: "passo w w'" "w' \<noteq> w" "pc w \<noteq> Com_lock" using assms(1) by (simp_all add: avanca_def)
  show ?thesis
    using p assms(2,3) lock_inv_passo [OF p(1) assms(2)]
    by (cases rule: passo.cases) (cases "pc w"; auto simp: falta_def lock_inv_def)+
qed

lemma avanca_pode:
  assumes "lock_inv w" and "pc w \<noteq> Fora" and "pc w \<noteq> Com_lock"
  shows "\<exists>w'. avanca w w'"
proof (cases "tsch_in_slot_operation (lk w)")
  case True
  then have "avanca w (w\<lparr>lk := (lk w)\<lparr>tsch_in_slot_operation := False\<rparr>\<rparr>)"
    using assms(3) passo.slot_termina [OF True] by (cases w; cases "lk w") (auto simp: avanca_def)
  then show ?thesis by blast
next
  case False
  have "\<not> tsch_locked (lk w)" using assms(1,3) by (simp add: lock_inv_def)
  then show ?thesis
    using assms(2,3) passo.ve_livre [OF _ False] passo.toma by (cases w; cases "pc w") (fastforce simp: avanca_def)+
qed

lemma avanca_n:
  assumes "(avanca ^^ n) w w'" and "lock_inv w" and "pc w \<noteq> Fora"
  shows "falta w = n + falta w' \<and> lock_inv w' \<and> pc w' \<noteq> Fora"
  using assms
proof (induction n arbitrary: w')
  case (Suc n)
  then obtain u where u: "(avanca ^^ n) w u" "avanca u w'" by auto
  show ?case using Suc.IH [OF u(1) Suc.prems(2,3)] avanca_falta [OF u(2)] by simp
qed simp

lemma pedido_atendido:
  assumes "alcanca w" and "pc w = Pedindo" and "(avanca ^^ n) w w'"
  shows "n + falta w' = (if tsch_in_slot_operation (lk w) then 3 else 2) \<and> (falta w' = 0 \<longleftrightarrow> pc w' = Com_lock) \<and>
    (pc w' \<noteq> Com_lock \<longrightarrow> (\<exists>w''. avanca w' w''))"
proof -
  have i: "lock_inv w'" "pc w' \<noteq> Fora" "falta w = n + falta w'"
    using avanca_n [OF assms(3) lock_inv_alcanca [OF assms(1)]] assms(2) by simp_all
  then show ?thesis using avanca_pode [OF i(1,2)] assms(2) by (cases "pc w'") (auto simp: falta_def)
qed

text \<open>
  Holding the lock does not keep the interrupt out: a slot operation may start while the main
  program is in its critical section, because the handler tests only tsch_lock_requested.
\<close>

lemma slot_com_lock: "\<exists>w. alcanca w \<and> pc w = Com_lock \<and> tsch_in_slot_operation (lk w)"
proof -
  let ?l = "\<lambda>a b c. \<lparr>tsch_locked = a, tsch_lock_requested = b, tsch_in_slot_operation = c\<rparr>"
  have "passo inicio \<lparr>lk = ?l False True False, pc = Pedindo\<rparr>"
    using pede [of inicio] by (simp add: inicio_def)
  moreover have "passo \<lparr>lk = ?l False True False, pc = Pedindo\<rparr> \<lparr>lk = ?l False True False, pc = Livre_visto\<rparr>"
    using ve_livre [of "\<lparr>lk = ?l False True False, pc = Pedindo\<rparr>"] by simp
  moreover have "passo \<lparr>lk = ?l False True False, pc = Livre_visto\<rparr> \<lparr>lk = ?l True False False, pc = Com_lock\<rparr>"
    using toma [of "\<lparr>lk = ?l False True False, pc = Livre_visto\<rparr>"] by simp
  moreover have "passo \<lparr>lk = ?l True False False, pc = Com_lock\<rparr> \<lparr>lk = ?l True False True, pc = Com_lock\<rparr>"
    using slot_inicia [of "\<lparr>lk = ?l True False False, pc = Com_lock\<rparr>"] by simp
  ultimately have "alcanca \<lparr>lk = ?l True False True, pc = Com_lock\<rparr>"
    unfolding alcanca_def by (meson converse_rtranclp_into_rtranclp rtranclp.rtrancl_refl)
  then show ?thesis by (intro exI [of _  "\<lparr>lk = ?l True False True, pc = Com_lock\<rparr>"]) simp
qed

text \<open>
  The exclusion is one-sided: a slot operation can start while the main program holds the lock,
  because the request flag is cleared when the lock is taken.
\<close>

lemma slot_starts_while_locked:
  "\<exists>w. alcanca w \<and> pc w = Com_lock \<and> tsch_locked (lk w) \<and> tsch_in_slot_operation (lk w)"
  using slot_com_lock lock_inv_alcanca by (fastforce simp: lock_inv_def)

end
