(* ===== verification/Tsch_Queue.thy ===== *)
theory Tsch_Queue
  imports Nbr_Table Ringbufindex Tsch_Lock
begin

text \<open>
  os/net/mac/tsch/tsch-queue.c: one queue of outgoing packets per neighbor, with its CSMA backoff.
  A neighbor is an index into the table tsch_neighbors (its items are tq_nbrs), a packet an index
  into the pool packet_memb; None is NULL. What the module asks of the rest of the system (the
  sent callbacks, freeing queue buffers, keep-alive timer, statistics) is an event of tq_log.

  Parameters: vic is the answer of the neighbor policy (Nbr_Table), qb the queue buffer that
  queuebuf_new_from_packetbuf returns, rnd the value of random_rand. The build without the
  Orchestra scheduler is modelled (TSCH_WITH_LINK_SELECTOR 0, no callbacks), with the default
  sizes (8 packets per neighbor) and backoff exponents (1 to 5).
\<close>

section \<open>State\<close>

definition LINK_OPTION_TX :: u8 where "LINK_OPTION_TX = 1"
definition LINK_OPTION_RX :: u8 where "LINK_OPTION_RX = 2"
definition LINK_OPTION_SHARED :: u8 where "LINK_OPTION_SHARED = 4"
definition LINK_OPTION_TIME_KEEPING :: u8 where "LINK_OPTION_TIME_KEEPING = 8"

definition TSCH_QUEUE_NUM_PER_NEIGHBOR :: u8 where "TSCH_QUEUE_NUM_PER_NEIGHBOR = 64"
definition TSCH_MAC_MIN_BE :: u8 where "TSCH_MAC_MIN_BE = 1"
definition TSCH_MAC_MAX_BE :: u8 where "TSCH_MAC_MAX_BE = 5"
definition TSCH_KEEPALIVE_TIMEOUT :: nat where "TSCH_KEEPALIVE_TIMEOUT = 1 * 1000"

datatype mac_status = MAC_TX_OK | MAC_TX_COLLISION | MAC_TX_NOACK | MAC_TX_DEFERRED | MAC_TX_ERR | MAC_TX_ERR_FATAL

definition tsch_broadcast_address :: linkaddr where "tsch_broadcast_address = replicate 8 0xff"
definition tsch_eb_address :: linkaddr where "tsch_eb_address = replicate 8 0"

record tsch_packet =
  pk_qb :: "nat option"
  pk_sent :: nat
  pk_ptr :: nat
  pk_transmissions :: u8
  pk_max :: u8
  pk_ret :: mac_status
  pk_header_len :: u8
  pk_sync_offset :: u8

record tsch_neighbor =
  is_broadcast :: bool
  is_time_source :: bool
  backoff_exponent :: u8
  backoff_window :: u8
  last_backoff_window :: u8
  tx_links_count :: u8
  dedicated_tx_links_count :: u8
  tx_array :: "nat option list"
  tx_ringbuf :: ringbufindex

datatype tq_event =
    Sent_callback nat nat mac_status u8
  | Queuebuf_free "nat option"
  | Ka_timeout nat
  | Stats_reset

record tq =
  tq_lk :: tsch_lk
  tq_nt :: nbr_state
  tq_nbrs :: "tsch_neighbor list"
  tq_pks :: "tsch_packet memb"
  n_broadcast :: "nat option"
  n_eb :: "nat option"
  tq_log :: "tq_event list"

text \<open>The table tsch_neighbors, by the number Nbr_Table knows it by.\<close>

definition tsch_neighbors :: nat where "tsch_neighbors = 0"

abbreviation nbr_at :: "tq \<Rightarrow> nat \<Rightarrow> tsch_neighbor" where
  "nbr_at s k \<equiv> tq_nbrs s ! k"

definition upd_nbr :: "nat \<Rightarrow> (tsch_neighbor \<Rightarrow> tsch_neighbor) \<Rightarrow> tq \<Rightarrow> tq" where
  "upd_nbr k f s = s\<lparr>tq_nbrs := (tq_nbrs s)[k := f (nbr_at s k)]\<rparr>"

definition tq_event :: "tq_event \<Rightarrow> tq \<Rightarrow> tq" where
  "tq_event e s = s\<lparr>tq_log := tq_log s @ [e]\<rparr>"

text \<open>memset(n, 0, sizeof(struct tsch_neighbor)).\<close>

definition nbr_zero :: tsch_neighbor where
  "nbr_zero = \<lparr>is_broadcast = False, is_time_source = False, backoff_exponent = 0, backoff_window = 0,
     last_backoff_window = 0, tx_links_count = 0, dedicated_tx_links_count = 0,
     tx_array = replicate (unat TSCH_QUEUE_NUM_PER_NEIGHBOR) None,
     tx_ringbuf = \<lparr>rb_mask = 0, put_ptr = 0, get_ptr = 0\<rparr>\<rparr>"

section \<open>Backoff\<close>

definition tsch_queue_backoff_expired :: "tsch_neighbor \<Rightarrow> bool" where
  "tsch_queue_backoff_expired n \<longleftrightarrow> backoff_window n = 0"

definition tsch_queue_backoff_reset :: "tsch_neighbor \<Rightarrow> tsch_neighbor" where
  "tsch_queue_backoff_reset n = n\<lparr>backoff_window := 0, backoff_exponent := TSCH_MAC_MIN_BE\<rparr>"

text \<open>MIN compares ints, and the window is computed at the width of an int before it is stored.\<close>

definition tsch_queue_backoff_inc :: "u16 \<Rightarrow> tsch_neighbor \<Rightarrow> tsch_neighbor" where
  "tsch_queue_backoff_inc rnd n =
     (let be = min (unat (backoff_exponent n) + 1) (unat TSCH_MAC_MAX_BE);
          w = (unat rnd div 2 ^ 6) mod (2 ^ be)
      in n\<lparr>backoff_exponent := of_nat be, backoff_window := of_nat w + 1\<rparr>)"

section \<open>Neighbors\<close>

definition tsch_queue_get_nbr :: "linkaddr \<Rightarrow> tq \<Rightarrow> nat option" where
  "tsch_queue_get_nbr addr s =
     (if \<not> tsch_is_locked (tq_lk s) then nbr_table_get_from_lladdr (tq_nt s) tsch_neighbors (Some addr) else None)"

definition tsch_queue_add_nbr :: "linkaddr option \<Rightarrow> linkaddr \<Rightarrow> tq \<Rightarrow> (nat option \<times> tq) option" where
  "tsch_queue_add_nbr vic addr s = (case tsch_queue_get_nbr addr s of
     Some n \<Rightarrow> Some (Some n, s)
   | None \<Rightarrow> do {
       (got, l) \<leftarrow> tsch_get_lock (tq_lk s);
       let s = s\<lparr>tq_lk := l\<rparr>;
       if got \<noteq> 0 then
         (let (n, t) = nbr_table_add_lladdr vic (Some tsch_neighbors) (Some addr) (tq_nt s);
              s = s\<lparr>tq_nt := t\<rparr>;
              s = (case n of None \<Rightarrow> s
                   | Some k \<Rightarrow> upd_nbr k (\<lambda>_. tsch_queue_backoff_reset (nbr_zero\<lparr>
                         tx_ringbuf := ringbufindex_init TSCH_QUEUE_NUM_PER_NEIGHBOR,
                         is_broadcast := linkaddr_cmp addr tsch_eb_address \<or> linkaddr_cmp addr tsch_broadcast_address\<rparr>))
                       (s\<lparr>tq_nt := snd (nbr_table_lock tsch_neighbors (Some k) (tq_nt s))\<rparr>))
          in Some (n, s\<lparr>tq_lk := tsch_release_lock (tq_lk s)\<rparr>))
       else Some (None, s) })"

definition tq_itens :: "tq \<Rightarrow> nat list" where
  "tq_itens s = nbr_itens (tq_nt s) tsch_neighbors"

definition tsch_queue_get_time_source :: "tq \<Rightarrow> nat option" where
  "tsch_queue_get_time_source s =
     (if \<not> tsch_is_locked (tq_lk s) then List.find (\<lambda>k. is_time_source (nbr_at s k)) (tq_itens s) else None)"

definition tsch_queue_get_nbr_address :: "nat option \<Rightarrow> tq \<Rightarrow> linkaddr option" where
  "tsch_queue_get_nbr_address n s = nbr_table_get_lladdr (tq_nt s) n"

text \<open>coordinator is the flag tsch_is_coordinator.\<close>

definition tsch_queue_update_time_source ::
  "bool \<Rightarrow> linkaddr option \<Rightarrow> linkaddr option \<Rightarrow> tq \<Rightarrow> (int \<times> tq) option" where
  "tsch_queue_update_time_source coordinator vic new_addr s =
     (if \<not> tsch_is_locked (tq_lk s) \<and> \<not> coordinator then do {
        let old = tsch_queue_get_time_source s;
        (new, s) \<leftarrow> (case new_addr of None \<Rightarrow> Some (None, s) | Some a \<Rightarrow> tsch_queue_add_nbr vic a s);
        if new_addr \<noteq> None \<and> new = None then Some (0, s)
        else if new \<noteq> old then
          (let s = (case new of
                 Some k \<Rightarrow> tq_event (Ka_timeout TSCH_KEEPALIVE_TIMEOUT) (upd_nbr k (is_time_source_update (\<lambda>_. True)) s)
               | None \<Rightarrow> tq_event (Ka_timeout 0) s);
               s = (case old of Some k \<Rightarrow> upd_nbr k (is_time_source_update (\<lambda>_. False)) s | None \<Rightarrow> s)
           in Some (1, tq_event Stats_reset s))
        else Some (1, s) }
      else Some (0, s))"

section \<open>Packets\<close>

definition tsch_queue_is_empty :: "nat option \<Rightarrow> tq \<Rightarrow> bool" where
  "tsch_queue_is_empty n s \<longleftrightarrow> \<not> tsch_is_locked (tq_lk s) \<and>
     (case n of None \<Rightarrow> False | Some k \<Rightarrow> ringbufindex_empty (tx_ringbuf (nbr_at s k)))"

definition tsch_queue_nbr_packet_count :: "nat option \<Rightarrow> tq \<Rightarrow> int" where
  "tsch_queue_nbr_packet_count n s =
     (case n of None \<Rightarrow> -1 | Some k \<Rightarrow> ringbufindex_elements (tx_ringbuf (nbr_at s k)))"

definition tsch_queue_global_packet_count :: "tq \<Rightarrow> int" where
  "tsch_queue_global_packet_count s = int (length (used (tq_pks s))) - int (memb_numfree (tq_pks s))"

definition tsch_queue_remove_packet_from_queue :: "nat option \<Rightarrow> tq \<Rightarrow> (nat option \<times> tq) option" where
  "tsch_queue_remove_packet_from_queue n s =
     (if \<not> tsch_is_locked (tq_lk s) then
        (case n of None \<Rightarrow> Some (None, s)
         | Some k \<Rightarrow>
            (let (get_index, r) = ringbufindex_get (tx_ringbuf (nbr_at s k));
                 s = upd_nbr k (tx_ringbuf_update (\<lambda>_. r)) s
             in if get_index \<noteq> -1 then do {
                  p \<leftarrow> rdi (tx_array (nbr_at s k)) get_index;
                  Some (p, s) }
                else Some (None, s)))
      else Some (None, s))"

definition tsch_queue_free_packet :: "nat option \<Rightarrow> tq \<Rightarrow> tq" where
  "tsch_queue_free_packet p s = (case p of None \<Rightarrow> s
     | Some i \<Rightarrow> (tq_event (Queuebuf_free (pk_qb (mem (tq_pks s) ! i))) s)
                     \<lparr>tq_pks := snd (memb_free p (tq_pks s))\<rparr>)"

partial_function (option) tsch_queue_flush_nbr_queue :: "nat option \<Rightarrow> tq \<Rightarrow> tq option" where
  "tsch_queue_flush_nbr_queue n s =
     (if \<not> tsch_queue_is_empty n s then do {
        (p, s) \<leftarrow> tsch_queue_remove_packet_from_queue n s;
        (case p of
           None \<Rightarrow> tsch_queue_flush_nbr_queue n s
         | Some i \<Rightarrow>
            (let pk = (mem (tq_pks s) ! i)\<lparr>pk_ret := MAC_TX_ERR\<rparr>;
                 s = s\<lparr>tq_pks := (tq_pks s)\<lparr>mem := (mem (tq_pks s))[i := pk]\<rparr>\<rparr>;
                 s = tq_event (Sent_callback (pk_sent pk) (pk_ptr pk) (pk_ret pk) (pk_transmissions pk)) s
             in tsch_queue_flush_nbr_queue n (tsch_queue_free_packet p s))) }
      else Some s)"

declare tsch_queue_flush_nbr_queue.simps [code]

definition tsch_queue_remove_nbr :: "nat option \<Rightarrow> tq \<Rightarrow> tq option" where
  "tsch_queue_remove_nbr n s = (case n of None \<Rightarrow> Some s
     | Some k \<Rightarrow> do {
         (got, l) \<leftarrow> tsch_get_lock (tq_lk s);
         if got \<noteq> 0 then do {
           let s = s\<lparr>tq_lk := tsch_release_lock l\<rparr>;
           s \<leftarrow> tsch_queue_flush_nbr_queue n s;
           Some (s\<lparr>tq_nt := snd (nbr_table_remove tsch_neighbors n (tq_nt s))\<rparr>) }
         else Some (s\<lparr>tq_lk := l\<rparr>) })"

text \<open>qb is what queuebuf_new_from_packetbuf returns.\<close>

definition tsch_queue_add_packet ::
  "linkaddr option \<Rightarrow> nat option \<Rightarrow> linkaddr \<Rightarrow> u8 \<Rightarrow> nat \<Rightarrow> nat \<Rightarrow> tq \<Rightarrow> (nat option \<times> tq) option" where
  "tsch_queue_add_packet vic qb addr max_transmissions sent pt s =
     (if \<not> tsch_is_locked (tq_lk s) then do {
        (n, s) \<leftarrow> tsch_queue_add_nbr vic addr s;
        (case n of None \<Rightarrow> Some (None, s)
         | Some k \<Rightarrow>
            (let put_index = ringbufindex_peek_put (tx_ringbuf (nbr_at s k)) in
             if put_index \<noteq> -1 then
               (case memb_alloc (tq_pks s) of
                  (None, m) \<Rightarrow> Some (None, s)
                | (Some p, m) \<Rightarrow>
                   (let m = m\<lparr>mem := (mem m)[p := (mem m ! p)\<lparr>pk_qb := qb\<rparr>]\<rparr> in
                    if qb \<noteq> None then do {
                      let m = m\<lparr>mem := (mem m)[p := (mem m ! p)\<lparr>pk_sent := sent, pk_ptr := pt,
                          pk_ret := MAC_TX_DEFERRED, pk_transmissions := 0, pk_max := max_transmissions\<rparr>]\<rparr>;
                      a \<leftarrow> wri (tx_array (nbr_at s k)) put_index (Some p);
                      Some (Some p, upd_nbr k (\<lambda>n. n\<lparr>tx_array := a,
                              tx_ringbuf := snd (ringbufindex_put (tx_ringbuf n))\<rparr>) (s\<lparr>tq_pks := m\<rparr>)) }
                    else Some (None, s\<lparr>tq_pks := snd (memb_free (Some p) m)\<rparr>)))
             else Some (None, s))) }
      else Some (None, s))"

text \<open>link is the option byte of a link, None for a NULL link.\<close>

definition tsch_queue_get_packet_for_nbr :: "nat option \<Rightarrow> u8 option \<Rightarrow> tq \<Rightarrow> nat option option" where
  "tsch_queue_get_packet_for_nbr n link s =
     (if \<not> tsch_is_locked (tq_lk s) then
        (let is_shared_link = (case link of None \<Rightarrow> False | Some opt \<Rightarrow> opt AND LINK_OPTION_SHARED \<noteq> 0) in
         case n of None \<Rightarrow> Some None
         | Some k \<Rightarrow>
            (let get_index = ringbufindex_peek_get (tx_ringbuf (nbr_at s k)) in
             if get_index \<noteq> -1 \<and> \<not> (is_shared_link \<and> \<not> tsch_queue_backoff_expired (nbr_at s k))
             then rdi (tx_array (nbr_at s k)) get_index
             else Some None))
      else Some None)"

definition tsch_queue_get_packet_for_dest_addr :: "linkaddr \<Rightarrow> u8 option \<Rightarrow> tq \<Rightarrow> nat option option" where
  "tsch_queue_get_packet_for_dest_addr addr link s =
     (if \<not> tsch_is_locked (tq_lk s) then tsch_queue_get_packet_for_nbr (tsch_queue_get_nbr addr s) link s
      else Some None)"

fun any_loop :: "u8 option \<Rightarrow> tq \<Rightarrow> nat list \<Rightarrow> (nat \<times> nat) option option" where
  "any_loop link s [] = Some None"
| "any_loop link s (k # ks) =
     (if \<not> is_broadcast (nbr_at s k) \<and> tx_links_count (nbr_at s k) = 0 then do {
        p \<leftarrow> tsch_queue_get_packet_for_nbr (Some k) link s;
        (case p of Some i \<Rightarrow> Some (Some (i, k)) | None \<Rightarrow> any_loop link s ks) }
      else any_loop link s ks)"

text \<open>The packet and the neighbor written to *n.\<close>

definition tsch_queue_get_unicast_packet_for_any :: "u8 option \<Rightarrow> tq \<Rightarrow> (nat \<times> nat) option option" where
  "tsch_queue_get_unicast_packet_for_any link s =
     (if \<not> tsch_is_locked (tq_lk s) then any_loop link s (tq_itens s) else Some None)"

text \<open>rnd is used when a backoff window is drawn.\<close>

definition tsch_queue_packet_sent ::
  "u16 \<Rightarrow> nat \<Rightarrow> nat \<Rightarrow> u8 \<Rightarrow> mac_status \<Rightarrow> tq \<Rightarrow> (int \<times> tq) option" where
  "tsch_queue_packet_sent rnd n p link mac_tx_status s =
     (let is_shared_link = (link AND LINK_OPTION_SHARED \<noteq> 0);
          is_unicast = (\<not> is_broadcast (nbr_at s n)) in
      if mac_tx_status = MAC_TX_OK then do {
        (_, s) \<leftarrow> tsch_queue_remove_packet_from_queue (Some n) s;
        Some (0, if is_unicast \<and> (is_shared_link \<or> tsch_queue_is_empty (Some n) s)
                 then upd_nbr n tsch_queue_backoff_reset s else s) }
      else do {
        (in_queue, s) \<leftarrow>
          (if pk_transmissions (mem (tq_pks s) ! p) \<ge> pk_max (mem (tq_pks s) ! p) then do {
             (_, s) \<leftarrow> tsch_queue_remove_packet_from_queue (Some n) s;
             Some (0, s) }
           else Some (1, s));
        Some (in_queue, if is_unicast \<and> is_shared_link then upd_nbr n (tsch_queue_backoff_inc rnd) s else s) })"

section \<open>All neighbors\<close>

definition tsch_queue_reset :: "tq \<Rightarrow> tq option" where
  "tsch_queue_reset s =
     (if \<not> tsch_is_locked (tq_lk s) then
        loopM (\<lambda>n s. do { s \<leftarrow> tsch_queue_flush_nbr_queue (Some n) s;
                             Some (upd_nbr n tsch_queue_backoff_reset s) }) (tq_itens s) s
      else Some s)"

definition tsch_queue_free_unused_neighbors :: "tq \<Rightarrow> tq option" where
  "tsch_queue_free_unused_neighbors s =
     (if \<not> tsch_is_locked (tq_lk s) then
        loopM (\<lambda>n s. if \<not> is_broadcast (nbr_at s n) \<and> \<not> is_time_source (nbr_at s n) \<and>
                           tx_links_count (nbr_at s n) = 0 \<and> tsch_queue_is_empty (Some n) s
                        then tsch_queue_remove_nbr (Some n) s else Some s) (tq_itens s) s
      else Some s)"

definition tsch_queue_update_all_backoff_windows :: "linkaddr \<Rightarrow> tq \<Rightarrow> tq" where
  "tsch_queue_update_all_backoff_windows dest_addr s =
     (if \<not> tsch_is_locked (tq_lk s) then
        fold (\<lambda>n s. if backoff_window (nbr_at s n) \<noteq> 0 \<and>
                 (tx_links_count (nbr_at s n) = 0 \<and> linkaddr_cmp dest_addr tsch_broadcast_address \<or>
                  tx_links_count (nbr_at s n) > 0 \<and>
                    tsch_queue_get_nbr_address (Some n) s = Some dest_addr)
               then upd_nbr n (backoff_window_update (\<lambda>w. w - 1)) s else s) (tq_itens s) s
      else s)"

definition tsch_queue_init :: "linkaddr option \<Rightarrow> tsch_packet \<Rightarrow> tq \<Rightarrow> tq option" where
  "tsch_queue_init vic zero s = do {
     let s = s\<lparr>tq_nt := snd (nbr_table_register tsch_neighbors False (tq_nt s)),
               tq_pks := memb_init zero (tq_pks s)\<rparr>;
     (eb, s) \<leftarrow> tsch_queue_add_nbr vic tsch_eb_address s;
     let s = s\<lparr>n_eb := eb\<rparr>;
     (bc, s) \<leftarrow> tsch_queue_add_nbr vic tsch_broadcast_address s;
     Some (s\<lparr>n_broadcast := bc\<rparr>) }"

section \<open>Invariant\<close>

text \<open>The packets queued for a neighbor, oldest first.\<close>

definition fila_nbr :: "tsch_neighbor \<Rightarrow> nat option list" where
  "fila_nbr n = rbi.conteudo (tx_array n) (tx_ringbuf n)"

definition nbr_ok :: "tsch_neighbor \<Rightarrow> bool" where
  "nbr_ok n \<longleftrightarrow> rb_ok (tx_ringbuf n) \<and> rb_sz (tx_ringbuf n) = 64 \<and> length (tx_array n) = 64 \<and>
     backoff_window n \<le> 32 \<and> 1 \<le> backoff_exponent n \<and> backoff_exponent n \<le> 5"

abbreviation tq_em :: "tq \<Rightarrow> nat list" where
  "tq_em s \<equiv> em (tq_nt s) tsch_neighbors"

definition todos :: "tq \<Rightarrow> nat option list" where
  "todos s = concat (map (\<lambda>k. fila_nbr (nbr_at s k)) (tq_em s))"

definition tq_inv :: "tq \<Rightarrow> bool" where
  "tq_inv s \<longleftrightarrow> nt_inv (tq_nt s) \<and> length (tq_nbrs s) = length (used (nt_mem (tq_nt s))) \<and>
     length (mem (tq_pks s)) = length (used (tq_pks s)) \<and>
     (\<forall>k \<in> set (tq_em s). nbr_ok (nbr_at s k)) \<and>
     distinct (todos s) \<and> set (todos s) \<subseteq> Some ` vivos (tq_pks s)"

lemma tq_invD:
  assumes "tq_inv s"
  shows "nt_inv (tq_nt s)" "k \<in> set (tq_em s) \<Longrightarrow> nbr_ok (nbr_at s k)"
    "k \<in> set (tq_em s) \<Longrightarrow> k < length (tq_nbrs s)" "distinct (tq_em s)"
    "distinct (todos s)" "set (todos s) \<subseteq> Some ` vivos (tq_pks s)"
  using assms nt_invD(1,8) [of "tq_nt s"] by (auto simp: tq_inv_def em_def)

lemma tq_itens_em: "tq_inv s \<Longrightarrow> tq_itens s = tq_em s"
  by (simp add: tq_itens_def nbr_itens_em tq_invD(1))

lemma nbr_at_upd [simp]:
  "k < length (tq_nbrs s) \<Longrightarrow> nbr_at (upd_nbr k f s) j = (if j = k then f (nbr_at s k) else nbr_at s j)"
  by (simp add: upd_nbr_def)

lemma upd_nbr_simps [simp]:
  "tq_lk (upd_nbr k f s) = tq_lk s" "tq_nt (upd_nbr k f s) = tq_nt s" "tq_pks (upd_nbr k f s) = tq_pks s"
  "tq_log (upd_nbr k f s) = tq_log s" "length (tq_nbrs (upd_nbr k f s)) = length (tq_nbrs s)"
  "n_eb (upd_nbr k f s) = n_eb s" "n_broadcast (upd_nbr k f s) = n_broadcast s"
  by (simp_all add: upd_nbr_def)

lemma tq_event_simps [simp]:
  "tq_lk (tq_event e s) = tq_lk s" "tq_nt (tq_event e s) = tq_nt s" "tq_pks (tq_event e s) = tq_pks s"
  "tq_nbrs (tq_event e s) = tq_nbrs s" "tq_log (tq_event e s) = tq_log s @ [e]"
  by (simp_all add: tq_event_def)

text \<open>The queue of one neighbor, and what is left when it changes.\<close>

lemma todos_split:
  assumes "tq_inv s" and "k \<in> set (tq_em s)"
  obtains pre post where "tq_em s = pre @ k # post" "k \<notin> set pre" "k \<notin> set post"
    "todos s = concat (map (\<lambda>k. fila_nbr (nbr_at s k)) pre) @ fila_nbr (nbr_at s k)
               @ concat (map (\<lambda>k. fila_nbr (nbr_at s k)) post)"
proof -
  obtain pre post where e: "tq_em s = pre @ k # post" using assms(2) by (meson split_list)
  moreover have "k \<notin> set pre" "k \<notin> set post" using tq_invD(4) [OF assms(1)] e by auto
  ultimately show ?thesis using that by (simp add: todos_def)
qed

lemma todos_upd:
  assumes inv: "tq_inv s" and k: "k \<in> set (tq_em s)"
    and sub: "set (fila_nbr (f (nbr_at s k))) \<subseteq> set (fila_nbr (nbr_at s k))" "distinct (fila_nbr (f (nbr_at s k)))"
    and ok: "nbr_ok (f (nbr_at s k))"
  shows "tq_inv (upd_nbr k f s)"
proof -
  obtain pre post where e: "tq_em s = pre @ k # post" "k \<notin> set pre" "k \<notin> set post"
    and t: "todos s = concat (map (\<lambda>k. fila_nbr (nbr_at s k)) pre) @ fila_nbr (nbr_at s k)
               @ concat (map (\<lambda>k. fila_nbr (nbr_at s k)) post)"
    using todos_split [OF inv k] by blast
  have kl: "k < length (tq_nbrs s)" using tq_invD(3) [OF inv k] .
  have m: "map (\<lambda>j. fila_nbr (nbr_at (upd_nbr k f s) j)) xs = map (\<lambda>j. fila_nbr (nbr_at s j)) xs" if "k \<notin> set xs" for xs
    using that kl by (intro map_cong) auto
  have t': "todos (upd_nbr k f s) = concat (map (\<lambda>k. fila_nbr (nbr_at s k)) pre) @ fila_nbr (f (nbr_at s k))
               @ concat (map (\<lambda>k. fila_nbr (nbr_at s k)) post)"
    unfolding todos_def upd_nbr_simps(2) e(1) map_append list.map concat_append concat.simps m [OF e(2)] m [OF e(3)]
    using kl by simp
  have "distinct (todos (upd_nbr k f s))"
    using tq_invD(5) [OF inv] sub unfolding t t' by auto
  moreover have "set (todos (upd_nbr k f s)) \<subseteq> set (todos s)" using sub(1) unfolding t t' by auto
  ultimately show ?thesis
    using inv ok kl e unfolding tq_inv_def by auto
qed

lemma tq_inv_lk [simp]: "tq_inv (s\<lparr>tq_lk := l\<rparr>) = tq_inv s"
  by (simp add: tq_inv_def todos_def)

lemma tq_inv_event [simp]: "tq_inv (tq_event e s) = tq_inv s"
  by (simp add: tq_inv_def todos_def)

lemma fila_in_todos: "k \<in> set (tq_em s) \<Longrightarrow> set (fila_nbr (nbr_at s k)) \<subseteq> set (todos s)"
  by (auto simp: todos_def)

lemma fila_Some:
  assumes "tq_inv s" and "k \<in> set (tq_em s)" and "x \<in> set (fila_nbr (nbr_at s k))"
  obtains i where "x = Some i" "i \<in> vivos (tq_pks s)"
  using fila_in_todos [OF assms(2)] tq_invD(6) [OF assms(1)] assms(3) by auto

section \<open>Taking packets out\<close>

lemma length_fila: "length (fila_nbr n) = length (rb_els (tx_ringbuf n))"
  by (simp add: fila_nbr_def rbi.conteudo_def)

lemma is_empty_fila: "\<not> tsch_is_locked (tq_lk s) \<Longrightarrow> tsch_queue_is_empty (Some k) s \<longleftrightarrow> fila_nbr (nbr_at s k) = []"
  by (simp add: tsch_queue_is_empty_def ringbufindex_empty_els fila_nbr_def rbi.conteudo_def)

text \<open>The first slot of the queue of a neighbor.\<close>

lemma peek_fila:
  assumes ok: "nbr_ok n"
  shows "fila_nbr n = [] \<Longrightarrow> ringbufindex_peek_get (tx_ringbuf n) = -1 \<and> ringbufindex_get (tx_ringbuf n) = (-1, tx_ringbuf n)"
    and "fila_nbr n = p # ps \<Longrightarrow> ringbufindex_peek_get (tx_ringbuf n) \<noteq> -1 \<and>
      fst (ringbufindex_get (tx_ringbuf n)) = ringbufindex_peek_get (tx_ringbuf n) \<and>
      rdi (tx_array n) (ringbufindex_peek_get (tx_ringbuf n)) = Some p \<and>
      fila_nbr (n\<lparr>tx_ringbuf := snd (ringbufindex_get (tx_ringbuf n))\<rparr>) = ps \<and>
      nbr_ok (n\<lparr>tx_ringbuf := snd (ringbufindex_get (tx_ringbuf n))\<rparr>)"
proof -
  have r: "rb_ok (tx_ringbuf n)" "rb_sz (tx_ringbuf n) = 64" "length (tx_array n) = 64"
    using ok by (auto simp: nbr_ok_def)
  show "fila_nbr n = [] \<Longrightarrow> ringbufindex_peek_get (tx_ringbuf n) = -1 \<and> ringbufindex_get (tx_ringbuf n) = (-1, tx_ringbuf n)"
    using rbi.empty [OF r(1)] by (simp add: fila_nbr_def rbi.conteudo_def)
  assume f: "fila_nbr n = p # ps"
  then obtain i "is" where e: "rb_els (tx_ringbuf n) = i # is"
    by (cases "rb_els (tx_ringbuf n)") (auto simp: fila_nbr_def rbi.conteudo_def)
  note fr = rbi.front [OF r(1) e]
  have i: "i < 64" using rbi.els_ok [OF r(1)] e r(2) by simp
  have "tx_array n ! i = p" using f e by (simp add: fila_nbr_def rbi.conteudo_def)
  then have "rdi (tx_array n) (int i) = Some p" using i r(3) by simp
  moreover have "fila_nbr (n\<lparr>tx_ringbuf := snd (ringbufindex_get (tx_ringbuf n))\<rparr>) = ps"
    using fr f e by (simp add: fila_nbr_def rbi.conteudo_def)
  ultimately show "ringbufindex_peek_get (tx_ringbuf n) \<noteq> -1 \<and>
      fst (ringbufindex_get (tx_ringbuf n)) = ringbufindex_peek_get (tx_ringbuf n) \<and>
      rdi (tx_array n) (ringbufindex_peek_get (tx_ringbuf n)) = Some p \<and>
      fila_nbr (n\<lparr>tx_ringbuf := snd (ringbufindex_get (tx_ringbuf n))\<rparr>) = ps \<and>
      nbr_ok (n\<lparr>tx_ringbuf := snd (ringbufindex_get (tx_ringbuf n))\<rparr>)"
    using fr ok by (simp add: nbr_ok_def)
qed

text \<open>The state after the oldest packet of neighbor k left its queue.\<close>

definition desenfileira :: "nat \<Rightarrow> tq \<Rightarrow> tq" where
  "desenfileira k s = upd_nbr k (\<lambda>n. n\<lparr>tx_ringbuf := snd (ringbufindex_get (tx_ringbuf n))\<rparr>) s"

lemma desenfileira_simps [simp]:
  "tq_lk (desenfileira k s) = tq_lk s" "tq_nt (desenfileira k s) = tq_nt s"
  "tq_pks (desenfileira k s) = tq_pks s" "tq_log (desenfileira k s) = tq_log s"
  "length (tq_nbrs (desenfileira k s)) = length (tq_nbrs s)"
  by (simp_all add: desenfileira_def)

lemma desenfileira_other: "j \<noteq> k \<Longrightarrow> nbr_at (desenfileira k s) j = nbr_at s j"
  by (simp add: desenfileira_def upd_nbr_def)

lemma remove_packet_run:
  assumes inv: "tq_inv s" and k: "k \<in> set (tq_em s)" and un: "\<not> tsch_is_locked (tq_lk s)"
  shows "fila_nbr (nbr_at s k) = [] \<Longrightarrow> tsch_queue_remove_packet_from_queue (Some k) s = Some (None, s)"
    and "fila_nbr (nbr_at s k) = p # ps \<Longrightarrow>
      tsch_queue_remove_packet_from_queue (Some k) s = Some (p, desenfileira k s) \<and>
      tq_inv (desenfileira k s) \<and> fila_nbr (nbr_at (desenfileira k s) k) = ps \<and>
      p \<notin> set (todos (desenfileira k s))"
proof -
  have ok: "nbr_ok (nbr_at s k)" and kl: "k < length (tq_nbrs s)" using tq_invD [OF inv] k by auto
  have same: "upd_nbr k (tx_ringbuf_update (\<lambda>_. tx_ringbuf (nbr_at s k))) s = s"
    using kl by (simp add: upd_nbr_def)
  show "fila_nbr (nbr_at s k) = [] \<Longrightarrow> tsch_queue_remove_packet_from_queue (Some k) s = Some (None, s)"
    using peek_fila(1) [OF ok] un same by (simp add: tsch_queue_remove_packet_from_queue_def)
  assume f: "fila_nbr (nbr_at s k) = p # ps"
  note pf = peek_fila(2) [OF ok f]
  let ?f = "\<lambda>n. n\<lparr>tx_ringbuf := snd (ringbufindex_get (tx_ringbuf n))\<rparr>"
  have u: "upd_nbr k (tx_ringbuf_update (\<lambda>_. snd (ringbufindex_get (tx_ringbuf (nbr_at s k))))) s = desenfileira k s"
    by (simp add: upd_nbr_def desenfileira_def)
  have run: "tsch_queue_remove_packet_from_queue (Some k) s = Some (p, desenfileira k s)"
    using un pf u kl
    by (simp add: tsch_queue_remove_packet_from_queue_def Let_def split_beta)
  have f': "fila_nbr (?f (nbr_at s k)) = ps" using pf by simp
  obtain pre post where t: "todos s = pre @ (p # ps) @ post"
    using todos_split [OF inv k] f by metis
  have d: "distinct (p # ps)" "p \<notin> set pre" "p \<notin> set post" using tq_invD(5) [OF inv] t by auto
  have inv': "tq_inv (desenfileira k s)"
    unfolding desenfileira_def using pf f f' d by (intro todos_upd [OF inv k]) auto
  have "p \<notin> set (todos (desenfileira k s))"
  proof
    assume "p \<in> set (todos (desenfileira k s))"
    then obtain j where j: "j \<in> set (tq_em s)" "p \<in> set (fila_nbr (nbr_at (desenfileira k s) j))"
      by (auto simp: todos_def)
    show False
    proof (cases "j = k")
      case True
      then show False using j(2) f' d kl by (simp add: desenfileira_def)
    next
      case False
      then have pj: "p \<in> set (fila_nbr (nbr_at s j))" using j(2) desenfileira_other by simp
      obtain as bs where es: "tq_em s = as @ k # bs" "k \<notin> set as" "k \<notin> set bs"
        and ts: "todos s = concat (map (\<lambda>k. fila_nbr (nbr_at s k)) as) @ fila_nbr (nbr_at s k)
               @ concat (map (\<lambda>k. fila_nbr (nbr_at s k)) bs)"
        using todos_split [OF inv k] by blast
      have "p \<in> set (concat (map (\<lambda>k. fila_nbr (nbr_at s k)) as) @ concat (map (\<lambda>k. fila_nbr (nbr_at s k)) bs))"
        using j(1) pj False es by auto
      then show False using tq_invD(5) [OF inv] f unfolding ts by auto
    qed
  qed
  then show "tsch_queue_remove_packet_from_queue (Some k) s = Some (p, desenfileira k s) \<and>
      tq_inv (desenfileira k s) \<and> fila_nbr (nbr_at (desenfileira k s) k) = ps \<and>
      p \<notin> set (todos (desenfileira k s))"
    using run inv' f' kl by (simp add: desenfileira_def)
qed

section \<open>Backoff\<close>

lemma backoff_inc_val:
  assumes "nbr_ok n"
  defines "be \<equiv> min (unat (backoff_exponent n) + 1) 5"
  shows "unat (backoff_exponent (tsch_queue_backoff_inc rnd n)) = be"
    and "unat (backoff_window (tsch_queue_backoff_inc rnd n)) = (unat rnd div 64) mod 2 ^ be + 1"
    and "nbr_ok (tsch_queue_backoff_inc rnd n)"
proof -
  have be: "be \<le> 5" "1 \<le> be" by (auto simp: be_def)
  let ?w = "(unat rnd div 64) mod 2 ^ be"
  have "(2 :: nat) ^ be \<le> 32" using power_increasing [OF be(1), of "2 :: nat"] by simp
  moreover have "?w < 2 ^ be" by (rule mod_less_divisor) simp
  ultimately have w: "?w < 32" by linarith
  have f: "tsch_queue_backoff_inc rnd n = n\<lparr>backoff_exponent := of_nat be, backoff_window := of_nat ?w + 1\<rparr>"
    by (simp add: tsch_queue_backoff_inc_def Let_def be_def TSCH_MAC_MAX_BE_def)
  show e: "unat (backoff_exponent (tsch_queue_backoff_inc rnd n)) = be"
    using be by (simp add: f unsigned_of_nat take_bit_nat_eq_self)
  have "unat (of_nat ?w :: u8) = ?w" using w by (simp add: unsigned_of_nat take_bit_nat_eq_self)
  then show v: "unat (backoff_window (tsch_queue_backoff_inc rnd n)) = ?w + 1"
    using w by (simp add: f unat_Suc8)
  show "nbr_ok (tsch_queue_backoff_inc rnd n)"
    using assms(1) e v w be unfolding nbr_ok_def word_le_nat_alt f by simp
qed

lemma backoff_reset_ok: "nbr_ok n \<Longrightarrow> nbr_ok (tsch_queue_backoff_reset n)"
  by (simp add: nbr_ok_def tsch_queue_backoff_reset_def TSCH_MAC_MIN_BE_def)

lemma fila_backoff [simp]:
  "fila_nbr (tsch_queue_backoff_reset n) = fila_nbr n" "fila_nbr (tsch_queue_backoff_inc rnd n) = fila_nbr n"
  by (simp_all add: fila_nbr_def tsch_queue_backoff_reset_def tsch_queue_backoff_inc_def Let_def)

lemma fila_distinct: "tq_inv s \<Longrightarrow> k \<in> set (tq_em s) \<Longrightarrow> distinct (fila_nbr (nbr_at s k))"
  using todos_split [of s k] tq_invD(5) [of s] by (metis distinct_append)

lemma upd_backoff_inv:
  assumes "tq_inv s" and "k \<in> set (tq_em s)" and "fila_nbr (f (nbr_at s k)) = fila_nbr (nbr_at s k)"
    and "nbr_ok (f (nbr_at s k))"
  shows "tq_inv (upd_nbr k f s)"
  by (rule todos_upd [OF assms(1,2)]) (use assms fila_distinct [OF assms(1,2)] in auto)

section \<open>Choosing a packet\<close>

lemma get_packet_run:
  assumes inv: "tq_inv s" and k: "k \<in> set (tq_em s)" and un: "\<not> tsch_is_locked (tq_lk s)"
  shows "tsch_queue_get_packet_for_nbr (Some k) (Some opt) s =
    Some (if fila_nbr (nbr_at s k) \<noteq> [] \<and> (opt AND LINK_OPTION_SHARED \<noteq> 0 \<longrightarrow> backoff_window (nbr_at s k) = 0)
          then hd (fila_nbr (nbr_at s k)) else None)"
proof (cases "fila_nbr (nbr_at s k)")
  case Nil
  then show ?thesis
    using peek_fila(1) [OF tq_invD(2) [OF inv k]] un by (simp add: tsch_queue_get_packet_for_nbr_def)
next
  case (Cons p ps)
  then show ?thesis
    using peek_fila(2) [OF tq_invD(2) [OF inv k] Cons] un
    by (auto simp: tsch_queue_get_packet_for_nbr_def tsch_queue_backoff_expired_def)
qed

section \<open>After a transmission\<close>

lemma packet_sent_run:
  fixes opt :: u8
  assumes inv: "tq_inv s" and n: "n \<in> set (tq_em s)" and un: "\<not> tsch_is_locked (tq_lk s)"
    and f: "fila_nbr (nbr_at s n) = Some p # ps"
  defines "uni \<equiv> \<not> is_broadcast (nbr_at s n)" and "shared \<equiv> opt AND LINK_OPTION_SHARED \<noteq> 0"
    and "fora \<equiv> pk_transmissions (mem (tq_pks s) ! p) \<ge> pk_max (mem (tq_pks s) ! p)"
  shows "tsch_queue_packet_sent rnd n p opt MAC_TX_OK s =
      Some (0, if uni \<and> (shared \<or> ps = []) then upd_nbr n tsch_queue_backoff_reset (desenfileira n s) else desenfileira n s)"
    and "st \<noteq> MAC_TX_OK \<Longrightarrow> tsch_queue_packet_sent rnd n p opt st s =
      (let s' = (if fora then desenfileira n s else s) in
       Some (if fora then 0 else 1, if uni \<and> shared then upd_nbr n (tsch_queue_backoff_inc rnd) s' else s'))"
proof -
  note r = remove_packet_run(2) [OF inv n un f]
  have e: "tsch_queue_is_empty (Some n) (desenfileira n s) \<longleftrightarrow> ps = []"
    using is_empty_fila [of "desenfileira n s" n] un r by simp
  show "tsch_queue_packet_sent rnd n p opt MAC_TX_OK s =
      Some (0, if uni \<and> (shared \<or> ps = []) then upd_nbr n tsch_queue_backoff_reset (desenfileira n s) else desenfileira n s)"
    using r e by (simp add: tsch_queue_packet_sent_def uni_def shared_def)
  show "tsch_queue_packet_sent rnd n p opt st s =
      (let s' = (if fora then desenfileira n s else s) in
       Some (if fora then 0 else 1, if uni \<and> shared then upd_nbr n (tsch_queue_backoff_inc rnd) s' else s'))"
    if "st \<noteq> MAC_TX_OK"
    using r that by (simp add: tsch_queue_packet_sent_def uni_def shared_def fora_def Let_def)
qed

lemma packet_sent_inv:
  assumes inv: "tq_inv s" and n: "n \<in> set (tq_em s)" and un: "\<not> tsch_is_locked (tq_lk s)"
    and f: "fila_nbr (nbr_at s n) = Some p # ps" and r: "tsch_queue_packet_sent rnd n p opt st s = Some (q, s')"
  shows "tq_inv s'" and "fila_nbr (nbr_at s' n) = (if q = 0 then ps else Some p # ps)"
    and "\<forall>j. j \<noteq> n \<longrightarrow> nbr_at s' j = nbr_at s j"
    and "q = 0 \<longleftrightarrow> st = MAC_TX_OK \<or> pk_transmissions (mem (tq_pks s) ! p) \<ge> pk_max (mem (tq_pks s) ! p)"
proof -
  note rm = remove_packet_run(2) [OF inv n un f]
  have n': "n \<in> set (tq_em (desenfileira n s))" "n < length (tq_nbrs s)" using n tq_invD(3) [OF inv] by auto
  have kl: "n < length (tq_nbrs (desenfileira n s))" using n' by simp
  have A: "tq_inv (upd_nbr n g t) \<and> fila_nbr (nbr_at (upd_nbr n g t) n) = fila_nbr (nbr_at t n) \<and>
      (\<forall>j. j \<noteq> n \<longrightarrow> nbr_at (upd_nbr n g t) j = nbr_at s j)"
    if g: "g = tsch_queue_backoff_reset \<or> g = tsch_queue_backoff_inc rnd"
      and t: "t = s \<or> t = desenfileira n s" for g t
  proof -
    have it: "tq_inv t" "n \<in> set (tq_em t)" "n < length (tq_nbrs t)" using t inv n n' rm by auto
    have "nbr_ok (g (nbr_at t n))"
      using g backoff_reset_ok backoff_inc_val(3) tq_invD(2) [OF it(1,2)] by auto
    moreover have "fila_nbr (g (nbr_at t n)) = fila_nbr (nbr_at t n)" using g by auto
    ultimately have "tq_inv (upd_nbr n g t)" by (intro upd_backoff_inv it)
    then show ?thesis using it(3) g t desenfileira_other by auto
  qed
  have B: "(q = 0 \<longleftrightarrow> st = MAC_TX_OK \<or> pk_transmissions (mem (tq_pks s) ! p) \<ge> pk_max (mem (tq_pks s) ! p)) \<and>
    (\<exists>t. t = (if q = 0 then desenfileira n s else s) \<and>
     (s' = t \<or> s' = upd_nbr n tsch_queue_backoff_reset t \<or> s' = upd_nbr n (tsch_queue_backoff_inc rnd) t))"
    using r packet_sent_run(1) [OF inv n un f, of rnd opt] packet_sent_run(2) [OF inv n un f, of st rnd opt]
    by (cases "st = MAC_TX_OK") (auto simp: Let_def split: if_splits)
  then obtain t where t: "t = (if q = 0 then desenfileira n s else s)"
    "s' = t \<or> s' = upd_nbr n tsch_queue_backoff_reset t \<or> s' = upd_nbr n (tsch_queue_backoff_inc rnd) t" by blast
  have ft: "fila_nbr (nbr_at t n) = (if q = 0 then ps else Some p # ps)" using t(1) rm f by auto
  have tt: "t = s \<or> t = desenfileira n s" "tq_inv t" using t(1) rm inv by auto
  show "q = 0 \<longleftrightarrow> st = MAC_TX_OK \<or> pk_transmissions (mem (tq_pks s) ! p) \<ge> pk_max (mem (tq_pks s) ! p)"
    using B by simp
  have "tq_inv s' \<and> fila_nbr (nbr_at s' n) = fila_nbr (nbr_at t n) \<and> (\<forall>j. j \<noteq> n \<longrightarrow> nbr_at s' j = nbr_at s j)"
    using t(2) A [OF _ tt(1)] tt desenfileira_other by auto
  then show "tq_inv s'" "fila_nbr (nbr_at s' n) = (if q = 0 then ps else Some p # ps)"
    "\<forall>j. j \<noteq> n \<longrightarrow> nbr_at s' j = nbr_at s j" using ft by auto
qed

section \<open>Flushing\<close>

text \<open>What flushing packet i reports.\<close>

definition flush_events :: "tq \<Rightarrow> nat option \<Rightarrow> tq_event list" where
  "flush_events s p = (case p of None \<Rightarrow> [] | Some i \<Rightarrow>
     [Sent_callback (pk_sent (mem (tq_pks s) ! i)) (pk_ptr (mem (tq_pks s) ! i)) MAC_TX_ERR
        (pk_transmissions (mem (tq_pks s) ! i)),
      Queuebuf_free (pk_qb (mem (tq_pks s) ! i))])"

definition descarta :: "nat \<Rightarrow> tq \<Rightarrow> tq" where
  "descarta i s = (let pk = (mem (tq_pks s) ! i)\<lparr>pk_ret := MAC_TX_ERR\<rparr> in
     tsch_queue_free_packet (Some i) (tq_event (Sent_callback (pk_sent pk) (pk_ptr pk) (pk_ret pk) (pk_transmissions pk))
       (s\<lparr>tq_pks := (tq_pks s)\<lparr>mem := (mem (tq_pks s))[i := pk]\<rparr>\<rparr>)))"

lemma vivos_mem [simp]: "vivos (m\<lparr>mem := x\<rparr>) = vivos m"
  by (simp add: vivos_def)

lemma descarta_run:
  assumes inv: "tq_inv s" and i: "i \<in> vivos (tq_pks s)" and no: "Some i \<notin> set (todos s)"
  shows "tq_inv (descarta i s)" and "tq_lk (descarta i s) = tq_lk s" and "tq_nt (descarta i s) = tq_nt s"
    and "tq_nbrs (descarta i s) = tq_nbrs s" and "vivos (tq_pks (descarta i s)) = vivos (tq_pks s) - {i}"
    and "tq_log (descarta i s) = tq_log s @ flush_events s (Some i)"
    and "j \<noteq> i \<Longrightarrow> mem (tq_pks (descarta i s)) ! j = mem (tq_pks s) ! j"
proof -
  have il: "i < length (mem (tq_pks s))" using i inv by (auto simp: vivos_def tq_inv_def)
  let ?s = "descarta i s"
  show p: "tq_lk ?s = tq_lk s" "tq_nt ?s = tq_nt s" "tq_nbrs ?s = tq_nbrs s"
    "tq_log ?s = tq_log s @ flush_events s (Some i)"
    using il by (simp_all add: descarta_def Let_def tsch_queue_free_packet_def tq_event_def flush_events_def)
  have pk: "tq_pks ?s = snd (memb_free (Some i) ((tq_pks s)\<lparr>mem := (mem (tq_pks s))[i := (mem (tq_pks s) ! i)\<lparr>pk_ret := MAC_TX_ERR\<rparr>]\<rparr>))"
    by (simp add: descarta_def Let_def tsch_queue_free_packet_def tq_event_def)
  show v: "vivos (tq_pks ?s) = vivos (tq_pks s) - {i}" unfolding pk vivos_free by simp
  show "j \<noteq> i \<Longrightarrow> mem (tq_pks ?s) ! j = mem (tq_pks s) ! j" unfolding pk by simp
  have "todos ?s = todos s" unfolding todos_def p(2) p(3) ..
  moreover have "length (mem (tq_pks ?s)) = length (used (tq_pks ?s))" using inv unfolding pk by (simp add: tq_inv_def)
  ultimately show "tq_inv ?s" using inv no v p unfolding tq_inv_def by auto
qed

lemma flush_run:
  assumes "tq_inv s" and "k \<in> set (tq_em s)" and "\<not> tsch_is_locked (tq_lk s)"
  shows "runs_to (tsch_queue_flush_nbr_queue (Some k) s) (\<lambda>s'. tq_inv s' \<and> tq_lk s' = tq_lk s \<and> tq_nt s' = tq_nt s \<and>
     fila_nbr (nbr_at s' k) = [] \<and> (\<forall>j. j \<noteq> k \<longrightarrow> nbr_at s' j = nbr_at s j) \<and>
     vivos (tq_pks s') = vivos (tq_pks s) - {i. Some i \<in> set (fila_nbr (nbr_at s k))} \<and>
     tq_log s' = tq_log s @ concat (map (flush_events s) (fila_nbr (nbr_at s k))))"
  using assms
proof (induction "fila_nbr (nbr_at s k)" arbitrary: s)
  case Nil
  then have "tsch_queue_is_empty (Some k) s" using is_empty_fila by simp
  then show ?case using Nil by (subst tsch_queue_flush_nbr_queue.simps) simp
next
  case (Cons p ps)
  note f = Cons.hyps(2) [symmetric]
  obtain i where i: "p = Some i" "i \<in> vivos (tq_pks s)"
    using fila_Some [OF Cons.prems(1,2), of p] f by auto
  note r = remove_packet_run(2) [OF Cons.prems f]
  let ?s = "desenfileira k s"
  note d = descarta_run [of ?s i, simplified desenfileira_simps, OF conjunct1 [OF conjunct2 [OF r]] i(2)]
  have no: "Some i \<notin> set (todos ?s)" using r i by simp
  let ?t = "descarta i ?s"
  have IH: "runs_to (tsch_queue_flush_nbr_queue (Some k) ?t) (\<lambda>s'. tq_inv s' \<and> tq_lk s' = tq_lk ?t \<and> tq_nt s' = tq_nt ?t \<and>
     fila_nbr (nbr_at s' k) = [] \<and> (\<forall>j. j \<noteq> k \<longrightarrow> nbr_at s' j = nbr_at ?t j) \<and>
     vivos (tq_pks s') = vivos (tq_pks ?t) - {i. Some i \<in> set (fila_nbr (nbr_at ?t k))} \<and>
     tq_log s' = tq_log ?t @ concat (map (flush_events ?t) (fila_nbr (nbr_at ?t k))))"
    using Cons.prems r d no by (intro Cons.hyps(1)) auto
  have ft: "fila_nbr (nbr_at ?t k) = ps" using d(4) [OF no] r by simp
  have ni: "Some i \<notin> set ps" using fila_distinct [OF Cons.prems(1,2)] f i by simp
  have "flush_events ?t x = flush_events s x" if "x \<in> set ps" for x
  proof (cases x)
    case (Some j)
    then have "j \<noteq> i" using that ni by auto
    then show ?thesis using d(7) [OF no] Some by (simp add: flush_events_def)
  qed (simp add: flush_events_def)
  then have fe: "concat (map (flush_events ?t) ps) = concat (map (flush_events s) ps)"
    by (intro arg_cong [where f = concat] map_cong) auto
  have e1: "flush_events ?s (Some i) = flush_events s (Some i)" by (simp add: flush_events_def)
  have step: "tsch_queue_flush_nbr_queue (Some k) s = tsch_queue_flush_nbr_queue (Some k) ?t"
    using is_empty_fila [OF Cons.prems(3), of k] f r i
    by (subst tsch_queue_flush_nbr_queue.simps) (simp add: descarta_def Let_def)
  show ?case
    unfolding step
    by (rule runs_to_mono [OF IH])
      (use d no ft fe e1 i f desenfileira_other in \<open>auto\<close>)
qed

section \<open>Adding neighbors and packets\<close>

lemma pairs_insert:
  assumes "\<And>x y. P x y \<longleftrightarrow> P y x" and "a \<notin> A"
  shows "(\<forall>x \<in> insert a A. \<forall>y \<in> insert a A. x \<noteq> y \<longrightarrow> P x y) \<longleftrightarrow>
    (\<forall>y \<in> A. P a y) \<and> (\<forall>x \<in> A. \<forall>y \<in> A. x \<noteq> y \<longrightarrow> P x y)"
proof
  assume l: "\<forall>x \<in> insert a A. \<forall>y \<in> insert a A. x \<noteq> y \<longrightarrow> P x y"
  have "P a y" if "y \<in> A" for y
  proof -
    have "a \<noteq> y" using that assms(2) by auto
    then show ?thesis using l that by simp
  qed
  then show "(\<forall>y \<in> A. P a y) \<and> (\<forall>x \<in> A. \<forall>y \<in> A. x \<noteq> y \<longrightarrow> P x y)" using l by simp
next
  assume r: "(\<forall>y \<in> A. P a y) \<and> (\<forall>x \<in> A. \<forall>y \<in> A. x \<noteq> y \<longrightarrow> P x y)"
  have "P x y" if "x \<in> insert a A" "y \<in> insert a A" "x \<noteq> y" for x y
    using that r assms(1) [of y x] by (cases "x = a"; cases "y = a") simp_all
  then show "\<forall>x \<in> insert a A. \<forall>y \<in> insert a A. x \<noteq> y \<longrightarrow> P x y" by blast
qed

lemma distinct_concat_map:
  assumes "distinct xs"
  shows "distinct (concat (map f xs)) \<longleftrightarrow> (\<forall>x \<in> set xs. distinct (f x)) \<and>
    (\<forall>x \<in> set xs. \<forall>y \<in> set xs. x \<noteq> y \<longrightarrow> set (f x) \<inter> set (f y) = {})"
  using assms
proof (induction xs)
  case (Cons a xs)
  have 1: "distinct (concat (map f (a # xs))) \<longleftrightarrow> distinct (f a) \<and> distinct (concat (map f xs)) \<and>
      (\<forall>y \<in> set xs. set (f a) \<inter> set (f y) = {})"
    by auto
  have IH: "distinct (concat (map f xs)) \<longleftrightarrow> (\<forall>x \<in> set xs. distinct (f x)) \<and>
    (\<forall>x \<in> set xs. \<forall>y \<in> set xs. x \<noteq> y \<longrightarrow> set (f x) \<inter> set (f y) = {})"
    using Cons by simp
  have a: "a \<notin> set xs" using Cons.prems by simp
  have 2: "(\<forall>x \<in> set (a # xs). \<forall>y \<in> set (a # xs). x \<noteq> y \<longrightarrow> set (f x) \<inter> set (f y) = {}) \<longleftrightarrow>
      (\<forall>y \<in> set xs. set (f a) \<inter> set (f y) = {}) \<and>
      (\<forall>x \<in> set xs. \<forall>y \<in> set xs. x \<noteq> y \<longrightarrow> set (f x) \<inter> set (f y) = {})"
    unfolding list.set by (rule pairs_insert [OF _ a]) auto
  show ?case unfolding 1 2 IH by auto
qed simp

lemma tq_inv_iff:
  "tq_inv s \<longleftrightarrow> nt_inv (tq_nt s) \<and> length (tq_nbrs s) = length (used (nt_mem (tq_nt s))) \<and>
     length (mem (tq_pks s)) = length (used (tq_pks s)) \<and>
     (\<forall>k \<in> set (tq_em s). nbr_ok (nbr_at s k) \<and> distinct (fila_nbr (nbr_at s k)) \<and>
        set (fila_nbr (nbr_at s k)) \<subseteq> Some ` vivos (tq_pks s)) \<and>
     (\<forall>k \<in> set (tq_em s). \<forall>j \<in> set (tq_em s). k \<noteq> j \<longrightarrow>
        set (fila_nbr (nbr_at s k)) \<inter> set (fila_nbr (nbr_at s j)) = {})"
proof (cases "nt_inv (tq_nt s)")
  case True
  then have "distinct (tq_em s)" using nt_invD(1) by (simp add: em_def)
  then show ?thesis
    unfolding tq_inv_def todos_def by (subst distinct_concat_map) auto
qed (simp add: tq_inv_def)

definition nbr_novo :: "linkaddr \<Rightarrow> tsch_neighbor" where
  "nbr_novo addr = tsch_queue_backoff_reset (nbr_zero\<lparr>
      tx_ringbuf := ringbufindex_init TSCH_QUEUE_NUM_PER_NEIGHBOR,
      is_broadcast := linkaddr_cmp addr tsch_eb_address \<or> linkaddr_cmp addr tsch_broadcast_address\<rparr>)"

lemma nbr_novo_ok: "nbr_ok (nbr_novo a)" "fila_nbr (nbr_novo a) = []"
proof -
  have i: "ringbufindex_init TSCH_QUEUE_NUM_PER_NEIGHBOR = ringbufindex_init (2 ^ 6)"
    by (simp add: TSCH_QUEUE_NUM_PER_NEIGHBOR_def)
  have k: "(6 :: nat) < 8" by simp
  have "rb_ok (ringbufindex_init (2 ^ 6))" using rb_init_ok(1) [OF k] unfolding rb_ok_def by blast
  then show "nbr_ok (nbr_novo a)"
    using rb_init_ok(3) [OF k] unfolding nbr_ok_def nbr_novo_def i
    by (simp add: tsch_queue_backoff_reset_def nbr_zero_def TSCH_MAC_MIN_BE_def TSCH_QUEUE_NUM_PER_NEIGHBOR_def)
  show "fila_nbr (nbr_novo a) = []"
    using rb_init_ok(2) [OF k] unfolding nbr_novo_def i
    by (simp add: fila_nbr_def rbi.conteudo_def nbr_zero_def tsch_queue_backoff_reset_def)
qed

text \<open>Two states with the same members but k, whose queue is empty in the second.\<close>

lemma tq_inv_reset_at:
  assumes inv: "tq_inv s" and nt: "nt_inv (tq_nt s')" and len: "length (tq_nbrs s') = length (used (nt_mem (tq_nt s')))"
    and pks: "tq_pks s' = tq_pks s"
    and others: "\<And>j. j \<noteq> k \<Longrightarrow> j \<in> set (tq_em s') \<Longrightarrow> j \<in> set (tq_em s) \<and> nbr_at s' j = nbr_at s j"
    and k: "nbr_ok (nbr_at s' k)" "fila_nbr (nbr_at s' k) = []"
  shows "tq_inv s'"
proof -
  have "nbr_ok (nbr_at s' j) \<and> distinct (fila_nbr (nbr_at s' j)) \<and> set (fila_nbr (nbr_at s' j)) \<subseteq> Some ` vivos (tq_pks s')"
    if "j \<in> set (tq_em s')" for j
    using others [OF _ that] inv k pks unfolding tq_inv_iff by (cases "j = k") auto
  moreover have "set (fila_nbr (nbr_at s' i)) \<inter> set (fila_nbr (nbr_at s' j)) = {}"
    if "i \<in> set (tq_em s')" "j \<in> set (tq_em s')" "i \<noteq> j" for i j
    using others [OF _ that(1)] others [OF _ that(2)] inv k that(3) unfolding tq_inv_iff
    by (cases "i = k"; cases "j = k") auto
  ultimately show ?thesis using nt len inv pks unfolding tq_inv_iff by simp
qed

lemma em_iguais:
  assumes "iguais k s s'" and "set (nt_keys s') \<subseteq> insert k (set (nt_keys s))" and "j \<noteq> k" and "j \<in> set (em s' t)"
  shows "j \<in> set (em s t)"
  using assms by (auto simp: em_def usa_def iguais_def)

lemma length_used_nt_add:
  "length (used (nt_mem (snd (nbr_table_add_lladdr vic t a s)))) = length (used (nt_mem s))"
  by (auto simp: nbr_table_add_lladdr_def nbr_table_allocate_def Let_def remove_key_def
      split: option.splits prod.splits if_splits)
    (metis length_alloc snd_conv)+

text \<open>
  Adding a neighbor: the one that is there, or a new one with an empty queue. Nothing is changed
  about the others; the only one that may disappear is the entry the table gave up.
\<close>

lemma add_nbr_run:
  assumes inv: "tq_inv s" and lk: "livre (tq_lk s)"
  shows "\<exists>r s'. tsch_queue_add_nbr vic addr s = Some (r, s') \<and> tq_inv s' \<and> livre (tq_lk s') \<and>
    tq_pks s' = tq_pks s \<and> (tsch_queue_get_nbr addr s \<noteq> None \<longrightarrow> r = tsch_queue_get_nbr addr s) \<and>
    (case r of None \<Rightarrow> tsch_queue_get_nbr addr s = None \<and> tq_nbrs s' = tq_nbrs s \<and> tq_nt s' = tq_nt s
     | Some k \<Rightarrow> k \<in> set (tq_em s') \<and> nt_addr (tq_nt s') k = addr \<and>
         (\<forall>j. j \<noteq> k \<longrightarrow> nbr_at s' j = nbr_at s j \<and> (j \<in> set (tq_em s') \<longrightarrow> j \<in> set (tq_em s))) \<and>
         (if tsch_queue_get_nbr addr s = Some k then s' = s else nbr_at s' k = nbr_novo addr))"
proof (cases "tsch_queue_get_nbr addr s")
  case (Some k)
  then have "k \<in> set (tq_em s) \<and> nt_addr (tq_nt s) k = addr"
    using nbr_get_iff [OF tq_invD(1) [OF inv]] lk by (simp add: tsch_queue_get_nbr_def)
  then show ?thesis using Some inv lk by (simp add: tsch_queue_add_nbr_def)
next
  case None
  let ?l = "(tq_lk s)\<lparr>tsch_locked := True, tsch_lock_requested := False\<rparr>"
  obtain r t where rt: "nbr_table_add_lladdr vic (Some tsch_neighbors) (Some addr) (tq_nt s) = (r, t)" by force
  note ad = nbr_add_run [OF tq_invD(1) [OF inv] rt]
  show ?thesis
  proof (cases r)
    case n: None
    then have "tsch_queue_add_nbr vic addr s = Some (None, s\<lparr>tq_nt := t, tq_lk := tsch_release_lock ?l\<rparr>)"
      using None lk rt by (simp add: tsch_queue_add_nbr_def)
    moreover have "t = tq_nt s" using ad n by (simp add: adicionado_def)
    ultimately show ?thesis using None lk inv n by (auto simp: tq_inv_def todos_def)
  next
    case (Some k)
    let ?t = "snd (nbr_table_lock tsch_neighbors (Some k) t)"
    let ?s' = "upd_nbr k (\<lambda>_. nbr_novo addr) (s\<lparr>tq_nt := ?t, tq_lk := tsch_release_lock ?l\<rparr>)"
    have e: "tsch_queue_add_nbr vic addr s = Some (Some k, ?s')"
      using None lk rt Some by (simp add: tsch_queue_add_nbr_def nbr_novo_def upd_nbr_def)
    have a: "nt_inv t" "k \<in> set (em t tsch_neighbors)" "nt_addr t k = addr" "iguais k (tq_nt s) t"
      "set (nt_keys t) \<subseteq> insert k (set (nt_keys (tq_nt s)))"
      using ad Some by (auto simp: adicionado_def)
    note lock = nbr_lock_run [OF a(1), of tsch_neighbors k]
    have len: "length (used (nt_mem t)) = length (used (nt_mem (tq_nt s)))"
      using length_used_nt_add [of vic "Some tsch_neighbors" "Some addr" "tq_nt s"] rt by simp
    have "k \<in> set (nt_keys t)" using a(2) by (simp add: em_def)
    then have kl: "k < length (tq_nbrs s)" using nt_invD(8) [OF a(1)] inv len by (simp add: tq_inv_def)
    have em: "j \<in> set (tq_em s)" if "j \<noteq> k" "j \<in> set (tq_em ?s')" for j
      using em_iguais [OF a(4,5) that(1), of tsch_neighbors] that(2) lock(2) by simp
    have nb: "nbr_at ?s' j = (if j = k then nbr_novo addr else nbr_at s j)" for j using kl by simp
    have "tq_inv ?s'"
    proof (rule tq_inv_reset_at [OF inv, of _ k])
      show "nt_inv (tq_nt ?s')" using lock(1) by simp
      show "length (tq_nbrs ?s') = length (used (nt_mem (tq_nt ?s')))"
        using inv len lock(4) by (simp add: tq_inv_def)
      show "j \<in> set (tq_em s) \<and> nbr_at ?s' j = nbr_at s j" if "j \<noteq> k" "j \<in> set (tq_em ?s')" for j
        using em [OF that] that nb by simp
      show "nbr_ok (nbr_at ?s' k)" "fila_nbr (nbr_at ?s' k) = []"
        using nbr_novo_ok nb by simp_all
    qed simp
    moreover have "k \<in> set (tq_em ?s')" "nt_addr (tq_nt ?s') k = addr"
      using a lock by simp_all
    ultimately show ?thesis
      unfolding e using lk nb em None by (intro exI [of _ "Some k"] exI [of _ ?s']) auto
  qed
qed

definition nbr_put :: "tsch_neighbor \<Rightarrow> nat option \<Rightarrow> tsch_neighbor" where
  "nbr_put n v = n\<lparr>tx_array := (tx_array n)[nat (ringbufindex_peek_put (tx_ringbuf n)) := v],
                   tx_ringbuf := snd (ringbufindex_put (tx_ringbuf n))\<rparr>"

lemma put_fila:
  assumes ok: "nbr_ok n" and pp: "ringbufindex_peek_put (tx_ringbuf n) \<noteq> -1"
  shows "wri (tx_array n) (ringbufindex_peek_put (tx_ringbuf n)) v
      = Some ((tx_array n)[nat (ringbufindex_peek_put (tx_ringbuf n)) := v])"
    and "fila_nbr (nbr_put n v) = fila_nbr n @ [v]"
    and "nbr_ok (nbr_put n v)"
proof -
  have r: "rb_ok (tx_ringbuf n)" "rb_sz (tx_ringbuf n) = 64" "length (tx_array n) = 64" using ok by (auto simp: nbr_ok_def)
  note fr = rbi.peek_put_fresh [OF r(1) pp]
  show "wri (tx_array n) (ringbufindex_peek_put (tx_ringbuf n)) v
      = Some ((tx_array n)[nat (ringbufindex_peek_put (tx_ringbuf n)) := v])"
    using fr r by (simp add: wri_Some)
  have rm: "length (rb_els (tx_ringbuf n)) + 1 < rb_sz (tx_ringbuf n)"
    using rbi.full [OF r(1)] rbi.els_ok [OF r(1)] pp by (cases "length (rb_els (tx_ringbuf n)) + 1 = rb_sz (tx_ringbuf n)") auto
  show "fila_nbr (nbr_put n v) = fila_nbr n @ [v]"
    using rbi.write_put [OF r(1) rm, of "tx_array n" v] r by (simp add: fila_nbr_def nbr_put_def)
  show "nbr_ok (nbr_put n v)"
    using rbi.room [OF r(1) rm] ok r by (auto simp: nbr_ok_def nbr_put_def)
qed

text \<open>While TSCH is locked nothing is taken from a queue, and the loop that flushes one does not end.\<close>

lemma flush_locked:
  assumes "tsch_is_locked (tq_lk s)"
  shows "tsch_queue_flush_nbr_queue n s = None"
proof -
  have "\<not> tsch_is_locked (tq_lk s)" if "tsch_queue_flush_nbr_queue n s = Some s'" for s'
    using that
  proof (rule tsch_queue_flush_nbr_queue.raw_induct [of "\<lambda>n s s'. \<not> tsch_is_locked (tq_lk s)", rotated])
    fix rec n s s'
    assume ih: "\<And>n s s'. rec n s = Some s' \<Longrightarrow> \<not> tsch_is_locked (tq_lk s)"
      and r: "(if \<not> tsch_queue_is_empty n s then do {
        (p, s) \<leftarrow> tsch_queue_remove_packet_from_queue n s;
        (case p of
           None \<Rightarrow> rec n s
         | Some i \<Rightarrow>
            (let pk = (mem (tq_pks s) ! i)\<lparr>pk_ret := MAC_TX_ERR\<rparr>;
                 s = s\<lparr>tq_pks := (tq_pks s)\<lparr>mem := (mem (tq_pks s))[i := pk]\<rparr>\<rparr>;
                 s = tq_event (Sent_callback (pk_sent pk) (pk_ptr pk) (pk_ret pk) (pk_transmissions pk)) s
             in rec n (tsch_queue_free_packet p s))) }
      else Some s) = Some s'"
    show "\<not> tsch_is_locked (tq_lk s)"
    proof
      assume l: "tsch_is_locked (tq_lk s)"
      then have "tsch_queue_remove_packet_from_queue n s = Some (None, s)" "\<not> tsch_queue_is_empty n s"
        by (simp_all add: tsch_queue_remove_packet_from_queue_def tsch_queue_is_empty_def)
      then have "rec n s = Some s'" using r by simp
      then show False using ih l by blast
    qed
  qed
  then show ?thesis using assms by (cases "tsch_queue_flush_nbr_queue n s") auto
qed

text \<open>A full queue refuses, and a queue that holds fewer than sixty-three packets does not.\<close>

lemma peek_put_fila:
  assumes ok: "nbr_ok n"
  shows "ringbufindex_peek_put (tx_ringbuf n) = -1 \<longleftrightarrow> length (fila_nbr n) = 63"
proof -
  have r: "rb_ok (tx_ringbuf n)" "rb_sz (tx_ringbuf n) = 64" using ok by (auto simp: nbr_ok_def)
  have lt: "length (rb_els (tx_ringbuf n)) < 64" using rbi.els_ok [OF r(1)] r(2) by simp
  show ?thesis
    using rbi.full [OF r(1)] rbi.room [OF r(1)] r(2) lt unfolding length_fila
    by (cases "length (rb_els (tx_ringbuf n)) = 63") auto
qed


text \<open>Appending a fresh packet to the queue of a member.\<close>

lemma tq_inv_append:
  assumes inv: "tq_inv s" and k: "k \<in> set (tq_em s)" and f: "nbr_ok (f (nbr_at s k))"
    "fila_nbr (f (nbr_at s k)) = fila_nbr (nbr_at s k) @ [Some p]"
    and p: "p \<notin> vivos (tq_pks s)" "vivos m = insert p (vivos (tq_pks s))" "length (mem m) = length (used m)"
  shows "tq_inv (upd_nbr k f (s\<lparr>tq_pks := m\<rparr>))"
proof -
  let ?s' = "upd_nbr k f (s\<lparr>tq_pks := m\<rparr>)"
  have kl: "k < length (tq_nbrs s)" using tq_invD(3) [OF inv k] .
  have nb: "nbr_at ?s' j = (if j = k then f (nbr_at s k) else nbr_at s j)" for j using kl by simp
  have fresh: "Some p \<notin> set (fila_nbr (nbr_at s j))" if "j \<in> set (tq_em s)" for j
    using inv p(1) that unfolding tq_inv_iff by auto
  have fj: "fila_nbr (nbr_at ?s' j) = (if j = k then fila_nbr (nbr_at s k) @ [Some p] else fila_nbr (nbr_at s j))" for j
    using nb f(2) by simp
  have "nbr_ok (nbr_at ?s' j) \<and> distinct (fila_nbr (nbr_at ?s' j)) \<and> set (fila_nbr (nbr_at ?s' j)) \<subseteq> Some ` vivos (tq_pks ?s')"
    if "j \<in> set (tq_em ?s')" for j
    unfolding fj using that nb [of j] inv k f fresh p(2) unfolding tq_inv_iff by auto
  moreover have "set (fila_nbr (nbr_at ?s' i)) \<inter> set (fila_nbr (nbr_at ?s' j)) = {}"
    if "i \<in> set (tq_em ?s')" "j \<in> set (tq_em ?s')" "i \<noteq> j" for i j
    unfolding fj using that inv k fresh unfolding tq_inv_iff by auto
  ultimately show ?thesis using inv p(3) unfolding tq_inv_iff by simp
qed

lemma memb_alloc_pair: "memb_alloc m = (fst (memb_alloc m), snd (memb_alloc m))"
  by simp

text \<open>The packet as add-packet fills it in.\<close>

definition pacote_novo :: "nat option \<Rightarrow> u8 \<Rightarrow> nat \<Rightarrow> nat \<Rightarrow> tsch_packet \<Rightarrow> tsch_packet" where
  "pacote_novo qb mx sent pt r = r\<lparr>pk_qb := qb, pk_sent := sent, pk_ptr := pt, pk_transmissions := 0,
     pk_max := mx, pk_ret := MAC_TX_DEFERRED\<rparr>"

lemma pacote_campos:
  "r\<lparr>pk_qb := qb, pk_sent := sent, pk_ptr := pt, pk_ret := MAC_TX_DEFERRED, pk_transmissions := 0, pk_max := mx\<rparr>
   = pacote_novo qb mx sent pt r" for r :: tsch_packet
  by (cases r) (simp add: pacote_novo_def)

lemma enqueue_run:
  fixes qb :: "nat option" and mx :: u8 and sent pt :: nat
  assumes inv: "tq_inv s" and k: "k \<in> set (tq_em s)"
    and pp: "ringbufindex_peek_put (tx_ringbuf (nbr_at s k)) \<noteq> -1"
    and al: "fst (memb_alloc (tq_pks s)) = Some p"
  defines "m \<equiv> (snd (memb_alloc (tq_pks s)))\<lparr>mem := (mem (tq_pks s))[p := pacote_novo qb mx sent pt (mem (tq_pks s) ! p)]\<rparr>"
  shows "tq_inv (upd_nbr k (\<lambda>n. nbr_put n (Some p)) (s\<lparr>tq_pks := m\<rparr>))"
    and "fila_nbr (nbr_at (upd_nbr k (\<lambda>n. nbr_put n (Some p)) (s\<lparr>tq_pks := m\<rparr>)) k) = fila_nbr (nbr_at s k) @ [Some p]"
    and "p \<notin> vivos (tq_pks s)" and "p < length (mem (tq_pks s))"
proof -
  have ok: "nbr_ok (nbr_at s k)" and kl: "k < length (tq_nbrs s)" using tq_invD [OF inv] k by auto
  note pf = put_fila [OF ok pp, of "Some p"]
  have v: "vivos (snd (memb_alloc (tq_pks s))) = insert p (vivos (tq_pks s))" "p \<notin> vivos (tq_pks s)"
    using vivos_alloc [OF al] by auto
  have lens: "length (mem (tq_pks s)) = length (used (tq_pks s))" using inv by (simp add: tq_inv_def)
  show "p \<notin> vivos (tq_pks s)" by (rule v(2))
  show "p < length (mem (tq_pks s))" using memb_alloc_Some [OF al] lens by simp
  show "tq_inv (upd_nbr k (\<lambda>n. nbr_put n (Some p)) (s\<lparr>tq_pks := m\<rparr>))"
    by (rule tq_inv_append [OF inv k _ _ v(2)]) (use pf v lens in \<open>simp_all add: m_def\<close>)
  show "fila_nbr (nbr_at (upd_nbr k (\<lambda>n. nbr_put n (Some p)) (s\<lparr>tq_pks := m\<rparr>)) k) = fila_nbr (nbr_at s k) @ [Some p]"
    using pf kl by simp
qed

text \<open>
  Adding a packet ends and keeps the invariant. When it succeeds, the packet is fresh and is the
  last of the queue of its destination; otherwise no queue has changed.
\<close>

lemma add_packet_run:
  assumes inv: "tq_inv s" and lk: "livre (tq_lk s)"
  shows "\<exists>r s'. tsch_queue_add_packet vic qb addr mx sent pt s = Some (r, s') \<and> tq_inv s' \<and> livre (tq_lk s') \<and>
    (\<forall>p. r = Some p \<longrightarrow> p \<notin> vivos (tq_pks s) \<and> mem (tq_pks s') ! p = pacote_novo qb mx sent pt (mem (tq_pks s) ! p) \<and>
      (\<exists>k \<in> set (tq_em s'). nt_addr (tq_nt s') k = addr \<and>
         fila_nbr (nbr_at s' k) =
           (if tsch_queue_get_nbr addr s = Some k then fila_nbr (nbr_at s k) else []) @ [Some p] \<and>
         (\<forall>j. j \<noteq> k \<longrightarrow> nbr_at s' j = nbr_at s j))) \<and>
    (r = None \<longrightarrow> vivos (tq_pks s') = vivos (tq_pks s) \<and>
      (\<forall>k. tsch_queue_get_nbr addr s = Some k \<longrightarrow> tq_nbrs s' = tq_nbrs s))"
proof -
  obtain r1 s1 where a: "tsch_queue_add_nbr vic addr s = Some (r1, s1)" "tq_inv s1" "livre (tq_lk s1)"
    "tq_pks s1 = tq_pks s" "tsch_queue_get_nbr addr s \<noteq> None \<longrightarrow> r1 = tsch_queue_get_nbr addr s"
    "case r1 of None \<Rightarrow> tsch_queue_get_nbr addr s = None \<and> tq_nbrs s1 = tq_nbrs s \<and> tq_nt s1 = tq_nt s
     | Some k \<Rightarrow> k \<in> set (tq_em s1) \<and> nt_addr (tq_nt s1) k = addr \<and>
         (\<forall>j. j \<noteq> k \<longrightarrow> nbr_at s1 j = nbr_at s j \<and> (j \<in> set (tq_em s1) \<longrightarrow> j \<in> set (tq_em s))) \<and>
         (if tsch_queue_get_nbr addr s = Some k then s1 = s else nbr_at s1 k = nbr_novo addr)"
    using add_nbr_run [OF inv lk, of vic addr] by blast
  have un: "\<not> tsch_is_locked (tq_lk s)" using lk by simp
  let ?add = "tsch_queue_add_packet vic qb addr mx sent pt s"
  have nada: ?thesis if "?add = Some (None, s2)" "tq_inv s2" "livre (tq_lk s2)" "vivos (tq_pks s2) = vivos (tq_pks s)"
    "tq_nbrs s2 = tq_nbrs s1" for s2
    using that a(5,6) by (intro exI [of _ None] exI [of _ s2]) (auto split: option.splits)
  show ?thesis
  proof (cases r1)
    case None
    then have "?add = Some (None, s1)" using a un by (simp add: tsch_queue_add_packet_def)
    then show ?thesis using a by (intro nada) auto
  next
    case (Some k)
    then have c: "k \<in> set (tq_em s1) \<and> nt_addr (tq_nt s1) k = addr \<and>
         (\<forall>j. j \<noteq> k \<longrightarrow> nbr_at s1 j = nbr_at s j \<and> (j \<in> set (tq_em s1) \<longrightarrow> j \<in> set (tq_em s))) \<and>
         (if tsch_queue_get_nbr addr s = Some k then s1 = s else nbr_at s1 k = nbr_novo addr)"
      using a(6) by simp
    have "fila_nbr (nbr_at s1 k) = (if tsch_queue_get_nbr addr s = Some k then fila_nbr (nbr_at s k) else [])"
      using c nbr_novo_ok(2) [of addr] by (cases "tsch_queue_get_nbr addr s = Some k") simp_all
    then have k: "k \<in> set (tq_em s1)" "nt_addr (tq_nt s1) k = addr" "\<forall>j. j \<noteq> k \<longrightarrow> nbr_at s1 j = nbr_at s j"
      "fila_nbr (nbr_at s1 k) = (if tsch_queue_get_nbr addr s = Some k then fila_nbr (nbr_at s k) else [])"
      using c by simp_all
    let ?pp = "ringbufindex_peek_put (tx_ringbuf (nbr_at s1 k))"
    show ?thesis
    proof (cases "?pp = -1 \<or> fst (memb_alloc (tq_pks s1)) = None")
      case True
      have "?add = Some (None, s1)"
      proof (cases "?pp = -1")
        case True
        then show ?thesis using a(1) un Some by (simp add: tsch_queue_add_packet_def Let_def)
      next
        case False
        then obtain m where "memb_alloc (tq_pks s1) = (None, m)"
          using True by (cases "memb_alloc (tq_pks s1)") auto
        then show ?thesis using a(1) un Some False by (simp add: tsch_queue_add_packet_def Let_def)
      qed
      then show ?thesis using a by (intro nada) auto
    next
      case False
      then obtain p where pp: "?pp \<noteq> -1" and al: "fst (memb_alloc (tq_pks s1)) = Some p" by auto
      obtain M where al': "memb_alloc (tq_pks s1) = (Some p, M)" using al by (cases "memb_alloc (tq_pks s1)") auto
      have MM: "mem M = mem (tq_pks s1)" using mem_alloc [of "tq_pks s1"] al' by simp
      note enq = enqueue_run(1,2) [OF a(2) k(1) pp al, where qb = qb and mx = mx and sent = sent and pt = pt]
        enqueue_run(3,4) [OF a(2) k(1) pp al]
      show ?thesis
      proof (cases qb)
        case None
        let ?m = "(snd (memb_alloc (tq_pks s1)))\<lparr>mem := (mem (tq_pks s1))[p := (mem (tq_pks s1) ! p)\<lparr>pk_qb := None\<rparr>]\<rparr>"
        let ?s2 = "s1\<lparr>tq_pks := snd (memb_free (Some p) ?m)\<rparr>"
        have e: "?add = Some (None, ?s2)"
          using a(1) un Some pp al' MM None by (simp add: tsch_queue_add_packet_def Let_def)
        have "vivos (tq_pks ?s2) = vivos (tq_pks s1)"
          using vivos_alloc [OF al] by (simp add: vivos_free)
        moreover have "length (mem (tq_pks ?s2)) = length (used (tq_pks ?s2))" using a(2) by (simp add: tq_inv_def)
        ultimately have "tq_inv ?s2" using a(2) unfolding tq_inv_def todos_def by simp
        then show ?thesis
          using e a \<open>vivos (tq_pks ?s2) = vivos (tq_pks s1)\<close> by (intro nada [of ?s2]) auto
      next
        case q: (Some b)
        let ?m = "(snd (memb_alloc (tq_pks s1)))\<lparr>mem := (mem (tq_pks s1))[p := pacote_novo qb mx sent pt (mem (tq_pks s1) ! p)]\<rparr>"
        let ?s2 = "upd_nbr k (\<lambda>n. nbr_put n (Some p)) (s1\<lparr>tq_pks := ?m\<rparr>)"
        have ok: "nbr_ok (nbr_at s1 k)" using tq_invD(2) [OF a(2) k(1)] .
        have pn: "(((mem (tq_pks s1))[p := (mem (tq_pks s1) ! p)\<lparr>pk_qb := qb\<rparr>]))[p :=
            (((mem (tq_pks s1))[p := (mem (tq_pks s1) ! p)\<lparr>pk_qb := qb\<rparr>]) ! p)\<lparr>pk_sent := sent, pk_ptr := pt,
                          pk_ret := MAC_TX_DEFERRED, pk_transmissions := 0, pk_max := mx\<rparr>]
           = (mem (tq_pks s1))[p := pacote_novo qb mx sent pt (mem (tq_pks s1) ! p)]"
          using enq(4) by (simp add: pacote_campos)
        have e: "?add = Some (Some p, ?s2)"
          using a(1) un Some pp al' MM q put_fila(1) [OF ok pp, of "Some p"] pn
          by (simp add: tsch_queue_add_packet_def Let_def upd_nbr_def nbr_put_def)
        have kl: "k < length (tq_nbrs s1)" using tq_invD(3) [OF a(2) k(1)] .
        show ?thesis
          unfolding e using enq a k kl by (intro exI [of _ "Some p"] exI [of _ ?s2]) auto
      qed
    qed
  qed
qed

section \<open>All neighbors\<close>

lemma fold_upd_nbr:
  assumes "distinct ks" and "set ks \<subseteq> {..<length (tq_nbrs s)}"
    and C: "\<And>k t. tq_nt t = tq_nt s \<Longrightarrow> nbr_at t k = nbr_at s k \<Longrightarrow> C k t = C k s"
  shows "\<forall>j. nbr_at (fold (\<lambda>k s. if C k s then upd_nbr k f s else s) ks s) j =
      (if j \<in> set ks \<and> C j s then f (nbr_at s j) else nbr_at s j)"
    and "tq_nt (fold (\<lambda>k s. if C k s then upd_nbr k f s else s) ks s) = tq_nt s"
proof -
  let ?F = "\<lambda>k s. if C k s then upd_nbr k f s else s"
  have "tq_nt (fold ?F ks s) = tq_nt s \<and> length (tq_nbrs (fold ?F ks s)) = length (tq_nbrs s) \<and>
    (\<forall>j. nbr_at (fold ?F ks s) j = (if j \<in> set ks \<and> C j s then f (nbr_at s j) else nbr_at s j))"
    using assms(1,2)
  proof (induction ks rule: rev_induct)
    case (snoc k ks)
    let ?t = "fold ?F ks s"
    have t: "tq_nt ?t = tq_nt s" "length (tq_nbrs ?t) = length (tq_nbrs s)"
      "\<And>j. nbr_at ?t j = (if j \<in> set ks \<and> C j s then f (nbr_at s j) else nbr_at s j)"
      using snoc by auto
    have k: "k \<notin> set ks" "k < length (tq_nbrs ?t)" using snoc t by auto
    have "C k ?t = C k s" using C [OF t(1)] t(3) [of k] k by simp
    then show ?case using t k by auto
  qed simp
  then show "\<forall>j. nbr_at (fold ?F ks s) j = (if j \<in> set ks \<and> C j s then f (nbr_at s j) else nbr_at s j)"
    and "tq_nt (fold ?F ks s) = tq_nt s" by blast+
qed

text \<open>The neighbors whose window a slot of a shared link decrements.\<close>

definition conta_janela :: "tq \<Rightarrow> linkaddr \<Rightarrow> nat \<Rightarrow> bool" where
  "conta_janela s dest k \<longleftrightarrow> k \<in> set (tq_em s) \<and> backoff_window (nbr_at s k) \<noteq> 0 \<and>
     (if tx_links_count (nbr_at s k) = 0 then dest = tsch_broadcast_address
      else nt_addr (tq_nt s) k = dest)"

lemma update_windows_run:
  assumes inv: "tq_inv s" and un: "\<not> tsch_is_locked (tq_lk s)"
  shows "nbr_at (tsch_queue_update_all_backoff_windows dest s) j =
     (if conta_janela s dest j then (nbr_at s j)\<lparr>backoff_window := backoff_window (nbr_at s j) - 1\<rparr> else nbr_at s j)"
proof -
  let ?C = "\<lambda>n s. backoff_window (nbr_at s n) \<noteq> 0 \<and>
                 (tx_links_count (nbr_at s n) = 0 \<and> linkaddr_cmp dest tsch_broadcast_address \<or>
                  tx_links_count (nbr_at s n) > 0 \<and> tsch_queue_get_nbr_address (Some n) s = Some dest)"
  have it: "tq_itens s = tq_em s" by (rule tq_itens_em [OF inv])
  have sub: "set (tq_em s) \<subseteq> {..<length (tq_nbrs s)}" using tq_invD(3) [OF inv] by auto
  have C: "?C k t = ?C k s" if "tq_nt t = tq_nt s" "nbr_at t k = nbr_at s k" for k t
    using that by (simp add: tsch_queue_get_nbr_address_def)
  have g: "w > 0 \<longleftrightarrow> w \<noteq> 0" for w :: u8 by (simp add: word_gt_0)
  show ?thesis
    using fold_upd_nbr(1) [OF tq_invD(4) [OF inv] sub, of ?C "backoff_window_update (\<lambda>w. w - 1)", OF C] un it
    by (auto simp: tsch_queue_update_all_backoff_windows_def conta_janela_def linkaddr_cmp_def
        tsch_queue_get_nbr_address_def nbr_table_get_lladdr_def g)
qed

end
