(* ===== verification/Topology_File.thy ===== *)
theory Topology_File
  imports Tsch_Prelude "HOL-Library.Char_ord"
begin

text \<open>
  The two text files through which the nodes share their links (os/net/mac/tsch/tsch-schedule.c):
  arvore.txt, lines "origin destination" appended by tsch_write_in_file, and TCH.txt, lines
  "origin destination (timeslot channel)" appended by SCHEDULE_static.

  A FILE opened for reading is the rest of its characters and the end-of-file flag, which C sets
  only when a read runs into the end. fscanf is written out for the two formats the code uses:
  a conversion that fails leaves its variable unchanged and stops. Integers are unbounded (the
  numbers in the files are node numbers and slots).

  The readers loop with while(!feof(fl)). A conversion that fails on a character consumes
  nothing and sets no flag, so such a loop does not end: it is None.
\<close>

section \<open>Definitions\<close>

type_synonym stream = "string \<times> bool"

definition fopen_r :: "string \<Rightarrow> stream" where "fopen_r s = (s, False)"

definition feof :: "stream \<Rightarrow> bool" where "feof = snd"

definition is_space :: "char \<Rightarrow> bool" where
  "is_space c \<longleftrightarrow> c \<in> {CHR '' '', CHR 0x09, CHR 0x0A, CHR 0x0B, CHR 0x0C, CHR 0x0D}"

definition is_digit :: "char \<Rightarrow> bool" where
  "is_digit c \<longleftrightarrow> 48 \<le> (of_char c :: nat) \<and> (of_char c :: nat) < 58"

definition dig_val :: "string \<Rightarrow> int" where
  "dig_val ds = foldl (\<lambda>v c. v * 10 + (of_char c - 48)) 0 ds"

definition scan_ws :: "stream \<Rightarrow> stream" where
  "scan_ws st = (let r = dropWhile is_space (fst st) in (r, snd st \<or> r = []))"

text \<open>The conversion %d.\<close>

definition sinal :: "string \<Rightarrow> bool \<times> string" where
  "sinal s = (case s of [] \<Rightarrow> (False, [])
     | c # r \<Rightarrow> if c = CHR ''-'' then (True, r) else if c = CHR ''+'' then (False, r) else (False, s))"

definition scan_d :: "stream \<Rightarrow> int option \<times> stream" where
  "scan_d st = (let (s, e) = scan_ws st in
     if s = [] then (None, (s, e))
     else (let (neg, s) = sinal s; ds = takeWhile is_digit s; r = dropWhile is_digit s in
       if ds = [] then (None, (s, e \<or> s = []))
       else (Some (if neg then - dig_val ds else dig_val ds), (r, e \<or> r = []))))"

definition scan_lit :: "char \<Rightarrow> stream \<Rightarrow> bool \<times> stream" where
  "scan_lit c st = (case st of
     ([], e) \<Rightarrow> (False, ([], True))
   | (x # r, e) \<Rightarrow> if x = c then (True, (r, e)) else (False, st))"

text \<open>fscanf(fl, "%d %d", &a, &b).\<close>

definition fscanf_dd :: "int \<times> int \<Rightarrow> stream \<Rightarrow> (int \<times> int) \<times> stream" where
  "fscanf_dd v st = (case scan_d st of
     (None, st) \<Rightarrow> (v, st)
   | (Some a, st) \<Rightarrow> (case scan_d (scan_ws st) of
       (None, st) \<Rightarrow> ((a, snd v), st)
     | (Some b, st) \<Rightarrow> ((a, b), st)))"

text \<open>fscanf(fl, "%d %d (%d %d)", &a, &b, &c, &d).\<close>

definition fscanf_dddd :: "int \<times> int \<times> int \<times> int \<Rightarrow> stream \<Rightarrow> (int \<times> int \<times> int \<times> int) \<times> stream" where
  "fscanf_dddd v st = (case v of (a0, b0, c0, d0) \<Rightarrow> (case scan_d st of
     (None, st) \<Rightarrow> (v, st)
   | (Some a, st) \<Rightarrow> (case scan_d (scan_ws st) of
       (None, st) \<Rightarrow> ((a, b0, c0, d0), st)
     | (Some b, st) \<Rightarrow> (case scan_lit CHR ''('' (scan_ws st) of
         (False, st) \<Rightarrow> ((a, b, c0, d0), st)
       | (True, st) \<Rightarrow> (case scan_d st of
           (None, st) \<Rightarrow> ((a, b, c0, d0), st)
         | (Some c, st) \<Rightarrow> (case scan_d (scan_ws st) of
             (None, st) \<Rightarrow> ((a, b, c, d0), st)
           | (Some d, st) \<Rightarrow> ((a, b, c, d), snd (scan_lit CHR '')'' st))))))))"

text \<open>while(!feof(fl)) { fscanf(fl, ...); body }, and the same with a body that may return.\<close>

partial_function (option) feof_loop ::
  "('v \<Rightarrow> stream \<Rightarrow> 'v \<times> stream) \<Rightarrow> ('v \<Rightarrow> 's \<Rightarrow> 's option) \<Rightarrow> stream \<Rightarrow> 'v \<Rightarrow> 's \<Rightarrow> 's option" where
  "feof_loop scan body st v s =
     (if feof st then Some s
      else (let (v', st') = scan v st in do {
        s' \<leftarrow> body v' s;
        feof_loop scan body st' v' s' }))"

declare feof_loop.simps [code]

text \<open>fprintf with %d.\<close>

fun nat_str :: "nat \<Rightarrow> string" where
  "nat_str n = (if n < 10 then [char_of (48 + n)] else nat_str (n div 10) @ [char_of (48 + n mod 10)])"

declare nat_str.simps [simp del]

definition int_str :: "int \<Rightarrow> string" where
  "int_str i = (if i < 0 then CHR ''-'' # nat_str (nat (- i)) else nat_str (nat i))"

definition linha_dd :: "int \<times> int \<Rightarrow> string" where
  "linha_dd v = int_str (fst v) @ '' '' @ int_str (snd v) @ [CHR 0x0A]"

definition linha_dddd :: "int \<times> int \<times> int \<times> int \<Rightarrow> string" where
  "linha_dddd v = (case v of (a, b, c, d) \<Rightarrow>
     int_str a @ '' '' @ int_str b @ '' ('' @ int_str c @ '' '' @ int_str d @ '')'' @ [CHR 0x0A])"

text \<open>
  A file that may not exist and may not be writable. Appending creates it. count_lines compares
  a char with EOF, so the byte 0xFF ends the count.
\<close>

record arquivo =
  texto :: "string option"
  gravavel :: bool

definition anexa :: "string \<Rightarrow> arquivo \<Rightarrow> arquivo" where
  "anexa l f = (if gravavel f then f\<lparr>texto := Some ((case texto f of None \<Rightarrow> [] | Some s \<Rightarrow> s) @ l)\<rparr> else f)"

definition tsch_write_in_file :: "int \<Rightarrow> int \<Rightarrow> arquivo \<Rightarrow> arquivo" where
  "tsch_write_in_file n_origin n_destin f = anexa (linha_dd (n_origin, n_destin)) f"

fun conta_linhas :: "string \<Rightarrow> int" where
  "conta_linhas [] = 0"
| "conta_linhas (c # s) = (if c = CHR 0xFF then 0 else (if c = CHR 0x0A then 1 else 0) + conta_linhas s)"

definition count_lines :: "arquivo \<Rightarrow> int" where
  "count_lines f = (case texto f of None \<Rightarrow> 0 | Some s \<Rightarrow> conta_linhas s)"

section \<open>Numbers: printing and scanning\<close>

lemma of_char_of_digit: "d < 10 \<Longrightarrow> (of_char (char_of (48 + d) :: char) :: nat) = 48 + d"
  by (simp add: of_char_of)

lemma of_char_of_digit_int: "d < 10 \<Longrightarrow> (of_char (char_of (48 + d :: nat) :: char) :: int) = 48 + int d"
  using of_char_of_digit [of d] by (metis of_nat_add of_nat_numeral of_nat_of_char)

lemma is_digit_char_of: "(d :: nat) < 10 \<Longrightarrow> is_digit (char_of (48 + d))"
  by (simp add: is_digit_def of_char_of_digit)

lemma nat_str_digits: "\<forall>c \<in> set (nat_str n). is_digit c"
proof (induction n rule: nat_str.induct)
  case (1 n)
  then show ?case by (subst nat_str.simps) (auto simp: is_digit_char_of)
qed

lemma nat_str_ne [simp]: "nat_str n \<noteq> []"
  by (subst nat_str.simps) simp

lemma dig_val_snoc: "dig_val (ds @ [c]) = dig_val ds * 10 + (of_char c - 48)"
  by (simp add: dig_val_def)

lemma int_div_mod10: "int (n div 10) * 10 + int (n mod 10) = int n"
  by (metis div_mult_mod_eq of_nat_add of_nat_mult of_nat_numeral)

lemma dig_val_nat_str: "dig_val (nat_str n) = int n"
proof (induction n rule: nat_str.induct)
  case (1 n)
  show ?case
  proof (cases "n < 10")
    case True
    then show ?thesis by (subst nat_str.simps) (simp add: dig_val_def of_char_of_digit_int)
  next
    case False
    then have "dig_val (nat_str (n div 10)) = int (n div 10)" by (rule 1)
    then show ?thesis
      using False int_div_mod10 [of n] by (subst nat_str.simps) (simp add: dig_val_snoc of_char_of_digit_int)
  qed
qed

lemma digit_not_space: "is_digit c \<Longrightarrow> \<not> is_space c"
  by (auto simp: is_digit_def is_space_def)

lemma digit_not_sign: "is_digit c \<Longrightarrow> c \<noteq> CHR ''-'' \<and> c \<noteq> CHR ''+''"
  by (auto simp: is_digit_def)

definition nao_digito :: "string \<Rightarrow> bool" where
  "nao_digito r \<longleftrightarrow> r = [] \<or> \<not> is_digit (hd r)"

lemma take_drop_digits:
  assumes "\<forall>c \<in> set ds. is_digit c" and "nao_digito r"
  shows "takeWhile is_digit (ds @ r) = ds" and "dropWhile is_digit (ds @ r) = r"
proof -
  have r: "takeWhile is_digit r = []" "dropWhile is_digit r = r"
    using assms(2) by (cases r; simp add: nao_digito_def)+
  show "takeWhile is_digit (ds @ r) = ds" "dropWhile is_digit (ds @ r) = r"
    using assms(1) r by simp_all
qed

lemma int_str_hd: "\<exists>c cs. int_str i = c # cs \<and> \<not> is_space c"
proof (cases "i < 0")
  case True
  then show ?thesis by (simp add: int_str_def is_space_def)
next
  case False
  obtain c cs where n: "nat_str (nat i) = c # cs" by (cases "nat_str (nat i)") auto
  then have "is_digit c" using nat_str_digits [of "nat i"] by simp
  then show ?thesis using n False digit_not_space by (simp add: int_str_def)
qed

text \<open>Scanning a printed number gives it back, up to the first character that is no digit.\<close>

lemma scan_d_int_str:
  assumes r: "nao_digito r" and ws: "\<forall>c \<in> set w. is_space c"
  shows "scan_d (w @ int_str i @ r, e) = (Some i, (r, e \<or> r = []))"
proof -
  have "dropWhile is_space (int_str i @ r) = int_str i @ r"
    using int_str_hd [of i] by auto
  then have w: "dropWhile is_space (w @ int_str i @ r) = int_str i @ r" using ws by simp
  have ne: "int_str i \<noteq> []" using int_str_hd [of i] by auto
  show ?thesis
  proof (cases "i < 0")
    case True
    then have s: "sinal (int_str i @ r) = (True, nat_str (nat (- i)) @ r)"
      by (simp add: sinal_def int_str_def)
    show ?thesis
      using w ne s take_drop_digits [OF nat_str_digits r, of "nat (- i)"] True
      by (simp add: scan_d_def scan_ws_def Let_def dig_val_nat_str)
  next
    case False
    obtain c cs where n: "nat_str (nat i) = c # cs" by (cases "nat_str (nat i)") auto
    then have "is_digit c" using nat_str_digits [of "nat i"] by simp
    then have s: "sinal (int_str i @ r) = (False, nat_str (nat i) @ r)"
      using digit_not_sign n False by (simp add: sinal_def int_str_def)
    show ?thesis
      using w ne s take_drop_digits [OF nat_str_digits r, of "nat i"] False
      by (simp add: scan_d_def scan_ws_def Let_def dig_val_nat_str)
  qed
qed

lemma scan_ws_int_str: "scan_ws (CHR '' '' # int_str i @ r, e) = (int_str i @ r, e)"
proof -
  obtain c cs where "int_str i = c # cs" "\<not> is_space c" using int_str_hd by blast
  moreover have "is_space CHR '' ''" by (simp add: is_space_def)
  ultimately show ?thesis by (simp add: scan_ws_def)
qed

lemma space_not_digit: "\<not> is_digit CHR '' ''" "\<not> is_digit CHR 0x0A" "\<not> is_digit CHR ''(''" "\<not> is_digit CHR '')''"
  by (simp_all add: is_digit_def)

lemma fscanf_dd_linha:
  assumes ws: "\<forall>c \<in> set w. is_space c"
  shows "fscanf_dd v (w @ linha_dd (a, b) @ r, False) = ((a, b), (CHR 0x0A # r, False))"
proof -
  have 1: "scan_d (w @ int_str a @ (CHR '' '' # int_str b @ CHR 0x0A # r), False)
      = (Some a, (CHR '' '' # int_str b @ CHR 0x0A # r, False))"
    using scan_d_int_str [OF _ ws] by (simp add: nao_digito_def space_not_digit)
  have 2: "scan_d (int_str b @ (CHR 0x0A # r), False) = (Some b, (CHR 0x0A # r, False))"
    using scan_d_int_str [of "CHR 0x0A # r" "[]"] by (simp add: nao_digito_def space_not_digit)
  show ?thesis
    using 1 2 scan_ws_int_str [of b "CHR 0x0A # r" False]
    by (simp add: fscanf_dd_def linha_dd_def)
qed

lemma fscanf_dddd_linha:
  assumes ws: "\<forall>c \<in> set w. is_space c"
  shows "fscanf_dddd v (w @ linha_dddd (a, b, c, d) @ r, False) = ((a, b, c, d), (CHR 0x0A # r, False))"
proof -
  let ?rd = "int_str d @ CHR '')'' # CHR 0x0A # r"
  let ?rc = "int_str c @ CHR '' '' # ?rd"
  let ?rb = "int_str b @ CHR '' '' # CHR ''('' # ?rc"
  have 1: "scan_d (w @ int_str a @ (CHR '' '' # ?rb), False) = (Some a, (CHR '' '' # ?rb, False))"
    using scan_d_int_str [OF _ ws] by (simp add: nao_digito_def space_not_digit)
  have 2: "scan_d (?rb, False) = (Some b, (CHR '' '' # CHR ''('' # ?rc, False))"
    using scan_d_int_str [of "CHR '' '' # CHR ''('' # ?rc" "[]"] by (simp add: nao_digito_def space_not_digit)
  have 3: "scan_d (?rc, False) = (Some c, (CHR '' '' # ?rd, False))"
    using scan_d_int_str [of "CHR '' '' # ?rd" "[]"] by (simp add: nao_digito_def space_not_digit)
  have 4: "scan_d (?rd, False) = (Some d, (CHR '')'' # CHR 0x0A # r, False))"
    using scan_d_int_str [of "CHR '')'' # CHR 0x0A # r" "[]"] by (simp add: nao_digito_def space_not_digit)
  have p: "scan_ws (CHR '' '' # CHR ''('' # ?rc, False) = (CHR ''('' # ?rc, False)"
    by (simp add: scan_ws_def is_space_def)
  show ?thesis
    using 1 2 3 4 p scan_ws_int_str [of b "CHR '' '' # CHR ''('' # ?rc" False] scan_ws_int_str [of d "CHR '')'' # CHR 0x0A # r" False]
    by (cases v) (simp add: fscanf_dddd_def linha_dddd_def scan_lit_def)
qed

section \<open>The loops over a file\<close>

text \<open>What the format reads at the end of the last line: nothing, and the flag is set.\<close>

lemma fscanf_dd_fim: "fscanf_dd v ([CHR 0x0A], False) = (v, ([], True))"
  by (simp add: fscanf_dd_def scan_d_def scan_ws_def is_space_def)

lemma fscanf_dddd_fim: "fscanf_dddd v ([CHR 0x0A], False) = (v, ([], True))"
  by (cases v) (simp add: fscanf_dddd_def scan_d_def scan_ws_def is_space_def)

lemma fscanf_vazio: "fscanf_dd v ([], False) = (v, ([], True))" "fscanf_dddd w ([], False) = (w, ([], True))"
  by (cases w; simp add: fscanf_dd_def fscanf_dddd_def scan_d_def scan_ws_def)+

text \<open>
  A format and the line it reads: the loop over a file of such lines runs its body on every
  line, in order, and then once more on the last one. On an empty file it runs the body once, on
  the variables as they were before the loop.
\<close>

locale formato =
  fixes scan :: "'v \<Rightarrow> stream \<Rightarrow> 'v \<times> stream"
    and linha :: "'v \<Rightarrow> string"
  assumes linha: "\<forall>c \<in> set w. is_space c \<Longrightarrow> scan v (w @ linha x @ r, False) = (x, (CHR 0x0A # r, False))"
    and fim: "scan v ([CHR 0x0A], False) = (v, ([], True))"
    and vazio: "scan v ([], False) = (v, ([], True))"
begin

lemma loop_resto:
  assumes "w = [] \<or> w = [CHR 0x0A]"
  shows "xs \<noteq> [] \<or> w \<noteq> [] \<Longrightarrow> feof_loop scan body (w @ concat (map linha xs), False) v s
     = loopM body (xs @ [if xs = [] then v else last xs]) s"
  using assms
proof (induction xs arbitrary: w v s)
  case Nil
  then have "w = [CHR 0x0A]" by simp
  then show ?case
    using fim [of v] by (simp add: feof_loop.simps feof_def split: bind_splits)
next
  case (Cons x xs)
  have ws: "\<forall>c \<in> set w. is_space c" using Cons.prems(2) by (auto simp: is_space_def)
  have sc: "scan v (w @ concat (map linha (x # xs)), False) = (x, ([CHR 0x0A] @ concat (map linha xs), False))"
    using linha [OF ws, of v x "concat (map linha xs)"] by simp
  have IH: "feof_loop scan body ([CHR 0x0A] @ concat (map linha xs), False) x
      = loopM body (xs @ [if xs = [] then x else last xs])"
    by (rule ext, rule Cons.IH) simp_all
  have "feof_loop scan body (w @ concat (map linha (x # xs)), False) v s
      = do { s' \<leftarrow> body x s; loopM body (xs @ [if xs = [] then x else last xs]) s' }"
    by (subst feof_loop.simps) (simp only: feof_def snd_conv if_False sc Let_def prod.case IH)
  moreover have e: "(x # xs) @ [if x # xs = [] then v else last (x # xs)]
      = x # (xs @ [if xs = [] then x else last xs])" by simp
  ultimately show ?case by (simp only: e loopM.simps)
qed

lemma loop_arquivo:
  "feof_loop scan body (fopen_r (concat (map linha xs))) v s =
     loopM body (if xs = [] then [v] else xs @ [last xs]) s"
proof (cases "xs = []")
  case True
  then show ?thesis
    using vazio [of v] by (simp add: fopen_r_def feof_loop.simps feof_def split: bind_splits)
next
  case False
  then show ?thesis using loop_resto [of "[]" xs body v s] by (simp add: fopen_r_def)
qed

end

interpretation arvore: formato fscanf_dd linha_dd
  by unfold_locales (auto simp: fscanf_dd_linha fscanf_dd_fim fscanf_vazio)

interpretation tch: formato fscanf_dddd linha_dddd
  by unfold_locales (auto simp: fscanf_dddd_linha fscanf_dddd_fim fscanf_vazio split: prod.splits)

lemma conta_linhas_append:
  "CHR 0xFF \<notin> set s \<Longrightarrow> conta_linhas (s @ t) = conta_linhas s + conta_linhas t"
  by (induction s) auto

lemma int_str_chars: "c \<in> set (int_str i) \<Longrightarrow> is_digit c \<or> c = CHR ''-''"
  using nat_str_digits by (auto simp: int_str_def split: if_splits)

lemma conta_digitos: "\<forall>c \<in> set s. is_digit c \<or> c = CHR ''-'' \<Longrightarrow> conta_linhas s = 0 \<and> CHR 0xFF \<notin> set s"
  by (induction s) (auto simp: is_digit_def)

lemma conta_linha_dd: "conta_linhas (linha_dd v) = 1 \<and> CHR 0xFF \<notin> set (linha_dd v)"
proof -
  have d: "conta_linhas (int_str i) = 0" "CHR 0xFF \<notin> set (int_str i)" for i
    using conta_digitos [of "int_str i"] int_str_chars by blast+
  show ?thesis
    using d by (simp add: linha_dd_def conta_linhas_append)
qed

lemma conta_linhas_pares: "conta_linhas (concat (map linha_dd xs)) = int (length xs)"
  by (induction xs) (auto simp: conta_linhas_append conta_linha_dd)

text \<open>
  The loop while(!feof) with fscanf over a file of printed lines runs its body on every line, in order, and
  then a second time on the last line; on an empty file it runs the body once, on the variables as they were
  before. The same holds of both files.
\<close>

lemma feof_loop_reads_lines:
  "feof_loop fscanf_dd body (fopen_r (concat (map linha_dd xs))) v s =
     loopM body (if xs = [] then [v] else xs @ [last xs]) s"
  "feof_loop fscanf_dddd body4 (fopen_r (concat (map linha_dddd ys))) w s =
     loopM body4 (if ys = [] then [w] else ys @ [last ys]) s"
  by (rule arvore.loop_arquivo, rule tch.loop_arquivo)

end
