(* ===== verification/Asn.thy ===== *)
theory Asn
  imports Tsch_Prelude
begin

text \<open>
  os/net/mac/tsch/tsch-asn.h: the absolute slot number, a 40-bit counter kept as four plus one
  bytes, and its arithmetic. The macros are functions of the ASN and return the updated one.
  A modulo by zero is undefined in C and None here. Arithmetic is at the width C gives it: the
  operands of the two sums of TSCH-ASN-MOD are promoted to int and never reach its sign bit.
\<close>

section \<open>Definitions\<close>

record tsch_asn_t =
  ls4b :: u32
  ms1b :: u8

record tsch_asn_divisor_t =
  val :: u16
  asn_ms1b_remainder :: u16

definition TSCH_ASN_INIT :: "u8 \<Rightarrow> u32 \<Rightarrow> tsch_asn_t" where
  "TSCH_ASN_INIT m l = \<lparr>ls4b = l, ms1b = m\<rparr>"

definition TSCH_ASN_INC :: "tsch_asn_t \<Rightarrow> u32 \<Rightarrow> tsch_asn_t" where
  "TSCH_ASN_INC asn inc = (let new_ls4b = ls4b asn + inc in
     \<lparr>ls4b = new_ls4b, ms1b = (if new_ls4b < ls4b asn then ms1b asn + 1 else ms1b asn)\<rparr>)"

definition TSCH_ASN_DEC :: "tsch_asn_t \<Rightarrow> u32 \<Rightarrow> tsch_asn_t" where
  "TSCH_ASN_DEC asn dc = (let new_ls4b = ls4b asn - dc in
     \<lparr>ls4b = new_ls4b, ms1b = (if new_ls4b > ls4b asn then ms1b asn - 1 else ms1b asn)\<rparr>)"

definition TSCH_ASN_DIFF :: "tsch_asn_t \<Rightarrow> tsch_asn_t \<Rightarrow> u32" where
  "TSCH_ASN_DIFF asn1 asn2 = ls4b asn1 - ls4b asn2"

definition TSCH_ASN_DIVISOR_INIT :: "u16 \<Rightarrow> tsch_asn_divisor_t option" where
  "TSCH_ASN_DIVISOR_INIT v =
     (if v = 0 then None
      else Some \<lparr>val = v,
        asn_ms1b_remainder = ucast (((0xffffffff mod (ucast v :: u32)) + 1) mod ucast v)\<rparr>)"

definition TSCH_ASN_MOD :: "tsch_asn_t \<Rightarrow> tsch_asn_divisor_t \<Rightarrow> u16 option" where
  "TSCH_ASN_MOD asn dv =
     (if val dv = 0 then None
      else Some (ucast
        ((ucast (ucast (ls4b asn mod ucast (val dv)) :: u16)
          + ucast (ucast ((ucast (ms1b asn) * ucast (asn_ms1b_remainder dv) :: u32)
                             mod ucast (val dv)) :: u16) :: u32)
         mod ucast (val dv))))"

section \<open>The 40-bit number\<close>

definition asn_val :: "tsch_asn_t \<Rightarrow> nat" where
  "asn_val a = unat (ms1b a) * 2 ^ 32 + unat (ls4b a)"

lemma asn_val_less: "asn_val a < 2 ^ 40"
proof -
  show ?thesis
    using unat_less8 [of "ms1b a"] unat_less32 [of "ls4b a"] by (simp add: asn_val_def)
qed

lemma asn_val_inject: "asn_val a = asn_val b \<longleftrightarrow> a = b"
proof
  assume "asn_val a = asn_val b"
  then have "unat (ms1b a) = unat (ms1b b) \<and> unat (ls4b a) = unat (ls4b b)"
    using unat_less32 [of "ls4b a"] unat_less32 [of "ls4b b"] unfolding asn_val_def
    by (intro digits_eq) auto
  then show "a = b" by (simp add: word_eq_unat)
qed simp

lemma asn_val_INIT [simp]: "asn_val (TSCH_ASN_INIT m l) = unat m * 2 ^ 32 + unat l"
  by (simp add: asn_val_def TSCH_ASN_INIT_def)

text \<open>Incrementing and decrementing are addition and subtraction modulo 2 to the 40.\<close>

lemma asn_val_INC: "asn_val (TSCH_ASN_INC a k) = (asn_val a + unat k) mod 2 ^ 40"
proof -
  let ?l = "unat (ls4b a)" and ?m = "unat (ms1b a)"
  note b = unat_less32 [of "ls4b a"] unat_less32 [of k] unat_less8 [of "ms1b a"]
  show ?thesis
  proof (cases "?l + unat k < 4294967296")
    case True
    then have "unat (ls4b a + k) = ?l + unat k" by (simp add: unat_add32)
    then have "asn_val (TSCH_ASN_INC a k) = asn_val a + unat k"
      by (simp add: TSCH_ASN_INC_def asn_val_def Let_def word_less_nat_alt)
    moreover have "asn_val a + unat k < 2 ^ 40" using True b by (simp add: asn_val_def)
    ultimately show ?thesis by simp
  next
    case False
    then have l: "unat (ls4b a + k) = ?l + unat k - 4294967296"
      using b by (simp add: unat_add32 mod_if)
    then have "asn_val (TSCH_ASN_INC a k) = Suc ?m mod 256 * 4294967296 + (?l + unat k - 4294967296)"
      using b False by (simp add: TSCH_ASN_INC_def asn_val_def Let_def word_less_nat_alt unat_Suc8)
    also have "\<dots> = (asn_val a + unat k) mod 2 ^ 40"
    proof (cases "?m = 255")
      case True
      then have "asn_val a + unat k = (?l + unat k - 4294967296) + 2 ^ 40"
        using False by (simp add: asn_val_def)
      moreover have "?l + unat k - 4294967296 < 2 ^ 40" using b by simp
      ultimately show ?thesis using True by (simp del: power_numeral)
    next
      case m: False
      then have "asn_val a + unat k < 2 ^ 40" using b by (simp add: asn_val_def)
      then show ?thesis using m b False by (simp add: asn_val_def)
    qed
    finally show ?thesis .
  qed
qed

lemma DEC_INC: "TSCH_ASN_DEC (TSCH_ASN_INC a k) k = a"
proof -
  have "ls4b a + k < ls4b a \<longleftrightarrow> ls4b a > ls4b a + k" by simp
  then show ?thesis by (simp add: TSCH_ASN_DEC_def TSCH_ASN_INC_def Let_def)
qed

lemma INC_DEC: "TSCH_ASN_INC (TSCH_ASN_DEC a k) k = a"
  by (simp add: TSCH_ASN_DEC_def TSCH_ASN_INC_def Let_def)

lemma asn_val_DEC: "(asn_val (TSCH_ASN_DEC a k) + unat k) mod 2 ^ 40 = asn_val a"
  using asn_val_INC [of "TSCH_ASN_DEC a k" k] by (simp add: INC_DEC)

lemma DIFF_INC: "TSCH_ASN_DIFF (TSCH_ASN_INC a k) a = k"
  by (simp add: TSCH_ASN_DIFF_def TSCH_ASN_INC_def Let_def)

lemma asn_diff_val:
  assumes "asn_val b \<le> asn_val a" and "asn_val a - asn_val b < 2 ^ 32"
  shows "unat (TSCH_ASN_DIFF a b) = asn_val a - asn_val b"
proof -
  let ?k = "of_nat (asn_val a - asn_val b) :: u32"
  have k: "unat ?k = asn_val a - asn_val b" using assms(2) by (simp add: unsigned_of_nat take_bit_nat_eq_self)
  have "asn_val (TSCH_ASN_INC b ?k) = asn_val a"
    unfolding asn_val_INC k using assms(1) asn_val_less [of a] by simp
  then have "TSCH_ASN_INC b ?k = a" by (simp add: asn_val_inject)
  then have "TSCH_ASN_DIFF a b = ?k" using DIFF_INC [of b ?k] by simp
  then show ?thesis using k by simp
qed

section \<open>The fast modulo\<close>

lemma divisor_remainder:
  assumes "TSCH_ASN_DIVISOR_INIT v = Some dv"
  shows "val dv = v" and "v \<noteq> 0" and "unat (asn_ms1b_remainder dv) = 2 ^ 32 mod unat v"
proof -
  show v: "val dv = v" and nz: "v \<noteq> 0"
    using assms by (auto simp: TSCH_ASN_DIVISOR_INIT_def split: if_splits)
  let ?v = "unat v"
  have pos: "0 < ?v" using nz by (simp add: unat_gt_0)
  have lt: "?v < 65536" by (rule unat_less16)
  have m: "unat (0xffffffff mod ucast v :: u32) = 4294967295 mod ?v"
    by (simp add: unat_mod unat_ucast_16_32)
  have "4294967295 mod ?v < 65536" using pos lt mod_less_divisor [of ?v 4294967295] by linarith
  then have "unat ((0xffffffff mod ucast v) + 1 :: u32) = 4294967295 mod ?v + 1"
    using m by (simp add: unat_add32)
  then have r: "unat (((0xffffffff mod ucast v) + 1) mod ucast v :: u32) = 4294967296 mod ?v"
    by (simp add: unat_mod unat_ucast_16_32 mod_simps)
  have "4294967296 mod ?v < 65536" using pos lt mod_less_divisor [of ?v 4294967296] by linarith
  then show "unat (asn_ms1b_remainder dv) = 2 ^ 32 mod ?v"
    using assms nz r by (auto simp: TSCH_ASN_DIVISOR_INIT_def unat_ucast_down16)
qed

lemma asn_mod_run:
  assumes dv: "TSCH_ASN_DIVISOR_INIT v = Some dv"
  shows "\<exists>m. TSCH_ASN_MOD a dv = Some m \<and> unat m = asn_val a mod unat v"
proof -
  note d = divisor_remainder [OF dv]
  let ?v = "unat v"
  have pos: "0 < ?v" using d(2) by (simp add: unat_gt_0)
  note lt = unat_less16 [of v]
  have less: "x mod ?v < 65536" for x using mod_less_divisor [OF pos, of x] lt by linarith
  have 1: "unat (ucast (ls4b a mod ucast v) :: u16) = unat (ls4b a) mod ?v"
    by (simp add: unat_ucast_down16 unat_mod unat_ucast_16_32 less)
  have prod: "unat (ms1b a) * unat (asn_ms1b_remainder dv) < 4294967296"
  proof -
    have "unat (ms1b a) * unat (asn_ms1b_remainder dv) \<le> 255 * 65535"
      using unat_less8 [of "ms1b a"] unat_less16 [of "asn_ms1b_remainder dv"] by (intro mult_mono) auto
    then show ?thesis by simp
  qed
  have 2: "unat (ucast ((ucast (ms1b a) * ucast (asn_ms1b_remainder dv) :: u32) mod ucast v) :: u16)
      = (unat (ms1b a) * 2 ^ 32) mod ?v"
  proof -
    have "unat (ucast (ms1b a) * ucast (asn_ms1b_remainder dv) :: u32)
        = unat (ms1b a) * (2 ^ 32 mod ?v)"
      using prod d(3) by (simp add: unat_mult_lem [THEN iffD1] unat_ucast_8_32 unat_ucast_16_32)
    then show ?thesis
      by (simp add: unat_ucast_down16 unat_mod unat_ucast_16_32 less mod_mult_right_eq)
  qed
  let ?x = "ucast (ls4b a mod ucast v) :: u16"
  let ?y = "ucast ((ucast (ms1b a) * ucast (asn_ms1b_remainder dv) :: u32) mod ucast v) :: u16"
  have 3: "unat (ucast ?x + ucast ?y :: u32) = unat ?x + unat ?y"
    using unat_less16 [of ?x] unat_less16 [of ?y] by (simp add: unat_add32 unat_ucast_16_32)
  have 4: "unat ((ucast ?x + ucast ?y :: u32) mod ucast v) = asn_val a mod ?v"
    unfolding unat_mod 3 1 2 unat_ucast_16_32 asn_val_def by (simp add: mod_simps add.commute)
  show ?thesis
    using d(1,2) 4 less [of "asn_val a"] by (simp add: TSCH_ASN_MOD_def unat_ucast_down16)
qed

end
