(* ===== verification/Tsch_Schedule.thy ===== *)
theory Tsch_Schedule
  imports Tsch_Queue Topology_File Asn
begin

text \<open>
  os/net/mac/tsch/tsch-schedule.c, the schedule itself: slotframes and their links, in two pools
  and linked lists, and the choice of the next active link. A slotframe or a link is the index of
  its block (None is NULL). The state also holds what the static scheduler at the end of the file
  keeps (Static_Schedule): the ids seen by receivers, the neighbor list, the packet counters and
  the two shared files. Log output is not modelled.
\<close>

section \<open>State\<close>

datatype link_type = LINK_TYPE_NORMAL | LINK_TYPE_ADVERTISING | LINK_TYPE_ADVERTISING_ONLY

record tsch_link =
  l_handle :: int
  l_addr :: linkaddr
  l_sf :: u16
  l_timeslot :: u16
  l_choff :: u16
  l_options :: u8
  l_aux :: u8
  l_type :: link_type
  l_value :: int
  l_data :: "nat option"

record tsch_slotframe =
  sf_handle :: u16
  sf_size :: tsch_asn_divisor_t
  sf_links :: "nat list"

record sched =
  queue :: tq
  link_memb :: "tsch_link memb"
  slotframe_memb :: "tsch_slotframe memb"
  slotframe_list :: "nat list"
  current_link :: "nat option"
  PossNeighbor :: "u8 list"
  NBRlist :: "int list"
  flag_schedule :: u8
  STpacks :: u32
  Packets_sent :: "u32 list"
  Packets_received :: "u32 list"
  cs_counter :: int
  arvore :: arquivo
  TCH :: arquivo
  linkaddr_node_addr :: linkaddr

definition TSCH_SCHEDULE_DEFAULT_LENGTH :: u16 where "TSCH_SCHEDULE_DEFAULT_LENGTH = 7"

abbreviation sf_at :: "sched \<Rightarrow> nat \<Rightarrow> tsch_slotframe" where
  "sf_at s i \<equiv> mem (slotframe_memb s) ! i"

abbreviation link_at :: "sched \<Rightarrow> nat \<Rightarrow> tsch_link" where
  "link_at s i \<equiv> mem (link_memb s) ! i"

definition upd_sf :: "nat \<Rightarrow> (tsch_slotframe \<Rightarrow> tsch_slotframe) \<Rightarrow> sched \<Rightarrow> sched" where
  "upd_sf i f s = s\<lparr>slotframe_memb := (slotframe_memb s)\<lparr>mem := (mem (slotframe_memb s))[i := f (sf_at s i)]\<rparr>\<rparr>"

definition upd_link :: "nat \<Rightarrow> (tsch_link \<Rightarrow> tsch_link) \<Rightarrow> sched \<Rightarrow> sched" where
  "upd_link i f s = s\<lparr>link_memb := (link_memb s)\<lparr>mem := (mem (link_memb s))[i := f (link_at s i)]\<rparr>\<rparr>"

definition locked :: "sched \<Rightarrow> bool" where
  "locked s \<longleftrightarrow> tsch_is_locked (tq_lk (queue s))"

definition get_lock :: "sched \<Rightarrow> (bool \<times> sched) option" where
  "get_lock s = do {
     (got, l) \<leftarrow> tsch_get_lock (tq_lk (queue s));
     Some (got \<noteq> 0, s\<lparr>queue := (queue s)\<lparr>tq_lk := l\<rparr>\<rparr>) }"

definition release_lock :: "sched \<Rightarrow> sched" where
  "release_lock s = s\<lparr>queue := (queue s)\<lparr>tq_lk := tsch_release_lock (tq_lk (queue s))\<rparr>\<rparr>"

definition has_opt :: "u8 \<Rightarrow> u8 \<Rightarrow> bool" where
  "has_opt options b \<longleftrightarrow> options AND b \<noteq> 0"

section \<open>Names of options\<close>

text \<open>print_link_options: the names, each followed by a bar, without the last bar.\<close>

definition print_link_options :: "u16 \<Rightarrow> string" where
  "print_link_options link_options =
     (let buffer = [];
          buffer = (if link_options AND ucast LINK_OPTION_TX \<noteq> 0 then buffer @ ''Tx|'' else buffer);
          buffer = (if link_options AND ucast LINK_OPTION_RX \<noteq> 0 then buffer @ ''Rx|'' else buffer);
          buffer = (if link_options AND ucast LINK_OPTION_SHARED \<noteq> 0 then buffer @ ''Sh|'' else buffer)
      in if length buffer > 0 then take (length buffer - 1) buffer else buffer)"

definition print_link_type :: "u16 \<Rightarrow> string" where
  "print_link_type t = (if t = 0 then ''NORMAL'' else if t = 1 then ''ADV''
     else if t = 2 then ''ADV_ONLY'' else ''?'')"

section \<open>Looking up\<close>

definition tsch_schedule_get_slotframe_by_handle :: "u16 \<Rightarrow> sched \<Rightarrow> nat option" where
  "tsch_schedule_get_slotframe_by_handle handle s =
     (if \<not> locked s then List.find (\<lambda>i. sf_handle (sf_at s i) = handle) (slotframe_list s) else None)"

fun link_by_handle :: "sched \<Rightarrow> u16 \<Rightarrow> nat list \<Rightarrow> nat option" where
  "link_by_handle s handle [] = None"
| "link_by_handle s handle (i # is) =
     (case List.find (\<lambda>l. l_handle (link_at s l) = uint handle) (sf_links (sf_at s i)) of
        Some l \<Rightarrow> Some l
      | None \<Rightarrow> link_by_handle s handle is)"

definition tsch_schedule_get_link_by_handle :: "u16 \<Rightarrow> sched \<Rightarrow> nat option" where
  "tsch_schedule_get_link_by_handle handle s =
     (if \<not> locked s then link_by_handle s handle (slotframe_list s) else None)"

definition tsch_schedule_get_link_by_timeslot :: "nat option \<Rightarrow> u16 \<Rightarrow> u16 \<Rightarrow> sched \<Rightarrow> nat option" where
  "tsch_schedule_get_link_by_timeslot slotframe timeslot channel_offset s =
     (if \<not> locked s then
        (case slotframe of None \<Rightarrow> None
         | Some i \<Rightarrow> List.find (\<lambda>l. l_timeslot (link_at s l) = timeslot \<and> l_choff (link_at s l) = channel_offset)
                       (sf_links (sf_at s i)))
      else None)"

definition tsch_schedule_slotframe_head :: "sched \<Rightarrow> nat option" where
  "tsch_schedule_slotframe_head s = l_head (slotframe_list s)"

definition tsch_schedule_slotframe_next :: "nat \<Rightarrow> sched \<Rightarrow> nat option" where
  "tsch_schedule_slotframe_next i s = l_next (slotframe_list s) i"

section \<open>Slotframes and links\<close>

definition tsch_schedule_add_slotframe :: "u16 \<Rightarrow> u16 \<Rightarrow> sched \<Rightarrow> (nat option \<times> sched) option" where
  "tsch_schedule_add_slotframe handle sz s =
     (if sz = 0 then Some (None, s)
      else if tsch_schedule_get_slotframe_by_handle handle s \<noteq> None then Some (None, s)
      else do {
        (got, s) \<leftarrow> get_lock s;
        if got then
          (case memb_alloc (slotframe_memb s) of
             (None, m) \<Rightarrow> Some (None, release_lock (s\<lparr>slotframe_memb := m\<rparr>))
           | (Some i, m) \<Rightarrow> do {
               dv \<leftarrow> TSCH_ASN_DIVISOR_INIT sz;
               let s = upd_sf i (\<lambda>_. \<lparr>sf_handle = handle, sf_size = dv, sf_links = []\<rparr>) (s\<lparr>slotframe_memb := m\<rparr>);
               Some (Some i, release_lock (s\<lparr>slotframe_list := l_add i (slotframe_list s)\<rparr>)) })
        else Some (None, s) })"

text \<open>The link counters of a neighbor, when a Tx link to it appears or disappears.\<close>

definition conta_link :: "u8 \<Rightarrow> u8 \<Rightarrow> tsch_neighbor \<Rightarrow> tsch_neighbor" where
  "conta_link delta link_options n =
     (let n = n\<lparr>tx_links_count := tx_links_count n + delta\<rparr> in
      if \<not> has_opt link_options LINK_OPTION_SHARED
      then n\<lparr>dedicated_tx_links_count := dedicated_tx_links_count n + delta\<rparr> else n)"

definition tsch_schedule_remove_link :: "nat option \<Rightarrow> nat option \<Rightarrow> sched \<Rightarrow> (int \<times> sched) option" where
  "tsch_schedule_remove_link slotframe l s = (case (slotframe, l) of
     (Some i, Some k) \<Rightarrow>
       if l_sf (link_at s k) = sf_handle (sf_at s i) then do {
         (got, s) \<leftarrow> get_lock s;
         if got then
           (let link_options = l_options (link_at s k);
                addr = linkaddr_copy (l_addr (link_at s k));
                s = (if l = current_link s then s\<lparr>current_link := None\<rparr> else s);
                s = upd_sf i (sf_links_update (l_remove k)) s;
                s = s\<lparr>link_memb := snd (memb_free (Some k) (link_memb s))\<rparr>;
                s = release_lock s;
                s = (if has_opt link_options LINK_OPTION_TX then
                       (case tsch_queue_get_nbr addr (queue s) of
                          None \<Rightarrow> s
                        | Some n \<Rightarrow> s\<lparr>queue := upd_nbr n (conta_link (-1) link_options) (queue s)\<rparr>)
                     else s)
            in Some (1, s))
         else Some (0, s) }
       else Some (0, s)
   | _ \<Rightarrow> Some (0, s))"

text \<open>The next item is read before the current one is removed, so the loop visits the list as it was.\<close>

definition tsch_schedule_remove_link_by_timeslot ::
  "nat option \<Rightarrow> u16 \<Rightarrow> u16 \<Rightarrow> sched \<Rightarrow> (int \<times> sched) option" where
  "tsch_schedule_remove_link_by_timeslot slotframe timeslot channel_offset s =
     (if \<not> locked s then
        (case slotframe of None \<Rightarrow> Some (0, s)
         | Some i \<Rightarrow> loopM (\<lambda>k (ret, s).
             if l_timeslot (link_at s k) = timeslot \<and> l_choff (link_at s k) = channel_offset then do {
               (r, s) \<leftarrow> tsch_schedule_remove_link slotframe (Some k) s;
               Some (if r \<noteq> 0 then 1 else ret, s) }
             else Some (ret, s)) (sf_links (sf_at s i)) (0, s))
      else Some (0, s))"

partial_function (option) remove_links_loop :: "nat \<Rightarrow> sched \<Rightarrow> sched option" where
  "remove_links_loop i s = (case l_head (sf_links (sf_at s i)) of
     None \<Rightarrow> Some s
   | Some k \<Rightarrow> do {
       (_, s) \<leftarrow> tsch_schedule_remove_link (Some i) (Some k) s;
       remove_links_loop i s })"

declare remove_links_loop.simps [code]

definition tsch_schedule_remove_slotframe :: "nat option \<Rightarrow> sched \<Rightarrow> (int \<times> sched) option" where
  "tsch_schedule_remove_slotframe slotframe s = (case slotframe of
     None \<Rightarrow> Some (0, s)
   | Some i \<Rightarrow> do {
       s \<leftarrow> remove_links_loop i s;
       (got, s) \<leftarrow> get_lock s;
       if got then
         Some (1, release_lock (s\<lparr>slotframe_memb := snd (memb_free slotframe (slotframe_memb s)),
                                slotframe_list := l_remove i (slotframe_list s)\<rparr>))
       else Some (0, s) })"

partial_function (option) tsch_schedule_remove_all_slotframes :: "sched \<Rightarrow> (int \<times> sched) option" where
  "tsch_schedule_remove_all_slotframes s = (case l_head (slotframe_list s) of
     None \<Rightarrow> Some (1, s)
   | Some i \<Rightarrow> do {
       (r, s) \<leftarrow> tsch_schedule_remove_slotframe (Some i) s;
       if r = 0 then Some (0, s) else tsch_schedule_remove_all_slotframes s })"

declare tsch_schedule_remove_all_slotframes.simps [code]

definition fill_id :: "u8 \<Rightarrow> sched \<Rightarrow> int \<times> sched" where
  "fill_id nid s = (case List.find (\<lambda>i. PossNeighbor s ! i = 0) [0..<length (PossNeighbor s)] of
     Some i \<Rightarrow> (1, s\<lparr>PossNeighbor := (PossNeighbor s)[i := nid]\<rparr>)
   | None \<Rightarrow> (0, s))"

text \<open>
  vic is the answer of the neighbor policy. The handle of a new link is the number of lines of
  the topology file, which a dedicated Tx link then extends; receivers get the handle -2.
\<close>

definition tsch_schedule_add_link ::
  "linkaddr option \<Rightarrow> nat option \<Rightarrow> u8 \<Rightarrow> link_type \<Rightarrow> linkaddr option \<Rightarrow> u16 \<Rightarrow> u16 \<Rightarrow> bool
   \<Rightarrow> sched \<Rightarrow> (nat option \<times> sched) option" where
  "tsch_schedule_add_link vic slotframe link_options ltype address timeslot channel_offset do_remove s =
     (case slotframe of None \<Rightarrow> Some (None, s)
      | Some i \<Rightarrow>
         if uint timeslot > uint (val (sf_size (sf_at s i))) - 1 then Some (None, s)
         else do {
           (_, s) \<leftarrow> (if do_remove then tsch_schedule_remove_link_by_timeslot slotframe timeslot channel_offset s
                    else Some (0, s));
           (got, s) \<leftarrow> get_lock s;
           if \<not> got then Some (None, s)
           else (case memb_alloc (link_memb s) of
             (None, m) \<Rightarrow> Some (None, release_lock (s\<lparr>link_memb := m\<rparr>))
           | (Some k, m) \<Rightarrow> do {
               let s = upd_sf i (sf_links_update (l_add k)) (s\<lparr>link_memb := m\<rparr>);
               let addr = (case address of None \<Rightarrow> linkaddr_null | Some a \<Rightarrow> a);
               let s = upd_link k (\<lambda>l. l\<lparr>l_handle := count_lines (arvore s), l_options := link_options,
                     l_type := ltype, l_sf := sf_handle (sf_at s i), l_timeslot := timeslot,
                     l_choff := channel_offset, l_data := None, l_value := 0, l_addr := linkaddr_copy addr\<rparr>) s;
               let s = release_lock s;
               let s = (if has_opt link_options LINK_OPTION_RX then
                          snd (fill_id (word_of_int (node_num addr))
                            (upd_link k (\<lambda>l. l\<lparr>l_aux := 1, l_handle := -2\<rparr>) s))
                        else s);
               (if has_opt link_options LINK_OPTION_TX then do {
                  let s = upd_link k (l_aux_update (\<lambda>_. 2)) s;
                  (n, q) \<leftarrow> tsch_queue_add_nbr vic addr (queue s);
                  let s = s\<lparr>queue := q\<rparr>;
                  (case n of None \<Rightarrow> Some (Some k, s)
                   | Some n \<Rightarrow>
                      (let s = s\<lparr>queue := upd_nbr n (conta_link 1 link_options) (queue s)\<rparr>
                       in Some (Some k,
                            if \<not> has_opt link_options LINK_OPTION_SHARED
                            then s\<lparr>arvore := tsch_write_in_file (node_num (linkaddr_node_addr s)) (node_num addr) (arvore s)\<rparr>
                            else s))) }
                else Some (Some k, s)) }) })"

section \<open>The next active link\<close>

definition default_tsch_link_comparator :: "sched \<Rightarrow> nat \<Rightarrow> nat \<Rightarrow> nat" where
  "default_tsch_link_comparator s a b =
     (if \<not> has_opt (l_options (link_at s a)) LINK_OPTION_TX then a
      else if \<not> linkaddr_cmp (l_addr (link_at s a)) (l_addr (link_at s b)) then
        (let pc = (\<lambda>l. case tsch_queue_get_nbr (l_addr (link_at s l)) (queue s) of
               Some n \<Rightarrow> ringbufindex_elements (tx_ringbuf (nbr_at (queue s) n)) | None \<Rightarrow> 0)
         in if pc a \<ge> pc b then a else b)
      else a)"

text \<open>The body of the inner loop: time_to_curr_best, curr_best, curr_backup.\<close>

definition time_to_timeslot :: "u16 \<Rightarrow> u16 \<Rightarrow> u16 \<Rightarrow> u16" where
  "time_to_timeslot sz lt timeslot = (if lt > timeslot then lt - timeslot else sz + lt - timeslot)"

definition new_best_of :: "sched \<Rightarrow> nat \<Rightarrow> nat \<Rightarrow> nat option" where
  "new_best_of s best l =
     (if (l_options (link_at s best) AND LINK_OPTION_TX) = (l_options (link_at s l) AND LINK_OPTION_TX) then
        (if l_sf (link_at s l) \<noteq> l_sf (link_at s best) then
           (if l_sf (link_at s l) < l_sf (link_at s best) then Some l else None)
         else Some (default_tsch_link_comparator s best l))
      else if has_opt (l_options (link_at s l)) LINK_OPTION_TX then Some l else None)"

definition backup_of :: "sched \<Rightarrow> nat option \<Rightarrow> nat \<Rightarrow> nat option \<Rightarrow> nat option" where
  "backup_of s new_best cand backup =
     (if new_best \<noteq> Some cand \<and> has_opt (l_options (link_at s cand)) LINK_OPTION_RX then
        (case backup of None \<Rightarrow> Some cand
         | Some b \<Rightarrow> if l_sf (link_at s cand) < l_sf (link_at s b) then Some cand else backup)
      else backup)"

definition next_link_step :: "sched \<Rightarrow> u16 \<Rightarrow> nat \<Rightarrow> u16 \<times> nat option \<times> nat option \<Rightarrow> u16 \<times> nat option \<times> nat option" where
  "next_link_step s t l = (\<lambda>(tbest, best, backup).
     (case best of
        None \<Rightarrow> (t, Some l, None)
      | Some b \<Rightarrow>
         if t < tbest then (t, Some l, None)
         else if t = tbest then
           (let nb = new_best_of s b l;
                backup = backup_of s nb l backup;
                backup = backup_of s nb b backup
            in (tbest, Some (case nb of Some n \<Rightarrow> n | None \<Rightarrow> b), backup))
         else (tbest, best, backup)))"

text \<open>
  The link, the offset written to *time_offset (None when it is left alone) and the link written
  to *backup_link.
\<close>

definition tsch_schedule_get_next_active_link ::
  "tsch_asn_t \<Rightarrow> sched \<Rightarrow> (nat option \<times> u16 option \<times> nat option) option" where
  "tsch_schedule_get_next_active_link asn s =
     (if \<not> locked s then do {
        (tbest, best, backup) \<leftarrow> loopM (\<lambda>i acc. do {
            timeslot \<leftarrow> TSCH_ASN_MOD asn (sf_size (sf_at s i));
            Some (fold (\<lambda>l. next_link_step s
                     (time_to_timeslot (val (sf_size (sf_at s i))) (l_timeslot (link_at s l)) timeslot) l)
                   (sf_links (sf_at s i)) acc) }) (slotframe_list s) (0, None, None);
        Some (best, Some tbest, backup) }
      else Some (None, None, None))"

section \<open>Initialisation\<close>

definition setZero_Id_reception :: "sched \<Rightarrow> int \<times> sched" where
  "setZero_Id_reception s = (1, s\<lparr>PossNeighbor := replicate (length (PossNeighbor s)) 0\<rparr>)"

definition list_init_nbr :: "sched \<Rightarrow> sched" where
  "list_init_nbr s = s\<lparr>NBRlist := replicate (length (NBRlist s)) 0\<rparr>"

definition tsch_schedule_init :: "tsch_link \<Rightarrow> tsch_slotframe \<Rightarrow> sched \<Rightarrow> (int \<times> sched) option" where
  "tsch_schedule_init zl zs s = do {
     (got, s) \<leftarrow> get_lock s;
     if got then
       (let s = s\<lparr>link_memb := memb_init zl (link_memb s), slotframe_memb := memb_init zs (slotframe_memb s),
                  slotframe_list := []\<rparr>;
            s = snd (setZero_Id_reception (list_init_nbr s))
        in Some (1, release_lock s))
     else Some (0, s) }"

definition tsch_schedule_create_minimal :: "linkaddr option \<Rightarrow> sched \<Rightarrow> sched option" where
  "tsch_schedule_create_minimal vic s = do {
     (_, s) \<leftarrow> tsch_schedule_remove_all_slotframes s;
     (sf_min, s) \<leftarrow> tsch_schedule_add_slotframe 0 TSCH_SCHEDULE_DEFAULT_LENGTH s;
     (_, s) \<leftarrow> tsch_schedule_add_link vic sf_min
        (LINK_OPTION_RX OR LINK_OPTION_TX OR LINK_OPTION_SHARED OR LINK_OPTION_TIME_KEEPING)
        LINK_TYPE_ADVERTISING (Some tsch_broadcast_address) 0 0 True s;
     Some s }"

section \<open>The next active link\<close>

text \<open>Slotframe i runs link l in the slot with absolute number n.\<close>

definition sf_len :: "sched \<Rightarrow> nat \<Rightarrow> nat" where
  "sf_len s i = unat (val (sf_size (sf_at s i)))"

definition ativo :: "sched \<Rightarrow> nat \<Rightarrow> nat \<Rightarrow> nat \<Rightarrow> bool" where
  "ativo s i l n \<longleftrightarrow> n mod sf_len s i = unat (l_timeslot (link_at s l))"

definition tam_ok :: "sched \<Rightarrow> bool" where
  "tam_ok s \<longleftrightarrow> (\<forall>i \<in> set (slotframe_list s).
     TSCH_ASN_DIVISOR_INIT (val (sf_size (sf_at s i))) = Some (sf_size (sf_at s i)) \<and>
     (\<forall>l \<in> set (sf_links (sf_at s i)). unat (l_timeslot (link_at s l)) < sf_len s i))"

text \<open>The offset is the distance to the next occurrence of the timeslot, from 1 to the length.\<close>

lemma mod_dist:
  assumes "t < n" and "m < (n :: nat)"
  defines "d \<equiv> if t > m then t - m else n + t - m"
  shows "1 \<le> d" "d \<le> n" "(m + d) mod n = t" "\<And>k. 1 \<le> k \<Longrightarrow> k < d \<Longrightarrow> (m + k) mod n \<noteq> t"
proof -
  show "1 \<le> d" "d \<le> n" using assms by (auto simp: d_def)
  show "(m + d) mod n = t" using assms by (cases "t > m") (auto simp: d_def)
  fix k
  assume k: "1 \<le> k" "k < d"
  show "(m + k) mod n \<noteq> t"
  proof (cases "m + k < n")
    case True
    then show ?thesis using k assms by (auto simp: d_def split: if_splits)
  next
    case False
    then have "(m + k) mod n = m + k - n" using k \<open>d \<le> n\<close> assms(2) by (simp add: mod_if)
    then show ?thesis using k False assms by (auto simp: d_def split: if_splits)
  qed
qed

lemma unat_time_to_timeslot:
  assumes "unat lt < unat sz" and "unat ts < unat sz"
  shows "unat (time_to_timeslot sz lt ts) =
    (if unat lt > unat ts then unat lt - unat ts else unat sz + unat lt - unat ts)"
proof (cases "lt > ts")
  case True
  then show ?thesis by (simp add: time_to_timeslot_def word_less_nat_alt unat_minus_word less_imp_le)
next
  case False
  then have le: "unat lt \<le> unat ts" by (simp add: word_less_nat_alt)
  have e: "sz + lt - ts = sz - (ts - lt)" by simp
  have tl: "unat (ts - lt) = unat ts - unat lt" using le by (simp add: unat_sub word_le_nat_alt)
  have "unat (sz - (ts - lt)) = unat sz - (unat ts - unat lt)"
    using tl assms by (subst unat_sub) (auto simp: word_le_nat_alt)
  then have "unat (sz + lt - ts) = unat sz + unat lt - unat ts" unfolding e using le assms by simp
  then show ?thesis using False le by (simp add: time_to_timeslot_def word_less_nat_alt)
qed

definition distancia :: "sched \<Rightarrow> tsch_asn_t \<Rightarrow> nat \<Rightarrow> nat \<Rightarrow> u16" where
  "distancia s asn i l = time_to_timeslot (val (sf_size (sf_at s i))) (l_timeslot (link_at s l))
     (the (TSCH_ASN_MOD asn (sf_size (sf_at s i))))"

lemma distancia_spec:
  assumes ok: "tam_ok s" and i: "i \<in> set (slotframe_list s)" and l: "l \<in> set (sf_links (sf_at s i))"
  shows "1 \<le> unat (distancia s asn i l)" and "unat (distancia s asn i l) \<le> sf_len s i"
    and "ativo s i l (asn_val asn + unat (distancia s asn i l))"
    and "1 \<le> k \<Longrightarrow> k < unat (distancia s asn i l) \<Longrightarrow> \<not> ativo s i l (asn_val asn + k)"
proof -
  let ?n = "sf_len s i" and ?t = "unat (l_timeslot (link_at s l))"
  have dv: "TSCH_ASN_DIVISOR_INIT (val (sf_size (sf_at s i))) = Some (sf_size (sf_at s i))"
    and tn: "?t < ?n" using ok i l by (auto simp: tam_ok_def)
  obtain m where m: "TSCH_ASN_MOD asn (sf_size (sf_at s i)) = Some m" "unat m = asn_val asn mod ?n"
    using asn_mod_run [OF dv] unfolding sf_len_def by blast
  have mn: "unat m < ?n" using m(2) tn by simp
  have d: "unat (distancia s asn i l) = (if ?t > unat m then ?t - unat m else ?n + ?t - unat m)"
    using unat_time_to_timeslot [of "l_timeslot (link_at s l)" "val (sf_size (sf_at s i))" m] tn mn m(1)
    by (simp add: distancia_def sf_len_def)
  note md = mod_dist [OF tn mn, folded d]
  show "1 \<le> unat (distancia s asn i l)" "unat (distancia s asn i l) \<le> ?n" by (rule md)+
  have e: "(asn_val asn + k) mod ?n = (unat m + k) mod ?n" for k
    unfolding m(2) by (simp add: mod_simps)
  show "ativo s i l (asn_val asn + unat (distancia s asn i l))" unfolding ativo_def e by (rule md(3))
  show "1 \<le> k \<Longrightarrow> k < unat (distancia s asn i l) \<Longrightarrow> \<not> ativo s i l (asn_val asn + k)"
    unfolding ativo_def e by (rule md(4))
qed

text \<open>The loop over a list of links with their offsets.\<close>

abbreviation tem_tx :: "sched \<Rightarrow> nat \<Rightarrow> bool" where "tem_tx s l \<equiv> has_opt (l_options (link_at s l)) LINK_OPTION_TX"
abbreviation tem_rx :: "sched \<Rightarrow> nat \<Rightarrow> bool" where "tem_rx s l \<equiv> has_opt (l_options (link_at s l)) LINK_OPTION_RX"

lemma and_1_cases: "(w :: u8) AND 1 = 0 \<or> w AND 1 = 1"
  by (simp add: and_one_eq mod_2_eq_odd)

lemma tx_eq: "(a AND LINK_OPTION_TX) = (b AND LINK_OPTION_TX) \<longleftrightarrow> has_opt a LINK_OPTION_TX = has_opt b LINK_OPTION_TX"
  using and_1_cases [of a] and_1_cases [of b] by (auto simp: has_opt_def LINK_OPTION_TX_def)

lemma comparator_cases: "default_tsch_link_comparator s a b = a \<or> default_tsch_link_comparator s a b = b"
  by (auto simp: default_tsch_link_comparator_def Let_def)

lemma new_best_cases:
  obtains (novo) "new_best_of s b l = Some l" "tem_tx s b \<longrightarrow> tem_tx s l"
      "tem_tx s b = tem_tx s l \<longrightarrow> l_sf (link_at s l) \<le> l_sf (link_at s b)"
  | (velho) "new_best_of s b l = None \<or> new_best_of s b l = Some b" "tem_tx s l \<longrightarrow> tem_tx s b"
      "tem_tx s b = tem_tx s l \<longrightarrow> l_sf (link_at s b) \<le> l_sf (link_at s l)"
proof (cases "tem_tx s b = tem_tx s l")
  case True
  consider (menor) "l_sf (link_at s l) < l_sf (link_at s b)" | (maior) "l_sf (link_at s b) < l_sf (link_at s l)"
    | (igual) "l_sf (link_at s l) = l_sf (link_at s b)" by fastforce
  then show ?thesis
  proof cases
    case menor
    then have "new_best_of s b l = Some l" using True tx_eq order_less_imp_not_eq [OF menor] by (simp add: new_best_of_def)
    then show ?thesis using novo True menor by simp
  next
    case maior
    then have "new_best_of s b l = None" using order_less_imp_not_eq [OF maior] True tx_eq by (simp add: new_best_of_def)
    then show ?thesis using velho True maior by simp
  next
    case igual
    then have "new_best_of s b l = Some (default_tsch_link_comparator s b l)"
      using True tx_eq by (simp add: new_best_of_def)
    then show ?thesis using comparator_cases [of s b l] novo velho True igual by auto
  qed
next
  case False
  then have "new_best_of s b l = (if tem_tx s l then Some l else None)" using tx_eq by (simp add: new_best_of_def)
  then show ?thesis using novo velho False by (cases "tem_tx s l") auto
qed

definition escolha_ok :: "sched \<Rightarrow> (u16 \<times> nat) list \<Rightarrow> u16 \<times> nat option \<times> nat option \<Rightarrow> bool" where
  "escolha_ok s ys = (\<lambda>(t, best, backup). (ys = [] \<longrightarrow> best = None \<and> backup = None) \<and>
     (ys \<noteq> [] \<longrightarrow> (\<exists>b. best = Some b \<and> (t, b) \<in> set ys \<and> (\<forall>(u, l) \<in> set ys. t \<le> u) \<and>
        (\<forall>l. (t, l) \<in> set ys \<longrightarrow> (tem_tx s l \<longrightarrow> tem_tx s b) \<and>
            (tem_tx s b = tem_tx s l \<longrightarrow> l_sf (link_at s b) \<le> l_sf (link_at s l)) \<and>
            (tem_rx s l \<longrightarrow> l = b \<or> backup \<noteq> None)) \<and>
        (\<forall>k. backup = Some k \<longrightarrow> (t, k) \<in> set ys \<and> tem_rx s k))))"

lemma backup_of_cases:
  "backup_of s nb c bk = bk \<or> backup_of s nb c bk = Some c \<and> tem_rx s c"
  by (auto simp: backup_of_def split: option.splits)

lemma backup_of_some: "bk \<noteq> None \<Longrightarrow> backup_of s nb c bk \<noteq> None"
  "nb \<noteq> Some c \<Longrightarrow> tem_rx s c \<Longrightarrow> backup_of s nb c bk \<noteq> None"
  by (auto simp: backup_of_def split: option.splits)

lemma escolha_step:
  assumes "escolha_ok s ys acc"
  shows "escolha_ok s (ys @ [(u, l)]) (next_link_step s u l acc)"
proof -
  obtain t best bk where acc: "acc = (t, best, bk)" by (cases acc)
  show ?thesis
  proof (cases "ys = []")
    case True
    then show ?thesis using assms acc by (auto simp: escolha_ok_def next_link_step_def)
  next
    case False
    then obtain b where b: "best = Some b" "(t, b) \<in> set ys" "\<forall>(v, l) \<in> set ys. t \<le> v"
      and pr: "\<And>k. (t, k) \<in> set ys \<Longrightarrow> (tem_tx s k \<longrightarrow> tem_tx s b) \<and>
            (tem_tx s b = tem_tx s k \<longrightarrow> l_sf (link_at s b) \<le> l_sf (link_at s k)) \<and>
            (tem_rx s k \<longrightarrow> k = b \<or> bk \<noteq> None)"
      and bks: "\<And>k. bk = Some k \<Longrightarrow> (t, k) \<in> set ys \<and> tem_rx s k"
      using assms acc unfolding escolha_ok_def by auto
    consider (antes) "u < t" | (junto) "u = t" | (depois) "t < u" by fastforce
    then show ?thesis
    proof cases
      case antes
      then have no: "(u, k) \<notin> set ys" for k using b(3) by fastforce
      have "next_link_step s u l acc = (u, Some l, None)" using antes acc b(1) by (simp add: next_link_step_def)
      then show ?thesis using antes b(3) no unfolding escolha_ok_def by (auto intro: less_imp_le order_trans)
    next
      case depois
      then have "next_link_step s u l acc = acc" using acc b(1) by (auto simp: next_link_step_def)
      then show ?thesis using depois b pr bks acc unfolding escolha_ok_def by auto
    next
      case junto
      let ?nb = "new_best_of s b l"
      let ?bk1 = "backup_of s ?nb l bk"
      let ?bk2 = "backup_of s ?nb b ?bk1"
      let ?best = "case ?nb of Some n \<Rightarrow> n | None \<Rightarrow> b"
      have st: "next_link_step s u l acc = (t, Some ?best, ?bk2)"
        using junto acc b(1) by (simp add: next_link_step_def Let_def)
      have bk2: "?bk2 = Some k \<Longrightarrow> (t, k) \<in> set (ys @ [(u, l)]) \<and> tem_rx s k" for k
        using backup_of_cases [of s ?nb b ?bk1] backup_of_cases [of s ?nb l bk] bks b(2) junto by auto
      have min: "\<forall>(v, k) \<in> set (ys @ [(u, l)]). t \<le> v" using b(3) junto by auto
      have keep: "bk \<noteq> None \<Longrightarrow> ?bk2 \<noteq> None" using backup_of_some(1) by metis
      have "(tem_tx s k \<longrightarrow> tem_tx s ?best) \<and>
          (tem_tx s ?best = tem_tx s k \<longrightarrow> l_sf (link_at s ?best) \<le> l_sf (link_at s k)) \<and>
          (tem_rx s k \<longrightarrow> k = ?best \<or> ?bk2 \<noteq> None)"
        if k: "(t, k) \<in> set (ys @ [(u, l)])" for k
      proof (cases rule: new_best_cases [of s b l])
        case novo
        have rx: "tem_rx s b \<Longrightarrow> b \<noteq> l \<Longrightarrow> ?bk2 \<noteq> None"
          using backup_of_some(2) [of ?nb b s ?bk1] novo(1) by auto
        from k consider "(t, k) \<in> set ys" | "k = l" by auto
        then show ?thesis
        proof cases
          case 1
          then show ?thesis using pr [OF 1] novo rx keep by (auto intro: order_trans)
        qed (use novo in auto)
      next
        case velho
        have rx: "tem_rx s l \<Longrightarrow> l \<noteq> b \<Longrightarrow> ?bk2 \<noteq> None"
          using backup_of_some(2) [of ?nb l s bk] backup_of_some(1) [of ?bk1 s ?nb b] velho(1) by auto
        have best: "?best = b" using velho(1) by auto
        from k consider "(t, k) \<in> set ys" | "k = l" by auto
        then show ?thesis
        proof cases
          case 1
          then show ?thesis using pr [OF 1] keep unfolding best by auto
        next
          case 2
          then show ?thesis using velho(2,3) rx unfolding best by auto
        qed
      qed
      moreover have "(t, ?best) \<in> set (ys @ [(u, l)])"
        using b(2) junto by (cases rule: new_best_cases [of s b l]) auto
      ultimately show ?thesis unfolding st escolha_ok_def using min bk2 by auto
    qed
  qed
qed

lemma escolha_fold:
  assumes "escolha_ok s ys acc"
  shows "escolha_ok s (ys @ map (\<lambda>l. (d l, l)) ls) (fold (\<lambda>l. next_link_step s (d l) l) ls acc)"
  using assms
proof (induction ls arbitrary: ys acc)
  case (Cons l ls)
  then show ?case using Cons.IH [OF escolha_step [OF Cons.prems, of "d l" l]] by simp
qed simp

text \<open>All links of the schedule, with their offsets, in the order of the loops.\<close>

definition candidatos :: "sched \<Rightarrow> tsch_asn_t \<Rightarrow> nat list \<Rightarrow> (u16 \<times> nat) list" where
  "candidatos s asn is = concat (map (\<lambda>i. map (\<lambda>l. (distancia s asn i l, l)) (sf_links (sf_at s i))) is)"

lemma candidatos_iff: "(u, l) \<in> set (candidatos s asn is) \<longleftrightarrow>
    (\<exists>j \<in> set is. l \<in> set (sf_links (sf_at s j)) \<and> u = distancia s asn j l)"
  by (auto simp: candidatos_def)

text \<open>The offset of a link that is active after t slots, not more than its offset, is t.\<close>

lemma distancia_ativo:
  assumes "tam_ok s" and "i \<in> set (slotframe_list s)" and "l \<in> set (sf_links (sf_at s i))"
    and "1 \<le> unat t" and "t \<le> distancia s asn i l" and "ativo s i l (asn_val asn + unat t)"
  shows "t = distancia s asn i l"
proof (rule ccontr)
  assume "t \<noteq> distancia s asn i l"
  then have "unat t < unat (distancia s asn i l)" using assms(5) by (simp add: word_less_nat_alt [symmetric])
  then show False using distancia_spec(4) [OF assms(1-4)] assms(6) by blast
qed

lemma next_link_run:
  assumes ok: "tam_ok s" and un: "\<not> locked s"
  shows "\<exists>t best backup. tsch_schedule_get_next_active_link asn s = Some (best, Some t, backup) \<and>
    escolha_ok s (candidatos s asn (slotframe_list s)) (t, best, backup)"
proof -
  let ?f = "\<lambda>i acc. do {
            timeslot \<leftarrow> TSCH_ASN_MOD asn (sf_size (sf_at s i));
            Some (fold (\<lambda>l. next_link_step s
                     (time_to_timeslot (val (sf_size (sf_at s i))) (l_timeslot (link_at s l)) timeslot) l)
                   (sf_links (sf_at s i)) acc) }"
  have f: "?f i acc = Some (fold (\<lambda>l. next_link_step s (distancia s asn i l) l) (sf_links (sf_at s i)) acc)"
    if "i \<in> set (slotframe_list s)" for i acc
  proof -
    have "TSCH_ASN_DIVISOR_INIT (val (sf_size (sf_at s i))) = Some (sf_size (sf_at s i))"
      using ok that by (simp add: tam_ok_def)
    then obtain m where "TSCH_ASN_MOD asn (sf_size (sf_at s i)) = Some m" using asn_mod_run by blast
    then show ?thesis by (simp add: distancia_def)
  qed
  have "runs_to (loopM ?f (slotframe_list s) (0, None, None)) (escolha_ok s (candidatos s asn (slotframe_list s)))"
  proof (rule loopM_prefix [where P = "\<lambda>ys. escolha_ok s (candidatos s asn ys)"], goal_cases)
    case 1
    then show ?case by (simp add: candidatos_def escolha_ok_def)
  next
    case (2 ys i zs acc)
    then show ?case
      using f [of i acc] escolha_fold [OF 2(2), of "distancia s asn i" "sf_links (sf_at s i)"]
      by (simp add: candidatos_def)
  qed
  then show ?thesis
    using un by (auto simp: tsch_schedule_get_next_active_link_def runs_to_def)
qed

end
