(* ===== verification/Conflict_Graph.thy ===== *)
theory Conflict_Graph
  imports Tsch_Prelude
begin

text \<open>
  os/net/mac/tsch/conf.c and network-graph.h: the network graph, the conflict graph of its
  edges (mapGraphConf, fazMatrizConf), and the greedy choice of the edges that may transmit in
  the same slot (geraMaching, started from a node picked by DCFL).

  C ints are mathematical integers here: every value is a node number, an edge number or a
  packet count below MAX_NOS. The variable-length array parameters are lists of rows. The
  numbers rand() returns after srand(time(NULL)) are the parameter rnd of DCFL.
\<close>

section \<open>Definitions\<close>

definition MAX_NOS :: nat where "MAX_NOS = 6"

record ng =
  mat_adj :: "u8 list list"

subsection \<open>mapGraphConf: numbering the edges\<close>

definition mapGraphConf :: "ng \<Rightarrow> nat \<Rightarrow> int list list \<Rightarrow> int list list option" where
  "mapGraphConf mat tam_no alocado0 = do {
     (alocado, noConf) \<leftarrow> for_upt 1 tam_no (\<lambda>x. for_upt 1 tam_no (\<lambda>y (alocado, noConf). do {
         m \<leftarrow> rd2 (mat_adj mat) (int x) (int y);
         if m \<noteq> 0 then do {
           alocado \<leftarrow> wr2 alocado (int noConf) 0 (int x);
           alocado \<leftarrow> wr2 alocado (int noConf) 1 (int y);
           Some (alocado, Suc noConf) }
         else Some (alocado, noConf) })) (alocado0, 0);
     Some alocado }"

subsection \<open>fazMatrizConf: the conflict matrix\<close>

text \<open>Marking x and i in conflict, in both directions.\<close>

definition marca :: "nat \<Rightarrow> nat \<Rightarrow> int list list \<Rightarrow> int list list option" where
  "marca x i g = do { g \<leftarrow> wr2 g (int x) (int i) 1; wr2 g (int i) (int x) 1 }"

text \<open>The loop over i of both branches: every edge with v as an endpoint conflicts with x.\<close>

definition marca_vizinhos :: "nat \<Rightarrow> int list list \<Rightarrow> nat \<Rightarrow> int \<Rightarrow> int list list \<Rightarrow> int list list option" where
  "marca_vizinhos tam_arest mapConf x v = for_upt 0 tam_arest (\<lambda>i g. do {
     a \<leftarrow> rd2 mapConf (int i) 0;
     b \<leftarrow> rd2 mapConf (int i) 1;
     if a = v \<or> b = v then marca x i g else Some g })"

text \<open>The body of the loops over x, y and z.\<close>

definition faz_corpo :: "nat \<Rightarrow> int list list \<Rightarrow> nat \<Rightarrow> nat \<Rightarrow> nat \<Rightarrow> int list list \<Rightarrow> int list list option" where
  "faz_corpo n mapa x y z g = do {
         xz \<leftarrow> rd2 mapa (int x) (int z);
         y0 \<leftarrow> rd2 mapa (int y) 0;
         y1 \<leftarrow> rd2 mapa (int y) 1;
         g \<leftarrow> (if xz = y0 then do { g \<leftarrow> marca x y g; marca_vizinhos n mapa x y1 g }
              else Some g);
         if xz = y1 then do { g \<leftarrow> marca x y g; marca_vizinhos n mapa x y0 g }
         else Some g }"

definition fazMatrizConf :: "nat \<Rightarrow> int list list \<Rightarrow> int list list \<Rightarrow> int list list option" where
  "fazMatrizConf tam_arest mapConf grafoconf = do {
     g \<leftarrow> for_upt 0 tam_arest (\<lambda>x. for_upt 0 tam_arest (\<lambda>y g. wr2 g (int x) (int y) 0)) grafoconf;
     g \<leftarrow> for_upt 0 tam_arest (\<lambda>x. for_upt x tam_arest (\<lambda>y. for_upt 0 2 (faz_corpo tam_arest mapConf x y))) g;
     for_upt 0 tam_arest (\<lambda>x g. wr2 g (int x) (int x) 0) g }"

subsection \<open>geraMaching: the greedy choice\<close>

text \<open>
  The scan for the heaviest edge still open. The flag flg says that none was seen yet, and
  maior_peso keeps the edge number, -1 before the first.
\<close>

definition maior_aberta :: "nat \<Rightarrow> int list \<Rightarrow> int list list \<Rightarrow> int list list \<Rightarrow> int option" where
  "maior_aberta tam pacotes mapa vetor = do {
     (maior_peso, flg) \<leftarrow> for_upt 0 tam (\<lambda>x (maior_peso, flg). do {
       v0 \<leftarrow> rd2 vetor (int x) 0;
       v1 \<leftarrow> rd2 vetor (int x) 1;
       if v0 = 0 \<and> v1 \<noteq> 0 then
         (if flg then Some (int x, False)
          else do {
            nx \<leftarrow> rd2 mapa (int x) 0;
            px \<leftarrow> rdi pacotes nx;
            nm \<leftarrow> rd2 mapa maior_peso 0;
            pm \<leftarrow> rdi pacotes nm;
            Some (if px > pm then int x else maior_peso, flg) })
       else Some (maior_peso, flg) }) (-1, True);
     Some maior_peso }"

text \<open>Taking an edge: it is closed, and the edges in conflict with it are rejected.\<close>

definition aceita :: "nat \<Rightarrow> int list list \<Rightarrow> nat \<Rightarrow> int \<Rightarrow> int list list \<Rightarrow> int list list option" where
  "aceita tam graf_conf node maior_peso vetor = do {
     vetor \<leftarrow> wr2 vetor maior_peso 1 0;
     for_upt 0 tam (\<lambda>x vetor. do {
       c \<leftarrow> rd2 graf_conf maior_peso (int x);
       if c \<noteq> 0 \<and> x \<noteq> node then do { vetor \<leftarrow> wr2 vetor (int x) 0 1; wr2 vetor (int x) 1 0 }
       else Some vetor }) vetor }"

definition ha_aberta :: "nat \<Rightarrow> int list list \<Rightarrow> bool option" where
  "ha_aberta tam vetor = for_upt 0 tam (\<lambda>x cont. do {
     v1 \<leftarrow> rd2 vetor (int x) 1;
     Some (if v1 \<noteq> 0 then True else cont) }) False"

text \<open>One turn of while(cont), and the loop itself.\<close>

definition gera_passo ::
  "nat \<Rightarrow> int list \<Rightarrow> int list list \<Rightarrow> int list list \<Rightarrow> nat \<Rightarrow> int list list \<Rightarrow> int list list option" where
  "gera_passo tam pacotes graf_conf mapa node vetor = do {
     maior_peso \<leftarrow> maior_aberta tam pacotes mapa vetor;
     if maior_peso \<noteq> -1 then aceita tam graf_conf node maior_peso vetor else Some vetor }"

partial_function (option) gera_laco ::
  "nat \<Rightarrow> int list \<Rightarrow> int list list \<Rightarrow> int list list \<Rightarrow> nat \<Rightarrow> int list list \<Rightarrow> int list list option" where
  "gera_laco tam pacotes graf_conf mapa node vetor = do {
     vetor \<leftarrow> gera_passo tam pacotes graf_conf mapa node vetor;
     cont \<leftarrow> ha_aberta tam vetor;
     if cont then gera_laco tam pacotes graf_conf mapa node vetor else Some vetor }"

declare gera_laco.simps [code]

text \<open>The code before the loop: every edge open, then node taken and its conflicts rejected.\<close>

definition gera_inicio :: "nat \<Rightarrow> int list list \<Rightarrow> nat \<Rightarrow> int list list \<Rightarrow> int list list option" where
  "gera_inicio tam graf_conf node vetor = do {
     vetor \<leftarrow> for_upt 0 tam (\<lambda>x vetor. do { vetor \<leftarrow> wr2 vetor (int x) 0 0; wr2 vetor (int x) 1 1 }) vetor;
     vetor \<leftarrow> for_upt 0 tam (\<lambda>x vetor. do {
       c \<leftarrow> rd2 graf_conf (int node) (int x);
       if c \<noteq> 0 then do { vetor \<leftarrow> wr2 vetor (int x) 0 1; wr2 vetor (int x) 1 0 } else Some vetor }) vetor;
     vetor \<leftarrow> wr2 vetor (int node) 0 0;
     wr2 vetor (int node) 1 0 }"

text \<open>The code after the loop: the accepted edges with packets enter the matching.\<close>

definition preenche :: "nat \<Rightarrow> int list \<Rightarrow> int list list \<Rightarrow> int list list \<Rightarrow> ng \<Rightarrow> ng option" where
  "preenche tam pacotes mapa vetor = for_upt 0 tam (\<lambda>x res. do {
     v0 \<leftarrow> rd2 vetor (int x) 0;
     if v0 = 0 then do {
       a \<leftarrow> rd2 mapa (int x) 0;
       p \<leftarrow> rdi pacotes a;
       if p > 0 then do {
         b \<leftarrow> rd2 mapa (int x) 1;
         m \<leftarrow> wr2 (mat_adj res) a b 1;
         Some (res\<lparr>mat_adj := m\<rparr>) }
       else Some res }
     else Some res })"

definition limpa :: "nat \<Rightarrow> ng \<Rightarrow> ng option" where
  "limpa tam_rede = for_upt 1 tam_rede (\<lambda>x. for_upt 1 tam_rede (\<lambda>y res. do {
     m \<leftarrow> wr2 (mat_adj res) (int x) (int y) 0;
     Some (res\<lparr>mat_adj := m\<rparr>) }))"

definition geraMaching ::
  "nat \<Rightarrow> nat \<Rightarrow> int list \<Rightarrow> int list list \<Rightarrow> int list list \<Rightarrow> nat \<Rightarrow> ng \<Rightarrow> int list list
   \<Rightarrow> (ng \<times> int list list) option" where
  "geraMaching tam tam_rede pacotes graf_conf mapa node resultado vetor = do {
     resultado \<leftarrow> limpa tam_rede resultado;
     vetor \<leftarrow> gera_inicio tam graf_conf node vetor;
     vetor \<leftarrow> gera_laco tam pacotes graf_conf mapa node vetor;
     resultado \<leftarrow> preenche tam pacotes mapa vetor resultado;
     Some (resultado, vetor) }"

subsection \<open>DCFL: the node to start from\<close>

definition dcfl_ruim :: "nat \<Rightarrow> int \<Rightarrow> int \<Rightarrow> bool" where
  "dcfl_ruim num_no raiz no_atual \<longleftrightarrow> no_atual = raiz \<or> no_atual \<ge> int num_no - 1 \<or> no_atual \<le> 0"

partial_function (option) dcfl_sorteia :: "nat \<Rightarrow> int \<Rightarrow> (nat \<Rightarrow> nat) \<Rightarrow> nat \<Rightarrow> int option" where
  "dcfl_sorteia num_no raiz rnd k =
     (if num_no = 0 then None
      else (let no_atual = int (rnd k mod num_no) in
        if dcfl_ruim num_no raiz no_atual then dcfl_sorteia num_no raiz rnd (Suc k)
        else Some no_atual))"

declare dcfl_sorteia.simps [code]

definition dcfl_maior :: "nat \<Rightarrow> int list \<Rightarrow> int \<Rightarrow> int \<Rightarrow> int option" where
  "dcfl_maior num_no pacotes raiz = for_upt 1 num_no (\<lambda>x no_atual. do {
     px \<leftarrow> rd pacotes x;
     pn \<leftarrow> rdi pacotes no_atual;
     Some (if px > pn \<and> int x \<noteq> raiz then int x else no_atual) })"

text \<open>The first edge that leaves no_atual, None when there is none.\<close>

fun dcfl_aresta :: "int list list \<Rightarrow> int \<Rightarrow> nat list \<Rightarrow> nat option option" where
  "dcfl_aresta mapa no_atual [] = Some None"
| "dcfl_aresta mapa no_atual (x # xs) = do {
     a \<leftarrow> rd2 mapa (int x) 0;
     if a = no_atual then Some (Some x) else dcfl_aresta mapa no_atual xs }"

definition DCFL ::
  "(nat \<Rightarrow> nat) \<Rightarrow> nat \<Rightarrow> nat \<Rightarrow> int list \<Rightarrow> int list list \<Rightarrow> int list list \<Rightarrow> int \<Rightarrow> ng
   \<Rightarrow> int list list \<Rightarrow> (ng \<times> int list list) option" where
  "DCFL rnd num_aresta num_no pacotes graf_conf mapa raiz matching vetor = do {
     no_atual \<leftarrow> dcfl_sorteia num_no raiz rnd 0;
     no_atual \<leftarrow> dcfl_maior num_no pacotes raiz no_atual;
     ar \<leftarrow> dcfl_aresta mapa no_atual [0..<num_aresta];
     (case ar of
        Some x \<Rightarrow> geraMaching num_aresta num_no pacotes graf_conf mapa x matching vetor
      | None \<Rightarrow> Some (matching, vetor)) }"

section \<open>mapGraphConf\<close>

text \<open>The edges of the graph in row-major order, node 0 left out.\<close>

definition arestas :: "ng \<Rightarrow> nat \<Rightarrow> (nat \<times> nat) list" where
  "arestas mat n = filter (\<lambda>(x, y). cell (mat_adj mat) x y \<noteq> 0) (List.product [1..<n] [1..<n])"

abbreviation linha :: "nat \<times> nat \<Rightarrow> int list" where
  "linha e \<equiv> [int (fst e), int (snd e)]"

lemma arestas_range: "(x, y) \<in> set (arestas mat n) \<Longrightarrow> 1 \<le> x \<and> x < n \<and> 1 \<le> y \<and> y < n"
  by (auto simp: arestas_def)

lemma distinct_arestas: "distinct (arestas mat n)"
  unfolding arestas_def by (intro distinct_filter distinct_product) auto

lemma upd2_row:
  assumes "length al = k" and "length r = 2"
  shows "upd2 (upd2 (al @ r # rest) k 0 a) k (Suc 0) b = al @ [a, b] # rest"
proof -
  from assms(2) obtain u v where "r = [u, v]"
    by (metis (no_types, opaque_lifting) One_nat_def Suc_1 Suc_length_conv length_0_conv)
  then show ?thesis using assms(1) by (auto simp: upd2_def list_update_append nth_append)
qed

lemma mapGraphConf_spec:
  assumes m: "dims r r (mat_adj mat)" "n \<le> r" and al: "dims t 2 al"
    and fits: "length (arestas mat n) \<le> t"
  shows "mapGraphConf mat n al = Some (map linha (arestas mat n) @ drop (length (arestas mat n)) al)"
proof -
  let ?p = "\<lambda>(x, y). cell (mat_adj mat) x y \<noteq> 0"
  let ?P = "\<lambda>ys (al', k). al' = map linha (filter ?p ys) @ drop (length (filter ?p ys)) al
                 \<and> k = length (filter ?p ys)"
  let ?f = "\<lambda>x y (alocado, noConf). do {
         m \<leftarrow> rd2 (mat_adj mat) (int x) (int y);
         if m \<noteq> 0 then do {
           alocado \<leftarrow> wr2 alocado (int noConf) 0 (int x);
           alocado \<leftarrow> wr2 alocado (int noConf) 1 (int y);
           Some (alocado, Suc noConf) }
         else Some (alocado, noConf) }"
  have loop: "runs_to (loopM (\<lambda>(x, y). ?f x y) (List.product [1..<n] [1..<n]) (al, 0))
      (?P (List.product [1..<n] [1..<n]))"
  proof (rule loopM_prefix, goal_cases)
    case 1
    then show ?case by simp
  next
    case (2 ys i zs s)
    obtain x y where i: "i = (x, y)" by force
    have "i \<in> set (List.product [1..<n] [1..<n])" using 2(1) by simp
    then have xy: "x < r" "y < r" using m(2) i by auto
    let ?es = "filter ?p ys"
    have s: "s = (map linha ?es @ drop (length ?es) al, length ?es)" using 2(2) by (cases s) simp
    show ?case
    proof (cases "cell (mat_adj mat) x y = 0")
      case True
      then show ?thesis using m xy i s by simp
    next
      case False
      have "arestas mat n = ?es @ (x, y) # filter ?p zs"
        using 2(1) False i by (simp add: arestas_def)
      then have k: "length ?es < t" using fits by simp
      have row: "length (al ! length ?es) = 2" using al k by (simp add: dims_row)
      have dr: "drop (length ?es) al = al ! length ?es # drop (Suc (length ?es)) al"
        using k al by (simp add: Cons_nth_drop_Suc dims_length)
      let ?al = "map linha ?es @ drop (length ?es) al"
      have d: "dims t 2 ?al" using al k by (auto simp: dims_def dest: in_set_dropD)
      have u: "upd2 (upd2 ?al (length ?es) 0 (int x)) (length ?es) (Suc 0) (int y)
          = map linha (?es @ [(x, y)]) @ drop (Suc (length ?es)) al"
        unfolding dr using upd2_row [of "map linha ?es" "length ?es" "al ! length ?es"] row by simp
      show ?thesis
        using m xy i s False k d dims_upd2 [OF d, of "length ?es" 0 "int x"]
        by (simp add: u [simplified])
    qed
  qed
  then show ?thesis
    unfolding mapGraphConf_def for_upt_def loopM_product
    by (auto simp: arestas_def runs_to_def)
qed

section \<open>fazMatrizConf\<close>

text \<open>
  Edge i has v as an endpoint; and x marks i, when some edge k numbered at least x has an
  endpoint of x at one end and i at (or next to) the other end.
\<close>

definition toca :: "int list list \<Rightarrow> nat \<Rightarrow> int \<Rightarrow> bool" where
  "toca mapa i v \<longleftrightarrow> cell mapa i 0 = v \<or> cell mapa i 1 = v"

definition marcas :: "int list list \<Rightarrow> nat \<Rightarrow> nat \<Rightarrow> nat \<Rightarrow> nat \<Rightarrow> (nat \<times> nat) set" where
  "marcas mapa n x y z =
     (if cell mapa x z = cell mapa y 0 then insert (x, y) {(x, i) | i. i < n \<and> toca mapa i (cell mapa y 1)} else {})
   \<union> (if cell mapa x z = cell mapa y 1 then insert (x, y) {(x, i) | i. i < n \<and> toca mapa i (cell mapa y 0)} else {})"

definition marcado :: "int list list \<Rightarrow> nat \<Rightarrow> nat \<Rightarrow> nat \<Rightarrow> bool" where
  "marcado mapa n x i \<longleftrightarrow> (\<exists>k. x \<le> k \<and> k < n \<and>
     (toca mapa x (cell mapa k 0) \<and> (i = k \<or> toca mapa i (cell mapa k 1)) \<or>
      toca mapa x (cell mapa k 1) \<and> (i = k \<or> toca mapa i (cell mapa k 0))))"

definition conflito :: "int list list \<Rightarrow> nat \<Rightarrow> nat \<Rightarrow> nat \<Rightarrow> bool" where
  "conflito mapa n x i \<longleftrightarrow> x \<noteq> i \<and> (marcado mapa n x i \<or> marcado mapa n i x)"

text \<open>The matrix g holds the symmetric closure of the pairs M.\<close>

definition rel_mat :: "nat \<Rightarrow> (nat \<times> nat) set \<Rightarrow> int list list \<Rightarrow> bool" where
  "rel_mat n M g \<longleftrightarrow> dims n n g \<and>
     (\<forall>p < n. \<forall>q < n. cell g p q = (if (p, q) \<in> M \<or> (q, p) \<in> M then 1 else 0))"

lemma rel_mat_dims: "rel_mat n M g \<Longrightarrow> dims n n g"
  by (simp add: rel_mat_def)

lemma cell_upd2_sym:
  assumes "dims n n g" and "dims n n (upd2 g x i v)" and "x < n" and "i < n" and "p < n" and "q < n"
  shows "cell (upd2 (upd2 g x i v) i x v) p q = (if i = p \<and> x = q \<or> x = p \<and> i = q then v else cell g p q)"
  by (subst cell_upd2 [OF assms(2,4,3,5,6)], subst cell_upd2 [OF assms(1,3,4,5,6)])
    (cases "i = p"; cases "x = q"; simp)

lemma marca_rel:
  assumes "rel_mat n M g" and x: "x < n" and i: "i < n"
  shows "runs_to (marca x i g) (rel_mat n (insert (x, i) M))"
proof -
  have d: "dims n n g" using assms(1) by (rule rel_mat_dims)
  note d' = dims_upd2 [OF d, of x i 1]
  let ?g = "upd2 (upd2 g x i 1) i x 1"
  have c: "cell ?g p q = (if i = p \<and> x = q \<or> x = p \<and> i = q then 1 else cell g p q)"
    if "p < n" "q < n" for p q
    by (rule cell_upd2_sym [OF d d' x i that])
  have "rel_mat n (insert (x, i) M) ?g"
    using assms(1) dims_upd2 [OF d', of i x 1] c unfolding rel_mat_def by auto
  moreover have "marca x i g = Some ?g"
    using d d' x i by (simp add: marca_def)
  ultimately show ?thesis by simp
qed

lemma marca_vizinhos_rel:
  assumes g: "rel_mat n M g" and x: "x < n" and m: "dims n 2 mapa"
  shows "runs_to (marca_vizinhos n mapa x v g) (rel_mat n (M \<union> {(x, i) | i. i < n \<and> toca mapa i v}))"
proof -
  let ?P = "\<lambda>j. rel_mat n (M \<union> {(x, i) | i. i < j \<and> toca mapa i v})"
  have grow: "{(x, i) | i. i < Suc j \<and> toca mapa i v} =
      (if toca mapa j v then insert (x, j) {(x, i) | i. i < j \<and> toca mapa i v}
       else {(x, i) | i. i < j \<and> toca mapa i v})" for j
    by (auto simp: less_Suc_eq)
  show ?thesis
    unfolding marca_vizinhos_def
  proof (rule for_upt_inv [of 0 n ?P])
    show "?P 0 g" using g by simp
    fix j h
    assume "j < n" and h: "?P j h"
    have t: "cell mapa j 0 = v \<or> cell mapa j (Suc 0) = v \<longleftrightarrow> toca mapa j v"
      by (simp add: toca_def)
    show "runs_to (do { a \<leftarrow> rd2 mapa (int j) 0; b \<leftarrow> rd2 mapa (int j) 1;
            if a = v \<or> b = v then marca x j h else Some h }) (?P (Suc j))"
      using m \<open>j < n\<close> h marca_rel [OF h x \<open>j < n\<close>] by (simp add: t grow)
  qed simp
qed

lemma faz_ramo:
  assumes g: "rel_mat n M g" and x: "x < n" and y: "y < n" and m: "dims n 2 mapa"
  shows "runs_to (do { g \<leftarrow> marca x y g; marca_vizinhos n mapa x v g })
           (rel_mat n (insert (x, y) M \<union> {(x, i) | i. i < n \<and> toca mapa i v}))"
  unfolding runs_to_bind
  by (rule runs_to_mono [OF marca_rel [OF g x y]]) (rule marca_vizinhos_rel [OF _ x m])

definition ramo :: "int list list \<Rightarrow> nat \<Rightarrow> nat \<Rightarrow> nat \<Rightarrow> bool \<Rightarrow> int \<Rightarrow> (nat \<times> nat) set" where
  "ramo mapa n x y c v = (if c then insert (x, y) {(x, i) | i. i < n \<and> toca mapa i v} else {})"

lemma faz_ramo_if:
  assumes g: "rel_mat n M g" and x: "x < n" and y: "y < n" and m: "dims n 2 mapa"
  shows "runs_to (if c then do { g \<leftarrow> marca x y g; marca_vizinhos n mapa x v g } else Some g)
           (rel_mat n (M \<union> ramo mapa n x y c v))"
proof (cases c)
  case True
  have "insert (x, y) M \<union> {(x, i) | i. i < n \<and> toca mapa i v} = M \<union> ramo mapa n x y c v"
    using True by (auto simp: ramo_def)
  then show ?thesis using faz_ramo [OF assms, of v] True by simp
qed (use g in \<open>simp add: ramo_def\<close>)

lemma faz_corpo_rel:
  assumes g: "rel_mat n M g" and x: "x < n" and y: "y < n" and z: "z < 2" and m: "dims n 2 mapa"
  shows "runs_to (faz_corpo n mapa x y z g) (rel_mat n (M \<union> marcas mapa n x y z))"
proof -
  let ?c0 = "cell mapa x z = cell mapa y 0" and ?c1 = "cell mapa x z = cell mapa y 1"
  have e: "M \<union> ramo mapa n x y ?c0 (cell mapa y 1) \<union> ramo mapa n x y ?c1 (cell mapa y 0)
         = M \<union> marcas mapa n x y z"
    unfolding marcas_def ramo_def by (rule Un_assoc)
  have "faz_corpo n mapa x y z g = do {
      g \<leftarrow> (if ?c0 then do { g \<leftarrow> marca x y g; marca_vizinhos n mapa x (cell mapa y 1) g } else Some g);
      if ?c1 then do { g \<leftarrow> marca x y g; marca_vizinhos n mapa x (cell mapa y 0) g } else Some g }"
    unfolding faz_corpo_def using m x y z by simp
  then show ?thesis
    unfolding e [symmetric]
    by (simp only: runs_to_bind)
      (rule runs_to_mono [OF faz_ramo_if [OF g x y m]], rule faz_ramo_if [OF _ x y m])
qed

text \<open>All marks of the triple loop, and their closed form.\<close>

lemma toca_z: "(\<exists>z<2. cell mapa x z = v) \<longleftrightarrow> toca mapa x v"
  by (auto simp: toca_def less_2_cases_iff)

lemma in_marcas:
  "(x, i) \<in> marcas mapa n x y z \<longleftrightarrow>
     cell mapa x z = cell mapa y 0 \<and> (i = y \<or> i < n \<and> toca mapa i (cell mapa y 1)) \<or>
     cell mapa x z = cell mapa y 1 \<and> (i = y \<or> i < n \<and> toca mapa i (cell mapa y 0))"
  by (auto simp: marcas_def)

lemma marcas_fst: "(x, i) \<in> marcas mapa n x' y z \<Longrightarrow> x = x'"
  by (auto simp: marcas_def split: if_splits)

lemma marcas_marcado:
  assumes "x < n"
  shows "(\<exists>y z. x \<le> y \<and> y < n \<and> z < 2 \<and> (x, i) \<in> marcas mapa n x y z) \<longleftrightarrow> i < n \<and> marcado mapa n x i"
proof -
  have "(\<exists>y z. x \<le> y \<and> y < n \<and> z < 2 \<and> (x, i) \<in> marcas mapa n x y z) \<longleftrightarrow>
    (\<exists>y. x \<le> y \<and> y < n \<and>
      ((\<exists>z<2. cell mapa x z = cell mapa y 0) \<and> (i = y \<or> i < n \<and> toca mapa i (cell mapa y 1)) \<or>
       (\<exists>z<2. cell mapa x z = cell mapa y 1) \<and> (i = y \<or> i < n \<and> toca mapa i (cell mapa y 0))))"
    unfolding in_marcas by blast
  then show ?thesis
    unfolding toca_z marcado_def by (metis (no_types, lifting))
qed

lemma fazMatrizConf_spec:
  assumes m: "dims n 2 mapa" and g0: "dims n n g0"
  shows "\<exists>g. fazMatrizConf n mapa g0 = Some g \<and> dims n n g \<and>
    (\<forall>x < n. \<forall>i < n. cell g x i = (if conflito mapa n x i then 1 else 0))"
proof -
  let ?xs = "concat (map (\<lambda>x. map (Pair x) (List.product [x..<n] [0..<2])) [0..<n])"
  let ?M = "\<lambda>ys. \<Union>(x, y, z) \<in> set ys. marcas mapa n x y z"
  have 1: "runs_to (for_upt 0 n (\<lambda>x. for_upt 0 n (\<lambda>y g. wr2 g (int x) (int y) 0)) g0) (rel_mat n {})"
  proof -
    let ?P = "\<lambda>ys g. dims n n g \<and> (\<forall>(p, q) \<in> set ys. cell g p q = 0)"
    have "runs_to (loopM (\<lambda>(x, y) g. wr2 g (int x) (int y) 0) (List.product [0..<n] [0..<n]) g0)
        (?P (List.product [0..<n] [0..<n]))"
    proof (rule loopM_prefix, goal_cases)
      case 1
      then show ?case using g0 by simp
    next
      case (2 ys i zs g)
      obtain x y where i: "i = (x, y)" by force
      have *: "set ys \<union> {i} \<subseteq> set (List.product [0..<n] [0..<n])" using 2(1) by auto
      then have xy: "x < n" "y < n" using i by auto
      have "cell (upd2 g x y 0) p q = 0" if "(p, q) \<in> set (ys @ [i])" for p q
      proof -
        have pq: "p < n" "q < n" using * that by auto
        have "dims n n g" using 2(2) by simp
        from cell_upd2 [OF this xy pq, of 0] show ?thesis using 2(2) that i by auto
      qed
      then show ?case using 2(2) xy i dims_upd2 [of n n g x y 0] by auto
    qed
    then show ?thesis
      unfolding for_upt_def loopM_product by (rule runs_to_mono) (auto simp: rel_mat_def)
  qed
  have 2: "runs_to (for_upt 0 n (\<lambda>x. for_upt x n (\<lambda>y. for_upt 0 2 (faz_corpo n mapa x y))) g)
      (rel_mat n (?M ?xs))" if "rel_mat n {} g" for g
  proof -
    have "runs_to (loopM (\<lambda>(x, y, z). faz_corpo n mapa x y z) ?xs g) (rel_mat n (?M ?xs))"
    proof (rule loopM_prefix [where P = "\<lambda>ys. rel_mat n (?M ys)"], goal_cases)
      case 1
      then show ?case using that by simp
    next
      case (2 ys i zs h)
      obtain x y z where i: "i = (x, y, z)" by (cases i)
      have "i \<in> set ?xs" using 2(1) by simp
      then have "x < n" "y < n" "z < 2" using i by auto
      then show ?case using faz_corpo_rel [OF 2(2) _ _ _ m, of x y z] i by (simp add: Un_commute)
    qed
    then show ?thesis
      unfolding for_upt_def loopM_product loopM_Sigma by (simp add: case_prod_beta' split_def)
  qed
  have 3: "runs_to (for_upt 0 n (\<lambda>x g. wr2 g (int x) (int x) 0) g)
      (\<lambda>h. dims n n h \<and> (\<forall>p < n. \<forall>q < n. cell h p q = (if p = q then 0 else cell g p q)))"
    if "dims n n g" for g
  proof (rule for_upt_post [where P = "\<lambda>j h. dims n n h \<and>
      (\<forall>p < n. \<forall>q < n. cell h p q = (if p = q \<and> p < j then 0 else cell g p q))"], goal_cases)
    case (2 j h)
    then have h: "dims n n h" by simp
    have "cell (upd2 h j j 0) p q = (if p = q \<and> p < Suc j then 0 else cell g p q)"
      if "p < n" "q < n" for p q
      unfolding cell_upd2 [OF h \<open>j < n\<close> \<open>j < n\<close> that] using 2(3) that by auto
    then show ?case using h 2(2) dims_upd2 [OF h, of j j 0] by simp
  qed (use that in auto)
  have xs: "set ?xs = {(x, y, z). x < n \<and> x \<le> y \<and> y < n \<and> z < 2}"
    by (auto simp: image_iff)
  have M: "(x, i) \<in> ?M ?xs \<longleftrightarrow> marcado mapa n x i" if "x < n" "i < n" for x i
  proof -
    have "(x, i) \<in> ?M ?xs \<longleftrightarrow>
        (\<exists>y z. x \<le> y \<and> y < n \<and> z < 2 \<and> (x, i) \<in> marcas mapa n x y z)"
    proof
      assume "(x, i) \<in> ?M ?xs"
      then obtain x' y z where xyz: "(x', y, z) \<in> set ?xs" "(x, i) \<in> marcas mapa n x' y z"
        by blast
      have "x' = x" using marcas_fst [OF xyz(2)] by simp
      then show "\<exists>y z. x \<le> y \<and> y < n \<and> z < 2 \<and> (x, i) \<in> marcas mapa n x y z"
        using xyz unfolding xs by blast
    next
      assume "\<exists>y z. x \<le> y \<and> y < n \<and> z < 2 \<and> (x, i) \<in> marcas mapa n x y z"
      then show "(x, i) \<in> ?M ?xs" using that unfolding xs by blast
    qed
    then show ?thesis using marcas_marcado [OF that(1)] that by simp
  qed
  have post: "dims n n h \<and> (\<forall>x<n. \<forall>i<n. cell h x i = (if conflito mapa n x i then 1 else 0))"
    if "rel_mat n (?M ?xs) g"
      and "dims n n h \<and> (\<forall>p < n. \<forall>q < n. cell h p q = (if p = q then 0 else cell g p q))" for g h
  proof -
    have "cell g x i = (if marcado mapa n x i \<or> marcado mapa n i x then 1 else 0)"
      if "x < n" "i < n" for x i
      using \<open>rel_mat n _ g\<close> M [OF that] M [OF that(2,1)] that by (simp add: rel_mat_def)
    then show ?thesis using that(2) by (simp add: conflito_def)
  qed
  have "runs_to (fazMatrizConf n mapa g0)
      (\<lambda>h. dims n n h \<and> (\<forall>x<n. \<forall>i<n. cell h x i = (if conflito mapa n x i then 1 else 0)))"
    unfolding fazMatrizConf_def runs_to_bind
    by (rule runs_to_mono [OF 1], rule runs_to_mono [OF 2], assumption)
      (rule runs_to_mono [OF 3], erule rel_mat_dims, erule (1) post)
  then show ?thesis by (simp add: runs_to_def)
qed


section \<open>geraMaching\<close>

text \<open>The two columns of vetor, and the three states of an edge they encode.\<close>

definition c0 :: "int list list \<Rightarrow> nat \<Rightarrow> int" where "c0 v x = cell v x 0"
definition c1 :: "int list list \<Rightarrow> nat \<Rightarrow> int" where "c1 v x = cell v x 1"

definition aberta :: "int list list \<Rightarrow> nat \<Rightarrow> bool" where
  "aberta v x \<longleftrightarrow> c0 v x = 0 \<and> c1 v x = 1"
definition escolhida :: "int list list \<Rightarrow> nat \<Rightarrow> bool" where
  "escolhida v x \<longleftrightarrow> c0 v x = 0 \<and> c1 v x = 0"
definition rejeitada :: "int list list \<Rightarrow> nat \<Rightarrow> bool" where
  "rejeitada v x \<longleftrightarrow> c0 v x = 1 \<and> c1 v x = 0"

lemmas estado_defs = aberta_def escolhida_def rejeitada_def

lemma rd2_c0 [simp]: "dims n 2 v \<Longrightarrow> x < n \<Longrightarrow> rd2 v (int x) 0 = Some (c0 v x)"
  by (simp add: c0_def)

lemma rd2_c1 [simp]: "dims n 2 v \<Longrightarrow> x < n \<Longrightarrow> rd2 v (int x) 1 = Some (c1 v x)"
  by (simp add: c1_def)

text \<open>Writing both columns of a row.\<close>

definition par :: "nat \<Rightarrow> int \<Rightarrow> int \<Rightarrow> int list list \<Rightarrow> int list list" where
  "par x a b v = upd2 (upd2 v x 0 a) x 1 b"

lemma dims_par: "dims n 2 v \<Longrightarrow> dims n 2 (par x a b v)"
  by (simp add: par_def dims_upd2)

lemma wr2_par:
  assumes "dims n 2 v" and "x < n"
  shows "do { v \<leftarrow> wr2 v (int x) 0 a; wr2 v (int x) 1 b } = Some (par x a b v)"
  using assms dims_upd2 [OF assms(1), of x 0 a] by (simp add: par_def)

lemma c_par:
  assumes "dims n 2 v" and "x < n" and "y < n"
  shows "c0 (par x a b v) y = (if y = x then a else c0 v y)"
    and "c1 (par x a b v) y = (if y = x then b else c1 v y)"
  unfolding c0_def c1_def par_def
  by (subst cell_upd2 [of n 2], use assms in \<open>auto intro: dims_upd2 simp: cell_upd2 [of n 2]\<close>)+

text \<open>The invariant of the loop: an independent set of chosen edges, node among them.\<close>

definition ginv :: "nat \<Rightarrow> int list list \<Rightarrow> nat \<Rightarrow> int list list \<Rightarrow> bool" where
  "ginv n gc node v \<longleftrightarrow> dims n 2 v \<and> escolhida v node \<and>
     (\<forall>x < n. aberta v x \<or> escolhida v x \<or> rejeitada v x) \<and>
     (\<forall>x < n. \<forall>y < n. escolhida v x \<longrightarrow> escolhida v y \<or> aberta v y \<longrightarrow> cell gc x y = 0) \<and>
     (\<forall>x < n. rejeitada v x \<longrightarrow> (\<exists>y < n. escolhida v y \<and> cell gc x y \<noteq> 0))"

definition sym_conf :: "nat \<Rightarrow> int list list \<Rightarrow> bool" where
  "sym_conf n gc \<longleftrightarrow> dims n n gc \<and> (\<forall>x < n. cell gc x x = 0) \<and>
     (\<forall>x < n. \<forall>y < n. cell gc x y = cell gc y x)"

text \<open>Marking every x of the range that satisfies a condition as rejected.\<close>

lemma rejeita_loop:
  assumes v: "dims n 2 v" and cond: "\<And>x v. x < n \<Longrightarrow> dims n 2 v \<Longrightarrow> f x v =
      (if C x then do { v \<leftarrow> wr2 v (int x) 0 a; wr2 v (int x) 1 b } else Some v)"
  shows "runs_to (for_upt 0 n f v) (\<lambda>w. dims n 2 w \<and>
     (\<forall>y < n. c0 w y = (if C y then a else c0 v y) \<and> c1 w y = (if C y then b else c1 v y)))"
proof (rule for_upt_post [where P = "\<lambda>j w. dims n 2 w \<and>
     (\<forall>y < n. c0 w y = (if C y \<and> y < j then a else c0 v y) \<and> c1 w y = (if C y \<and> y < j then b else c1 v y))"],
    goal_cases)
  case (2 j w)
  then have w: "dims n 2 w" and j: "j < n" by auto
  show ?case
  proof (cases "C j")
    case True
    have "c0 (par j a b w) y = (if C y \<and> y < Suc j then a else c0 v y) \<and>
          c1 (par j a b w) y = (if C y \<and> y < Suc j then b else c1 v y)" if "y < n" for y
      unfolding c_par [OF w j that] using True 2(3) that by (cases "y = j") (auto simp: less_Suc_eq)
    then show ?thesis
      unfolding cond [OF j w] using True wr2_par [OF w j] dims_par [OF w] by simp
  next
    case False
    then show ?thesis unfolding cond [OF j w] using 2(3) by (auto simp: less_Suc_eq)
  qed
qed (use v in auto)

lemma gera_inicio_ginv:
  assumes v: "dims n 2 v" and gc: "sym_conf n gc" and node: "node < n"
  shows "runs_to (gera_inicio n gc node v) (ginv n gc node)"
proof -
  have gcd: "dims n n gc" using gc by (simp add: sym_conf_def)
  let ?f1 = "\<lambda>x vetor. do { vetor \<leftarrow> wr2 vetor (int x) 0 0; wr2 vetor (int x) 1 1 }"
  let ?f2 = "\<lambda>x vetor. do { c \<leftarrow> rd2 gc (int node) (int x);
       if c \<noteq> 0 then do { vetor \<leftarrow> wr2 vetor (int x) 0 1; wr2 vetor (int x) 1 0 } else Some vetor }"
  have 1: "runs_to (for_upt 0 n ?f1 v) (\<lambda>w. dims n 2 w \<and> (\<forall>y < n. c0 w y = 0 \<and> c1 w y = 1))"
    using rejeita_loop [OF v, of ?f1 "\<lambda>_. True" 0 1] by simp
  have 2: "runs_to (for_upt 0 n ?f2 w) (\<lambda>u. dims n 2 u \<and>
       (\<forall>y < n. c0 u y = (if cell gc node y \<noteq> 0 then 1 else 0) \<and> c1 u y = (if cell gc node y \<noteq> 0 then 0 else 1)))"
    if "dims n 2 w" "\<forall>y < n. c0 w y = 0 \<and> c1 w y = 1" for w
    using rejeita_loop [OF that(1), of ?f2 "\<lambda>x. cell gc node x \<noteq> 0" 1 0] that(2) gcd node
    by (auto elim!: runs_to_mono)
  have 3: "runs_to (do { u \<leftarrow> wr2 u (int node) 0 0; wr2 u (int node) 1 0 }) (ginv n gc node)"
    if u: "dims n 2 u" and "\<forall>y < n. c0 u y = (if cell gc node y \<noteq> 0 then 1 else 0)
         \<and> c1 u y = (if cell gc node y \<noteq> 0 then 0 else 1)" for u
  proof -
    let ?u = "par node 0 0 u"
    have c: "c0 ?u y = (if y = node then 0 else if cell gc node y \<noteq> 0 then 1 else 0)"
      "c1 ?u y = (if y = node then 0 else if cell gc node y \<noteq> 0 then 0 else 1)" if "y < n" for y
      unfolding c_par [OF u node that] using \<open>\<forall>y < n. _\<close> that by auto
    have st: "aberta ?u y \<longleftrightarrow> y \<noteq> node \<and> cell gc node y = 0" "escolhida ?u y \<longleftrightarrow> y = node"
      "rejeitada ?u y \<longleftrightarrow> y \<noteq> node \<and> cell gc node y \<noteq> 0" if "y < n" for y
      using c [OF that] by (auto simp: estado_defs)
    have "cell gc x y = 0" if "x < n" "y < n" "escolhida ?u x" "escolhida ?u y \<or> aberta ?u y" for x y
      using that gc st [OF that(1)] st [OF that(2)] by (auto simp: sym_conf_def)
    moreover have "\<exists>y < n. escolhida ?u y \<and> cell gc x y \<noteq> 0" if "x < n" "rejeitada ?u x" for x
      using that gc st [OF node] st [OF that(1)] node
      by (intro exI [of _ node]) (simp add: sym_conf_def)
    moreover have "aberta ?u x \<or> escolhida ?u x \<or> rejeitada ?u x" if "x < n" for x
      using st [OF that] by blast
    moreover have "escolhida ?u node" using st(2) [OF node] by simp
    ultimately have "ginv n gc node ?u"
      unfolding ginv_def using dims_par [OF u] by blast
    then show ?thesis using wr2_par [OF u node] by simp
  qed
  show ?thesis
    unfolding gera_inicio_def runs_to_bind
    by (rule runs_to_mono [OF 1], erule conjE, rule runs_to_mono [OF 2], assumption+, erule conjE)
      (rule 3 [unfolded runs_to_bind])
qed


text \<open>The scan returns an open edge of greatest weight, or -1 when none is open.\<close>

definition peso_aresta :: "int list \<Rightarrow> int list list \<Rightarrow> nat \<Rightarrow> int" where
  "peso_aresta pacotes mapa x = pacotes ! nat (cell mapa x 0)"

definition mapa_ok :: "nat \<Rightarrow> nat \<Rightarrow> int list list \<Rightarrow> bool" where
  "mapa_ok n r mapa \<longleftrightarrow> dims n 2 mapa \<and>
     (\<forall>x < n. 0 < cell mapa x 0 \<and> cell mapa x 0 < int r \<and> 0 < cell mapa x 1 \<and> cell mapa x 1 < int r)"

lemma mapa_ok_peso:
  "mapa_ok n r mapa \<Longrightarrow> x < n \<Longrightarrow> length pacotes = r \<Longrightarrow>
   do { a \<leftarrow> rd2 mapa (int x) 0; rdi pacotes a } = Some (peso_aresta pacotes mapa x)"
  by (auto simp: mapa_ok_def peso_aresta_def rdi_Some nat_less_iff less_imp_le)

lemma maior_aberta_spec:
  assumes v: "dims n 2 v" and st: "\<forall>x < n. aberta v x \<or> escolhida v x \<or> rejeitada v x"
    and m: "mapa_ok n r mapa" and p: "length pacotes = r"
  shows "runs_to (maior_aberta n pacotes mapa v) (\<lambda>mp.
     if \<exists>x < n. aberta v x
     then \<exists>x < n. mp = int x \<and> aberta v x \<and> (\<forall>y < n. aberta v y \<longrightarrow> peso_aresta pacotes mapa y \<le> peso_aresta pacotes mapa x)
     else mp = -1)"
proof -
  let ?w = "peso_aresta pacotes mapa"
  let ?best = "\<lambda>j mp. \<exists>x < j. mp = int x \<and> aberta v x \<and> (\<forall>y < j. aberta v y \<longrightarrow> ?w y \<le> ?w x)"
  let ?P = "\<lambda>j (mp, flg). flg = (\<not> (\<exists>x < j. aberta v x)) \<and> (if flg then mp = -1 else ?best j mp)"
  let ?f = "\<lambda>x (maior_peso, flg). do {
       v0 \<leftarrow> rd2 v (int x) 0;
       v1 \<leftarrow> rd2 v (int x) 1;
       if v0 = 0 \<and> v1 \<noteq> 0 then
         (if flg then Some (int x, False)
          else do {
            nx \<leftarrow> rd2 mapa (int x) 0;
            px \<leftarrow> rdi pacotes nx;
            nm \<leftarrow> rd2 mapa maior_peso 0;
            pm \<leftarrow> rdi pacotes nm;
            Some (if px > pm then int x else maior_peso, flg) })
       else Some (maior_peso, flg) }"
  have "runs_to (for_upt 0 n ?f (-1, True)) (?P n)"
  proof (rule for_upt_inv, goal_cases)
    case (3 j s)
    obtain mp flg where s: "s = (mp, flg)" by force
    have j: "j < n" using 3 by simp
    have ab: "c0 v j = 0 \<and> c1 v j \<noteq> 0 \<longleftrightarrow> aberta v j" using st j by (auto simp: estado_defs)
    have f: "?f j s = (if aberta v j then (if flg then Some (int j, False) else do {
            nx \<leftarrow> rd2 mapa (int j) 0;
            px \<leftarrow> rdi pacotes nx;
            nm \<leftarrow> rd2 mapa mp 0;
            pm \<leftarrow> rdi pacotes nm;
            Some (if px > pm then int j else mp, flg) }) else Some (mp, flg))"
      unfolding s ab [symmetric]
      by (simp add: rd2_c0 [OF v j] rd2_c1 [OF v j] del: rd2_dims_0 rd2_dims_1)
    consider (fechada) "\<not> aberta v j" | (prim) "aberta v j" flg | (outra) "aberta v j" "\<not> flg" by blast
    then show ?case
    proof cases
      case fechada
      have "?best j mp \<Longrightarrow> ?best (Suc j) mp" using fechada by (metis less_Suc_eq)
      moreover have "(\<exists>x < Suc j. aberta v x) \<longleftrightarrow> (\<exists>x < j. aberta v x)"
        using fechada by (auto simp: less_Suc_eq)
      ultimately have "?P (Suc j) (mp, flg)" using 3(3) s by auto
      then show ?thesis unfolding f using fechada by simp
    next
      case prim
      then have "?P (Suc j) (int j, False)" using 3(3) s by (auto simp: less_Suc_eq)
      then show ?thesis unfolding f using prim by simp
    next
      case outra
      then obtain x where x: "x < j" "mp = int x" "aberta v x" "\<forall>y < j. aberta v y \<longrightarrow> ?w y \<le> ?w x"
        using 3(3) s by auto
      have P: "?P (Suc j) (if ?w j > ?w x then int j else int x, False)"
        using x outra by (auto simp: less_Suc_eq intro: order_trans)
      have e: "?f j s = Some (if ?w j > ?w x then int j else int x, False)"
        unfolding f using outra x(1,2) j mapa_ok_peso [OF m j p] mapa_ok_peso [OF m _ p, of x]
        by (simp add: bind_eq_Some_conv) auto
      show ?thesis unfolding e runs_to_Some by (rule P)
    qed
  qed simp_all
  then show ?thesis
    unfolding maior_aberta_def runs_to_bind by (rule runs_to_mono) (auto split: if_splits)
qed


lemma aceita_spec:
  assumes v: "dims n 2 v" and gc: "dims n n gc" and mp: "mp < n"
  shows "runs_to (aceita n gc node (int mp) v) (\<lambda>w. dims n 2 w \<and> (\<forall>y < n.
     c0 w y = (if cell gc mp y \<noteq> 0 \<and> y \<noteq> node then 1 else c0 v y) \<and>
     c1 w y = (if cell gc mp y \<noteq> 0 \<and> y \<noteq> node then 0 else if y = mp then 0 else c1 v y)))"
proof -
  let ?v = "upd2 v mp 1 0"
  have d: "dims n 2 ?v" using v by (rule dims_upd2)
  have c: "c0 ?v y = c0 v y" "c1 ?v y = (if y = mp then 0 else c1 v y)" if "y < n" for y
    unfolding c0_def c1_def
    by (subst cell_upd2 [OF v mp _ that]; simp)+
  let ?f = "\<lambda>x vetor. do { c \<leftarrow> rd2 gc (int mp) (int x);
       if c \<noteq> 0 \<and> x \<noteq> node then do { vetor \<leftarrow> wr2 vetor (int x) 0 1; wr2 vetor (int x) 1 0 }
       else Some vetor }"
  have "runs_to (for_upt 0 n ?f ?v) (\<lambda>w. dims n 2 w \<and> (\<forall>y < n.
     c0 w y = (if cell gc mp y \<noteq> 0 \<and> y \<noteq> node then 1 else c0 ?v y) \<and>
     c1 w y = (if cell gc mp y \<noteq> 0 \<and> y \<noteq> node then 0 else c1 ?v y)))"
    using gc mp by (intro rejeita_loop [OF d]) simp
  then have "runs_to (for_upt 0 n ?f ?v) (\<lambda>w. dims n 2 w \<and> (\<forall>y < n.
     c0 w y = (if cell gc mp y \<noteq> 0 \<and> y \<noteq> node then 1 else c0 v y) \<and>
     c1 w y = (if cell gc mp y \<noteq> 0 \<and> y \<noteq> node then 0 else if y = mp then 0 else c1 v y)))"
    by (rule runs_to_mono) (use c in simp)
  then show ?thesis
    unfolding aceita_def using wr2_dims_1 [OF v mp, of 0] by simp
qed

text \<open>One turn of the loop keeps the invariant and closes at least one open edge.\<close>

lemma aceita_ginv:
  assumes g: "ginv n gc node v" and gc: "sym_conf n gc" and node: "node < n"
    and mp: "mp < n" and ab: "aberta v mp"
  shows "runs_to (aceita n gc node (int mp) v) (\<lambda>w. ginv n gc node w \<and>
     {x. x < n \<and> aberta w x} \<subset> {x. x < n \<and> aberta v x})"
proof -
  have v: "dims n 2 v" and gcd: "dims n n gc" using g gc by (simp_all add: ginv_def sym_conf_def)
  have livre: "cell gc x mp = 0" "cell gc mp x = 0" if "x < n" "escolhida v x" for x
    using g gc that mp ab by (auto simp: ginv_def sym_conf_def)
  have nn: "escolhida v node" using g by (simp add: ginv_def)
  have mpmp: "cell gc mp mp = 0" using gc mp by (simp add: sym_conf_def)
  have goal: "ginv n gc node w \<and> {x. x < n \<and> aberta w x} \<subset> {x. x < n \<and> aberta v x}"
    if w: "dims n 2 w" and c: "\<forall>y < n.
     c0 w y = (if cell gc mp y \<noteq> 0 \<and> y \<noteq> node then 1 else c0 v y) \<and>
     c1 w y = (if cell gc mp y \<noteq> 0 \<and> y \<noteq> node then 0 else if y = mp then 0 else c1 v y)" for w
  proof -
    have conf: "cell gc mp y \<noteq> 0 \<and> y \<noteq> node \<longleftrightarrow> cell gc mp y \<noteq> 0" for y
      using livre(2) [OF node nn] by auto
    have st: "aberta w y \<longleftrightarrow> aberta v y \<and> y \<noteq> mp \<and> cell gc mp y = 0"
      "escolhida w y \<longleftrightarrow> escolhida v y \<or> y = mp"
      "rejeitada w y \<longleftrightarrow> rejeitada v y \<or> cell gc mp y \<noteq> 0" if y: "y < n" for y
    proof -
      have tri: "aberta v y \<or> escolhida v y \<or> rejeitada v y" using g y by (simp add: ginv_def)
      have e: "escolhida v y \<Longrightarrow> cell gc mp y = 0" using livre(2) [OF y] .
      have mpo: "c0 v mp = 0" "c1 v mp = 1" using ab by (simp_all add: aberta_def)
      have cy: "c0 w y = (if cell gc mp y \<noteq> 0 then 1 else c0 v y)"
        "c1 w y = (if cell gc mp y \<noteq> 0 then 0 else if y = mp then 0 else c1 v y)"
        using c y unfolding conf by auto
      show "aberta w y \<longleftrightarrow> aberta v y \<and> y \<noteq> mp \<and> cell gc mp y = 0"
        using cy by (auto simp: aberta_def)
      show "escolhida w y \<longleftrightarrow> escolhida v y \<or> y = mp"
        using cy e mpo mpmp by (auto simp: escolhida_def)
      show "rejeitada w y \<longleftrightarrow> rejeitada v y \<or> cell gc mp y \<noteq> 0"
        using cy mpo by (auto simp: rejeitada_def)
    qed
    have ind: "cell gc x y = 0" if "x < n" "y < n" "escolhida w x" "escolhida w y \<or> aberta w y" for x y
    proof -
      have s: "cell gc x y = cell gc y x" using gc that(1,2) by (simp add: sym_conf_def)
      have old: "escolhida v a \<Longrightarrow> escolhida v b \<or> aberta v b \<Longrightarrow> a < n \<Longrightarrow> b < n \<Longrightarrow> cell gc a b = 0" for a b
        using g unfolding ginv_def by blast
      show ?thesis
        using that(3,4) st [OF that(1)] st [OF that(2)] old [of x y] livre [of x] livre [of y] mpmp s that(1,2)
        by auto
    qed
    have dom: "\<exists>y < n. escolhida w y \<and> cell gc x y \<noteq> 0" if x: "x < n" "rejeitada w x" for x
    proof (cases "cell gc mp x = 0")
      case True
      then have "rejeitada v x" using st(3) [OF x(1)] x by simp
      then obtain y where y: "y < n" "escolhida v y" "cell gc x y \<noteq> 0"
        using g x(1) unfolding ginv_def by blast
      then show ?thesis using st(2) [OF y(1)] by blast
    next
      case False
      then show ?thesis using st(2) [OF mp] mp gc x by (auto simp: sym_conf_def intro!: exI [of _ mp])
    qed
    have tri: "aberta w x \<or> escolhida w x \<or> rejeitada w x" if "x < n" for x
      using st [OF that] g that by (auto simp: ginv_def)
    have "escolhida w node" using st(2) [OF node] nn by simp
    then have "ginv n gc node w" unfolding ginv_def using w ind dom tri by blast
    moreover have "{x. x < n \<and> aberta w x} \<subset> {x. x < n \<and> aberta v x}"
      using st(1) mp ab by blast
    ultimately show ?thesis by simp
  qed
  show ?thesis
    by (rule runs_to_mono [OF aceita_spec [OF v gcd mp]]) (use goal in blast)
qed

lemma ha_aberta_spec:
  assumes "dims n 2 v"
  shows "ha_aberta n v = Some (\<exists>x < n. c1 v x \<noteq> 0)"
proof -
  have "runs_to (for_upt 0 n (\<lambda>x cont. do { v1 \<leftarrow> rd2 v (int x) 1; Some (if v1 \<noteq> 0 then True else cont) }) False)
     (\<lambda>c. c = (\<exists>x < n. c1 v x \<noteq> 0))"
    by (rule for_upt_inv [where P = "\<lambda>j c. c = (\<exists>x < j. c1 v x \<noteq> 0)"])
      (use assms in \<open>auto simp: less_Suc_eq rd2_c1 simp del: rd2_dims_1\<close>)
  then show ?thesis by (simp add: ha_aberta_def runs_to_eq)
qed

lemma gera_passo_ginv:
  assumes g: "ginv n gc node v" and gc: "sym_conf n gc" and node: "node < n"
    and m: "mapa_ok n r mapa" and p: "length pacotes = r"
  shows "runs_to (gera_passo n pacotes gc mapa node v) (\<lambda>w. ginv n gc node w \<and>
     ((\<exists>x < n. aberta v x) \<longrightarrow> {x. x < n \<and> aberta w x} \<subset> {x. x < n \<and> aberta v x}) \<and>
     ((\<nexists>x. x < n \<and> aberta v x) \<longrightarrow> w = v))"
proof -
  have v: "dims n 2 v" and st: "\<forall>x < n. aberta v x \<or> escolhida v x \<or> rejeitada v x"
    using g by (simp_all add: ginv_def)
  note mx = maior_aberta_spec [OF v st m p]
  show ?thesis
  proof (cases "\<exists>x < n. aberta v x")
    case True
    then have "runs_to (maior_aberta n pacotes mapa v) (\<lambda>mp. \<exists>x < n. mp = int x \<and> aberta v x)"
      by (intro runs_to_mono [OF mx]) auto
    then show ?thesis
      unfolding gera_passo_def runs_to_bind
      by (rule runs_to_mono)
        (use True in \<open>auto intro!: runs_to_mono [OF aceita_ginv [OF g gc node]]\<close>)
  next
    case False
    then have "runs_to (maior_aberta n pacotes mapa v) (\<lambda>mp. mp = -1)"
      by (intro runs_to_mono [OF mx]) auto
    then show ?thesis
      unfolding gera_passo_def runs_to_bind by (rule runs_to_mono) (use False g in auto)
  qed
qed

lemma gera_laco_ginv:
  assumes "ginv n gc node v" and gc: "sym_conf n gc" and node: "node < n"
    and m: "mapa_ok n r mapa" and p: "length pacotes = r"
  shows "runs_to (gera_laco n pacotes gc mapa node v) (\<lambda>w. ginv n gc node w \<and> (\<forall>x < n. \<not> aberta w x))"
  using assms(1)
proof (induction "card {x. x < n \<and> aberta v x}" arbitrary: v rule: less_induct)
  case less
  have step: "runs_to (do { cont \<leftarrow> ha_aberta n w;
        if cont then gera_laco n pacotes gc mapa node w else Some w })
      (\<lambda>w. ginv n gc node w \<and> (\<forall>x < n. \<not> aberta w x))"
    if w: "ginv n gc node w"
      and dec: "(\<exists>x < n. aberta v x) \<longrightarrow> {x. x < n \<and> aberta w x} \<subset> {x. x < n \<and> aberta v x}"
      and same: "(\<nexists>x. x < n \<and> aberta v x) \<longrightarrow> w = v" for w
  proof -
    have d: "dims n 2 w" using w by (simp add: ginv_def)
    have ab: "(\<exists>x < n. c1 w x \<noteq> 0) \<longleftrightarrow> (\<exists>x < n. aberta w x)"
      using w unfolding ginv_def estado_defs by auto
    show ?thesis
    proof (cases "\<exists>x < n. aberta w x")
      case True
      then have "\<exists>x < n. aberta v x" using same by auto
      then have "card {x. x < n \<and> aberta w x} < card {x. x < n \<and> aberta v x}"
        using dec by (intro psubset_card_mono) auto
      from less.hyps [OF this w] show ?thesis using True ha_aberta_spec [OF d] ab by simp
    next
      case False
      then have "ha_aberta n w = Some False" using ha_aberta_spec [OF d] ab by auto
      then show ?thesis using w False by auto
    qed
  qed
  show ?case
    by (subst gera_laco.simps, subst runs_to_bind)
      (rule runs_to_mono [OF gera_passo_ginv [OF less.prems gc node m p]], use step in blast)
qed

text \<open>Clearing the matching and filling it from the chosen edges.\<close>

lemma limpa_spec:
  assumes d: "dims r r (mat_adj res)" and "tr \<le> r"
  shows "runs_to (limpa tr res) (\<lambda>res'. dims r r (mat_adj res') \<and>
     (\<forall>i < r. \<forall>j < r. cell (mat_adj res') i j =
        (if 1 \<le> i \<and> i < tr \<and> 1 \<le> j \<and> j < tr then 0 else cell (mat_adj res) i j)))"
proof -
  let ?xs = "List.product [1..<tr] [1..<tr]"
  let ?f = "\<lambda>x y res. do { m \<leftarrow> wr2 (mat_adj res) (int x) (int y) 0; Some (res\<lparr>mat_adj := m\<rparr>) }"
  let ?P = "\<lambda>ys res'. dims r r (mat_adj res') \<and>
     (\<forall>i < r. \<forall>j < r. cell (mat_adj res') i j = (if (i, j) \<in> set ys then 0 else cell (mat_adj res) i j))"
  have "runs_to (loopM (\<lambda>(x, y). ?f x y) ?xs res) (?P ?xs)"
  proof (rule loopM_prefix, goal_cases)
    case 1
    then show ?case using d by simp
  next
    case (2 ys e zs res')
    obtain x y where e: "e = (x, y)" by force
    have "e \<in> set ?xs" using 2(1) by simp
    then have xy: "x < r" "y < r" using e assms(2) by auto
    have d': "dims r r (mat_adj res')" using 2(2) by simp
    have "cell (upd2 (mat_adj res') x y 0) i j = (if (i, j) \<in> set (ys @ [e]) then 0 else cell (mat_adj res) i j)"
      if "i < r" "j < r" for i j
      unfolding cell_upd2 [OF d' xy that] using 2(2) that e by auto
    then show ?case using dims_upd2 [OF d', of x y 0] wr2_dims [OF d' xy, of 0] e by simp
  qed
  then show ?thesis
    unfolding limpa_def for_upt_def loopM_product by (rule runs_to_mono) auto
qed

definition preenchida :: "int list \<Rightarrow> int list list \<Rightarrow> int list list \<Rightarrow> nat \<Rightarrow> nat \<Rightarrow> nat \<Rightarrow> bool" where
  "preenchida pacotes mapa v k i j \<longleftrightarrow> (\<exists>x < k. c0 v x = 0 \<and> peso_aresta pacotes mapa x > 0 \<and>
     cell mapa x 0 = int i \<and> cell mapa x 1 = int j)"

lemma preenche_spec:
  assumes v: "dims n 2 v" and d: "dims r r (mat_adj res)" and m: "mapa_ok n t mapa" and p: "length pacotes = t"
    and t: "t \<le> r"
  shows "runs_to (preenche n pacotes mapa v res) (\<lambda>res'. dims r r (mat_adj res') \<and>
     (\<forall>i < r. \<forall>j < r. cell (mat_adj res') i j =
        (if preenchida pacotes mapa v n i j then 1 else cell (mat_adj res) i j)))"
proof -
  let ?B = "preenchida pacotes mapa v"
  let ?f = "\<lambda>x res. do {
     v0 \<leftarrow> rd2 v (int x) 0;
     if v0 = 0 then do {
       a \<leftarrow> rd2 mapa (int x) 0;
       p \<leftarrow> rdi pacotes a;
       if p > 0 then do {
         b \<leftarrow> rd2 mapa (int x) 1;
         m \<leftarrow> wr2 (mat_adj res) a b 1;
         Some (res\<lparr>mat_adj := m\<rparr>) }
       else Some res }
     else Some res }"
  show ?thesis
    unfolding preenche_def
  proof (rule for_upt_inv [where P = "\<lambda>k res'. dims r r (mat_adj res') \<and>
     (\<forall>i < r. \<forall>j < r. cell (mat_adj res') i j = (if ?B k i j then 1 else cell (mat_adj res) i j))"], goal_cases)
    case (2)
    then show ?case using d by (simp add: preenchida_def)
  next
    case (3 k res')
    then have k: "k < n" and d': "dims r r (mat_adj res')"
      and old: "\<And>i j. i < r \<Longrightarrow> j < r \<Longrightarrow> cell (mat_adj res') i j = (if ?B k i j then 1 else cell (mat_adj res) i j)"
      by auto
    have mk: "0 < cell mapa k 0" "cell mapa k 0 < int t" "0 < cell mapa k 1" "cell mapa k 1 < int t"
      and md: "dims n 2 mapa"
      using m k by (auto simp: mapa_ok_def)
    let ?a = "nat (cell mapa k 0)" and ?b = "nat (cell mapa k 1)"
    have ab: "cell mapa k 0 = int ?a" "cell mapa k 1 = int ?b" "?a < r" "?b < r" using mk t by auto
    have pk: "rdi pacotes (cell mapa k 0) = Some (peso_aresta pacotes mapa k)"
      using mk p by (simp add: rdi_Some peso_aresta_def nat_less_iff)
    have w: "wr2 (mat_adj res') (cell mapa k 0) (cell mapa k 1) 1 = Some (upd2 (mat_adj res') ?a ?b 1)"
      using wr2_dims [OF d' ab(3,4), of 1] ab(1,2) by simp
    let ?on = "c0 v k = 0 \<and> peso_aresta pacotes mapa k > 0"
    let ?new = "if ?on then res'\<lparr>mat_adj := upd2 (mat_adj res') ?a ?b 1\<rparr> else res'"
    have B: "?B (Suc k) i j \<longleftrightarrow> ?B k i j \<or> ?on \<and> i = ?a \<and> j = ?b" for i j
      using ab(1,2) by (auto simp: preenchida_def less_Suc_eq)
    have n01: "(0::nat) < 2" "(1::nat) < 2" by simp_all
    have "?f k res' = Some ?new"
      unfolding rd2_c0 [OF v k] rd2_dims_0 [OF md k n01(1)] rd2_dims_1 [OF md k n01(2)]
        Option.bind.bind_lunit pk w by simp
    moreover have "dims r r (mat_adj ?new)" using d' by (auto intro: dims_upd2)
    moreover have "cell (mat_adj ?new) i j = (if ?B (Suc k) i j then 1 else cell (mat_adj res) i j)"
      if "i < r" "j < r" for i j
    proof (cases ?on)
      case True
      then have "cell (mat_adj ?new) i j = (if ?a = i \<and> ?b = j then 1 else cell (mat_adj res') i j)"
        using cell_upd2 [OF d' ab(3,4) that] by simp
      then show ?thesis unfolding B using old [OF that] True by auto
    next
      case False
      then have new: "?new = res'" by (rule if_not_P)
      have "?B (Suc k) i j \<longleftrightarrow> ?B k i j" unfolding B using False by blast
      then show ?thesis unfolding new using old [OF that] by simp
    qed
    ultimately show ?case by (simp only: runs_to_Some) blast
  qed simp
qed

section \<open>The matching\<close>

lemma mapa_ok_arestas: "mapa_ok (length (arestas mat t)) t (map linha (arestas mat t))"
proof -
  have "0 < fst (arestas mat t ! x) \<and> fst (arestas mat t ! x) < t \<and>
        0 < snd (arestas mat t ! x) \<and> snd (arestas mat t ! x) < t"
    if "x < length (arestas mat t)" for x
    using nth_mem [OF that] arestas_range [of "fst (arestas mat t ! x)" "snd (arestas mat t ! x)" mat t] by simp
  then show ?thesis by (auto simp: mapa_ok_def dims_def)
qed

lemma conflito_sym: "conflito mapa n x y \<longleftrightarrow> conflito mapa n y x"
  by (auto simp: conflito_def)

lemma conflito_toca:
  assumes "x < n" and "y < n" and "x \<noteq> y" and "toca mapa x v" and "toca mapa y v"
  shows "conflito mapa n x y"
proof -
  have "marcado mapa n x y"
    unfolding marcado_def using assms by (intro exI [of _ x]) (auto simp: toca_def)
  then show ?thesis using assms(3) by (simp add: conflito_def)
qed

text \<open>S is an independent set of the conflict graph that no further edge can join.\<close>

definition independente_maximal :: "int list list \<Rightarrow> nat \<Rightarrow> nat set \<Rightarrow> bool" where
  "independente_maximal mapa n S \<longleftrightarrow> S \<subseteq> {..<n} \<and>
     (\<forall>x \<in> S. \<forall>y \<in> S. \<not> conflito mapa n x y) \<and>
     (\<forall>x < n. x \<notin> S \<longrightarrow> (\<exists>y \<in> S. conflito mapa n x y))"

lemma geraMaching_run:
  assumes m: "mapa_ok n t mapa" and p: "length pacotes = t" and t: "t \<le> r"
    and g0: "dims n n g0" and gc: "fazMatrizConf n mapa g0 = Some gc"
    and node: "node < n" and v: "dims n 2 vetor" and d: "dims r r (mat_adj res)"
  shows "\<exists>res' vetor' S. geraMaching n t pacotes gc mapa node res vetor = Some (res', vetor') \<and>
     dims r r (mat_adj res') \<and> dims n 2 vetor' \<and> node \<in> S \<and> independente_maximal mapa n S \<and>
     (\<forall>i < r. \<forall>j < r. cell (mat_adj res') i j =
        (if \<exists>x \<in> S. cell mapa x 0 = int i \<and> cell mapa x 1 = int j \<and> pacotes ! i > 0 then 1
         else if 1 \<le> i \<and> i < t \<and> 1 \<le> j \<and> j < t then 0 else cell (mat_adj res) i j))"
proof -
  have md: "dims n 2 mapa" using m by (simp add: mapa_ok_def)
  obtain g where "fazMatrizConf n mapa g0 = Some g" "dims n n g"
    "\<forall>x < n. \<forall>i < n. cell g x i = (if conflito mapa n x i then 1 else 0)"
    using fazMatrizConf_spec [OF md g0] by blast
  then have gcd: "dims n n gc" and gcc: "\<And>x i. x < n \<Longrightarrow> i < n \<Longrightarrow> cell gc x i = (if conflito mapa n x i then 1 else 0)"
    using gc by auto
  have sc: "sym_conf n gc"
    unfolding sym_conf_def using gcd gcc conflito_sym [of mapa n] by (auto simp: conflito_def)
  have post: "\<exists>S. dims r r (mat_adj res') \<and> dims n 2 w \<and> node \<in> S \<and> independente_maximal mapa n S \<and>
     (\<forall>i < r. \<forall>j < r. cell (mat_adj res') i j =
        (if \<exists>x \<in> S. cell mapa x 0 = int i \<and> cell mapa x 1 = int j \<and> pacotes ! i > 0 then 1
         else if 1 \<le> i \<and> i < t \<and> 1 \<le> j \<and> j < t then 0 else cell (mat_adj res) i j))"
    if w: "ginv n gc node w" "\<forall>x < n. \<not> aberta w x" and dr: "dims r r (mat_adj res')"
      and cl: "\<forall>i < r. \<forall>j < r. cell (mat_adj res1) i j =
        (if 1 \<le> i \<and> i < t \<and> 1 \<le> j \<and> j < t then 0 else cell (mat_adj res) i j)"
      and cr: "\<forall>i < r. \<forall>j < r. cell (mat_adj res') i j =
        (if preenchida pacotes mapa w n i j then 1 else cell (mat_adj res1) i j)" for w res1 res'
  proof -
    let ?S = "{x. x < n \<and> escolhida w x}"
    have "\<not> conflito mapa n x y" if "x \<in> ?S" "y \<in> ?S" for x y
      using w(1) gcc [of x y] that unfolding ginv_def by auto
    moreover have "\<exists>y \<in> ?S. conflito mapa n x y" if "x < n" "x \<notin> ?S" for x
    proof -
      have "rejeitada w x" using that w unfolding ginv_def by blast
      then obtain y where y: "y < n" "escolhida w y" "cell gc x y \<noteq> 0"
        using w(1) \<open>x < n\<close> unfolding ginv_def by blast
      then have "conflito mapa n x y" using gcc [OF \<open>x < n\<close> y(1)] by (simp split: if_splits)
      then show ?thesis using y by blast
    qed
    ultimately have im: "independente_maximal mapa n ?S" unfolding independente_maximal_def by blast
    have e: "preenchida pacotes mapa w n i j \<longleftrightarrow>
        (\<exists>x \<in> ?S. cell mapa x 0 = int i \<and> cell mapa x 1 = int j \<and> pacotes ! i > 0)" for i j
    proof -
      have "c0 w x = 0 \<longleftrightarrow> escolhida w x" if "x < n" for x
        using w that unfolding ginv_def estado_defs by auto
      then show ?thesis unfolding preenchida_def peso_aresta_def by auto
    qed
    have nd: "node \<in> ?S" and dw: "dims n 2 w" using w node by (auto simp: ginv_def)
    have cells: "cell (mat_adj res') i j =
        (if \<exists>x \<in> ?S. cell mapa x 0 = int i \<and> cell mapa x 1 = int j \<and> pacotes ! i > 0 then 1
         else if 1 \<le> i \<and> i < t \<and> 1 \<le> j \<and> j < t then 0 else cell (mat_adj res) i j)"
      if "i < r" "j < r" for i j
      unfolding cr [rule_format, OF that] cl [rule_format, OF that] e ..
    show ?thesis
      by (rule exI [of _ ?S], intro conjI allI impI dr dw nd im cells)
  qed
  have "runs_to (geraMaching n t pacotes gc mapa node res vetor) (\<lambda>(res', w). \<exists>S.
     dims r r (mat_adj res') \<and> dims n 2 w \<and> node \<in> S \<and> independente_maximal mapa n S \<and>
     (\<forall>i < r. \<forall>j < r. cell (mat_adj res') i j =
        (if \<exists>x \<in> S. cell mapa x 0 = int i \<and> cell mapa x 1 = int j \<and> pacotes ! i > 0 then 1
         else if 1 \<le> i \<and> i < t \<and> 1 \<le> j \<and> j < t then 0 else cell (mat_adj res) i j)))"
    unfolding geraMaching_def runs_to_bind
    apply (rule runs_to_mono [OF limpa_spec [OF d t]], erule conjE)
    apply (rule runs_to_mono [OF gera_inicio_ginv [OF v sc node]])
    apply (rule runs_to_mono [OF gera_laco_ginv [OF _ sc node m p]], assumption, erule conjE)
    apply (rule runs_to_mono [OF preenche_spec [OF _ _ m p t]])
      apply (simp add: ginv_def)
     apply assumption
    apply (unfold runs_to_Some prod.case, erule conjE)
    apply (rule post; assumption)
    done
  then show ?thesis by (auto simp: runs_to_def)
qed


text \<open>No two transmissions of a matching share a node.\<close>

definition sem_no_comum :: "nat \<Rightarrow> u8 list list \<Rightarrow> bool" where
  "sem_no_comum r m \<longleftrightarrow> (\<forall>i < r. \<forall>j < r. \<forall>k < r. \<forall>l < r.
     cell m i j \<noteq> 0 \<longrightarrow> cell m k l \<noteq> 0 \<longrightarrow> (i, j) \<noteq> (k, l) \<longrightarrow> {i, j} \<inter> {k, l} = {})"

lemma independente_sem_no_comum:
  assumes S: "independente_maximal mapa n S"
    and m: "\<And>i j. i < r \<Longrightarrow> j < r \<Longrightarrow> cell m i j \<noteq> 0 \<Longrightarrow>
      \<exists>x \<in> S. cell mapa x 0 = int i \<and> cell mapa x 1 = int j"
  shows "sem_no_comum r m"
  unfolding sem_no_comum_def
proof (intro allI impI)
  fix i j k l
  assume r: "i < r" "j < r" "k < r" "l < r" and nz: "cell m i j \<noteq> 0" "cell m k l \<noteq> 0"
    and ne: "(i, j) \<noteq> (k, l)"
  obtain x y where x: "x \<in> S" "cell mapa x 0 = int i" "cell mapa x 1 = int j"
    and y: "y \<in> S" "cell mapa y 0 = int k" "cell mapa y 1 = int l"
    using m r nz by meson
  have "x \<noteq> y" using x y ne by auto
  moreover have "x < n" "y < n" "\<not> conflito mapa n x y"
    using S x(1) y(1) by (auto simp: independente_maximal_def)
  ultimately have no: "\<not> (toca mapa x v \<and> toca mapa y v)" for v
    using conflito_toca by blast
  show "{i, j} \<inter> {k, l} = {}"
    using no [of "int i"] no [of "int j"] x y by (auto simp: toca_def)
qed

section \<open>DCFL\<close>

lemma dcfl_sorteia_run:
  assumes "\<not> dcfl_ruim n raiz (int (rnd k mod n))" and "0 < n" and "j \<le> k"
  shows "\<exists>a. dcfl_sorteia n raiz rnd j = Some a \<and> \<not> dcfl_ruim n raiz a"
  using assms(3)
proof (induction "k - j" arbitrary: j)
  case 0
  then show ?case using assms by (subst dcfl_sorteia.simps) simp
next
  case (Suc d)
  then have "\<exists>a. dcfl_sorteia n raiz rnd (Suc j) = Some a \<and> \<not> dcfl_ruim n raiz a"
    by (intro Suc.hyps(1)) linarith+
  then show ?case using assms(2) by (subst dcfl_sorteia.simps) (simp add: Let_def)
qed

lemma dcfl_maior_run:
  assumes "length pacotes = n" and a: "0 < a" "a < int n" "a \<noteq> raiz"
  shows "runs_to (dcfl_maior n pacotes raiz a) (\<lambda>b. 0 < b \<and> b < int n \<and> b \<noteq> raiz \<and>
    (\<forall>x. 1 \<le> x \<longrightarrow> x < n \<longrightarrow> int x \<noteq> raiz \<longrightarrow> pacotes ! x \<le> pacotes ! nat b))"
  unfolding dcfl_maior_def
proof (rule for_upt_inv [where P = "\<lambda>j b. 0 < b \<and> b < int n \<and> b \<noteq> raiz \<and>
    (\<forall>x. 1 \<le> x \<longrightarrow> x < j \<longrightarrow> int x \<noteq> raiz \<longrightarrow> pacotes ! x \<le> pacotes ! nat b)"], goal_cases)
  case (3 j b)
  then have b: "rdi pacotes b = Some (pacotes ! nat b)"
    using assms(1) by (simp add: rdi_Some nat_less_iff)
  show ?case using 3 assms(1) b by (auto simp: less_Suc_eq intro: order_trans)
qed (use a in auto)

lemma dcfl_aresta_spec:
  assumes "dims n 2 mapa" and "set xs \<subseteq> {..<n}"
  shows "dcfl_aresta mapa b xs = Some (List.find (\<lambda>x. cell mapa x 0 = b) xs)"
  using assms(2) by (induction xs) (use assms(1) in auto)

lemma find_Some_nth:
  "List.find P [0..<n] = Some x \<Longrightarrow> x < n \<and> P x"
  by (auto simp: find_Some_iff)

lemma DCFL_run:
  assumes acc: "\<not> dcfl_ruim t raiz (int (rnd k mod t))" and p: "length pacotes = t"
    and m: "dims n 2 mapa" and t: "0 < t"
  shows "\<exists>b. 0 < b \<and> b < t \<and> int b \<noteq> raiz \<and>
    (\<forall>x. 1 \<le> x \<longrightarrow> x < t \<longrightarrow> int x \<noteq> raiz \<longrightarrow> pacotes ! x \<le> pacotes ! b) \<and>
    DCFL rnd n t pacotes gc mapa raiz res vetor =
      (case List.find (\<lambda>x. cell mapa x 0 = int b) [0..<n] of
         Some x \<Rightarrow> geraMaching n t pacotes gc mapa x res vetor
       | None \<Rightarrow> Some (res, vetor))"
proof -
  obtain a where a: "dcfl_sorteia t raiz rnd 0 = Some a" "\<not> dcfl_ruim t raiz a"
    using dcfl_sorteia_run [of t raiz rnd k 0, OF acc t] by blast
  then have "0 < a" "a < int t" "a \<noteq> raiz" by (auto simp: dcfl_ruim_def)
  from dcfl_maior_run [OF p this] obtain b where b: "dcfl_maior t pacotes raiz a = Some b"
    "0 < b" "b < int t" "b \<noteq> raiz"
    "\<forall>x. 1 \<le> x \<longrightarrow> x < t \<longrightarrow> int x \<noteq> raiz \<longrightarrow> pacotes ! x \<le> pacotes ! nat b"
    by (auto simp: runs_to_def)
  have "dcfl_aresta mapa b [0..<n] = Some (List.find (\<lambda>x. cell mapa x 0 = b) [0..<n])"
    by (rule dcfl_aresta_spec [OF m]) auto
  then have "DCFL rnd n t pacotes gc mapa raiz res vetor =
      (case List.find (\<lambda>x. cell mapa x 0 = b) [0..<n] of
         Some x \<Rightarrow> geraMaching n t pacotes gc mapa x res vetor
       | None \<Rightarrow> Some (res, vetor))"
    unfolding DCFL_def using a(1) b(1) by simp
  then show ?thesis using b(2-5) by (intro exI [of _ "nat b"]) (simp add: nat_less_iff)
qed

end
