(* ===== verification/Static_Schedule.thy ===== *)
theory Static_Schedule
  imports Tsch_Schedule Conflict_Graph
begin

text \<open>
  os/net/mac/tsch/tsch-schedule.c, the static scheduler of the end of the file: SCHEDULE_static
  loads the links of all nodes from the topology file, simulates the transport of one packet per
  node to the root over matchings chosen by DCFL (Conflict_Graph), writes into a table which edge
  transmits in which slot on which channel, and moves this node's own links accordingly.

  The numbers rand() returns in the k-th call of DCFL are rnd k. Memory the code reads before it
  writes it (automatic variables, variable-length arrays) holds the values of the parameter lixo.
  A variable-length array of length 0 is an empty array, as the compilers the code is built with have it.
\<close>

section \<open>Definitions\<close>

definition Channel :: nat where "Channel = 16"
definition Timeslot :: nat where "Timeslot = 8"
definition no_raiz :: int where "no_raiz = 1"
definition peso :: int where "peso = 1"
definition unicast_slotframe_handle :: u16 where "unicast_slotframe_handle = 2"
definition SLOTFRAME_SIZE :: u16 where "SLOTFRAME_SIZE = 15"
definition MAX_NEIGHBORS :: nat where "MAX_NEIGHBORS = 4"

text \<open>-1 marks a free entry of the table of slots.\<close>

definition executa :: "int list list \<Rightarrow> int \<Rightarrow> int list list \<Rightarrow> int \<Rightarrow> int \<Rightarrow> int list \<Rightarrow> (int \<times> int list) option" where
  "executa aloca_canal tempo mapa pacote_entregue raiz pacotes =
     for_upt 0 Channel (\<lambda>i (pacote_entregue, pacotes). do {
       e \<leftarrow> rd2 aloca_canal (int i) tempo;
       if e = -1 then Some (pacote_entregue, pacotes)
       else do {
         a \<leftarrow> rd2 mapa e 0;
         b \<leftarrow> rd2 mapa e 1;
         pa \<leftarrow> rdi pacotes a;
         pacotes \<leftarrow> (if pa > 0 then do {
             pacotes \<leftarrow> wri pacotes a (pa - peso);
             pb \<leftarrow> rdi pacotes b;
             wri pacotes b (pb + peso) }
           else Some pacotes);
         Some (if b = raiz then pacote_entregue + peso else pacote_entregue, pacotes) } })
     (pacote_entregue, pacotes)"

text \<open>
  The row scan of alocaPacotes2 stops at the first edge of the node. The last argument stands for
  what the vector holds on entry: its entry 0 is never written.
\<close>

fun tem_saida :: "ng \<Rightarrow> nat \<Rightarrow> nat list \<Rightarrow> int option" where
  "tem_saida adj x [] = Some 0"
| "tem_saida adj x (y # ys) = do {
     m \<leftarrow> rd2 (mat_adj adj) (int x) (int y);
     if m \<noteq> 0 then Some peso else tem_saida adj x ys }"

definition alocaPacotes2 :: "nat \<Rightarrow> ng \<Rightarrow> int list \<Rightarrow> int list option" where
  "alocaPacotes2 num_no adj vetor = for_upt 1 num_no (\<lambda>x vetor. do {
     qtd_pacotes \<leftarrow> tem_saida adj x [1..<num_no];
     wr vetor x (if qtd_pacotes \<noteq> 0 then qtd_pacotes else 0) }) vetor"

definition tsch_num_nos :: nat where "tsch_num_nos = MAX_NOS"

text \<open>verify_packs logs, per line of the file, the number of packets queued for a neighbor.\<close>

definition verify_packs :: "int \<times> int \<Rightarrow> sched \<Rightarrow> (linkaddr \<times> int) list option" where
  "verify_packs lixo s = (case texto (arvore s) of
     None \<Rightarrow> Some []
   | Some t \<Rightarrow> feof_loop fscanf_dd (\<lambda>(node_origin, node_destin) log.
       if node_origin \<le> int MAX_NOS \<and> node_destin \<le> int MAX_NOS then
         (let addr_src = addr_of_num node_origin
          in Some (log @ [(addr_src, case tsch_queue_get_nbr addr_src (queue s) of
               None \<Rightarrow> 0 | Some n \<Rightarrow> ringbufindex_elements (tx_ringbuf (nbr_at (queue s) n)))]))
       else Some log) (fopen_r t) lixo [])"

definition count_sent_packs :: "sched \<Rightarrow> sched" where
  "count_sent_packs s = (if flag_schedule s = 1 then s\<lparr>STpacks := STpacks s + 1\<rparr> else s)"

definition count_packs :: "linkaddr \<Rightarrow> sched \<Rightarrow> sched option" where
  "count_packs address s =
     (let node_src = word_of_int (node_num address) :: u8;
          node = word_of_int (node_num (linkaddr_node_addr s)) :: u8
      in if flag_schedule s \<noteq> 0 then do {
           n \<leftarrow> rd (Packets_sent s) (unat node_src);
           snt \<leftarrow> wr (Packets_sent s) (unat node_src) (n + 1);
           m \<leftarrow> rd (Packets_received s) (unat node);
           rcv \<leftarrow> wr (Packets_received s) (unat node) (m + 1);
           Some (s\<lparr>Packets_sent := snt, Packets_received := rcv\<rparr>) }
         else Some s)"

subsection \<open>SCHEDULE_static\<close>

text \<open>Loading the graph: the loop over the lines of the file.\<close>

definition carrega_linha :: "int \<times> int \<Rightarrow> ng \<times> nat \<Rightarrow> (ng \<times> nat) option" where
  "carrega_linha = (\<lambda>(node_origin, node_destin) (adj, i).
     if node_origin \<le> int MAX_NOS \<and> node_destin \<le> int MAX_NOS then do {
       m \<leftarrow> rd2 (mat_adj adj) node_origin node_destin;
       if m = 0 \<and> node_origin \<noteq> no_raiz then do {
         m \<leftarrow> wr2 (mat_adj adj) node_origin node_destin 1;
         Some (adj\<lparr>mat_adj := m\<rparr>, Suc i) }
       else Some (adj, i) }
     else Some (adj, i))"

definition adj_zero :: ng where
  "adj_zero = \<lparr>mat_adj = replicate MAX_NOS (replicate MAX_NOS 0)\<rparr>"

definition carrega :: "int \<times> int \<Rightarrow> string \<Rightarrow> (ng \<times> nat) option" where
  "carrega lixo t = feof_loop fscanf_dd carrega_linha (fopen_r t) lixo (adj_zero, 0)"

text \<open>
  One turn of the simulation fills slot cont: for every edge x -> y of the matching its number,
  once per packet of x, on the next channels. The loops are left once canal has reached 8 (the
  innermost) or Channel (the two others), after which their bodies would change nothing.
\<close>

fun acha_aresta :: "int list list \<Rightarrow> int \<Rightarrow> int \<Rightarrow> nat list \<Rightarrow> nat \<Rightarrow> nat option" where
  "acha_aresta conf x y [] fim = Some fim"
| "acha_aresta conf x y (t # ts) fim = do {
     a \<leftarrow> rd2 conf (int t) 0;
     b \<leftarrow> rd2 conf (int t) 1;
     if a = x \<and> b = y then Some t else acha_aresta conf x y ts fim }"

definition coloca :: "nat \<Rightarrow> nat \<Rightarrow> int \<Rightarrow> nat \<times> int list list \<Rightarrow> (nat \<times> int list list) option" where
  "coloca cont edge_selected n = for_upt 0 (nat n) (\<lambda>temp (canal, aloca_canais).
     if canal = 8 then Some (canal, aloca_canais)
     else do {
       aloca_canais \<leftarrow> wr2 aloca_canais (int canal) (int cont) (int edge_selected);
       Some (Suc canal, aloca_canais) })"

definition enche_slot ::
  "nat \<Rightarrow> ng \<Rightarrow> int list list \<Rightarrow> int list \<Rightarrow> nat \<Rightarrow> nat \<times> int list list \<Rightarrow> (nat \<times> int list list) option" where
  "enche_slot tamAresta adj conf pacotes cont =
     for_upt 1 MAX_NOS (\<lambda>x. for_upt 1 MAX_NOS (\<lambda>y (canal, aloca_canais).
       if canal = Channel then Some (canal, aloca_canais)
       else do {
         m \<leftarrow> rd2 (mat_adj adj) (int x) (int y);
         if m \<noteq> 0 then do {
           edge_selected \<leftarrow> acha_aresta conf (int x) (int y) [0..<tamAresta] tamAresta;
           c0 \<leftarrow> rd2 conf (int edge_selected) 0;
           n \<leftarrow> rdi pacotes c0;
           coloca cont edge_selected n (canal, aloca_canais) }
         else Some (canal, aloca_canais) }))"

record simulacao =
  sim_adj :: ng
  sim_aloca :: "int list list"
  sim_cont :: nat
  sim_pacotes :: "int list"
  sim_entregue :: int
  sim_turno :: nat

text \<open>vetor is cleared before each call of DCFL.\<close>

definition vetor_zero :: "nat \<Rightarrow> int list list" where
  "vetor_zero tamAresta = replicate tamAresta (replicate 2 0)"

definition turno ::
  "(nat \<Rightarrow> nat \<Rightarrow> nat) \<Rightarrow> nat \<Rightarrow> int list list \<Rightarrow> int list list \<Rightarrow> simulacao \<Rightarrow> simulacao option" where
  "turno rnd tamAresta conf matconf m = do {
     (_, aloca_canais) \<leftarrow> enche_slot tamAresta (sim_adj m) conf (sim_pacotes m) (sim_cont m) (0, sim_aloca m);
     let cont = (if sim_cont m = Timeslot then 0 else sim_cont m);
     (pacote_entregue, pacotes) \<leftarrow>
        executa aloca_canais (int cont) conf (sim_entregue m) no_raiz (sim_pacotes m);
     (adj, _) \<leftarrow> DCFL (rnd (Suc (sim_turno m))) tamAresta MAX_NOS pacotes matconf conf no_raiz
        (sim_adj m) (vetor_zero tamAresta);
     Some \<lparr>sim_adj = adj, sim_aloca = aloca_canais, sim_cont = Suc cont, sim_pacotes = pacotes,
           sim_entregue = pacote_entregue, sim_turno = Suc (sim_turno m)\<rparr> }"

partial_function (option) simula ::
  "(nat \<Rightarrow> nat \<Rightarrow> nat) \<Rightarrow> nat \<Rightarrow> int list list \<Rightarrow> int list list \<Rightarrow> int \<Rightarrow> simulacao \<Rightarrow> simulacao option" where
  "simula rnd tamAresta conf matconf total_pacotes m =
     (if sim_entregue m < total_pacotes then do {
        m \<leftarrow> turno rnd tamAresta conf matconf m;
        simula rnd tamAresta conf matconf total_pacotes m }
      else Some m)"

declare simula.simps [code]

text \<open>The total of the packets, and the part of the function that computes the table.\<close>

definition soma_pacotes :: "int list \<Rightarrow> int option" where
  "soma_pacotes pacotes = for_upt 1 MAX_NOS (\<lambda>z total. do {
     p \<leftarrow> rd pacotes z;
     Some (if int z \<noteq> no_raiz then total + p else total) }) 0"

definition aloca :: "(nat \<Rightarrow> nat \<Rightarrow> nat) \<Rightarrow> (nat \<Rightarrow> nat \<Rightarrow> int) \<Rightarrow> int \<times> int \<Rightarrow> string \<Rightarrow> int list list option" where
  "aloca rnd lixo lixo2 t = do {
     (adj, tamAresta) \<leftarrow> carrega lixo2 t;
     pacotes \<leftarrow> alocaPacotes2 MAX_NOS adj (map (lixo 0) [0..<MAX_NOS]);
     conf \<leftarrow> mapGraphConf adj MAX_NOS (map (\<lambda>i. map (lixo i) [0..<2]) [0..<tamAresta]);
     matconf \<leftarrow> fazMatrizConf tamAresta conf (map (\<lambda>i. map (lixo i) [0..<tamAresta]) [0..<tamAresta]);
     total_pacotes \<leftarrow> soma_pacotes pacotes;
     (adj, _) \<leftarrow> DCFL (rnd 0) tamAresta MAX_NOS pacotes matconf conf no_raiz adj (vetor_zero tamAresta);
     m \<leftarrow> simula rnd tamAresta conf matconf total_pacotes
       \<lparr>sim_adj = adj, sim_aloca = replicate Channel (replicate Timeslot (-1)), sim_cont = 0,
        sim_pacotes = pacotes, sim_entregue = 0, sim_turno = 0\<rparr>;
     Some (sim_aloca m) }"

text \<open>
  The walk over the links for entry (x, y) of the table: verify becomes 1 with the first link moved
  and stays 1 for the rest of the function. A break leaves the walk when the file cannot be opened.
\<close>

fun move_links ::
  "nat \<Rightarrow> int \<Rightarrow> nat \<Rightarrow> nat \<Rightarrow> nat list \<Rightarrow> bool \<times> u8 \<times> sched \<Rightarrow> bool \<times> u8 \<times> sched" where
  "move_links i e x y [] st = st"
| "move_links i e x y (k # ks) (verify, bw, s) =
     (let l = link_at s k in
      if e = l_handle l \<and> l_type l = LINK_TYPE_NORMAL then
        (if \<not> verify then
           (if l_aux l = 2 then
              (case tsch_schedule_get_link_by_timeslot (Some i) (of_nat (y + 1)) (of_nat (x + 1)) s of
                 Some _ \<Rightarrow> move_links i e x y ks (False, bw, s)
               | None \<Rightarrow>
                  (let s = upd_link k (\<lambda>l. l\<lparr>l_timeslot := of_nat (y + 1), l_choff := of_nat (x + 1)\<rparr>) s;
                       l = link_at s k
                   in if \<not> gravavel (TCH s) then (False, 1, s)
                      else move_links i e x y ks (True, 1,
                        s\<lparr>TCH := anexa (linha_dddd (node_num (linkaddr_node_addr s), node_num (l_addr l),
                              uint (l_timeslot l), uint (l_choff l))) (TCH s)\<rparr>)))
            else move_links i e x y ks (verify, bw, s))
         else move_links i e x y ks (verify, if x \<noteq> unat (l_choff l) then bw + 1 else bw, s))
      else move_links i e x y ks (verify, bw, s))"

definition move_todos :: "nat \<Rightarrow> int list list \<Rightarrow> sched \<Rightarrow> (bool \<times> u8 \<times> sched) option" where
  "move_todos i aloca_canais s =
     for_upt 0 Channel (\<lambda>x. for_upt 0 Timeslot (\<lambda>y st. do {
       e \<leftarrow> rd2 aloca_canais (int x) (int y);
       Some (move_links i e x y (sf_links (sf_at (snd (snd st)) i)) st) })) (False, 0, s)"

definition rx_schedule_intern :: "int \<times> int \<times> int \<times> int \<Rightarrow> nat \<Rightarrow> sched \<Rightarrow> sched option" where
  "rx_schedule_intern lixo k s =
     (let node_destin = word_of_int (node_num (linkaddr_node_addr s)) :: u8;
          node = word_of_int (node_num (l_addr (link_at s k))) :: u8
      in do {
        t \<leftarrow> texto (TCH s);
        feof_loop fscanf_dddd (\<lambda>(node_origin, nbr, aux_timeslot, aux_channel_offset) s.
            if node_origin = uint node \<and> nbr = uint node_destin then
              Some (upd_link k (\<lambda>l. l\<lparr>l_timeslot := word_of_int aux_timeslot,
                                     l_choff := word_of_int aux_channel_offset\<rparr>) s)
            else Some s) (fopen_r t) lixo s })"

definition rx_todos :: "int \<times> int \<times> int \<times> int \<Rightarrow> nat \<Rightarrow> sched \<Rightarrow> sched option" where
  "rx_todos lixo i s = loopM (\<lambda>k s.
       if l_aux (link_at s k) = 1 \<and> l_type (link_at s k) = LINK_TYPE_NORMAL
       then rx_schedule_intern lixo k s else Some s) (sf_links (sf_at s i)) s"

text \<open>
  The answer, the value logged as the increase in bandwidth, and the state. The function reads
  sf->handle for the log before it takes the lock, and the two blocks it allocates are not used.
\<close>

definition SCHEDULE_static ::
  "(nat \<Rightarrow> nat \<Rightarrow> nat) \<Rightarrow> (nat \<Rightarrow> nat \<Rightarrow> int) \<Rightarrow> int \<times> int \<Rightarrow> int \<times> int \<times> int \<times> int
   \<Rightarrow> sched \<Rightarrow> (int \<times> u8 \<times> sched) option" where
  "SCHEDULE_static rnd lixo lixo2 lixo4 s = do {
     sf \<leftarrow> tsch_schedule_get_slotframe_by_handle unicast_slotframe_handle s;
     (got, s) \<leftarrow> get_lock s;
     if got then
       (case texto (arvore s) of
          None \<Rightarrow> Some (0, 0, s)
        | Some t \<Rightarrow> do {
            aloca_canais \<leftarrow> aloca rnd lixo lixo2 t;
            let s = s\<lparr>link_memb := snd (memb_alloc (snd (memb_alloc (link_memb s))))\<rparr>;
            (_, channel_bandwidth, s) \<leftarrow> move_todos sf aloca_canais s;
            s \<leftarrow> rx_todos lixo4 sf s;
            Some (1, channel_bandwidth, release_lock (s\<lparr>flag_schedule := 1\<rparr>)) })
     else Some (1, 0, s) }"

subsection \<open>The other functions of the file\<close>

definition verify_link_by_id :: "u8 \<Rightarrow> sched \<Rightarrow> int" where
  "verify_link_by_id nid s = (if nid \<in> set (PossNeighbor s) then 1 else 0)"

definition find_neighbor_linha :: "linkaddr option \<Rightarrow> u8 \<Rightarrow> nat \<Rightarrow> int \<times> int \<Rightarrow> sched \<Rightarrow> sched option" where
  "find_neighbor_linha vic node sf = (\<lambda>(node_origin, node_destin) s.
     if node_destin = uint node then
       (if verify_link_by_id (word_of_int node_origin) s = 1 then Some s
        else do {
          (_, s) \<leftarrow> tsch_schedule_add_link vic (Some sf) LINK_OPTION_RX LINK_TYPE_NORMAL
                     (Some (addr_of_num node_origin)) 0 0 False s;
          Some s })
     else Some s)"

definition find_neighbor_to_Rx :: "linkaddr option \<Rightarrow> int \<times> int \<Rightarrow> u8 \<Rightarrow> sched \<Rightarrow> sched option" where
  "find_neighbor_to_Rx vic lixo node s = do {
     (sf, s) \<leftarrow> tsch_schedule_add_slotframe unicast_slotframe_handle SLOTFRAME_SIZE s;
     sf \<leftarrow> (case sf of Some i \<Rightarrow> Some i
            | None \<Rightarrow> tsch_schedule_get_slotframe_by_handle unicast_slotframe_handle s);
     (case texto (arvore s) of
        None \<Rightarrow> Some s
      | Some t \<Rightarrow> feof_loop fscanf_dd (find_neighbor_linha vic node sf) (fopen_r t) lixo s) }"

text \<open>The final step to the next slotframe writes a local variable only.\<close>

definition tsch_get_same_link :: "linkaddr \<Rightarrow> nat \<Rightarrow> sched \<Rightarrow> int" where
  "tsch_get_same_link addr sf s =
     (if \<not> locked s \<and> (\<exists>k \<in> set (sf_links (sf_at s sf)). linkaddr_cmp addr (l_addr (link_at s k))) then 1 else 0)"

fun maior_vizinho :: "int \<Rightarrow> int list \<Rightarrow> int" where
  "maior_vizinho n [] = 0"
| "maior_vizinho n (v # vs) = (if n > v \<and> v \<noteq> 0 then v else maior_vizinho n vs)"

definition sort_node_to_create_link :: "int \<Rightarrow> sched \<Rightarrow> int" where
  "sort_node_to_create_link n s = maior_vizinho n (NBRlist s)"

fun anota_vizinho :: "int \<Rightarrow> int list \<Rightarrow> int list" where
  "anota_vizinho nbr [] = []"
| "anota_vizinho nbr (v # vs) =
     (if v = nbr then v # vs else if v = 0 then nbr # vs else v # anota_vizinho nbr vs)"

definition tsch_print_neighbors :: "int \<Rightarrow> sched \<Rightarrow> sched" where
  "tsch_print_neighbors nbr s = s\<lparr>NBRlist := anota_vizinho nbr (NBRlist s)\<rparr>"

definition show_nbr :: "sched \<Rightarrow> int list" where
  "show_nbr s = NBRlist s"

text \<open>The counter is static: it keeps growing from call to call.\<close>

definition change_slotframe :: "sched \<Rightarrow> int \<times> sched" where
  "change_slotframe s =
     (let c = foldl (+) (cs_counter s) (NBRlist s) in (if c > 0 then 1 else 0, s\<lparr>cs_counter := c\<rparr>))"

text \<open>
  verify_in_topology reads the file of channels with the format of the topology file. It returns
  from inside the loop, without closing the file.
\<close>

partial_function (option) verify_loop :: "int \<Rightarrow> int \<Rightarrow> stream \<Rightarrow> int \<times> int \<Rightarrow> int option" where
  "verify_loop sender receiver st v =
     (if feof st then Some 0
      else (let (v', st') = fscanf_dd v st in
        if v' = (sender, receiver) then Some 1 else verify_loop sender receiver st' v'))"

declare verify_loop.simps [code]

definition verify_in_topology :: "int \<times> int \<Rightarrow> int \<Rightarrow> int \<Rightarrow> sched \<Rightarrow> int option" where
  "verify_in_topology lixo sender receiver s = (case texto (TCH s) of
     None \<Rightarrow> Some 0
   | Some t \<Rightarrow> verify_loop sender receiver (fopen_r t) lixo)"


section \<open>Loading the graph\<close>

text \<open>
  The links of a file that enter the graph, and the files the code can load: both numbers of a
  line index the matrix, or one of them is too large to be looked at.
\<close>

definition linha_ok :: "int \<times> int \<Rightarrow> bool" where
  "linha_ok v \<longleftrightarrow> fst v > int MAX_NOS \<or> snd v > int MAX_NOS \<or>
     0 \<le> fst v \<and> fst v < int MAX_NOS \<and> 0 \<le> snd v \<and> snd v < int MAX_NOS"

definition arcos :: "(int \<times> int) list \<Rightarrow> (nat \<times> nat) set" where
  "arcos xs = {(x, y). x < MAX_NOS \<and> y < MAX_NOS \<and> int x \<noteq> no_raiz \<and> (int x, int y) \<in> set xs}"

lemma arcos_append [simp]: "arcos (xs @ ys) = arcos xs \<union> arcos ys"
  by (auto simp: arcos_def)

lemma arcos_subset: "set ys \<subseteq> set xs \<Longrightarrow> arcos ys \<subseteq> arcos xs"
  by (auto simp: arcos_def)

lemma finite_arcos [simp]: "finite (arcos xs)"
  by (rule finite_subset [of _ "{..<MAX_NOS} \<times> {..<MAX_NOS}"]) (auto simp: arcos_def)

definition grafo_de :: "(nat \<times> nat) set \<Rightarrow> ng \<Rightarrow> bool" where
  "grafo_de E adj \<longleftrightarrow> dims MAX_NOS MAX_NOS (mat_adj adj) \<and>
     (\<forall>x < MAX_NOS. \<forall>y < MAX_NOS. cell (mat_adj adj) x y = (if (x, y) \<in> E then 1 else 0))"

lemma carrega_linha_run:
  assumes g: "grafo_de (arcos ys) adj" and ok: "linha_ok v"
  shows "runs_to (carrega_linha v (adj, card (arcos ys)))
    (\<lambda>(adj', i). grafo_de (arcos (ys @ [v])) adj' \<and> i = card (arcos (ys @ [v])))"
proof (cases "fst v > int MAX_NOS \<or> snd v > int MAX_NOS")
  case True
  then have "arcos [v] = {}" by (cases v) (auto simp: arcos_def)
  then have "arcos (ys @ [v]) = arcos ys" by simp
  moreover have "carrega_linha v (adj, card (arcos ys)) = Some (adj, card (arcos ys))"
    using True by (cases v) (auto simp: carrega_linha_def)
  ultimately show ?thesis using g by simp
next
  case False
  then obtain x y where v: "v = (int x, int y)" "x < MAX_NOS" "y < MAX_NOS"
    using ok unfolding linha_ok_def
    by (metis nat_int_comparison(2) nonneg_int_cases prod.collapse of_nat_less_iff)
  have d: "dims MAX_NOS MAX_NOS (mat_adj adj)" and c: "cell (mat_adj adj) x y = (if (x, y) \<in> arcos ys then 1 else 0)"
    using g v by (auto simp: grafo_de_def)
  have a1: "arcos [v] = (if int x \<noteq> no_raiz then {(x, y)} else {})" using v by (auto simp: arcos_def)
  have le: "int x \<le> int MAX_NOS \<and> int y \<le> int MAX_NOS" using v by simp
  have run: "carrega_linha v (adj, card (arcos ys)) =
    (if (x, y) \<notin> arcos ys \<and> int x \<noteq> no_raiz
     then Some (adj\<lparr>mat_adj := upd2 (mat_adj adj) x y 1\<rparr>, Suc (card (arcos ys)))
     else Some (adj, card (arcos ys)))"
    unfolding v(1) carrega_linha_def using le d v c by simp
  show ?thesis
  proof (cases "(x, y) \<notin> arcos ys \<and> int x \<noteq> no_raiz")
    case True
    have "grafo_de (insert (x, y) (arcos ys)) (adj\<lparr>mat_adj := upd2 (mat_adj adj) x y 1\<rparr>)"
      using g v d by (auto simp: grafo_de_def cell_upd2 [OF d])
    then show ?thesis using run True a1 by simp
  next
    case False
    then have "arcos (ys @ [v]) = arcos ys" using a1 by auto
    then show ?thesis using run False g by auto
  qed
qed

lemma carrega_run:
  assumes ok: "\<forall>v \<in> set xs. linha_ok v" and ne: "xs \<noteq> []"
  shows "runs_to (carrega lixo (concat (map linha_dd xs)))
    (\<lambda>(adj, i). grafo_de (arcos xs) adj \<and> i = card (arcos xs))"
proof -
  let ?zs = "xs @ [last xs]"
  have ok': "\<forall>v \<in> set ?zs. linha_ok v" using ok ne by simp
  have z: "grafo_de (arcos []) adj_zero" by (auto simp: grafo_de_def adj_zero_def arcos_def)
  have "runs_to (loopM carrega_linha ?zs (adj_zero, 0))
     (\<lambda>(adj, i). grafo_de (arcos ?zs) adj \<and> i = card (arcos ?zs))"
  proof (rule loopM_prefix [where P = "\<lambda>ys (adj, i). grafo_de (arcos ys) adj \<and> i = card (arcos ys)"], goal_cases)
    case 1
    then show ?case using z by (simp add: arcos_def)
  next
    case (2 ys v zs s)
    obtain adj i where s: "s = (adj, i)" by (cases s)
    have "v \<in> set ?zs" unfolding 2(1) by simp
    then show ?case using carrega_linha_run [of ys adj v] 2(2) ok' s by simp
  qed
  moreover have "arcos ?zs = arcos xs"
    using arcos_subset [of "[last xs]" xs] ne by auto
  ultimately show ?thesis using ne by (simp add: carrega_def arvore.loop_arquivo)
qed

text \<open>A line that was appended is loaded with the others.\<close>

lemma written_line_loaded:
  assumes f: "gravavel f" "texto f = Some (concat (map linha_dd xs))" and ok: "\<forall>v \<in> set xs. linha_ok v" "linha_ok (a, b)"
  shows "\<exists>t adj. texto (tsch_write_in_file a b f) = Some t \<and> carrega lixo t = Some (adj, card (arcos (xs @ [(a, b)]))) \<and>
    grafo_de (arcos (xs @ [(a, b)])) adj"
proof -
  have "texto (tsch_write_in_file a b f) = Some (concat (map linha_dd (xs @ [(a, b)])))"
    using f by (simp add: tsch_write_in_file_def anexa_def)
  moreover have "\<forall>v \<in> set (xs @ [(a, b)]). linha_ok v" using ok by auto
  ultimately show ?thesis using carrega_run [of "xs @ [(a, b)]" lixo] by (auto simp: runs_to_def)
qed

section \<open>Packets of the nodes\<close>

lemma tem_saida_run:
  assumes g: "grafo_de E adj" and x: "x < MAX_NOS" and ys: "set ys \<subseteq> {..<MAX_NOS}"
  shows "tem_saida adj x ys = Some (if \<exists>y \<in> set ys. (x, y) \<in> E then peso else 0)"
  using ys by (induction ys) (use g x in \<open>auto simp: grafo_de_def\<close>)

definition pac_inicial :: "(nat \<times> nat) set \<Rightarrow> nat \<Rightarrow> int" where
  "pac_inicial E x = (if \<exists>y. (x, y) \<in> E \<and> 1 \<le> y \<and> y < MAX_NOS then 1 else 0)"

lemma alocaPacotes2_run:
  assumes g: "grafo_de E adj" and l: "length v = MAX_NOS"
  shows "runs_to (alocaPacotes2 MAX_NOS adj v) (\<lambda>p. length p = MAX_NOS \<and>
    (\<forall>x. 1 \<le> x \<longrightarrow> x < MAX_NOS \<longrightarrow> p ! x = pac_inicial E x))"
  unfolding alocaPacotes2_def
proof (rule for_upt_inv [where P = "\<lambda>j p. length p = MAX_NOS \<and> (\<forall>x. 1 \<le> x \<longrightarrow> x < j \<longrightarrow> p ! x = pac_inicial E x)"], goal_cases)
  case (3 x p)
  then have "tem_saida adj x [1..<MAX_NOS] = Some (pac_inicial E x)"
  proof -
    have s: "set [1..<MAX_NOS] \<subseteq> {..<MAX_NOS}" by auto
    show ?thesis using tem_saida_run [OF g 3(2) s] by (auto simp: pac_inicial_def peso_def)
  qed
  then show ?case using 3 by (auto simp: nth_list_update less_Suc_eq)
qed (use l in \<open>auto simp: MAX_NOS_def\<close>)

lemma soma_pacotes_run:
  assumes "length p = MAX_NOS"
  shows "soma_pacotes p = Some (\<Sum>x \<in> {2..<MAX_NOS}. p ! x)"
proof -
  have "runs_to (soma_pacotes p) (\<lambda>t. t = (\<Sum>x | 1 \<le> x \<and> x < MAX_NOS \<and> x \<noteq> 1. p ! x))"
    unfolding soma_pacotes_def
  proof (rule for_upt_inv [where P = "\<lambda>j t. t = (\<Sum>x | 1 \<le> x \<and> x < j \<and> x \<noteq> 1. p ! x)"], goal_cases)
    case (3 i t)
    have e: "{x. 1 \<le> x \<and> x < Suc i \<and> x \<noteq> 1} =
        (if i = 1 then {x. 1 \<le> x \<and> x < i \<and> x \<noteq> 1} else insert i {x. 1 \<le> x \<and> x < i \<and> x \<noteq> 1})"
      using 3(1) by (auto simp: less_Suc_eq)
    show ?case using 3 assms unfolding e by (simp add: no_raiz_def add.commute)
  next
    case 2
    have "{x. 1 \<le> x \<and> x < (1::nat) \<and> x \<noteq> 1} = {}" by auto
    then show ?case by (simp only: sum.empty)
  qed (auto simp: MAX_NOS_def)
  moreover have "{x. 1 \<le> x \<and> x < MAX_NOS \<and> x \<noteq> 1} = {2..<MAX_NOS}" by auto
  ultimately show ?thesis by (auto simp: runs_to_def)
qed


section \<open>Filling a slot\<close>

text \<open>L is written to the first channels of column c; the rest of the table stays as it was.\<close>

definition coluna :: "int list list \<Rightarrow> nat \<Rightarrow> nat list \<Rightarrow> int list list \<Rightarrow> bool" where
  "coluna al c L al' \<longleftrightarrow> dims Channel Timeslot al' \<and> (\<forall>i < Channel. \<forall>j < Timeslot.
     cell al' i j = (if j = c \<and> i < length L then int (L ! i) else cell al i j))"

lemma coluna_snoc:
  assumes c: "coluna al c L al'" and l: "length L < Channel" and cc: "c < Timeslot"
  shows "coluna al c (L @ [e]) (upd2 al' (length L) c (int e))"
proof -
  have d: "dims Channel Timeslot al'" using c by (simp add: coluna_def)
  have "cell (upd2 al' (length L) c (int e)) i j =
      (if j = c \<and> i < length (L @ [e]) then int ((L @ [e]) ! i) else cell al i j)"
    if "i < Channel" "j < Timeslot" for i j
    using c that by (auto simp: cell_upd2 [OF d l cc] coluna_def nth_append less_Suc_eq)
  then show ?thesis using dims_upd2 [OF d] by (simp add: coluna_def)
qed

lemma coloca_run:
  assumes c: "coluna al c L al'" and l: "length L + nat n \<le> 8" and cc: "c < Timeslot"
  shows "runs_to (coloca c e n (length L, al')) (\<lambda>(k, al'').
    k = length (L @ replicate (nat n) e) \<and> coluna al c (L @ replicate (nat n) e) al'')"
  unfolding coloca_def
proof (rule for_upt_inv [where P = "\<lambda>j (k, al''). k = length (L @ replicate j e) \<and> coluna al c (L @ replicate j e) al''"], goal_cases)
  case (3 j s)
  obtain al1 where s: "s = (length (L @ replicate j e), al1)" and c1: "coluna al c (L @ replicate j e) al1"
    using 3(3) by (cases s) simp
  have lt: "length (L @ replicate j e) < 8" using 3(2) l by simp
  then have lc: "length (L @ replicate j e) < Channel" by (simp add: Channel_def)
  have d: "dims Channel Timeslot al1" using c1 by (simp add: coluna_def)
  have w: "wr2 al1 (int (length (L @ replicate j e))) (int c) (int e)
      = Some (upd2 al1 (length (L @ replicate j e)) c (int e))" by (rule wr2_dims [OF d lc cc])
  have r: "L @ replicate (Suc j) e = (L @ replicate j e) @ [e]" by (simp add: replicate_append_same)
  show ?case using lt w coluna_snoc [OF c1 lc cc, of e] unfolding s r by simp
qed (use c in auto)

text \<open>The number of an edge in the numbering es.\<close>

definition numero :: "(nat \<times> nat) list \<Rightarrow> nat \<times> nat \<Rightarrow> nat" where
  "numero es e = (LEAST t. t < length es \<and> es ! t = e)"

lemma numero: "e \<in> set es \<Longrightarrow> numero es e < length es \<and> es ! numero es e = e"
  unfolding numero_def by (rule LeastI_ex) (simp add: in_set_conv_nth)

lemma numero_eq: "distinct es \<Longrightarrow> t < length es \<Longrightarrow> numero es (es ! t) = t"
  using numero [of "es ! t" es] nth_eq_iff_index_eq [of es "numero es (es ! t)" t] by simp

lemma cell_linha [simp]:
  "t < length es \<Longrightarrow> cell (map linha es) t 0 = int (fst (es ! t))"
  "t < length es \<Longrightarrow> cell (map linha es) t (Suc 0) = int (snd (es ! t))"
  by auto

lemma dims_linha: "dims (length es) 2 (map linha es)"
  by (auto simp: dims_def)

lemma acha_aresta_run:
  assumes "set ts \<subseteq> {..<length es}" and "\<exists>t \<in> set ts. es ! t = (x, y)" and "distinct es"
  shows "acha_aresta (map linha es) (int x) (int y) ts fim = Some (numero es (x, y))"
  using assms
proof (induction ts)
  case (Cons t ts)
  then have t: "t < length es" by simp
  have r: "rd2 (map linha es) (int t) 0 = Some (int (fst (es ! t)))"
    "rd2 (map linha es) (int t) 1 = Some (int (snd (es ! t)))"
    using rd2_dims_0 [OF dims_linha t] rd2_dims_1 [OF dims_linha t] t by simp_all
  show ?case
  proof (cases "es ! t = (x, y)")
    case True
    then show ?thesis using r numero_eq [OF Cons.prems(3) t] by simp
  next
    case False
    then have "\<not> (int (fst (es ! t)) = int x \<and> int (snd (es ! t)) = int y)" by (cases "es ! t") auto
    then show ?thesis using r Cons False by auto
  qed
qed simp

definition fila_slot :: "(nat \<times> nat) list \<Rightarrow> int list \<Rightarrow> (nat \<times> nat) list \<Rightarrow> nat list" where
  "fila_slot es p M = concat (map (\<lambda>e. replicate (nat (p ! fst e)) (numero es e)) M)"

lemma fila_slot_append [simp]: "fila_slot es p (M @ N) = fila_slot es p M @ fila_slot es p N"
  by (simp add: fila_slot_def)

lemma enche_slot_run:
  assumes g: "dims MAX_NOS MAX_NOS (mat_adj adj)" and sub: "set (arestas adj MAX_NOS) \<subseteq> set es"
    and es: "distinct es" and p: "length p = MAX_NOS"
    and al: "dims Channel Timeslot al" and c: "c < Timeslot"
    and l: "length (fila_slot es p (arestas adj MAX_NOS)) \<le> 8"
  shows "runs_to (enche_slot (length es) adj (map linha es) p c (0, al)) (\<lambda>(k, al').
     coluna al c (fila_slot es p (arestas adj MAX_NOS)) al')"
proof -
  let ?q = "\<lambda>(x, y). cell (mat_adj adj) x y \<noteq> 0"
  let ?xs = "List.product [1..<MAX_NOS] [1..<MAX_NOS]"
  let ?P = "\<lambda>ys (k, al'). k = length (fila_slot es p (filter ?q ys)) \<and>
      coluna al c (fila_slot es p (filter ?q ys)) al'"
  have "runs_to (enche_slot (length es) adj (map linha es) p c (0, al)) (?P ?xs)"
    unfolding enche_slot_def for_upt_def loopM_product
  proof (rule loopM_prefix [where P = ?P], goal_cases)
    case 1
    then show ?case using al by (simp add: fila_slot_def coluna_def)
  next
    case (2 ys i zs s)
    obtain x y where i: "i = (x, y)" by force
    have xy: "(x, y) \<in> set ?xs" unfolding 2(1) i by simp
    then have lt: "x < MAX_NOS" "y < MAX_NOS" by auto
    let ?L = "fila_slot es p (filter ?q ys)"
    obtain al1 where s: "s = (length ?L, al1)" and co: "coluna al c ?L al1" using 2(2) by (cases s) simp
    have "arestas adj MAX_NOS = filter ?q (ys @ [i]) @ filter ?q zs" unfolding arestas_def 2(1) by simp
    then have L: "length (fila_slot es p (filter ?q (ys @ [i]))) \<le> 8"
      using l by (simp only: fila_slot_append length_append)
    have ch: "length ?L \<noteq> Channel" using L by (simp add: Channel_def)
    have m: "rd2 (mat_adj adj) (int x) (int y) = Some (cell (mat_adj adj) x y)" by (rule rd2_dims [OF g lt])
    show ?case
    proof (cases "cell (mat_adj adj) x y = 0")
      case True
      then show ?thesis using ch m co unfolding s i by simp
    next
      case False
      have e: "(x, y) \<in> set es" using sub xy False by (auto simp: arestas_def)
      have nu: "numero es (x, y) < length es" "es ! numero es (x, y) = (x, y)" using numero [OF e] by auto
      have "\<exists>t \<in> set [0..<length es]. es ! t = (x, y)" using nu by force
      then have a: "acha_aresta (map linha es) (int x) (int y) [0..<length es] (length es) = Some (numero es (x, y))"
        by (intro acha_aresta_run es) auto
      have r: "rd2 (map linha es) (int (numero es (x, y))) 0 = Some (int x)"
        using rd2_dims_0 [OF dims_linha nu(1)] nu by simp
      have px: "rdi p (int x) = Some (p ! x)" using p lt by simp
      have f: "fila_slot es p (filter ?q (ys @ [i])) = ?L @ replicate (nat (p ! x)) (numero es (x, y))"
        using False i by (simp add: fila_slot_def)
      have "length ?L + nat (p ! x) \<le> 8" using L unfolding f by simp
      from coloca_run [OF co this c, of "numero es (x, y)"]
      show ?thesis using ch m False a r px unfolding f unfolding s i by simp
    qed
  qed
  then show ?thesis by (rule runs_to_mono) (auto simp: arestas_def)
qed

section \<open>Transmitting a slot\<close>

abbreviation orig :: "(nat \<times> nat) list \<Rightarrow> nat list \<Rightarrow> nat \<Rightarrow> nat" where
  "orig es L x \<equiv> length (filter (\<lambda>t. fst (es ! t) = x) L)"

abbreviation dest :: "(nat \<times> nat) list \<Rightarrow> nat list \<Rightarrow> nat \<Rightarrow> nat" where
  "dest es L x \<equiv> length (filter (\<lambda>t. snd (es ! t) = x) L)"

lemma orig_take_le: "orig es (take i L) x \<le> orig es L x"
proof -
  have "orig es L x = orig es (take i L) x + orig es (drop i L) x"
    by (simp flip: length_append filter_append)
  then show ?thesis by simp
qed

lemma executa_run:
  assumes c: "coluna al c L al'" and vazia: "\<forall>i < Channel. cell al i c = -1" and cc: "c < Timeslot"
    and l: "length L \<le> Channel" and es: "\<forall>t \<in> set L. t < length es \<and> fst (es ! t) < MAX_NOS \<and> snd (es ! t) < MAX_NOS"
    and p: "length p = MAX_NOS" and chega: "\<forall>x < MAX_NOS. 0 < orig es L x \<longrightarrow> int (orig es L x) \<le> p ! x"
  shows "runs_to (executa al' (int c) (map linha es) ent no_raiz p) (\<lambda>(ent', p'). length p' = MAX_NOS \<and>
     ent' = ent + int (dest es L 1) \<and>
     (\<forall>x < MAX_NOS. p' ! x = p ! x - int (orig es L x) + int (dest es L x)))"
proof -
  let ?P = "\<lambda>i (ent', p'). length p' = MAX_NOS \<and> ent' = ent + int (dest es (take i L) 1) \<and>
     (\<forall>x < MAX_NOS. p' ! x = p ! x - int (orig es (take i L) x) + int (dest es (take i L) x))"
  have d: "dims Channel Timeslot al'" using c by (simp add: coluna_def)
  have "runs_to (executa al' (int c) (map linha es) ent no_raiz p) (?P Channel)"
    unfolding executa_def
  proof (rule for_upt_inv [where P = ?P], goal_cases)
    case (3 i s)
    obtain e1 p1 where s: "s = (e1, p1)" by (cases s)
    have rdc: "rd2 al' (int i) (int c) = Some (if i < length L then int (L ! i) else -1)"
      using rd2_dims [OF d 3(2) cc] c 3(2) cc vazia by (auto simp: coluna_def)
    show ?case
    proof (cases "i < length L")
      case False
      then show ?thesis using 3 rdc s by simp
    next
      case True
      let ?t = "L ! i"
      obtain a b where ab: "es ! ?t = (a, b)" by force
      have t: "?t < length es" "a < MAX_NOS" "b < MAX_NOS"
        using es [rule_format, OF nth_mem [OF True]] ab by simp_all
      have tk: "take (Suc i) L = take i L @ [?t]" using True by (simp add: take_Suc_conv_app_nth)
      have r: "rd2 (map linha es) (int ?t) 0 = Some (int a)" "rd2 (map linha es) (int ?t) 1 = Some (int b)"
        using rd2_dims_0 [OF dims_linha t(1)] rd2_dims_1 [OF dims_linha t(1)] t ab by simp_all
      have le: "orig es (take (Suc i) L) a \<le> orig es L a" by (rule orig_take_le)
      then have "0 < orig es L a" using ab unfolding tk by (simp del: length_greater_0_conv)
      then have "int (orig es L a) \<le> p ! a" using chega t(2) by blast
      then have "int (orig es (take i L) a) < p ! a" using le ab unfolding tk by simp
      then have pos: "p1 ! a > 0" using 3(3) s t(2) by simp
      have l1: "length p1 = MAX_NOS" using 3(3) s by simp
      have w: "wri p1 (int a) (p1 ! a - peso) = Some (p1[a := p1 ! a - 1])" using l1 t by (simp add: peso_def)
      show ?thesis
        using 3(3) s rdc True r pos w l1 t ab
        unfolding tk by (auto simp: nth_list_update peso_def no_raiz_def)
    qed
  qed (use p in auto)
  then show ?thesis using l by (auto elim!: runs_to_mono)
qed


section \<open>The network\<close>

text \<open>
  What the topology has to be for the simulation to end: links between nodes other than 0, from a
  node that is not the root, each a step down by the height h; and every node a link leads to is
  the root or has a link of its own.
\<close>

definition rede_ok :: "(nat \<times> nat) list \<Rightarrow> (nat \<Rightarrow> nat) \<Rightarrow> bool" where
  "rede_ok es h \<longleftrightarrow> distinct es \<and> (\<forall>(x, y) \<in> set es. 2 \<le> x \<and> x < MAX_NOS \<and> 1 \<le> y \<and> y < MAX_NOS \<and>
     h y < h x \<and> (y = 1 \<or> y \<in> fst ` set es))"

lemma rede_okD:
  assumes "rede_ok es h" and "(x, y) \<in> set es"
  shows "2 \<le> x" "x < MAX_NOS" "1 \<le> y" "y < MAX_NOS" "h y < h x" "y = 1 \<or> y \<in> fst ` set es"
  using assms unfolding rede_ok_def by auto

lemma rede_distinct: "rede_ok es h \<Longrightarrow> distinct es"
  by (simp add: rede_ok_def)

lemma rede_mapa_ok: "rede_ok es h \<Longrightarrow> mapa_ok (length es) MAX_NOS (map linha es)"
  unfolding mapa_ok_def
proof (intro conjI allI impI dims_linha)
  fix x
  assume r: "rede_ok es h" and x: "x < length es"
  have "(fst (es ! x), snd (es ! x)) \<in> set es" using x by simp
  note d = rede_okD [OF r this]
  show "0 < cell (map linha es) x 0" "cell (map linha es) x 0 < int MAX_NOS" "0 < cell (map linha es) x 1"
    "cell (map linha es) x 1 < int MAX_NOS" using d x by simp_all
qed

text \<open>A matching of the network whose transmitters have packets.\<close>

definition emparelhado :: "(nat \<times> nat) list \<Rightarrow> int list \<Rightarrow> ng \<Rightarrow> bool" where
  "emparelhado es p adj \<longleftrightarrow> dims MAX_NOS MAX_NOS (mat_adj adj) \<and>
     (\<exists>S. independente_maximal (map linha es) (length es) S \<and>
       (\<forall>i < MAX_NOS. \<forall>j < MAX_NOS. cell (mat_adj adj) i j \<noteq> 0 \<longrightarrow> (\<exists>t \<in> S. es ! t = (i, j)) \<and> p ! i > 0))"

lemma emparelhado_arestas:
  assumes e: "emparelhado es p adj" and d: "distinct es"
  shows "set (arestas adj MAX_NOS) \<subseteq> set es" and "distinct (map fst (arestas adj MAX_NOS))"
    and "\<forall>e \<in> set (arestas adj MAX_NOS). \<forall>f \<in> set (arestas adj MAX_NOS).
           \<not> conflito (map linha es) (length es) (numero es e) (numero es f)"
proof -
  obtain S where S: "independente_maximal (map linha es) (length es) S"
    and c: "\<And>i j. i < MAX_NOS \<Longrightarrow> j < MAX_NOS \<Longrightarrow> cell (mat_adj adj) i j \<noteq> 0 \<Longrightarrow> \<exists>t \<in> S. es ! t = (i, j)"
    using e unfolding emparelhado_def by blast
  have Sn: "t \<in> S \<Longrightarrow> t < length es" for t using S by (auto simp: independente_maximal_def)
  have ar: "\<exists>t \<in> S. es ! t = e" if "e \<in> set (arestas adj MAX_NOS)" for e
    using that c [of "fst e" "snd e"] by (auto simp: arestas_def)
  show "set (arestas adj MAX_NOS) \<subseteq> set es" using ar Sn by (metis nth_mem subsetI)
  have num: "numero es e \<in> S" if "e \<in> set (arestas adj MAX_NOS)" for e
    using ar [OF that] Sn numero_eq [OF d] by auto
  show "\<forall>e \<in> set (arestas adj MAX_NOS). \<forall>f \<in> set (arestas adj MAX_NOS).
      \<not> conflito (map linha es) (length es) (numero es e) (numero es f)"
    using num S by (auto simp: independente_maximal_def)
  have sem: "sem_no_comum MAX_NOS (mat_adj adj)"
  proof (rule independente_sem_no_comum [OF S])
    fix i j
    assume "i < MAX_NOS" "j < MAX_NOS" "cell (mat_adj adj) i j \<noteq> 0"
    then obtain t where "t \<in> S" "es ! t = (i, j)" using c by blast
    then show "\<exists>x \<in> S. cell (map linha es) x 0 = int i \<and> cell (map linha es) x 1 = int j"
      using Sn by (intro bexI [of _ t]) simp_all
  qed
  have nc: "(i, j) \<noteq> (k, l) \<Longrightarrow> {i, j} \<inter> {k, l} = {}"
    if "(i, j) \<in> set (arestas adj MAX_NOS)" "(k, l) \<in> set (arestas adj MAX_NOS)" for i j k l
  proof -
    note r = arestas_range [OF that(1)] arestas_range [OF that(2)]
    have "cell (mat_adj adj) i j \<noteq> 0" "cell (mat_adj adj) k l \<noteq> 0" using that by (auto simp: arestas_def)
    then show "(i, j) \<noteq> (k, l) \<Longrightarrow> {i, j} \<inter> {k, l} = {}"
      using sem [unfolded sem_no_comum_def, rule_format, of i j k l] r by blast
  qed
  have "inj_on fst (set (arestas adj MAX_NOS))"
  proof (rule inj_onI)
    fix e f
    assume m: "e \<in> set (arestas adj MAX_NOS)" "f \<in> set (arestas adj MAX_NOS)" "fst e = fst f"
    obtain i j k l where ij: "e = (i, j)" "f = (k, l)" by (metis prod.collapse)
    then show "e = f" using nc [of i j k l, OF m(1,2) [unfolded ij]] m(3) by auto
  qed
  then show "distinct (map fst (arestas adj MAX_NOS))" by (simp add: distinct_map distinct_arestas)
qed

section \<open>Counting packets\<close>

lemma soma_contagem:
  assumes "finite A" and "f ` set L \<subseteq> A"
  shows "(\<Sum>x \<in> A. int (length (filter (\<lambda>t. f t = x) L)) * w x) = (\<Sum>t \<leftarrow> L. (w (f t) :: int))"
  using assms(2)
proof (induction L)
  case (Cons t L)
  have "(\<Sum>x \<in> A. int (length (filter (\<lambda>u. f u = x) (t # L))) * w x) =
      (\<Sum>x \<in> A. (if f t = x then w x else 0) + int (length (filter (\<lambda>u. f u = x) L)) * w x)"
    by (intro sum.cong refl) (simp add: algebra_simps)
  also have "\<dots> = w (f t) + (\<Sum>t \<leftarrow> L. w (f t))"
    using Cons assms(1) by (simp add: sum.distrib)
  finally show ?case by simp
qed simp

lemma orig_fila:
  assumes "distinct (map fst M)" and "set M \<subseteq> set es"
  shows "orig es (fila_slot es p M) x = (if x \<in> fst ` set M then nat (p ! x) else 0)"
  using assms
proof (induction M)
  case (Cons e M)
  then have "es ! numero es e = e" using numero [of e es] by simp
  then have "orig es (fila_slot es p (e # M)) x
      = (if fst e = x then nat (p ! fst e) else 0) + orig es (fila_slot es p M) x"
    by (simp add: fila_slot_def filter_replicate)
  then show ?case using Cons by (cases "fst e = x") auto
qed (simp add: fila_slot_def)

lemma fila_slot_set:
  "t \<in> set (fila_slot es p M) \<longleftrightarrow> (\<exists>e \<in> set M. t = numero es e \<and> p ! fst e > 0)"
  by (auto simp: fila_slot_def)

definition restam :: "int list \<Rightarrow> int" where
  "restam p = (\<Sum>x \<in> {2..<MAX_NOS}. p ! x)"

definition saltos :: "(nat \<Rightarrow> nat) \<Rightarrow> int list \<Rightarrow> int" where
  "saltos h p = (\<Sum>x \<in> {2..<MAX_NOS}. p ! x * int (h x))"

text \<open>
  After a slot with the entries L: no packet is lost, and the packets are nearer to the root by
  at least one hop each.
\<close>

lemma transporte:
  assumes r: "rede_ok es h" and L: "\<forall>t \<in> set L. t < length es"
    and p': "\<forall>x < MAX_NOS. p' ! x = p ! x - int (orig es L x) + int (dest es L x)"
  shows "restam p' + int (dest es L 1) = restam p" and "saltos h p' + int (length L) \<le> saltos h p"
proof -
  have e: "(fst (es ! t), snd (es ! t)) \<in> set es" if "t \<in> set L" for t using L that by simp
  have o: "(\<lambda>t. fst (es ! t)) ` set L \<subseteq> {2..<MAX_NOS}" using rede_okD(1,2) [OF r e] by auto
  have d: "(\<lambda>t. snd (es ! t)) ` set L \<subseteq> {1..<MAX_NOS}" using rede_okD(3,4) [OF r e] by auto
  have i: "{1..<MAX_NOS} = insert 1 {2..<MAX_NOS}" by (auto simp: MAX_NOS_def)
  have so: "(\<Sum>x \<in> {2..<MAX_NOS}. int (orig es L x) * w x) = (\<Sum>t \<leftarrow> L. w (fst (es ! t)))" for w
    by (rule soma_contagem [OF _ o]) simp
  have sd: "int (dest es L 1) * w 1 + (\<Sum>x \<in> {2..<MAX_NOS}. int (dest es L x) * w x) = (\<Sum>t \<leftarrow> L. w (snd (es ! t)))" for w
    using soma_contagem [OF _ d, of w] unfolding i by simp
  have "restam p' = restam p - (\<Sum>x \<in> {2..<MAX_NOS}. int (orig es L x)) + (\<Sum>x \<in> {2..<MAX_NOS}. int (dest es L x))"
    using p' by (simp add: restam_def sum.distrib sum_subtractf)
  then show "restam p' + int (dest es L 1) = restam p"
    using so [of "\<lambda>_. 1"] sd [of "\<lambda>_. 1"] by (simp add: sum_list_triv)
  have "saltos h p' = (\<Sum>x \<in> {2..<MAX_NOS}. p ! x * int (h x) - int (orig es L x) * int (h x)
      + int (dest es L x) * int (h x))"
    unfolding saltos_def by (intro sum.cong refl) (simp add: p' left_diff_distrib distrib_right)
  then have "saltos h p' = saltos h p - (\<Sum>x \<in> {2..<MAX_NOS}. int (orig es L x) * int (h x))
      + (\<Sum>x \<in> {2..<MAX_NOS}. int (dest es L x) * int (h x))"
    by (simp only: saltos_def sum.distrib sum_subtractf)
  then have "saltos h p' \<le> saltos h p - (\<Sum>t \<leftarrow> L. int (h (fst (es ! t)))) + (\<Sum>t \<leftarrow> L. int (h (snd (es ! t))))"
    using so [of "\<lambda>x. int (h x)"] sd [of "\<lambda>x. int (h x)"]
      mult_nonneg_nonneg [of "int (dest es L 1)" "int (h 1)"] by linarith
  moreover have "(\<Sum>t \<leftarrow> K. int (h (snd (es ! t)))) + int (length K) \<le> (\<Sum>t \<leftarrow> K. int (h (fst (es ! t))))"
    if "set K \<subseteq> set L" for K
    using that
  proof (induction K)
    case (Cons t K)
    then have "h (snd (es ! t)) < h (fst (es ! t))" using rede_okD(5) [OF r e [of t]] by simp
    then show ?case using Cons by simp
  qed simp
  ultimately show "saltos h p' + int (length L) \<le> saltos h p" by fastforce
qed


section \<open>The simulation\<close>

definition borda_zero :: "ng \<Rightarrow> bool" where
  "borda_zero adj \<longleftrightarrow> (\<forall>i < MAX_NOS. cell (mat_adj adj) 0 i = 0 \<and> cell (mat_adj adj) i 0 = 0)"

text \<open>The packets that are left are at nodes that can send them.\<close>

definition pac_ok :: "(nat \<times> nat) list \<Rightarrow> int list \<Rightarrow> bool" where
  "pac_ok es p \<longleftrightarrow> length p = MAX_NOS \<and> (\<forall>x \<in> {2..<MAX_NOS}. 0 \<le> p ! x \<and> (p ! x > 0 \<longrightarrow> x \<in> fst ` set es))"

definition sorteio_ok :: "(nat \<Rightarrow> nat) \<Rightarrow> bool" where
  "sorteio_ok rnd \<longleftrightarrow> (\<exists>k. \<not> dcfl_ruim MAX_NOS no_raiz (int (rnd k mod MAX_NOS)))"

lemma restam_pos:
  assumes "restam p > 0"
  obtains x where "2 \<le> x" "x < MAX_NOS" "p ! x > 0"
proof -
  have "\<exists>x \<in> {2..<MAX_NOS}. p ! x > 0"
    using assms unfolding restam_def by (meson linorder_not_less sum_nonpos)
  then show ?thesis using that by auto
qed

lemma linha_aresta:
  "t < length es \<Longrightarrow> cell (map linha es) t 0 = int i \<Longrightarrow> cell (map linha es) t 1 = int j \<Longrightarrow> es ! t = (i, j)"
  by (cases "es ! t") simp

lemma DCFL_turno:
  assumes r: "rede_ok es h" and rnd: "sorteio_ok rnd" and p: "pac_ok es p" and res: "restam p > 0"
    and g0: "dims (length es) (length es) g0"
    and gc: "fazMatrizConf (length es) (map linha es) g0 = Some gc"
    and d: "dims MAX_NOS MAX_NOS (mat_adj adj)" and bz: "borda_zero adj"
  shows "runs_to (DCFL rnd (length es) MAX_NOS p gc (map linha es) no_raiz adj (vetor_zero (length es)))
    (\<lambda>(adj', _). emparelhado es p adj' \<and> borda_zero adj' \<and>
       (\<exists>i < MAX_NOS. \<exists>j < MAX_NOS. cell (mat_adj adj') i j \<noteq> 0))"
proof -
  have lp: "length p = MAX_NOS" using p by (simp add: pac_ok_def)
  obtain k where k: "\<not> dcfl_ruim MAX_NOS no_raiz (int (rnd k mod MAX_NOS))"
    using rnd by (auto simp: sorteio_ok_def)
  have pos: "0 < MAX_NOS" by (simp add: MAX_NOS_def)
  obtain b where b: "0 < b" "b < MAX_NOS" "int b \<noteq> no_raiz"
    and mx: "\<forall>x. 1 \<le> x \<longrightarrow> x < MAX_NOS \<longrightarrow> int x \<noteq> no_raiz \<longrightarrow> p ! x \<le> p ! b"
    and run: "DCFL rnd (length es) MAX_NOS p gc (map linha es) no_raiz adj (vetor_zero (length es)) =
      (case List.find (\<lambda>x. cell (map linha es) x 0 = int b) [0..<length es] of
         Some x \<Rightarrow> geraMaching (length es) MAX_NOS p gc (map linha es) x adj (vetor_zero (length es))
       | None \<Rightarrow> Some (adj, vetor_zero (length es)))"
    using DCFL_run [where rnd = rnd and k = k, OF k lp dims_linha [of es] pos, of gc adj "vetor_zero (length es)"] by auto
  have b2: "2 \<le> b" using b by (simp add: no_raiz_def)
  obtain x where x: "2 \<le> x" "x < MAX_NOS" "p ! x > 0" using restam_pos [OF res] .
  then have "p ! x \<le> p ! b" using mx by (simp add: no_raiz_def)
  then have pb: "p ! b > 0" using x by simp
  then have "b \<in> fst ` set es" using p b b2 by (auto simp: pac_ok_def)
  then obtain t where t: "t < length es" "fst (es ! t) = b" by (auto simp: in_set_conv_nth)
  have "List.find (\<lambda>x. cell (map linha es) x 0 = int b) [0..<length es] \<noteq> None"
    using t by (auto simp: find_None_iff)
  then obtain u where u: "List.find (\<lambda>x. cell (map linha es) x 0 = int b) [0..<length es] = Some u" by auto
  then have ul: "u < length es" and ub: "cell (map linha es) u 0 = int b" using find_Some_nth by blast+
  have v: "dims (length es) 2 (vetor_zero (length es))" by (simp add: vetor_zero_def)
  obtain adj' w S where gm: "geraMaching (length es) MAX_NOS p gc (map linha es) u adj (vetor_zero (length es)) = Some (adj', w)"
    and d': "dims MAX_NOS MAX_NOS (mat_adj adj')" and S: "u \<in> S" "independente_maximal (map linha es) (length es) S"
    and cl: "\<And>i j. i < MAX_NOS \<Longrightarrow> j < MAX_NOS \<Longrightarrow> cell (mat_adj adj') i j =
        (if \<exists>x \<in> S. cell (map linha es) x 0 = int i \<and> cell (map linha es) x 1 = int j \<and> p ! i > 0 then 1
         else if 1 \<le> i \<and> i < MAX_NOS \<and> 1 \<le> j \<and> j < MAX_NOS then 0 else cell (mat_adj adj) i j)"
    using geraMaching_run [OF rede_mapa_ok [OF r] lp order_refl g0 gc ul v d] by blast
  have Sn: "t \<in> S \<Longrightarrow> t < length es" for t using S(2) by (auto simp: independente_maximal_def)
  have nz: "\<exists>t \<in> S. es ! t = (i, j) \<and> p ! i > 0" if ij: "i < MAX_NOS" "j < MAX_NOS" "cell (mat_adj adj') i j \<noteq> 0" for i j
  proof -
    have "cell (mat_adj adj) i j = 0" if "i = 0 \<or> j = 0" using bz ij that by (auto simp: borda_zero_def)
    then have "\<exists>x \<in> S. cell (map linha es) x 0 = int i \<and> cell (map linha es) x 1 = int j \<and> p ! i > 0"
      using ij(3) unfolding cl [OF ij(1,2)] using ij(1,2) by (auto split: if_splits)
    then show ?thesis using Sn linha_aresta by blast
  qed
  have "emparelhado es p adj'" unfolding emparelhado_def using d' S(2) nz by blast
  moreover have "borda_zero adj'"
  proof -
    have "(i, j) \<in> set es" if "i < MAX_NOS" "j < MAX_NOS" "cell (mat_adj adj') i j \<noteq> 0" for i j
      using nz [OF that] Sn by (metis nth_mem)
    then show ?thesis unfolding borda_zero_def using rede_okD(1,3) [OF r] pos
      by (metis not_one_le_zero not_numeral_le_zero)
  qed
  moreover have "cell (mat_adj adj') b (snd (es ! u)) \<noteq> 0" "snd (es ! u) < MAX_NOS"
  proof -
    have e: "(fst (es ! u), snd (es ! u)) \<in> set es" using ul by simp
    show s: "snd (es ! u) < MAX_NOS" using rede_okD(4) [OF r e] .
    have "\<exists>x \<in> S. cell (map linha es) x 0 = int b \<and> cell (map linha es) x 1 = int (snd (es ! u)) \<and> p ! b > 0"
      using S(1) ub ul pb by (intro bexI [of _ u]) auto
    then show "cell (mat_adj adj') b (snd (es ! u)) \<noteq> 0" unfolding cl [OF b(2) s] by simp
  qed
  ultimately show ?thesis unfolding run u using gm b(2) by (auto simp: runs_to_def)
qed

text \<open>
  The table so far: an entry is -1 or the number of an edge, two entries of a slot do not conflict
  and the slots not yet reached are empty.
\<close>

definition slot_ok :: "(nat \<times> nat) list \<Rightarrow> int list list \<Rightarrow> nat \<Rightarrow> bool" where
  "slot_ok es al c \<longleftrightarrow> (\<forall>i < Channel. cell al i c = -1 \<or> 0 \<le> cell al i c \<and> cell al i c < int (length es)) \<and>
     (\<forall>i < Channel. \<forall>k < Channel. cell al i c \<noteq> -1 \<longrightarrow> cell al k c \<noteq> -1 \<longrightarrow>
        \<not> conflito (map linha es) (length es) (nat (cell al i c)) (nat (cell al k c)))"

definition escalado :: "(nat \<times> nat) list \<Rightarrow> int list list \<Rightarrow> nat \<Rightarrow> bool" where
  "escalado es al x \<longleftrightarrow> (\<exists>i < Channel. \<exists>c < Timeslot. \<exists>t < length es. cell al i c = int t \<and> fst (es ! t) = x)"

definition sim_inv :: "(nat \<times> nat) list \<Rightarrow> (nat \<Rightarrow> nat) \<Rightarrow> int \<Rightarrow> simulacao \<Rightarrow> bool" where
  "sim_inv es h tot m \<longleftrightarrow>
     dims MAX_NOS MAX_NOS (mat_adj (sim_adj m)) \<and> borda_zero (sim_adj m) \<and>
     dims Channel Timeslot (sim_aloca m) \<and> pac_ok es (sim_pacotes m) \<and>
     sim_entregue m + restam (sim_pacotes m) = tot \<and> restam (sim_pacotes m) \<le> 8 \<and>
     int (sim_cont m) + saltos h (sim_pacotes m) \<le> 8 \<and>
     (\<forall>c < Timeslot. slot_ok es (sim_aloca m) c) \<and>
     (\<forall>c < Timeslot. sim_cont m \<le> c \<longrightarrow> (\<forall>i < Channel. cell (sim_aloca m) i c = -1)) \<and>
     (\<forall>x \<in> fst ` set es. sim_pacotes m ! x > 0 \<or> escalado es (sim_aloca m) x) \<and>
     (restam (sim_pacotes m) > 0 \<longrightarrow> emparelhado es (sim_pacotes m) (sim_adj m) \<and>
        (\<exists>i < MAX_NOS. \<exists>j < MAX_NOS. cell (mat_adj (sim_adj m)) i j \<noteq> 0))"


lemma DCFL_definido:
  assumes r: "rede_ok es h" and rnd: "sorteio_ok rnd" and lp: "length p = MAX_NOS"
    and g0: "dims (length es) (length es) g0"
    and gc: "fazMatrizConf (length es) (map linha es) g0 = Some gc"
    and d: "dims MAX_NOS MAX_NOS (mat_adj adj)" and bz: "borda_zero adj"
  shows "runs_to (DCFL rnd (length es) MAX_NOS p gc (map linha es) no_raiz adj (vetor_zero (length es)))
    (\<lambda>(adj', _). dims MAX_NOS MAX_NOS (mat_adj adj') \<and> borda_zero adj')"
proof -
  obtain k where k: "\<not> dcfl_ruim MAX_NOS no_raiz (int (rnd k mod MAX_NOS))"
    using rnd by (auto simp: sorteio_ok_def)
  have pos: "0 < MAX_NOS" by (simp add: MAX_NOS_def)
  obtain b where run: "DCFL rnd (length es) MAX_NOS p gc (map linha es) no_raiz adj (vetor_zero (length es)) =
      (case List.find (\<lambda>x. cell (map linha es) x 0 = int b) [0..<length es] of
         Some x \<Rightarrow> geraMaching (length es) MAX_NOS p gc (map linha es) x adj (vetor_zero (length es))
       | None \<Rightarrow> Some (adj, vetor_zero (length es)))"
    using DCFL_run [where rnd = rnd and k = k, OF k lp dims_linha [of es] pos, of gc adj "vetor_zero (length es)"] by auto
  show ?thesis
  proof (cases "List.find (\<lambda>x. cell (map linha es) x 0 = int b) [0..<length es]")
    case None
    then show ?thesis using run d bz by simp
  next
    case (Some u)
    then have ul: "u < length es" using find_Some_nth by blast
    have v: "dims (length es) 2 (vetor_zero (length es))" by (simp add: vetor_zero_def)
    obtain adj' w S where gm: "geraMaching (length es) MAX_NOS p gc (map linha es) u adj (vetor_zero (length es)) = Some (adj', w)"
      and d': "dims MAX_NOS MAX_NOS (mat_adj adj')" and S: "independente_maximal (map linha es) (length es) S"
      and cl: "\<And>i j. i < MAX_NOS \<Longrightarrow> j < MAX_NOS \<Longrightarrow> cell (mat_adj adj') i j =
          (if \<exists>x \<in> S. cell (map linha es) x 0 = int i \<and> cell (map linha es) x 1 = int j \<and> p ! i > 0 then 1
           else if 1 \<le> i \<and> i < MAX_NOS \<and> 1 \<le> j \<and> j < MAX_NOS then 0 else cell (mat_adj adj) i j)"
      using geraMaching_run [OF rede_mapa_ok [OF r] lp order_refl g0 gc ul v d] by blast
    have no: "\<not> (\<exists>x \<in> S. cell (map linha es) x 0 = int i \<and> cell (map linha es) x 1 = int j \<and> p ! i > 0)"
      if "i = 0 \<or> j = 0" for i j
    proof (intro notI, elim bexE conjE)
      fix x
      assume x: "x \<in> S" "cell (map linha es) x 0 = int i" "cell (map linha es) x 1 = int j"
      then have "x < length es" using S by (auto simp: independente_maximal_def)
      then have "(i, j) \<in> set es" using linha_aresta [OF _ x(2,3)] by (metis nth_mem)
      then show False using rede_okD(1,3) [OF r] that by fastforce
    qed
    have "cell (mat_adj adj') i j = 0" if ij: "i < MAX_NOS" "j < MAX_NOS" "i = 0 \<or> j = 0" for i j
    proof -
      have "cell (mat_adj adj) i j = 0" using bz ij by (auto simp: borda_zero_def)
      then show ?thesis unfolding cl [OF ij(1,2)] using no [OF ij(3)] by simp
    qed
    then have "borda_zero adj'" using pos by (simp add: borda_zero_def)
    then show ?thesis using run Some gm d' by simp
  qed
qed

lemma saltos_pos:
  assumes r: "rede_ok es h" and p: "pac_ok es p"
  shows "0 \<le> saltos h p" and "restam p > 0 \<Longrightarrow> saltos h p > 0"
proof -
  have nn: "0 \<le> p ! x * int (h x)" if "x \<in> {2..<MAX_NOS}" for x using p that by (auto simp: pac_ok_def)
  then show "0 \<le> saltos h p" unfolding saltos_def by (rule sum_nonneg)
  assume "restam p > 0"
  then obtain x where x: "2 \<le> x" "x < MAX_NOS" "p ! x > 0" using restam_pos by blast
  then obtain y where "(x, y) \<in> set es" using p by (force simp: pac_ok_def)
  then have "0 < h x" using rede_okD(5) [OF r] by fastforce
  then have "0 < p ! x * int (h x)" using x by simp
  then show "saltos h p > 0"
    unfolding saltos_def using nn x by (intro sum_pos2 [of _ x]) auto
qed

text \<open>The entries of a slot: not too many, at least one, each sent by a node that has the packet.\<close>

lemma entradas:
  fixes p :: "int list"
  assumes r: "rede_ok es h" and p: "pac_ok es p" and e: "emparelhado es p adj" and bz: "borda_zero adj"
  defines "L \<equiv> fila_slot es p (arestas adj MAX_NOS)"
  shows "\<forall>t \<in> set L. t < length es" and "int (length L) \<le> restam p"
    and "\<forall>x. int (orig es L x) \<le> max 0 (p ! x)"
    and "\<forall>t \<in> set L. \<forall>u \<in> set L. \<not> conflito (map linha es) (length es) t u"
    and "\<exists>i < MAX_NOS. \<exists>j < MAX_NOS. cell (mat_adj adj) i j \<noteq> 0 \<Longrightarrow> L \<noteq> []"
proof -
  note M = emparelhado_arestas [OF e rede_distinct [OF r]]
  show lt: "\<forall>t \<in> set L. t < length es" using M(1) numero [of _ es] unfolding L_def Ball_def fila_slot_set by blast
  show ol: "\<forall>x. int (orig es L x) \<le> max 0 (p ! x)" unfolding L_def orig_fila [OF M(2,1)] by auto
  show "\<forall>t \<in> set L. \<forall>u \<in> set L. \<not> conflito (map linha es) (length es) t u"
    using M(3) unfolding L_def Ball_def fila_slot_set by blast
  have "(fst (es ! t), snd (es ! t)) \<in> set es" if "t \<in> set L" for t using lt that by simp
  note rg = rede_okD(1,2) [OF r this]
  then have "(\<lambda>t. fst (es ! t)) ` set L \<subseteq> {2..<MAX_NOS}" by auto
  then have "int (length L) = (\<Sum>x \<in> {2..<MAX_NOS}. int (orig es L x) * 1)"
    using soma_contagem [of "{2..<MAX_NOS}" "\<lambda>t. fst (es ! t)" L "\<lambda>_. 1"] by (simp add: sum_list_triv)
  also have "\<dots> \<le> restam p"
    unfolding restam_def
  proof (rule sum_mono)
    fix x
    assume "x \<in> {2..<MAX_NOS}"
    then have "0 \<le> p ! x" using p by (auto simp: pac_ok_def)
    then show "int (orig es L x) * 1 \<le> p ! x" using ol [rule_format, of x] by simp
  qed
  finally show "int (length L) \<le> restam p" .
  assume "\<exists>i < MAX_NOS. \<exists>j < MAX_NOS. cell (mat_adj adj) i j \<noteq> 0"
  then obtain i j where c: "i < MAX_NOS" "j < MAX_NOS" "cell (mat_adj adj) i j \<noteq> 0" by blast
  then have "i \<noteq> 0 \<and> j \<noteq> 0" using bz by (cases "i = 0"; cases "j = 0") (auto simp: borda_zero_def)
  then have "(i, j) \<in> set (arestas adj MAX_NOS)" using c by (auto simp: arestas_def)
  moreover have "p ! i > 0" using e c by (auto simp: emparelhado_def)
  ultimately have "numero es (i, j) \<in> set L" unfolding L_def fila_slot_set by force
  then show "L \<noteq> []" by auto
qed

text \<open>The table after a slot is filled.\<close>

lemma tabela_coluna:
  assumes co: "coluna al c L al'" and vazia: "\<forall>i < Channel. cell al i c = -1" and c: "c < Timeslot"
    and so: "\<forall>k < Timeslot. slot_ok es al k"
    and lt: "\<forall>t \<in> set L. t < length es" and nc: "\<forall>t \<in> set L. \<forall>u \<in> set L. \<not> conflito (map linha es) (length es) t u"
  shows "\<forall>k < Timeslot. slot_ok es al' k" and "escalado es al x \<Longrightarrow> escalado es al' x"
    and "length L \<le> Channel \<Longrightarrow> t \<in> set L \<Longrightarrow> escalado es al' (fst (es ! t))"
proof -
  have cl: "cell al' i k = (if k = c then if i < length L then int (L ! i) else -1 else cell al i k)"
    if "i < Channel" "k < Timeslot" for i k
    using co vazia that by (auto simp: coluna_def)
  show "\<forall>k < Timeslot. slot_ok es al' k"
  proof (intro allI impI)
    fix k
    assume k: "k < Timeslot"
    show "slot_ok es al' k"
    proof (cases "k = c")
      case True
      then show ?thesis using cl k lt nc by (auto simp: slot_ok_def)
    next
      case False
      then show ?thesis using so k cl by (simp add: slot_ok_def)
    qed
  qed
  show "escalado es al' x" if es: "escalado es al x"
  proof -
    obtain i k t where e: "i < Channel" "k < Timeslot" "t < length es" "cell al i k = int t" "fst (es ! t) = x"
      using es by (auto simp: escalado_def)
    then have "k \<noteq> c" using vazia by auto
    then have "cell al' i k = int t" using cl e by simp
    then show ?thesis unfolding escalado_def using e by blast
  qed
  show "escalado es al' (fst (es ! t))" if l: "length L \<le> Channel" and t: "t \<in> set L"
  proof -
    obtain i where i: "i < length L" "L ! i = t" using t by (auto simp: in_set_conv_nth)
    then have "cell al' i c = int t" "i < Channel" using cl [of i c] c l by simp_all
    then show ?thesis unfolding escalado_def using c lt t by blast
  qed
qed


lemma sim_transporte:
  assumes r: "rede_ok es h" and p: "pac_ok es p" and lt: "\<forall>t \<in> set L. t < length es"
    and ol: "\<forall>x. int (orig es L x) \<le> max 0 (p ! x)"
    and l': "length p' = MAX_NOS" and p': "\<forall>x < MAX_NOS. p' ! x = p ! x - int (orig es L x) + int (dest es L x)"
  shows "pac_ok es p'" and "2 \<le> x \<Longrightarrow> x < MAX_NOS \<Longrightarrow> p ! x > 0 \<Longrightarrow> p' ! x > 0 \<or> (\<exists>t \<in> set L. fst (es ! t) = x)"
proof -
  have e: "(fst (es ! t), snd (es ! t)) \<in> set es" if "t \<in> set L" for t using lt that by simp
  show "pac_ok es p'"
    unfolding pac_ok_def
  proof (intro conjI ballI impI l')
    fix x
    assume x: "x \<in> {2..<MAX_NOS}"
    have px: "0 \<le> p ! x" and eq: "p' ! x = p ! x - int (orig es L x) + int (dest es L x)"
      using p p' x by (auto simp: pac_ok_def)
    then show "0 \<le> p' ! x" using ol [rule_format, of x] by simp
    assume "p' ! x > 0"
    then consider "p ! x > 0" | "0 < dest es L x" using eq by linarith
    then show "x \<in> fst ` set es"
    proof cases
      case 1
      then show ?thesis using p x by (auto simp: pac_ok_def)
    next
      case 2
      then obtain t where "t \<in> set L" "snd (es ! t) = x" by (auto simp: filter_empty_conv)
      then show ?thesis using rede_okD(6) [OF r e, of t] x by auto
    qed
  qed
  show "p' ! x > 0 \<or> (\<exists>t \<in> set L. fst (es ! t) = x)" if x: "2 \<le> x" "x < MAX_NOS" "p ! x > 0"
  proof (cases "\<exists>t \<in> set L. fst (es ! t) = x")
    case False
    then have "orig es L x = 0" by (auto simp: filter_empty_conv)
    then show ?thesis using p' x by simp
  qed simp
qed

lemma turno_inv:
  assumes r: "rede_ok es h" and rnd: "\<forall>k. sorteio_ok (rnd k)" and m: "sim_inv es h tot m"
    and g0: "dims (length es) (length es) g0"
    and gc: "fazMatrizConf (length es) (map linha es) g0 = Some gc"
    and pend: "sim_entregue m < tot"
  shows "runs_to (turno rnd (length es) (map linha es) gc m) (\<lambda>m'. sim_inv es h tot m' \<and>
     saltos h (sim_pacotes m') < saltos h (sim_pacotes m))"
proof -
  let ?p = "sim_pacotes m" and ?adj = "sim_adj m" and ?al = "sim_aloca m" and ?c = "sim_cont m"
  have d: "dims MAX_NOS MAX_NOS (mat_adj ?adj)" and bz: "borda_zero ?adj" and al: "dims Channel Timeslot ?al"
    and p: "pac_ok es ?p" and cons: "sim_entregue m + restam ?p = tot" and r8: "restam ?p \<le> 8"
    and ct: "int ?c + saltos h ?p \<le> 8" and so: "\<forall>c < Timeslot. slot_ok es ?al c"
    and vz: "\<forall>c < Timeslot. ?c \<le> c \<longrightarrow> (\<forall>i < Channel. cell ?al i c = -1)"
    and esc: "\<forall>x \<in> fst ` set es. ?p ! x > 0 \<or> escalado es ?al x"
    and mt: "restam ?p > 0 \<longrightarrow> emparelhado es ?p ?adj \<and> (\<exists>i < MAX_NOS. \<exists>j < MAX_NOS. cell (mat_adj ?adj) i j \<noteq> 0)"
    using m unfolding sim_inv_def by blast+
  have rp: "restam ?p > 0" using pend cons by simp
  have lp: "length ?p = MAX_NOS" using p by (simp add: pac_ok_def)
  have em: "emparelhado es ?p ?adj" and ex: "\<exists>i < MAX_NOS. \<exists>j < MAX_NOS. cell (mat_adj ?adj) i j \<noteq> 0"
    using mt rp by auto
  have c8: "?c < Timeslot" using ct saltos_pos(2) [OF r p rp] by (simp add: Timeslot_def)
  define L where "L = fila_slot es ?p (arestas ?adj MAX_NOS)"
  note en = entradas [OF r p em bz, folded L_def]
  have L0: "L \<noteq> []" by (rule en(5) [OF ex])
  have l8: "length L \<le> 8" using en(2) r8 by linarith
  then have lc: "length L \<le> Channel" by (simp add: Channel_def)
  obtain k al' where fill: "enche_slot (length es) ?adj (map linha es) ?p ?c (0, ?al) = Some (k, al')"
    and co: "coluna ?al ?c L al'"
    using enche_slot_run [OF d emparelhado_arestas(1) [OF em rede_distinct [OF r]] rede_distinct [OF r] lp al c8]
      l8 unfolding L_def by (auto simp: runs_to_def)
  have vc: "\<forall>i < Channel. cell ?al i ?c = -1" using vz c8 by blast
  have ln: "\<forall>t \<in> set L. t < length es \<and> fst (es ! t) < MAX_NOS \<and> snd (es ! t) < MAX_NOS"
  proof
    fix t
    assume t: "t \<in> set L"
    then have "(fst (es ! t), snd (es ! t)) \<in> set es" using en(1) by simp
    then show "t < length es \<and> fst (es ! t) < MAX_NOS \<and> snd (es ! t) < MAX_NOS"
      using rede_okD(2,4) [OF r] en(1) t by blast
  qed
  have chega: "\<forall>x < MAX_NOS. 0 < orig es L x \<longrightarrow> int (orig es L x) \<le> ?p ! x"
  proof (intro allI impI)
    fix x
    assume "0 < orig es L x"
    then show "int (orig es L x) \<le> ?p ! x" using en(3) [rule_format, of x] by linarith
  qed
  obtain ent' p' where exec: "executa al' (int ?c) (map linha es) (sim_entregue m) no_raiz ?p = Some (ent', p')"
    and lp': "length p' = MAX_NOS" and ent': "ent' = sim_entregue m + int (dest es L 1)"
    and p': "\<forall>x < MAX_NOS. p' ! x = ?p ! x - int (orig es L x) + int (dest es L x)"
    using executa_run [OF co vc c8 lc ln lp chega, of "sim_entregue m"] by (auto simp: runs_to_def)
  note st = sim_transporte [OF r p en(1,3) lp' p']
  note tr = transporte [OF r en(1) p']
  note tc = tabela_coluna [OF co vc c8 so en(1,4)]
  have "runs_to (DCFL (rnd (Suc (sim_turno m))) (length es) MAX_NOS p' gc (map linha es) no_raiz ?adj (vetor_zero (length es)))
    (\<lambda>(adj', _). dims MAX_NOS MAX_NOS (mat_adj adj') \<and> borda_zero adj' \<and>
      (restam p' > 0 \<longrightarrow> emparelhado es p' adj' \<and> (\<exists>i < MAX_NOS. \<exists>j < MAX_NOS. cell (mat_adj adj') i j \<noteq> 0)))"
  proof (cases "restam p' > 0")
    case True
    show ?thesis
      by (rule runs_to_mono [OF DCFL_turno [OF r rnd [rule_format] st(1) True g0 gc d bz]]) (auto simp: emparelhado_def)
  next
    case False
    then show ?thesis
      by (intro runs_to_mono [OF DCFL_definido [OF r rnd [rule_format] lp' g0 gc d bz]]) auto
  qed
  then obtain adj' w where dc: "DCFL (rnd (Suc (sim_turno m))) (length es) MAX_NOS p' gc (map linha es) no_raiz ?adj (vetor_zero (length es)) = Some (adj', w)"
    and adj': "dims MAX_NOS MAX_NOS (mat_adj adj')" "borda_zero adj'"
      "restam p' > 0 \<longrightarrow> emparelhado es p' adj' \<and> (\<exists>i < MAX_NOS. \<exists>j < MAX_NOS. cell (mat_adj adj') i j \<noteq> 0)"
    by (auto simp: runs_to_def)
  let ?m' = "\<lparr>sim_adj = adj', sim_aloca = al', sim_cont = Suc ?c, sim_pacotes = p',
           sim_entregue = ent', sim_turno = Suc (sim_turno m)\<rparr>"
  have ne8: "?c \<noteq> Timeslot" using c8 by simp
  have run: "turno rnd (length es) (map linha es) gc m = Some ?m'"
    unfolding turno_def using fill exec dc ne8 by simp
  have L1: "1 \<le> int (length L)" using L0 by (cases L) simp_all
  have menos: "saltos h p' + 1 \<le> saltos h ?p" using tr(2) L1 by simp
  have ouvir: "\<forall>x \<in> fst ` set es. p' ! x > 0 \<or> escalado es al' x"
  proof
    fix x
    assume x: "x \<in> fst ` set es"
    then obtain y where "(x, y) \<in> set es" by auto
    then have x2: "2 \<le> x" "x < MAX_NOS" using rede_okD(1,2) [OF r] by auto
    from esc x consider "?p ! x > 0" | "escalado es ?al x" by auto
    then show "p' ! x > 0 \<or> escalado es al' x"
    proof cases
      case 1
      then show ?thesis using st(2) [OF x2 1] tc(3) [OF lc] by blast
    qed (use tc(2) in blast)
  qed
  have "sim_inv es h tot ?m'"
    unfolding sim_inv_def simulacao.simps
  proof (intro conjI)
    show "dims Channel Timeslot al'" using co by (simp add: coluna_def)
    show "ent' + restam p' = tot" using tr(1) cons ent' by simp
    show "restam p' \<le> 8" using tr(1) r8 by linarith
    show "int (Suc ?c) + saltos h p' \<le> 8" using menos ct by simp
    show "\<forall>c < Timeslot. Suc ?c \<le> c \<longrightarrow> (\<forall>i < Channel. cell al' i c = -1)"
      using co vz by (auto simp: coluna_def)
  qed (use adj' st(1) tc(1) ouvir in blast)+
  then show ?thesis using run menos by simp
qed


lemma simula_inv:
  assumes r: "rede_ok es h" and rnd: "\<forall>k. sorteio_ok (rnd k)"
    and g0: "dims (length es) (length es) g0"
    and gc: "fazMatrizConf (length es) (map linha es) g0 = Some gc"
    and m: "sim_inv es h tot m"
  shows "runs_to (simula rnd (length es) (map linha es) gc tot m) (\<lambda>m'. sim_inv es h tot m' \<and> \<not> sim_entregue m' < tot)"
  using m
proof (induction "nat (saltos h (sim_pacotes m))" arbitrary: m rule: less_induct)
  case less
  show ?case
  proof (cases "sim_entregue m < tot")
    case True
    have s: "0 \<le> saltos h (sim_pacotes m)" using saltos_pos(1) [OF r] less.prems by (simp add: sim_inv_def)
    obtain m' where m': "turno rnd (length es) (map linha es) gc m = Some m'" "sim_inv es h tot m'"
      "saltos h (sim_pacotes m') < saltos h (sim_pacotes m)"
      using turno_inv [OF r rnd less.prems g0 gc True] by (auto simp: runs_to_def)
    have "0 \<le> saltos h (sim_pacotes m')" using saltos_pos(1) [OF r] m'(2) by (simp add: sim_inv_def)
    then have "runs_to (simula rnd (length es) (map linha es) gc tot m') (\<lambda>m'. sim_inv es h tot m' \<and> \<not> sim_entregue m' < tot)"
      using m' by (intro less.hyps) simp_all
    then show ?thesis using True m'(1) by (subst simula.simps) simp
  next
    case False
    then show ?thesis using less.prems by (subst simula.simps) simp
  qed
qed

text \<open>What the table promises: no two entries of a slot conflict, and every sender has a slot.\<close>

definition tabela_ok :: "(nat \<times> nat) list \<Rightarrow> int list list \<Rightarrow> bool" where
  "tabela_ok es al \<longleftrightarrow> dims Channel Timeslot al \<and> (\<forall>c < Timeslot. slot_ok es al c) \<and>
     (\<forall>x \<in> fst ` set es. escalado es al x)"

text \<open>The edges of the files in the order in which mapGraphConf numbers them.\<close>

definition arestas_de :: "(int \<times> int) list \<Rightarrow> (nat \<times> nat) list" where
  "arestas_de xs = filter (\<lambda>e. e \<in> arcos xs) (List.product [1..<MAX_NOS] [1..<MAX_NOS])"

lemma arestas_grafo_de:
  assumes "grafo_de (arcos xs) adj"
  shows "arestas adj MAX_NOS = arestas_de xs"
  unfolding arestas_def arestas_de_def
proof (rule filter_cong [OF refl])
  fix e
  assume "e \<in> set (List.product [1..<MAX_NOS] [1..<MAX_NOS])"
  then obtain x y where "e = (x, y)" "x < MAX_NOS" "y < MAX_NOS" by auto
  then show "(case e of (x, y) \<Rightarrow> cell (mat_adj adj) x y \<noteq> 0) \<longleftrightarrow> e \<in> arcos xs"
    using assms by (simp add: grafo_de_def)
qed

definition pac0 :: "(nat \<times> nat) list \<Rightarrow> nat \<Rightarrow> int" where
  "pac0 es x = (if x \<in> fst ` set es then 1 else 0)"

definition alturas :: "(nat \<times> nat) list \<Rightarrow> (nat \<Rightarrow> nat) \<Rightarrow> int" where
  "alturas es h = (\<Sum>x \<in> {2..<MAX_NOS}. pac0 es x * int (h x))"

lemma aloca_run:
  assumes ok: "\<forall>v \<in> set xs. linha_ok v" and ne: "xs \<noteq> []"
    and bz: "\<forall>(x, y) \<in> arcos xs. x \<noteq> 0 \<and> y \<noteq> 0"
    and r: "rede_ok (arestas_de xs) h" and alt: "alturas (arestas_de xs) h \<le> 8"
    and rnd: "\<forall>k. sorteio_ok (rnd k)"
  shows "runs_to (aloca rnd lixo lixo2 (concat (map linha_dd xs))) (tabela_ok (arestas_de xs))"
proof -
  let ?es = "arestas_de xs"
  obtain adj n where ld: "carrega lixo2 (concat (map linha_dd xs)) = Some (adj, n)"
    and g: "grafo_de (arcos xs) adj" and n: "n = card (arcos xs)"
    using carrega_run [OF ok ne, of lixo2] by (auto simp: runs_to_def)
  have d: "dims MAX_NOS MAX_NOS (mat_adj adj)" using g by (simp add: grafo_de_def)
  have se: "set ?es = arcos xs" using bz by (fastforce simp: arestas_de_def arcos_def)
  have n': "n = length ?es" unfolding n se [symmetric] using rede_distinct [OF r] by (rule distinct_card)
  have bzd: "borda_zero adj" using g bz by (fastforce simp: borda_zero_def grafo_de_def MAX_NOS_def)
  obtain p where p: "alocaPacotes2 MAX_NOS adj (map (lixo 0) [0..<MAX_NOS]) = Some p" "length p = MAX_NOS"
    "\<And>x. 1 \<le> x \<Longrightarrow> x < MAX_NOS \<Longrightarrow> p ! x = pac_inicial (arcos xs) x"
    using alocaPacotes2_run [OF g, of "map (lixo 0) [0..<MAX_NOS]"] by (auto simp: runs_to_def)
  have pi: "p ! x = pac0 ?es x" if "1 \<le> x" "x < MAX_NOS" for x
  proof -
    have "(\<exists>y. (x, y) \<in> arcos xs \<and> 1 \<le> y \<and> y < MAX_NOS) \<longleftrightarrow> x \<in> fst ` set ?es"
      unfolding se using bz by (force simp: arcos_def)
    then show ?thesis using p(3) [OF that] by (simp add: pac_inicial_def pac0_def)
  qed
  let ?al = "map (\<lambda>i. map (lixo i) [0..<2]) [0..<n]" and ?g0 = "map (\<lambda>i. map (lixo i) [0..<n]) [0..<n]"
  have cf: "mapGraphConf adj MAX_NOS ?al = Some (map linha ?es)"
    using mapGraphConf_spec [OF d order_refl, of n ?al] n' by (simp add: arestas_grafo_de [OF g] dims_def)
  have g0: "dims (length ?es) (length ?es) ?g0" by (auto simp: dims_def n')
  obtain gc where gc: "fazMatrizConf (length ?es) (map linha ?es) ?g0 = Some gc"
    using fazMatrizConf_spec [OF dims_linha g0] by blast
  have tot: "soma_pacotes p = Some (restam p)" unfolding restam_def by (rule soma_pacotes_run [OF p(2)])
  have pok: "pac_ok ?es p" using p(2) pi by (auto simp: pac_ok_def pac0_def)
  have salt: "saltos h p = alturas ?es h" using pi by (simp add: saltos_def alturas_def)
  have "restam p \<le> (\<Sum>x \<in> {2..<MAX_NOS}. 1)" unfolding restam_def using pi by (intro sum_mono) (auto simp: pac0_def)
  then have r8: "restam p \<le> 8" by (simp add: MAX_NOS_def)
  have mt: "runs_to (DCFL (rnd 0) (length ?es) MAX_NOS p gc (map linha ?es) no_raiz adj (vetor_zero (length ?es)))
    (\<lambda>(adj', _). dims MAX_NOS MAX_NOS (mat_adj adj') \<and> borda_zero adj' \<and>
      (restam p > 0 \<longrightarrow> emparelhado ?es p adj' \<and> (\<exists>i < MAX_NOS. \<exists>j < MAX_NOS. cell (mat_adj adj') i j \<noteq> 0)))"
  proof (cases "restam p > 0")
    case True
    show ?thesis
      by (rule runs_to_mono [OF DCFL_turno [OF r rnd [rule_format] pok True g0 gc d bzd]]) (auto simp: emparelhado_def)
  next
    case False
    then show ?thesis
      by (intro runs_to_mono [OF DCFL_definido [OF r rnd [rule_format] p(2) g0 gc d bzd]]) auto
  qed
  then obtain adj' w where dc: "DCFL (rnd 0) (length ?es) MAX_NOS p gc (map linha ?es) no_raiz adj (vetor_zero (length ?es)) = Some (adj', w)"
    and adj': "dims MAX_NOS MAX_NOS (mat_adj adj')" "borda_zero adj'"
      "restam p > 0 \<longrightarrow> emparelhado ?es p adj' \<and> (\<exists>i < MAX_NOS. \<exists>j < MAX_NOS. cell (mat_adj adj') i j \<noteq> 0)"
    by (auto simp: runs_to_def)
  let ?m = "\<lparr>sim_adj = adj', sim_aloca = replicate Channel (replicate Timeslot (-1)), sim_cont = 0,
        sim_pacotes = p, sim_entregue = 0, sim_turno = 0\<rparr>"
  have px: "\<forall>x \<in> fst ` set ?es. p ! x > 0"
  proof
    fix x
    assume x: "x \<in> fst ` set ?es"
    then obtain y where "(x, y) \<in> set ?es" by auto
    then have "2 \<le> x" "x < MAX_NOS" using rede_okD(1,2) [OF r] by auto
    then show "p ! x > 0" using pi [of x] x by (simp add: pac0_def)
  qed
  have inv: "sim_inv ?es h (restam p) ?m"
    unfolding sim_inv_def simulacao.simps
    using adj' pok r8 salt alt px by (auto simp: slot_ok_def)
  obtain m' where m': "simula rnd (length ?es) (map linha ?es) gc (restam p) ?m = Some m'"
    "sim_inv ?es h (restam p) m'" "\<not> sim_entregue m' < restam p"
    using simula_inv [OF r rnd g0 gc inv] by (auto simp: runs_to_def)
  have "tabela_ok ?es (sim_aloca m')"
  proof -
    have p': "pac_ok ?es (sim_pacotes m')" and z: "restam (sim_pacotes m') \<le> 0"
      using m'(2,3) by (auto simp: sim_inv_def)
    have "sim_pacotes m' ! x = 0" if x: "x \<in> fst ` set ?es" for x
    proof -
      obtain y where "(x, y) \<in> set ?es" using x by auto
      then have x2: "x \<in> {2..<MAX_NOS}" using rede_okD(1,2) [OF r] by auto
      have nn: "\<And>x. x \<in> {2..<MAX_NOS} \<Longrightarrow> 0 \<le> sim_pacotes m' ! x" using p' by (auto simp: pac_ok_def)
      have "0 \<le> restam (sim_pacotes m')" unfolding restam_def by (rule sum_nonneg) (rule nn)
      then have "restam (sim_pacotes m') = 0" using z by simp
      then show ?thesis
        unfolding restam_def using sum_nonneg_eq_0_iff [of "{2..<MAX_NOS}" "\<lambda>x. sim_pacotes m' ! x", OF finite_atLeastLessThan nn] x2
        by blast
    qed
    then show ?thesis using m'(2) unfolding sim_inv_def tabela_ok_def by fastforce
  qed
  then show ?thesis
    unfolding aloca_def using ld p(1) cf gc tot dc m'(1) unfolding n' by simp
qed


section \<open>Moving the links of the node\<close>

definition candidato :: "sched \<Rightarrow> nat \<Rightarrow> int list list \<Rightarrow> nat \<times> nat \<Rightarrow> nat \<Rightarrow> bool" where
  "candidato s i al xy k \<longleftrightarrow> k \<in> set (sf_links (sf_at s i)) \<and> l_handle (link_at s k) = cell al (fst xy) (snd xy) \<and>
     l_type (link_at s k) = LINK_TYPE_NORMAL \<and> l_aux (link_at s k) = 2"

text \<open>Link k at the place of entry (x, y), and the line that tells the others.\<close>

definition movido :: "nat \<times> nat \<Rightarrow> nat \<Rightarrow> sched \<Rightarrow> sched" where
  "movido xy k s = (upd_link k (\<lambda>l. l\<lparr>l_timeslot := of_nat (snd xy + 1), l_choff := of_nat (fst xy + 1)\<rparr>) s)\<lparr>TCH :=
     anexa (linha_dddd (node_num (linkaddr_node_addr s), node_num (l_addr (link_at s k)),
       uint (of_nat (snd xy + 1) :: u16), uint (of_nat (fst xy + 1) :: u16))) (TCH s)\<rparr>"

lemma move_links_feito:
  "fst (move_links i e x y ks (True, bw, s)) \<and> snd (snd (move_links i e x y ks (True, bw, s))) = s"
proof (induction ks arbitrary: bw)
  case (Cons k ks)
  let ?b = "if e = l_handle (link_at s k) \<and> l_type (link_at s k) = LINK_TYPE_NORMAL \<and> x \<noteq> unat (l_choff (link_at s k))
    then bw + 1 else bw"
  have "move_links i e x y (k # ks) (True, bw, s) = move_links i e x y ks (True, ?b, s)"
    by (simp add: Let_def)
  then show ?case using Cons.IH [of ?b] by (simp only:)
qed simp

lemma get_link_locked: "locked s \<Longrightarrow> tsch_schedule_get_link_by_timeslot sf t c s = None"
  by (simp add: tsch_schedule_get_link_by_timeslot_def)

lemma upd_link_fields [simp]:
  "k < length (mem (link_memb s)) \<Longrightarrow>
     link_at (upd_link k f s) j = (if j = k then f (link_at s k) else link_at s j)"
  "TCH (upd_link k f s) = TCH s" "linkaddr_node_addr (upd_link k f s) = linkaddr_node_addr s"
  "arvore (upd_link k f s) = arvore s" "slotframe_memb (upd_link k f s) = slotframe_memb s"
  "slotframe_list (upd_link k f s) = slotframe_list s" "queue (upd_link k f s) = queue s"
  "length (mem (link_memb (upd_link k f s))) = length (mem (link_memb s))"
  "used (link_memb (upd_link k f s)) = used (link_memb s)"
  by (simp_all add: upd_link_def)

lemma move_links_run:
  assumes lk: "locked s" and gv: "gravavel (TCH s)" and ks: "\<forall>k \<in> set ks. k < length (mem (link_memb s))"
  shows "\<exists>bw'. move_links i e x y ks (False, bw, s) =
    (case List.find (\<lambda>k. l_handle (link_at s k) = e \<and> l_type (link_at s k) = LINK_TYPE_NORMAL \<and> l_aux (link_at s k) = 2) ks of
       None \<Rightarrow> (False, bw', s)
     | Some k \<Rightarrow> (True, bw', movido (x, y) k s))"
  using ks
proof (induction ks arbitrary: bw)
  case (Cons k ks)
  have kl: "k < length (mem (link_memb s))" using Cons.prems by simp
  show ?case
  proof (cases "l_handle (link_at s k) = e \<and> l_type (link_at s k) = LINK_TYPE_NORMAL \<and> l_aux (link_at s k) = 2")
    case True
    have e: "move_links i e x y (k # ks) (False, bw, s) = move_links i e x y ks (True, 1, movido (x, y) k s)"
      using True kl gv get_link_locked [OF lk] by (simp add: movido_def Let_def)
    obtain b bw' s' where m: "move_links i e x y ks (True, 1, movido (x, y) k s) = (b, bw', s')"
      by (cases "move_links i e x y ks (True, 1, movido (x, y) k s)") auto
    then have "b" "s' = movido (x, y) k s" using move_links_feito [of i e x y ks 1 "movido (x, y) k s"] by simp_all
    then show ?thesis using True e m by simp
  next
    case False
    then have "move_links i e x y (k # ks) (False, bw, s) = move_links i e x y ks (False, bw, s)"
      using kl by (auto simp: Let_def)
    then show ?thesis using Cons False by auto
  qed
qed simp

lemma move_links_cand:
  assumes lk: "locked s" and gv: "gravavel (TCH s)"
    and ks: "\<forall>k \<in> set (sf_links (sf_at s i)). k < length (mem (link_memb s))"
  shows "case move_links i (cell al x y) x y (sf_links (sf_at s i)) (False, bw, s) of (v, bw', s') \<Rightarrow>
    if v then \<exists>k. candidato s i al (x, y) k \<and> s' = movido (x, y) k s
    else s' = s \<and> (\<forall>k. \<not> candidato s i al (x, y) k)"
proof -
  let ?P = "\<lambda>k. l_handle (link_at s k) = cell al x y \<and> l_type (link_at s k) = LINK_TYPE_NORMAL \<and> l_aux (link_at s k) = 2"
  obtain bw' where r: "move_links i (cell al x y) x y (sf_links (sf_at s i)) (False, bw, s) =
    (case List.find ?P (sf_links (sf_at s i)) of None \<Rightarrow> (False, bw', s) | Some k \<Rightarrow> (True, bw', movido (x, y) k s))"
    using move_links_run [OF lk gv ks] by blast
  show ?thesis
  proof (cases "List.find ?P (sf_links (sf_at s i))")
    case None
    then show ?thesis unfolding r None using None by (auto simp: find_None_iff candidato_def)
  next
    case (Some k)
    then have "candidato s i al (x, y) k" by (auto simp: find_Some_iff candidato_def)
    then show ?thesis unfolding r Some by auto
  qed
qed

text \<open>The entries of the table that the two loops visit before a given one.\<close>

definition antes :: "nat \<times> nat \<Rightarrow> nat \<times> nat \<Rightarrow> bool" where
  "antes p q \<longleftrightarrow> snd p < Timeslot \<and> (fst p < fst q \<or> fst p = fst q \<and> snd p < snd q)"

lemma antes_prefixo:
  assumes p: "List.product [0..<Channel] [0..<Timeslot] = pre @ q # post" and b: "antes p q"
  shows "p \<in> set pre"
proof -
  let ?xs = "List.product [0..<Channel] [0..<Timeslot]"
  let ?n = "length pre" and ?m = "fst p * Timeslot + snd p"
  have nth: "?xs ! j = (j div Timeslot, j mod Timeslot)" if "j < Channel * Timeslot" for j
    using that by (subst product_nth) (simp_all add: less_mult_imp_div_less Timeslot_def)
  have n: "?n < Channel * Timeslot" using arg_cong [OF p, of length] by simp
  have q: "q = (?n div Timeslot, ?n mod Timeslot)" using nth [OF n] p by simp
  have m: "?m div Timeslot = fst p" "?m mod Timeslot = snd p" using b by (simp_all add: antes_def)
  have "?m < ?n"
  proof -
    have "fst p * Timeslot + snd p < fst q * Timeslot + snd q"
    proof (cases "fst p < fst q")
      case True
      then have "(fst p + 1) * Timeslot \<le> fst q * Timeslot" by (intro mult_le_mono1) simp
      then show ?thesis using b by (simp add: antes_def)
    next
      case False
      then show ?thesis using b by (simp add: antes_def)
    qed
    then show ?thesis unfolding q by simp
  qed
  then have "?xs ! ?m = p" "?xs ! ?m = pre ! ?m" using nth [of ?m] n m p by (simp_all add: nth_append)
  then show ?thesis using \<open>?m < ?n\<close> by (metis nth_mem)
qed

text \<open>
  At most one link is moved in a call: a Tx link of the node whose handle is the number of the
  edge in some entry of the table, to the first such entry; if there is such a link at all, one is moved.
\<close>

lemma move_todos_run:
  assumes lk: "locked s" and gv: "gravavel (TCH s)"
    and ks: "\<forall>k \<in> set (sf_links (sf_at s i)). k < length (mem (link_memb s))"
    and al: "dims Channel Timeslot al"
  shows "runs_to (move_todos i al s) (\<lambda>(v, bw, s').
    if v then \<exists>xy k. fst xy < Channel \<and> snd xy < Timeslot \<and> candidato s i al xy k \<and> s' = movido xy k s \<and>
      (\<forall>p k. antes p xy \<longrightarrow> \<not> candidato s i al p k)
    else s' = s \<and> (\<forall>x < Channel. \<forall>y < Timeslot. \<forall>k. \<not> candidato s i al (x, y) k))"
proof -
  let ?P = "\<lambda>ys (v, bw :: u8, s'). if v then \<exists>xy k. (\<exists>pre post. ys = pre @ xy # post \<and> (\<forall>p \<in> set pre. \<forall>k. \<not> candidato s i al p k)) \<and>
       candidato s i al xy k \<and> s' = movido xy k s
     else s' = s \<and> (\<forall>xy \<in> set ys. \<forall>k. \<not> candidato s i al xy k)"
  let ?xs = "List.product [0..<Channel] [0..<Timeslot]"
  have "runs_to (move_todos i al s) (?P ?xs)"
    unfolding move_todos_def for_upt_def loopM_product
  proof (rule loopM_prefix [where P = ?P], goal_cases)
    case 1
    then show ?case by simp
  next
    case (2 ys xy zs st)
    obtain x y where xy: "xy = (x, y)" by force
    have "xy \<in> set ?xs" unfolding 2(1) by simp
    then have r: "rd2 al (int x) (int y) = Some (cell al x y)" using xy al by simp
    obtain v bw s' where st: "st = (v, bw, s')" by (cases st)
    show ?case
    proof (cases v)
      case True
      obtain q k pre post where q: "ys = pre @ q # post" "\<forall>p \<in> set pre. \<forall>k. \<not> candidato s i al p k"
        "candidato s i al q k" "s' = movido q k s"
        using 2(2) True unfolding st by auto
      have "ys @ [xy] = pre @ q # (post @ [xy])" using q(1) by simp
      then have w: "\<exists>xy' k. (\<exists>pre post. ys @ [xy] = pre @ xy' # post \<and> (\<forall>p \<in> set pre. \<forall>k. \<not> candidato s i al p k)) \<and>
          candidato s i al xy' k \<and> s' = movido xy' k s"
        using q(2-4) by blast
      then show ?thesis
        using True r move_links_feito [of i "cell al x y" x y "sf_links (sf_at s' i)" bw s'] unfolding st xy
        by (cases "move_links i (cell al x y) x y (sf_links (sf_at s' i)) (True, bw, s')") auto
    next
      case False
      then have s': "s' = s" and no: "\<forall>xy \<in> set ys. \<forall>k. \<not> candidato s i al xy k" using 2(2) st by auto
      obtain v2 b2 s2 where m: "move_links i (cell al x y) x y (sf_links (sf_at s i)) (False, bw, s) = (v2, b2, s2)"
        using prod_cases3 by blast
      have c: "if v2 then \<exists>k. candidato s i al (x, y) k \<and> s2 = movido (x, y) k s
          else s2 = s \<and> (\<forall>k. \<not> candidato s i al (x, y) k)"
        using move_links_cand [OF lk gv ks, of al x y bw] unfolding m by simp
      have "?P (ys @ [xy]) (v2, b2, s2)"
      proof (cases v2)
        case True
        then obtain k where k: "candidato s i al (x, y) k" "s2 = movido (x, y) k s" using c by auto
        have "\<exists>pre post. ys @ [xy] = pre @ (x, y) # post \<and> (\<forall>p \<in> set pre. \<forall>k. \<not> candidato s i al p k)"
          using no unfolding xy by blast
        then show ?thesis unfolding prod.case using k True by auto
      next
        case False
        then show ?thesis unfolding prod.case using c no unfolding xy by simp
      qed
      then show ?thesis using r m False s' unfolding st xy by simp
    qed
  qed
  then show ?thesis
  proof (rule runs_to_mono)
    fix r
    assume P: "?P ?xs r"
    obtain v bw s' where r: "r = (v, bw, s')" by (cases r)
    show "case r of (v, bw, s') \<Rightarrow>
      if v then \<exists>xy k. fst xy < Channel \<and> snd xy < Timeslot \<and> candidato s i al xy k \<and> s' = movido xy k s \<and>
        (\<forall>p k. antes p xy \<longrightarrow> \<not> candidato s i al p k)
      else s' = s \<and> (\<forall>x < Channel. \<forall>y < Timeslot. \<forall>k. \<not> candidato s i al (x, y) k)"
    proof (cases v)
      case True
      then obtain q k pre post where q: "?xs = pre @ q # post" "\<forall>p \<in> set pre. \<forall>k. \<not> candidato s i al p k"
        "candidato s i al q k" "s' = movido q k s"
        using P unfolding r by auto
      have "q \<in> set ?xs" unfolding q(1) by simp
      then have "fst q < Channel \<and> snd q < Timeslot" by auto
      moreover have "\<forall>p k. antes p q \<longrightarrow> \<not> candidato s i al p k" using antes_prefixo [OF q(1)] q(2) by blast
      ultimately show ?thesis unfolding r prod.case using q(3,4) True by (simp only: if_True) blast
    next
      case False
      then show ?thesis using P unfolding r by auto
    qed
  qed
qed

section \<open>The receivers\<close>

definition rx_casa :: "nat \<Rightarrow> sched \<Rightarrow> int \<times> int \<times> int \<times> int \<Rightarrow> bool" where
  "rx_casa k s = (\<lambda>(node_origin, nbr, _, _).
     node_origin = uint (word_of_int (node_num (l_addr (link_at s k))) :: u8) \<and>
     nbr = uint (word_of_int (node_num (linkaddr_node_addr s)) :: u8))"

definition rx_posto :: "nat \<Rightarrow> int \<times> int \<times> int \<times> int \<Rightarrow> sched \<Rightarrow> sched" where
  "rx_posto k v = (case v of (_, _, t, c) \<Rightarrow>
     upd_link k (\<lambda>l. l\<lparr>l_timeslot := word_of_int t, l_choff := word_of_int c\<rparr>))"

lemma rx_posto_posto: "k < length (mem (link_memb s)) \<Longrightarrow> rx_posto k v (rx_posto k w s) = rx_posto k v s"
  by (cases v; cases w) (simp add: rx_posto_def upd_link_def)

text \<open>The last line of the file for this pair of nodes decides.\<close>

lemma rx_intern_run:
  assumes k: "k < length (mem (link_memb s))" and t: "texto (TCH s) = Some (concat (map linha_dddd ts))" and ne: "ts \<noteq> []"
  shows "rx_schedule_intern lixo k s = Some (case List.find (rx_casa k s) (rev ts) of
     None \<Rightarrow> s | Some v \<Rightarrow> rx_posto k v s)"
proof -
  let ?r = "\<lambda>ys. case List.find (rx_casa k s) (rev ys) of None \<Rightarrow> s | Some v \<Rightarrow> rx_posto k v s"
  let ?f = "\<lambda>(node_origin, nbr, aux_timeslot, aux_channel_offset) s'.
            if node_origin = uint (word_of_int (node_num (l_addr (link_at s k))) :: u8) \<and>
               nbr = uint (word_of_int (node_num (linkaddr_node_addr s)) :: u8) then
              Some (upd_link k (\<lambda>l. l\<lparr>l_timeslot := word_of_int aux_timeslot,
                                     l_choff := word_of_int aux_channel_offset\<rparr>) s')
            else Some s'"
  have step: "?f v (?r ys) = Some (?r (ys @ [v]))" for v ys
    using rx_posto_posto [OF k] by (cases v) (auto simp: rx_casa_def rx_posto_def split: option.splits)
  have "loopM ?f ys s = Some (?r ys)" for ys
    by (induction ys rule: rev_induct) (simp_all add: step)
  then have l: "loopM ?f (ts @ [last ts]) s = Some (?r (ts @ [last ts]))" .
  have "?r (ts @ [last ts]) = ?r ts"
    using ne by (cases ts rule: rev_cases) auto
  then show ?thesis
    unfolding rx_schedule_intern_def t Let_def using l ne by (simp add: tch.loop_arquivo)
qed


text \<open>Link k after the receivers have been served from the lines ts; all links after those in ks have.\<close>

definition rx_link :: "(int \<times> int \<times> int \<times> int) list \<Rightarrow> sched \<Rightarrow> nat \<Rightarrow> tsch_link" where
  "rx_link ts s k =
     (if l_aux (link_at s k) = 1 \<and> l_type (link_at s k) = LINK_TYPE_NORMAL then
        (case List.find (rx_casa k s) (rev ts) of None \<Rightarrow> link_at s k
         | Some (_, _, t, c) \<Rightarrow> (link_at s k)\<lparr>l_timeslot := word_of_int t, l_choff := word_of_int c\<rparr>)
      else link_at s k)"

definition rx_feitos :: "(int \<times> int \<times> int \<times> int) list \<Rightarrow> nat set \<Rightarrow> sched \<Rightarrow> sched" where
  "rx_feitos ts K s = s\<lparr>link_memb := (link_memb s)\<lparr>mem :=
     map (\<lambda>k. if k \<in> K then rx_link ts s k else link_at s k) [0..<length (mem (link_memb s))]\<rparr>\<rparr>"

lemma link_rx_feitos:
  "k < length (mem (link_memb s)) \<Longrightarrow> link_at (rx_feitos ts K s) k = (if k \<in> K then rx_link ts s k else link_at s k)"
  by (simp add: rx_feitos_def)

lemma rx_feitos_fields [simp]:
  "TCH (rx_feitos ts K s) = TCH s" "linkaddr_node_addr (rx_feitos ts K s) = linkaddr_node_addr s"
  "arvore (rx_feitos ts K s) = arvore s" "slotframe_memb (rx_feitos ts K s) = slotframe_memb s"
  "slotframe_list (rx_feitos ts K s) = slotframe_list s" "queue (rx_feitos ts K s) = queue s"
  "used (link_memb (rx_feitos ts K s)) = used (link_memb s)"
  "length (mem (link_memb (rx_feitos ts K s))) = length (mem (link_memb s))"
  by (simp_all add: rx_feitos_def)

lemma rx_feitos_insert:
  assumes "k < length (mem (link_memb s))"
  shows "upd_link k (\<lambda>_. rx_link ts s k) (rx_feitos ts K s) = rx_feitos ts (insert k K) s"
proof -
  have "(map (\<lambda>j. if j \<in> K then rx_link ts s j else link_at s j) [0..<length (mem (link_memb s))])[k := rx_link ts s k]
      = map (\<lambda>j. if j \<in> insert k K then rx_link ts s j else link_at s j) [0..<length (mem (link_memb s))]"
    by (rule nth_equalityI) (use assms in \<open>auto simp: nth_list_update\<close>)
  then show ?thesis by (simp add: rx_feitos_def upd_link_def)
qed

lemma rx_link_fields [simp]:
  "l_aux (rx_link ts s k) = l_aux (link_at s k)" "l_type (rx_link ts s k) = l_type (link_at s k)"
  "l_addr (rx_link ts s k) = l_addr (link_at s k)" "l_handle (rx_link ts s k) = l_handle (link_at s k)"
  "l_sf (rx_link ts s k) = l_sf (link_at s k)" "l_options (rx_link ts s k) = l_options (link_at s k)"
  by (auto simp: rx_link_def split: option.splits)

lemma rx_posto_link:
  assumes k: "k < length (mem (link_memb s))" and f: "link_at s' k = rx_link ts s k \<or> link_at s' k = link_at s k"
    and a: "l_aux (link_at s k) = 1 \<and> l_type (link_at s k) = LINK_TYPE_NORMAL"
    and k': "k < length (mem (link_memb s'))"
  shows "(case List.find (rx_casa k s) (rev ts) of None \<Rightarrow> s' | Some v \<Rightarrow> rx_posto k v s') = upd_link k (\<lambda>_. rx_link ts s k) s'"
proof (cases "List.find (rx_casa k s) (rev ts)")
  case None
  then have "rx_link ts s k = link_at s k" by (simp add: rx_link_def)
  then have "link_at s' k = rx_link ts s k" using f by auto
  then have "upd_link k (\<lambda>_. rx_link ts s k) s' = s'" unfolding upd_link_def by (metis list_update_id memb.surjective memb.update_convs(2) sched.surjective sched.update_convs(2))
  then show ?thesis using None by simp
next
  case (Some v)
  then show ?thesis using f a by (cases v) (auto simp: rx_link_def rx_posto_def upd_link_def)
qed

lemma rx_todos_run:
  assumes ks: "\<forall>k \<in> set (sf_links (sf_at s i)). k < length (mem (link_memb s))"
    and t: "texto (TCH s) = Some (concat (map linha_dddd ts))" and ne: "ts \<noteq> []"
  shows "rx_todos lixo i s = Some (rx_feitos ts (set (sf_links (sf_at s i))) s)"
proof -
  let ?P = "\<lambda>ys s'. s' = rx_feitos ts (set ys) s"
  have "runs_to (rx_todos lixo i s) (?P (sf_links (sf_at s i)))"
    unfolding rx_todos_def
  proof (rule loopM_prefix [where P = ?P], goal_cases)
    case 1
    show ?case by (simp add: rx_feitos_def map_nth)
  next
    case (2 ys k zs s')
    have k: "k < length (mem (link_memb s))" using ks 2(1) by simp
    have s': "s' = rx_feitos ts (set ys) s" using 2(2) .
    have k': "k < length (mem (link_memb s'))" using k s' by simp
    have lk: "link_at s' k = rx_link ts s k \<or> link_at s' k = link_at s k" using link_rx_feitos [OF k] s' by simp
    have ins: "upd_link k (\<lambda>_. rx_link ts s k) s' = rx_feitos ts (set (ys @ [k])) s"
      unfolding s' by (simp add: rx_feitos_insert [OF k])
    have aux: "l_aux (link_at s' k) = l_aux (link_at s k)" "l_type (link_at s' k) = l_type (link_at s k)"
      "l_addr (link_at s' k) = l_addr (link_at s k)"
      using lk by auto
    show ?case
    proof (cases "l_aux (link_at s k) = 1 \<and> l_type (link_at s k) = LINK_TYPE_NORMAL")
      case True
      have "texto (TCH s') = Some (concat (map linha_dddd ts))" using t s' by simp
      note run = rx_intern_run [OF k' this ne, of lixo]
      have "rx_casa k s' = rx_casa k s" using aux s' by (simp add: rx_casa_def)
      then have "rx_schedule_intern lixo k s' = Some (upd_link k (\<lambda>_. rx_link ts s k) s')"
        using run rx_posto_link [OF k lk True k'] by simp
      then show ?thesis using True aux ins by simp
    next
      case False
      then have "rx_link ts s k = link_at s k" by (auto simp: rx_link_def)
      then have "link_at s' k = rx_link ts s k" using lk by auto
      then have "upd_link k (\<lambda>_. rx_link ts s k) s' = s'" unfolding upd_link_def by (metis list_update_id memb.surjective memb.update_convs(2) sched.surjective sched.update_convs(2))
      then have "s' = rx_feitos ts (set (ys @ [k])) s" using ins by simp
      then show ?thesis unfolding aux by (simp only: False if_False runs_to_Some)
    qed
  qed
  then show ?thesis by (simp add: runs_to_def)
qed


section \<open>A call of SCHEDULE-static\<close>

lemma memb_alloc_mem [simp]: "mem (snd (memb_alloc m)) = mem m"
  by (simp add: memb_alloc_def split: option.splits)

definition tranca :: "sched \<Rightarrow> sched" where
  "tranca s = s\<lparr>queue := (queue s)\<lparr>tq_lk := (tq_lk (queue s))\<lparr>tsch_locked := True, tsch_lock_requested := False\<rparr>\<rparr>\<rparr>"

lemma get_lock_tranca: "livre (tq_lk (queue s)) \<Longrightarrow> get_lock s = Some (True, tranca s)"
  by (simp add: get_lock_def tranca_def)

lemma locked_tranca [simp]: "locked (tranca s)"
  by (simp add: locked_def tranca_def tsch_is_locked_def)

lemma tranca_fields [simp]:
  "link_memb (tranca s) = link_memb s" "slotframe_memb (tranca s) = slotframe_memb s"
  "slotframe_list (tranca s) = slotframe_list s" "arvore (tranca s) = arvore s" "TCH (tranca s) = TCH s"
  "linkaddr_node_addr (tranca s) = linkaddr_node_addr s"
  by (simp_all add: tranca_def)

definition sem_dois :: "sched \<Rightarrow> sched" where
  "sem_dois s = s\<lparr>link_memb := snd (memb_alloc (snd (memb_alloc (link_memb s))))\<rparr>"

lemma sem_dois_fields [simp]:
  "mem (link_memb (sem_dois s)) = mem (link_memb s)" "slotframe_memb (sem_dois s) = slotframe_memb s"
  "slotframe_list (sem_dois s) = slotframe_list s" "arvore (sem_dois s) = arvore s" "TCH (sem_dois s) = TCH s"
  "linkaddr_node_addr (sem_dois s) = linkaddr_node_addr s" "queue (sem_dois s) = queue s"
  "locked (sem_dois s) = locked s"
  by (simp_all add: sem_dois_def locked_def)

lemma movido_fields [simp]:
  "slotframe_memb (movido xy k s) = slotframe_memb s" "slotframe_list (movido xy k s) = slotframe_list s"
  "arvore (movido xy k s) = arvore s" "linkaddr_node_addr (movido xy k s) = linkaddr_node_addr s"
  "queue (movido xy k s) = queue s" "used (link_memb (movido xy k s)) = used (link_memb s)"
  "length (mem (link_memb (movido xy k s))) = length (mem (link_memb s))"
  by (simp_all add: movido_def)

lemma link_movido:
  "k < length (mem (link_memb s)) \<Longrightarrow> link_at (movido xy k s) j = (if j = k then
     (link_at s k)\<lparr>l_timeslot := of_nat (snd xy + 1), l_choff := of_nat (fst xy + 1)\<rparr> else link_at s j)"
  by (simp add: movido_def)

text \<open>The lines of a file of channels, with or without the file.\<close>

definition linhas_TCH :: "arquivo \<Rightarrow> (int \<times> int \<times> int \<times> int) list \<Rightarrow> bool" where
  "linhas_TCH f ts \<longleftrightarrow> gravavel f \<and> (case texto f of None \<Rightarrow> ts = [] | Some u \<Rightarrow> u = concat (map linha_dddd ts))"

lemma linhas_anexa:
  "linhas_TCH f ts \<Longrightarrow> texto (anexa (linha_dddd v) f) = Some (concat (map linha_dddd (ts @ [v])))"
  by (auto simp: linhas_TCH_def anexa_def split: option.splits)

lemma rx_link_cong:
  assumes e: "link_at s' j = link_at s j" and a: "linkaddr_node_addr s' = linkaddr_node_addr s"
  shows "rx_link ts s' j = rx_link ts s j"
proof -
  have c: "rx_casa j s' = rx_casa j s" using e a by (simp add: rx_casa_def)
  show ?thesis unfolding rx_link_def e c ..
qed

lemma rx_link_movido:
  assumes "k < length (mem (link_memb s))" and "l_aux (link_at s k) = 2"
  shows "rx_link ts (movido xy k s) j = (if j = k then link_at (movido xy k s) k else rx_link ts s j)"
proof (cases "j = k")
  case True
  then show ?thesis using assms link_movido [OF assms(1), of xy k] by (simp add: rx_link_def)
next
  case False
  then have "link_at (movido xy k s) j = link_at s j" using link_movido [OF assms(1)] by simp
  then have "rx_link ts (movido xy k s) j = rx_link ts s j" by (rule rx_link_cong) simp
  then show ?thesis using False by (simp only: if_False)
qed

text \<open>
  The node has one Tx link k to its parent, whose handle is the number t of the edge. The call
  moves that link to the place of an entry of the table that holds t, appends the line that says
  so, serves the receivers from the file, and leaves two more blocks of the pool taken.
\<close>

definition linha_nova :: "sched \<Rightarrow> nat \<Rightarrow> nat \<Rightarrow> nat \<Rightarrow> int \<times> int \<times> int \<times> int" where
  "linha_nova s k x y = (node_num (linkaddr_node_addr s), node_num (l_addr (link_at s k)), int (y + 1), int (x + 1))"

definition link_tx_unico :: "sched \<Rightarrow> nat \<Rightarrow> nat \<Rightarrow> nat \<Rightarrow> bool" where
  "link_tx_unico s i k t \<longleftrightarrow> (\<forall>j \<in> set (sf_links (sf_at s i)). j < length (mem (link_memb s))) \<and>
     k \<in> set (sf_links (sf_at s i)) \<and> l_type (link_at s k) = LINK_TYPE_NORMAL \<and> l_aux (link_at s k) = 2 \<and>
     l_handle (link_at s k) = int t \<and>
     (\<forall>j \<in> set (sf_links (sf_at s i)). l_type (link_at s j) = LINK_TYPE_NORMAL \<and> l_aux (link_at s j) = 2 \<longrightarrow> j = k)"

definition depois :: "sched \<Rightarrow> nat \<Rightarrow> nat \<Rightarrow> (int \<times> int \<times> int \<times> int) list \<Rightarrow> nat \<Rightarrow> nat \<Rightarrow> sched \<Rightarrow> bool" where
  "depois s i k ts x y s' \<longleftrightarrow> \<not> locked s' \<and> flag_schedule s' = 1 \<and>
     texto (TCH s') = Some (concat (map linha_dddd (ts @ [linha_nova s k x y]))) \<and>
     link_at s' k = (link_at s k)\<lparr>l_timeslot := of_nat (y + 1), l_choff := of_nat (x + 1)\<rparr> \<and>
     (\<forall>j \<in> set (sf_links (sf_at s i)). j \<noteq> k \<longrightarrow> link_at s' j = rx_link (ts @ [linha_nova s k x y]) s j) \<and>
     used (link_memb s') = used (snd (memb_alloc (snd (memb_alloc (link_memb s))))) \<and>
     slotframe_memb s' = slotframe_memb s \<and> slotframe_list s' = slotframe_list s \<and> arvore s' = arvore s"

text \<open>The first entry of the table with an edge, channel by channel.\<close>

definition primeira :: "int list list \<Rightarrow> nat \<Rightarrow> nat \<Rightarrow> nat \<Rightarrow> bool" where
  "primeira al t x y \<longleftrightarrow> x < Channel \<and> y < Timeslot \<and> cell al x y = int t \<and>
     (\<forall>x' y'. y' < Timeslot \<and> (x' < x \<or> x' = x \<and> y' < y) \<longrightarrow> cell al x' y' \<noteq> int t)"

lemma SCHEDULE_resto:
  assumes lk: "livre (tq_lk (queue s))" and i: "tsch_schedule_get_slotframe_by_handle unicast_slotframe_handle s = Some i"
    and tx: "link_tx_unico s i k t" and ts: "linhas_TCH (TCH s) ts" and ar: "texto (arvore s) = Some u"
    and al: "aloca rnd lixo lixo2 u = Some al" and dal: "dims Channel Timeslot al"
    and et: "\<exists>x < Channel. \<exists>y < Timeslot. cell al x y = int t"
  shows "\<exists>x y bw s'. primeira al t x y \<and>
    SCHEDULE_static rnd lixo lixo2 lixo4 s = Some (1, bw, s') \<and> depois s i k ts x y s'"
proof -
  let ?s = "sem_dois (tranca s)"
  have kin: "k \<in> set (sf_links (sf_at s i))" and kl: "k < length (mem (link_memb s))"
    and rg: "\<forall>j \<in> set (sf_links (sf_at s i)). j < length (mem (link_memb s))"
    using tx by (auto simp: link_tx_unico_def)
  have gv: "gravavel (TCH ?s)" using ts by (simp add: linhas_TCH_def)
  have lks: "locked ?s" by simp
  have rgs: "\<forall>j \<in> set (sf_links (sf_at ?s i)). j < length (mem (link_memb ?s))" using rg by simp
  obtain v bw s1 where mv: "move_todos i al ?s = Some (v, bw, s1)"
    and r: "if v then \<exists>xy j. fst xy < Channel \<and> snd xy < Timeslot \<and> candidato ?s i al xy j \<and> s1 = movido xy j ?s \<and>
        (\<forall>p j. antes p xy \<longrightarrow> \<not> candidato ?s i al p j)
      else s1 = ?s \<and> (\<forall>x < Channel. \<forall>y < Timeslot. \<forall>j. \<not> candidato ?s i al (x, y) j)"
  proof -
    note run = move_todos_run [OF lks gv rgs dal]
    obtain z where z: "move_todos i al ?s = Some z" using run unfolding runs_to_def by blast
    note q = runs_toD [OF run z, unfolded case_prod_beta]
    show ?thesis by (rule that [of _ "fst (snd z)", OF _ q]) (simp only: z prod.collapse)
  qed
  have cand: "candidato ?s i al (x, y) j \<longleftrightarrow> j = k \<and> cell al x y = int t" for x y j
  proof -
    have c: "candidato ?s i al (x, y) j \<longleftrightarrow> j \<in> set (sf_links (sf_at s i)) \<and> l_handle (link_at s j) = cell al x y \<and>
        l_type (link_at s j) = LINK_TYPE_NORMAL \<and> l_aux (link_at s j) = 2"
      by (simp add: candidato_def)
    have u: "j = k" if "j \<in> set (sf_links (sf_at s i))" "l_type (link_at s j) = LINK_TYPE_NORMAL" "l_aux (link_at s j) = 2"
      using tx that unfolding link_tx_unico_def by blast
    have h: "l_handle (link_at s k) = int t" "l_type (link_at s k) = LINK_TYPE_NORMAL" "l_aux (link_at s k) = 2"
      using tx by (simp_all add: link_tx_unico_def)
    show ?thesis unfolding c using u h kin by metis
  qed
  have v
  proof (rule ccontr)
    assume "\<not> v"
    then show False using r et cand by auto
  qed
  then obtain x y where xy: "x < Channel" "y < Timeslot" "cell al x y = int t" "s1 = movido (x, y) k ?s"
    and bef: "\<forall>p j. antes p (x, y) \<longrightarrow> \<not> candidato ?s i al p j"
    using r cand by auto
  have pr: "primeira al t x y"
  proof -
    have "cell al x' y' \<noteq> int t" if "antes (x', y') (x, y)" for x' y' using bef that cand [of x' y' k] by blast
    then show ?thesis using xy by (auto simp: primeira_def antes_def)
  qed
  have u16: "uint (of_nat n :: u16) = int n" if "n < 65536" for n
    using that by (simp add: unsigned_of_nat take_bit_nat_eq_self)
  have sm: "y + 1 < 65536" "x + 1 < 65536" using xy by (simp_all add: Timeslot_def Channel_def)
  have TCH1: "TCH s1 = anexa (linha_dddd (linha_nova s k x y)) (TCH s)"
    unfolding xy(4) movido_def linha_nova_def fst_conv snd_conv u16 [OF sm(1)] u16 [OF sm(2)] by simp
  let ?ts = "ts @ [linha_nova s k x y]"
  have t1: "texto (TCH s1) = Some (concat (map linha_dddd ?ts))" unfolding TCH1 by (rule linhas_anexa [OF ts])
  have rg1: "\<forall>j \<in> set (sf_links (sf_at s1 i)). j < length (mem (link_memb s1))" using rg xy(4) by simp
  have rx: "rx_todos lixo4 i s1 = Some (rx_feitos ?ts (set (sf_links (sf_at s1 i))) s1)"
    by (rule rx_todos_run [OF rg1 t1]) simp
  let ?s2 = "rx_feitos ?ts (set (sf_links (sf_at s i))) s1"
  let ?s' = "release_lock (?s2\<lparr>flag_schedule := 1\<rparr>)"
  have sf1: "sf_links (sf_at s1 i) = sf_links (sf_at s i)" using xy(4) by simp
  have run: "SCHEDULE_static rnd lixo lixo2 lixo4 s = Some (1, bw, ?s')"
    unfolding SCHEDULE_static_def using i get_lock_tranca [OF lk] ar al mv rx sf1
    by (simp add: sem_dois_def)
  have lat: "link_at ?s' j = link_at ?s2 j" for j by (simp add: release_lock_def)
  have kl2: "k < length (mem (link_memb ?s))" using kl by simp
  have k2: "l_aux (link_at ?s k) = 2" using tx by (simp add: link_tx_unico_def)
  have rxs: "rx_link ?ts ?s j = rx_link ?ts s j" for j by (rule rx_link_cong) simp_all
  have lnk: "link_at ?s' j = (if j = k then (link_at s k)\<lparr>l_timeslot := of_nat (y + 1), l_choff := of_nat (x + 1)\<rparr>
      else rx_link ?ts s j)" if "j \<in> set (sf_links (sf_at s i))" for j
  proof -
    have "j < length (mem (link_memb s1))" using rg that xy(4) by simp
    then have "link_at ?s' j = rx_link ?ts s1 j" unfolding lat using that by (simp add: link_rx_feitos)
    then show ?thesis
      unfolding xy(4) rx_link_movido [OF kl2 k2] using link_movido [OF kl2, of "(x, y)" k] rxs by simp
  qed
  have "depois s i k ts x y ?s'"
    unfolding depois_def
  proof (intro conjI)
    show "link_at ?s' k = (link_at s k)\<lparr>l_timeslot := of_nat (y + 1), l_choff := of_nat (x + 1)\<rparr>"
      using lnk [OF kin] by simp
    show "\<forall>j \<in> set (sf_links (sf_at s i)). j \<noteq> k \<longrightarrow> link_at ?s' j = rx_link ?ts s j" using lnk by simp
    show "used (link_memb ?s') = used (snd (memb_alloc (snd (memb_alloc (link_memb s)))))"
      using xy(4) by (simp add: release_lock_def sem_dois_def)
  qed (use t1 xy(4) in \<open>simp_all add: release_lock_def locked_def tsch_is_locked_def tsch_release_lock_def\<close>)
  then show ?thesis using run pr by blast
qed


lemma escalado_aresta:
  assumes d: "distinct (map fst es)" and t: "t < length es" and e: "escalado es al (fst (es ! t))"
  shows "\<exists>x < Channel. \<exists>y < Timeslot. cell al x y = int t"
proof -
  obtain x y u where u: "x < Channel" "y < Timeslot" "u < length es" "cell al x y = int u" "fst (es ! u) = fst (es ! t)"
    using e unfolding escalado_def by blast
  then have "u = t" using d t by (metis length_map nth_eq_iff_index_eq nth_map)
  then show ?thesis using u by blast
qed

lemma SCHEDULE_run:
  assumes lk: "livre (tq_lk (queue s))" and i: "tsch_schedule_get_slotframe_by_handle unicast_slotframe_handle s = Some i"
    and ar: "texto (arvore s) = Some (concat (map linha_dd xs))"
    and ok: "\<forall>v \<in> set xs. linha_ok v" and ne: "xs \<noteq> []" and bz: "\<forall>(x, y) \<in> arcos xs. x \<noteq> 0 \<and> y \<noteq> 0"
    and r: "rede_ok (arestas_de xs) h" and alt: "alturas (arestas_de xs) h \<le> 8"
    and arv: "distinct (map fst (arestas_de xs))" and rnd: "\<forall>k. sorteio_ok (rnd k)"
    and t: "t < length (arestas_de xs)" and tx: "link_tx_unico s i k t" and ts: "linhas_TCH (TCH s) ts"
  shows "\<exists>al x y bw s'. aloca rnd lixo lixo2 (concat (map linha_dd xs)) = Some al \<and> tabela_ok (arestas_de xs) al \<and>
    primeira al t x y \<and>
    SCHEDULE_static rnd lixo lixo2 lixo4 s = Some (1, bw, s') \<and> depois s i k ts x y s'"
proof -
  obtain al where al: "aloca rnd lixo lixo2 (concat (map linha_dd xs)) = Some al" and ta: "tabela_ok (arestas_de xs) al"
    using aloca_run [OF ok ne bz r alt rnd, of lixo lixo2] by (auto simp: runs_to_def)
  have d: "dims Channel Timeslot al" using ta by (simp add: tabela_ok_def)
  have "fst (arestas_de xs ! t) \<in> fst ` set (arestas_de xs)" using t by auto
  then have "escalado (arestas_de xs) al (fst (arestas_de xs ! t))" using ta unfolding tabela_ok_def by blast
  then have et: "\<exists>x < Channel. \<exists>y < Timeslot. cell al x y = int t" by (rule escalado_aresta [OF arv t])
  show ?thesis using SCHEDULE_resto [OF lk i tx ts ar al d et, of lixo4] ta al by blast
qed

text \<open>Without the topology file the call fails with the lock taken.\<close>

lemma SCHEDULE_sem_arquivo:
  assumes "livre (tq_lk (queue s))" and "tsch_schedule_get_slotframe_by_handle unicast_slotframe_handle s = Some i"
    and "texto (arvore s) = None"
  shows "SCHEDULE_static rnd lixo lixo2 lixo4 s = Some (0, 0, tranca s)"
  using assms get_lock_tranca [OF assms(1)] by (simp add: SCHEDULE_static_def)

lemma tranca_prende: "get_lock (tranca s) = Some (False, tranca s)"
  by (simp add: get_lock_def tranca_def tsch_get_lock_def)

lemma trancado_nao_acha: "tsch_schedule_get_slotframe_by_handle h (tranca s) = None"
  by (simp add: tsch_schedule_get_slotframe_by_handle_def)

section \<open>The other functions of the file\<close>

text \<open>The receivers' ids: a free place is filled, and the id is found afterwards.\<close>

lemma fill_id_run:
  assumes "fill_id nid s = (r, s')"
  shows "r = 1 \<longleftrightarrow> 0 \<in> set (PossNeighbor s)"
    and "r = 1 \<Longrightarrow> verify_link_by_id nid s' = 1"
    and "r = 1 \<Longrightarrow> j \<noteq> 0 \<Longrightarrow> j \<in> set (PossNeighbor s) \<Longrightarrow> verify_link_by_id j s' = 1"
    and "r \<noteq> 1 \<Longrightarrow> s' = s"
proof -
  let ?f = "List.find (\<lambda>i. PossNeighbor s ! i = 0) [0..<length (PossNeighbor s)]"
  show "r = 1 \<longleftrightarrow> 0 \<in> set (PossNeighbor s)"
    using assms by (auto simp: fill_id_def find_None_iff in_set_conv_nth find_Some_iff split: option.splits)
  show "r \<noteq> 1 \<Longrightarrow> s' = s" using assms by (auto simp: fill_id_def split: option.splits)
  assume "r = 1"
  then obtain i where i: "?f = Some i" and s': "s' = s\<lparr>PossNeighbor := (PossNeighbor s)[i := nid]\<rparr>"
    using assms by (auto simp: fill_id_def split: option.splits)
  have il: "i < length (PossNeighbor s)" "PossNeighbor s ! i = 0" using find_Some_nth [OF i] by auto
  then show "verify_link_by_id nid s' = 1" by (auto simp: verify_link_by_id_def s' set_update_memI)
  show "j \<noteq> 0 \<Longrightarrow> j \<in> set (PossNeighbor s) \<Longrightarrow> verify_link_by_id j s' = 1"
  proof -
    assume "j \<noteq> 0" "j \<in> set (PossNeighbor s)"
    then obtain m where "m < length (PossNeighbor s)" "PossNeighbor s ! m = j" "m \<noteq> i"
      using il(2) by (metis in_set_conv_nth)
    then show "verify_link_by_id j s' = 1"
      unfolding verify_link_by_id_def s' by (simp add: in_set_conv_nth) (metis nth_list_update_neq)
  qed
qed

text \<open>The neighbor list keeps the numbers heard, in order, each once, until it is full.\<close>

definition lista_ok :: "int list \<Rightarrow> bool" where
  "lista_ok vs \<longleftrightarrow> (\<exists>us n. vs = us @ replicate n 0 \<and> distinct us \<and> 0 \<notin> set us)"

lemma anota_set: "nbr \<noteq> 0 \<Longrightarrow> 0 \<in> set vs \<or> nbr \<in> set vs \<Longrightarrow> nbr \<in> set (anota_vizinho nbr vs)"
  by (induction vs) auto

lemma anota_vizinho_ok:
  assumes "nbr \<noteq> 0" and "0 \<notin> set us" and "distinct us"
  shows "anota_vizinho nbr (us @ replicate n 0) =
    (if nbr \<in> set us \<or> n = 0 then us @ replicate n 0 else (us @ [nbr]) @ replicate (n - 1) 0)"
  using assms(2,3)
proof (induction us)
  case Nil
  then show ?case using assms(1) by (cases n) auto
qed auto

lemma anota_lista_ok: "nbr \<noteq> 0 \<Longrightarrow> lista_ok vs \<Longrightarrow> lista_ok (anota_vizinho nbr vs)"
proof -
  assume n: "nbr \<noteq> 0" and "lista_ok vs"
  then obtain us m where vs: "vs = us @ replicate m 0" "distinct us" "0 \<notin> set us" by (auto simp: lista_ok_def)
  show "lista_ok (anota_vizinho nbr vs)"
  proof (cases "nbr \<in> set us \<or> m = 0")
    case True
    then show ?thesis using anota_vizinho_ok [OF n vs(3,2), of m] vs by (auto simp: lista_ok_def)
  next
    case False
    then have "anota_vizinho nbr vs = (us @ [nbr]) @ replicate (m - 1) 0"
      using anota_vizinho_ok [OF n vs(3,2), of m] vs(1) by simp
    moreover have "distinct (us @ [nbr])" "0 \<notin> set (us @ [nbr])" using False vs n by auto
    ultimately show ?thesis unfolding lista_ok_def by blast
  qed
qed

text \<open>sort_node_to_create_link answers a neighbor with a smaller number, and 0 when none was heard.\<close>

lemma sort_node_run:
  "sort_node_to_create_link n s = 0 \<longleftrightarrow> (\<forall>v \<in> set (NBRlist s). v \<noteq> 0 \<longrightarrow> n \<le> v)"
  "sort_node_to_create_link n s \<noteq> 0 \<Longrightarrow> sort_node_to_create_link n s \<in> set (NBRlist s) \<and> sort_node_to_create_link n s < n"
proof -
  have "maior_vizinho n vs = 0 \<longleftrightarrow> (\<forall>v \<in> set vs. v \<noteq> 0 \<longrightarrow> n \<le> v)" for vs
    by (induction vs) auto
  then show "sort_node_to_create_link n s = 0 \<longleftrightarrow> (\<forall>v \<in> set (NBRlist s). v \<noteq> 0 \<longrightarrow> n \<le> v)"
    by (simp add: sort_node_to_create_link_def)
  have "maior_vizinho n vs \<noteq> 0 \<Longrightarrow> maior_vizinho n vs \<in> set vs \<and> maior_vizinho n vs < n" for vs
    by (induction vs) auto
  then show "sort_node_to_create_link n s \<noteq> 0 \<Longrightarrow> sort_node_to_create_link n s \<in> set (NBRlist s) \<and> sort_node_to_create_link n s < n"
    by (simp add: sort_node_to_create_link_def)
qed

end
