(* ===== verification/Frame_IE.thy ===== *)
theory Frame_IE
  imports Asn
begin

text \<open>
  os/net/mac/framer/frame802154e-ie.c: the information elements of IEEE 802.15.4e frames, created
  one at a time into a buffer and parsed back by one loop.

  A pointer into a byte buffer is the list of the bytes from it to the end of the object; a read
  or a write past the end is None. The result of a create function is the returned length with the
  buffer after it, minus one for its error exits. The build options are arguments: whether
  6top is compiled in, and, as the length of the two arrays of the structure, the number of timing
  elements and the longest hopping sequence.
\<close>

section \<open>Little-endian fields\<close>

definition READ16 :: "u8 list \<Rightarrow> nat \<Rightarrow> u16 option" where
  "READ16 buf i = do {
     a \<leftarrow> rd buf i;
     b \<leftarrow> rd buf (i + 1);
     Some (ucast a OR push_bit 8 (ucast b)) }"

definition WRITE16 :: "u8 list \<Rightarrow> nat \<Rightarrow> u16 \<Rightarrow> u8 list option" where
  "WRITE16 buf i v = do {
     buf \<leftarrow> wr buf i (ucast (v AND 0xff));
     wr buf (i + 1) (ucast (drop_bit 8 v AND 0xff)) }"

section \<open>Data\<close>

definition FRAME802154E_IE_MAX_LINKS :: int where
  "FRAME802154E_IE_MAX_LINKS = 4"

definition tsch_ts_elements_count :: nat where
  "tsch_ts_elements_count = 12"

definition HEADER_IE_ACK_NACK_TIME_CORRECTION :: u8 where
  "HEADER_IE_ACK_NACK_TIME_CORRECTION = 0x1e"

definition HEADER_IE_LIST_TERMINATION_1 :: u8 where
  "HEADER_IE_LIST_TERMINATION_1 = 0x7e"

definition HEADER_IE_LIST_TERMINATION_2 :: u8 where
  "HEADER_IE_LIST_TERMINATION_2 = 0x7f"

definition PAYLOAD_IE_MLME :: u8 where
  "PAYLOAD_IE_MLME = 1"

definition PAYLOAD_IE_IETF :: u8 where
  "PAYLOAD_IE_IETF = 5"

definition PAYLOAD_IE_LIST_TERMINATION :: u8 where
  "PAYLOAD_IE_LIST_TERMINATION = 0xf"

definition MLME_SHORT_IE_TSCH_SYNCHRONIZATION :: u8 where
  "MLME_SHORT_IE_TSCH_SYNCHRONIZATION = 0x1a"

definition MLME_SHORT_IE_TSCH_SLOFTRAME_AND_LINK :: u8 where
  "MLME_SHORT_IE_TSCH_SLOFTRAME_AND_LINK = 0x1b"

definition MLME_SHORT_IE_TSCH_TIMESLOT :: u8 where
  "MLME_SHORT_IE_TSCH_TIMESLOT = 0x1c"

definition MLME_LONG_IE_TSCH_CHANNEL_HOPPING_SEQUENCE :: u8 where
  "MLME_LONG_IE_TSCH_CHANNEL_HOPPING_SEQUENCE = 9"

definition IETF_IE_6TOP :: u8 where
  "IETF_IE_6TOP = 0xc9"

lemmas ie_ids = HEADER_IE_ACK_NACK_TIME_CORRECTION_def HEADER_IE_LIST_TERMINATION_1_def
  HEADER_IE_LIST_TERMINATION_2_def PAYLOAD_IE_MLME_def PAYLOAD_IE_IETF_def
  PAYLOAD_IE_LIST_TERMINATION_def MLME_SHORT_IE_TSCH_SYNCHRONIZATION_def
  MLME_SHORT_IE_TSCH_SLOFTRAME_AND_LINK_def MLME_SHORT_IE_TSCH_TIMESLOT_def
  MLME_LONG_IE_TSCH_CHANNEL_HOPPING_SEQUENCE_def IETF_IE_6TOP_def

record tsch_slotframe_and_links_link =
  ie_timeslot :: u16
  ie_channel_offset :: u16
  ie_link_options :: u8

record tsch_slotframe_and_links =
  sl_num_slotframes :: u8
  sl_handle :: u8
  sl_size :: u16
  sl_num_links :: u8
  sl_links :: "tsch_slotframe_and_links_link list"

text \<open>The pointer to the 6top content is its offset from the start of the parsed buffer.\<close>

record ieee802154_ies =
  ie_time_correction :: u16
  ie_is_nack :: u8
  ie_payload_ie_offset :: u8
  ie_mlme_len :: u16
  ie_tsch_synchronization_offset :: u8
  ie_asn :: tsch_asn_t
  ie_join_priority :: u8
  ie_tsch_timeslot_id :: u8
  ie_tsch_timeslot :: "u16 list"
  ie_tsch_slotframe_and_link :: tsch_slotframe_and_links
  ie_channel_hopping_sequence_id :: u8
  ie_hopping_sequence_len :: u16
  ie_hopping_sequence_list :: "u8 list"
  sixtop_ie_content_ptr :: "nat option"
  sixtop_ie_content_len :: u16

text \<open>The value memset gives the structure, for a build whose hopping sequences have n channels.\<close>

definition zero_ies :: "nat \<Rightarrow> ieee802154_ies" where
  "zero_ies n = \<lparr>ie_time_correction = 0, ie_is_nack = 0, ie_payload_ie_offset = 0, ie_mlme_len = 0,
     ie_tsch_synchronization_offset = 0, ie_asn = \<lparr>ls4b = 0, ms1b = 0\<rparr>, ie_join_priority = 0,
     ie_tsch_timeslot_id = 0, ie_tsch_timeslot = replicate tsch_ts_elements_count 0,
     ie_tsch_slotframe_and_link =
       \<lparr>sl_num_slotframes = 0, sl_handle = 0, sl_size = 0, sl_num_links = 0,
        sl_links = replicate (nat FRAME802154E_IE_MAX_LINKS)
          \<lparr>ie_timeslot = 0, ie_channel_offset = 0, ie_link_options = 0\<rparr>\<rparr>,
     ie_channel_hopping_sequence_id = 0, ie_hopping_sequence_len = 0,
     ie_hopping_sequence_list = replicate n 0, sixtop_ie_content_ptr = None,
     sixtop_ie_content_len = 0\<rparr>"

section \<open>Descriptors\<close>

definition create_header_ie_descriptor :: "u8 list \<Rightarrow> u8 \<Rightarrow> int \<Rightarrow> u8 list option" where
  "create_header_ie_descriptor buf element_id ie_len =
     WRITE16 buf 0 ((word_of_int ie_len AND 0x7f) + push_bit 7 (ucast element_id AND 0xff))"

definition create_payload_ie_descriptor :: "u8 list \<Rightarrow> u8 \<Rightarrow> int \<Rightarrow> u8 list option" where
  "create_payload_ie_descriptor buf group_id ie_len =
     WRITE16 buf 0
       ((word_of_int ie_len AND 0x07ff) + push_bit 11 (ucast group_id AND 0x0f) + push_bit 15 1)"

definition create_mlme_short_ie_descriptor :: "u8 list \<Rightarrow> u8 \<Rightarrow> int \<Rightarrow> u8 list option" where
  "create_mlme_short_ie_descriptor buf sub_id ie_len =
     WRITE16 buf 0 ((word_of_int ie_len AND 0xff) + push_bit 8 (ucast sub_id AND 0x7f))"

definition create_mlme_long_ie_descriptor :: "u8 list \<Rightarrow> u8 \<Rightarrow> int \<Rightarrow> u8 list option" where
  "create_mlme_long_ie_descriptor buf sub_id ie_len =
     WRITE16 buf 0
       ((word_of_int ie_len AND 0x07ff) + push_bit 11 (ucast sub_id AND 0x0f) + push_bit 15 1)"

section \<open>Creating the elements\<close>

definition frame80215e_create_ie_header_ack_nack_time_correction ::
  "u8 list \<Rightarrow> int \<Rightarrow> ieee802154_ies option \<Rightarrow> (int \<times> u8 list) option" where
  "frame80215e_create_ie_header_ack_nack_time_correction buf len ies = (case ies of
     None \<Rightarrow> Some (-1, buf)
   | Some ies \<Rightarrow>
       (let ie_len = 2 in
        if len \<ge> 2 + ie_len then do {
          let time_sync_field = ie_time_correction ies AND 0x0fff;
          let time_sync_field =
            (if ie_is_nack ies \<noteq> 0 then time_sync_field OR 0x8000 else time_sync_field);
          buf \<leftarrow> WRITE16 buf 2 time_sync_field;
          buf \<leftarrow> create_header_ie_descriptor buf HEADER_IE_ACK_NACK_TIME_CORRECTION ie_len;
          Some (2 + ie_len, buf) }
        else Some (-1, buf)))"

definition frame80215e_create_ie_header_list_termination_1 ::
  "u8 list \<Rightarrow> int \<Rightarrow> ieee802154_ies option \<Rightarrow> (int \<times> u8 list) option" where
  "frame80215e_create_ie_header_list_termination_1 buf len ies =
     (if len \<ge> 2 \<and> ies \<noteq> None then do {
        buf \<leftarrow> create_header_ie_descriptor buf HEADER_IE_LIST_TERMINATION_1 0;
        Some (2, buf) }
      else Some (-1, buf))"

definition frame80215e_create_ie_header_list_termination_2 ::
  "u8 list \<Rightarrow> int \<Rightarrow> ieee802154_ies option \<Rightarrow> (int \<times> u8 list) option" where
  "frame80215e_create_ie_header_list_termination_2 buf len ies =
     (if len \<ge> 2 \<and> ies \<noteq> None then do {
        buf \<leftarrow> create_header_ie_descriptor buf HEADER_IE_LIST_TERMINATION_2 0;
        Some (2, buf) }
      else Some (-1, buf))"

definition frame80215e_create_ie_payload_list_termination ::
  "u8 list \<Rightarrow> int \<Rightarrow> ieee802154_ies option \<Rightarrow> (int \<times> u8 list) option" where
  "frame80215e_create_ie_payload_list_termination buf len ies =
     (if len \<ge> 2 \<and> ies \<noteq> None then do {
        buf \<leftarrow> create_payload_ie_descriptor buf PAYLOAD_IE_LIST_TERMINATION 0;
        Some (2, buf) }
      else Some (-1, buf))"

definition frame80215e_create_ie_ietf ::
  "u8 list \<Rightarrow> int \<Rightarrow> ieee802154_ies option \<Rightarrow> (int \<times> u8 list) option" where
  "frame80215e_create_ie_ietf buf len ies = (case ies of
     None \<Rightarrow> Some (-1, buf)
   | Some ies \<Rightarrow>
       (if len \<ge> 2 then do {
          buf \<leftarrow> create_payload_ie_descriptor buf PAYLOAD_IE_IETF (uint (sixtop_ie_content_len ies));
          Some (2 + uint (sixtop_ie_content_len ies), buf) }
        else Some (-1, buf)))"

definition frame80215e_create_ie_mlme ::
  "u8 list \<Rightarrow> int \<Rightarrow> ieee802154_ies option \<Rightarrow> (int \<times> u8 list) option" where
  "frame80215e_create_ie_mlme buf len ies = (case ies of
     None \<Rightarrow> Some (-1, buf)
   | Some ies \<Rightarrow>
       (if len \<ge> 2 then do {
          buf \<leftarrow> create_payload_ie_descriptor buf PAYLOAD_IE_MLME (uint (ie_mlme_len ies));
          Some (2, buf) }
        else Some (-1, buf)))"

definition frame80215e_create_ie_tsch_synchronization ::
  "u8 list \<Rightarrow> int \<Rightarrow> ieee802154_ies option \<Rightarrow> (int \<times> u8 list) option" where
  "frame80215e_create_ie_tsch_synchronization buf len ies = (case ies of
     None \<Rightarrow> Some (-1, buf)
   | Some ies \<Rightarrow>
       (let ie_len = 6 in
        if len \<ge> 2 + ie_len then do {
          buf \<leftarrow> wr buf 2 (ucast (ls4b (ie_asn ies)));
          buf \<leftarrow> wr buf 3 (ucast (drop_bit 8 (ls4b (ie_asn ies))));
          buf \<leftarrow> wr buf 4 (ucast (drop_bit 16 (ls4b (ie_asn ies))));
          buf \<leftarrow> wr buf 5 (ucast (drop_bit 24 (ls4b (ie_asn ies))));
          buf \<leftarrow> wr buf 6 (ms1b (ie_asn ies));
          buf \<leftarrow> wr buf 7 (ie_join_priority ies);
          buf \<leftarrow> create_mlme_short_ie_descriptor buf MLME_SHORT_IE_TSCH_SYNCHRONIZATION ie_len;
          Some (2 + ie_len, buf) }
        else Some (-1, buf)))"

definition frame80215e_create_ie_tsch_slotframe_and_link ::
  "u8 list \<Rightarrow> int \<Rightarrow> ieee802154_ies option \<Rightarrow> (int \<times> u8 list) option" where
  "frame80215e_create_ie_tsch_slotframe_and_link buf len ies = (case ies of
     None \<Rightarrow> Some (-1, buf)
   | Some ies \<Rightarrow>
       (let sl = ie_tsch_slotframe_and_link ies;
            nsf = uint (sl_num_slotframes sl);
            nl = uint (sl_num_links sl);
            ie_len = 1 + nsf * (4 + 5 * nl) in
        if nsf > 1 \<or> nl > FRAME802154E_IE_MAX_LINKS \<or> len < 2 + ie_len then Some (-1, buf)
        else do {
          buf \<leftarrow> wr buf 2 (sl_num_slotframes sl);
          buf \<leftarrow> (if nsf = 1 then do {
              buf \<leftarrow> wr buf (2 + 1) (sl_handle sl);
              buf \<leftarrow> WRITE16 buf (2 + 2) (sl_size sl);
              buf \<leftarrow> wr buf (2 + 4) (sl_num_links sl);
              for_upt 0 (nat nl) (\<lambda>i buf. do {
                l \<leftarrow> rd (sl_links sl) i;
                buf \<leftarrow> WRITE16 buf (2 + 5 + i * 5) (ie_timeslot l);
                buf \<leftarrow> WRITE16 buf (2 + 5 + i * 5 + 2) (ie_channel_offset l);
                wr buf (2 + 5 + i * 5 + 4) (ie_link_options l) }) buf }
            else Some buf);
          buf \<leftarrow> create_mlme_short_ie_descriptor buf MLME_SHORT_IE_TSCH_SLOFTRAME_AND_LINK ie_len;
          Some (2 + ie_len, buf) }))"

definition frame80215e_create_ie_tsch_timeslot ::
  "u8 list \<Rightarrow> int \<Rightarrow> ieee802154_ies option \<Rightarrow> (int \<times> u8 list) option" where
  "frame80215e_create_ie_tsch_timeslot buf len ies = (case ies of
     None \<Rightarrow> Some (-1, buf)
   | Some ies \<Rightarrow>
       (let ie_len = (if ie_tsch_timeslot_id ies = 0 then 1 else 25) in
        if len \<ge> 2 + ie_len then do {
          buf \<leftarrow> wr buf 2 (ie_tsch_timeslot_id ies);
          buf \<leftarrow> (if ie_tsch_timeslot_id ies \<noteq> 0 then
              for_upt 0 tsch_ts_elements_count (\<lambda>i buf. do {
                t \<leftarrow> rd (ie_tsch_timeslot ies) i;
                WRITE16 buf (3 + 2 * i) t }) buf
            else Some buf);
          buf \<leftarrow> create_mlme_short_ie_descriptor buf MLME_SHORT_IE_TSCH_TIMESLOT ie_len;
          Some (2 + ie_len, buf) }
        else Some (-1, buf)))"

text \<open>memcpy of n bytes from src to offset i of buf.\<close>

definition memcpy_at :: "u8 list \<Rightarrow> nat \<Rightarrow> u8 list \<Rightarrow> nat \<Rightarrow> u8 list option" where
  "memcpy_at buf i src n =
     (if i + n \<le> length buf \<and> n \<le> length src
      then Some (take i buf @ take n src @ drop (i + n) buf) else None)"

definition frame80215e_create_ie_tsch_channel_hopping_sequence ::
  "u8 list \<Rightarrow> int \<Rightarrow> ieee802154_ies option \<Rightarrow> (int \<times> u8 list) option" where
  "frame80215e_create_ie_tsch_channel_hopping_sequence buf len ies = (case ies of
     None \<Rightarrow> Some (-1, buf)
   | Some ies \<Rightarrow>
       (let n = unat (ie_hopping_sequence_len ies);
            ie_len = (if ie_channel_hopping_sequence_id ies = 0 then 1 else 12 + int n) in
        if n > length (ie_hopping_sequence_list ies) then Some (-1, buf)
        else if len \<ge> 2 + ie_len then do {
          buf \<leftarrow> wr buf 2 (ie_channel_hopping_sequence_id ies);
          buf \<leftarrow> wr buf 3 0;
          buf \<leftarrow> WRITE16 buf 4 0;
          buf \<leftarrow> WRITE16 buf 6 0;
          buf \<leftarrow> WRITE16 buf 8 0;
          buf \<leftarrow> WRITE16 buf 10 (ie_hopping_sequence_len ies);
          buf \<leftarrow> memcpy_at buf 12 (ie_hopping_sequence_list ies) n;
          buf \<leftarrow> WRITE16 buf (12 + n) 0;
          buf \<leftarrow> create_mlme_long_ie_descriptor buf MLME_LONG_IE_TSCH_CHANNEL_HOPPING_SEQUENCE ie_len;
          Some (2 + ie_len, buf) }
        else Some (-1, buf)))"


section \<open>Parsing one element\<close>

text \<open>
  The three parsers of one element return the length, or minus one, and the structure as they
  leave it.
\<close>

definition frame802154e_parse_header_ie ::
  "u8 list \<Rightarrow> int \<Rightarrow> u8 \<Rightarrow> ieee802154_ies option \<Rightarrow> (int \<times> ieee802154_ies option) option" where
  "frame802154e_parse_header_ie buf len element_id ies =
     (if element_id = HEADER_IE_ACK_NACK_TIME_CORRECTION \<and> len = 2 then
        (case ies of None \<Rightarrow> Some (len, None)
         | Some ies \<Rightarrow> do {
             time_sync_field \<leftarrow> READ16 buf 0;
             let nack = (if time_sync_field AND 0x8000 \<noteq> 0 then 1 else 0);
             let drift_us = (if time_sync_field AND 0x0800 \<noteq> 0 then time_sync_field OR 0xf000
                             else time_sync_field AND 0x0fff);
             Some (len, Some (ies\<lparr>ie_is_nack := nack, ie_time_correction := drift_us\<rparr>)) })
      else Some (-1, ies))"

definition parse_slotframe_and_link ::
  "u8 list \<Rightarrow> int \<Rightarrow> ieee802154_ies option \<Rightarrow> (int \<times> ieee802154_ies option) option" where
  "parse_slotframe_and_link buf len ies =
     (if len \<ge> 1 then do {
        b0 \<leftarrow> rd buf 0;
        b4 \<leftarrow> rd buf 4;
        let nsf = uint b0;
        let nl = uint b4;
        if nsf = 0 then Some (len, ies)
        else if nsf \<le> 1 \<and> nl \<le> FRAME802154E_IE_MAX_LINKS \<and> len = 1 + nsf * (4 + 5 * nl) then
          (case ies of None \<Rightarrow> Some (len, None)
           | Some ies \<Rightarrow> do {
               b1 \<leftarrow> rd buf 1;
               sz \<leftarrow> READ16 buf 2;
               ls \<leftarrow> for_upt 0 (nat nl) (\<lambda>i ls. do {
                  t \<leftarrow> READ16 buf (5 + i * 5);
                  c \<leftarrow> READ16 buf (5 + i * 5 + 2);
                  v \<leftarrow> rd buf (5 + i * 5 + 4);
                  wr ls i \<lparr>ie_timeslot = t, ie_channel_offset = c, ie_link_options = v\<rparr> })
                (sl_links (ie_tsch_slotframe_and_link ies));
               Some (len, Some (ies\<lparr>ie_tsch_slotframe_and_link :=
                 \<lparr>sl_num_slotframes = b0, sl_handle = b1, sl_size = sz, sl_num_links = b4,
                  sl_links = ls\<rparr>\<rparr>)) })
        else Some (-1, ies) }
      else Some (-1, ies))"

definition parse_synchronization ::
  "u8 list \<Rightarrow> int \<Rightarrow> ieee802154_ies option \<Rightarrow> (int \<times> ieee802154_ies option) option" where
  "parse_synchronization buf len ies =
     (if len = 6 then
        (case ies of None \<Rightarrow> Some (len, None)
         | Some ies \<Rightarrow> do {
             b0 \<leftarrow> rd buf 0; b1 \<leftarrow> rd buf 1; b2 \<leftarrow> rd buf 2; b3 \<leftarrow> rd buf 3;
             b4 \<leftarrow> rd buf 4; b5 \<leftarrow> rd buf 5;
             Some (len, Some (ies\<lparr>
               ie_asn := \<lparr>ls4b = ucast b0 OR push_bit 8 (ucast b1) OR push_bit 16 (ucast b2)
                                  OR push_bit 24 (ucast b3), ms1b = b4\<rparr>,
               ie_join_priority := b5\<rparr>)) })
      else Some (-1, ies))"

definition parse_timeslot ::
  "u8 list \<Rightarrow> int \<Rightarrow> ieee802154_ies option \<Rightarrow> (int \<times> ieee802154_ies option) option" where
  "parse_timeslot buf len ies =
     (if len = 1 \<or> len = 25 then
        (case ies of None \<Rightarrow> Some (len, None)
         | Some ies \<Rightarrow> do {
             b0 \<leftarrow> rd buf 0;
             ts \<leftarrow> (if len = 25 then
                 for_upt 0 tsch_ts_elements_count (\<lambda>i ts. do {
                   t \<leftarrow> READ16 buf (1 + 2 * i);
                   wr ts i t }) (ie_tsch_timeslot ies)
               else Some (ie_tsch_timeslot ies));
             Some (len, Some (ies\<lparr>ie_tsch_timeslot_id := b0, ie_tsch_timeslot := ts\<rparr>)) })
      else Some (-1, ies))"

definition frame802154e_parse_mlme_short_ie ::
  "u8 list \<Rightarrow> int \<Rightarrow> u8 \<Rightarrow> ieee802154_ies option \<Rightarrow> (int \<times> ieee802154_ies option) option" where
  "frame802154e_parse_mlme_short_ie buf len sub_id ies =
     (if sub_id = MLME_SHORT_IE_TSCH_SLOFTRAME_AND_LINK then parse_slotframe_and_link buf len ies
      else if sub_id = MLME_SHORT_IE_TSCH_SYNCHRONIZATION then parse_synchronization buf len ies
      else if sub_id = MLME_SHORT_IE_TSCH_TIMESLOT then parse_timeslot buf len ies
      else Some (-1, ies))"

definition frame802154e_parse_mlme_long_ie ::
  "u8 list \<Rightarrow> int \<Rightarrow> u8 \<Rightarrow> ieee802154_ies option \<Rightarrow> (int \<times> ieee802154_ies option) option" where
  "frame802154e_parse_mlme_long_ie buf len sub_id ies =
     (if sub_id = MLME_LONG_IE_TSCH_CHANNEL_HOPPING_SEQUENCE \<and> len > 0 then
        (case ies of None \<Rightarrow> Some (len, None)
         | Some ies \<Rightarrow> do {
             b0 \<leftarrow> rd buf 0;
             let ies = ies\<lparr>ie_channel_hopping_sequence_id := b0\<rparr>;
             if len > 1 then do {
               n \<leftarrow> READ16 buf 8;
               let ies = ies\<lparr>ie_hopping_sequence_len := n\<rparr>;
               if unat n \<le> length (ie_hopping_sequence_list ies) \<and> len = 12 + uint n then do {
                 ls \<leftarrow> memcpy_at (ie_hopping_sequence_list ies) 0 (drop 10 buf) (unat n);
                 Some (len, Some (ies\<lparr>ie_hopping_sequence_list := ls\<rparr>)) }
               else Some (len, Some ies) }
             else Some (len, Some ies) })
      else Some (-1, ies))"

section \<open>The parsing loop\<close>

datatype parsing_state = PARSING_HEADER_IE | PARSING_PAYLOAD_IE | PARSING_MLME_SUBIE

record ie_cursor =
  buf_pos :: nat
  buf_size :: u8
  parsing :: parsing_state
  nested_mlme_len :: int
  cur_ies :: ieee802154_ies

text \<open>
  One case of the switch, after the descriptor has been read and skipped: either the function
  returns, or the element has a length, still to be skipped, and the state is the updated one.
\<close>

definition parse_header_case ::
  "u8 list \<Rightarrow> u16 \<Rightarrow> ie_cursor \<Rightarrow> ((int \<times> ieee802154_ies) + u16 \<times> ie_cursor) option" where
  "parse_header_case start ie_desc c =
     (if ie_desc AND 0x8000 \<noteq> 0 then Some (Inl (-1, cur_ies c))
      else let len = ie_desc AND 0x007f; ie_id = (ucast (drop_bit 7 (ie_desc AND 0x7f80)) :: u8) in
        if ie_id = HEADER_IE_LIST_TERMINATION_1 then
          (if len = 0 then Some (Inr (len, c\<lparr>parsing := PARSING_PAYLOAD_IE,
               cur_ies := (cur_ies c)\<lparr>ie_payload_ie_offset := of_nat (buf_pos c)\<rparr>\<rparr>))
           else Some (Inl (-1, cur_ies c)))
        else if ie_id = HEADER_IE_LIST_TERMINATION_2 then
          (if len = 0 then Some (Inl (int (buf_pos c) + uint len,
               (cur_ies c)\<lparr>ie_payload_ie_offset := of_nat (buf_pos c)\<rparr>))
           else Some (Inl (-1, cur_ies c)))
        else if uint len > uint (buf_size c) then Some (Inl (-1, cur_ies c))
        else do {
          (r, ies) \<leftarrow> frame802154e_parse_header_ie (drop (buf_pos c) start) (uint len) ie_id
                        (Some (cur_ies c));
          let c = c\<lparr>cur_ies := the ies\<rparr>;
          Some (if r = -1 then Inl (-1, cur_ies c) else Inr (len, c)) })"

definition parse_payload_case ::
  "bool \<Rightarrow> u8 list \<Rightarrow> u16 \<Rightarrow> ie_cursor \<Rightarrow>
   ((int \<times> ieee802154_ies) + u16 \<times> ie_cursor) option" where
  "parse_payload_case sixtop start ie_desc c =
     (if ie_desc AND 0x8000 = 0 then Some (Inl (-1, cur_ies c))
      else let len = ie_desc AND 0x7ff; ie_id = (ucast (drop_bit 11 (ie_desc AND 0x7800)) :: u8) in
        if ie_id = PAYLOAD_IE_MLME then
          Some (Inr (0, c\<lparr>parsing := PARSING_MLME_SUBIE, nested_mlme_len := uint len\<rparr>))
        else if sixtop \<and> ie_id = PAYLOAD_IE_IETF then do {
          b \<leftarrow> rd start (buf_pos c);
          Some (Inr (len, if b = IETF_IE_6TOP then
            c\<lparr>cur_ies := (cur_ies c)\<lparr>sixtop_ie_content_ptr := Some (buf_pos c + 1),
                                     sixtop_ie_content_len := len - 1\<rparr>\<rparr>
            else c)) }
        else if ie_id = PAYLOAD_IE_LIST_TERMINATION then
          Some (Inl (if len = 0 then int (buf_pos c) else -1, cur_ies c))
        else Some (Inl (-1, cur_ies c)))"

definition parse_mlme_case ::
  "u8 list \<Rightarrow> u16 \<Rightarrow> ie_cursor \<Rightarrow> ((int \<times> ieee802154_ies) + u16 \<times> ie_cursor) option" where
  "parse_mlme_case start ie_desc c = do {
     let short = (ie_desc AND 0x8000 = 0);
     let len = (if short then ie_desc AND 0x00ff else ie_desc AND 0x7ff);
     (r, ies) \<leftarrow>
       (if uint len > uint (buf_size c) then Some (-1, Some (cur_ies c))
        else if short then
          frame802154e_parse_mlme_short_ie (drop (buf_pos c) start) (uint len)
            (ucast (drop_bit 8 (ie_desc AND 0x7f00))) (Some (cur_ies c))
        else
          frame802154e_parse_mlme_long_ie (drop (buf_pos c) start) (uint len)
            (ucast (drop_bit 11 (ie_desc AND 0x7800))) (Some (cur_ies c)));
     let c = c\<lparr>cur_ies := the ies\<rparr>;
     if r = -1 then Some (Inl (-1, cur_ies c))
     else do {
       let nested = nested_mlme_len c - (2 + uint len);
       if nested < 0 then Some (Inl (-1, cur_ies c))
       else Some (Inr (len, c\<lparr>nested_mlme_len := nested,
         parsing := (if nested = 0 then PARSING_PAYLOAD_IE else parsing c)\<rparr>)) } }"

definition ie_step ::
  "bool \<Rightarrow> u8 list \<Rightarrow> ie_cursor \<Rightarrow> ((int \<times> ieee802154_ies) + ie_cursor) option" where
  "ie_step sixtop start c =
     (if buf_size c < 2 then Some (Inl (-1, cur_ies c))
      else do {
        ie_desc \<leftarrow> READ16 start (buf_pos c);
        let c = c\<lparr>buf_size := buf_size c - 2, buf_pos := buf_pos c + 2\<rparr>;
        r \<leftarrow> (case parsing c of
            PARSING_HEADER_IE \<Rightarrow> parse_header_case start ie_desc c
          | PARSING_PAYLOAD_IE \<Rightarrow> parse_payload_case sixtop start ie_desc c
          | PARSING_MLME_SUBIE \<Rightarrow> parse_mlme_case start ie_desc c);
        Some (case r of Inl x \<Rightarrow> Inl x
          | Inr (len, c) \<Rightarrow> Inr (c\<lparr>buf_pos := buf_pos c + unat len,
                                   buf_size := buf_size c - ucast len\<rparr>)) })"

definition ie_finish :: "ie_cursor \<Rightarrow> int \<times> ieee802154_ies" where
  "ie_finish c = (int (buf_pos c),
     if parsing c = PARSING_HEADER_IE
     then (cur_ies c)\<lparr>ie_payload_ie_offset := of_nat (buf_pos c)\<rparr> else cur_ies c)"

text \<open>
  The loop ends because every pass reads a descriptor and moves past it, and a read past the end of
  the object is None.
\<close>

lemma READ16_bound: "READ16 buf i = Some v \<Longrightarrow> Suc i < length buf"
  by (auto simp: READ16_def rd_def split: bind_splits if_splits)

lemma header_case_pos:
  "parse_header_case start d c = Some (Inr (len, c')) \<Longrightarrow> buf_pos c' = buf_pos c"
  by (auto simp: parse_header_case_def Let_def split: if_splits bind_splits)

lemma payload_case_pos:
  "parse_payload_case six start d c = Some (Inr (len, c')) \<Longrightarrow> buf_pos c' = buf_pos c"
  by (auto simp: parse_payload_case_def Let_def split: if_splits bind_splits)

lemma mlme_case_pos:
  "parse_mlme_case start d c = Some (Inr (len, c')) \<Longrightarrow> buf_pos c' = buf_pos c"
  by (auto simp: parse_mlme_case_def Let_def split: if_splits bind_splits)

lemma ie_step_pos:
  assumes "ie_step six start c = Some (Inr c')"
  shows "buf_pos c < length start \<and> buf_pos c < buf_pos c'"
  using assms
  by (auto simp: ie_step_def Let_def split: if_splits bind_splits sum.splits parsing_state.splits
      dest!: READ16_bound header_case_pos payload_case_pos mlme_case_pos)

function ie_loop :: "bool \<Rightarrow> u8 list \<Rightarrow> ie_cursor \<Rightarrow> (int \<times> ieee802154_ies) option" where
  "ie_loop six start c =
     (if buf_size c = 0 then Some (ie_finish c)
      else case ie_step six start c of
          None \<Rightarrow> None
        | Some (Inl r) \<Rightarrow> Some r
        | Some (Inr c') \<Rightarrow> ie_loop six start c')"
  by pat_completeness auto
termination
  by (relation "measure (\<lambda>(six, start, c). length start - buf_pos c)")
    (use ie_step_pos in fastforce)+

declare ie_loop.simps [simp del]

definition frame802154e_parse_information_elements ::
  "bool \<Rightarrow> u8 list \<Rightarrow> u8 \<Rightarrow> ieee802154_ies option \<Rightarrow> (int \<times> ieee802154_ies option) option" where
  "frame802154e_parse_information_elements sixtop buf buf_sz ies = (case ies of
     None \<Rightarrow> Some (-1, None)
   | Some ies \<Rightarrow> do {
       (r, ies) \<leftarrow> ie_loop sixtop buf \<lparr>buf_pos = 0, buf_size = buf_sz, parsing = PARSING_HEADER_IE,
          nested_mlme_len = 0, cur_ies = ies\<lparr>ie_payload_ie_offset := 0\<rparr>\<rparr>;
       Some (r, Some ies) })"


section \<open>Fields in the middle of a buffer\<close>

definition le16 :: "u16 \<Rightarrow> u8 list" where
  "le16 v = [ucast v, ucast (drop_bit 8 v)]"

lemma length_le16 [simp]: "length (le16 v) = 2"
  by (simp add: le16_def)

lemma rd_mid: "i = length xs \<Longrightarrow> rd (xs @ y # zs) i = Some y"
  by (simp add: rd_def)

lemma wr_mid: "i = length xs \<Longrightarrow> wr (xs @ y # zs) i v = Some (xs @ v # zs)"
  by (simp add: wr_def)

lemma rd_append: "rd (xs @ ys) (length xs + i) = rd ys i"
  by (simp add: rd_def nth_append)

lemma rd_drop: "rd (drop n xs) i = rd xs (n + i)"
  by (auto simp: rd_def)

lemma ucast_mask8 [simp]: "(ucast (v AND 0xff :: u16) :: u8) = ucast v"
proof -
  have "(v AND 0xff :: u16) = take_bit 8 v"
    by (simp add: take_bit_eq_mask mask_eq_exp_minus_1)
  then show ?thesis
    by (auto intro!: bit_word_eqI simp: bit_simps)
qed

lemma WRITE16_bytes: "WRITE16 (a # b # zs) 0 v = Some (le16 v @ zs)"
  by (simp add: WRITE16_def wr_def le16_def)

lemma WRITE16_mid: "i = length xs \<Longrightarrow> WRITE16 (xs @ a # b # zs) i v = Some (xs @ le16 v @ zs)"
  by (simp add: WRITE16_def wr_def le16_def nth_append list_update_append)

lemma le16_join: "ucast (ucast v :: u8) OR push_bit 8 (ucast (ucast (drop_bit 8 v) :: u8)) = (v :: u16)"
  by (rule bit_word_eqI) (auto simp: bit_simps)

lemma READ16_le16: "READ16 (le16 v @ zs) 0 = Some v"
  by (simp add: READ16_def le16_def rd_def le16_join)

lemma READ16_append: "READ16 (xs @ ys) (length xs + i) = READ16 ys i"
  using rd_append [of xs ys "i + 1"] by (simp add: READ16_def rd_append)

lemma READ16_mid: "i = length xs \<Longrightarrow> READ16 (xs @ le16 v @ zs) i = Some v"
  using READ16_append [of xs "le16 v @ zs" 0] by (simp add: READ16_le16)

lemma READ16_drop: "READ16 (drop n xs) i = READ16 xs (n + i)"
  by (simp add: READ16_def rd_drop add.assoc)

text \<open>The four bytes of an ASN counter.\<close>

lemma le32_join:
  "ucast (ucast w :: u8) OR push_bit 8 (ucast (ucast (drop_bit 8 w) :: u8))
     OR push_bit 16 (ucast (ucast (drop_bit 16 w) :: u8))
     OR push_bit 24 (ucast (ucast (drop_bit 24 w) :: u8)) = (w :: u32)"
proof (rule bit_word_eqI)
  fix n assume "n < LENGTH(32)"
  then consider "n < 8" | "8 \<le> n \<and> n < 16" | "16 \<le> n \<and> n < 24" | "24 \<le> n \<and> n < 32"
    by fastforce
  then show "bit (ucast (ucast w :: u8) OR push_bit 8 (ucast (ucast (drop_bit 8 w) :: u8))
     OR push_bit 16 (ucast (ucast (drop_bit 16 w) :: u8))
     OR push_bit 24 (ucast (ucast (drop_bit 24 w) :: u8)) :: u32) n = bit w n"
    by cases (auto simp: bit_simps)
qed

section \<open>Descriptors\<close>

definition short_desc :: "u8 \<Rightarrow> nat \<Rightarrow> u16" where
  "short_desc k n = (of_nat n AND 0xff) OR push_bit 8 (ucast k AND 0x7f)"

definition long_desc :: "u8 \<Rightarrow> nat \<Rightarrow> u16" where
  "long_desc k n = (of_nat n AND 0x07ff) OR push_bit 11 (ucast k AND 0x0f) OR push_bit 15 1"

definition header_desc :: "u8 \<Rightarrow> nat \<Rightarrow> u16" where
  "header_desc k n = (of_nat n AND 0x7f) OR push_bit 7 (ucast k AND 0xff)"

lemma field_descs:
  "(d AND 0x7f :: u16) = take_bit 7 d" "(d AND 0xff :: u16) = take_bit 8 d"
  "(d AND 0x07ff :: u16) = take_bit 11 d" "(d AND 0x0f :: u16) = take_bit 4 d"
  by (simp_all add: take_bit_eq_mask mask_eq_exp_minus_1)

lemma drop_field: "drop_bit k (d AND push_bit k (mask n) :: u16) = take_bit n (drop_bit k d)"
  by (rule bit_word_eqI) (auto simp: bit_simps dest: bit_imp_le_length)

lemma field_ids:
  "drop_bit 7 (d AND 0x7f80 :: u16) = take_bit 8 (drop_bit 7 d)"
  "drop_bit 8 (d AND 0x7f00 :: u16) = take_bit 7 (drop_bit 8 d)"
  "drop_bit 11 (d AND 0x7800 :: u16) = take_bit 4 (drop_bit 11 d)"
  using drop_field [of 7 d 8] drop_field [of 8 d 7] drop_field [of 11 d 4]
  by (simp_all add: mask_eq_exp_minus_1 push_bit_eq_mult)

lemma and_8000: "(d AND 0x8000 :: u16) = 0 \<longleftrightarrow> \<not> bit d 15"
  using and_exp_eq_0_iff_not_bit [of d 15] by simp

lemma short_desc_sum:
  "(of_nat n AND 0xff) + push_bit 8 (ucast k AND 0x7f :: u16) = short_desc k n"
  unfolding short_desc_def field_descs
  by (rule disjunctive_add) (auto simp: bit_simps)

lemma header_desc_sum:
  "(of_nat n AND 0x7f) + push_bit 7 (ucast k AND 0xff :: u16) = header_desc k n"
  unfolding header_desc_def field_descs
  by (rule disjunctive_add) (auto simp: bit_simps)

lemma long_desc_sum:
  "(of_nat n AND 0x07ff) + push_bit 11 (ucast k AND 0x0f) + push_bit 15 1 = long_desc k n"
proof -
  have "(of_nat n AND 0x07ff) + push_bit 11 (ucast k AND 0x0f :: u16)
      = (of_nat n AND 0x07ff) OR push_bit 11 (ucast k AND 0x0f)"
    unfolding field_descs by (rule disjunctive_add) (auto simp: bit_simps)
  moreover have "((of_nat n AND 0x07ff) OR push_bit 11 (ucast k AND 0x0f)) + push_bit 15 (y :: u16)
      = ((of_nat n AND 0x07ff) OR push_bit 11 (ucast k AND 0x0f)) OR push_bit 15 y" for y
    unfolding field_descs by (rule disjunctive_add) (auto simp: bit_simps)
  ultimately show ?thesis by (simp only: long_desc_def or.assoc)
qed


lemma ucast_8_16_8: "ucast (ucast (k :: u8) :: u16) = k"
  by (rule bit_word_eqI) (auto simp: bit_simps)

lemma desc_short_fields:
  assumes "n < 256" and "k < 128"
  shows "short_desc k n AND 0x8000 = 0" and "short_desc k n AND 0x00ff = of_nat n"
    and "ucast (drop_bit 8 (short_desc k n AND 0x7f00)) = k"
proof -
  have k: "take_bit 7 (ucast k :: u16) = ucast k"
    using assms(2) by (simp add: word_less_nat_alt word_eq_unat unsigned_take_bit_eq take_bit_nat_eq_self)
  have n: "take_bit 8 (of_nat n :: u16) = of_nat n"
    using assms(1) by (simp add: word_eq_unat unsigned_take_bit_eq unsigned_of_nat take_bit_nat_eq_self)
  show "short_desc k n AND 0x8000 = 0"
    unfolding and_8000 short_desc_def field_descs by (simp add: bit_simps)
  show "short_desc k n AND 0x00ff = of_nat n"
    by (subst n [symmetric], unfold field_descs short_desc_def)
      (auto intro!: bit_word_eqI simp: bit_simps)
  have "take_bit 7 (drop_bit 8 (short_desc k n)) = take_bit 7 (ucast k :: u16)"
    unfolding field_descs short_desc_def
    by (rule bit_word_eqI) (auto simp: bit_simps)
  then show "ucast (drop_bit 8 (short_desc k n AND 0x7f00)) = k"
    unfolding field_ids k by (simp add: ucast_8_16_8)
qed

lemma desc_header_fields:
  assumes "n < 128"
  shows "header_desc k n AND 0x8000 = 0" and "header_desc k n AND 0x007f = of_nat n"
    and "ucast (drop_bit 7 (header_desc k n AND 0x7f80)) = k"
proof -
  have n: "take_bit 7 (of_nat n :: u16) = of_nat n"
    using assms(1) by (simp add: word_eq_unat unsigned_take_bit_eq unsigned_of_nat take_bit_nat_eq_self)
  show "header_desc k n AND 0x8000 = 0"
    unfolding and_8000 header_desc_def field_descs by (simp add: bit_simps)
  show "header_desc k n AND 0x007f = of_nat n"
    by (subst n [symmetric], unfold field_descs header_desc_def)
      (auto intro!: bit_word_eqI simp: bit_simps)
  show "ucast (drop_bit 7 (header_desc k n AND 0x7f80)) = k"
    unfolding field_ids field_descs header_desc_def
    by (rule bit_word_eqI) (auto simp: bit_simps)
qed

lemma desc_long_fields:
  assumes "n < 2048" and "k < 16"
  shows "long_desc k n AND 0x8000 \<noteq> 0" and "long_desc k n AND 0x07ff = of_nat n"
    and "ucast (drop_bit 11 (long_desc k n AND 0x7800)) = k"
proof -
  have k: "take_bit 4 (ucast k :: u16) = ucast k"
    using assms(2) by (simp add: word_less_nat_alt word_eq_unat unsigned_take_bit_eq take_bit_nat_eq_self)
  have n: "take_bit 11 (of_nat n :: u16) = of_nat n"
    using assms(1) by (simp add: word_eq_unat unsigned_take_bit_eq unsigned_of_nat take_bit_nat_eq_self)
  have top: "take_bit 11 (push_bit 15 y :: u16) = 0" "take_bit 4 (drop_bit 11 (push_bit 15 y :: u16)) = 0"
    for y by (auto intro!: bit_word_eqI simp: bit_simps)
  show "long_desc k n AND 0x8000 \<noteq> 0"
    unfolding and_8000 long_desc_def field_descs by (simp add: bit_simps)
  have "take_bit 11 (push_bit 11 y :: u16) = 0" for y
    by (auto intro!: bit_word_eqI simp: bit_simps)
  then show "long_desc k n AND 0x07ff = of_nat n"
    unfolding field_descs long_desc_def take_bit_or top by (simp add: n)
  have "take_bit 4 (drop_bit 11 (take_bit 11 y :: u16)) = 0" for y
    by (auto intro!: bit_word_eqI simp: bit_simps)
  moreover have "take_bit 4 (drop_bit 11 (push_bit 11 (take_bit 4 y) :: u16)) = take_bit 4 y" for y
    by (auto intro!: bit_word_eqI simp: bit_simps)
  ultimately have "take_bit 4 (drop_bit 11 (long_desc k n)) = take_bit 4 (ucast k)"
    unfolding field_descs long_desc_def drop_bit_or take_bit_or top by simp
  then show "ucast (drop_bit 11 (long_desc k n AND 0x7800)) = k"
    unfolding field_ids k by (simp add: ucast_8_16_8)
qed


section \<open>Arrays of fields\<close>

text \<open>A loop that writes one chunk of w bytes per pass, and one that fills an array.\<close>

lemma for_upt_chunks:
  assumes "length ts = n" and "length mid = w * n"
    and step: "\<And>i xs ys zs. i < n \<Longrightarrow> length xs = length pre + w * i \<Longrightarrow> length ys = w \<Longrightarrow>
      f i (xs @ ys @ zs) = Some (xs @ chunk (ts ! i) @ zs)"
    and len: "\<And>t. length (chunk t) = w"
  shows "for_upt 0 n f (pre @ mid @ rest) = Some (pre @ concat (map chunk ts) @ rest)"
proof -
  have cl: "length (concat (map chunk us)) = w * length us" for us
    by (induction us) (simp_all add: len)
  have "for_upt 0 k f (pre @ mid @ rest)
      = Some (pre @ concat (map chunk (take k ts)) @ drop (w * k) mid @ rest)" if "k \<le> n" for k
    using that
  proof (induction k)
    case (Suc k)
    have "w * k + w \<le> length mid"
      using Suc.prems assms(2) mult_le_mono2 [of "Suc k" n w] by simp
    then have ys: "length (take w (drop (w * k) mid)) = w"
      by simp
    have "drop (w * k) mid = take w (drop (w * k) mid) @ drop (w * Suc k) mid"
      by (metis append_take_drop_id drop_drop mult_Suc_right)
    then have "for_upt 0 k f (pre @ mid @ rest)
        = Some ((pre @ concat (map chunk (take k ts))) @ take w (drop (w * k) mid)
                  @ drop (w * Suc k) mid @ rest)"
      using Suc by simp
    moreover have "length (pre @ concat (map chunk (take k ts))) = length pre + w * k"
      using Suc.prems assms(1) by (simp only: length_append cl) simp
    moreover from this have "f k ((pre @ concat (map chunk (take k ts))) @ take w (drop (w * k) mid)
        @ drop (w * Suc k) mid @ rest)
      = Some ((pre @ concat (map chunk (take k ts))) @ chunk (ts ! k) @ drop (w * Suc k) mid @ rest)"
      using Suc.prems by (intro step [OF _ _ ys]) simp_all
    ultimately show ?case
      using Suc.prems assms(1) by (simp add: for_upt_Suc take_Suc_conv_app_nth)
  qed simp
  from this [of n] show ?thesis
    using assms(1,2) by simp
qed

lemma for_upt_fill:
  assumes "length vs = n" and "n \<le> length ls"
    and "\<And>i ls. i < n \<Longrightarrow> i < length ls \<Longrightarrow> f i ls = Some (ls[i := vs ! i])"
  shows "for_upt 0 n f ls = Some (vs @ drop n ls)"
proof -
  have "for_upt 0 k f ls = Some (take k vs @ drop k ls)" if "k \<le> n" for k
    using that
  proof (induction k)
    case (Suc k)
    then have "drop k ls = ls ! k # drop (Suc k) ls"
      using assms(2) by (simp add: Cons_nth_drop_Suc)
    with Suc show ?case
      using assms by (simp add: for_upt_Suc take_Suc_conv_app_nth list_update_append)
  qed simp
  from this [of n] show ?thesis
    using assms(1) by simp
qed

lemma length_le16s: "length (concat (map le16 ts)) = 2 * length ts"
  by (induction ts) simp_all

lemma READ16_le16s:
  "i < length ts \<Longrightarrow> READ16 (concat (map le16 ts) @ zs) (2 * i) = Some (ts ! i)"
proof (induction ts arbitrary: i)
  case (Cons t ts)
  then show ?case
    using READ16_append [of "le16 t" "concat (map le16 ts) @ zs" "2 * (i - 1)"]
    by (cases i) (simp_all add: READ16_le16)
qed simp

section \<open>The bytes of the elements\<close>

definition ack_bytes :: "ieee802154_ies \<Rightarrow> u8 list" where
  "ack_bytes i = le16 (header_desc HEADER_IE_ACK_NACK_TIME_CORRECTION 2)
     @ le16 (if ie_is_nack i \<noteq> 0 then (ie_time_correction i AND 0x0fff) OR 0x8000
             else ie_time_correction i AND 0x0fff)"

definition sync_bytes :: "ieee802154_ies \<Rightarrow> u8 list" where
  "sync_bytes i = le16 (short_desc MLME_SHORT_IE_TSCH_SYNCHRONIZATION 6)
     @ [ucast (ls4b (ie_asn i)), ucast (drop_bit 8 (ls4b (ie_asn i))),
        ucast (drop_bit 16 (ls4b (ie_asn i))), ucast (drop_bit 24 (ls4b (ie_asn i))),
        ms1b (ie_asn i), ie_join_priority i]"

definition link_bytes :: "tsch_slotframe_and_links_link \<Rightarrow> u8 list" where
  "link_bytes l = le16 (ie_timeslot l) @ le16 (ie_channel_offset l) @ [ie_link_options l]"

definition slotframe_len :: "ieee802154_ies \<Rightarrow> nat" where
  "slotframe_len i = (let sl = ie_tsch_slotframe_and_link i in
     1 + unat (sl_num_slotframes sl) * (4 + 5 * unat (sl_num_links sl)))"

definition slotframe_bytes :: "ieee802154_ies \<Rightarrow> u8 list" where
  "slotframe_bytes i = (let sl = ie_tsch_slotframe_and_link i in
     le16 (short_desc MLME_SHORT_IE_TSCH_SLOFTRAME_AND_LINK (slotframe_len i))
     @ sl_num_slotframes sl #
       (if sl_num_slotframes sl = 1
        then sl_handle sl # le16 (sl_size sl) @ sl_num_links sl #
          concat (map link_bytes (take (unat (sl_num_links sl)) (sl_links sl)))
        else []))"

definition timeslot_bytes :: "ieee802154_ies \<Rightarrow> u8 list" where
  "timeslot_bytes i =
     le16 (short_desc MLME_SHORT_IE_TSCH_TIMESLOT (if ie_tsch_timeslot_id i = 0 then 1 else 25))
     @ ie_tsch_timeslot_id i #
       (if ie_tsch_timeslot_id i = 0 then [] else concat (map le16 (ie_tsch_timeslot i)))"

definition hopping_bytes :: "ieee802154_ies \<Rightarrow> u8 list" where
  "hopping_bytes i =
     le16 (long_desc MLME_LONG_IE_TSCH_CHANNEL_HOPPING_SEQUENCE
             (12 + unat (ie_hopping_sequence_len i)))
     @ ie_channel_hopping_sequence_id i # 0 # le16 0 @ le16 0 @ le16 0
     @ le16 (ie_hopping_sequence_len i)
     @ take (unat (ie_hopping_sequence_len i)) (ie_hopping_sequence_list i) @ le16 0"

text \<open>The arrays of the structure have the lengths of their declarations.\<close>

definition ies_ok :: "nat \<Rightarrow> ieee802154_ies \<Rightarrow> bool" where
  "ies_ok n i \<longleftrightarrow> length (ie_tsch_timeslot i) = tsch_ts_elements_count
     \<and> length (sl_links (ie_tsch_slotframe_and_link i)) = nat FRAME802154E_IE_MAX_LINKS
     \<and> length (ie_hopping_sequence_list i) = n"

text \<open>The bytes that a write into the head of a buffer replaces.\<close>

lemma split_head: "n \<le> length buf \<Longrightarrow> \<exists>xs. length xs = n \<and> buf = xs @ drop n buf"
  by (rule exI [of _ "take n buf"]) simp

lemma list2: "length xs = 2 \<Longrightarrow> \<exists>a b. xs = [a, b]"
  by (auto simp: length_Suc_conv numeral_2_eq_2)

lemma list8: "length xs = 8 \<Longrightarrow> \<exists>a b c d e f g h. xs = [a, b, c, d, e, f, g, h]"
  by (auto simp: length_Suc_conv eval_nat_numeral)

lemma header_desc_bytes:
  "create_header_ie_descriptor (a # b # zs) k (int n) = Some (le16 (header_desc k n) @ zs)"
  unfolding create_header_ie_descriptor_def of_int_of_nat_eq header_desc_sum by (rule WRITE16_bytes)

lemma short_desc_bytes:
  "create_mlme_short_ie_descriptor (a # b # zs) k (int n) = Some (le16 (short_desc k n) @ zs)"
  unfolding create_mlme_short_ie_descriptor_def of_int_of_nat_eq short_desc_sum by (rule WRITE16_bytes)

lemma long_desc_bytes:
  "create_mlme_long_ie_descriptor (a # b # zs) k (int n) = Some (le16 (long_desc k n) @ zs)"
  unfolding create_mlme_long_ie_descriptor_def of_int_of_nat_eq long_desc_sum by (rule WRITE16_bytes)

lemma payload_desc_bytes:
  "create_payload_ie_descriptor (a # b # zs) k (int n) = Some (le16 (long_desc k n) @ zs)"
  unfolding create_payload_ie_descriptor_def of_int_of_nat_eq long_desc_sum by (rule WRITE16_bytes)

lemma create_ack_bytes:
  assumes "4 \<le> len" and "4 \<le> length buf"
  shows "frame80215e_create_ie_header_ack_nack_time_correction buf len (Some i)
       = Some (4, ack_bytes i @ drop 4 buf)"
proof -
  obtain a b c d where buf: "buf = a # b # c # d # drop 4 buf"
    using assms(2) by (auto simp: Suc_le_length_iff eval_nat_numeral)
  show ?thesis
    using assms(1) header_desc_bytes [of a b _ HEADER_IE_ACK_NACK_TIME_CORRECTION 2]
    by (subst (1 2) buf) (simp add: frame80215e_create_ie_header_ack_nack_time_correction_def Let_def
        WRITE16_mid [of 2 "[a, b]", simplified] ack_bytes_def)
qed

lemma create_sync_bytes:
  assumes "8 \<le> len" and "8 \<le> length buf"
  shows "frame80215e_create_ie_tsch_synchronization buf len (Some i)
       = Some (8, sync_bytes i @ drop 8 buf)"
proof -
  obtain a b c d e f g h where buf: "buf = a # b # c # d # e # f # g # h # drop 8 buf"
    using assms(2) by (auto simp: Suc_le_length_iff eval_nat_numeral)
  show ?thesis
    using assms(1) short_desc_bytes [of a b _ MLME_SHORT_IE_TSCH_SYNCHRONIZATION 6]
    by (subst (1 2) buf) (simp add: frame80215e_create_ie_tsch_synchronization_def Let_def
        wr_def sync_bytes_def)
qed


lemma length_timeslot_bytes:
  "ies_ok n i \<Longrightarrow> length (timeslot_bytes i) = (if ie_tsch_timeslot_id i = 0 then 3 else 27)"
  by (simp add: timeslot_bytes_def ies_ok_def length_le16s tsch_ts_elements_count_def)

lemma length_link_bytes [simp]: "length (link_bytes l) = 5"
  by (simp add: link_bytes_def)

lemma length_links_bytes: "length (concat (map link_bytes ls)) = 5 * length ls"
  by (induction ls) simp_all

lemma length_sync_bytes [simp]: "length (sync_bytes i) = 8"
  by (simp add: sync_bytes_def)

lemma length_ack_bytes [simp]: "length (ack_bytes i) = 4"
  by (simp add: ack_bytes_def)

lemma length_hopping_bytes:
  "unat (ie_hopping_sequence_len i) \<le> length (ie_hopping_sequence_list i) \<Longrightarrow>
   length (hopping_bytes i) = 14 + unat (ie_hopping_sequence_len i)"
  by (simp add: hopping_bytes_def)

text \<open>What the slotframe element accepts: at most one slotframe, and at most four links in it.\<close>

definition slotframe_ok :: "ieee802154_ies \<Rightarrow> bool" where
  "slotframe_ok i \<longleftrightarrow> unat (sl_num_slotframes (ie_tsch_slotframe_and_link i)) \<le> 1
     \<and> unat (sl_num_links (ie_tsch_slotframe_and_link i)) \<le> 4"

lemma slotframe_cases:
  assumes "slotframe_ok i"
  shows "sl_num_slotframes (ie_tsch_slotframe_and_link i) = 0
       \<or> sl_num_slotframes (ie_tsch_slotframe_and_link i) = 1"
  using assms by (auto simp: slotframe_ok_def word_eq_unat le_Suc_eq)

lemma length_slotframe_bytes:
  assumes "ies_ok n i" and "slotframe_ok i"
  shows "length (slotframe_bytes i) = 2 + slotframe_len i"
  using slotframe_cases [OF assms(2)] assms
  by (auto simp: slotframe_bytes_def slotframe_len_def Let_def length_links_bytes ies_ok_def
      slotframe_ok_def FRAME802154E_IE_MAX_LINKS_def)

lemma slotframe_len_less: "slotframe_ok i \<Longrightarrow> slotframe_len i < 26"
  using slotframe_cases [of i] by (auto simp: slotframe_len_def Let_def slotframe_ok_def)

lemma create_timeslot_bytes:
  assumes "ies_ok n i" and "int (length (timeslot_bytes i)) \<le> len"
    and "length (timeslot_bytes i) \<le> length buf"
  shows "frame80215e_create_ie_tsch_timeslot buf len (Some i)
       = Some (int (length (timeslot_bytes i)),
               timeslot_bytes i @ drop (length (timeslot_bytes i)) buf)"
proof (cases "ie_tsch_timeslot_id i = 0")
  case True
  then obtain a b c where buf: "buf = a # b # c # drop 3 buf"
    using assms by (auto simp: length_timeslot_bytes Suc_le_length_iff eval_nat_numeral)
  show ?thesis
    using True assms short_desc_bytes [of a b _ MLME_SHORT_IE_TSCH_TIMESLOT 1]
    by (subst (1 2) buf) (simp add: frame80215e_create_ie_tsch_timeslot_def Let_def
        length_timeslot_bytes timeslot_bytes_def wr_def)
next
  case False
  then have n: "length (timeslot_bytes i) = 27" and l: "length buf \<ge> 27"
    using assms by (simp_all add: length_timeslot_bytes)
  then obtain a b c where buf3: "buf = a # b # c # drop 3 buf"
    by (auto simp: Suc_le_length_iff eval_nat_numeral)
  define mid where "mid = take 24 (drop 3 buf)"
  have buf: "buf = a # b # c # mid @ drop 27 buf" and m: "length mid = 24"
    using buf3 append_take_drop_id [of 24 "drop 3 buf"] l by (simp_all add: mid_def)
  have loop: "for_upt 0 tsch_ts_elements_count (\<lambda>i' buf. do {
                t \<leftarrow> rd (ie_tsch_timeslot i) i';
                WRITE16 buf (3 + 2 * i') t }) ([a, b, d] @ mid @ drop 27 buf)
            = Some ([a, b, d] @ concat (map le16 (ie_tsch_timeslot i)) @ drop 27 buf)" for d
    using assms(1) m
    by (intro for_upt_chunks [where w = 2])
      (auto simp: ies_ok_def tsch_ts_elements_count_def WRITE16_mid dest!: list2)
  show ?thesis
    using False assms(2) n short_desc_bytes [of a b _ MLME_SHORT_IE_TSCH_TIMESLOT 25]
      loop [of "ie_tsch_timeslot_id i"]
    by (subst (1) buf) (simp add: frame80215e_create_ie_tsch_timeslot_def Let_def
        timeslot_bytes_def wr_def)
qed

lemma create_slotframe_bytes:
  assumes "ies_ok n i" and "slotframe_ok i" and "int (length (slotframe_bytes i)) \<le> len"
    and "length (slotframe_bytes i) \<le> length buf"
  shows "frame80215e_create_ie_tsch_slotframe_and_link buf len (Some i)
       = Some (int (length (slotframe_bytes i)),
               slotframe_bytes i @ drop (length (slotframe_bytes i)) buf)"
proof -
  let ?sl = "ie_tsch_slotframe_and_link i"
  let ?k = "unat (sl_num_links ?sl)"
  have u: "uint w = int (unat w)" for w :: u8
    by simp
  note n = length_slotframe_bytes [OF assms(1,2)]
  have k: "?k \<le> 4" "?k \<le> length (sl_links ?sl)"
    using assms(1,2) by (auto simp: slotframe_ok_def ies_ok_def FRAME802154E_IE_MAX_LINKS_def)
  have "int ?k \<le> 4"
    using k(1) by linarith
  then have nl: "\<not> 4 < uint (sl_num_links ?sl)"
    by simp
  from slotframe_cases [OF assms(2)] show ?thesis
  proof
    assume z: "sl_num_slotframes ?sl = 0"
    then have l: "slotframe_len i = 1"
      by (simp add: slotframe_len_def Let_def)
    then obtain a b c where buf: "buf = a # b # c # drop 3 buf"
      using assms(4) n by (auto simp: Suc_le_length_iff eval_nat_numeral)
    show ?thesis
      using z l n k nl assms(3) short_desc_bytes [of a b _ MLME_SHORT_IE_TSCH_SLOFTRAME_AND_LINK 1]
      by (subst (1 2) buf) (simp add: frame80215e_create_ie_tsch_slotframe_and_link_def Let_def
          slotframe_bytes_def wr_def FRAME802154E_IE_MAX_LINKS_def)
  next
    assume o: "sl_num_slotframes ?sl = 1"
    then have sl: "slotframe_len i = 5 + 5 * ?k"
      by (simp add: slotframe_len_def Let_def)
    then have l: "length buf \<ge> 7 + 5 * ?k"
      using assms(4) n by simp
    then obtain a b c d e f g where buf7: "buf = a # b # c # d # e # f # g # drop 7 buf"
      by (auto simp: Suc_le_length_iff eval_nat_numeral)
    define mid where "mid = take (5 * ?k) (drop 7 buf)"
    have buf: "buf = a # b # c # d # e # f # g # mid @ drop (7 + 5 * ?k) buf"
      and m: "length mid = 5 * ?k"
      using buf7 append_take_drop_id [of "5 * ?k" "drop 7 buf"] l
      by (simp_all add: mid_def add.commute)
    have loop: "for_upt 0 ?k (\<lambda>i' buf. do {
                l \<leftarrow> rd (sl_links ?sl) i';
                buf \<leftarrow> WRITE16 buf (7 + i' * 5) (ie_timeslot l);
                buf \<leftarrow> WRITE16 buf (9 + i' * 5) (ie_channel_offset l);
                wr buf (11 + i' * 5) (ie_link_options l) }) (pre @ mid @ drop (7 + 5 * ?k) buf)
            = Some (pre @ concat (map link_bytes (take ?k (sl_links ?sl))) @ drop (7 + 5 * ?k) buf)"
      if "length pre = 7" for pre
    proof (rule for_upt_chunks [where w = 5])
      fix i' and xs ys zs :: "u8 list"
      assume a: "i' < ?k" "length xs = length pre + 5 * i'" "length ys = 5"
      then obtain p q r s t where ys: "ys = [p, q, r, s, t]"
        by (auto simp: length_Suc_conv eval_nat_numeral)
      have w: "WRITE16 (xs @ p # q # r # s # t # zs) (7 + i' * 5) v = Some (xs @ le16 v @ r # s # t # zs)"
        "WRITE16 (xs @ le16 v @ r # s # t # zs) (9 + i' * 5) w = Some (xs @ le16 v @ le16 w @ t # zs)"
        "wr (xs @ le16 v @ le16 w @ t # zs) (11 + i' * 5) y = Some (xs @ le16 v @ le16 w @ y # zs)"
        for v w y
        using a(2) that WRITE16_mid [of "9 + i' * 5" "xs @ le16 v" r s "t # zs" w]
          wr_mid [of "11 + i' * 5" "xs @ le16 v @ le16 w" t zs y]
        by (simp_all add: WRITE16_mid)
      then show "do {
                l \<leftarrow> rd (sl_links ?sl) i';
                buf \<leftarrow> WRITE16 (xs @ ys @ zs) (7 + i' * 5) (ie_timeslot l);
                buf \<leftarrow> WRITE16 buf (9 + i' * 5) (ie_channel_offset l);
                wr buf (11 + i' * 5) (ie_link_options l) }
             = Some (xs @ link_bytes (take ?k (sl_links ?sl) ! i') @ zs)"
        using a that k by (simp add: ys w link_bytes_def)
    qed (use k m in simp_all)
    have suc7: "Suc (Suc (Suc (Suc (Suc (Suc (Suc m)))))) = 7 + m" for m
      by simp
    let ?h = "[a, b, 1, sl_handle ?sl]"
    have w: "wr (a # b # c # zs) 2 1 = Some (a # b # 1 # zs)"
      "wr (a # b # 1 # d # zs) 3 (sl_handle ?sl) = Some (?h @ zs)"
      "WRITE16 (?h @ e # f # zs) 4 (sl_size ?sl) = Some (?h @ le16 (sl_size ?sl) @ zs)"
      "wr (?h @ le16 (sl_size ?sl) @ g # zs) 6 (sl_num_links ?sl)
         = Some (?h @ le16 (sl_size ?sl) @ sl_num_links ?sl # zs)" for zs
      using wr_mid [of 2 "[a, b]" c zs 1] wr_mid [of 3 "[a, b, 1]" d zs "sl_handle ?sl"]
        WRITE16_mid [of 4 ?h e f zs "sl_size ?sl"]
        wr_mid [of 6 "?h @ le16 (sl_size ?sl)" g zs "sl_num_links ?sl"]
      by simp_all
    show ?thesis
      using o sl n k nl assms(3) loop [of "?h @ le16 (sl_size ?sl) @ [sl_num_links ?sl]"] w
        short_desc_bytes [of a b _ MLME_SHORT_IE_TSCH_SLOFTRAME_AND_LINK "slotframe_len i"]
      by (subst (1) buf) (simp add: frame80215e_create_ie_tsch_slotframe_and_link_def Let_def
          slotframe_bytes_def FRAME802154E_IE_MAX_LINKS_def suc7)
  qed
qed

lemma memcpy_at_mid:
  "p = length pre \<Longrightarrow> length mid = n \<Longrightarrow> n \<le> length src \<Longrightarrow>
   memcpy_at (pre @ mid @ rest) p src n = Some (pre @ take n src @ rest)"
  by (simp add: memcpy_at_def)

lemma create_hopping_bytes:
  assumes "ies_ok n i" and "unat (ie_hopping_sequence_len i) \<le> n"
    and "ie_channel_hopping_sequence_id i \<noteq> 0"
    and "int (length (hopping_bytes i)) \<le> len" and "length (hopping_bytes i) \<le> length buf"
  shows "frame80215e_create_ie_tsch_channel_hopping_sequence buf len (Some i)
       = Some (int (length (hopping_bytes i)),
               hopping_bytes i @ drop (length (hopping_bytes i)) buf)"
proof -
  let ?k = "unat (ie_hopping_sequence_len i)"
  have n: "length (hopping_bytes i) = 14 + ?k" and "?k \<le> length (ie_hopping_sequence_list i)"
    using assms(1,2) by (simp_all add: length_hopping_bytes ies_ok_def)
  with assms(5) obtain a b c d e f g h p q r s where
    buf12: "buf = a # b # c # d # e # f # g # h # p # q # r # s # drop 12 buf"
    by (auto simp: Suc_le_length_iff eval_nat_numeral)
  obtain mid x y where "drop 12 buf = mid @ x # y # drop (14 + ?k) buf" and m: "length mid = ?k"
  proof (rule that)
    show "drop 12 buf = take ?k (drop 12 buf) @ buf ! (12 + ?k) # buf ! (13 + ?k) # drop (14 + ?k) buf"
      using assms(5) n append_take_drop_id [of ?k "drop 12 buf"]
        Cons_nth_drop_Suc [of "12 + ?k" buf] Cons_nth_drop_Suc [of "13 + ?k" buf]
      by (simp add: add.commute)
    show "length (take ?k (drop 12 buf)) = ?k"
      using assms(5) n by simp
  qed
  then have buf: "buf = a # b # c # d # e # f # g # h # p # q # r # s # mid @ x # y # drop (14 + ?k) buf"
    using buf12 by simp
  have suc14: "Suc (Suc (Suc (Suc (Suc (Suc (Suc (Suc (Suc (Suc (Suc (Suc (Suc (Suc m)))))))))))))
     = 14 + m" for m
    by simp
  let ?id = "ie_channel_hopping_sequence_id i" and ?l = "ie_hopping_sequence_len i"
  let ?pre = "[a, b, ?id, 0] @ le16 0 @ le16 0 @ le16 0 @ le16 ?l"
  let ?sq = "take ?k (ie_hopping_sequence_list i)"
  have k: "?k \<le> length (ie_hopping_sequence_list i)"
    by fact
  have w: "WRITE16 ([a, b, ?id, 0] @ e # f # zs) 4 0 = Some ([a, b, ?id, 0] @ le16 0 @ zs)"
    "WRITE16 ([a, b, ?id, 0] @ le16 0 @ g # h # zs) 6 0 = Some ([a, b, ?id, 0] @ le16 0 @ le16 0 @ zs)"
    "WRITE16 ([a, b, ?id, 0] @ le16 0 @ le16 0 @ p # q # zs) 8 0
       = Some ([a, b, ?id, 0] @ le16 0 @ le16 0 @ le16 0 @ zs)"
    "WRITE16 ([a, b, ?id, 0] @ le16 0 @ le16 0 @ le16 0 @ r # s # zs) 10 ?l = Some (?pre @ zs)"
    for zs
    using WRITE16_mid [of 4 "[a, b, ?id, 0]" e f zs 0]
      WRITE16_mid [of 6 "[a, b, ?id, 0] @ le16 0" g h zs 0]
      WRITE16_mid [of 8 "[a, b, ?id, 0] @ le16 0 @ le16 0" p q zs 0]
      WRITE16_mid [of 10 "[a, b, ?id, 0] @ le16 0 @ le16 0 @ le16 0" r s zs ?l]
    by simp_all
  have c: "memcpy_at (?pre @ mid @ zs) 12 (ie_hopping_sequence_list i) ?k = Some (?pre @ ?sq @ zs)"
    "WRITE16 (?pre @ ?sq @ x # y # zs) (12 + ?k) 0 = Some (?pre @ ?sq @ le16 0 @ zs)" for zs
    using memcpy_at_mid [of 12 ?pre mid ?k "ie_hopping_sequence_list i" zs] m k
      WRITE16_mid [of "12 + ?k" "?pre @ ?sq" x y zs 0] by simp_all
  show ?thesis
    using assms(3,4) n k w c long_desc_bytes [of a b _ MLME_LONG_IE_TSCH_CHANNEL_HOPPING_SEQUENCE "12 + ?k"]
    by (subst (1) buf) (simp add: frame80215e_create_ie_tsch_channel_hopping_sequence_def Let_def
        hopping_bytes_def wr_def suc14)
qed


section \<open>Reading the elements back\<close>

lemma parse_sync_bytes:
  "parse_synchronization (drop 2 (sync_bytes j) @ post) 6 (Some i) =
   Some (6, Some (i\<lparr>ie_asn := ie_asn j, ie_join_priority := ie_join_priority j\<rparr>))"
  by (simp add: parse_synchronization_def sync_bytes_def rd_def le32_join)

lemma parse_timeslot_bytes:
  assumes "ies_ok n i" and "ies_ok m j"
  shows "parse_timeslot (drop 2 (timeslot_bytes j) @ post) (int (length (timeslot_bytes j)) - 2) (Some i) =
   Some (int (length (timeslot_bytes j)) - 2, Some (i\<lparr>ie_tsch_timeslot_id := ie_tsch_timeslot_id j,
     ie_tsch_timeslot := (if ie_tsch_timeslot_id j = 0 then ie_tsch_timeslot i
                          else ie_tsch_timeslot j)\<rparr>))"
proof (cases "ie_tsch_timeslot_id j = 0")
  case True
  then show ?thesis
    using length_timeslot_bytes [OF assms(2)]
    by (simp add: parse_timeslot_def timeslot_bytes_def rd_def)
next
  case False
  have l: "length (ie_tsch_timeslot j) = 12" "length (ie_tsch_timeslot i) = 12"
    using assms by (simp_all add: ies_ok_def tsch_ts_elements_count_def)
  have "for_upt 0 12 (\<lambda>k ts. do {
          t \<leftarrow> READ16 (y # concat (map le16 (ie_tsch_timeslot j)) @ post) (1 + 2 * k);
          wr ts k t }) (ie_tsch_timeslot i) = Some (ie_tsch_timeslot j @ drop 12 (ie_tsch_timeslot i))" for y
  proof (rule for_upt_fill)
    fix k and ts :: "u16 list" assume "k < 12" "k < length ts"
    then show "do {
          t \<leftarrow> READ16 (y # concat (map le16 (ie_tsch_timeslot j)) @ post) (1 + 2 * k);
          wr ts k t } = Some (ts[k := ie_tsch_timeslot j ! k])"
      using l READ16_append [of "[y]" "concat (map le16 (ie_tsch_timeslot j)) @ post" "2 * k"]
      by (simp add: READ16_le16s)
  qed (use l in simp_all)
  then show ?thesis
    using False length_timeslot_bytes [OF assms(2)] l
    by (simp add: parse_timeslot_def timeslot_bytes_def rd_def tsch_ts_elements_count_def)
qed

lemma rd_links:
  assumes "k < length ls"
  shows "READ16 (concat (map link_bytes ls) @ zs) (5 * k) = Some (ie_timeslot (ls ! k))"
    and "READ16 (concat (map link_bytes ls) @ zs) (5 * k + 2) = Some (ie_channel_offset (ls ! k))"
    and "rd (concat (map link_bytes ls) @ zs) (5 * k + 4) = Some (ie_link_options (ls ! k))"
proof -
  define pre where "pre = concat (map link_bytes (take k ls))"
  define post where "post = concat (map link_bytes (drop (Suc k) ls)) @ zs"
  have p: "length pre = 5 * k"
    using assms by (simp add: pre_def length_links_bytes)
  have e: "concat (map link_bytes ls) @ zs = pre @ link_bytes (ls ! k) @ post"
    by (subst id_take_nth_drop [OF assms]) (simp add: pre_def post_def)
  show "READ16 (concat (map link_bytes ls) @ zs) (5 * k) = Some (ie_timeslot (ls ! k))"
    unfolding e link_bytes_def using READ16_mid [of "5 * k" pre] p by simp
  show "READ16 (concat (map link_bytes ls) @ zs) (5 * k + 2) = Some (ie_channel_offset (ls ! k))"
    unfolding e link_bytes_def using READ16_mid [of "5 * k + 2" "pre @ le16 (ie_timeslot (ls ! k))"] p
    by simp
  show "rd (concat (map link_bytes ls) @ zs) (5 * k + 4) = Some (ie_link_options (ls ! k))"
    unfolding e link_bytes_def
    using rd_mid [of "5 * k + 4" "pre @ le16 (ie_timeslot (ls ! k)) @ le16 (ie_channel_offset (ls ! k))"] p
    by simp
qed

lemma parse_slotframe_bytes:
  assumes "ies_ok n i" and "ies_ok m j" and "slotframe_ok j"
    and "sl_num_slotframes (ie_tsch_slotframe_and_link j) = 1"
  shows "parse_slotframe_and_link (drop 2 (slotframe_bytes j) @ post) (int (slotframe_len j)) (Some i) =
   Some (int (slotframe_len j), Some (i\<lparr>ie_tsch_slotframe_and_link :=
     (ie_tsch_slotframe_and_link j)\<lparr>sl_links :=
        take (unat (sl_num_links (ie_tsch_slotframe_and_link j))) (sl_links (ie_tsch_slotframe_and_link j))
        @ drop (unat (sl_num_links (ie_tsch_slotframe_and_link j))) (sl_links (ie_tsch_slotframe_and_link i))\<rparr>\<rparr>))"
proof -
  let ?sl = "ie_tsch_slotframe_and_link j"
  let ?k = "unat (sl_num_links ?sl)"
  let ?ls = "take ?k (sl_links ?sl)"
  let ?body = "sl_num_slotframes ?sl # sl_handle ?sl # le16 (sl_size ?sl) @ sl_num_links ?sl #
          concat (map link_bytes ?ls) @ post"
  have k: "?k \<le> 4" "length (sl_links ?sl) = 4" "length (sl_links (ie_tsch_slotframe_and_link i)) = 4"
    using assms by (auto simp: slotframe_ok_def ies_ok_def FRAME802154E_IE_MAX_LINKS_def)
  have "int ?k \<le> 4"
    using k(1) by linarith
  then have nl: "uint (sl_num_links ?sl) \<le> 4"
    by simp
  have len: "slotframe_len j = 5 + 5 * ?k"
    using assms(4) by (simp add: slotframe_len_def Let_def)
  have r: "rd ?body (5 + x) = rd (concat (map link_bytes ?ls) @ post) x"
    "READ16 ?body (5 + x) = READ16 (concat (map link_bytes ?ls) @ post) x" for x
    using rd_append [of "[sl_num_slotframes ?sl, sl_handle ?sl] @ le16 (sl_size ?sl) @ [sl_num_links ?sl]"
        "concat (map link_bytes ?ls) @ post" x]
      READ16_append [of "[sl_num_slotframes ?sl, sl_handle ?sl] @ le16 (sl_size ?sl) @ [sl_num_links ?sl]"
        "concat (map link_bytes ?ls) @ post" x]
    by simp_all
  have h: "rd ?body 0 = Some (sl_num_slotframes ?sl)" "rd ?body 1 = Some (sl_handle ?sl)"
    "READ16 ?body 2 = Some (sl_size ?sl)" "rd ?body 4 = Some (sl_num_links ?sl)"
    using READ16_mid [of 2 "[sl_num_slotframes ?sl, sl_handle ?sl]" "sl_size ?sl"]
      rd_mid [of 4 "[sl_num_slotframes ?sl, sl_handle ?sl] @ le16 (sl_size ?sl)"]
    by (simp_all add: rd_def)
  have eta: "\<lparr>ie_timeslot = ie_timeslot l, ie_channel_offset = ie_channel_offset l,
      ie_link_options = ie_link_options l\<rparr> = l" for l
    by (cases l) simp
  have loop: "for_upt 0 ?k (\<lambda>x ls. do {
                  t \<leftarrow> READ16 ?body (5 + x * 5);
                  c \<leftarrow> READ16 ?body (5 + x * 5 + 2);
                  v \<leftarrow> rd ?body (5 + x * 5 + 4);
                  wr ls x \<lparr>ie_timeslot = t, ie_channel_offset = c, ie_link_options = v\<rparr> })
                (sl_links (ie_tsch_slotframe_and_link i))
            = Some (?ls @ drop ?k (sl_links (ie_tsch_slotframe_and_link i)))"
  proof (rule for_upt_fill)
    fix x :: nat and ls :: "tsch_slotframe_and_links_link list"
    assume x: "x < ?k" "x < length ls"
    then have "x < length ?ls"
      using k by simp
    note rl = rd_links [OF this, of post]
    have "5 + x * 5 = 5 + 5 * x" "5 + x * 5 + 2 = 5 + (5 * x + 2)" "5 + x * 5 + 4 = 5 + (5 * x + 4)"
      by simp_all
    then show "do {
                  t \<leftarrow> READ16 ?body (5 + x * 5);
                  c \<leftarrow> READ16 ?body (5 + x * 5 + 2);
                  v \<leftarrow> rd ?body (5 + x * 5 + 4);
                  wr ls x \<lparr>ie_timeslot = t, ie_channel_offset = c, ie_link_options = v\<rparr> }
             = Some (ls[x := ?ls ! x])"
      using x by (simp only: r rl bind.bind_lunit wr_Some) (simp add: eta)
  qed (use k in simp_all)
  have b: "drop 2 (slotframe_bytes j) @ post = ?body"
    using assms(4) by (simp add: slotframe_bytes_def Let_def)
  show ?thesis
    unfolding b parse_slotframe_and_link_def h
    using len nl assms(4) loop by (simp add: h FRAME802154E_IE_MAX_LINKS_def)
qed

lemma parse_hopping_bytes:
  assumes "ies_ok n i" and "unat (ie_hopping_sequence_len j) \<le> n"
    and "unat (ie_hopping_sequence_len j) \<le> length (ie_hopping_sequence_list j)"
  shows "frame802154e_parse_mlme_long_ie (drop 2 (hopping_bytes j) @ post)
      (12 + int (unat (ie_hopping_sequence_len j))) MLME_LONG_IE_TSCH_CHANNEL_HOPPING_SEQUENCE (Some i) =
   Some (12 + int (unat (ie_hopping_sequence_len j)),
     Some (i\<lparr>ie_channel_hopping_sequence_id := ie_channel_hopping_sequence_id j,
       ie_hopping_sequence_len := ie_hopping_sequence_len j,
       ie_hopping_sequence_list :=
         take (unat (ie_hopping_sequence_len j)) (ie_hopping_sequence_list j)
         @ drop (unat (ie_hopping_sequence_len j)) (ie_hopping_sequence_list i)\<rparr>))"
proof -
  let ?k = "unat (ie_hopping_sequence_len j)" and ?id = "ie_channel_hopping_sequence_id j"
  let ?pre = "[?id, 0] @ le16 0 @ le16 0 @ le16 0"
  let ?sq = "take ?k (ie_hopping_sequence_list j)"
  define body where "body = ?pre @ le16 (ie_hopping_sequence_len j) @ ?sq @ le16 0 @ post"
  have b: "drop 2 (hopping_bytes j) @ post = body"
    by (simp add: hopping_bytes_def body_def)
  have h: "rd body 0 = Some ?id" "READ16 body 8 = Some (ie_hopping_sequence_len j)"
    unfolding body_def using READ16_mid [of 8 ?pre "ie_hopping_sequence_len j"]
    by (simp_all add: rd_def)
  have d: "drop 10 body = ?sq @ le16 0 @ post"
    by (simp add: body_def le16_def)
  have m: "memcpy_at (ie_hopping_sequence_list i) 0 (drop 10 body) ?k
      = Some (?sq @ drop ?k (ie_hopping_sequence_list i))"
    using assms unfolding d by (simp add: memcpy_at_def ies_ok_def)
  have g: "0 < 12 + int ?k" "1 < 12 + int ?k" "uint (ie_hopping_sequence_len j) = int ?k"
    by (linarith, linarith, simp)
  have l: "length (ie_hopping_sequence_list i) = n"
    using assms(1) by (simp add: ies_ok_def)
  show ?thesis
    unfolding b frame802154e_parse_mlme_long_ie_def g(3)
    using assms(2) g(1,2) l by (simp add: h m g(3) Let_def del: of_nat_unat)
qed


section \<open>Steps of the loop\<close>

text \<open>The loop after an MLME sub-element of n bytes that leaves the structure i.\<close>

definition after_sub :: "nat \<Rightarrow> ieee802154_ies \<Rightarrow> ie_cursor \<Rightarrow> ie_cursor" where
  "after_sub n i c = c\<lparr>buf_pos := buf_pos c + (2 + n), buf_size := buf_size c - of_nat (2 + n),
     nested_mlme_len := nested_mlme_len c - (2 + int n),
     parsing := (if nested_mlme_len c = 2 + int n then PARSING_PAYLOAD_IE else PARSING_MLME_SUBIE),
     cur_ies := i\<rparr>"

lemma READ16_at:
  assumes "drop p start = le16 v @ rest"
  shows "READ16 start p = Some v"
  using READ16_drop [of p start 0] unfolding assms READ16_le16 by simp

lemma drop_at:
  assumes "drop p start = le16 v @ rest"
  shows "drop (p + 2) start = rest"
proof -
  have "drop (p + 2) start = drop 2 (drop p start)"
    by (simp add: add.commute)
  then show ?thesis
    unfolding assms by simp
qed

lemma uint_less_unat: "uint (v :: 'v::len word) < uint (w :: 'w::len word) \<longleftrightarrow> unat v < unat w"
  unfolding unat_eq_nat_uint by (rule nat_less_eq_zless [symmetric]) simp

lemma size_facts:
  assumes "2 + n \<le> unat (s :: u8)"
  shows "\<not> s < 2" and "\<not> uint (s - 2) < uint (of_nat n :: u16)"
    and "n < 256" and "s - 2 - of_nat n = s - of_nat (2 + n)"
proof -
  have s2: "(2 :: u8) \<le> s"
    using assms by (simp add: word_le_nat_alt)
  then show "\<not> s < 2" by simp
  show n: "n < 256"
    using assms unat_less8 [of s] by simp
  then have "unat (of_nat n :: u16) = n"
    by (simp add: unsigned_of_nat take_bit_nat_eq_self)
  then show "\<not> uint (s - 2) < uint (of_nat n :: u16)"
    unfolding uint_less_unat using unat_minus_word [OF s2] assms by simp
  show "s - 2 - of_nat n = s - of_nat (2 + n)"
    by (simp add: algebra_simps)
qed

lemma of_nat_small16:
  assumes "n < 256"
  shows "uint (of_nat n :: u16) = int n" and "unat (of_nat n :: u16) = n"
    and "(ucast (of_nat n :: u16) :: u8) = of_nat n"
proof -
  show u: "unat (of_nat n :: u16) = n"
    using assms by (simp add: unsigned_of_nat take_bit_nat_eq_self)
  show "uint (of_nat n :: u16) = int n"
    using assms by (simp add: unsigned_of_nat take_bit_nat_eq_self)
  show "(ucast (of_nat n :: u16) :: u8) = of_nat n"
    by (simp add: word_eq_unat unsigned_ucast_eq u unsigned_of_nat)
qed

lemma step_short:
  assumes "drop (buf_pos c) start = le16 (short_desc k n) @ rest"
    and "parsing c = PARSING_MLME_SUBIE"
    and "2 + n \<le> unat (buf_size c)" and "k < 128" and "2 + int n \<le> nested_mlme_len c"
    and "frame802154e_parse_mlme_short_ie rest (int n) k (Some (cur_ies c)) = Some (int n, Some i)"
  shows "ie_step six start c = Some (Inr (after_sub n i c))"
proof -
  note s = size_facts [OF assms(3)]
  note d = desc_short_fields [OF s(3) assms(4)]
  note w = of_nat_small16 [OF s(3)]
  show ?thesis
    unfolding ie_step_def READ16_at [OF assms(1)] bind.bind_lunit parse_mlme_case_def Let_def d
    using assms(2,5,6) drop_at [OF assms(1)] s(1,2,4) w d(1) by (simp add: after_sub_def)
qed

lemma step_long:
  assumes "drop (buf_pos c) start = le16 (long_desc k n) @ rest"
    and "parsing c = PARSING_MLME_SUBIE"
    and "2 + n \<le> unat (buf_size c)" and "k < 16" and "2 + int n \<le> nested_mlme_len c"
    and "frame802154e_parse_mlme_long_ie rest (int n) k (Some (cur_ies c)) = Some (int n, Some i)"
  shows "ie_step six start c = Some (Inr (after_sub n i c))"
proof -
  note s = size_facts [OF assms(3)]
  have "n < 2048"
    using s(3) by simp
  note d = desc_long_fields [OF this assms(4)]
  note w = of_nat_small16 [OF s(3)]
  show ?thesis
    unfolding ie_step_def READ16_at [OF assms(1)] bind.bind_lunit parse_mlme_case_def Let_def d
    using assms(2,5,6) drop_at [OF assms(1)] s(1,2,4) w d(1) by (simp add: after_sub_def)
qed

lemma step_mlme:
  assumes "drop (buf_pos c) start = le16 (long_desc PAYLOAD_IE_MLME n) @ rest"
    and "parsing c = PARSING_PAYLOAD_IE" and "2 \<le> unat (buf_size c)" and "n < 256"
  shows "ie_step six start c = Some (Inr (c\<lparr>buf_pos := buf_pos c + 2, buf_size := buf_size c - 2,
     parsing := PARSING_MLME_SUBIE, nested_mlme_len := int n\<rparr>))"
proof -
  have s: "\<not> buf_size c < 2"
    using assms(3) by (simp add: word_less_nat_alt)
  have "n < 2048" "PAYLOAD_IE_MLME < 16"
    using assms(4) by (simp_all add: PAYLOAD_IE_MLME_def)
  note d = desc_long_fields [OF this]
  show ?thesis
    unfolding ie_step_def READ16_at [OF assms(1)] bind.bind_lunit parse_payload_case_def Let_def d
    using assms(2) s of_nat_small16 [OF assms(4)] d(1) by simp
qed

lemma step_termination_1:
  assumes "drop (buf_pos c) start = le16 (header_desc HEADER_IE_LIST_TERMINATION_1 0) @ rest"
    and "parsing c = PARSING_HEADER_IE" and "2 \<le> unat (buf_size c)"
  shows "ie_step six start c = Some (Inr (c\<lparr>buf_pos := buf_pos c + 2, buf_size := buf_size c - 2,
     parsing := PARSING_PAYLOAD_IE,
     cur_ies := (cur_ies c)\<lparr>ie_payload_ie_offset := of_nat (buf_pos c + 2)\<rparr>\<rparr>))"
proof -
  have s: "\<not> buf_size c < 2"
    using assms(3) by (simp add: word_less_nat_alt)
  have z: "(0 :: nat) < 128" by simp
  note d = desc_header_fields [OF z, of HEADER_IE_LIST_TERMINATION_1]
  show ?thesis
    unfolding ie_step_def READ16_at [OF assms(1)] bind.bind_lunit parse_header_case_def Let_def d
    using assms(2) s by simp
qed


text \<open>The drift of an acknowledgement travels in twelve bits and is sign-extended on arrival.\<close>

lemma bit_f000: "bit (0xf000 :: u16) n \<longleftrightarrow> 12 \<le> n \<and> n < 16"
proof -
  have "bit (push_bit 12 (mask 4) :: u16) n \<longleftrightarrow> 12 \<le> n \<and> n < 16"
    by (simp only: bit_push_bit_iff bit_mask_iff) (auto simp: bit_simps)
  moreover have "push_bit 12 (mask 4) = (0xf000 :: u16)"
    by (simp add: mask_eq_exp_minus_1 push_bit_eq_mult)
  ultimately show ?thesis by (simp only:)
qed

lemma bit_8000: "bit (0x8000 :: u16) n \<longleftrightarrow> n = 15"
proof -
  have "bit (push_bit 15 (mask 1) :: u16) n \<longleftrightarrow> n = 15"
    by (simp only: bit_push_bit_iff bit_mask_iff) (auto simp: bit_simps)
  moreover have "push_bit 15 (mask 1) = (0x8000 :: u16)"
    by (simp add: mask_eq_exp_minus_1 push_bit_eq_mult)
  ultimately show ?thesis by (simp only:)
qed

definition drift_field :: "u16 \<Rightarrow> bool \<Rightarrow> u16" where
  "drift_field d b = (if b then (d AND 0x0fff) OR 0x8000 else d AND 0x0fff)"

lemma and_0fff: "(d AND 0x0fff :: u16) = take_bit 12 d"
  by (simp add: take_bit_eq_mask mask_eq_exp_minus_1)

lemma bit_drift_field: "bit (drift_field d b) n \<longleftrightarrow> (if n < 12 then bit d n else n = 15 \<and> b)"
  unfolding drift_field_def and_0fff
  by (cases b; simp only: bit_or_iff bit_take_bit_iff bit_8000 if_True if_False; auto)

lemma drift_decoded:
  "drift_field d b AND 0x8000 = 0 \<longleftrightarrow> \<not> b"
  "(if drift_field d b AND 0x0800 \<noteq> 0 then drift_field d b OR 0xf000
    else drift_field d b AND 0x0fff) = signed_take_bit 11 d"
proof -
  have "(drift_field d b AND 2 ^ 11 = 0) = (\<not> bit d 11)"
    by (simp only: and_exp_eq_0_iff_not_bit bit_drift_field) simp
  then have e: "(drift_field d b AND 0x0800 = 0) = (\<not> bit d 11)"
    by simp
  show "drift_field d b AND 0x8000 = 0 \<longleftrightarrow> \<not> b"
    by (simp only: and_8000 bit_drift_field) simp
  have n: "bit d n \<longleftrightarrow> bit d 11" if "n < 12" "11 \<le> n" for n
  proof -
    have "n = 11" using that by linarith
    then show ?thesis by simp
  qed
  have r: "bit (if \<not> \<not> bit d 11 then drift_field d b OR 0xf000 else take_bit 12 (drift_field d b)) n
      = bit (signed_take_bit 11 d) n" if "n < LENGTH(16)" for n
    using n [of n] that
    by (cases "bit d 11"; cases "n < 11"; cases "n < 12";
        simp only: if_True if_False simp_thms bit_or_iff bit_take_bit_iff bit_drift_field bit_f000;
        simp add: bit_signed_take_bit_iff min_def)
  show "(if drift_field d b AND 0x0800 \<noteq> 0 then drift_field d b OR 0xf000
    else drift_field d b AND 0x0fff) = signed_take_bit 11 d"
    unfolding e and_0fff by (rule bit_word_eqI) (rule r)
qed

lemma drift_in_range:
  assumes "-2048 \<le> sint (d :: u16)" and "sint d < 2048"
  shows "signed_take_bit 11 d = d"
proof -
  have s: "signed_take_bit 11 (sint d) = sint d"
    using assms by (intro signed_take_bit_int_eq_self) simp_all
  have "bit (signed_take_bit 11 d) n = bit d n" if n: "n < LENGTH(16)" for n
  proof (cases "n \<le> 11")
    case True
    then show ?thesis
      using n by (simp add: bit_signed_take_bit_iff min_def)
  next
    case False
    have "bit d n = bit (sint d) n"
      using n by (simp add: bit_sint_iff)
    also have "\<dots> = bit (signed_take_bit 11 (sint d)) n"
      by (simp only: s)
    also have "\<dots> = bit (sint d) 11"
      using False by (simp add: bit_signed_take_bit_iff min_def)
    also have "\<dots> = bit d 11"
      by (simp add: bit_sint_iff)
    finally show ?thesis
      using n False by (simp add: bit_signed_take_bit_iff min_def)
  qed
  then show ?thesis by (rule bit_word_eqI)
qed

lemma step_ack:
  assumes "drop (buf_pos c) start = ack_bytes j @ rest"
    and "parsing c = PARSING_HEADER_IE" and "4 \<le> unat (buf_size c)"
  shows "ie_step six start c = Some (Inr (c\<lparr>buf_pos := buf_pos c + 4, buf_size := buf_size c - 4,
     cur_ies := (cur_ies c)\<lparr>ie_is_nack := (if ie_is_nack j \<noteq> 0 then 1 else 0),
       ie_time_correction := signed_take_bit 11 (ie_time_correction j)\<rparr>\<rparr>))"
proof -
  let ?f = "drift_field (ie_time_correction j) (ie_is_nack j \<noteq> 0)"
  have a: "drop (buf_pos c) start
      = le16 (header_desc HEADER_IE_ACK_NACK_TIME_CORRECTION 2) @ le16 ?f @ rest"
    using assms(1) by (simp add: ack_bytes_def drift_field_def)
  have "2 + 2 \<le> unat (buf_size c)"
    using assms(3) by simp
  note s = size_facts [OF this]
  have z: "(2 :: nat) < 128" by simp
  note d = desc_header_fields [OF z, of HEADER_IE_ACK_NACK_TIME_CORRECTION]
  have h: "frame802154e_parse_header_ie (le16 ?f @ rest) 2 HEADER_IE_ACK_NACK_TIME_CORRECTION (Some i)
      = Some (2, Some (i\<lparr>ie_is_nack := (if ie_is_nack j \<noteq> 0 then 1 else 0),
       ie_time_correction := signed_take_bit 11 (ie_time_correction j)\<rparr>))" for i
    unfolding frame802154e_parse_header_ie_def
    unfolding READ16_le16 bind.bind_lunit option.case Let_def
    unfolding drift_decoded by simp
  have k: "HEADER_IE_ACK_NACK_TIME_CORRECTION \<noteq> HEADER_IE_LIST_TERMINATION_1"
    "HEADER_IE_ACK_NACK_TIME_CORRECTION \<noteq> HEADER_IE_LIST_TERMINATION_2"
    by (simp_all add: ie_ids)
  show ?thesis
    unfolding ie_step_def READ16_at [OF a] bind.bind_lunit parse_header_case_def Let_def d
    using assms(2) s(1,2,4) k drop_at [OF a] by (simp add: h)
qed


lemma ack_parsed:
  assumes "4 \<le> length buf" and "4 \<le> len"
    and "-2048 \<le> sint (ie_time_correction j)" and "sint (ie_time_correction j) < 2048"
  shows "\<exists>buf'. frame80215e_create_ie_header_ack_nack_time_correction buf len (Some j) = Some (4, buf')
    \<and> frame802154e_parse_information_elements six buf' 4 (Some i) = Some (4, Some (i\<lparr>
        ie_is_nack := (if ie_is_nack j \<noteq> 0 then 1 else 0),
        ie_time_correction := ie_time_correction j, ie_payload_ie_offset := 4\<rparr>))"
proof (intro exI conjI)
  let ?buf = "ack_bytes j @ drop 4 buf"
  show "frame80215e_create_ie_header_ack_nack_time_correction buf len (Some j) = Some (4, ?buf)"
    using assms by (intro create_ack_bytes)
  let ?c = "\<lparr>buf_pos = 0, buf_size = 4, parsing = PARSING_HEADER_IE,
          nested_mlme_len = 0, cur_ies = i\<lparr>ie_payload_ie_offset := 0\<rparr>\<rparr>"
  note st = step_ack [of ?c ?buf j "drop 4 buf" six, simplified, unfolded
      drift_in_range [OF assms(3,4)]]
  show "frame802154e_parse_information_elements six ?buf 4 (Some i) = Some (4, Some (i\<lparr>
        ie_is_nack := (if ie_is_nack j \<noteq> 0 then 1 else 0),
        ie_time_correction := ie_time_correction j, ie_payload_ie_offset := 4\<rparr>))"
    using st by (simp add: frame802154e_parse_information_elements_def ie_loop.simps [of _ _ ?c]
        ie_loop.simps [of _ _ "\<lparr>buf_pos = 4, buf_size = 0, parsing = p, nested_mlme_len = m, cur_ies = x\<rparr>" for p m x]
        ie_finish_def)
qed

section \<open>Parsing stays inside the frame\<close>

abbreviation parsed_as :: "nat \<Rightarrow> int \<Rightarrow> int \<times> ieee802154_ies option \<Rightarrow> bool" where
  "parsed_as n len r \<equiv> (fst r = len \<or> fst r = -1) \<and> (\<exists>x. snd r = Some x \<and> ies_ok n x)"

lemma for_upt_fill_runs:
  fixes ls :: "'x list"
  assumes "n \<le> length ls" and "\<And>i ls. i < n \<Longrightarrow> i < length ls \<Longrightarrow> \<exists>v. f i ls = Some (ls[i := v])"
    and "\<And>ls'. length ls' = length ls \<Longrightarrow> Q ls'"
  shows "runs_to (for_upt 0 n f ls) Q"
proof (rule for_upt_post [where P = "\<lambda>_ ls'. length ls' = length ls"])
  fix i and s :: "'x list" assume "i < n" "length s = length ls"
  then have "i < length s"
    using assms(1) by simp
  from assms(2) [OF \<open>i < n\<close> this] obtain v where "f i s = Some (s[i := v])" by blast
  then show "runs_to (f i s) (\<lambda>s'. length s' = length ls)"
    using \<open>length s = length ls\<close> by simp
qed (use assms in simp_all)

lemma READ16_Some: "Suc i < length buf \<Longrightarrow> \<exists>v. READ16 buf i = Some v"
  by (simp add: READ16_def)

lemma header_ie_runs:
  assumes "k + 4 \<le> length buf" and "ies_ok n i"
  shows "runs_to (frame802154e_parse_header_ie buf (int k) e (Some i)) (parsed_as n (int k))"
proof -
  obtain v where "READ16 buf 0 = Some v"
    using READ16_Some [of 0 buf] assms(1) by auto
  then show ?thesis
    using assms(2) by (simp add: frame802154e_parse_header_ie_def Let_def ies_ok_def)
qed

lemma synchronization_runs:
  assumes "k + 4 \<le> length buf" and "ies_ok n i"
  shows "runs_to (parse_synchronization buf (int k) (Some i)) (parsed_as n (int k))"
  using assms by (auto simp: parse_synchronization_def ies_ok_def rd_def)

lemma timeslot_runs:
  assumes "k + 4 \<le> length buf" and "ies_ok n i"
  shows "runs_to (parse_timeslot buf (int k) (Some i)) (parsed_as n (int k))"
proof -
  have "runs_to (for_upt 0 tsch_ts_elements_count (\<lambda>x ts. do {
                   t \<leftarrow> READ16 buf (1 + 2 * x);
                   wr ts x t }) (ie_tsch_timeslot i))
      (\<lambda>ts. length ts = tsch_ts_elements_count)" if k25: "k = 25"
  proof (rule for_upt_fill_runs)
    fix x and ts :: "u16 list" assume "x < tsch_ts_elements_count" "x < length ts"
    moreover from this obtain v where "READ16 buf (1 + 2 * x) = Some v"
      using READ16_Some [of "1 + 2 * x" buf] assms(1) k25 by (auto simp: tsch_ts_elements_count_def)
    ultimately show "\<exists>v. do { t \<leftarrow> READ16 buf (1 + 2 * x); wr ts x t } = Some (ts[x := v])"
      by auto
  qed (use assms(2) in \<open>simp_all add: ies_ok_def\<close>)
  moreover have "rd buf 0 = Some (buf ! 0)"
    using assms(1) by (auto simp: rd_def)
  ultimately show ?thesis
    using assms by (auto simp: parse_timeslot_def ies_ok_def elim!: runs_to_mono)
qed

lemma slotframe_runs:
  assumes "k + 4 \<le> length buf" and "ies_ok n i"
  shows "runs_to (parse_slotframe_and_link buf (int k) (Some i)) (parsed_as n (int k))"
proof (cases "k = 0")
  case True
  then show ?thesis
    using assms(2) by (simp add: parse_slotframe_and_link_def)
next
  case False
  let ?nl = "unat (buf ! 4)"
  let ?c = "uint (buf ! 0) \<le> 1 \<and> uint (buf ! 4) \<le> FRAME802154E_IE_MAX_LINKS
      \<and> int k = 1 + uint (buf ! 0) * (4 + 5 * uint (buf ! 4))"
  have rds: "rd buf 0 = Some (buf ! 0)" "rd buf 4 = Some (buf ! 4)" "rd buf 1 = Some (buf ! 1)"
    "0 < k"
    using assms(1) False by (auto simp: rd_def)
  have sel: "parse_slotframe_and_link buf (int k) (Some i) =
      (if uint (buf ! 0) = 0 then Some (int k, Some i)
       else if ?c then do {
               sz \<leftarrow> READ16 buf 2;
               ls \<leftarrow> for_upt 0 ?nl (\<lambda>x ls. do {
                  t \<leftarrow> READ16 buf (5 + x * 5);
                  c \<leftarrow> READ16 buf (5 + x * 5 + 2);
                  v \<leftarrow> rd buf (5 + x * 5 + 4);
                  wr ls x \<lparr>ie_timeslot = t, ie_channel_offset = c, ie_link_options = v\<rparr> })
                (sl_links (ie_tsch_slotframe_and_link i));
               Some (int k, Some (i\<lparr>ie_tsch_slotframe_and_link :=
                 \<lparr>sl_num_slotframes = buf ! 0, sl_handle = buf ! 1, sl_size = sz,
                  sl_num_links = buf ! 4, sl_links = ls\<rparr>\<rparr>)) }
       else Some (-1, Some i))"
    using rds by (simp only: parse_slotframe_and_link_def Let_def bind.bind_lunit option.case
        unat_eq_nat_uint) simp
  show ?thesis
  proof (cases "uint (buf ! 0) \<noteq> 0 \<and> ?c")
    case False
    then show ?thesis
      unfolding sel using assms(2) by auto
  next
    case True
    have "uint (buf ! 0) = 1"
    proof -
      have "0 \<le> uint (buf ! 0)" by simp
      then show ?thesis using True by linarith
    qed
    then have "int k = 5 + 5 * int ?nl" "int ?nl \<le> 4"
      using True by (simp_all add: FRAME802154E_IE_MAX_LINKS_def)
    then have nl: "?nl \<le> 4" "k = 5 + 5 * ?nl"
      by linarith+
    obtain v where v: "READ16 buf 2 = Some v"
      using READ16_Some [of 2 buf] assms(1) nl by auto
    have loop: "runs_to (for_upt 0 ?nl (\<lambda>x ls. do {
                  t \<leftarrow> READ16 buf (5 + x * 5);
                  c \<leftarrow> READ16 buf (5 + x * 5 + 2);
                  v \<leftarrow> rd buf (5 + x * 5 + 4);
                  wr ls x \<lparr>ie_timeslot = t, ie_channel_offset = c, ie_link_options = v\<rparr> })
                (sl_links (ie_tsch_slotframe_and_link i))) (\<lambda>ls. length ls = 4)"
    proof (rule for_upt_fill_runs)
      fix x :: nat and ls :: "tsch_slotframe_and_links_link list"
      assume x: "x < ?nl" "x < length ls"
      have l: "9 + x * 5 < length buf"
        using x nl assms(1) by simp
      then obtain t c where "READ16 buf (5 + x * 5) = Some t" "READ16 buf (5 + x * 5 + 2) = Some c"
        using READ16_Some [of "5 + x * 5" buf] READ16_Some [of "5 + x * 5 + 2" buf] by auto
      then show "\<exists>v. do {
                  t \<leftarrow> READ16 buf (5 + x * 5);
                  c \<leftarrow> READ16 buf (5 + x * 5 + 2);
                  v \<leftarrow> rd buf (5 + x * 5 + 4);
                  wr ls x \<lparr>ie_timeslot = t, ie_channel_offset = c, ie_link_options = v\<rparr> }
               = Some (ls[x := v])"
        using x l by auto
    qed (use assms(2) nl(1) in \<open>simp_all add: ies_ok_def FRAME802154E_IE_MAX_LINKS_def\<close>)
    have "runs_to (for_upt 0 ?nl (\<lambda>x ls. do {
                  t \<leftarrow> READ16 buf (5 + x * 5);
                  c \<leftarrow> READ16 buf (5 + x * 5 + 2);
                  v \<leftarrow> rd buf (5 + x * 5 + 4);
                  wr ls x \<lparr>ie_timeslot = t, ie_channel_offset = c, ie_link_options = v\<rparr> })
                (sl_links (ie_tsch_slotframe_and_link i)))
       (\<lambda>ls. ies_ok n (i\<lparr>ie_tsch_slotframe_and_link :=
                 \<lparr>sl_num_slotframes = buf ! 0, sl_handle = buf ! 1, sl_size = v,
                  sl_num_links = buf ! 4, sl_links = ls\<rparr>\<rparr>))"
      using loop by (rule runs_to_mono) (use assms(2) in \<open>simp add: ies_ok_def
          FRAME802154E_IE_MAX_LINKS_def\<close>)
    then show ?thesis
      unfolding sel v bind.bind_lunit runs_to_if runs_to_bind runs_to_Some using True by simp
  qed
qed

lemma short_ie_runs:
  assumes "k + 4 \<le> length buf" and "ies_ok n i"
  shows "runs_to (frame802154e_parse_mlme_short_ie buf (int k) e (Some i)) (parsed_as n (int k))"
  unfolding frame802154e_parse_mlme_short_ie_def
  using assms slotframe_runs synchronization_runs timeslot_runs by auto

lemma long_ie_runs:
  assumes "k + 4 \<le> length buf" and "ies_ok n i" and "k = 1 \<or> 10 \<le> length buf"
  shows "runs_to (frame802154e_parse_mlme_long_ie buf (int k) e (Some i)) (parsed_as n (int k))"
proof -
  have "\<exists>v. READ16 buf 8 = Some v" if "10 \<le> length buf"
    using READ16_Some [of 8 buf] that by auto
  then obtain v where v: "10 \<le> length buf \<Longrightarrow> READ16 buf 8 = Some v"
    by blast
  have b0: "rd buf 0 = Some (buf ! 0)"
    using assms(1) by (auto simp: rd_def)
  show ?thesis
  proof (cases "e = MLME_LONG_IE_TSCH_CHANNEL_HOPPING_SEQUENCE \<and> k > 1")
    case False
    then show ?thesis
      using assms(2) by (simp add: frame802154e_parse_mlme_long_ie_def b0 ies_ok_def Let_def)
  next
    case True
    let ?i = "i\<lparr>ie_channel_hopping_sequence_id := buf ! 0, ie_hopping_sequence_len := v\<rparr>"
    have eq: "frame802154e_parse_mlme_long_ie buf (int k) e (Some i) =
        (if unat v \<le> length (ie_hopping_sequence_list i) \<and> int k = 12 + uint v then do {
                 ls \<leftarrow> memcpy_at (ie_hopping_sequence_list i) 0 (drop 10 buf) (unat v);
                 Some (int k, Some (?i\<lparr>ie_hopping_sequence_list := ls\<rparr>)) }
               else Some (int k, Some ?i))"
      using True assms(3) v by (simp add: frame802154e_parse_mlme_long_ie_def Let_def b0)
    show ?thesis
    proof (cases "unat v \<le> length (ie_hopping_sequence_list i) \<and> int k = 12 + uint v")
      case False
      then have "runs_to (Some (int k, Some ?i)) (parsed_as n (int k))"
        using assms(2) by (simp add: ies_ok_def)
      then show ?thesis
        unfolding eq using False by (simp only: if_False)
    next
      case c: True
      then have "int k = 12 + int (unat v)"
        by simp
      then have "unat v \<le> length buf - 10"
        using assms(1) by linarith
      then have "memcpy_at (ie_hopping_sequence_list i) 0 (drop 10 buf) (unat v)
          = Some (take (unat v) (drop 10 buf) @ drop (unat v) (ie_hopping_sequence_list i))"
        using c by (simp add: memcpy_at_def)
      then show ?thesis
        unfolding eq using c assms(2) \<open>unat v \<le> length buf - 10\<close> by (simp add: ies_ok_def)
    qed
  qed
qed


text \<open>
  The invariant of the loop: the cursor and the bytes left add up to the frame, and the object has
  eight more bytes than the frame, because a slotframe element of one byte is read to its fifth and
  a hopping sequence element of two bytes to its tenth.
\<close>

definition ie_inv :: "nat \<Rightarrow> nat \<Rightarrow> u8 list \<Rightarrow> ie_cursor \<Rightarrow> bool" where
  "ie_inv n m start c \<longleftrightarrow>
     buf_pos c + unat (buf_size c) = m \<and> m + 8 \<le> length start \<and> ies_ok n (cur_ies c)"

abbreviation ie_result :: "nat \<Rightarrow> nat \<Rightarrow> int \<times> ieee802154_ies \<Rightarrow> bool" where
  "ie_result n m r \<equiv> (fst r = -1 \<or> 0 \<le> fst r \<and> fst r \<le> int m) \<and> ies_ok n (snd r)"

abbreviation case_ok :: "nat \<Rightarrow> nat \<Rightarrow> u8 list \<Rightarrow>
    (int \<times> ieee802154_ies) + u16 \<times> ie_cursor \<Rightarrow> bool" where
  "case_ok n m start r \<equiv> (case r of Inl x \<Rightarrow> ie_result n m x
     | Inr (len, c) \<Rightarrow> ie_inv n m start c \<and> unat len \<le> unat (buf_size c))"

lemma ies_ok_offset [simp]: "ies_ok n (i\<lparr>ie_payload_ie_offset := x\<rparr>) = ies_ok n i"
  by (simp add: ies_ok_def)

lemma ie_inv_room:
  "ie_inv n m start c \<Longrightarrow> \<not> uint (buf_size c) < uint (len :: u16) \<Longrightarrow>
   unat len + 8 \<le> length (drop (buf_pos c) start)"
  by (simp add: uint_less_unat ie_inv_def) arith

lemma header_case_runs:
  assumes "ie_inv n m start c"
  shows "runs_to (parse_header_case start d c) (case_ok n m start)"
proof -
  have r: "runs_to (frame802154e_parse_header_ie (drop (buf_pos c) start) (uint len) e
      (Some (cur_ies c))) (parsed_as n (int (unat len)))" if "\<not> uint (buf_size c) < uint len"
    for len :: u16 and e
    unfolding uint_unat using ie_inv_room [OF assms that] assms
    by (intro header_ie_runs) (simp_all add: ie_inv_def)
  have p: "int (buf_pos c) \<le> int m"
    using assms by (simp add: ie_inv_def)
  let ?len = "d AND 0x007f" and ?id = "ucast (drop_bit 7 (d AND 0x7f80)) :: u8"
  show ?thesis
  proof (cases "d AND 0x8000 \<noteq> 0 \<or> ?id = HEADER_IE_LIST_TERMINATION_1
      \<or> ?id = HEADER_IE_LIST_TERMINATION_2 \<or> uint (buf_size c) < uint ?len")
    case True
    then show ?thesis
      unfolding parse_header_case_def Let_def
      using assms p by (auto simp: ie_inv_def simp del: and_8000)
  next
    case False
    then have l: "unat ?len \<le> unat (buf_size c)"
      by (simp add: uint_less_unat)
    have e: "parse_header_case start d c = do {
          (r, ies) \<leftarrow> frame802154e_parse_header_ie (drop (buf_pos c) start) (uint ?len) ?id
                        (Some (cur_ies c));
          Some (if r = -1 then Inl (-1, cur_ies (c\<lparr>cur_ies := the ies\<rparr>))
                else Inr (?len, c\<lparr>cur_ies := the ies\<rparr>)) }"
      unfolding parse_header_case_def Let_def using False by simp
    show ?thesis
      unfolding e runs_to_bind
      by (rule runs_to_mono [OF r]) (use False l assms in \<open>auto simp: ie_inv_def\<close>)
  qed
qed

lemma payload_case_runs:
  assumes "ie_inv n m start c"
  shows "runs_to (parse_payload_case False start d c) (case_ok n m start)"
  unfolding parse_payload_case_def Let_def
  using assms by (auto simp: ie_inv_def)

lemma mlme_case_runs:
  assumes "ie_inv n m start c"
  shows "runs_to (parse_mlme_case start d c) (case_ok n m start)"
proof -
  define len where "len = (if d AND 0x8000 = 0 then d AND 0x00ff else d AND 0x7ff)"
  define p where "p = (if uint (buf_size c) < uint len then Some (-1, Some (cur_ies c))
        else if d AND 0x8000 = 0 then
          frame802154e_parse_mlme_short_ie (drop (buf_pos c) start) (uint len)
            (ucast (drop_bit 8 (d AND 0x7f00))) (Some (cur_ies c))
        else
          frame802154e_parse_mlme_long_ie (drop (buf_pos c) start) (uint len)
            (ucast (drop_bit 11 (d AND 0x7800))) (Some (cur_ies c)))"
  have e: "parse_mlme_case start d c = do {
     (r, ies) \<leftarrow> p;
     if r = -1 then Some (Inl (-1, the ies))
     else if nested_mlme_len c - (2 + uint len) < 0 then Some (Inl (-1, the ies))
       else Some (Inr (len, c\<lparr>cur_ies := the ies, nested_mlme_len := nested_mlme_len c - (2 + uint len),
         parsing := (if nested_mlme_len c - (2 + uint len) = 0 then PARSING_PAYLOAD_IE
                     else parsing c)\<rparr>)) }"
    unfolding parse_mlme_case_def Let_def len_def [symmetric] p_def [symmetric]
    by (rule arg_cong [where f = "Option.bind p"]) (auto simp: fun_eq_iff)
  have ok: "ies_ok n (cur_ies c)"
    using assms by (simp add: ie_inv_def)
  have p: "runs_to p (\<lambda>r. parsed_as n (uint len) r \<and> (fst r \<noteq> -1 \<longrightarrow> unat len \<le> unat (buf_size c)))"
  proof (cases "uint (buf_size c) < uint len")
    case True
    then show ?thesis
      using ok by (simp add: p_def)
  next
    case False
    note room = ie_inv_room [OF assms False]
    have sh: "runs_to (frame802154e_parse_mlme_short_ie (drop (buf_pos c) start) (uint len) e
          (Some (cur_ies c))) (parsed_as n (uint len))" for e
      unfolding uint_unat [of len] using room ok by (intro short_ie_runs) simp_all
    have lo: "runs_to (frame802154e_parse_mlme_long_ie (drop (buf_pos c) start) (uint len) e
          (Some (cur_ies c))) (parsed_as n (uint len))" for e
    proof (cases "unat len = 0")
      case True
      then show ?thesis
        unfolding uint_unat [of len] using ok by (simp add: frame802154e_parse_mlme_long_ie_def)
    next
      case False
      then show ?thesis
        unfolding uint_unat [of len] using room ok by (intro long_ie_runs; simp; arith)
    qed
    have "runs_to p (parsed_as n (uint len))"
      unfolding p_def using False sh lo by (simp only: if_False runs_to_if) simp
    then show ?thesis
      using False by (auto simp: uint_less_unat elim!: runs_to_mono)
  qed
  have s: "ie_inv n m start (c\<lparr>cur_ies := x, nested_mlme_len := k, parsing := q\<rparr>) = ie_inv n m start c"
    "ie_inv n m start (c\<lparr>cur_ies := x, nested_mlme_len := k\<rparr>) = ie_inv n m start c"
    if "ies_ok n x" for x k q
    using that ok by (simp_all add: ie_inv_def)
  show ?thesis
    unfolding e runs_to_bind
    by (rule runs_to_mono [OF p]) (auto simp: s assms split: prod.splits)
qed

lemma ie_step_runs:
  assumes "ie_inv n m start c"
  shows "runs_to (ie_step False start c) (\<lambda>r. case r of Inl x \<Rightarrow> ie_result n m x
     | Inr c' \<Rightarrow> ie_inv n m start c')"
proof (cases "buf_size c < 2")
  case True
  then show ?thesis
    using assms by (simp add: ie_step_def ie_inv_def)
next
  case False
  then have s: "(2 :: u8) \<le> buf_size c"
    by simp
  have u: "unat (buf_size c - 2) = unat (buf_size c) - 2" "2 \<le> unat (buf_size c)"
    using unat_minus_word [OF s] s by (simp_all add: word_le_nat_alt)
  let ?c = "c\<lparr>buf_size := buf_size c - 2, buf_pos := buf_pos c + 2\<rparr>"
  have c: "ie_inv n m start ?c"
    using assms u by (auto simp: ie_inv_def)
  obtain d where d: "READ16 start (buf_pos c) = Some d"
    using READ16_Some [of "buf_pos c" start] assms by (auto simp: ie_inv_def)
  define r where "r = (case parsing ?c of
            PARSING_HEADER_IE \<Rightarrow> parse_header_case start d ?c
          | PARSING_PAYLOAD_IE \<Rightarrow> parse_payload_case False start d ?c
          | PARSING_MLME_SUBIE \<Rightarrow> parse_mlme_case start d ?c)"
  have r: "runs_to r (case_ok n m start)"
    unfolding r_def
    using header_case_runs [OF c] payload_case_runs [OF c] mlme_case_runs [OF c]
    by (cases "parsing ?c") simp_all
  have adv: "ie_inv n m start (c'\<lparr>buf_pos := buf_pos c' + unat len, buf_size := buf_size c' - ucast len\<rparr>)"
    if "ie_inv n m start c'" "unat len \<le> unat (buf_size c')" for c' and len :: u16
  proof -
    have l: "unat (ucast len :: u8) = unat len"
      using that(2) unat_less8 [of "buf_size c'"]
      by (simp add: unsigned_ucast_eq take_bit_nat_eq_self)
    then have "ucast len \<le> buf_size c'"
      using that(2) by (simp add: word_le_nat_alt)
    from unat_minus_word [OF this] show ?thesis
      using that l by (simp add: ie_inv_def)
  qed
  have e: "ie_step False start c = do {
        r \<leftarrow> r;
        Some (case r of Inl x \<Rightarrow> Inl x
          | Inr (len, c) \<Rightarrow> Inr (c\<lparr>buf_pos := buf_pos c + unat len,
                                   buf_size := buf_size c - ucast len\<rparr>)) }"
    unfolding ie_step_def d bind.bind_lunit Let_def r_def using False by simp
  show ?thesis
    unfolding e runs_to_bind
    by (rule runs_to_mono [OF r]) (auto simp: adv split: sum.splits)
qed

lemma ie_loop_runs:
  "ie_inv n m start c \<Longrightarrow> runs_to (ie_loop False start c) (ie_result n m)"
proof (induction False start c rule: ie_loop.induct)
  case (1 start c)
  show ?case
  proof (cases "buf_size c = 0")
    case True
    then show ?thesis
      using 1 by (simp add: ie_loop.simps [of _ _ c] ie_finish_def ie_inv_def)
  next
    case False
    obtain r where r: "ie_step False start c = Some r"
      and "case r of Inl x \<Rightarrow> ie_result n m x | Inr c' \<Rightarrow> ie_inv n m start c'"
      using ie_step_runs [OF "1.prems"] by (auto simp: runs_to_def)
    then show ?thesis
      using False 1 by (cases r) (simp_all add: ie_loop.simps [of _ _ c])
  qed
qed

lemma information_elements_parsed:
  assumes "ies_ok n i" and "unat sz + 8 \<le> length buf"
  shows "runs_to (frame802154e_parse_information_elements False buf sz (Some i))
    (\<lambda>(r, i'). (r = -1 \<or> 0 \<le> r \<and> r \<le> uint sz) \<and> (\<exists>x. i' = Some x \<and> ies_ok n x))"
proof -
  let ?c = "\<lparr>buf_pos = 0, buf_size = sz, parsing = PARSING_HEADER_IE,
          nested_mlme_len = 0, cur_ies = i\<lparr>ie_payload_ie_offset := 0\<rparr>\<rparr>"
  have "runs_to (ie_loop False buf ?c) (ie_result n (unat sz))"
    using assms by (intro ie_loop_runs) (simp add: ie_inv_def)
  then show ?thesis
    unfolding frame802154e_parse_information_elements_def option.case runs_to_bind
    by (rule runs_to_mono) (auto split: prod.splits)
qed

end
