(* ===== verification/Frame802154.thy ===== *)
theory Frame802154
  imports Frame_IE Linkaddr
begin

text \<open>
  os/net/mac/framer/frame802154.c: the header of an IEEE 802.15.4 frame, created from and parsed
  into a structure. The build options LLSEC802154-USES-AUX-HEADER and
  LLSEC802154-USES-EXPLICIT-KEYS are arguments; the static mac-pan-id is passed and returned. A
  frame is the list of the bytes from the pointer to the end of the object. The payload pointer is
  its offset from the start of the frame. Positions are natural numbers: a header has at most 37
  bytes, so the byte that counts them in C never wraps.
\<close>

section \<open>Data\<close>

record frame802154_fcf_t =
  frame_type :: u8
  security_enabled :: u8
  frame_pending :: u8
  ack_required :: u8
  panid_compression :: u8
  sequence_number_suppression :: u8
  ie_list_present :: u8
  dest_addr_mode :: u8
  frame_version :: u8
  src_addr_mode :: u8

record frame802154_scf_t =
  security_level :: u8
  key_id_mode :: u8
  frame_counter_suppression :: u8
  frame_counter_size :: u8

record frame802154_aux_hdr_t =
  security_control :: frame802154_scf_t
  frame_counter :: "u8 list"
  key_source :: "u8 list"
  key_index :: u8

record frame802154_t =
  fr_dest_addr :: linkaddr
  fr_src_addr :: linkaddr
  fr_fcf :: frame802154_fcf_t
  fr_seq :: u8
  fr_dest_pid :: u16
  fr_src_pid :: u16
  fr_aux_hdr :: frame802154_aux_hdr_t
  fr_payload :: nat
  fr_payload_len :: int

record field_length_t =
  seqno_len :: nat
  dest_pid_len :: nat
  dest_addr_len :: nat
  src_pid_len :: nat
  src_addr_len :: nat
  aux_sec_len :: nat

definition FRAME802154_BEACONFRAME :: u8 where "FRAME802154_BEACONFRAME = 0"
definition FRAME802154_DATAFRAME :: u8 where "FRAME802154_DATAFRAME = 1"
definition FRAME802154_ACKFRAME :: u8 where "FRAME802154_ACKFRAME = 2"
definition FRAME802154_NOADDR :: u8 where "FRAME802154_NOADDR = 0"
definition FRAME802154_SHORTADDRMODE :: u8 where "FRAME802154_SHORTADDRMODE = 2"
definition FRAME802154_LONGADDRMODE :: u8 where "FRAME802154_LONGADDRMODE = 3"
definition FRAME802154_BROADCASTPANDID :: u16 where "FRAME802154_BROADCASTPANDID = 0xffff"
definition FRAME802154_IEEE802154_2015 :: u8 where "FRAME802154_IEEE802154_2015 = 2"
definition IEEE802154_PANID :: u16 where "IEEE802154_PANID = 0xABCD"

lemmas frame_consts = FRAME802154_BEACONFRAME_def FRAME802154_DATAFRAME_def FRAME802154_ACKFRAME_def
  FRAME802154_NOADDR_def FRAME802154_SHORTADDRMODE_def FRAME802154_LONGADDRMODE_def
  FRAME802154_BROADCASTPANDID_def FRAME802154_IEEE802154_2015_def

section \<open>Lengths, PAN identifiers and addresses\<close>

definition addr_len :: "u8 \<Rightarrow> nat" where
  "addr_len m = (if m = FRAME802154_SHORTADDRMODE then 2
     else if m = FRAME802154_LONGADDRMODE then 8 else 0)"

definition get_key_id_len :: "u8 \<Rightarrow> nat" where
  "get_key_id_len m = (if m = 1 then 1 else if m = 2 then 5 else if m = 3 then 9 else 0)"

definition frame802154_get_pan_id :: "u16 \<Rightarrow> u16" where
  "frame802154_get_pan_id mac_pan_id = mac_pan_id"

definition frame802154_set_pan_id :: "u16 \<Rightarrow> u16 \<Rightarrow> u16" where
  "frame802154_set_pan_id pan_id mac_pan_id = pan_id"

text \<open>The flags for the source and the destination PAN identifier.\<close>

definition frame802154_has_panid :: "frame802154_fcf_t \<Rightarrow> bool \<times> bool" where
  "frame802154_has_panid f = (
     let d = dest_addr_mode f; s = src_addr_mode f; comp = panid_compression f in
     if frame_version f = FRAME802154_IEEE802154_2015 then
       (comp = 0 \<and>
          (d = FRAME802154_NOADDR \<and> s = FRAME802154_LONGADDRMODE
           \<or> d = FRAME802154_NOADDR \<and> s = FRAME802154_SHORTADDRMODE
           \<or> d = FRAME802154_SHORTADDRMODE \<and> s = FRAME802154_SHORTADDRMODE
           \<or> d = FRAME802154_SHORTADDRMODE \<and> s = FRAME802154_LONGADDRMODE
           \<or> d = FRAME802154_LONGADDRMODE \<and> s = FRAME802154_SHORTADDRMODE),
        d = FRAME802154_NOADDR \<and> s = FRAME802154_NOADDR \<and> comp = 1
        \<or> d \<noteq> FRAME802154_NOADDR \<and> s = FRAME802154_NOADDR \<and> comp = 0
        \<or> d = FRAME802154_LONGADDRMODE \<and> s = FRAME802154_LONGADDRMODE \<and> comp = 0
        \<or> d = FRAME802154_SHORTADDRMODE \<and> s \<noteq> FRAME802154_NOADDR
        \<or> d \<noteq> FRAME802154_NOADDR \<and> s = FRAME802154_SHORTADDRMODE)
     else if frame_type f \<noteq> FRAME802154_ACKFRAME then
       (comp = 0 \<and> s AND 3 \<noteq> 0, d AND 3 \<noteq> 0)
     else (False, False))"

definition frame802154_check_dest_panid :: "u16 \<Rightarrow> frame802154_t option \<Rightarrow> bool" where
  "frame802154_check_dest_panid mac_pan_id frame = (case frame of
     None \<Rightarrow> False
   | Some frame \<Rightarrow>
       (let has_dest_panid = snd (frame802154_has_panid (fr_fcf frame)) in
        \<not> (\<not> has_dest_panid \<or>
            fr_dest_pid frame \<noteq> frame802154_get_pan_id mac_pan_id
            \<and> fr_dest_pid frame \<noteq> FRAME802154_BROADCASTPANDID)))"

text \<open>The countdown over the bytes of an address.\<close>

primrec broadcast_loop :: "nat \<Rightarrow> u8 list \<Rightarrow> bool option" where
  "broadcast_loop 0 addr = Some True"
| "broadcast_loop (Suc i) addr = do {
     b \<leftarrow> rd addr i;
     if b \<noteq> 0xff then Some False else broadcast_loop i addr }"

definition frame802154_is_broadcast_addr :: "u8 \<Rightarrow> u8 list \<Rightarrow> bool option" where
  "frame802154_is_broadcast_addr m addr =
     broadcast_loop (if m = FRAME802154_SHORTADDRMODE then 2 else 8) addr"

text \<open>
  One of the two halves of frame802154-extract-linkaddr: the address written, or nothing when its
  size is not the size of link-layer addresses.
\<close>

definition extract_one :: "u8 \<Rightarrow> u8 list \<Rightarrow> linkaddr option option" where
  "extract_one m addr = do {
     let l = (if m \<noteq> 0 then if m = FRAME802154_SHORTADDRMODE then 2 else 8 else 0);
     bc \<leftarrow> (if l = 0 then Some True else frame802154_is_broadcast_addr m addr);
     Some (if bc then Some linkaddr_null
           else if l \<noteq> LINKADDR_SIZE then None else Some (linkaddr_copy addr)) }"

definition frame802154_extract_linkaddr ::
  "frame802154_t option \<Rightarrow> (bool \<times> linkaddr option \<times> linkaddr option) option" where
  "frame802154_extract_linkaddr frame = (case frame of
     None \<Rightarrow> Some (False, None, None)
   | Some frame \<Rightarrow> do {
       s \<leftarrow> extract_one (src_addr_mode (fr_fcf frame)) (fr_src_addr frame);
       if s = None then Some (False, None, None)
       else do {
         d \<leftarrow> extract_one (dest_addr_mode (fr_fcf frame)) (fr_dest_addr frame);
         Some (d \<noteq> None, s, d) } })"

definition field_len :: "bool \<Rightarrow> bool \<Rightarrow> frame802154_t \<Rightarrow> frame802154_t \<times> field_length_t" where
  "field_len aux keys p = (
     let f = fr_fcf p;
         f = (if frame_version f < FRAME802154_IEEE802154_2015
              then f\<lparr>panid_compression :=
                (if dest_addr_mode f AND 3 \<noteq> 0 \<and> src_addr_mode f AND 3 \<noteq> 0
                    \<and> fr_src_pid p = fr_dest_pid p then 1 else 0)\<rparr>
              else f);
         (has_src_panid, has_dest_panid) = frame802154_has_panid f;
         sc = security_control (fr_aux_hdr p)
     in (p\<lparr>fr_fcf := f\<rparr>,
         \<lparr>seqno_len = (if sequence_number_suppression f AND 1 = 0 then 1 else 0),
          dest_pid_len = (if has_dest_panid then 2 else 0),
          dest_addr_len = addr_len (dest_addr_mode f AND 3),
          src_pid_len = (if has_src_panid then 2 else 0),
          src_addr_len = addr_len (src_addr_mode f AND 3),
          aux_sec_len = (if aux \<and> security_enabled f AND 1 \<noteq> 0 then
              1 + (if frame_counter_suppression sc = 0 then
                     if frame_counter_size sc = 1 then 5 else 4 else 0)
              + (if keys then get_key_id_len (key_id_mode sc) else 0)
            else 0)\<rparr>))"

definition frame802154_hdrlen :: "bool \<Rightarrow> bool \<Rightarrow> frame802154_t \<Rightarrow> frame802154_t \<times> nat" where
  "frame802154_hdrlen aux keys p = (let (p, flen) = field_len aux keys p in
     (p, 2 + seqno_len flen + dest_pid_len flen + dest_addr_len flen +
         src_pid_len flen + src_addr_len flen + aux_sec_len flen))"

section \<open>Creating a header\<close>

definition frame802154_create_fcf :: "frame802154_fcf_t \<Rightarrow> u8 list \<Rightarrow> u8 list option" where
  "frame802154_create_fcf f buf = do {
     buf \<leftarrow> wr buf 0 ((frame_type f AND 7) OR push_bit 3 (security_enabled f AND 1)
        OR push_bit 4 (frame_pending f AND 1) OR push_bit 5 (ack_required f AND 1)
        OR push_bit 6 (panid_compression f AND 1));
     wr buf 1 ((sequence_number_suppression f AND 1) OR push_bit 1 (ie_list_present f AND 1)
        OR push_bit 2 (dest_addr_mode f AND 3) OR push_bit 4 (frame_version f AND 3)
        OR push_bit 6 (src_addr_mode f AND 3)) }"

text \<open>The assignment buf[pos++] = v, and the loops that store an address from its last byte.\<close>

definition put :: "u8 \<Rightarrow> u8 list \<times> nat \<Rightarrow> (u8 list \<times> nat) option" where
  "put v w = do { buf \<leftarrow> wr (fst w) (snd w) v; Some (buf, snd w + 1) }"

definition put_addr :: "u8 list \<Rightarrow> nat \<Rightarrow> u8 list \<times> nat \<Rightarrow> (u8 list \<times> nat) option" where
  "put_addr addr l w = loopM (\<lambda>c w. do { v \<leftarrow> rd addr (c - 1); put v w }) (rev [1..<Suc l]) w"

definition put_pid :: "u16 \<Rightarrow> u8 list \<times> nat \<Rightarrow> (u8 list \<times> nat) option" where
  "put_pid pid w = do {
     w \<leftarrow> put (ucast (pid AND 0xff)) w;
     put (ucast (drop_bit 8 pid AND 0xff)) w }"

definition put_aux ::
  "bool \<Rightarrow> frame802154_aux_hdr_t \<Rightarrow> u8 list \<times> nat \<Rightarrow> (u8 list \<times> nat) option" where
  "put_aux keys a w = do {
     let sc = security_control a;
     w \<leftarrow> put (security_level sc OR (if keys then push_bit 3 (key_id_mode sc) else 0)
        OR push_bit 5 (frame_counter_suppression sc) OR push_bit 6 (frame_counter_size sc)) w;
     w \<leftarrow> (if frame_counter_suppression sc = 0 then do {
         buf \<leftarrow> memcpy_at (fst w) (snd w) (frame_counter a) 4;
         Some (buf, snd w + 4 + (if frame_counter_size sc = 1 then 1 else 0)) }
       else Some w);
     if keys \<and> key_id_mode sc \<noteq> 0 then do {
       let c = (unat (key_id_mode sc) - 1) * 4;
       buf \<leftarrow> memcpy_at (fst w) (snd w) (key_source a) c;
       put (key_index a) (buf, snd w + c) }
     else Some w }"

definition frame802154_create ::
  "bool \<Rightarrow> bool \<Rightarrow> frame802154_t \<Rightarrow> u8 list \<Rightarrow> (frame802154_t \<times> u8 list \<times> nat) option" where
  "frame802154_create aux keys p buf = do {
     let (p, flen) = field_len aux keys p;
     buf \<leftarrow> frame802154_create_fcf (fr_fcf p) buf;
     w \<leftarrow> (if seqno_len flen = 1 then put (fr_seq p) (buf, 2) else Some (buf, 2));
     w \<leftarrow> (if dest_pid_len flen = 2 then put_pid (fr_dest_pid p) w else Some w);
     w \<leftarrow> put_addr (fr_dest_addr p) (dest_addr_len flen) w;
     w \<leftarrow> (if src_pid_len flen = 2 then put_pid (fr_src_pid p) w else Some w);
     w \<leftarrow> put_addr (fr_src_addr p) (src_addr_len flen) w;
     w \<leftarrow> (if aux \<and> aux_sec_len flen \<noteq> 0 then put_aux keys (fr_aux_hdr p) w else Some w);
     Some (p, w) }"


section \<open>Parsing a header\<close>

definition frame802154_parse_fcf :: "u8 list \<Rightarrow> frame802154_fcf_t option" where
  "frame802154_parse_fcf data = do {
     d0 \<leftarrow> rd data 0;
     d1 \<leftarrow> rd data 1;
     Some \<lparr>frame_type = d0 AND 7,
       security_enabled = drop_bit 3 d0 AND 1,
       frame_pending = drop_bit 4 d0 AND 1,
       ack_required = drop_bit 5 d0 AND 1,
       panid_compression = drop_bit 6 d0 AND 1,
       sequence_number_suppression = d1 AND 1,
       ie_list_present = drop_bit 1 d1 AND 1,
       dest_addr_mode = drop_bit 2 d1 AND 3,
       frame_version = drop_bit 4 d1 AND 3,
       src_addr_mode = drop_bit 6 d1 AND 3\<rparr> }"

text \<open>The address at position p, in the size its mode gives it, over the old value of the field.\<close>

definition get_addr :: "u8 \<Rightarrow> u8 list \<Rightarrow> linkaddr \<Rightarrow> nat \<Rightarrow> (linkaddr \<times> nat) option" where
  "get_addr m data old p =
     (if m = FRAME802154_SHORTADDRMODE then do {
        b1 \<leftarrow> rd data (p + 1);
        b0 \<leftarrow> rd data p;
        Some (linkaddr_null[0 := b1, 1 := b0], p + 2) }
      else if m = FRAME802154_LONGADDRMODE then do {
        a \<leftarrow> for_upt 0 8 (\<lambda>c a. do { b \<leftarrow> rd data (p + (7 - c)); wr a c b }) old;
        Some (a, p + 8) }
      else Some (old, p))"

text \<open>The expression p[0] + (p[1] << 8), stored in sixteen bits.\<close>

definition get_pid :: "u8 list \<Rightarrow> nat \<Rightarrow> u16 option" where
  "get_pid data p = do {
     b0 \<leftarrow> rd data p;
     b1 \<leftarrow> rd data (p + 1);
     Some (ucast b0 + push_bit 8 (ucast b1)) }"

definition parse_dest ::
  "u8 \<Rightarrow> bool \<Rightarrow> u8 list \<Rightarrow> nat \<times> frame802154_t \<Rightarrow> (nat \<times> frame802154_t) option" where
  "parse_dest m has_dest_panid data w =
     (if m \<noteq> 0 then do {
        let (p, pf) = w;
        (pid, p) \<leftarrow> (if has_dest_panid then do { v \<leftarrow> get_pid data p; Some (v, p + 2) }
                     else Some (0, p));
        (a, p) \<leftarrow> get_addr m data (fr_dest_addr pf) p;
        Some (p, pf\<lparr>fr_dest_pid := pid, fr_dest_addr := a\<rparr>) }
      else Some (fst w, (snd w)\<lparr>fr_dest_addr := linkaddr_copy linkaddr_null, fr_dest_pid := 0\<rparr>))"

definition parse_src ::
  "u8 \<Rightarrow> bool \<Rightarrow> bool \<Rightarrow> u8 list \<Rightarrow> nat \<times> frame802154_t \<Rightarrow> (nat \<times> frame802154_t) option" where
  "parse_src m has_src_panid has_dest_panid data w =
     (if m \<noteq> 0 then do {
        let (p, pf) = w;
        (p, pf) \<leftarrow> (if has_src_panid then do {
             v \<leftarrow> get_pid data p;
             let pf = pf\<lparr>fr_src_pid := v\<rparr>;
             Some (p + 2, if has_dest_panid then pf else pf\<lparr>fr_dest_pid := fr_src_pid pf\<rparr>) }
           else Some (p, pf\<lparr>fr_src_pid := fr_dest_pid pf\<rparr>));
        (a, p) \<leftarrow> get_addr m data (fr_src_addr pf) p;
        Some (p, pf\<lparr>fr_src_addr := a\<rparr>) }
      else Some (fst w, (snd w)\<lparr>fr_src_addr := linkaddr_copy linkaddr_null, fr_src_pid := 0\<rparr>))"

definition parse_aux ::
  "bool \<Rightarrow> u8 list \<Rightarrow> nat \<times> frame802154_t \<Rightarrow> (nat \<times> frame802154_t) option" where
  "parse_aux keys data w = do {
     let (p, pf) = w;
     let a = fr_aux_hdr pf;
     b \<leftarrow> rd data p;
     let sc = (security_control a)\<lparr>security_level := b AND 7,
       frame_counter_suppression := drop_bit 5 b, frame_counter_size := drop_bit 6 b\<rparr>;
     let sc = (if keys then sc\<lparr>key_id_mode := drop_bit 3 b AND 3\<rparr> else sc);
     let p = p + 1;
     (p, fc) \<leftarrow> (if frame_counter_suppression sc = 0 then do {
         fc \<leftarrow> memcpy_at (frame_counter a) 0 (drop p data) 4;
         Some (p + 4 + (if frame_counter_size sc = 1 then 1 else 0), fc) }
       else Some (p, frame_counter a));
     let a = a\<lparr>security_control := sc, frame_counter := fc\<rparr>;
     if keys \<and> key_id_mode sc \<noteq> 0 then do {
       let c = (unat (key_id_mode sc) - 1) * 4;
       ks \<leftarrow> memcpy_at (key_source a) 0 (drop p data) c;
       k \<leftarrow> rd data (p + c);
       Some (p + c + 1, pf\<lparr>fr_aux_hdr := a\<lparr>key_source := ks, key_index := k\<rparr>\<rparr>) }
     else Some (p, pf\<lparr>fr_aux_hdr := a\<rparr>) }"

definition frame802154_parse ::
  "bool \<Rightarrow> bool \<Rightarrow> u8 list \<Rightarrow> int \<Rightarrow> frame802154_t \<Rightarrow> (int \<times> frame802154_t) option" where
  "frame802154_parse aux keys data len pf =
     (if len < 2 then Some (0, pf)
      else do {
        f \<leftarrow> frame802154_parse_fcf data;
        let pf = pf\<lparr>fr_fcf := f\<rparr>;
        w \<leftarrow> (if sequence_number_suppression f = 0 then do {
              s \<leftarrow> rd data 2;
              Some (3, pf\<lparr>fr_seq := s\<rparr>) }
            else Some (2, pf));
        let (has_src_panid, has_dest_panid) = frame802154_has_panid f;
        w \<leftarrow> parse_dest (dest_addr_mode f) has_dest_panid data w;
        w \<leftarrow> parse_src (src_addr_mode f) has_src_panid has_dest_panid data w;
        (c, pf) \<leftarrow> (if aux \<and> security_enabled f \<noteq> 0 then parse_aux keys data w else Some w);
        Some (if int c > len then 0 else int c,
              pf\<lparr>fr_payload_len := len - int c, fr_payload := c\<rparr>) })"


section \<open>The bytes of a header\<close>

text \<open>The fields of the frame control field that fit their bits.\<close>

definition fcf_ok :: "frame802154_fcf_t \<Rightarrow> bool" where
  "fcf_ok f \<longleftrightarrow> frame_type f AND 7 = frame_type f \<and> security_enabled f AND 1 = security_enabled f
     \<and> frame_pending f AND 1 = frame_pending f \<and> ack_required f AND 1 = ack_required f
     \<and> panid_compression f AND 1 = panid_compression f
     \<and> sequence_number_suppression f AND 1 = sequence_number_suppression f
     \<and> ie_list_present f AND 1 = ie_list_present f \<and> dest_addr_mode f AND 3 = dest_addr_mode f
     \<and> frame_version f AND 3 = frame_version f \<and> src_addr_mode f AND 3 = src_addr_mode f"

definition fcf_bytes :: "frame802154_fcf_t \<Rightarrow> u8 list" where
  "fcf_bytes f = [(frame_type f AND 7) OR push_bit 3 (security_enabled f AND 1)
        OR push_bit 4 (frame_pending f AND 1) OR push_bit 5 (ack_required f AND 1)
        OR push_bit 6 (panid_compression f AND 1),
      (sequence_number_suppression f AND 1) OR push_bit 1 (ie_list_present f AND 1)
        OR push_bit 2 (dest_addr_mode f AND 3) OR push_bit 4 (frame_version f AND 3)
        OR push_bit 6 (src_addr_mode f AND 3)]"

lemma small_masks8:
  "(x AND 7 :: u8) = take_bit 3 x" "(x AND 3 :: u8) = take_bit 2 x" "(x AND 1 :: u8) = take_bit 1 x"
  by (simp_all add: take_bit_eq_mask mask_eq_exp_minus_1)

lemma fcf_byte0:
  fixes a b c d e :: u8
  defines "w \<equiv> (a AND 7) OR push_bit 3 (b AND 1) OR push_bit 4 (c AND 1) OR push_bit 5 (d AND 1)
     OR push_bit 6 (e AND 1)"
  shows "w AND 7 = a AND 7" "drop_bit 3 w AND 1 = b AND 1" "drop_bit 4 w AND 1 = c AND 1"
    "drop_bit 5 w AND 1 = d AND 1" "drop_bit 6 w AND 1 = e AND 1"
  unfolding w_def small_masks8
  by (rule bit_word_eqI;
      simp only: bit_take_bit_iff bit_drop_bit_eq o_def bit_or_iff bit_push_bit_iff; auto)+

lemma fcf_byte1:
  fixes a b c d e :: u8
  defines "w \<equiv> (a AND 1) OR push_bit 1 (b AND 1) OR push_bit 2 (c AND 3) OR push_bit 4 (d AND 3)
     OR push_bit 6 (e AND 3)"
  shows "w AND 1 = a AND 1" "drop_bit 1 w AND 1 = b AND 1" "drop_bit 2 w AND 3 = c AND 3"
    "drop_bit 4 w AND 3 = d AND 3" "drop_bit 6 w AND 3 = e AND 3"
  unfolding w_def small_masks8
  by (rule bit_word_eqI;
      simp only: bit_take_bit_iff bit_drop_bit_eq o_def bit_or_iff bit_push_bit_iff; auto)+

lemma rd01: "rd (x # y # zs) 0 = Some x" "rd (x # y # zs) 1 = Some y"
  by (simp_all add: rd_def)

lemma parse_fcf_bytes:
  assumes "fcf_ok f"
  shows "frame802154_parse_fcf (fcf_bytes f @ rest) = Some f"
proof -
  have "frame802154_parse_fcf (fcf_bytes f @ rest) = Some \<lparr>frame_type = frame_type f AND 7,
       security_enabled = security_enabled f AND 1, frame_pending = frame_pending f AND 1,
       ack_required = ack_required f AND 1, panid_compression = panid_compression f AND 1,
       sequence_number_suppression = sequence_number_suppression f AND 1,
       ie_list_present = ie_list_present f AND 1, dest_addr_mode = dest_addr_mode f AND 3,
       frame_version = frame_version f AND 3, src_addr_mode = src_addr_mode f AND 3\<rparr>"
    unfolding frame802154_parse_fcf_def fcf_bytes_def append_Cons rd01 bind.bind_lunit
      fcf_byte0 fcf_byte1 by (rule refl)
  also have "\<dots> = Some f"
    using assms unfolding fcf_ok_def by (cases f) (simp only: frame802154_fcf_t.select_convs)
  finally show ?thesis .
qed

definition pid_bytes :: "bool \<Rightarrow> u16 \<Rightarrow> u8 list" where
  "pid_bytes b v = (if b then le16 v else [])"

definition hdr_bytes :: "frame802154_t \<Rightarrow> u8 list" where
  "hdr_bytes p = (let f = fr_fcf p; (s, d) = frame802154_has_panid f in
     fcf_bytes f
     @ (if sequence_number_suppression f AND 1 = 0 then [fr_seq p] else [])
     @ pid_bytes d (fr_dest_pid p)
     @ rev (take (addr_len (dest_addr_mode f AND 3)) (fr_dest_addr p))
     @ pid_bytes s (fr_src_pid p)
     @ rev (take (addr_len (src_addr_mode f AND 3)) (fr_src_addr p)))"

text \<open>The buffer and the position after the bytes bs have been stored from its start.\<close>

definition img :: "u8 list \<Rightarrow> u8 list \<Rightarrow> u8 list \<times> nat" where
  "img b0 bs = (bs @ drop (length bs) b0, length bs)"

lemma put_img:
  assumes "length bs < length b0"
  shows "put v (img b0 bs) = Some (img b0 (bs @ [v]))"
proof -
  have "drop (length bs) b0 = b0 ! length bs # drop (length (bs @ [v])) b0"
    using assms by (simp add: Cons_nth_drop_Suc)
  then show ?thesis
    using wr_mid [of "length bs" bs "b0 ! length bs" "drop (length (bs @ [v])) b0" v]
    by (simp add: put_def img_def)
qed

lemma put_pid_img:
  "length bs + 1 < length b0 \<Longrightarrow> put_pid v (img b0 bs) = Some (img b0 (bs @ le16 v))"
  using ucast_mask8 [of "drop_bit 8 v"] by (simp add: put_pid_def put_img le16_def)

lemma put_addr_img:
  assumes "l \<le> length a" and "length bs + l \<le> length b0"
  shows "put_addr a l (img b0 bs) = Some (img b0 (bs @ rev (take l a)))"
  using assms
proof (induction l arbitrary: bs)
  case 0
  then show ?case by (simp add: put_addr_def)
next
  case (Suc l)
  have "put_addr a (Suc l) w = do { w \<leftarrow> put (a ! l) w; put_addr a l w }" for w
    using Suc.prems by (simp add: put_addr_def)
  moreover have "rev (take (Suc l) a) = a ! l # rev (take l a)"
    using Suc.prems by (simp add: take_Suc_conv_app_nth)
  ultimately show ?case
    using Suc.IH [of "bs @ [a ! l]"] Suc.prems by (simp add: put_img)
qed

lemma create_bytes:
  assumes "field_len False keys p = (p', fl)" and "length (hdr_bytes p') \<le> length buf"
    and "length (fr_dest_addr p) = 8" and "length (fr_src_addr p) = 8"
  shows "frame802154_create False keys p buf = Some (p', img buf (hdr_bytes p'))"
proof -
  let ?f = "fr_fcf p'"
  obtain s d where sd: "frame802154_has_panid ?f = (s, d)"
    by (cases "frame802154_has_panid ?f")
  define f' where "f' = (if frame_version (fr_fcf p) < FRAME802154_IEEE802154_2015
              then (fr_fcf p)\<lparr>panid_compression :=
                (if dest_addr_mode (fr_fcf p) AND 3 \<noteq> 0 \<and> src_addr_mode (fr_fcf p) AND 3 \<noteq> 0
                    \<and> fr_src_pid p = fr_dest_pid p then 1 else 0)\<rparr>
              else fr_fcf p)"
  have p': "p' = p\<lparr>fr_fcf := f'\<rparr>"
    using assms(1) by (auto simp: field_len_def Let_def f'_def split: prod.splits)
  have fl: "seqno_len fl = (if sequence_number_suppression ?f AND 1 = 0 then 1 else 0)"
    "dest_pid_len fl = (if d then 2 else 0)" "src_pid_len fl = (if s then 2 else 0)"
    "dest_addr_len fl = addr_len (dest_addr_mode ?f AND 3)"
    "src_addr_len fl = addr_len (src_addr_mode ?f AND 3)"
    using assms(1) sd unfolding field_len_def Let_def f'_def [symmetric]
    by (auto simp: p' split: prod.splits)
  have al: "addr_len m \<le> 8" for m
    by (simp add: addr_len_def)
  have "2 \<le> length (hdr_bytes p')"
    by (simp add: hdr_bytes_def Let_def sd fcf_bytes_def)
  then obtain a b c where buf: "buf = a # b # c"
    using assms(2) by (cases buf; cases "tl buf") auto
  have fcf: "frame802154_create_fcf ?f buf = Some (fcf_bytes ?f @ drop 2 buf)"
    unfolding buf by (simp add: frame802154_create_fcf_def fcf_bytes_def wr_def)
  have i0: "(fcf_bytes ?f @ drop 2 buf, 2) = img buf (fcf_bytes ?f)"
    unfolding buf by (simp add: img_def fcf_bytes_def)
  define b1 where "b1 = fcf_bytes ?f @ (if sequence_number_suppression ?f AND 1 = 0 then [fr_seq p'] else [])"
  define b2 where "b2 = b1 @ pid_bytes d (fr_dest_pid p')"
  define b3 where "b3 = b2 @ rev (take (addr_len (dest_addr_mode ?f AND 3)) (fr_dest_addr p'))"
  define b4 where "b4 = b3 @ pid_bytes s (fr_src_pid p')"
  have b5: "hdr_bytes p' = b4 @ rev (take (addr_len (src_addr_mode ?f AND 3)) (fr_src_addr p'))"
    by (simp add: hdr_bytes_def Let_def sd b1_def b2_def b3_def b4_def)
  have len: "length b4 + addr_len (src_addr_mode ?f AND 3) \<le> length buf"
    "length b3 + (if s then 2 else 0) \<le> length buf"
    "length b2 + addr_len (dest_addr_mode ?f AND 3) \<le> length buf"
    "length b1 + (if d then 2 else 0) \<le> length buf"
    "2 + (if sequence_number_suppression ?f AND 1 = 0 then 1 else 0) \<le> length buf"
    using assms(2-4) al [of "src_addr_mode ?f AND 3"] al [of "dest_addr_mode ?f AND 3"]
    unfolding b5 b4_def b3_def b2_def b1_def
    by (simp_all add: p' pid_bytes_def fcf_bytes_def min_def split: if_splits)
  have s1: "(if seqno_len fl = 1 then put (fr_seq p') (img buf (fcf_bytes ?f)) else Some (img buf (fcf_bytes ?f)))
      = Some (img buf b1)"
    using len(5) put_img [of "fcf_bytes ?f" buf "fr_seq p'"] by (simp add: fl b1_def fcf_bytes_def)
  have s2: "(if dest_pid_len fl = 2 then put_pid (fr_dest_pid p') (img buf b1) else Some (img buf b1))
      = Some (img buf b2)"
    using len(4) by (simp add: fl b2_def pid_bytes_def put_pid_img)
  have s3: "put_addr (fr_dest_addr p') (dest_addr_len fl) (img buf b2) = Some (img buf b3)"
    unfolding fl b3_def using len(3) assms(3) al by (intro put_addr_img) (simp_all add: p')
  have s4: "(if src_pid_len fl = 2 then put_pid (fr_src_pid p') (img buf b3) else Some (img buf b3))
      = Some (img buf b4)"
    using len(2) by (simp add: fl b4_def pid_bytes_def put_pid_img)
  have s5: "put_addr (fr_src_addr p') (src_addr_len fl) (img buf b4) = Some (img buf (hdr_bytes p'))"
    unfolding fl b5 using len(1) assms(4) al by (intro put_addr_img) (simp_all add: p')
  show ?thesis
    unfolding frame802154_create_def Let_def assms(1) prod.case fcf bind.bind_lunit i0 s1 s2 s3 s4 s5
    by simp
qed


section \<open>Reading a header back\<close>

definition addr_read :: "u8 \<Rightarrow> linkaddr \<Rightarrow> linkaddr \<Rightarrow> linkaddr" where
  "addr_read m a old = (if m = FRAME802154_SHORTADDRMODE then take 2 a @ replicate 6 0
     else if m = FRAME802154_LONGADDRMODE then a else old)"

lemma get_pid_READ16: "get_pid data p = READ16 data p"
proof -
  have "ucast x + push_bit 8 (ucast y) = (ucast x OR push_bit 8 (ucast y) :: u16)" for x y :: u8
    by (rule disjunctive_add) (auto simp: bit_simps dest: bit_imp_le_length)
  then show ?thesis
    by (simp add: get_pid_def READ16_def)
qed

lemma get_pid_mid: "p = length pre \<Longrightarrow> get_pid (pre @ le16 v @ post) p = Some v"
  by (simp add: get_pid_READ16 READ16_mid)

lemma get_addr_mid:
  assumes "length a = 8" and "length old = 8" and "p = length pre"
  shows "get_addr m (pre @ rev (take (addr_len m) a) @ post) old p
       = Some (addr_read m a old, p + addr_len m)"
proof -
  have r: "rd (pre @ xs @ post) (p + i) = Some (xs ! i)" if "i < length xs" for i xs
    using that assms(3) by (simp add: rd_def nth_append)
  consider "m = FRAME802154_SHORTADDRMODE" | "m = FRAME802154_LONGADDRMODE"
    | "m \<noteq> FRAME802154_SHORTADDRMODE" "m \<noteq> FRAME802154_LONGADDRMODE" by blast
  then show ?thesis
  proof cases
    case 1
    obtain x y zs where a: "a = x # y # zs"
      using assms(1) by (cases a; cases "tl a") auto
    have "addr_len m = 2" using 1 by (simp add: addr_len_def)
    then show ?thesis
      using 1 r [of 0 "[y, x]"] r [of 1 "[y, x]"]
      by (simp add: get_addr_def addr_read_def a linkaddr_null_def eval_nat_numeral)
  next
    case 2
    have l: "addr_len m = 8"
      using 2 by (simp add: addr_len_def frame_consts)
    have "for_upt 0 8 (\<lambda>c a. do { b \<leftarrow> rd (pre @ rev a' @ post) (p + (7 - c)); wr a c b }) old
        = Some (a' @ drop 8 old)" if "length a' = 8" for a'
    proof (rule for_upt_fill)
      fix i and ls :: "u8 list" assume "i < 8" "i < length ls"
      then show "do { b \<leftarrow> rd (pre @ rev a' @ post) (p + (7 - i)); wr ls i b } = Some (ls[i := a' ! i])"
        using r [of "7 - i" "rev a'"] that by (simp add: rev_nth)
    qed (use assms(2) that in simp_all)
    from this [of a] show ?thesis
      using 2 l assms(1,2) by (simp add: get_addr_def addr_read_def frame_consts)
  next
    case 3
    then show ?thesis
      by (simp add: get_addr_def addr_read_def addr_len_def)
  qed
qed

lemma length_addr_read: "length a = 8 \<Longrightarrow> length old = 8 \<Longrightarrow> length (addr_read m a old) = 8"
  by (simp add: addr_read_def)

lemma parse_dest_mid:
  assumes "length (fr_dest_addr p) = 8" and "length (fr_dest_addr pf) = 8" and "m \<noteq> 0 \<or> \<not> d"
    and "q = length pre"
  shows "parse_dest m d (pre @ pid_bytes d (fr_dest_pid p) @ rev (take (addr_len m) (fr_dest_addr p)) @ post)
      (q, pf) = Some (q + length (pid_bytes d (fr_dest_pid p)) + addr_len m,
        pf\<lparr>fr_dest_pid := (if d then fr_dest_pid p else 0),
           fr_dest_addr := (if m = 0 then linkaddr_null else addr_read m (fr_dest_addr p) (fr_dest_addr pf))\<rparr>)"
proof -
  have z: "addr_len 0 = 0"
    by (simp add: addr_len_def frame_consts)
  have a: "get_addr m (pre @ pid_bytes d (fr_dest_pid p) @ rev (take (addr_len m) (fr_dest_addr p)) @ post)
      (fr_dest_addr pf) (q + length (pid_bytes d (fr_dest_pid p)))
      = Some (addr_read m (fr_dest_addr p) (fr_dest_addr pf),
              q + length (pid_bytes d (fr_dest_pid p)) + addr_len m)"
    using get_addr_mid [OF assms(1,2), of "q + length (pid_bytes d (fr_dest_pid p))"
        "pre @ pid_bytes d (fr_dest_pid p)" m post] assms(4) by simp
  show ?thesis
  proof (cases "m = 0")
    case True
    then show ?thesis
      using assms(3) by (simp add: parse_dest_def z pid_bytes_def linkaddr_copy_def)
  next
    case False
    have "(if d then do { v \<leftarrow> get_pid (pre @ pid_bytes d (fr_dest_pid p)
               @ rev (take (addr_len m) (fr_dest_addr p)) @ post) q; Some (v, q + 2) }
           else Some (0, q))
        = Some (if d then fr_dest_pid p else 0, q + length (pid_bytes d (fr_dest_pid p)))"
      using get_pid_mid [OF assms(4)] by (simp add: pid_bytes_def)
    then show ?thesis
      unfolding parse_dest_def using False a by simp
  qed
qed

lemma parse_src_mid:
  assumes "length (fr_src_addr p) = 8" and "length (fr_src_addr pf) = 8" and "m \<noteq> 0 \<or> \<not> s"
    and "q = length pre"
  shows "parse_src m s d (pre @ pid_bytes s (fr_src_pid p) @ rev (take (addr_len m) (fr_src_addr p)) @ post)
      (q, pf) = Some (q + length (pid_bytes s (fr_src_pid p)) + addr_len m,
        pf\<lparr>fr_src_pid := (if m = 0 then 0 else if s then fr_src_pid p else fr_dest_pid pf),
           fr_dest_pid := (if m \<noteq> 0 \<and> s \<and> \<not> d then fr_src_pid p else fr_dest_pid pf),
           fr_src_addr := (if m = 0 then linkaddr_null else addr_read m (fr_src_addr p) (fr_src_addr pf))\<rparr>)"
proof -
  have z: "addr_len 0 = 0"
    by (simp add: addr_len_def frame_consts)
  have a: "get_addr m (pre @ pid_bytes s (fr_src_pid p) @ rev (take (addr_len m) (fr_src_addr p)) @ post)
      (fr_src_addr pf) (q + length (pid_bytes s (fr_src_pid p)))
      = Some (addr_read m (fr_src_addr p) (fr_src_addr pf),
              q + length (pid_bytes s (fr_src_pid p)) + addr_len m)"
    using get_addr_mid [OF assms(1,2), of "q + length (pid_bytes s (fr_src_pid p))"
        "pre @ pid_bytes s (fr_src_pid p)" m post] assms(4) by simp
  show ?thesis
  proof (cases "m = 0")
    case True
    then show ?thesis
      using assms(3) by (simp add: parse_src_def z pid_bytes_def linkaddr_copy_def)
  next
    case m: False
    show ?thesis
    proof (cases s)
      case True
      then have g: "get_pid (pre @ pid_bytes s (fr_src_pid p)
               @ rev (take (addr_len m) (fr_src_addr p)) @ post) q = Some (fr_src_pid p)"
        using get_pid_mid [OF assms(4)] by (simp add: pid_bytes_def)
      have "length (pid_bytes s (fr_src_pid p)) = 2"
        using True by (simp add: pid_bytes_def)
      then show ?thesis
        unfolding parse_src_def using m True a g by simp
    next
      case False
      then have "length (pid_bytes s (fr_src_pid p)) = 0"
        by (simp add: pid_bytes_def)
      then show ?thesis
        unfolding parse_src_def using m False a by simp
    qed
  qed
qed


text \<open>The structure pf after the header of the frame p has been parsed into it.\<close>

definition hdr_read :: "frame802154_t \<Rightarrow> int \<Rightarrow> frame802154_t \<Rightarrow> frame802154_t" where
  "hdr_read p len pf = (
     let f = fr_fcf p; (s, d) = frame802154_has_panid f;
         dm = dest_addr_mode f; sm = src_addr_mode f;
         pid = (if d then fr_dest_pid p else 0)
     in pf\<lparr>fr_fcf := f,
          fr_seq := (if sequence_number_suppression f = 0 then fr_seq p else fr_seq pf),
          fr_dest_addr := (if dm = 0 then linkaddr_null
                           else addr_read dm (fr_dest_addr p) (fr_dest_addr pf)),
          fr_src_addr := (if sm = 0 then linkaddr_null
                          else addr_read sm (fr_src_addr p) (fr_src_addr pf)),
          fr_dest_pid := (if sm \<noteq> 0 \<and> s \<and> \<not> d then fr_src_pid p else pid),
          fr_src_pid := (if sm = 0 then 0 else if s then fr_src_pid p else pid),
          fr_payload := length (hdr_bytes p),
          fr_payload_len := len - int (length (hdr_bytes p))\<rparr>)"

text \<open>
  A header the parser understands: its fields fit, its addresses have eight bytes, and it announces
  a destination PAN identifier only together with a destination address.
\<close>

definition hdr_ok :: "frame802154_t \<Rightarrow> bool" where
  "hdr_ok p \<longleftrightarrow> fcf_ok (fr_fcf p) \<and> length (fr_dest_addr p) = 8 \<and> length (fr_src_addr p) = 8
     \<and> (snd (frame802154_has_panid (fr_fcf p)) \<longrightarrow> dest_addr_mode (fr_fcf p) \<noteq> 0)"

lemma has_src_panid:
  "fst (frame802154_has_panid f) \<Longrightarrow> src_addr_mode f \<noteq> 0"
  by (auto simp: frame802154_has_panid_def Let_def frame_consts split: if_splits)

lemma parse_hdr_bytes:
  assumes "hdr_ok p" and "length (fr_dest_addr pf) = 8" and "length (fr_src_addr pf) = 8"
    and "\<not> aux \<or> security_enabled (fr_fcf p) = 0" and "int (length (hdr_bytes p)) \<le> len"
  shows "frame802154_parse aux keys (hdr_bytes p @ rest) len pf
       = Some (int (length (hdr_bytes p)), hdr_read p len pf)"
proof -
  let ?f = "fr_fcf p"
  obtain s d where sd: "frame802154_has_panid ?f = (s, d)"
    by (cases "frame802154_has_panid ?f")
  have ok: "fcf_ok ?f" "length (fr_dest_addr p) = 8" "length (fr_src_addr p) = 8"
    "dest_addr_mode ?f \<noteq> 0 \<or> \<not> d" "src_addr_mode ?f \<noteq> 0 \<or> \<not> s"
    using assms(1) sd has_src_panid [of ?f] by (auto simp: hdr_ok_def)
  have m: "dest_addr_mode ?f AND 3 = dest_addr_mode ?f" "src_addr_mode ?f AND 3 = src_addr_mode ?f"
    "sequence_number_suppression ?f AND 1 = sequence_number_suppression ?f"
    using ok(1) by (simp_all add: fcf_ok_def)
  let ?sq = "if sequence_number_suppression ?f = 0 then [fr_seq p] else []"
  let ?dp = "pid_bytes d (fr_dest_pid p)" and ?sp = "pid_bytes s (fr_src_pid p)"
  let ?da = "rev (take (addr_len (dest_addr_mode ?f)) (fr_dest_addr p))"
  let ?sa = "rev (take (addr_len (src_addr_mode ?f)) (fr_src_addr p))"
  define data where "data = hdr_bytes p @ rest"
  have h: "hdr_bytes p = fcf_bytes ?f @ ?sq @ ?dp @ ?da @ ?sp @ ?sa"
    by (simp add: hdr_bytes_def Let_def sd m)
  have al: "length (rev (take (addr_len k) a)) = addr_len k" if "length a = 8" for k and a :: "u8 list"
    using that by (simp add: addr_len_def)
  have lf: "length (fcf_bytes ?f) = 2"
    by (simp add: fcf_bytes_def)
  have pfcf: "frame802154_parse_fcf data = Some ?f"
    unfolding data_def h append_assoc by (rule parse_fcf_bytes [OF ok(1)])
  let ?pf1 = "pf\<lparr>fr_fcf := ?f,
      fr_seq := (if sequence_number_suppression ?f = 0 then fr_seq p else fr_seq pf)\<rparr>"
  have sq: "(if sequence_number_suppression ?f = 0 then do {
              s \<leftarrow> rd data 2;
              Some (3, pf\<lparr>fr_fcf := ?f\<rparr>\<lparr>fr_seq := s\<rparr>) }
            else Some (2, pf\<lparr>fr_fcf := ?f\<rparr>)) = Some (2 + length ?sq, ?pf1)"
    using rd_mid [of 2 "fcf_bytes ?f" "fr_seq p"] lf by (simp add: data_def h)
  let ?q1 = "2 + length ?sq" and ?q2 = "2 + length ?sq + length ?dp + addr_len (dest_addr_mode ?f)"
  let ?pf2 = "?pf1\<lparr>fr_dest_pid := (if d then fr_dest_pid p else 0),
           fr_dest_addr := (if dest_addr_mode ?f = 0 then linkaddr_null
             else addr_read (dest_addr_mode ?f) (fr_dest_addr p) (fr_dest_addr pf))\<rparr>"
  have dest: "parse_dest (dest_addr_mode ?f) d data (?q1, ?pf1) = Some (?q2, ?pf2)"
    using parse_dest_mid [of p ?pf1 "dest_addr_mode ?f" d ?q1 "fcf_bytes ?f @ ?sq" "?sp @ ?sa @ rest"]
      ok assms(2) lf by (simp add: data_def h)
  let ?pf3 = "?pf2\<lparr>fr_src_pid := (if src_addr_mode ?f = 0 then 0 else if s then fr_src_pid p
                                      else fr_dest_pid ?pf2),
           fr_dest_pid := (if src_addr_mode ?f \<noteq> 0 \<and> s \<and> \<not> d then fr_src_pid p else fr_dest_pid ?pf2),
           fr_src_addr := (if src_addr_mode ?f = 0 then linkaddr_null
             else addr_read (src_addr_mode ?f) (fr_src_addr p) (fr_src_addr pf))\<rparr>"
  have src: "parse_src (src_addr_mode ?f) s d data (?q2, ?pf2) = Some (length (hdr_bytes p), ?pf3)"
  proof -
    have e: "data = (fcf_bytes ?f @ ?sq @ ?dp @ ?da) @ ?sp @ ?sa @ rest"
      by (simp add: data_def h)
    have q: "?q2 = length (fcf_bytes ?f @ ?sq @ ?dp @ ?da)"
      using al [OF ok(2)] lf by simp
    have "length (hdr_bytes p) = ?q2 + length ?sp + addr_len (src_addr_mode ?f)"
      using al [OF ok(2)] al [OF ok(3)] lf by (simp add: h)
    moreover have "fr_src_addr ?pf2 = fr_src_addr pf"
      by simp
    ultimately show ?thesis
      using parse_src_mid [of p ?pf2 "src_addr_mode ?f" s ?q2 _ d "rest", OF ok(3) _ ok(5) q] assms(3)
      unfolding e by simp
  qed
  have "2 \<le> length (hdr_bytes p)"
    by (simp add: h lf)
  then have "\<not> len < 2"
    using assms(5) by linarith
  have ax: "(aux \<and> security_enabled ?f \<noteq> 0) = False"
    using assms(4) by blast
  show ?thesis
    unfolding frame802154_parse_def data_def [symmetric] pfcf bind.bind_lunit Let_def sq sd prod.case
      dest src hdr_read_def ax if_False
    using assms(5) \<open>\<not> len < 2\<close> by simp
qed

end
