(* ===== verification/Packetbuf.thy ===== *)
theory Packetbuf
  imports Frame802154
begin

text \<open>
  os/net/packetbuf.c: the one buffer in which the stack builds and takes apart the current packet,
  with its attributes and addresses. The attribute numbers are those of a build without link
  selector and link-layer security.
\<close>

section \<open>Data\<close>

definition PACKETBUF_SIZE :: nat where "PACKETBUF_SIZE = 128"

definition PACKETBUF_ATTR_MAC_SEQNO :: nat where "PACKETBUF_ATTR_MAC_SEQNO = 7"
definition PACKETBUF_ATTR_MAC_ACK :: nat where "PACKETBUF_ATTR_MAC_ACK = 8"
definition PACKETBUF_ATTR_MAC_METADATA :: nat where "PACKETBUF_ATTR_MAC_METADATA = 9"
definition PACKETBUF_ATTR_MAC_NO_SRC_ADDR :: nat where "PACKETBUF_ATTR_MAC_NO_SRC_ADDR = 10"
definition PACKETBUF_ATTR_MAC_NO_DEST_ADDR :: nat where "PACKETBUF_ATTR_MAC_NO_DEST_ADDR = 11"
definition PACKETBUF_ATTR_FRAME_TYPE :: nat where "PACKETBUF_ATTR_FRAME_TYPE = 12"
definition PACKETBUF_ADDR_SENDER :: nat where "PACKETBUF_ADDR_SENDER = 13"
definition PACKETBUF_ADDR_RECEIVER :: nat where "PACKETBUF_ADDR_RECEIVER = 14"
definition PACKETBUF_NUM_ADDRS :: nat where "PACKETBUF_NUM_ADDRS = 2"
definition PACKETBUF_NUM_ATTRS :: nat where "PACKETBUF_NUM_ATTRS = 15 - PACKETBUF_NUM_ADDRS"
definition PACKETBUF_ADDR_FIRST :: nat where "PACKETBUF_ADDR_FIRST = PACKETBUF_ADDR_SENDER"

lemmas packetbuf_ids = PACKETBUF_ATTR_MAC_SEQNO_def PACKETBUF_ATTR_MAC_ACK_def
  PACKETBUF_ATTR_MAC_METADATA_def PACKETBUF_ATTR_MAC_NO_SRC_ADDR_def
  PACKETBUF_ATTR_MAC_NO_DEST_ADDR_def PACKETBUF_ATTR_FRAME_TYPE_def PACKETBUF_ADDR_SENDER_def
  PACKETBUF_ADDR_RECEIVER_def PACKETBUF_NUM_ADDRS_def PACKETBUF_NUM_ATTRS_def
  PACKETBUF_ADDR_FIRST_def

record packetbuf =
  pb_mem :: "u8 list"
  buflen :: u16
  bufptr :: u16
  hdrlen :: u8
  packetbuf_attrs :: "u16 list"
  packetbuf_addrs :: "linkaddr list"

section \<open>Operations\<close>

definition packetbuf_attr_clear :: "packetbuf \<Rightarrow> packetbuf" where
  "packetbuf_attr_clear b = b\<lparr>packetbuf_attrs := replicate PACKETBUF_NUM_ATTRS 0,
     packetbuf_addrs := replicate PACKETBUF_NUM_ADDRS (linkaddr_copy linkaddr_null)\<rparr>"

definition packetbuf_clear :: "packetbuf \<Rightarrow> packetbuf" where
  "packetbuf_clear b = packetbuf_attr_clear (b\<lparr>buflen := 0, bufptr := 0, hdrlen := 0\<rparr>)"

definition packetbuf_hdrlen :: "packetbuf \<Rightarrow> u8" where
  "packetbuf_hdrlen b = ucast (bufptr b + ucast (hdrlen b))"

definition packetbuf_datalen :: "packetbuf \<Rightarrow> u16" where
  "packetbuf_datalen b = buflen b"

definition packetbuf_totlen :: "packetbuf \<Rightarrow> u16" where
  "packetbuf_totlen b = ucast (packetbuf_hdrlen b) + packetbuf_datalen b"

definition packetbuf_remaininglen :: "packetbuf \<Rightarrow> u16" where
  "packetbuf_remaininglen b = of_nat PACKETBUF_SIZE - packetbuf_totlen b"

text \<open>The two pointers are offsets in the buffer.\<close>

definition packetbuf_dataptr :: "packetbuf \<Rightarrow> nat" where
  "packetbuf_dataptr b = unat (packetbuf_hdrlen b)"

definition packetbuf_hdrptr :: "packetbuf \<Rightarrow> nat" where
  "packetbuf_hdrptr b = 0"

definition packetbuf_set_datalen :: "u16 \<Rightarrow> packetbuf \<Rightarrow> packetbuf" where
  "packetbuf_set_datalen len b = b\<lparr>buflen := len\<rparr>"

definition packetbuf_copyfrom :: "u8 list \<Rightarrow> u16 \<Rightarrow> packetbuf \<Rightarrow> (u16 \<times> packetbuf) option" where
  "packetbuf_copyfrom src len b = do {
     let b = packetbuf_clear b;
     let l = min (of_nat PACKETBUF_SIZE) len;
     m \<leftarrow> memcpy_at (pb_mem b) 0 src (unat l);
     Some (l, b\<lparr>pb_mem := m, buflen := l\<rparr>) }"

text \<open>The copy to a buffer large enough: the header bytes, then the data bytes.\<close>

definition packetbuf_copyto :: "u8 list \<Rightarrow> packetbuf \<Rightarrow> (int \<times> u8 list) option" where
  "packetbuf_copyto dst b =
     (if uint (hdrlen b) + uint (buflen b) > int PACKETBUF_SIZE then Some (0, dst)
      else do {
        dst \<leftarrow> memcpy_at dst 0 (drop (packetbuf_hdrptr b) (pb_mem b)) (unat (hdrlen b));
        dst \<leftarrow> memcpy_at dst (unat (hdrlen b)) (drop (packetbuf_dataptr b) (pb_mem b)) (unat (buflen b));
        Some (uint (hdrlen b) + uint (buflen b), dst) })"

definition packetbuf_hdralloc :: "int \<Rightarrow> packetbuf \<Rightarrow> (bool \<times> packetbuf) option" where
  "packetbuf_hdralloc sz b =
     (if sz + uint (packetbuf_totlen b) > int PACKETBUF_SIZE then Some (False, b)
      else do {
        m \<leftarrow> loopM (\<lambda>i m. do { v \<leftarrow> rd m i; wri m (int i + sz) v })
               (rev [0..<unat (packetbuf_totlen b)]) (pb_mem b);
        Some (True, b\<lparr>pb_mem := m, hdrlen := hdrlen b + word_of_int sz\<rparr>) })"

definition packetbuf_hdrreduce :: "int \<Rightarrow> packetbuf \<Rightarrow> bool \<times> packetbuf" where
  "packetbuf_hdrreduce sz b =
     (if uint (buflen b) < sz then (False, b)
      else (True, b\<lparr>bufptr := bufptr b + word_of_int sz, buflen := buflen b - word_of_int sz\<rparr>))"

definition packetbuf_attr_copyto :: "packetbuf \<Rightarrow> u16 list \<times> linkaddr list" where
  "packetbuf_attr_copyto b = (packetbuf_attrs b, packetbuf_addrs b)"

definition packetbuf_attr_copyfrom :: "u16 list \<Rightarrow> linkaddr list \<Rightarrow> packetbuf \<Rightarrow> packetbuf" where
  "packetbuf_attr_copyfrom attrs addrs b = b\<lparr>packetbuf_attrs := attrs, packetbuf_addrs := addrs\<rparr>"

definition packetbuf_set_attr :: "nat \<Rightarrow> u16 \<Rightarrow> packetbuf \<Rightarrow> packetbuf option" where
  "packetbuf_set_attr t v b = do {
     as \<leftarrow> wr (packetbuf_attrs b) t v;
     Some (b\<lparr>packetbuf_attrs := as\<rparr>) }"

definition packetbuf_attr :: "packetbuf \<Rightarrow> nat \<Rightarrow> u16 option" where
  "packetbuf_attr b t = rd (packetbuf_attrs b) t"

definition packetbuf_set_addr :: "nat \<Rightarrow> linkaddr \<Rightarrow> packetbuf \<Rightarrow> packetbuf option" where
  "packetbuf_set_addr t a b = do {
     as \<leftarrow> wri (packetbuf_addrs b) (int t - int PACKETBUF_ADDR_FIRST) (linkaddr_copy a);
     Some (b\<lparr>packetbuf_addrs := as\<rparr>) }"

definition packetbuf_addr :: "packetbuf \<Rightarrow> nat \<Rightarrow> linkaddr option" where
  "packetbuf_addr b t = rdi (packetbuf_addrs b) (int t - int PACKETBUF_ADDR_FIRST)"

definition packetbuf_holds_broadcast :: "packetbuf \<Rightarrow> bool option" where
  "packetbuf_holds_broadcast b = do {
     a \<leftarrow> packetbuf_addr b PACKETBUF_ADDR_RECEIVER;
     Some (linkaddr_cmp a linkaddr_null) }"

section \<open>Lemmas\<close>

text \<open>The buffer has its declared size, and what it holds fits.\<close>

definition pb_ok :: "packetbuf \<Rightarrow> bool" where
  "pb_ok b \<longleftrightarrow> length (pb_mem b) = PACKETBUF_SIZE
     \<and> length (packetbuf_attrs b) = PACKETBUF_NUM_ATTRS
     \<and> length (packetbuf_addrs b) = PACKETBUF_NUM_ADDRS
     \<and> unat (bufptr b) + unat (hdrlen b) + unat (buflen b) \<le> PACKETBUF_SIZE"

lemma pb_ok_clear:
  "length (pb_mem b) = PACKETBUF_SIZE \<Longrightarrow> pb_ok (packetbuf_clear b)"
  by (simp add: pb_ok_def packetbuf_clear_def packetbuf_attr_clear_def)

lemma pb_lengths:
  assumes "pb_ok b"
  shows "unat (packetbuf_hdrlen b) = unat (bufptr b) + unat (hdrlen b)"
    and "unat (packetbuf_totlen b) = unat (bufptr b) + unat (hdrlen b) + unat (buflen b)"
    and "unat (packetbuf_remaininglen b)
       = PACKETBUF_SIZE - (unat (bufptr b) + unat (hdrlen b) + unat (buflen b))"
proof -
  have le: "unat (bufptr b) + unat (hdrlen b) + unat (buflen b) \<le> 128"
    using assms by (simp add: pb_ok_def PACKETBUF_SIZE_def)
  have "unat (bufptr b + ucast (hdrlen b)) = unat (bufptr b) + unat (hdrlen b)"
    using le by (simp add: unat_word_ariths)
  then show h: "unat (packetbuf_hdrlen b) = unat (bufptr b) + unat (hdrlen b)"
    using le by (simp add: packetbuf_hdrlen_def unsigned_ucast_eq take_bit_nat_eq_self)
  then show t: "unat (packetbuf_totlen b) = unat (bufptr b) + unat (hdrlen b) + unat (buflen b)"
    using le by (simp add: packetbuf_totlen_def packetbuf_datalen_def unat_word_ariths)
  then have "packetbuf_totlen b \<le> 128"
    using le by (simp add: word_le_nat_alt)
  from unat_minus_word [OF this] show "unat (packetbuf_remaininglen b)
       = PACKETBUF_SIZE - (unat (bufptr b) + unat (hdrlen b) + unat (buflen b))"
    by (simp add: packetbuf_remaininglen_def PACKETBUF_SIZE_def t)
qed

lemma shift_right:
  assumes "n + k \<le> length m"
  shows "loopM (\<lambda>i m. do { v \<leftarrow> rd m i; wri m (int i + int k) v }) (rev [0..<n]) m
       = Some (take k m @ take n m @ drop (n + k) m)"
  using assms
proof (induction n arbitrary: m)
  case 0
  then show ?case by simp
next
  case (Suc n)
  let ?m = "m[n + k := m ! n]"
  have "wri m (int n + int k) (m ! n) = Some ?m"
    using Suc.prems wri_of_nat [of "n + k" m "m ! n"] by simp
  then have "loopM (\<lambda>i m. do { v \<leftarrow> rd m i; wri m (int i + int k) v }) (rev [0..<Suc n]) m
      = loopM (\<lambda>i m. do { v \<leftarrow> rd m i; wri m (int i + int k) v }) (rev [0..<n]) ?m"
    using Suc.prems by simp
  also have "\<dots> = Some (take k ?m @ take n ?m @ drop (n + k) ?m)"
    using Suc.prems by (intro Suc.IH) simp
  also have "take k ?m = take k m"
    by simp
  also have "take n ?m = take n m"
    by simp
  also have "drop (n + k) ?m = m ! n # drop (Suc n + k) m"
    using Suc.prems by (simp add: Cons_nth_drop_Suc [symmetric])
  finally show ?case
    using Suc.prems by (simp add: take_Suc_conv_app_nth)
qed

lemma hdralloc_run:
  assumes "pb_ok b" and "bufptr b = 0" and "k + unat (hdrlen b) + unat (buflen b) \<le> PACKETBUF_SIZE"
  defines "n \<equiv> unat (hdrlen b) + unat (buflen b)"
  shows "packetbuf_hdralloc (int k) b = Some (True,
     b\<lparr>pb_mem := take k (pb_mem b) @ take n (pb_mem b) @ drop (n + k) (pb_mem b),
       hdrlen := hdrlen b + of_nat k\<rparr>)"
proof -
  have t: "unat (packetbuf_totlen b) = n"
    using pb_lengths(2) [OF assms(1)] assms(2) by (simp add: n_def)
  have "int k + int (unat (packetbuf_totlen b)) \<le> int PACKETBUF_SIZE"
    unfolding t n_def using assms(3) by linarith
  moreover have "n + k \<le> length (pb_mem b)"
    using assms(1,3) by (simp add: n_def pb_ok_def)
  ultimately show ?thesis
    unfolding packetbuf_hdralloc_def uint_unat [of "packetbuf_totlen b"] t
    by (simp add: shift_right)
qed

lemma pb_ok_hdrreduce:
  assumes "pb_ok b" and "0 \<le> sz" and "packetbuf_hdrreduce sz b = (True, b')"
  shows "pb_ok b'" and "unat (bufptr b') = unat (bufptr b) + nat sz"
    and "unat (buflen b') = unat (buflen b) - nat sz"
proof -
  obtain k where k: "sz = int k"
    using assms(2) by (metis nonneg_int_cases)
  have "int k \<le> int (unat (buflen b))"
    using assms(3) by (simp add: packetbuf_hdrreduce_def k split: if_splits)
  then have le: "k \<le> unat (buflen b)"
    by linarith
  have le128: "unat (bufptr b) + unat (hdrlen b) + unat (buflen b) \<le> 128"
    using assms(1) by (simp add: pb_ok_def PACKETBUF_SIZE_def)
  have u: "unat (of_nat k :: u16) = k"
    using le le128 by (simp add: unsigned_of_nat take_bit_nat_eq_self)
  then have "of_nat k \<le> buflen b"
    using le by (simp add: word_le_nat_alt)
  from unat_minus_word [OF this] show l: "unat (buflen b') = unat (buflen b) - nat sz"
    using assms(3) u by (auto simp: packetbuf_hdrreduce_def k split: if_splits)
  show p: "unat (bufptr b') = unat (bufptr b) + nat sz"
    using assms(3) u le le128
    by (auto simp: packetbuf_hdrreduce_def k unat_word_ariths split: if_splits)
  show "pb_ok b'"
    using assms(1,3) l p le by (auto simp: packetbuf_hdrreduce_def pb_ok_def k split: if_splits)
qed

end
