(* ===== verification/Framer802154.thy ===== *)
theory Framer802154
  imports Packetbuf
begin

text \<open>
  os/net/mac/framer/framer-802154.c: the framer of the stack, which adds the header to the packet
  buffer and takes it off, in the build the scheduler runs in: frame version 2015, no link-layer
  security, sequence numbers not suppressed. The static variables are the fields of mac; the value
  of random-rand is an argument.
\<close>

section \<open>Definitions\<close>

record mac =
  mac_pan_id :: u16
  mac_dsn :: u8
  initialized :: bool
  pb :: packetbuf

definition FRAMER_FAILED :: int where "FRAMER_FAILED = -1"

definition FRAME802154_VERSION :: u8 where "FRAME802154_VERSION = FRAME802154_IEEE802154_2015"

definition FRAME802154_SUPPR_SEQNO :: u8 where "FRAME802154_SUPPR_SEQNO = 0"

definition framer_802154_setup_params ::
  "u16 \<Rightarrow> (nat \<Rightarrow> u16 option) \<Rightarrow> bool \<Rightarrow> frame802154_t \<Rightarrow> frame802154_t option" where
  "framer_802154_setup_params pan get_attr dest_is_broadcast params = do {
     ft \<leftarrow> get_attr PACKETBUF_ATTR_FRAME_TYPE;
     (ack, supp) \<leftarrow> (if dest_is_broadcast
        then Some (0, if FRAME802154_VERSION \<ge> FRAME802154_IEEE802154_2015 then 1 else 0)
        else do { a \<leftarrow> get_attr PACKETBUF_ATTR_MAC_ACK; Some (ucast a, FRAME802154_SUPPR_SEQNO) });
     md \<leftarrow> get_attr PACKETBUF_ATTR_MAC_METADATA;
     sq \<leftarrow> get_attr PACKETBUF_ATTR_MAC_SEQNO;
     no_src \<leftarrow> get_attr PACKETBUF_ATTR_MAC_NO_SRC_ADDR;
     no_dest \<leftarrow> get_attr PACKETBUF_ATTR_MAC_NO_DEST_ADDR;
     let long_mode = (if LINKADDR_SIZE = 2 then FRAME802154_SHORTADDRMODE else FRAME802154_LONGADDRMODE);
     let sm = (if no_src = 1 then FRAME802154_NOADDR else long_mode);
     let dm = (if no_dest = 1 then FRAME802154_NOADDR
               else if dest_is_broadcast then FRAME802154_SHORTADDRMODE else long_mode);
     Some (params\<lparr>
       fr_fcf := \<lparr>frame_type = ucast ft, security_enabled = 0, frame_pending = 0,
         ack_required = ack,
         panid_compression =
           (if sm = FRAME802154_SHORTADDRMODE \<or> dm = FRAME802154_SHORTADDRMODE then 1 else 0),
         sequence_number_suppression = supp, ie_list_present = ucast md, dest_addr_mode = dm,
         frame_version = FRAME802154_VERSION, src_addr_mode = sm\<rparr>,
       fr_seq := ucast sq,
       fr_src_pid := frame802154_get_pan_id pan,
       fr_dest_pid := frame802154_get_pan_id pan\<rparr>) }"

definition zero_frame :: frame802154_t where
  "zero_frame = \<lparr>fr_dest_addr = replicate 8 0, fr_src_addr = replicate 8 0,
     fr_fcf = \<lparr>frame_type = 0, security_enabled = 0, frame_pending = 0, ack_required = 0,
       panid_compression = 0, sequence_number_suppression = 0, ie_list_present = 0,
       dest_addr_mode = 0, frame_version = 0, src_addr_mode = 0\<rparr>,
     fr_seq = 0, fr_dest_pid = 0, fr_src_pid = 0,
     fr_aux_hdr = \<lparr>security_control = \<lparr>security_level = 0, key_id_mode = 0,
         frame_counter_suppression = 0, frame_counter_size = 0\<rparr>,
       frame_counter = replicate 4 0, key_source = replicate 8 0, key_index = 0\<rparr>,
     fr_payload = 0, fr_payload_len = 0\<rparr>"

text \<open>The sequence number a new frame takes when it has none.\<close>

definition take_seqno :: "bool \<Rightarrow> u16 \<Rightarrow> mac \<Rightarrow> mac option" where
  "take_seqno do_create random_rand m = do {
     let m = (if initialized m then m else m\<lparr>initialized := True, mac_dsn := ucast (random_rand AND 0xff)\<rparr>);
     sq \<leftarrow> packetbuf_attr (pb m) PACKETBUF_ATTR_MAC_SEQNO;
     if do_create \<and> sq = 0 then do {
       let m = (if mac_dsn m = 0 then m\<lparr>mac_dsn := mac_dsn m + 1\<rparr> else m);
       b \<leftarrow> packetbuf_set_attr PACKETBUF_ATTR_MAC_SEQNO (ucast (mac_dsn m)) (pb m);
       Some (m\<lparr>pb := b, mac_dsn := mac_dsn m + 1\<rparr>) }
     else Some m }"

definition create_frame :: "bool \<Rightarrow> u16 \<Rightarrow> mac \<Rightarrow> (int \<times> mac) option" where
  "create_frame do_create random_rand m =
     (if frame802154_get_pan_id (mac_pan_id m) = 0xffff then Some (-1, m)
      else do {
        m \<leftarrow> take_seqno do_create random_rand m;
        bc \<leftarrow> packetbuf_holds_broadcast (pb m);
        params \<leftarrow> framer_802154_setup_params (mac_pan_id m) (packetbuf_attr (pb m)) bc zero_frame;
        params \<leftarrow> (if bc then Some (params\<lparr>fr_dest_addr := (fr_dest_addr params)[0 := 0xff, 1 := 0xff]\<rparr>)
          else do {
            a \<leftarrow> packetbuf_addr (pb m) PACKETBUF_ADDR_RECEIVER;
            Some (params\<lparr>fr_dest_addr := linkaddr_copy a\<rparr>) });
        a \<leftarrow> packetbuf_addr (pb m) PACKETBUF_ADDR_SENDER;
        let params = params\<lparr>fr_src_addr := linkaddr_copy a,
          fr_payload := packetbuf_dataptr (pb m), fr_payload_len := uint (packetbuf_datalen (pb m))\<rparr>;
        let (params, hdr_len) = frame802154_hdrlen False False params;
        if \<not> do_create then Some (int hdr_len, m)
        else do {
          (ok, b) \<leftarrow> packetbuf_hdralloc (int hdr_len) (pb m);
          if ok then do {
            (params, mem, n) \<leftarrow> frame802154_create False False params (drop (packetbuf_hdrptr b) (pb_mem b));
            Some (int hdr_len, m\<lparr>pb := b\<lparr>pb_mem := mem\<rparr>\<rparr>) }
          else Some (FRAMER_FAILED, m\<lparr>pb := b\<rparr>) } })"

definition hdr_length :: "u16 \<Rightarrow> mac \<Rightarrow> (int \<times> mac) option" where
  "hdr_length = create_frame False"

definition framer_create :: "u16 \<Rightarrow> mac \<Rightarrow> (int \<times> mac) option" where
  "framer_create = create_frame True"

text \<open>
  The data pointer is where the frame starts; frame is the uninitialised structure on the stack.
\<close>

definition framer_parse :: "frame802154_t \<Rightarrow> mac \<Rightarrow> (int \<times> mac) option" where
  "framer_parse frame m = do {
     (hdr_len, frame) \<leftarrow> frame802154_parse False False
        (drop (packetbuf_dataptr (pb m)) (pb_mem (pb m))) (uint (packetbuf_datalen (pb m))) frame;
     let (ok, b) = (if hdr_len = 0 then (False, pb m) else packetbuf_hdrreduce hdr_len (pb m));
     let m = m\<lparr>pb := b\<rparr>;
     if \<not> ok then Some (FRAMER_FAILED, m)
     else do {
       let f = fr_fcf frame;
       b \<leftarrow> packetbuf_set_attr PACKETBUF_ATTR_FRAME_TYPE (ucast (frame_type f)) (pb m);
       b \<leftarrow> packetbuf_set_attr PACKETBUF_ATTR_MAC_ACK (ucast (ack_required f)) b;
       let m = m\<lparr>pb := b\<rparr>;
       if dest_addr_mode f \<noteq> 0 \<and> fr_dest_pid frame \<noteq> frame802154_get_pan_id (mac_pan_id m)
          \<and> fr_dest_pid frame \<noteq> FRAME802154_BROADCASTPANDID
       then Some (FRAMER_FAILED, m)
       else do {
         b \<leftarrow> (if dest_addr_mode f \<noteq> 0 then do {
             bc \<leftarrow> frame802154_is_broadcast_addr (dest_addr_mode f) (fr_dest_addr frame);
             if bc then Some b
             else packetbuf_set_addr PACKETBUF_ADDR_RECEIVER (fr_dest_addr frame) b }
           else Some b);
         b \<leftarrow> packetbuf_set_addr PACKETBUF_ADDR_SENDER (fr_src_addr frame) b;
         b \<leftarrow> packetbuf_set_attr PACKETBUF_ATTR_MAC_SEQNO
               (if sequence_number_suppression f = 0 then ucast (fr_seq frame) else 0xffff) b;
         Some (hdr_len, m\<lparr>pb := b\<rparr>) } } }"


section \<open>Where the two directions disagree\<close>

text \<open>
  A frame without addresses and with PAN ID compression announces a destination PAN identifier: the
  header is created with it (five bytes here) and parsed without it (three), so the payload starts
  two bytes early for the receiver.
\<close>

definition pan_only_frame :: frame802154_t where
  "pan_only_frame = zero_frame\<lparr>fr_fcf := \<lparr>frame_type = 2, security_enabled = 0, frame_pending = 0,
     ack_required = 0, panid_compression = 1, sequence_number_suppression = 0, ie_list_present = 0,
     dest_addr_mode = 0, frame_version = 2, src_addr_mode = 0\<rparr>, fr_dest_pid := 0xABCD\<rparr>"

lemma pan_without_address:
  "\<exists>p buf pf. frame802154_create False False pan_only_frame (replicate 10 0) = Some (p, buf, 5)
     \<and> frame802154_parse False False buf 10 zero_frame = Some (3, pf)"
proof -
  have "frame802154_create False False pan_only_frame (replicate 10 0)
      = Some (pan_only_frame, [0x42, 0x20, 0, 0xCD, 0xAB, 0, 0, 0, 0, 0], 5)"
    by code_simp
  moreover have "map_option fst (frame802154_parse False False
      [0x42, 0x20, 0, 0xCD, 0xAB, 0, 0, 0, 0, 0] 10 zero_frame) = Some 3"
    by code_simp
  ultimately show ?thesis by auto
qed

text \<open>
  The parser takes the frame counter suppression bit without masking it: the size bit above it makes
  the field non-zero, and a counter that was sent is not read.
\<close>

definition long_counter_frame :: frame802154_t where
  "long_counter_frame = zero_frame\<lparr>fr_fcf := \<lparr>frame_type = 1, security_enabled = 1, frame_pending = 0,
       ack_required = 0, panid_compression = 0, sequence_number_suppression = 0, ie_list_present = 0,
       dest_addr_mode = 0, frame_version = 2, src_addr_mode = 0\<rparr>,
     fr_aux_hdr := \<lparr>security_control = \<lparr>security_level = 5, key_id_mode = 0,
         frame_counter_suppression = 0, frame_counter_size = 1\<rparr>,
       frame_counter = [1, 2, 3, 4], key_source = replicate 8 0, key_index = 0\<rparr>\<rparr>"

lemma long_counter_lost:
  "\<exists>p buf pf. frame802154_create True False long_counter_frame (replicate 12 0) = Some (p, buf, 9)
     \<and> frame802154_parse True False buf 12 zero_frame = Some (4, pf)
     \<and> frame_counter (fr_aux_hdr pf) = [0, 0, 0, 0]"
proof -
  have "frame802154_create True False long_counter_frame (replicate 12 0)
      = Some (long_counter_frame, [0x09, 0x20, 0, 0x45, 1, 2, 3, 4, 0, 0, 0, 0], 9)"
    by code_simp
  moreover have "map_option (\<lambda>(r, pf). (r, frame_counter (fr_aux_hdr pf))) (frame802154_parse True False
      [0x09, 0x20, 0, 0x45, 1, 2, 3, 4, 0, 0, 0, 0] 12 zero_frame) = Some (4, [0, 0, 0, 0])"
    by code_simp
  ultimately show ?thesis by (auto split: prod.splits)
qed

text \<open>
  A hopping sequence element with identifier zero needs three bytes by its own check, but eleven
  bytes after them are written as well.
\<close>

lemma hopping_element_overruns:
  "frame80215e_create_ie_tsch_channel_hopping_sequence (replicate 13 7) 3 (Some (zero_ies 4)) = None"
  "\<exists>buf. frame80215e_create_ie_tsch_channel_hopping_sequence (replicate 15 7) 3 (Some (zero_ies 4))
     = Some (3, buf) \<and> drop 3 buf = replicate 11 0 @ [7]"
proof -
  show "frame80215e_create_ie_tsch_channel_hopping_sequence (replicate 13 7) 3 (Some (zero_ies 4)) = None"
    by code_simp
  have "map_option (\<lambda>(r, b). (r, drop 3 b)) (frame80215e_create_ie_tsch_channel_hopping_sequence
      (replicate 15 7) 3 (Some (zero_ies 4))) = Some (3, replicate 11 0 @ [7])"
    by code_simp
  then show "\<exists>buf. frame80215e_create_ie_tsch_channel_hopping_sequence (replicate 15 7) 3 (Some (zero_ies 4))
     = Some (3, buf) \<and> drop 3 buf = replicate 11 0 @ [7]"
    by (auto split: prod.splits)
qed

text \<open>
  With 6top compiled in, the length of an IETF element is not compared with the bytes that are left:
  a frame of six bytes sends the parser past its end.
\<close>

lemma ietf_element_unchecked:
  "frame802154e_parse_information_elements True
     (le16 (header_desc HEADER_IE_LIST_TERMINATION_1 0) @ le16 (long_desc PAYLOAD_IE_IETF 100) @ [0xc9, 0])
     6 (Some (zero_ies 4)) = None"
  by code_simp

end
