(* ===== verification/Tsch_Packet.thy ===== *)
theory Tsch_Packet
  imports Framer802154 Tsch_Schedule
begin

text \<open>
  os/net/mac/tsch/tsch-packet.c: the enhanced beacons and the enhanced acknowledgements of TSCH,
  created and parsed, in a build without link-layer security. The three options that put more
  elements into a beacon are a record of flags; acknowledgements carry the destination address and
  not the source address, as by default. Structures that C leaves uninitialised on the stack are
  arguments.
\<close>

section \<open>Attributes of an acknowledgement\<close>

definition tsch_packet_eackbuf_set_attr :: "nat \<Rightarrow> u16 \<Rightarrow> u16 list \<Rightarrow> u16 list option" where
  "tsch_packet_eackbuf_set_attr t v eackbuf_attrs = wr eackbuf_attrs t v"

definition tsch_packet_eackbuf_attr :: "u16 list \<Rightarrow> nat \<Rightarrow> u16 option" where
  "tsch_packet_eackbuf_attr eackbuf_attrs t = rd eackbuf_attrs t"

section \<open>Enhanced acknowledgements\<close>

text \<open>
  The longest hopping sequence of the build is n. The result is the returned length and the buffer;
  the memset beyond the end of the buffer is None.
\<close>

definition tsch_packet_create_eack ::
  "nat \<Rightarrow> u16 \<Rightarrow> frame802154_t \<Rightarrow> u8 list option \<Rightarrow> u16 \<Rightarrow> linkaddr option \<Rightarrow> u8 \<Rightarrow> u16 \<Rightarrow> u8 \<Rightarrow>
   (int \<times> u8 list option) option" where
  "tsch_packet_create_eack n pan params buf buf_len dest_addr seqno drift nack = (case buf of
     None \<Rightarrow> Some (-1, None)
   | Some buf \<Rightarrow> do {
       let attrs = replicate PACKETBUF_NUM_ATTRS 0;
       attrs \<leftarrow> tsch_packet_eackbuf_set_attr PACKETBUF_ATTR_FRAME_TYPE (ucast FRAME802154_ACKFRAME) attrs;
       attrs \<leftarrow> tsch_packet_eackbuf_set_attr PACKETBUF_ATTR_MAC_METADATA 1 attrs;
       attrs \<leftarrow> tsch_packet_eackbuf_set_attr PACKETBUF_ATTR_MAC_SEQNO (ucast seqno) attrs;
       attrs \<leftarrow> tsch_packet_eackbuf_set_attr PACKETBUF_ATTR_MAC_NO_DEST_ADDR 1 attrs;
       (attrs, params) \<leftarrow> (case dest_addr of
           None \<Rightarrow> Some (attrs, params)
         | Some a \<Rightarrow> do {
             attrs \<leftarrow> tsch_packet_eackbuf_set_attr PACKETBUF_ATTR_MAC_NO_DEST_ADDR 0 attrs;
             Some (attrs, params\<lparr>fr_dest_addr := linkaddr_copy a\<rparr>) });
       attrs \<leftarrow> tsch_packet_eackbuf_set_attr PACKETBUF_ATTR_MAC_NO_SRC_ADDR 1 attrs;
       params \<leftarrow> framer_802154_setup_params pan (tsch_packet_eackbuf_attr attrs) False params;
       let (params, hdr_len) = frame802154_hdrlen False False params;
       buf \<leftarrow> memcpy_at buf 0 (replicate (unat buf_len) 0) (unat buf_len);
       let ies = (zero_ies n)\<lparr>ie_time_correction := drift, ie_is_nack := nack\<rparr>;
       (ack_len, tl_buf) \<leftarrow> frame80215e_create_ie_header_ack_nack_time_correction (drop hdr_len buf)
           (uint buf_len - int hdr_len) (Some ies);
       let buf = take hdr_len buf @ tl_buf;
       if ack_len < 0 then Some (-1, Some buf)
       else do {
         (params, buf, k) \<leftarrow> frame802154_create False False params buf;
         Some (ack_len + int hdr_len, Some buf) } })"

text \<open>
  What both parsers do after the header: clear the structure, parse the elements if there are any,
  and add the offset of the payload elements to the length of the header. The last result is the
  value behind the pointer hdr-len.
\<close>

definition parse_ies_after ::
  "bool \<Rightarrow> u8 list \<Rightarrow> int \<Rightarrow> u8 \<Rightarrow> frame802154_t \<Rightarrow> ieee802154_ies option \<Rightarrow> u8 option \<Rightarrow>
   (int \<times> frame802154_t \<times> ieee802154_ies option \<times> u8 option) option" where
  "parse_ies_after sixtop buf bsz curr_len frame ies hdr_len = do {
     r \<leftarrow> (if ie_list_present (fr_fcf frame) \<noteq> 0 then do {
           (ret, ies) \<leftarrow> frame802154e_parse_information_elements sixtop (drop (unat curr_len) buf)
               (word_of_int (bsz - uint curr_len)) ies;
           Some (if ret = -1 then Inl ies else Inr (curr_len + word_of_int ret, ies)) }
         else Some (Inr (curr_len, ies)));
     case r of
       Inl ies \<Rightarrow> Some (0, frame, ies, hdr_len)
     | Inr (curr_len, ies) \<Rightarrow>
         (case hdr_len of
            None \<Rightarrow> Some (uint curr_len, frame, ies, None)
          | Some h \<Rightarrow> do {
              i \<leftarrow> ies;
              Some (uint curr_len, frame, ies, Some (h + ie_payload_ie_offset i)) }) }"

definition tsch_packet_parse_eack ::
  "bool \<Rightarrow> nat \<Rightarrow> u16 \<Rightarrow> linkaddr \<Rightarrow> u8 list \<Rightarrow> int \<Rightarrow> u8 \<Rightarrow> frame802154_t \<Rightarrow> ieee802154_ies option \<Rightarrow>
   u8 option \<Rightarrow> (int \<times> frame802154_t \<times> ieee802154_ies option \<times> u8 option) option" where
  "tsch_packet_parse_eack sixtop n pan node_addr buf bsz seqno frame ies hdr_len =
     (if bsz < 0 then Some (0, frame, ies, hdr_len)
      else do {
        (ret, frame) \<leftarrow> frame802154_parse False False buf bsz frame;
        if ret < 3 then Some (0, frame, ies, hdr_len)
        else do {
          let hdr_len = map_option (\<lambda>_. word_of_int ret) hdr_len;
          let curr_len = word_of_int ret;
          if seqno \<noteq> fr_seq frame then Some (0, frame, ies, hdr_len)
          else if \<not> frame802154_check_dest_panid pan (Some frame) then Some (0, frame, ies, hdr_len)
          else do {
            (ok, _, dest) \<leftarrow> frame802154_extract_linkaddr (Some frame);
            if \<not> ok \<or> \<not> linkaddr_cmp (the dest) node_addr \<and> \<not> linkaddr_cmp (the dest) linkaddr_null
            then Some (0, frame, ies, hdr_len)
            else parse_ies_after sixtop buf bsz curr_len frame
                   (map_option (\<lambda>_. zero_ies n) ies) hdr_len } } })"

section \<open>Enhanced beacons\<close>

record eb_conf =
  with_timeslot_timing :: bool
  with_hopping_sequence :: bool
  with_slotframe_and_link :: bool

record eb_env =
  env_max_hopping :: nat
  env_timing_us :: "u16 list"
  env_hop_len :: u16
  env_hop_seq :: "u8 list"
  env_sched :: sched
  env_node_addr :: linkaddr

definition eb_ies_timing :: "eb_conf \<Rightarrow> eb_env \<Rightarrow> ieee802154_ies \<Rightarrow> ieee802154_ies option" where
  "eb_ies_timing c e ies =
     (if with_timeslot_timing c then do {
        let ies = ies\<lparr>ie_tsch_timeslot_id := 1\<rparr>;
        ts \<leftarrow> for_upt 0 tsch_ts_elements_count (\<lambda>i ts. do {
            t \<leftarrow> rd (env_timing_us e) i;
            wr ts i t }) (ie_tsch_timeslot ies);
        Some (ies\<lparr>ie_tsch_timeslot := ts\<rparr>) }
      else Some ies)"

definition eb_ies_hopping :: "eb_conf \<Rightarrow> eb_env \<Rightarrow> ieee802154_ies \<Rightarrow> ieee802154_ies option" where
  "eb_ies_hopping c e ies =
     (if with_hopping_sequence c \<and> unat (env_hop_len e) \<le> length (ie_hopping_sequence_list ies) then do {
        ls \<leftarrow> memcpy_at (ie_hopping_sequence_list ies) 0 (env_hop_seq e) (unat (env_hop_len e));
        Some (ies\<lparr>ie_channel_hopping_sequence_id := 1, ie_hopping_sequence_len := env_hop_len e,
                  ie_hopping_sequence_list := ls\<rparr>) }
      else Some ies)"

definition eb_ies_slotframe :: "eb_conf \<Rightarrow> eb_env \<Rightarrow> ieee802154_ies \<Rightarrow> ieee802154_ies option" where
  "eb_ies_slotframe c e ies =
     (if with_slotframe_and_link c then do {
        let s = env_sched e;
        let sf0 = tsch_schedule_get_slotframe_by_handle 0 s;
        let link0 = tsch_schedule_get_link_by_timeslot sf0 0 0 s;
        case (sf0, link0) of
          (Some sf, Some l) \<Rightarrow> do {
            ls \<leftarrow> wr (sl_links (ie_tsch_slotframe_and_link ies)) 0
              \<lparr>ie_timeslot = l_timeslot (link_at s l), ie_channel_offset = l_choff (link_at s l),
               ie_link_options = l_options (link_at s l)\<rparr>;
            Some (ies\<lparr>ie_tsch_slotframe_and_link := \<lparr>sl_num_slotframes = 1,
              sl_handle = ucast (sf_handle (sf_at s sf)), sl_size = val (sf_size (sf_at s sf)),
              sl_num_links = 1, sl_links = ls\<rparr>\<rparr>) }
        | _ \<Rightarrow> Some ies }
      else Some ies)"

text \<open>
  One element appended at the pointer p of the packet buffer, the data length growing with it. A
  failure is Inl of the buffer.
\<close>

definition eb_append ::
  "(u8 list \<Rightarrow> int \<Rightarrow> ieee802154_ies option \<Rightarrow> (int \<times> u8 list) option) \<Rightarrow> ieee802154_ies \<Rightarrow>
   packetbuf + nat \<times> packetbuf \<Rightarrow> (packetbuf + nat \<times> packetbuf) option" where
  "eb_append create_ie ies w = (case w of
     Inl b \<Rightarrow> Some (Inl b)
   | Inr (p, b) \<Rightarrow> do {
       (ie_len, mem) \<leftarrow> create_ie (drop p (pb_mem b)) (uint (packetbuf_remaininglen b)) (Some ies);
       let b = b\<lparr>pb_mem := take p (pb_mem b) @ mem\<rparr>;
       Some (if ie_len < 0 then Inl b
             else Inr (p + nat ie_len,
                       packetbuf_set_datalen (packetbuf_datalen b + word_of_int ie_len) b)) })"

text \<open>The result: the returned length, the two lengths behind the pointers, and the state.\<close>

definition tsch_packet_create_eb ::
  "eb_conf \<Rightarrow> eb_env \<Rightarrow> u16 \<Rightarrow> mac \<Rightarrow> (int \<times> (u8 \<times> u8) option \<times> mac) option" where
  "tsch_packet_create_eb c e random_rand m = do {
     let b = packetbuf_clear (pb m);
     ies \<leftarrow> eb_ies_timing c e (zero_ies (env_max_hopping e));
     ies \<leftarrow> eb_ies_hopping c e ies;
     ies \<leftarrow> eb_ies_slotframe c e ies;
     w \<leftarrow> eb_append frame80215e_create_ie_tsch_synchronization ies (Inr (packetbuf_dataptr b, b));
     w \<leftarrow> eb_append frame80215e_create_ie_tsch_timeslot ies w;
     w \<leftarrow> eb_append frame80215e_create_ie_tsch_channel_hopping_sequence ies w;
     w \<leftarrow> eb_append frame80215e_create_ie_tsch_slotframe_and_link ies w;
     case w of
       Inl b \<Rightarrow> Some (-1, None, m\<lparr>pb := b\<rparr>)
     | Inr (p, b) \<Rightarrow> do {
         let ies = ies\<lparr>ie_mlme_len := packetbuf_datalen b\<rparr>;
         let d = packetbuf_dataptr b;
         mem \<leftarrow> memcpy_at (pb_mem b) (d + 2) (drop d (pb_mem b)) (unat (packetbuf_datalen b));
         let b = packetbuf_set_datalen (packetbuf_datalen b + 2) (b\<lparr>pb_mem := mem\<rparr>);
         (ie_len, mem) \<leftarrow> frame80215e_create_ie_mlme (drop (packetbuf_dataptr b) (pb_mem b))
             (uint (packetbuf_remaininglen b)) (Some ies);
         let b = b\<lparr>pb_mem := take (packetbuf_dataptr b) (pb_mem b) @ mem\<rparr>;
         if ie_len < 0 then Some (-1, None, m\<lparr>pb := b\<rparr>)
         else do {
           (_, b) \<leftarrow> packetbuf_hdralloc 2 b;
           (ie_len, mem) \<leftarrow> frame80215e_create_ie_header_list_termination_1
               (drop (packetbuf_hdrptr b) (pb_mem b)) (uint (packetbuf_remaininglen b)) (Some ies);
           let b = b\<lparr>pb_mem := mem\<rparr>;
           if ie_len < 0 then Some (-1, None, m\<lparr>pb := b\<rparr>)
           else do {
             b \<leftarrow> packetbuf_set_attr PACKETBUF_ATTR_FRAME_TYPE (ucast FRAME802154_BEACONFRAME) b;
             b \<leftarrow> packetbuf_set_attr PACKETBUF_ATTR_MAC_METADATA 1 b;
             b \<leftarrow> packetbuf_set_addr PACKETBUF_ADDR_SENDER (env_node_addr e) b;
             b \<leftarrow> packetbuf_set_addr PACKETBUF_ADDR_RECEIVER tsch_eb_address b;
             (r, m) \<leftarrow> framer_create random_rand (m\<lparr>pb := b\<rparr>);
             Some (if r < 0 then (-1, None, m)
               else (uint (packetbuf_totlen (pb m)),
                     Some (packetbuf_hdrlen (pb m), packetbuf_hdrlen (pb m) + 2), m)) } } } }"

definition tsch_packet_update_eb ::
  "tsch_asn_t \<Rightarrow> u8 \<Rightarrow> ieee802154_ies \<Rightarrow> u8 list \<Rightarrow> int \<Rightarrow> u8 \<Rightarrow> (bool \<times> u8 list) option" where
  "tsch_packet_update_eb tsch_current_asn tsch_join_priority ies buf bsz tsch_sync_ie_offset = do {
     let ies = ies\<lparr>ie_asn := tsch_current_asn, ie_join_priority := tsch_join_priority\<rparr>;
     (r, tl_buf) \<leftarrow> frame80215e_create_ie_tsch_synchronization (drop (unat tsch_sync_ie_offset) buf)
        (bsz - uint tsch_sync_ie_offset) (Some ies);
     Some (r \<noteq> -1, take (unat tsch_sync_ie_offset) buf @ tl_buf) }"

definition tsch_packet_parse_eb ::
  "bool \<Rightarrow> nat \<Rightarrow> u8 list \<Rightarrow> int \<Rightarrow> frame802154_t \<Rightarrow> ieee802154_ies option \<Rightarrow> u8 option \<Rightarrow>
   (int \<times> frame802154_t \<times> ieee802154_ies option \<times> u8 option) option" where
  "tsch_packet_parse_eb sixtop n buf bsz frame ies hdr_len =
     (if bsz < 0 then Some (0, frame, ies, hdr_len)
      else do {
        (ret, frame) \<leftarrow> frame802154_parse False False buf bsz frame;
        if ret = 0 then Some (0, frame, ies, hdr_len)
        else if frame_version (fr_fcf frame) < FRAME802154_IEEE802154_2015
             \<or> frame_type (fr_fcf frame) \<noteq> FRAME802154_BEACONFRAME
        then Some (0, frame, ies, hdr_len)
        else parse_ies_after sixtop buf bsz (word_of_int ret) frame
               (map_option (\<lambda>_. (zero_ies n)\<lparr>ie_join_priority := 0xff\<rparr>) ies)
               (map_option (\<lambda>_. word_of_int ret) hdr_len) })"

section \<open>The frame pending bit\<close>

definition tsch_packet_set_frame_pending :: "u8 list \<Rightarrow> u8 list option" where
  "tsch_packet_set_frame_pending buf = do { b \<leftarrow> rd buf 0; wr buf 0 (b OR push_bit 4 1) }"

definition tsch_packet_get_frame_pending :: "u8 list \<Rightarrow> u8 option" where
  "tsch_packet_get_frame_pending buf = do { b \<leftarrow> rd buf 0; Some (drop_bit 4 b AND 1) }"


section \<open>The elements of a beacon\<close>

text \<open>
  The structure a beacon is built from: its arrays have their lengths, what is beyond the used part
  of an array is zero, and there is at most one slotframe with at most one link.
\<close>

definition eb_like :: "nat \<Rightarrow> ieee802154_ies \<Rightarrow> bool" where
  "eb_like n j \<longleftrightarrow> ies_ok n j \<and> slotframe_ok j
     \<and> unat (sl_num_links (ie_tsch_slotframe_and_link j)) \<le> 1
     \<and> (let sl = ie_tsch_slotframe_and_link j; z = ie_tsch_slotframe_and_link (zero_ies n);
            k = unat (sl_num_links sl)
        in (sl_num_slotframes sl = 0 \<longrightarrow> sl = z) \<and> drop k (sl_links sl) = drop k (sl_links z))
     \<and> (ie_tsch_timeslot_id j = 0 \<longrightarrow> ie_tsch_timeslot j = ie_tsch_timeslot (zero_ies n))
     \<and> unat (ie_hopping_sequence_len j) \<le> n
     \<and> (ie_channel_hopping_sequence_id j = 0 \<longrightarrow> ie_hopping_sequence_len j = 0)
     \<and> drop (unat (ie_hopping_sequence_len j)) (ie_hopping_sequence_list j)
       = drop (unat (ie_hopping_sequence_len j)) (replicate n 0)"

definition eb_env_ok :: "eb_env \<Rightarrow> bool" where
  "eb_env_ok e \<longleftrightarrow> length (env_timing_us e) = tsch_ts_elements_count
     \<and> length (env_hop_seq e) = env_max_hopping e \<and> env_max_hopping e \<le> 40
     \<and> unat (env_hop_len e) \<le> env_max_hopping e \<and> length (env_node_addr e) = 8"

text \<open>The rest of the structure, which the three options leave at zero.\<close>

definition eb_rest :: "ieee802154_ies \<Rightarrow> bool" where
  "eb_rest j \<longleftrightarrow> ie_time_correction j = 0 \<and> ie_is_nack j = 0 \<and> ie_payload_ie_offset j = 0
     \<and> ie_mlme_len j = 0 \<and> ie_tsch_synchronization_offset j = 0 \<and> ie_asn j = \<lparr>ls4b = 0, ms1b = 0\<rparr>
     \<and> ie_join_priority j = 0 \<and> sixtop_ie_content_ptr j = None \<and> sixtop_ie_content_len j = 0"

lemma eb_like_zero: "eb_like n (zero_ies n)"
  by (simp add: eb_like_def ies_ok_def slotframe_ok_def zero_ies_def Let_def)

lemma eb_rest_zero: "eb_rest (zero_ies n)"
  by (simp add: eb_rest_def zero_ies_def)

lemma eb_ies_timing_like:
  assumes "eb_env_ok e" and "eb_like n j" and "eb_rest j"
  shows "\<exists>j'. eb_ies_timing c e j = Some j' \<and> eb_like n j' \<and> eb_rest j'"
proof (cases "with_timeslot_timing c")
  case True
  have "for_upt 0 tsch_ts_elements_count (\<lambda>i ts. do {
            t \<leftarrow> rd (env_timing_us e) i;
            wr ts i t }) (ie_tsch_timeslot j)
      = Some (env_timing_us e @ drop tsch_ts_elements_count (ie_tsch_timeslot j))"
    by (rule for_upt_fill) (use assms(1,2) in \<open>auto simp: eb_env_ok_def eb_like_def ies_ok_def\<close>)
  moreover have "drop tsch_ts_elements_count (ie_tsch_timeslot j) = []"
    using assms(2) by (simp add: eb_like_def ies_ok_def)
  ultimately show ?thesis
    using True assms
    by (simp add: eb_ies_timing_def eb_like_def ies_ok_def eb_env_ok_def slotframe_ok_def eb_rest_def)
qed (use assms in \<open>simp add: eb_ies_timing_def\<close>)

lemma eb_ies_hopping_like:
  assumes "eb_env_ok e" and "eb_like n j" and "eb_rest j" and "n = env_max_hopping e"
    and "ie_channel_hopping_sequence_id j = 0"
  shows "\<exists>j'. eb_ies_hopping c e j = Some j' \<and> eb_like n j' \<and> eb_rest j'"
proof (cases "with_hopping_sequence c")
  case True
  have l: "length (ie_hopping_sequence_list j) = n" "ie_hopping_sequence_list j = replicate n 0"
    using assms(2,5) by (auto simp: eb_like_def ies_ok_def)
  have "memcpy_at (ie_hopping_sequence_list j) 0 (env_hop_seq e) (unat (env_hop_len e))
      = Some (take (unat (env_hop_len e)) (env_hop_seq e)
              @ drop (unat (env_hop_len e)) (ie_hopping_sequence_list j))"
    using assms(1,4) l by (simp add: memcpy_at_def eb_env_ok_def)
  then show ?thesis
    using True assms l
    by (simp add: eb_ies_hopping_def eb_like_def ies_ok_def eb_env_ok_def slotframe_ok_def eb_rest_def)
qed (use assms in \<open>simp add: eb_ies_hopping_def\<close>)

lemma eb_ies_slotframe_like:
  assumes "eb_like n j" and "eb_rest j" and "sl_num_slotframes (ie_tsch_slotframe_and_link j) = 0"
  shows "\<exists>j'. eb_ies_slotframe c e j = Some j' \<and> eb_like n j' \<and> eb_rest j'"
proof -
  let ?s = "env_sched e"
  let ?sf = "tsch_schedule_get_slotframe_by_handle 0 ?s"
  let ?l = "tsch_schedule_get_link_by_timeslot ?sf 0 0 ?s"
  have z: "ie_tsch_slotframe_and_link j = ie_tsch_slotframe_and_link (zero_ies n)"
    using assms(1,3) by (simp add: eb_like_def Let_def)
  have zl: "sl_links (ie_tsch_slotframe_and_link (zero_ies n))
      = replicate 4 \<lparr>ie_timeslot = 0, ie_channel_offset = 0, ie_link_options = 0\<rparr>"
    by (simp add: zero_ies_def FRAME802154E_IE_MAX_LINKS_def)
  show ?thesis
  proof (cases "with_slotframe_and_link c \<and> ?sf \<noteq> None \<and> ?l \<noteq> None")
    case True
    then obtain sf l where "?sf = Some sf" "?l = Some l" by auto
    then show ?thesis
      using True assms
      by (simp add: eb_ies_slotframe_def Let_def z zl eb_like_def ies_ok_def slotframe_ok_def eb_rest_def
          FRAME802154E_IE_MAX_LINKS_def wr_def)
  next
    case False
    then show ?thesis
      using assms by (auto simp: eb_ies_slotframe_def Let_def split: option.splits)
  qed
qed

text \<open>The structure a beacon is built from.\<close>

definition eb_ies :: "eb_conf \<Rightarrow> eb_env \<Rightarrow> ieee802154_ies option" where
  "eb_ies c e = do {
     ies \<leftarrow> eb_ies_timing c e (zero_ies (env_max_hopping e));
     ies \<leftarrow> eb_ies_hopping c e ies;
     eb_ies_slotframe c e ies }"

lemma eb_ies_fields:
  "eb_ies_timing c e j = Some j' \<Longrightarrow>
     ie_channel_hopping_sequence_id j' = ie_channel_hopping_sequence_id j
     \<and> ie_tsch_slotframe_and_link j' = ie_tsch_slotframe_and_link j"
  "eb_ies_hopping c e j = Some j' \<Longrightarrow> ie_tsch_slotframe_and_link j' = ie_tsch_slotframe_and_link j"
  by (auto simp: eb_ies_timing_def eb_ies_hopping_def split: if_splits bind_splits)

lemma eb_ies_like:
  assumes "eb_env_ok e"
  shows "\<exists>j. eb_ies c e = Some j \<and> eb_like (env_max_hopping e) j \<and> eb_rest j"
proof -
  let ?n = "env_max_hopping e"
  obtain j1 where 1: "eb_ies_timing c e (zero_ies ?n) = Some j1" "eb_like ?n j1" "eb_rest j1"
    using eb_ies_timing_like [OF assms eb_like_zero eb_rest_zero] by blast
  then have f: "ie_channel_hopping_sequence_id j1 = 0"
    "sl_num_slotframes (ie_tsch_slotframe_and_link j1) = 0"
    using eb_ies_fields(1) [OF 1(1)] by (simp_all add: zero_ies_def)
  obtain j2 where 2: "eb_ies_hopping c e j1 = Some j2" "eb_like ?n j2" "eb_rest j2"
    using eb_ies_hopping_like [OF assms 1(2,3) refl f(1)] by blast
  then have "sl_num_slotframes (ie_tsch_slotframe_and_link j2) = 0"
    using eb_ies_fields(2) [OF 2(1)] f by simp
  from eb_ies_slotframe_like [OF 2(2,3) this] show ?thesis
    using 1(1) 2(1) by (simp add: eb_ies_def)
qed


section \<open>Building a beacon\<close>

text \<open>
  With the sequence identifier zero the element is one byte long, but eleven bytes after it are
  zeroed as well.
\<close>

definition hop_elem :: "ieee802154_ies \<Rightarrow> u8 list" where
  "hop_elem i = (if ie_channel_hopping_sequence_id i = 0
     then le16 (long_desc MLME_LONG_IE_TSCH_CHANNEL_HOPPING_SEQUENCE 1) @ [0]
     else hopping_bytes i)"

lemma create_hopping_zero:
  assumes "ie_channel_hopping_sequence_id i = 0" and "ie_hopping_sequence_len i = 0"
    and "3 \<le> len" and "14 \<le> length buf"
  shows "frame80215e_create_ie_tsch_channel_hopping_sequence buf len (Some i)
       = Some (3, hop_elem i @ replicate 11 0 @ drop 14 buf)"
proof -
  obtain a b c d e f g h p q r s x y where
    buf: "buf = a # b # c # d # e # f # g # h # p # q # r # s # x # y # drop 14 buf"
    using assms(4) by (auto simp: Suc_le_length_iff eval_nat_numeral)
  define zs where "zs = drop 14 buf"
  have w: "WRITE16 ([a, b, 0, 0] @ e # f # zs) 4 0 = Some ([a, b, 0, 0] @ le16 0 @ zs)"
    "WRITE16 ([a, b, 0, 0] @ le16 0 @ g # h # zs) 6 0 = Some ([a, b, 0, 0] @ le16 0 @ le16 0 @ zs)"
    "WRITE16 ([a, b, 0, 0] @ le16 0 @ le16 0 @ p # q # zs) 8 0
       = Some ([a, b, 0, 0] @ le16 0 @ le16 0 @ le16 0 @ zs)"
    "WRITE16 ([a, b, 0, 0] @ le16 0 @ le16 0 @ le16 0 @ r # s # zs) 10 0
       = Some ([a, b, 0, 0] @ le16 0 @ le16 0 @ le16 0 @ le16 0 @ zs)"
    "WRITE16 ([a, b, 0, 0] @ le16 0 @ le16 0 @ le16 0 @ le16 0 @ x # y # zs) 12 0
       = Some ([a, b, 0, 0] @ le16 0 @ le16 0 @ le16 0 @ le16 0 @ le16 0 @ zs)" for zs
    using WRITE16_mid [of 4 "[a, b, 0, 0]" e f zs 0]
      WRITE16_mid [of 6 "[a, b, 0, 0] @ le16 0" g h zs 0]
      WRITE16_mid [of 8 "[a, b, 0, 0] @ le16 0 @ le16 0" p q zs 0]
      WRITE16_mid [of 10 "[a, b, 0, 0] @ le16 0 @ le16 0 @ le16 0" r s zs 0]
      WRITE16_mid [of 12 "[a, b, 0, 0] @ le16 0 @ le16 0 @ le16 0 @ le16 0" x y zs 0]
    by simp_all
  have m: "memcpy_at ys 12 src 0 = Some ys" if "12 \<le> length ys" for ys src
    using that by (simp add: memcpy_at_def)
  have z: "le16 0 = [0, 0]"
    by (simp add: le16_def)
  show ?thesis
    unfolding buf [folded zs_def] using assms(1-3) w m
      long_desc_bytes [of a b _ MLME_LONG_IE_TSCH_CHANNEL_HOPPING_SEQUENCE 1]
    by (simp add: frame80215e_create_ie_tsch_channel_hopping_sequence_def Let_def hop_elem_def wr_def z
        eval_nat_numeral)
qed

lemma length_hop_elem:
  "eb_like n j \<Longrightarrow> length (hop_elem j) =
     (if ie_channel_hopping_sequence_id j = 0 then 3 else 14 + unat (ie_hopping_sequence_len j))"
  by (simp add: hop_elem_def length_hopping_bytes eb_like_def ies_ok_def)

lemma create_hop_elem:
  assumes "eb_like n j" and "14 + n \<le> length buf" and "int (length buf) \<le> len"
  shows "\<exists>rest. frame80215e_create_ie_tsch_channel_hopping_sequence buf len (Some j)
       = Some (int (length (hop_elem j)), hop_elem j @ rest)
     \<and> length (hop_elem j @ rest) = length buf"
proof (cases "ie_channel_hopping_sequence_id j = 0")
  case True
  then have "ie_hopping_sequence_len j = 0"
    using assms(1) by (simp add: eb_like_def)
  moreover have "3 \<le> len"
    using assms(2,3) by linarith
  ultimately show ?thesis
    using True assms(2) length_hop_elem [OF assms(1)]
    by (intro exI [of _ "replicate 11 0 @ drop 14 buf"]) (simp add: create_hopping_zero)
next
  case False
  have h: "hop_elem j = hopping_bytes j"
    using False by (simp add: hop_elem_def)
  have k: "ies_ok n j" "unat (ie_hopping_sequence_len j) \<le> n"
    using assms(1) by (simp_all add: eb_like_def)
  then have l: "length (hopping_bytes j) = 14 + unat (ie_hopping_sequence_len j)"
    by (simp add: length_hopping_bytes ies_ok_def)
  then have le: "length (hopping_bytes j) \<le> length buf"
    using k(2) assms(2) by linarith
  then have "int (length (hopping_bytes j)) \<le> len"
    using assms(3) by linarith
  then show ?thesis
    unfolding h using False k le
    by (intro exI [of _ "drop (length (hopping_bytes j)) buf"] conjI create_hopping_bytes) auto
qed

text \<open>The packet buffer while its data grows from the start.\<close>

definition growing :: "u8 list \<Rightarrow> packetbuf \<Rightarrow> bool" where
  "growing body b \<longleftrightarrow> length (pb_mem b) = PACKETBUF_SIZE \<and> bufptr b = 0 \<and> hdrlen b = 0
     \<and> buflen b = of_nat (length body) \<and> length body \<le> PACKETBUF_SIZE
     \<and> take (length body) (pb_mem b) = body
     \<and> packetbuf_attrs b = replicate PACKETBUF_NUM_ATTRS 0
     \<and> packetbuf_addrs b = replicate PACKETBUF_NUM_ADDRS linkaddr_null"

lemma growing_clear:
  "length (pb_mem b) = PACKETBUF_SIZE \<Longrightarrow> growing [] (packetbuf_clear b)"
  by (simp add: growing_def packetbuf_clear_def packetbuf_attr_clear_def linkaddr_copy_def)

lemma growing_lengths:
  assumes "growing body b"
  shows "pb_ok b" "uint (packetbuf_remaininglen b) = int (PACKETBUF_SIZE - length body)"
    "packetbuf_dataptr b = 0" "unat (buflen b) = length body"
proof -
  have b: "length body \<le> 128" "unat (of_nat (length body) :: u16) = length body"
    using assms by (simp_all add: growing_def PACKETBUF_SIZE_def unsigned_of_nat take_bit_nat_eq_self)
  then show ok: "pb_ok b"
    using assms by (simp add: growing_def pb_ok_def PACKETBUF_SIZE_def)
  show u: "unat (buflen b) = length body"
    using assms b by (simp add: growing_def)
  have "unat (packetbuf_remaininglen b) = PACKETBUF_SIZE - length body"
    using pb_lengths(3) [OF ok] assms u by (simp add: growing_def)
  then show "uint (packetbuf_remaininglen b) = int (PACKETBUF_SIZE - length body)"
    unfolding uint_unat by simp
  show "packetbuf_dataptr b = 0"
    using assms by (simp add: packetbuf_dataptr_def packetbuf_hdrlen_def growing_def)
qed

lemma eb_append_run:
  assumes "growing body b" and "length body + length bytes \<le> PACKETBUF_SIZE"
    and "create_ie (drop (length body) (pb_mem b)) (int (PACKETBUF_SIZE - length body)) (Some j)
       = Some (int (length bytes), bytes @ rest)"
    and "length (bytes @ rest) = PACKETBUF_SIZE - length body"
  shows "\<exists>b'. eb_append create_ie j (Inr (length body, b)) = Some (Inr (length (body @ bytes), b'))
     \<and> growing (body @ bytes) b'"
proof -
  let ?b = "b\<lparr>pb_mem := body @ bytes @ rest, buflen := buflen b + of_nat (length bytes)\<rparr>"
  have t: "take (length body) (pb_mem b) = body"
    using assms(1) by (simp add: growing_def)
  have "eb_append create_ie j (Inr (length body, b)) = Some (Inr (length (body @ bytes), ?b))"
    unfolding eb_append_def sum.case prod.case growing_lengths(2) [OF assms(1)] assms(3)
      bind.bind_lunit Let_def t
    by (simp add: packetbuf_set_datalen_def packetbuf_datalen_def)
  moreover have "growing (body @ bytes) ?b"
    using assms by (simp add: growing_def)
  ultimately show ?thesis by blast
qed


section \<open>The framer on a whole packet\<close>

text \<open>The parameters that create-frame fills in, before the length of the header is computed.\<close>

definition frame_params :: "mac \<Rightarrow> frame802154_t option" where
  "frame_params m = do {
     bc \<leftarrow> packetbuf_holds_broadcast (pb m);
     params \<leftarrow> framer_802154_setup_params (mac_pan_id m) (packetbuf_attr (pb m)) bc zero_frame;
     params \<leftarrow> (if bc then Some (params\<lparr>fr_dest_addr := (fr_dest_addr params)[0 := 0xff, 1 := 0xff]\<rparr>)
       else do {
         a \<leftarrow> packetbuf_addr (pb m) PACKETBUF_ADDR_RECEIVER;
         Some (params\<lparr>fr_dest_addr := linkaddr_copy a\<rparr>) });
     a \<leftarrow> packetbuf_addr (pb m) PACKETBUF_ADDR_SENDER;
     Some (params\<lparr>fr_src_addr := linkaddr_copy a, fr_payload := packetbuf_dataptr (pb m),
                  fr_payload_len := uint (packetbuf_datalen (pb m))\<rparr>) }"

lemma field_len_2015:
  assumes "frame_version (fr_fcf p) = FRAME802154_IEEE802154_2015"
  shows "\<exists>fl. field_len aux keys p = (p, fl)"
  using assms by (auto simp: field_len_def Let_def split: prod.splits)

lemma length_hdr_bytes:
  assumes "field_len False keys p = (p, fl)" and "length (fr_dest_addr p) = 8" and "length (fr_src_addr p) = 8"
  shows "frame802154_hdrlen False keys p = (p, length (hdr_bytes p))"
proof -
  obtain s d where sd: "frame802154_has_panid (fr_fcf p) = (s, d)"
    by (cases "frame802154_has_panid (fr_fcf p)")
  have f: "(if frame_version (fr_fcf p) < FRAME802154_IEEE802154_2015
              then (fr_fcf p)\<lparr>panid_compression :=
                (if dest_addr_mode (fr_fcf p) AND 3 \<noteq> 0 \<and> src_addr_mode (fr_fcf p) AND 3 \<noteq> 0
                    \<and> fr_src_pid p = fr_dest_pid p then 1 else 0)\<rparr>
              else fr_fcf p) = fr_fcf p" (is "?f = _")
  proof -
    have "fst (field_len False keys p) = p\<lparr>fr_fcf := ?f\<rparr>"
      by (simp add: field_len_def Let_def split: prod.splits)
    then have "p = p\<lparr>fr_fcf := ?f\<rparr>"
      using assms(1) by simp
    then have "fr_fcf p = fr_fcf (p\<lparr>fr_fcf := ?f\<rparr>)"
      by (rule arg_cong)
    then show ?thesis by simp
  qed
  have fl: "fl = snd (field_len False keys p)"
    using assms(1) by simp
  have "seqno_len fl = (if sequence_number_suppression (fr_fcf p) AND 1 = 0 then 1 else 0)"
    "dest_pid_len fl = (if d then 2 else 0)" "src_pid_len fl = (if s then 2 else 0)"
    "dest_addr_len fl = addr_len (dest_addr_mode (fr_fcf p) AND 3)"
    "src_addr_len fl = addr_len (src_addr_mode (fr_fcf p) AND 3)" "aux_sec_len fl = 0"
    unfolding fl field_len_def Let_def f sd by simp_all
  moreover have "min 8 (addr_len m) = addr_len m" for m
    by (simp add: addr_len_def)
  ultimately show ?thesis
    using assms by (simp add: frame802154_hdrlen_def hdr_bytes_def Let_def sd pid_bytes_def
        fcf_bytes_def)
qed

lemma create_frame_run:
  assumes "mac_pan_id m \<noteq> 0xffff" and "take_seqno True r m = Some m1" and "mac_pan_id m1 = mac_pan_id m"
    and "frame_params m1 = Some p" and "frame_version (fr_fcf p) = FRAME802154_IEEE802154_2015"
    and "length (fr_dest_addr p) = 8" and "length (fr_src_addr p) = 8"
    and "pb_ok (pb m1)" and "bufptr (pb m1) = 0"
  defines "b \<equiv> pb m1" and "n \<equiv> length (hdr_bytes p)"
  defines "t \<equiv> unat (hdrlen b) + unat (buflen b)"
  assumes "n + t \<le> PACKETBUF_SIZE"
  shows "create_frame True r m = Some (int n, m1\<lparr>pb := b\<lparr>
      pb_mem := hdr_bytes p @ take t (pb_mem b) @ drop (t + n) (pb_mem b), hdrlen := hdrlen b + of_nat n\<rparr>\<rparr>)"
proof -
  obtain fl where fl: "field_len False False p = (p, fl)"
    using field_len_2015 [OF assms(5)] by blast
  note len = length_hdr_bytes [OF fl assms(6,7)]
  let ?b = "b\<lparr>pb_mem := take n (pb_mem b) @ take t (pb_mem b) @ drop (t + n) (pb_mem b),
       hdrlen := hdrlen b + of_nat n\<rparr>"
  have l: "length (pb_mem b) = PACKETBUF_SIZE"
    using assms(8) by (simp add: b_def pb_ok_def)
  have h: "packetbuf_hdralloc (int n) b = Some (True, ?b)"
    unfolding t_def using assms(8,9,13)
    by (intro hdralloc_run) (simp_all add: b_def t_def)
  have c: "frame802154_create False False p (pb_mem ?b)
      = Some (p, img (pb_mem ?b) (hdr_bytes p))"
    using assms(13) l by (intro create_bytes [OF fl]) (simp_all add: n_def assms(6,7))
  have i: "img (pb_mem ?b) (hdr_bytes p)
      = (hdr_bytes p @ take t (pb_mem b) @ drop (t + n) (pb_mem b), n)"
    using assms(13) l by (simp add: img_def n_def)
  have e: "create_frame True r m = do {
        m \<leftarrow> take_seqno True r m;
        params \<leftarrow> frame_params m;
        let (params, hdr_len) = frame802154_hdrlen False False params;
        (ok, b) \<leftarrow> packetbuf_hdralloc (int hdr_len) (pb m);
        if ok then do {
            (params, mem, n) \<leftarrow> frame802154_create False False params (drop (packetbuf_hdrptr b) (pb_mem b));
            Some (int hdr_len, m\<lparr>pb := b\<lparr>pb_mem := mem\<rparr>\<rparr>) }
        else Some (FRAMER_FAILED, m\<lparr>pb := b\<rparr>) }"
    using assms(1) unfolding create_frame_def frame_params_def frame802154_get_pan_id_def Let_def
    by (simp add: bind_assoc case_prod_beta)
  show ?thesis
    unfolding e assms(2,4) bind.bind_lunit len Let_def prod.case n_def [symmetric] b_def [symmetric] h
      if_True
    using c i by (simp add: packetbuf_hdrptr_def)
qed


section \<open>Creating a beacon\<close>

definition eb_body :: "ieee802154_ies \<Rightarrow> u8 list" where
  "eb_body j = sync_bytes j @ timeslot_bytes j @ hop_elem j @ slotframe_bytes j"

lemma eb_elem_lengths:
  assumes "eb_like n j"
  shows "length (timeslot_bytes j) \<le> 27" "length (hop_elem j) \<le> 14 + n"
    "length (slotframe_bytes j) \<le> 12"
proof -
  have l: "ies_ok n j" "slotframe_ok j"
    using assms by (simp_all add: eb_like_def)
  show "length (timeslot_bytes j) \<le> 27"
    using length_timeslot_bytes [OF l(1)] by simp
  show "length (hop_elem j) \<le> 14 + n"
    using length_hop_elem [OF assms] assms by (simp add: eb_like_def)
  have "unat (sl_num_links (ie_tsch_slotframe_and_link j)) \<le> 1"
    using assms by (simp add: eb_like_def)
  then show "length (slotframe_bytes j) \<le> 12"
    using slotframe_cases [OF l(2)] length_slotframe_bytes [OF l]
    by (auto simp: slotframe_len_def Let_def)
qed

lemma eb_body_length:
  assumes "eb_like n j" and "n \<le> 40"
  shows "length (eb_body j) \<le> 101"
  using eb_elem_lengths [OF assms(1)] assms(2) by (simp add: eb_body_def)

lemma eb_chain:
  assumes "eb_like n j" and "n \<le> 40" and "growing [] b"
  shows "\<exists>b'. do {
      w \<leftarrow> eb_append frame80215e_create_ie_tsch_synchronization j (Inr (0, b));
      w \<leftarrow> eb_append frame80215e_create_ie_tsch_timeslot j w;
      w \<leftarrow> eb_append frame80215e_create_ie_tsch_channel_hopping_sequence j w;
      eb_append frame80215e_create_ie_tsch_slotframe_and_link j w }
    = Some (Inr (length (eb_body j), b')) \<and> growing (eb_body j) b'"
proof -
  have ok: "ies_ok n j" "slotframe_ok j"
    using assms(1) by (simp_all add: eb_like_def)
  note len = eb_elem_lengths [OF assms(1)] assms(2)
  have mem: "length (drop (length bs) (pb_mem b)) = PACKETBUF_SIZE - length bs" if "growing bs b" for bs b
    using that by (simp add: growing_def)
  let ?s = "sync_bytes j" and ?t = "timeslot_bytes j" and ?h = "hop_elem j" and ?l = "slotframe_bytes j"
  obtain b1 where 1: "eb_append frame80215e_create_ie_tsch_synchronization j (Inr (0, b))
      = Some (Inr (length ?s, b1))" "growing ?s b1"
    using eb_append_run [OF assms(3), of ?s frame80215e_create_ie_tsch_synchronization j "drop 8 (pb_mem b)"]
      mem [OF assms(3)] by (auto simp: create_sync_bytes PACKETBUF_SIZE_def)
  obtain b2 where 2: "eb_append frame80215e_create_ie_tsch_timeslot j (Inr (length ?s, b1))
      = Some (Inr (length (?s @ ?t), b2))" "growing (?s @ ?t) b2"
    using eb_append_run [OF 1(2), of ?t frame80215e_create_ie_tsch_timeslot j
        "drop (length ?t) (drop 8 (pb_mem b1))"] mem [OF 1(2)] len
    by (auto simp: create_timeslot_bytes [OF ok(1)] PACKETBUF_SIZE_def)
  have "14 + n \<le> length (drop (length (?s @ ?t)) (pb_mem b2))"
    unfolding mem [OF 2(2)] using len by (simp add: PACKETBUF_SIZE_def)
  from create_hop_elem [OF assms(1) this, of "int (PACKETBUF_SIZE - length (?s @ ?t))"]
  obtain r where r: "frame80215e_create_ie_tsch_channel_hopping_sequence
        (drop (length (?s @ ?t)) (pb_mem b2)) (int (PACKETBUF_SIZE - length (?s @ ?t))) (Some j)
      = Some (int (length ?h), ?h @ r)" "length (?h @ r) = PACKETBUF_SIZE - length (?s @ ?t)"
    unfolding mem [OF 2(2)] by auto
  have "length (?s @ ?t) + length ?h \<le> PACKETBUF_SIZE"
    using len by (simp add: PACKETBUF_SIZE_def)
  from eb_append_run [where body = "?s @ ?t" and b = b2 and bytes = ?h and rest = r
      and create_ie = frame80215e_create_ie_tsch_channel_hopping_sequence and j = j, OF 2(2) this r] obtain b3 where
    3: "eb_append frame80215e_create_ie_tsch_channel_hopping_sequence j (Inr (length (?s @ ?t), b2))
      = Some (Inr (length ((?s @ ?t) @ ?h), b3))" "growing ((?s @ ?t) @ ?h) b3"
    by blast
  let ?d = "drop (length ((?s @ ?t) @ ?h)) (pb_mem b3)"
  have d: "length ((?s @ ?t) @ ?h) + length ?l \<le> PACKETBUF_SIZE"
    using len by (simp add: PACKETBUF_SIZE_def)
  then have "length ?l \<le> length ?d"
    unfolding mem [OF 3(2)] by linarith
  then have c: "frame80215e_create_ie_tsch_slotframe_and_link ?d
      (int (PACKETBUF_SIZE - length ((?s @ ?t) @ ?h))) (Some j)
      = Some (int (length ?l), ?l @ drop (length ?l) ?d)"
    using mem [OF 3(2)] by (intro create_slotframe_bytes [OF ok]) auto
  have "length (?l @ drop (length ?l) ?d) = PACKETBUF_SIZE - length ((?s @ ?t) @ ?h)"
    using mem [OF 3(2)] \<open>length ?l \<le> length ?d\<close> by (simp only: length_append length_drop)
  from eb_append_run [where body = "(?s @ ?t) @ ?h" and b = b3
      and create_ie = frame80215e_create_ie_tsch_slotframe_and_link and j = j and bytes = ?l and rest = "drop (length ?l) ?d", OF 3(2) d c this] obtain b4 where
    4: "eb_append frame80215e_create_ie_tsch_slotframe_and_link j (Inr (length ((?s @ ?t) @ ?h), b3))
      = Some (Inr (length (((?s @ ?t) @ ?h) @ ?l), b4))" "growing (((?s @ ?t) @ ?h) @ ?l) b4"
    by blast
  have e: "((?s @ ?t) @ ?h) @ ?l = eb_body j"
    by (simp add: eb_body_def)
  show ?thesis
    unfolding 1(1) 2(1) 3(1) 4(1) bind.bind_lunit using 4(2) unfolding e by blast
qed

text \<open>The data of the beacon behind the two descriptors that announce it.\<close>

definition eb_ie_bytes :: "u8 list \<Rightarrow> u8 list" where
  "eb_ie_bytes body = le16 (header_desc HEADER_IE_LIST_TERMINATION_1 0)
     @ le16 (long_desc PAYLOAD_IE_MLME (length body)) @ body"

lemma create_mlme_bytes:
  assumes "ie_mlme_len j = of_nat n" and "n < 65536" and "2 \<le> len" and "2 \<le> length buf"
  shows "frame80215e_create_ie_mlme buf len (Some j)
       = Some (2, le16 (long_desc PAYLOAD_IE_MLME n) @ drop 2 buf)"
proof -
  obtain a b zs where buf: "buf = a # b # zs"
    using assms(4) by (cases buf; cases "tl buf") auto
  have "uint (ie_mlme_len j) = int n"
    using assms(1,2) by (simp add: unsigned_of_nat take_bit_nat_eq_self)
  then show ?thesis
    unfolding buf using assms(3) payload_desc_bytes [of a b zs PAYLOAD_IE_MLME n]
    by (simp add: frame80215e_create_ie_mlme_def)
qed

lemma create_termination_bytes:
  assumes "2 \<le> len" and "2 \<le> length buf"
  shows "frame80215e_create_ie_header_list_termination_1 buf len (Some j)
       = Some (2, le16 (header_desc HEADER_IE_LIST_TERMINATION_1 0) @ drop 2 buf)"
proof -
  obtain a b zs where buf: "buf = a # b # zs"
    using assms(2) by (cases buf; cases "tl buf") auto
  show ?thesis
    unfolding buf using assms(1) header_desc_bytes [of a b zs HEADER_IE_LIST_TERMINATION_1 0]
    by (simp add: frame80215e_create_ie_header_list_termination_1_def)
qed


text \<open>The header of a beacon: broadcast to short addresses, the long source address, no sequence number.\<close>

definition eb_fcf :: frame802154_fcf_t where
  "eb_fcf = \<lparr>frame_type = 0, security_enabled = 0, frame_pending = 0, ack_required = 0,
     panid_compression = 1, sequence_number_suppression = 1, ie_list_present = 1,
     dest_addr_mode = 2, frame_version = 2, src_addr_mode = 3\<rparr>"

definition eb_frame :: "u16 \<Rightarrow> linkaddr \<Rightarrow> frame802154_t" where
  "eb_frame pan node = zero_frame\<lparr>fr_fcf := eb_fcf, fr_dest_addr := [0xff, 0xff, 0, 0, 0, 0, 0, 0],
     fr_src_addr := node, fr_dest_pid := pan, fr_src_pid := pan\<rparr>"

lemma eb_panid: "frame802154_has_panid eb_fcf = (False, True)"
  by (simp add: frame802154_has_panid_def eb_fcf_def frame_consts)

lemma eb_hdr_bytes: "hdr_bytes (eb_frame pan node) = fcf_bytes eb_fcf @ le16 pan @ [0xff, 0xff] @ rev (take 8 node)"
  by (simp add: hdr_bytes_def eb_frame_def eb_panid pid_bytes_def)
    (simp add: eb_fcf_def addr_len_def frame_consts eval_nat_numeral)

lemma eb_hdr_length: "length node = 8 \<Longrightarrow> length (hdr_bytes (eb_frame pan node)) = 14"
  by (simp add: eb_hdr_bytes fcf_bytes_def)

lemma hdr_bytes_cong:
  assumes "fr_fcf p = fr_fcf q" and "fr_dest_addr p = fr_dest_addr q" and "fr_src_addr p = fr_src_addr q"
    and "fr_dest_pid p = fr_dest_pid q" and "fr_src_pid p = fr_src_pid q"
    and "sequence_number_suppression (fr_fcf q) AND 1 \<noteq> 0"
  shows "hdr_bytes p = hdr_bytes q"
  using assms by (simp add: hdr_bytes_def)

text \<open>The data pointers and lengths of a buffer with a header of h bytes.\<close>

lemma pb_cursor:
  assumes "pb_ok b" and "bufptr b = 0"
  shows "packetbuf_dataptr b = unat (hdrlen b)"
    "uint (packetbuf_remaininglen b) = int (PACKETBUF_SIZE - (unat (hdrlen b) + unat (buflen b)))"
    "uint (packetbuf_totlen b) = int (unat (hdrlen b) + unat (buflen b))"
    "packetbuf_hdrlen b = hdrlen b"
proof -
  show "packetbuf_dataptr b = unat (hdrlen b)"
    using pb_lengths(1) [OF assms(1)] assms(2) by (simp add: packetbuf_dataptr_def)
  show "uint (packetbuf_remaininglen b) = int (PACKETBUF_SIZE - (unat (hdrlen b) + unat (buflen b)))"
    unfolding uint_unat pb_lengths(3) [OF assms(1)] using assms(2) by simp
  show "uint (packetbuf_totlen b) = int (unat (hdrlen b) + unat (buflen b))"
    unfolding uint_unat pb_lengths(2) [OF assms(1)] using assms(2) by simp
  show "packetbuf_hdrlen b = hdrlen b"
    using pb_lengths(1) [OF assms(1)] assms(2) by (simp add: word_eq_unat)
qed

lemma eb_framed:
  assumes "length (pb_mem b) = PACKETBUF_SIZE" and "bufptr b = 0" and "hdrlen b = 2"
    and "unat (buflen b) = k" and "k + 16 \<le> PACKETBUF_SIZE"
    and "packetbuf_attrs b = [0, 0, 0, 0, 0, 0, 0, 0, 0, 1, 0, 0, 0]"
    and "packetbuf_addrs b = [node, linkaddr_null]" and "length node = 8"
    and "mac_pan_id m \<noteq> 0xffff" and "pb m = b"
  shows "\<exists>m'. framer_create r m = Some (14, m') \<and> mac_pan_id m' = mac_pan_id m
     \<and> pb_mem (pb m') = hdr_bytes (eb_frame (mac_pan_id m) node) @ take (k + 2) (pb_mem b) @ drop (k + 16) (pb_mem b)
     \<and> bufptr (pb m') = 0 \<and> hdrlen (pb m') = 16 \<and> buflen (pb m') = buflen b
     \<and> packetbuf_attrs (pb m') = (packetbuf_attrs b)[7 := packetbuf_attrs (pb m') ! 7]
     \<and> packetbuf_addrs (pb m') = packetbuf_addrs b"
proof -
  obtain x d i where sq: "take_seqno True r m = Some (m\<lparr>pb := b\<lparr>packetbuf_attrs := (packetbuf_attrs b)[7 := x]\<rparr>,
      mac_dsn := d, initialized := i\<rparr>)"
  proof -
    have "\<exists>x d i. take_seqno True r m = Some (m\<lparr>pb := b\<lparr>packetbuf_attrs := (packetbuf_attrs b)[7 := x]\<rparr>,
      mac_dsn := d, initialized := i\<rparr>)"
      using assms(6,10) unfolding take_seqno_def packetbuf_attr_def packetbuf_set_attr_def packetbuf_ids
      by (cases m; cases b) (auto simp: rd_def wr_def Let_def)
    then show ?thesis using that by blast
  qed
  let ?b = "b\<lparr>packetbuf_attrs := (packetbuf_attrs b)[7 := x]\<rparr>"
  let ?m = "m\<lparr>pb := ?b, mac_dsn := d, initialized := i\<rparr>"
  have bc: "packetbuf_holds_broadcast ?b = Some True"
    using assms(7) by (simp add: packetbuf_holds_broadcast_def packetbuf_addr_def packetbuf_ids rdi_def
        rd_def linkaddr_cmp_def)
  have at: "packetbuf_attr ?b 12 = Some 0" "packetbuf_attr ?b 9 = Some 1" "packetbuf_attr ?b 7 = Some x"
    "packetbuf_attr ?b 10 = Some 0" "packetbuf_attr ?b 11 = Some 0"
    using assms(6) by (simp_all add: packetbuf_attr_def rd_def)
  have sa: "packetbuf_addr ?b PACKETBUF_ADDR_SENDER = Some node"
    using assms(7) by (simp add: packetbuf_addr_def packetbuf_ids rdi_def)
  obtain p where p: "frame_params ?m = Some p" "fr_fcf p = eb_fcf" "fr_src_addr p = node"
    "fr_dest_addr p = [0xff, 0xff, 0, 0, 0, 0, 0, 0]" "fr_dest_pid p = mac_pan_id m"
    "fr_src_pid p = mac_pan_id m"
  proof -
    have "\<exists>p. frame_params ?m = Some p \<and> fr_fcf p = eb_fcf \<and> fr_src_addr p = node
      \<and> fr_dest_addr p = [0xff, 0xff, 0, 0, 0, 0, 0, 0] \<and> fr_dest_pid p = mac_pan_id m
      \<and> fr_src_pid p = mac_pan_id m"
      unfolding frame_params_def framer_802154_setup_params_def
      using bc at sa by (simp add: packetbuf_ids Let_def eb_fcf_def frame_consts FRAME802154_VERSION_def
          LINKADDR_SIZE_def frame802154_get_pan_id_def zero_frame_def linkaddr_copy_def eval_nat_numeral)
    then show ?thesis using that by blast
  qed
  have h: "hdr_bytes p = hdr_bytes (eb_frame (mac_pan_id m) node)"
    by (rule hdr_bytes_cong) (simp_all add: p eb_frame_def eb_fcf_def)
  note n = eb_hdr_length [OF assms(8), of "mac_pan_id m"]
  have ok: "pb_ok ?b"
    using assms by (simp add: pb_ok_def packetbuf_ids)
  have "create_frame True r m = Some (int (length (hdr_bytes p)), ?m\<lparr>pb := (pb ?m)\<lparr>
      pb_mem := hdr_bytes p @ take (unat (hdrlen (pb ?m)) + unat (buflen (pb ?m))) (pb_mem (pb ?m))
         @ drop (unat (hdrlen (pb ?m)) + unat (buflen (pb ?m)) + length (hdr_bytes p)) (pb_mem (pb ?m)),
      hdrlen := hdrlen (pb ?m) + of_nat (length (hdr_bytes p))\<rparr>\<rparr>)"
    using assms(2-5,8,9) ok n
    by (intro create_frame_run [OF assms(9) sq _ p(1)])
      (simp_all add: p h eb_fcf_def frame_consts)
  then show ?thesis
    unfolding h n framer_create_def using assms(2-4,6,7) by (simp add: add.commute)
qed


definition eb_bytes :: "u16 \<Rightarrow> linkaddr \<Rightarrow> ieee802154_ies \<Rightarrow> u8 list" where
  "eb_bytes pan node j = hdr_bytes (eb_frame pan node) @ eb_ie_bytes (eb_body j)"

lemma length_eb_bytes:
  "length node = 8 \<Longrightarrow> length (eb_bytes pan node j) = 18 + length (eb_body j)"
  by (simp add: eb_bytes_def eb_hdr_length eb_ie_bytes_def)

lemma create_eb_run:
  assumes "eb_env_ok e" and "length (pb_mem (pb m)) = PACKETBUF_SIZE" and "mac_pan_id m \<noteq> 0xffff"
    and "eb_ies c e = Some j" and "eb_like (env_max_hopping e) j"
  defines "bs \<equiv> eb_bytes (mac_pan_id m) (env_node_addr e) j"
  shows "\<exists>m'. tsch_packet_create_eb c e r m = Some (int (length bs), Some (16, 18), m')
     \<and> take (length bs) (pb_mem (pb m')) = bs \<and> pb_ok (pb m') \<and> hdrlen (pb m') = 16
     \<and> unat (packetbuf_totlen (pb m')) = length bs"
proof -
  let ?b0 = "packetbuf_clear (pb m)"
  let ?k = "length (eb_body j)"
  have node: "length (env_node_addr e) = 8"
    using assms(1) by (simp add: eb_env_ok_def)
  have n40: "env_max_hopping e \<le> 40"
    using assms(1) by (simp add: eb_env_ok_def)
  note k = eb_body_length [OF assms(5) n40]
  have d0: "packetbuf_dataptr ?b0 = 0"
    by (simp add: packetbuf_dataptr_def packetbuf_hdrlen_def packetbuf_clear_def packetbuf_attr_clear_def)
  obtain b where b: "do {
      w \<leftarrow> eb_append frame80215e_create_ie_tsch_synchronization j (Inr (0, ?b0));
      w \<leftarrow> eb_append frame80215e_create_ie_tsch_timeslot j w;
      w \<leftarrow> eb_append frame80215e_create_ie_tsch_channel_hopping_sequence j w;
      eb_append frame80215e_create_ie_tsch_slotframe_and_link j w }
    = Some (Inr (?k, b))" "growing (eb_body j) b"
    using eb_chain [OF assms(5) n40 growing_clear [OF assms(2)]] by blast
  have bl: "length (pb_mem b) = 128" "bufptr b = 0" "hdrlen b = 0" "buflen b = of_nat ?k"
    "take ?k (pb_mem b) = eb_body j" "packetbuf_attrs b = replicate 13 0"
    "packetbuf_addrs b = [linkaddr_null, linkaddr_null]"
    using b(2) by (simp_all add: growing_def PACKETBUF_SIZE_def packetbuf_ids numeral_2_eq_2)
  have ub: "unat (of_nat i :: u16) = i" if "i \<le> 128" for i
    using that by (simp add: unsigned_of_nat take_bit_nat_eq_self)
  let ?R = "drop ?k (pb_mem b)"
  let ?M1 = "take 2 (pb_mem b) @ eb_body j @ drop (2 + ?k) (pb_mem b)"
  have mv: "memcpy_at (pb_mem b) 2 (pb_mem b) ?k = Some ?M1"
    using bl k by (simp add: memcpy_at_def)
  let ?b1 = "b\<lparr>pb_mem := ?M1, buflen := of_nat (?k + 2)\<rparr>"
  have ok1: "pb_ok ?b1"
    using b(2) k ub [of "?k + 2"] bl by (simp add: pb_ok_def growing_def PACKETBUF_SIZE_def)
  have l1: "packetbuf_dataptr ?b1 = 0" "uint (packetbuf_remaininglen ?b1) = int (126 - ?k)"
    using pb_cursor [OF ok1] bl k ub [of "?k + 2"] by (simp_all add: PACKETBUF_SIZE_def)
  let ?D = "le16 (long_desc PAYLOAD_IE_MLME ?k)"
  let ?M2 = "?D @ eb_body j @ drop (2 + ?k) (pb_mem b)"
  have ml: "frame80215e_create_ie_mlme ?M1 (int (126 - ?k)) (Some (j\<lparr>ie_mlme_len := of_nat ?k\<rparr>))
      = Some (2, ?M2)"
    using create_mlme_bytes [of "j\<lparr>ie_mlme_len := of_nat ?k\<rparr>" ?k "int (126 - ?k)" ?M1] k bl(1) by simp
  let ?b2 = "?b1\<lparr>pb_mem := ?M2\<rparr>"
  have ok2: "pb_ok ?b2"
    using ok1 bl(1) k by (simp add: pb_ok_def PACKETBUF_SIZE_def)
  have suc4: "Suc (Suc (Suc (Suc i))) = i + 4" for i
    by simp
  have t2: "take (?k + 2) ?M2 = ?D @ eb_body j" "drop (?k + 4) ?M2 = drop (?k + 4) (pb_mem b)"
    "take 2 ?M2 = ?D"
    by (simp_all add: add.commute suc4)
  have ha: "packetbuf_hdralloc 2 ?b2 = Some (True,
      ?b2\<lparr>pb_mem := ?D @ ?D @ eb_body j @ drop (?k + 4) (pb_mem b), hdrlen := 2\<rparr>)"
    using hdralloc_run [OF ok2, of 2] bl k ub [of "?k + 2"] t2
    by (simp add: PACKETBUF_SIZE_def add.commute)
  let ?b3 = "?b2\<lparr>pb_mem := ?D @ ?D @ eb_body j @ drop (?k + 4) (pb_mem b), hdrlen := 2\<rparr>"
  have ok3: "pb_ok ?b3"
    using ok1 bl(1-4) k ub [of "?k + 2"] by (simp add: pb_ok_def PACKETBUF_SIZE_def)
  have l3: "packetbuf_hdrptr ?b3 = 0" "uint (packetbuf_remaininglen ?b3) = int (124 - ?k)"
    using pb_cursor(2) [OF ok3] bl k ub [of "?k + 2"] by (simp_all add: PACKETBUF_SIZE_def packetbuf_hdrptr_def)
  let ?M4 = "eb_ie_bytes (eb_body j) @ drop (?k + 4) (pb_mem b)"
  have te: "frame80215e_create_ie_header_list_termination_1 (pb_mem ?b3) (int (124 - ?k)) (Some i)
      = Some (2, ?M4)" for i
    using create_termination_bytes [of "int (124 - ?k)" "pb_mem ?b3" i] k by (simp add: eb_ie_bytes_def)
  let ?b4 = "?b3\<lparr>pb_mem := ?M4, packetbuf_attrs := [0, 0, 0, 0, 0, 0, 0, 0, 0, 1, 0, 0, 0],
      packetbuf_addrs := [env_node_addr e, linkaddr_null]\<rparr>"
  have eb: "tsch_eb_address = linkaddr_null"
    by (simp add: tsch_eb_address_def linkaddr_null_def)
  have sets: "do {
             b \<leftarrow> packetbuf_set_attr PACKETBUF_ATTR_FRAME_TYPE (ucast FRAME802154_BEACONFRAME) (?b3\<lparr>pb_mem := ?M4\<rparr>);
             b \<leftarrow> packetbuf_set_attr PACKETBUF_ATTR_MAC_METADATA 1 b;
             b \<leftarrow> packetbuf_set_addr PACKETBUF_ADDR_SENDER (env_node_addr e) b;
             packetbuf_set_addr PACKETBUF_ADDR_RECEIVER tsch_eb_address b } = Some ?b4"
    using bl(6,7) by (simp add: packetbuf_set_attr_def packetbuf_set_addr_def packetbuf_ids wri_def wr_def
        eb frame_consts linkaddr_copy_def eval_nat_numeral)
  have l4: "length ?M4 = 128"
    using bl(1) k by (simp add: eb_ie_bytes_def)
  obtain m' where m': "framer_create r (m\<lparr>pb := ?b4\<rparr>) = Some (14, m')"
    "pb_mem (pb m') = hdr_bytes (eb_frame (mac_pan_id m) (env_node_addr e)) @ take (?k + 4) ?M4 @ drop (?k + 18) ?M4"
    "bufptr (pb m') = 0" "hdrlen (pb m') = 16" "buflen (pb m') = of_nat (?k + 2)"
    "packetbuf_attrs (pb m') = (packetbuf_attrs ?b4)[7 := packetbuf_attrs (pb m') ! 7]"
    "packetbuf_addrs (pb m') = packetbuf_addrs ?b4"
    using eb_framed [of ?b4 "?k + 2" "env_node_addr e" "m\<lparr>pb := ?b4\<rparr>" r] bl k ub [of "?k + 2"] l4 node assms(3)
    by (auto simp: PACKETBUF_SIZE_def)
  have tk: "take (?k + 4) ?M4 = eb_ie_bytes (eb_body j)"
    by (simp add: eb_ie_bytes_def)
  have mem: "pb_mem (pb m') = bs @ drop (?k + 18) ?M4"
    unfolding m'(2) tk by (simp add: bs_def eb_bytes_def)
  have lb: "length bs = 18 + ?k"
    unfolding bs_def by (rule length_eb_bytes [OF node])
  have "length (packetbuf_attrs (pb m')) = 13"
    by (subst m'(6)) simp
  then have ok: "pb_ok (pb m')"
    using m'(3-5,7) ub [of "?k + 2"] k l4 lb mem by (simp add: pb_ok_def PACKETBUF_SIZE_def packetbuf_ids)
  have tot: "unat (packetbuf_totlen (pb m')) = length bs"
    using pb_lengths(2) [OF ok] m'(3-5) ub [of "?k + 2"] k lb by simp
  obtain j1 j2 where ies: "eb_ies_timing c e (zero_ies (env_max_hopping e)) = Some j1"
    "eb_ies_hopping c e j1 = Some j2" "eb_ies_slotframe c e j2 = Some j"
    using assms(4) unfolding eb_ies_def bind_eq_Some_conv by blast
  obtain w1 w2 w3 where w:
    "eb_append frame80215e_create_ie_tsch_synchronization j (Inr (0, ?b0)) = Some w1"
    "eb_append frame80215e_create_ie_tsch_timeslot j w1 = Some w2"
    "eb_append frame80215e_create_ie_tsch_channel_hopping_sequence j w2 = Some w3"
    "eb_append frame80215e_create_ie_tsch_slotframe_and_link j w3 = Some (Inr (?k, b))"
    using b(1) unfolding bind_eq_Some_conv by blast
  obtain s1 s2 s3 where sets: "packetbuf_set_attr PACKETBUF_ATTR_FRAME_TYPE (ucast FRAME802154_BEACONFRAME)
      (?b3\<lparr>pb_mem := ?M4\<rparr>) = Some s1"
    "packetbuf_set_attr PACKETBUF_ATTR_MAC_METADATA 1 s1 = Some s2"
    "packetbuf_set_addr PACKETBUF_ADDR_SENDER (env_node_addr e) s2 = Some s3"
    "packetbuf_set_addr PACKETBUF_ADDR_RECEIVER tsch_eb_address s3 = Some ?b4"
    using sets unfolding bind_eq_Some_conv by blast
  have db: "packetbuf_datalen b = of_nat ?k" "packetbuf_dataptr b = 0"
    using bl growing_lengths(3) [OF b(2)] by (simp_all add: packetbuf_datalen_def)
  have ubk: "unat (of_nat ?k :: u16) = ?k"
    using ub [of ?k] k by simp
  have b1: "packetbuf_set_datalen (of_nat ?k + 2) (b\<lparr>pb_mem := ?M1\<rparr>) = ?b1"
    by (simp add: packetbuf_set_datalen_def add.commute)
  have hl: "packetbuf_hdrlen (pb m') = 16"
    using pb_cursor(4) [OF ok m'(3)] m'(4) by simp
  have ut: "uint (packetbuf_totlen (pb m')) = int (length bs)"
    unfolding uint_unat tot by simp
  have "tsch_packet_create_eb c e r m = Some (int (length bs), Some (16, 18), m')"
    unfolding tsch_packet_create_eb_def Let_def ies bind.bind_lunit d0 w sum.case prod.case db ubk
      drop_0 add_0_left mv b1
    using l1 ml ha l3 te sets m'(1) hl ut by simp
  then show ?thesis
    using ok tot m'(4) mem by auto
qed


section \<open>Receiving a beacon\<close>

text \<open>The loop inside the MLME element: post is to be read, s bytes of it belong to the frame.\<close>

definition sub_at :: "u8 list \<Rightarrow> u8 list \<Rightarrow> nat \<Rightarrow> nat \<Rightarrow> ieee802154_ies \<Rightarrow> ie_cursor \<Rightarrow> bool" where
  "sub_at start post p s i c \<longleftrightarrow> buf_pos c = p \<and> drop p start = post \<and> unat (buf_size c) = s
     \<and> nested_mlme_len c = int s \<and> cur_ies c = i
     \<and> parsing c = (if s = 0 then PARSING_PAYLOAD_IE else PARSING_MLME_SUBIE)"

lemma sub_at_after:
  assumes "sub_at start (le16 d @ rest) p s i c" and "2 + n \<le> s"
  shows "sub_at start (drop n rest) (p + (2 + n)) (s - (2 + n)) i' (after_sub n i' c)"
proof -
  have d: "drop (p + 2) start = rest"
    using assms(1) by (intro drop_at [of p start d]) (simp add: sub_at_def)
  have "drop (p + (2 + n)) start = drop n (drop (p + 2) start)"
    by (simp add: add.commute add.left_commute)
  then have dr: "drop (p + (2 + n)) start = drop n rest"
    unfolding d .
  have u: "unat (buf_size c) = s"
    using assms(1) by (simp add: sub_at_def)
  have "s < 256"
    using u unat_less8 [of "buf_size c"] by simp
  then have n: "unat (of_nat (2 + n) :: u8) = 2 + n"
    unfolding unsigned_of_nat using assms(2) by (simp add: take_bit_nat_eq_self)
  then have "of_nat (2 + n) \<le> buf_size c"
    using assms(2) u by (simp add: word_le_nat_alt del: of_nat_add)
  from unat_minus_word [OF this] have "unat (buf_size c - of_nat (2 + n)) = s - (2 + n)"
    unfolding n u .
  then show ?thesis
    using assms dr by (auto simp: sub_at_def after_sub_def simp del: of_nat_add)
qed

lemma sub_short:
  assumes "sub_at start (le16 (short_desc k n) @ rest) p s i c" and "2 + n \<le> s" and "k < 128"
    and "frame802154e_parse_mlme_short_ie rest (int n) k (Some i) = Some (int n, Some i')"
  shows "\<exists>c'. ie_step six start c = Some (Inr c') \<and> buf_size c \<noteq> 0
    \<and> sub_at start (drop n rest) (p + (2 + n)) (s - (2 + n)) i' c'"
proof -
  have "ie_step six start c = Some (Inr (after_sub n i' c))"
    using assms by (intro step_short [where rest = rest and k = k]) (simp_all add: sub_at_def)
  moreover have "buf_size c \<noteq> 0"
    using assms(1,2) by (auto simp: sub_at_def)
  ultimately show ?thesis
    using sub_at_after [OF assms(1,2)] by blast
qed

lemma sub_long:
  assumes "sub_at start (le16 (long_desc k n) @ rest) p s i c" and "2 + n \<le> s" and "k < 16"
    and "frame802154e_parse_mlme_long_ie rest (int n) k (Some i) = Some (int n, Some i')"
  shows "\<exists>c'. ie_step six start c = Some (Inr c') \<and> buf_size c \<noteq> 0
    \<and> sub_at start (drop n rest) (p + (2 + n)) (s - (2 + n)) i' c'"
proof -
  have "ie_step six start c = Some (Inr (after_sub n i' c))"
    using assms by (intro step_long [where rest = rest and k = k]) (simp_all add: sub_at_def)
  moreover have "buf_size c \<noteq> 0"
    using assms(1,2) by (auto simp: sub_at_def)
  ultimately show ?thesis
    using sub_at_after [OF assms(1,2)] by blast
qed

lemma ie_loop_step:
  "ie_step six start c = Some (Inr c') \<Longrightarrow> buf_size c \<noteq> 0 \<Longrightarrow> ie_loop six start c = ie_loop six start c'"
  by (subst ie_loop.simps) simp

lemma parse_slotframe_zero:
  assumes "sl_num_slotframes (ie_tsch_slotframe_and_link j) = 0" and "4 \<le> length post"
  shows "parse_slotframe_and_link (drop 2 (slotframe_bytes j) @ post) 1 (Some i) = Some (1, Some i)"
proof -
  have "drop 2 (slotframe_bytes j) @ post = 0 # post"
    using assms(1) by (simp add: slotframe_bytes_def Let_def)
  then show ?thesis
    using assms(2) by (simp add: parse_slotframe_and_link_def rd_def)
qed

lemma parse_hop_elem:
  assumes "eb_like n j" and "ies_ok n i" and "ie_hopping_sequence_list i = replicate n 0"
    and "ie_hopping_sequence_len i = 0"
  shows "frame802154e_parse_mlme_long_ie (drop 2 (hop_elem j) @ post) (int (length (hop_elem j) - 2))
      MLME_LONG_IE_TSCH_CHANNEL_HOPPING_SEQUENCE (Some i) =
    Some (int (length (hop_elem j) - 2), Some (i\<lparr>
      ie_channel_hopping_sequence_id := ie_channel_hopping_sequence_id j,
      ie_hopping_sequence_len := ie_hopping_sequence_len j,
      ie_hopping_sequence_list := ie_hopping_sequence_list j\<rparr>))"
proof (cases "ie_channel_hopping_sequence_id j = 0")
  case True
  then have z: "ie_hopping_sequence_len j = 0" "ie_hopping_sequence_list j = replicate n 0"
    using assms(1) by (auto simp: eb_like_def)
  have e: "i\<lparr>ie_channel_hopping_sequence_id := 0, ie_hopping_sequence_len := 0,
      ie_hopping_sequence_list := replicate n 0\<rparr> = i\<lparr>ie_channel_hopping_sequence_id := 0\<rparr>"
    using assms(3,4) by (cases i) simp
  show ?thesis
    using True z e by (simp add: hop_elem_def frame802154e_parse_mlme_long_ie_def rd_def)
next
  case False
  let ?k = "unat (ie_hopping_sequence_len j)"
  have k: "?k \<le> n" "?k \<le> length (ie_hopping_sequence_list j)"
    "drop ?k (ie_hopping_sequence_list j) = drop ?k (replicate n 0)"
    using assms(1) by (auto simp: eb_like_def ies_ok_def)
  have t: "take ?k (ie_hopping_sequence_list j) @ drop ?k (ie_hopping_sequence_list i)
      = ie_hopping_sequence_list j"
    unfolding assms(3) k(3) [symmetric] by simp
  have l: "int (length (hop_elem j) - 2) = 12 + int ?k"
    using length_hop_elem [OF assms(1)] False by simp
  have h: "hop_elem j = hopping_bytes j"
    using False by (simp add: hop_elem_def)
  show ?thesis
    unfolding l unfolding h parse_hopping_bytes [OF assms(2) k(1,2)] t by (rule refl)
qed

lemma parse_slotframe_elem:
  assumes "eb_like n j" and "ies_ok n i"
    and "ie_tsch_slotframe_and_link i = ie_tsch_slotframe_and_link (zero_ies n)" and "4 \<le> length post"
  shows "parse_slotframe_and_link (drop 2 (slotframe_bytes j) @ post) (int (slotframe_len j)) (Some i) =
    Some (int (slotframe_len j), Some (i\<lparr>ie_tsch_slotframe_and_link := ie_tsch_slotframe_and_link j\<rparr>))"
proof -
  let ?sl = "ie_tsch_slotframe_and_link j"
  have ok: "ies_ok n j" "slotframe_ok j" "sl_num_slotframes ?sl = 0 \<longrightarrow> ?sl = ie_tsch_slotframe_and_link (zero_ies n)"
    "drop (unat (sl_num_links ?sl)) (sl_links ?sl)
     = drop (unat (sl_num_links ?sl)) (sl_links (ie_tsch_slotframe_and_link (zero_ies n)))"
    using assms(1) by (auto simp: eb_like_def Let_def)
  from slotframe_cases [OF ok(2)] show ?thesis
  proof
    assume z: "sl_num_slotframes ?sl = 0"
    then have "slotframe_len j = 1"
      by (simp add: slotframe_len_def Let_def)
    moreover have "i\<lparr>ie_tsch_slotframe_and_link := ie_tsch_slotframe_and_link (zero_ies n)\<rparr> = i"
      using assms(3) by (cases i) simp
    ultimately show ?thesis
      using ok(3) z parse_slotframe_zero [OF z assms(4)] by simp
  next
    assume o: "sl_num_slotframes ?sl = 1"
    have "?sl\<lparr>sl_links := take (unat (sl_num_links ?sl)) (sl_links ?sl)
        @ drop (unat (sl_num_links ?sl)) (sl_links (ie_tsch_slotframe_and_link i))\<rparr> = ?sl"
      unfolding assms(3) ok(4) [symmetric] by (cases ?sl) simp
    then show ?thesis
      unfolding parse_slotframe_bytes [OF assms(2) ok(1,2) o] by simp
  qed
qed


text \<open>What a structure i is after the elements of j have been parsed into it.\<close>

definition eb_read :: "ieee802154_ies \<Rightarrow> ieee802154_ies \<Rightarrow> ieee802154_ies" where
  "eb_read j i = i\<lparr>ie_payload_ie_offset := 2, ie_asn := ie_asn j, ie_join_priority := ie_join_priority j,
     ie_tsch_timeslot_id := ie_tsch_timeslot_id j, ie_tsch_timeslot := ie_tsch_timeslot j,
     ie_channel_hopping_sequence_id := ie_channel_hopping_sequence_id j,
     ie_hopping_sequence_len := ie_hopping_sequence_len j,
     ie_hopping_sequence_list := ie_hopping_sequence_list j,
     ie_tsch_slotframe_and_link := ie_tsch_slotframe_and_link j\<rparr>"

lemma le16_drop: "2 \<le> length xs \<Longrightarrow> take 2 xs = le16 d \<Longrightarrow> xs = le16 d @ drop 2 xs"
  by (metis append_take_drop_id)

lemma eb_elements_parsed:
  assumes "eb_like n j" and "n \<le> 40" and "4 \<le> length slack"
    and "i = (zero_ies n)\<lparr>ie_join_priority := jp\<rparr>"
  shows "frame802154e_parse_information_elements six (eb_ie_bytes (eb_body j) @ slack)
      (of_nat (4 + length (eb_body j))) (Some i)
    = Some (int (4 + length (eb_body j)), Some (eb_read j i))"
proof -
  let ?k = "length (eb_body j)"
  let ?s = "sync_bytes j" and ?t = "timeslot_bytes j" and ?h = "hop_elem j" and ?l = "slotframe_bytes j"
  let ?start = "eb_ie_bytes (eb_body j) @ slack"
  have ok: "ies_ok n j" "slotframe_ok j" "ie_tsch_timeslot_id j = 0 \<longrightarrow> ie_tsch_timeslot j = ie_tsch_timeslot (zero_ies n)"
    using assms(1) by (auto simp: eb_like_def)
  note k = eb_body_length [OF assms(1,2)]
  have lk: "?k = 8 + length ?t + length ?h + length ?l"
    by (simp add: eb_body_def)
  have z: "ie_hopping_sequence_list i = replicate n 0" "ie_hopping_sequence_len i = 0"
    "ie_tsch_timeslot i = ie_tsch_timeslot (zero_ies n)"
    "ie_tsch_slotframe_and_link i = ie_tsch_slotframe_and_link (zero_ies n)" "ies_ok n i"
    by (simp_all add: assms(4) zero_ies_def ies_ok_def)
  have us: "unat (of_nat (4 + ?k) :: u8) = 4 + ?k"
    unfolding unsigned_of_nat using k by (simp add: take_bit_nat_eq_self)
  let ?c0 = "\<lparr>buf_pos = 0, buf_size = of_nat (4 + ?k), parsing = PARSING_HEADER_IE,
      nested_mlme_len = 0, cur_ies = i\<lparr>ie_payload_ie_offset := 0\<rparr>\<rparr>"
  let ?i1 = "i\<lparr>ie_payload_ie_offset := 2\<rparr>"
  let ?c1 = "\<lparr>buf_pos = 2, buf_size = of_nat (2 + ?k), parsing = PARSING_PAYLOAD_IE,
      nested_mlme_len = 0, cur_ies = ?i1\<rparr>"
  let ?c2 = "\<lparr>buf_pos = 4, buf_size = of_nat ?k, parsing = PARSING_MLME_SUBIE,
      nested_mlme_len = int ?k, cur_ies = ?i1\<rparr>"
  have d0: "drop 0 ?start = le16 (header_desc HEADER_IE_LIST_TERMINATION_1 0)
      @ le16 (long_desc PAYLOAD_IE_MLME ?k) @ eb_body j @ slack"
    by (simp add: eb_ie_bytes_def)
  have d2: "drop 2 ?start = le16 (long_desc PAYLOAD_IE_MLME ?k) @ eb_body j @ slack"
    by (simp add: eb_ie_bytes_def)
  have d4: "drop 4 ?start = eb_body j @ slack"
    by (simp add: eb_ie_bytes_def)
  have "ie_step six ?start ?c0 = Some (Inr ?c1)"
    using step_termination_1 [of ?c0 ?start _ six] d0 us by (simp add: algebra_simps)
  moreover have "buf_size ?c0 \<noteq> 0"
    using us by (auto simp del: of_nat_add)
  ultimately have l0: "ie_loop six ?start ?c0 = ie_loop six ?start ?c1"
    by (rule ie_loop_step)
  have us2: "unat (of_nat (2 + ?k) :: u8) = 2 + ?k" "unat (of_nat ?k :: u8) = ?k"
    unfolding unsigned_of_nat using k by (simp_all add: take_bit_nat_eq_self)
  have "ie_step six ?start ?c1 = Some (Inr ?c2)"
    using step_mlme [of ?c1 ?start ?k _ six] d2 us2 k by (simp add: algebra_simps)
  moreover have "buf_size ?c1 \<noteq> 0"
    using us2 by (auto simp del: of_nat_add)
  ultimately have l1: "ie_loop six ?start ?c1 = ie_loop six ?start ?c2"
    by (rule ie_loop_step)
  have s2: "sub_at ?start (le16 (short_desc MLME_SHORT_IE_TSCH_SYNCHRONIZATION 6)
      @ drop 2 ?s @ ?t @ ?h @ ?l @ slack) 4 ?k ?i1 ?c2"
    using d4 us2 lk by (simp add: sub_at_def eb_body_def sync_bytes_def)
  let ?i2 = "?i1\<lparr>ie_asn := ie_asn j, ie_join_priority := ie_join_priority j\<rparr>"
  have "frame802154e_parse_mlme_short_ie (drop 2 ?s @ ?t @ ?h @ ?l @ slack) (int 6)
      MLME_SHORT_IE_TSCH_SYNCHRONIZATION (Some ?i1) = Some (int 6, Some ?i2)"
    using parse_sync_bytes [of j "?t @ ?h @ ?l @ slack" ?i1]
    by (simp add: frame802154e_parse_mlme_short_ie_def ie_ids)
  from sub_short [OF s2 _ _ this, of six] lk obtain c3 where
    c3: "ie_step six ?start ?c2 = Some (Inr c3)" "buf_size ?c2 \<noteq> 0"
      "sub_at ?start (?t @ ?h @ ?l @ slack) 12 (?k - 8) ?i2 c3"
    by (auto simp: ie_ids)
  let ?nt = "length ?t - 2" and ?i3 = "?i2\<lparr>ie_tsch_timeslot_id := ie_tsch_timeslot_id j, ie_tsch_timeslot := ie_tsch_timeslot j\<rparr>"
  have lt: "2 \<le> length ?t"
    by (simp add: timeslot_bytes_def)
  have nt: "(if ie_tsch_timeslot_id j = 0 then 1 else 25) = ?nt"
    using length_timeslot_bytes [OF ok(1)] by simp
  have "?t = le16 (short_desc MLME_SHORT_IE_TSCH_TIMESLOT
      (if ie_tsch_timeslot_id j = 0 then 1 else 25)) @ drop 2 ?t"
    by (simp add: timeslot_bytes_def)
  then have t: "?t = le16 (short_desc MLME_SHORT_IE_TSCH_TIMESLOT ?nt) @ drop 2 ?t"
    unfolding nt .
  have s3: "sub_at ?start (le16 (short_desc MLME_SHORT_IE_TSCH_TIMESLOT ?nt)
      @ drop 2 ?t @ ?h @ ?l @ slack) 12 (?k - 8) ?i2 c3"
    using c3(3) by (subst (asm) t) simp
  have int_t: "int (length ?t) - 2 = int ?nt"
    using lt by linarith
  have ts: "(if ie_tsch_timeslot_id j = 0 then ie_tsch_timeslot ?i2 else ie_tsch_timeslot j) = ie_tsch_timeslot j"
    using ok(3) z(3) by simp
  have "ies_ok n ?i2"
    using z(5) by (simp add: ies_ok_def)
  from parse_timeslot_bytes [OF this ok(1), of "?h @ ?l @ slack", unfolded ts int_t]
  have "frame802154e_parse_mlme_short_ie (drop 2 ?t @ ?h @ ?l @ slack) (int ?nt)
      MLME_SHORT_IE_TSCH_TIMESLOT (Some ?i2) = Some (int ?nt, Some ?i3)" (is ?p3)
    by (simp add: frame802154e_parse_mlme_short_ie_def ie_ids)
  have nt2: "2 + ?nt = length ?t"
    using lt by simp
  from sub_short [OF s3 _ _ \<open>?p3\<close>, of six, unfolded nt2] lk obtain c4 where
    c4: "ie_step six ?start c3 = Some (Inr c4)" "buf_size c3 \<noteq> 0"
      "sub_at ?start (?h @ ?l @ slack) (12 + length ?t) (?k - 8 - length ?t) ?i3 c4"
    by (auto simp: ie_ids)
  let ?nh = "length ?h - 2" and ?i4 = "?i3\<lparr>
      ie_channel_hopping_sequence_id := ie_channel_hopping_sequence_id j,
      ie_hopping_sequence_len := ie_hopping_sequence_len j,
      ie_hopping_sequence_list := ie_hopping_sequence_list j\<rparr>"
  note lh = length_hop_elem [OF assms(1)]
  have nh2: "2 + ?nh = length ?h"
    using lh by (simp split: if_splits)
  have h: "?h = le16 (long_desc MLME_LONG_IE_TSCH_CHANNEL_HOPPING_SEQUENCE ?nh) @ drop 2 ?h"
    unfolding lh by (simp add: hop_elem_def hopping_bytes_def)
  have s4: "sub_at ?start (le16 (long_desc MLME_LONG_IE_TSCH_CHANNEL_HOPPING_SEQUENCE ?nh)
      @ drop 2 ?h @ ?l @ slack) (12 + length ?t) (?k - 8 - length ?t) ?i3 c4"
    using c4(3) by (subst (asm) h) simp
  have "ies_ok n ?i3" "ie_hopping_sequence_list ?i3 = replicate n 0" "ie_hopping_sequence_len ?i3 = 0"
    using z ok(1) by (simp_all add: ies_ok_def)
  from parse_hop_elem [OF assms(1) this, of "?l @ slack"]
  have "frame802154e_parse_mlme_long_ie (drop 2 ?h @ ?l @ slack) (int ?nh)
      MLME_LONG_IE_TSCH_CHANNEL_HOPPING_SEQUENCE (Some ?i3) = Some (int ?nh, Some ?i4)"
    by simp
  from sub_long [OF s4 _ _ this, of six, unfolded nh2] lk obtain c5 where
    c5: "ie_step six ?start c4 = Some (Inr c5)" "buf_size c4 \<noteq> 0"
      "sub_at ?start (?l @ slack) (12 + length ?t + length ?h) (?k - 8 - length ?t - length ?h) ?i4 c5"
    by (auto simp: ie_ids)
  note ll = length_slotframe_bytes [OF ok(1,2)]
  have l: "?l = le16 (short_desc MLME_SHORT_IE_TSCH_SLOFTRAME_AND_LINK (slotframe_len j)) @ drop 2 ?l"
    by (simp add: slotframe_bytes_def Let_def)
  have s5: "sub_at ?start (le16 (short_desc MLME_SHORT_IE_TSCH_SLOFTRAME_AND_LINK (slotframe_len j))
      @ drop 2 ?l @ slack) (12 + length ?t + length ?h) (2 + slotframe_len j) ?i4 c5"
    using c5(3) lk ll by (subst (asm) l) simp
  let ?i5 = "?i4\<lparr>ie_tsch_slotframe_and_link := ie_tsch_slotframe_and_link j\<rparr>"
  have "ies_ok n ?i4" "ie_tsch_slotframe_and_link ?i4 = ie_tsch_slotframe_and_link (zero_ies n)"
    using z ok(1) by (simp_all add: ies_ok_def)
  from parse_slotframe_elem [OF assms(1) this assms(3)]
  have "frame802154e_parse_mlme_short_ie (drop 2 ?l @ slack) (int (slotframe_len j))
      MLME_SHORT_IE_TSCH_SLOFTRAME_AND_LINK (Some ?i4) = Some (int (slotframe_len j), Some ?i5)"
    by (simp add: frame802154e_parse_mlme_short_ie_def)
  from sub_short [OF s5 _ _ this, of six] obtain c6 where
    c6: "ie_step six ?start c5 = Some (Inr c6)" "buf_size c5 \<noteq> 0"
      "sub_at ?start (drop (slotframe_len j) (drop 2 ?l @ slack))
        (12 + length ?t + length ?h + (2 + slotframe_len j)) 0 ?i5 c6"
    by (auto simp: ie_ids)
  have p6: "12 + length ?t + length ?h + (2 + slotframe_len j) = 4 + ?k"
    using lk ll by simp
  have f6: "buf_pos c6 = 4 + ?k" "parsing c6 = PARSING_PAYLOAD_IE" "cur_ies c6 = ?i5"
    using c6(3) unfolding p6 sub_at_def by (simp_all only: refl if_True)
  have "buf_size c6 = 0"
    using c6(3) by (simp add: sub_at_def word_eq_unat)
  then have "ie_loop six ?start c6 = Some (int (4 + ?k), ?i5)"
    using f6 by (subst ie_loop.simps) (simp add: ie_finish_def)
  moreover have "ie_loop six ?start ?c0 = ie_loop six ?start c6"
    unfolding l0 l1 ie_loop_step [OF c3(1,2)] ie_loop_step [OF c4(1,2)] ie_loop_step [OF c5(1,2)]
      ie_loop_step [OF c6(1,2)] ..
  moreover have "?i5 = eb_read j i"
    by (simp add: eb_read_def)
  ultimately show ?thesis
    by (simp add: frame802154e_parse_information_elements_def)
qed


lemma eb_like_sync:
  "eb_like n (j\<lparr>ie_asn := a, ie_join_priority := p\<rparr>) = eb_like n j"
  by (simp add: eb_like_def ies_ok_def slotframe_ok_def)

lemma eb_body_sync:
  "eb_body (j\<lparr>ie_asn := a, ie_join_priority := p\<rparr>)
     = sync_bytes (j\<lparr>ie_asn := a, ie_join_priority := p\<rparr>) @ drop 8 (eb_body j)"
  by (simp add: eb_body_def timeslot_bytes_def hop_elem_def hopping_bytes_def slotframe_bytes_def
      slotframe_len_def)

lemma sync_bytes_cong:
  "ie_asn i = ie_asn j \<Longrightarrow> ie_join_priority i = ie_join_priority j \<Longrightarrow> sync_bytes i = sync_bytes j"
  by (simp add: sync_bytes_def)

lemma update_eb_run:
  fixes j :: ieee802154_ies and asn :: tsch_asn_t and jp :: u8
  assumes "length node = 8"
  defines "j' \<equiv> j\<lparr>ie_asn := asn, ie_join_priority := jp\<rparr>"
  shows "tsch_packet_update_eb asn jp ies (eb_bytes pan node j) (int (length (eb_bytes pan node j))) 18
       = Some (True, eb_bytes pan node j')"
proof -
  let ?bs = "eb_bytes pan node j"
  let ?i = "ies\<lparr>ie_asn := asn, ie_join_priority := jp\<rparr>"
  have l: "length ?bs = 18 + length (eb_body j)" "8 \<le> length (eb_body j)"
    using length_eb_bytes [OF assms(1)] by (simp_all add: eb_body_def)
  have e: "?bs = (hdr_bytes (eb_frame pan node) @ le16 (header_desc HEADER_IE_LIST_TERMINATION_1 0)
      @ le16 (long_desc PAYLOAD_IE_MLME (length (eb_body j)))) @ eb_body j" (is "_ = ?pre @ _")
    by (simp add: eb_bytes_def eb_ie_bytes_def)
  have pre: "length ?pre = 18"
    using eb_hdr_length [OF assms(1)] by simp
  have d: "drop 18 ?bs = eb_body j" "take 18 ?bs = ?pre"
    unfolding e using pre by simp_all
  have "frame80215e_create_ie_tsch_synchronization (eb_body j) (int (length ?bs) - 18) (Some ?i)
      = Some (8, sync_bytes ?i @ drop 8 (eb_body j))"
    using l by (intro create_sync_bytes) simp_all
  moreover have "sync_bytes ?i = sync_bytes j'"
    by (rule sync_bytes_cong) (simp_all add: j'_def)
  moreover have "eb_bytes pan node j' = ?pre @ sync_bytes j' @ drop 8 (eb_body j)"
    using l(2) unfolding eb_bytes_def eb_ie_bytes_def j'_def eb_body_sync by simp
  ultimately show ?thesis
    unfolding tsch_packet_update_eb_def Let_def by (simp add: d)
qed

lemma eb_frame_ok: "length node = 8 \<Longrightarrow> hdr_ok (eb_frame pan node)"
  by (simp add: hdr_ok_def eb_frame_def fcf_ok_def eb_panid) (simp add: eb_fcf_def)

lemma parse_eb_run:
  fixes j :: ieee802154_ies and pan :: u16 and node :: linkaddr
  assumes "length node = 8" and "eb_like n j" and "n \<le> 40" and "4 \<le> length slack"
    and "length (fr_dest_addr pf) = 8" and "length (fr_src_addr pf) = 8"
  defines "len \<equiv> length (eb_bytes pan node j)"
  shows "tsch_packet_parse_eb six n (eb_bytes pan node j @ slack) (int len) pf (Some i) (Some h)
    = Some (int len, hdr_read (eb_frame pan node) (int len) pf,
            Some (eb_read j ((zero_ies n)\<lparr>ie_join_priority := 0xff\<rparr>)), Some 16)"
proof -
  let ?p = "eb_frame pan node" and ?k = "length (eb_body j)"
  have h: "length (hdr_bytes ?p) = 14"
    by (rule eb_hdr_length [OF assms(1)])
  have len: "len = 18 + ?k"
    unfolding len_def by (rule length_eb_bytes [OF assms(1)])
  note k = eb_body_length [OF assms(2,3)]
  have e: "eb_bytes pan node j @ slack = hdr_bytes ?p @ eb_ie_bytes (eb_body j) @ slack"
    by (simp add: eb_bytes_def)
  let ?f = "hdr_read ?p (int len) pf"
  have ph: "frame802154_parse False False (eb_bytes pan node j @ slack) (int len) pf = Some (14, ?f)"
    unfolding e using parse_hdr_bytes [OF eb_frame_ok [OF assms(1), of pan] assms(5,6), where aux = False and len = "int len"] h len
    by simp
  have f: "fr_fcf ?f = eb_fcf"
    by (simp add: hdr_read_def Let_def eb_frame_def eb_panid)
  have d: "drop 14 (eb_bytes pan node j @ slack) = eb_ie_bytes (eb_body j) @ slack"
    unfolding e using h by simp
  have w: "word_of_int (int len - 14) = (of_nat (4 + ?k) :: u8)"
  proof -
    have "int len - 14 = int (4 + ?k)"
      by (simp add: len)
    then show ?thesis by (simp only: of_int_of_nat_eq)
  qed
  note ie = eb_elements_parsed [OF assms(2-4) refl, of six "0xff"]
  have c: "(14 :: u8) + word_of_int (int (4 + ?k)) = of_nat len"
    unfolding len of_int_of_nat_eq by simp
  have "unat (of_nat len :: u8) = len"
    unfolding unsigned_of_nat len using k by (simp add: take_bit_nat_eq_self)
  then have u: "uint (of_nat len :: u8) = int len"
    unfolding uint_unat by (rule arg_cong)
  have nn: "int (4 + ?k) \<noteq> -1"
    by linarith
  have pi: "parse_ies_after six (eb_bytes pan node j @ slack) (int len) 14 ?f
       (Some ((zero_ies n)\<lparr>ie_join_priority := 0xff\<rparr>)) (Some 14)
     = Some (int len, ?f, Some (eb_read j ((zero_ies n)\<lparr>ie_join_priority := 0xff\<rparr>)), Some 16)"
  proof -
    have "ie_list_present (fr_fcf ?f) \<noteq> 0"
      unfolding f by (simp add: eb_fcf_def)
    moreover have "unat (14 :: u8) = 14" "uint (14 :: u8) = 14"
      by simp_all
    ultimately show ?thesis
      unfolding parse_ies_after_def
      using d w ie c u nn by (simp add: eb_read_def del: of_nat_add)
  qed
  show ?thesis
    unfolding tsch_packet_parse_eb_def ph
    using pi by (simp add: f) (simp add: eb_fcf_def frame_consts)
qed

lemma eb_received:
  assumes "eb_env_ok e" and "length (pb_mem (pb m)) = PACKETBUF_SIZE" and "mac_pan_id m \<noteq> 0xffff"
    and "length (fr_dest_addr pf) = 8" and "length (fr_src_addr pf) = 8" and "4 \<le> length slack"
  shows "\<exists>j len m' eb f. eb_ies c e = Some j
    \<and> tsch_packet_create_eb c e r m = Some (int len, Some (16, 18), m')
    \<and> tsch_packet_update_eb asn jp ies (take len (pb_mem (pb m'))) (int len) 18 = Some (True, eb)
    \<and> tsch_packet_parse_eb six (env_max_hopping e) (eb @ slack) (int len) pf (Some i) (Some h)
       = Some (int len, f, Some (j\<lparr>ie_payload_ie_offset := 2, ie_asn := asn, ie_join_priority := jp\<rparr>), Some 16)
    \<and> fr_src_addr f = env_node_addr e \<and> fr_src_pid f = mac_pan_id m \<and> security_enabled (fr_fcf f) = 0 \<and> 0 < len"
proof -
  obtain j where j: "eb_ies c e = Some j" "eb_like (env_max_hopping e) j" "eb_rest j"
    using eb_ies_like [OF assms(1)] by blast
  let ?bs = "eb_bytes (mac_pan_id m) (env_node_addr e) j"
  let ?j = "j\<lparr>ie_asn := asn, ie_join_priority := jp\<rparr>"
  let ?eb = "eb_bytes (mac_pan_id m) (env_node_addr e) ?j"
  obtain m' where m': "tsch_packet_create_eb c e r m = Some (int (length ?bs), Some (16, 18), m')"
    "take (length ?bs) (pb_mem (pb m')) = ?bs"
    using create_eb_run [OF assms(1-3) j(1,2)] by blast
  have node: "length (env_node_addr e) = 8" and n: "env_max_hopping e \<le> 40"
    using assms(1) by (simp_all add: eb_env_ok_def)
  have l: "length ?eb = length ?bs"
    using length_eb_bytes [OF node] by (simp add: eb_body_sync) (simp add: eb_body_def)
  have lj: "eb_like (env_max_hopping e) ?j"
    using j(2) by (simp add: eb_like_sync)
  note pe = parse_eb_run [OF node lj n assms(6,4,5), where pan = "mac_pan_id m" and six = six and i = i and h = h, unfolded l]
  let ?z = "(zero_ies (env_max_hopping e))\<lparr>ie_join_priority := 0xff\<rparr>"
  have r: "eb_read ?j ?z = j\<lparr>ie_payload_ie_offset := 2, ie_asn := asn, ie_join_priority := jp\<rparr>"
    using j(3) by (intro ieee802154_ies.equality) (simp_all add: eb_read_def eb_rest_def zero_ies_def)
  let ?f = "hdr_read (eb_frame (mac_pan_id m) (env_node_addr e)) (int (length ?bs)) pf"
  have f: "fr_src_addr ?f = env_node_addr e" "fr_src_pid ?f = mac_pan_id m" "security_enabled (fr_fcf ?f) = 0"
    by (simp_all add: hdr_read_def Let_def eb_frame_def eb_panid)
      (simp_all add: eb_fcf_def addr_read_def frame_consts)
  have pos: "0 < length ?bs" using length_eb_bytes [OF node] by simp
  show ?thesis
    using j(1) m' update_eb_run [OF node, of asn jp ies "mac_pan_id m" j] pe f pos
    unfolding r by (intro exI [of _ j] exI [of _ "length ?bs"] exI [of _ m'] exI [of _ ?eb] exI [of _ ?f]) simp
qed


section \<open>Acknowledgements\<close>

definition eack_fcf :: frame802154_fcf_t where
  "eack_fcf = \<lparr>frame_type = 2, security_enabled = 0, frame_pending = 0, ack_required = 0,
     panid_compression = 0, sequence_number_suppression = 0, ie_list_present = 1,
     dest_addr_mode = 3, frame_version = 2, src_addr_mode = 0\<rparr>"

lemma eack_panid: "frame802154_has_panid eack_fcf = (False, True)"
  by (simp add: frame802154_has_panid_def eack_fcf_def frame_consts)

lemma eack_params:
  "framer_802154_setup_params pan
      (tsch_packet_eackbuf_attr [0, 0, 0, 0, 0, 0, 0, ucast (sq :: u8), 0, 1, 1, 0, 2]) False p
    = Some (p\<lparr>fr_fcf := eack_fcf, fr_seq := sq, fr_src_pid := pan, fr_dest_pid := pan\<rparr>)"
proof -
  have "ucast (ucast sq :: u16) = sq"
    by (rule ucast_8_16_8)
  then show ?thesis
    unfolding framer_802154_setup_params_def
    by (simp add: tsch_packet_eackbuf_attr_def packetbuf_ids rd_def eack_fcf_def frame_consts
        FRAME802154_SUPPR_SEQNO_def FRAME802154_VERSION_def LINKADDR_SIZE_def frame802154_get_pan_id_def)
qed

lemma eack_attrs:
  "do {
       attrs \<leftarrow> tsch_packet_eackbuf_set_attr PACKETBUF_ATTR_FRAME_TYPE (ucast FRAME802154_ACKFRAME)
                  (replicate PACKETBUF_NUM_ATTRS 0);
       attrs \<leftarrow> tsch_packet_eackbuf_set_attr PACKETBUF_ATTR_MAC_METADATA 1 attrs;
       attrs \<leftarrow> tsch_packet_eackbuf_set_attr PACKETBUF_ATTR_MAC_SEQNO (ucast sq) attrs;
       attrs \<leftarrow> tsch_packet_eackbuf_set_attr PACKETBUF_ATTR_MAC_NO_DEST_ADDR 1 attrs;
       attrs \<leftarrow> tsch_packet_eackbuf_set_attr PACKETBUF_ATTR_MAC_NO_DEST_ADDR 0 attrs;
       tsch_packet_eackbuf_set_attr PACKETBUF_ATTR_MAC_NO_SRC_ADDR 1 attrs }
   = Some [0, 0, 0, 0, 0, 0, 0, ucast (sq :: u8), 0, 1, 1, 0, 2]"
  by (simp add: tsch_packet_eackbuf_set_attr_def packetbuf_ids wr_def frame_consts)
    (simp add: numeral_eq_Suc del: numeral_2_eq_2)

definition eack_frame :: "u16 \<Rightarrow> linkaddr \<Rightarrow> u8 \<Rightarrow> frame802154_t \<Rightarrow> frame802154_t" where
  "eack_frame pan a sq p = p\<lparr>fr_dest_addr := a, fr_fcf := eack_fcf, fr_seq := sq, fr_src_pid := pan,
     fr_dest_pid := pan\<rparr>"

lemma eack_hdr_bytes:
  "hdr_bytes (eack_frame pan a sq p) = fcf_bytes eack_fcf @ [sq] @ le16 pan @ rev (take 8 a)"
  by (simp add: hdr_bytes_def eack_frame_def eack_panid pid_bytes_def)
    (simp add: eack_fcf_def addr_len_def frame_consts)

lemma eack_hdr_length: "length a = 8 \<Longrightarrow> length (hdr_bytes (eack_frame pan a sq p)) = 13"
  by (simp add: eack_hdr_bytes fcf_bytes_def)

lemma create_eack_run:
  fixes a :: linkaddr and n :: nat and drift :: u16 and nack :: u8
  assumes "length a = 8" and "length (fr_src_addr p) = 8" and "17 \<le> unat L" and "unat L \<le> length buf"
  defines "j \<equiv> (zero_ies n)\<lparr>ie_time_correction := drift, ie_is_nack := nack\<rparr>"
  shows "\<exists>zs. tsch_packet_create_eack n pan p (Some buf) L (Some a) sq drift nack
      = Some (17, Some (hdr_bytes (eack_frame pan a sq p) @ ack_bytes j @ zs))
    \<and> length zs + 17 = length buf"
proof -
  let ?p = "eack_frame pan a sq p" and ?B = "replicate (unat L) 0 @ drop (unat L) buf :: u8 list"
  obtain fl where fl: "field_len False False ?p = (?p, fl)"
    using field_len_2015 [of ?p] by (auto simp: eack_frame_def eack_fcf_def frame_consts)
  have la: "length (fr_dest_addr ?p) = 8" "length (fr_src_addr ?p) = 8"
    using assms(1,2) by (simp_all add: eack_frame_def)
  note h = eack_hdr_length [OF assms(1), of pan sq p]
  note hl = length_hdr_bytes [OF fl la, unfolded h]
  have lB: "length ?B = length buf"
    using assms(4) by simp
  have m: "memcpy_at buf 0 (replicate (unat L) 0) (unat L) = Some ?B"
    using assms(4) by (simp add: memcpy_at_def)
  have dd: "drop 4 (drop 13 ?B) = drop 17 ?B"
    by (simp del: drop_append drop_replicate)
  have "int 17 \<le> int (unat L)"
    using assms(3) by linarith
  then have "frame80215e_create_ie_header_ack_nack_time_correction (drop 13 ?B) (uint L - 13) (Some j)
      = Some (4, ack_bytes j @ drop 4 (drop 13 ?B))"
    using assms(3,4) by (intro create_ack_bytes) simp_all
  then have ack: "frame80215e_create_ie_header_ack_nack_time_correction (drop 13 ?B) (uint L - int 13) (Some j)
      = Some (4, ack_bytes j @ drop 17 ?B)"
    unfolding dd by (simp del: drop_append drop_replicate)
  let ?C = "take 13 ?B @ ack_bytes j @ drop 17 ?B"
  have c: "frame802154_create False False ?p ?C = Some (?p, img ?C (hdr_bytes ?p))"
    using assms(3,4) h by (intro create_bytes [OF fl _ la]) simp
  have i: "img ?C (hdr_bytes ?p) = (hdr_bytes ?p @ ack_bytes j @ drop 17 ?B, 13)"
    using h assms(3,4) by (simp add: img_def)
  obtain a1 a2 a3 a4 a5 where at:
    "tsch_packet_eackbuf_set_attr PACKETBUF_ATTR_FRAME_TYPE (ucast FRAME802154_ACKFRAME)
                  (replicate PACKETBUF_NUM_ATTRS 0) = Some a1"
    "tsch_packet_eackbuf_set_attr PACKETBUF_ATTR_MAC_METADATA 1 a1 = Some a2"
    "tsch_packet_eackbuf_set_attr PACKETBUF_ATTR_MAC_SEQNO (ucast sq) a2 = Some a3"
    "tsch_packet_eackbuf_set_attr PACKETBUF_ATTR_MAC_NO_DEST_ADDR 1 a3 = Some a4"
    "tsch_packet_eackbuf_set_attr PACKETBUF_ATTR_MAC_NO_DEST_ADDR 0 a4 = Some a5"
    "tsch_packet_eackbuf_set_attr PACKETBUF_ATTR_MAC_NO_SRC_ADDR 1 a5
       = Some [0, 0, 0, 0, 0, 0, 0, ucast sq, 0, 1, 1, 0, 2]"
    using eack_attrs [of sq] unfolding bind_eq_Some_conv by blast
  have pp: "p\<lparr>fr_dest_addr := a\<rparr>\<lparr>fr_fcf := eack_fcf, fr_seq := sq, fr_src_pid := pan, fr_dest_pid := pan\<rparr> = ?p"
    by (simp add: eack_frame_def)
  have "tsch_packet_create_eack n pan p (Some buf) L (Some a) sq drift nack
      = Some (17, Some (hdr_bytes ?p @ ack_bytes j @ drop 17 ?B))"
    unfolding tsch_packet_create_eack_def option.case Let_def at bind.bind_lunit prod.case linkaddr_copy_def
      eack_params pp hl m j_def [symmetric] ack
    using c i by simp
  then show ?thesis
    using lB assms(3,4) by (intro exI [of _ "drop 17 ?B"]) simp
qed

lemma eack_frame_ok: "length a = 8 \<Longrightarrow> length (fr_src_addr p) = 8 \<Longrightarrow> hdr_ok (eack_frame pan a sq p)"
  by (simp add: hdr_ok_def eack_frame_def fcf_ok_def eack_panid) (simp add: eack_fcf_def)


lemma broadcast_loop_Some: "k \<le> length a \<Longrightarrow> \<exists>v. broadcast_loop k a = Some v"
  by (induction k) auto

lemma eack_parsed:
  fixes a :: linkaddr and j :: ieee802154_ies and sq :: u8 and pan :: u16
  assumes "length a = 8" and "length (fr_src_addr p) = 8"
    and "length (fr_dest_addr pf) = 8" and "length (fr_src_addr pf) = 8"
    and "-2048 \<le> sint (ie_time_correction j)" and "sint (ie_time_correction j) < 2048"
  defines "f \<equiv> hdr_read (eack_frame pan a sq p) 17 pf"
  shows "tsch_packet_parse_eack six n pan a (hdr_bytes (eack_frame pan a sq p) @ ack_bytes j @ zs) 17 sq pf
      (Some i) (Some h)
    = Some (17, f, Some ((zero_ies n)\<lparr>ie_is_nack := (if ie_is_nack j \<noteq> 0 then 1 else 0),
        ie_time_correction := ie_time_correction j, ie_payload_ie_offset := 4\<rparr>), Some 17)"
proof -
  let ?p = "eack_frame pan a sq p"
  let ?buf = "hdr_bytes ?p @ ack_bytes j @ zs"
  note hl = eack_hdr_length [OF assms(1), of pan sq p]
  have ph: "frame802154_parse False False ?buf 17 pf = Some (13, f)"
    unfolding f_def
    using parse_hdr_bytes [OF eack_frame_ok [OF assms(1,2), of pan sq] assms(3,4), where aux = False and len = 17]
      hl by simp
  have ff: "fr_fcf f = eack_fcf" "fr_seq f = sq" "fr_dest_pid f = pan" "fr_dest_addr f = a"
    unfolding f_def hdr_read_def Let_def eack_frame_def
    by (simp_all add: eack_panid) (simp_all add: eack_fcf_def addr_read_def frame_consts)
  have cp: "frame802154_check_dest_panid pan (Some f)"
    by (simp add: frame802154_check_dest_panid_def ff eack_panid frame802154_get_pan_id_def)
  obtain v where v: "frame802154_is_broadcast_addr 3 a = Some v"
    using broadcast_loop_Some [of 8 a] assms(1)
    by (auto simp: frame802154_is_broadcast_addr_def frame_consts)
  have ex: "\<exists>s d. frame802154_extract_linkaddr (Some f) = Some (True, s, Some d)
      \<and> (linkaddr_cmp d a \<or> linkaddr_cmp d linkaddr_null)"
    unfolding frame802154_extract_linkaddr_def extract_one_def Let_def option.case ff
    using v by (simp add: eack_fcf_def frame_consts LINKADDR_SIZE_def linkaddr_copy_def linkaddr_cmp_def)
  then obtain s d where sd: "frame802154_extract_linkaddr (Some f) = Some (True, s, Some d)"
    "linkaddr_cmp d a \<or> linkaddr_cmp d linkaddr_null" by blast
  have d13: "drop 13 ?buf = ack_bytes j @ zs"
    using hl by simp
  have "frame802154e_parse_information_elements six (ack_bytes j @ zs) 4 (Some (zero_ies n))
      = Some (4, Some ((zero_ies n)\<lparr>ie_is_nack := (if ie_is_nack j \<noteq> 0 then 1 else 0),
        ie_time_correction := ie_time_correction j, ie_payload_ie_offset := 4\<rparr>))"
    using ack_parsed [of "replicate 4 0 @ zs" 4 j six "zero_ies n"] assms(5,6)
    by (auto simp: create_ack_bytes)
  then have pi: "parse_ies_after six ?buf 17 13 f (Some (zero_ies n)) (Some 13)
    = Some (17, f, Some ((zero_ies n)\<lparr>ie_is_nack := (if ie_is_nack j \<noteq> 0 then 1 else 0),
        ie_time_correction := ie_time_correction j, ie_payload_ie_offset := 4\<rparr>), Some 17)"
    unfolding parse_ies_after_def ff using d13 by (simp add: eack_fcf_def)
  show ?thesis
    unfolding tsch_packet_parse_eack_def ph Let_def using ff(2) cp sd pi by simp
qed

lemma eack_received:
  assumes "length a = 8" and "length (fr_src_addr p) = 8"
    and "length (fr_dest_addr pf) = 8" and "length (fr_src_addr pf) = 8"
    and "17 \<le> unat L" and "unat L \<le> length buf"
    and "-2048 \<le> sint drift" and "sint drift < 2048"
  shows "\<exists>ack f. tsch_packet_create_eack n pan p (Some buf) L (Some a) sq drift nack = Some (17, Some ack)
    \<and> length ack = length buf
    \<and> tsch_packet_parse_eack six n pan a ack 17 sq pf (Some i) (Some h)
      = Some (17, f, Some ((zero_ies n)\<lparr>ie_is_nack := (if nack \<noteq> 0 then 1 else 0),
          ie_time_correction := drift, ie_payload_ie_offset := 4\<rparr>), Some 17)"
proof -
  obtain zs where zs: "tsch_packet_create_eack n pan p (Some buf) L (Some a) sq drift nack
      = Some (17, Some (hdr_bytes (eack_frame pan a sq p)
          @ ack_bytes ((zero_ies n)\<lparr>ie_time_correction := drift, ie_is_nack := nack\<rparr>) @ zs))"
    "length zs + 17 = length buf"
    using create_eack_run [OF assms(1,2,5,6)] by blast
  show ?thesis
    using zs eack_parsed [OF assms(1-4), of "(zero_ies n)\<lparr>ie_time_correction := drift, ie_is_nack := nack\<rparr>"
        six n pan sq zs i h] assms(7,8) eack_hdr_length [OF assms(1)] by auto
qed

lemma eack_wrong_seqno:
  assumes "frame802154_parse False False buf bsz pf = Some (r, f)" and "sq \<noteq> fr_seq f"
  shows "\<exists>h'. tsch_packet_parse_eack six n pan a buf bsz sq pf i h = Some (0, if bsz < 0 then pf else f, i, h')"
  using assms by (auto simp: tsch_packet_parse_eack_def Let_def)

section \<open>The frame pending bit\<close>

lemma frame_pending_set:
  assumes "buf \<noteq> []"
  shows "\<exists>buf'. tsch_packet_set_frame_pending buf = Some buf' \<and> tsch_packet_get_frame_pending buf' = Some 1
    \<and> tl buf' = tl buf"
proof -
  obtain b bs where buf: "buf = b # bs"
    using assms by (cases buf) auto
  have "bit (drop_bit 4 (b OR push_bit 4 1) AND 1) k = bit (1 :: u8) k" for k
    by (auto simp: bit_simps)
  then have "drop_bit 4 (b OR push_bit 4 1) AND 1 = (1 :: u8)"
    by (simp add: bit_eq_iff)
  then show ?thesis
    by (simp add: buf tsch_packet_set_frame_pending_def tsch_packet_get_frame_pending_def rd_def wr_def)
qed

end
