(* ===== verification/Queuebuf.thy ===== *)
theory Queuebuf
  imports Packetbuf Memb
begin

text \<open>
  os/net/queuebuf.c: the buffers in which packets wait in a queue, in a build without swapping
  (as many data blocks as buffers) and without the debugging lists. A queue buffer is a block of
  the pool bufmem that holds a pointer to a block of the pool buframmem, where the bytes, the
  attributes and the addresses of the packet are.
\<close>

section \<open>Definitions\<close>

record queuebuf_data =
  qd_data :: "u8 list"
  qd_len :: u16
  qd_attrs :: "u16 list"
  qd_addrs :: "linkaddr list"

record queuebufs =
  bufmem :: "nat option memb"
  buframmem :: "queuebuf_data memb"

definition queuebuf_load_to_ram :: "nat option \<Rightarrow> queuebufs \<Rightarrow> nat option" where
  "queuebuf_load_to_ram b s = do {
     i \<leftarrow> b;
     p \<leftarrow> rd (mem (bufmem s)) i;
     r \<leftarrow> p;
     if r < length (mem (buframmem s)) then Some r else None }"

definition queuebuf_init :: "queuebuf_data \<Rightarrow> queuebufs \<Rightarrow> queuebufs" where
  "queuebuf_init zero s = s\<lparr>buframmem := memb_init zero (buframmem s), bufmem := memb_init None (bufmem s)\<rparr>"

definition queuebuf_numfree :: "queuebufs \<Rightarrow> nat" where
  "queuebuf_numfree s = memb_numfree (bufmem s)"

text \<open>Writing the packet of the packet buffer into the data block r.\<close>

definition fill_data :: "packetbuf \<Rightarrow> nat \<Rightarrow> queuebufs \<Rightarrow> queuebufs option" where
  "fill_data b r s = do {
     d \<leftarrow> rd (mem (buframmem s)) r;
     (n, bytes) \<leftarrow> packetbuf_copyto (qd_data d) b;
     let (attrs, addrs) = packetbuf_attr_copyto b;
     Some (s\<lparr>buframmem := (buframmem s)\<lparr>mem := (mem (buframmem s))[r :=
        \<lparr>qd_data = bytes, qd_len = word_of_int n, qd_attrs = attrs, qd_addrs = addrs\<rparr>]\<rparr>\<rparr>) }"

definition queuebuf_new_from_packetbuf :: "packetbuf \<Rightarrow> queuebufs \<Rightarrow> (nat option \<times> queuebufs) option" where
  "queuebuf_new_from_packetbuf b s = (case memb_alloc (bufmem s) of
     (None, m) \<Rightarrow> Some (None, s)
   | (Some i, m) \<Rightarrow>
      (case memb_alloc (buframmem s) of
         (None, r) \<Rightarrow> Some (None, s\<lparr>bufmem := snd (memb_free (Some i) (m\<lparr>mem := (mem m)[i := None]\<rparr>))\<rparr>)
       | (Some k, r) \<Rightarrow> do {
           s \<leftarrow> fill_data b k (s\<lparr>bufmem := m\<lparr>mem := (mem m)[i := Some k]\<rparr>, buframmem := r\<rparr>);
           Some (Some i, s) }))"

definition queuebuf_update_attr_from_packetbuf :: "packetbuf \<Rightarrow> nat option \<Rightarrow> queuebufs \<Rightarrow> queuebufs option" where
  "queuebuf_update_attr_from_packetbuf b buf s = do {
     r \<leftarrow> queuebuf_load_to_ram buf s;
     d \<leftarrow> rd (mem (buframmem s)) r;
     let (attrs, addrs) = packetbuf_attr_copyto b;
     Some (s\<lparr>buframmem := (buframmem s)\<lparr>mem := (mem (buframmem s))[r := d\<lparr>qd_attrs := attrs, qd_addrs := addrs\<rparr>]\<rparr>\<rparr>) }"

definition queuebuf_update_from_packetbuf :: "packetbuf \<Rightarrow> nat option \<Rightarrow> queuebufs \<Rightarrow> queuebufs option" where
  "queuebuf_update_from_packetbuf b buf s = do {
     r \<leftarrow> queuebuf_load_to_ram buf s;
     fill_data b r s }"

definition queuebuf_free :: "nat option \<Rightarrow> queuebufs \<Rightarrow> queuebufs option" where
  "queuebuf_free buf s =
     (if memb_inmemb (bufmem s) buf then do {
        i \<leftarrow> buf;
        p \<leftarrow> rd (mem (bufmem s)) i;
        Some (s\<lparr>buframmem := snd (memb_free p (buframmem s)), bufmem := snd (memb_free buf (bufmem s))\<rparr>) }
      else Some s)"

definition queuebuf_to_packetbuf :: "nat option \<Rightarrow> queuebufs \<Rightarrow> packetbuf \<Rightarrow> packetbuf option" where
  "queuebuf_to_packetbuf buf s b =
     (if memb_inmemb (bufmem s) buf then do {
        r \<leftarrow> queuebuf_load_to_ram buf s;
        d \<leftarrow> rd (mem (buframmem s)) r;
        (_, b) \<leftarrow> packetbuf_copyfrom (qd_data d) (qd_len d) b;
        Some (packetbuf_attr_copyfrom (qd_attrs d) (qd_addrs d) b) }
      else Some b)"

text \<open>The pointer to the bytes is the number of the data block.\<close>

definition queuebuf_dataptr :: "nat option \<Rightarrow> queuebufs \<Rightarrow> nat option option" where
  "queuebuf_dataptr buf s =
     (if memb_inmemb (bufmem s) buf then map_option Some (queuebuf_load_to_ram buf s) else Some None)"

definition queuebuf_datalen :: "nat option \<Rightarrow> queuebufs \<Rightarrow> int option" where
  "queuebuf_datalen buf s = do {
     r \<leftarrow> queuebuf_load_to_ram buf s;
     d \<leftarrow> rd (mem (buframmem s)) r;
     Some (uint (qd_len d)) }"

definition queuebuf_addr :: "nat option \<Rightarrow> nat \<Rightarrow> queuebufs \<Rightarrow> linkaddr option" where
  "queuebuf_addr buf t s = do {
     r \<leftarrow> queuebuf_load_to_ram buf s;
     d \<leftarrow> rd (mem (buframmem s)) r;
     rdi (qd_addrs d) (int t - int PACKETBUF_ADDR_FIRST) }"

definition queuebuf_attr :: "nat option \<Rightarrow> nat \<Rightarrow> queuebufs \<Rightarrow> u16 option" where
  "queuebuf_attr buf t s = do {
     r \<leftarrow> queuebuf_load_to_ram buf s;
     d \<leftarrow> rd (mem (buframmem s)) r;
     rd (qd_attrs d) t }"

section \<open>Invariant\<close>

text \<open>
  Both pools have the same size; every buffer in use owns a data block, the blocks in use are
  exactly the owned ones, and what they hold fits.
\<close>

definition qb_ram :: "queuebufs \<Rightarrow> nat \<Rightarrow> nat" where
  "qb_ram s i = the (mem (bufmem s) ! i)"

definition qb_data :: "queuebufs \<Rightarrow> nat \<Rightarrow> queuebuf_data" where
  "qb_data s i = mem (buframmem s) ! qb_ram s i"

definition qd_ok :: "queuebuf_data \<Rightarrow> bool" where
  "qd_ok d \<longleftrightarrow> unat (qd_len d) \<le> PACKETBUF_SIZE \<and> length (qd_attrs d) = PACKETBUF_NUM_ATTRS
     \<and> length (qd_addrs d) = PACKETBUF_NUM_ADDRS"

definition qb_inv :: "queuebufs \<Rightarrow> bool" where
  "qb_inv s \<longleftrightarrow> length (used (buframmem s)) = length (used (bufmem s))
     \<and> length (mem (bufmem s)) = length (used (bufmem s))
     \<and> length (mem (buframmem s)) = length (used (buframmem s))
     \<and> (\<forall>i \<in> vivos (bufmem s). mem (bufmem s) ! i \<noteq> None \<and> qd_ok (qb_data s i))
     \<and> inj_on (qb_ram s) (vivos (bufmem s))
     \<and> qb_ram s ` vivos (bufmem s) = vivos (buframmem s)
     \<and> (\<forall>d \<in> set (mem (buframmem s)). length (qd_data d) = PACKETBUF_SIZE)"

text \<open>The packet in the packet buffer, and the one in a queue buffer: bytes, attributes, addresses.\<close>

definition pb_bytes :: "packetbuf \<Rightarrow> u8 list" where
  "pb_bytes b = take (unat (hdrlen b)) (pb_mem b)
     @ take (unat (buflen b)) (drop (unat (bufptr b) + unat (hdrlen b)) (pb_mem b))"

definition qb_packet :: "queuebufs \<Rightarrow> nat \<Rightarrow> u8 list \<times> u16 list \<times> linkaddr list" where
  "qb_packet s i = (take (unat (qd_len (qb_data s i))) (qd_data (qb_data s i)),
     qd_attrs (qb_data s i), qd_addrs (qb_data s i))"

lemma qb_invD:
  assumes "qb_inv s" and "i \<in> vivos (bufmem s)"
  shows "mem (bufmem s) ! i = Some (qb_ram s i)" and "i < length (mem (bufmem s))"
    and "i < length (used (bufmem s))"
    and "qb_ram s i < length (mem (buframmem s))" and "qb_ram s i \<in> vivos (buframmem s)"
    and "queuebuf_load_to_ram (Some i) s = Some (qb_ram s i)"
    and "length (qd_data (qb_data s i)) = PACKETBUF_SIZE"
proof -
  show a: "mem (bufmem s) ! i = Some (qb_ram s i)" using assms by (auto simp: qb_inv_def qb_ram_def)
  show b: "i < length (mem (bufmem s))" "i < length (used (bufmem s))"
    using assms by (auto simp: qb_inv_def vivos_def)
  show c: "qb_ram s i \<in> vivos (buframmem s)" using assms by (auto simp: qb_inv_def)
  then show d: "qb_ram s i < length (mem (buframmem s))" using assms by (auto simp: qb_inv_def vivos_def)
  show "queuebuf_load_to_ram (Some i) s = Some (qb_ram s i)"
    using a b d by (simp add: queuebuf_load_to_ram_def rd_def)
  show "length (qd_data (qb_data s i)) = PACKETBUF_SIZE"
    using assms(1) nth_mem [OF d] by (simp add: qb_inv_def qb_data_def)
qed

lemma copyto_run:
  assumes b: "pb_ok b" and d: "length dst = PACKETBUF_SIZE"
  shows "\<exists>rest. packetbuf_copyto dst b = Some (int (unat (hdrlen b) + unat (buflen b)), pb_bytes b @ rest)
     \<and> length (pb_bytes b) = unat (hdrlen b) + unat (buflen b) \<and> length (pb_bytes b @ rest) = PACKETBUF_SIZE"
proof -
  let ?h = "unat (hdrlen b)" and ?n = "unat (buflen b)"
  have l: "length (pb_mem b) = PACKETBUF_SIZE" "unat (bufptr b) + ?h + ?n \<le> PACKETBUF_SIZE"
    using b by (auto simp: pb_ok_def)
  have p: "packetbuf_dataptr b = unat (bufptr b) + ?h"
    using pb_lengths(1) [OF b] by (simp add: packetbuf_dataptr_def)
  have le: "\<not> int (?h + ?n) > int PACKETBUF_SIZE" using l(2) by linarith
  let ?x = "take ?h (pb_mem b)" and ?y = "take ?n (drop (unat (bufptr b) + ?h) (pb_mem b))"
  have x: "memcpy_at dst 0 (drop (packetbuf_hdrptr b) (pb_mem b)) ?h = Some (?x @ drop ?h dst)"
    using l d by (simp add: memcpy_at_def packetbuf_hdrptr_def)
  have y: "memcpy_at (?x @ drop ?h dst) ?h (drop (packetbuf_dataptr b) (pb_mem b)) ?n
      = Some (?x @ ?y @ drop (?h + ?n) dst)"
    using l d unfolding p by (simp add: memcpy_at_def add.commute)
  have s: "uint (hdrlen b) + uint (buflen b) = int (?h + ?n)" unfolding uint_unat by simp
  have r: "packetbuf_copyto dst b = Some (int (?h + ?n), pb_bytes b @ drop (?h + ?n) dst)"
    unfolding packetbuf_copyto_def s if_not_P [OF le] x bind.bind_lunit y pb_bytes_def append_assoc ..
  show ?thesis using r l d by (intro exI [of _ "drop (?h + ?n) dst"]) (simp add: pb_bytes_def)
qed

lemma to_packetbuf_run:
  assumes inv: "qb_inv s" and i: "i \<in> vivos (bufmem s)" and b: "length (pb_mem b) = PACKETBUF_SIZE"
  shows "\<exists>b'. queuebuf_to_packetbuf (Some i) s b = Some b' \<and> pb_ok b' \<and> hdrlen b' = 0 \<and> bufptr b' = 0
     \<and> (pb_bytes b', packetbuf_attrs b', packetbuf_addrs b') = qb_packet s i"
proof -
  note d = qb_invD [OF inv i]
  let ?d = "qb_data s i"
  have ok: "qd_ok ?d" using inv i by (auto simp: qb_inv_def)
  have n: "min (of_nat PACKETBUF_SIZE) (qd_len ?d) = qd_len ?d"
  proof -
    have "qd_len ?d \<le> of_nat PACKETBUF_SIZE" using ok by (simp add: qd_ok_def PACKETBUF_SIZE_def word_le_nat_alt)
    then show ?thesis by simp
  qed
  let ?m = "take (unat (qd_len ?d)) (qd_data ?d) @ drop (unat (qd_len ?d)) (pb_mem b)"
  have c: "packetbuf_copyfrom (qd_data ?d) (qd_len ?d) b
      = Some (qd_len ?d, (packetbuf_clear b)\<lparr>pb_mem := ?m, buflen := qd_len ?d\<rparr>)"
    using ok d(7) b unfolding packetbuf_copyfrom_def n Let_def
    by (simp add: memcpy_at_def qd_ok_def packetbuf_clear_def packetbuf_attr_clear_def)
  have r: "rd (mem (buframmem s)) (qb_ram s i) = Some ?d" using d(4) by (simp add: rd_def qb_data_def)
  have "queuebuf_to_packetbuf (Some i) s b = Some (packetbuf_attr_copyfrom (qd_attrs ?d) (qd_addrs ?d)
      ((packetbuf_clear b)\<lparr>pb_mem := ?m, buflen := qd_len ?d\<rparr>))"
    using d(3) by (simp add: queuebuf_to_packetbuf_def memb_inmemb_def d(6) r c)
  then show ?thesis using ok d(7) b
    by (simp add: packetbuf_attr_copyfrom_def packetbuf_clear_def packetbuf_attr_clear_def pb_ok_def
        pb_bytes_def qb_packet_def qd_ok_def)
qed

lemma ram_free:
  assumes inv: "qb_inv s" and a: "fst (memb_alloc (bufmem s)) = Some i"
  shows "\<exists>k. fst (memb_alloc (buframmem s)) = Some k"
proof (rule ccontr)
  assume "\<nexists>k. fst (memb_alloc (buframmem s)) = Some k"
  then have "\<forall>k < length (used (buframmem s)). used (buframmem s) ! k" by (simp add: memb_alloc_None [symmetric])
  then have "vivos (buframmem s) = {..<length (used (bufmem s))}" using inv by (auto simp: qb_inv_def vivos_def)
  then have "card (vivos (buframmem s)) = length (used (bufmem s))" by simp
  moreover have "card (vivos (buframmem s)) = card (vivos (bufmem s))"
    using inv card_image [of "qb_ram s" "vivos (bufmem s)"] by (simp add: qb_inv_def)
  moreover have "vivos (bufmem s) \<subset> {..<length (used (bufmem s))}"
    using memb_alloc_Some [OF a] by (auto simp: vivos_def)
  then have "card (vivos (bufmem s)) < length (used (bufmem s))"
    using psubset_card_mono [of "{..<length (used (bufmem s))}"] by simp
  ultimately show False by simp
qed

lemma unat_int16: "n < 2 ^ 16 \<Longrightarrow> unat (word_of_int (int n) :: u16) = n"
  by (simp add: unsigned_of_nat take_bit_nat_eq_self)

lemma fill_run:
  assumes b: "pb_ok b" and r: "r < length (mem (buframmem s))"
    and d: "length (qd_data (mem (buframmem s) ! r)) = PACKETBUF_SIZE"
  shows "\<exists>e. fill_data b r s = Some (s\<lparr>buframmem := (buframmem s)\<lparr>mem := (mem (buframmem s))[r := e]\<rparr>\<rparr>)
     \<and> qd_ok e \<and> length (qd_data e) = PACKETBUF_SIZE \<and> take (unat (qd_len e)) (qd_data e) = pb_bytes b
     \<and> qd_attrs e = packetbuf_attrs b \<and> qd_addrs e = packetbuf_addrs b"
proof -
  let ?n = "unat (hdrlen b) + unat (buflen b)"
  obtain rest where c: "packetbuf_copyto (qd_data (mem (buframmem s) ! r)) b = Some (int ?n, pb_bytes b @ rest)"
    and l: "length (pb_bytes b) = ?n" "length (pb_bytes b @ rest) = PACKETBUF_SIZE"
    using copyto_run [OF b d] by blast
  have n: "unat (word_of_int (int ?n) :: u16) = ?n"
  proof -
    have "?n < 2 ^ 16" using l by (simp add: PACKETBUF_SIZE_def)
    then show ?thesis by (rule unat_int16)
  qed
  let ?e = "\<lparr>qd_data = pb_bytes b @ rest, qd_len = word_of_int (int ?n), qd_attrs = packetbuf_attrs b,
     qd_addrs = packetbuf_addrs b\<rparr>"
  have "fill_data b r s = Some (s\<lparr>buframmem := (buframmem s)\<lparr>mem := (mem (buframmem s))[r := ?e]\<rparr>\<rparr>)"
    using r by (simp add: fill_data_def rd_def c packetbuf_attr_copyto_def)
  moreover have "qd_ok ?e"
    using b l unfolding qd_ok_def queuebuf_data.select_convs n by (simp add: pb_ok_def)
  moreover have "take (unat (qd_len ?e)) (qd_data ?e) = pb_bytes b"
    unfolding queuebuf_data.select_convs n using l(1) by simp
  ultimately show ?thesis using l by (intro exI [of _ ?e] conjI) (simp_all only: queuebuf_data.select_convs)
qed

text \<open>Storing the packet of the packet buffer: a fresh buffer that holds it, or none is left.\<close>

lemma new_run:
  assumes inv: "qb_inv s" and b: "pb_ok b"
  shows "\<exists>r s'. queuebuf_new_from_packetbuf b s = Some (r, s') \<and> qb_inv s'
     \<and> (case r of
           None \<Rightarrow> s' = s \<and> queuebuf_numfree s = 0
         | Some i \<Rightarrow> i \<notin> vivos (bufmem s) \<and> vivos (bufmem s') = insert i (vivos (bufmem s))
             \<and> qb_packet s' i = (pb_bytes b, packetbuf_attrs b, packetbuf_addrs b))
     \<and> (\<forall>j \<in> vivos (bufmem s). qb_packet s' j = qb_packet s j)"
proof (cases "fst (memb_alloc (bufmem s))")
  case None
  then obtain m where "memb_alloc (bufmem s) = (None, m)" by (cases "memb_alloc (bufmem s)") simp
  then have "queuebuf_new_from_packetbuf b s = Some (None, s)"
    unfolding queuebuf_new_from_packetbuf_def by (simp only: prod.case option.case)
  moreover have "vivos (bufmem s) = {..<length (used (bufmem s))}"
    using None by (auto simp: memb_alloc_None vivos_def)
  ultimately show ?thesis using inv by (simp add: queuebuf_numfree_def memb_numfree_vivos)
next
  case (Some i)
  obtain k where k: "fst (memb_alloc (buframmem s)) = Some k" using ram_free [OF inv Some] by blast
  note vi = vivos_alloc [OF Some] and vk = vivos_alloc [OF k]
  define m where "m = (snd (memb_alloc (bufmem s)))\<lparr>mem := (mem (bufmem s))[i := Some k]\<rparr>"
  define s1 where "s1 = s\<lparr>bufmem := m, buframmem := snd (memb_alloc (buframmem s))\<rparr>"
  have il: "i < length (mem (bufmem s))" using memb_alloc_Some [OF Some] inv by (simp add: qb_inv_def)
  have kl: "k < length (mem (buframmem s))" using memb_alloc_Some [OF k] inv by (simp add: qb_inv_def)
  have "length (qd_data (mem (buframmem s1) ! k)) = PACKETBUF_SIZE"
    using inv nth_mem [OF kl] by (simp add: qb_inv_def s1_def)
  then obtain e where f: "fill_data b k s1
        = Some (s1\<lparr>buframmem := (buframmem s1)\<lparr>mem := (mem (buframmem s1))[k := e]\<rparr>\<rparr>)"
    and e: "qd_ok e" "length (qd_data e) = PACKETBUF_SIZE" "take (unat (qd_len e)) (qd_data e) = pb_bytes b"
      "qd_attrs e = packetbuf_attrs b" "qd_addrs e = packetbuf_addrs b"
    using fill_run [OF b, of k s1] kl by (auto simp: s1_def)
  define s' where "s' = s1\<lparr>buframmem := (buframmem s1)\<lparr>mem := (mem (buframmem s1))[k := e]\<rparr>\<rparr>"
  obtain mi mk where ma: "memb_alloc (bufmem s) = (Some i, mi)" "memb_alloc (buframmem s) = (Some k, mk)"
    using Some k by (cases "memb_alloc (bufmem s)"; cases "memb_alloc (buframmem s)") simp
  then have "mem mi = mem (bufmem s)" using mem_alloc [of "bufmem s"] by simp
  then have "s1 = s\<lparr>bufmem := mi\<lparr>mem := (mem mi)[i := Some k]\<rparr>, buframmem := mk\<rparr>"
    using ma by (simp add: s1_def m_def)
  then have run: "queuebuf_new_from_packetbuf b s = Some (Some i, s')"
    using f ma unfolding queuebuf_new_from_packetbuf_def s'_def by simp
  have V: "vivos (bufmem s') = insert i (vivos (bufmem s))" "vivos (buframmem s') = insert k (vivos (buframmem s))"
    using vi vk by (simp_all add: s'_def s1_def m_def vivos_def)
  have ram: "qb_ram s' j = (if j = i then k else qb_ram s j)" for j
    using il by (cases "j < length (mem (bufmem s))") (auto simp: qb_ram_def s'_def s1_def m_def nth_list_update list_update_beyond)
  have old: "qb_ram s' j = qb_ram s j \<and> qb_ram s j \<noteq> k \<and> qb_data s' j = qb_data s j" if "j \<in> vivos (bufmem s)" for j
  proof -
    have "j \<noteq> i" "qb_ram s j \<noteq> k" using that vi vk qb_invD(5) [OF inv that] by auto
    then show ?thesis using ram [of j] by (simp add: qb_data_def s'_def s1_def)
  qed
  have new: "qb_data s' i = e" using kl by (simp add: qb_data_def ram) (simp add: s'_def s1_def)
  have "qb_inv s'"
    unfolding qb_inv_def V
  proof (intro conjI)
    show "\<forall>j \<in> insert i (vivos (bufmem s)). mem (bufmem s') ! j \<noteq> None \<and> qd_ok (qb_data s' j)"
    proof
      fix j assume "j \<in> insert i (vivos (bufmem s))"
      then consider "j = i" | "j \<noteq> i" "j \<in> vivos (bufmem s)" by blast
      then show "mem (bufmem s') ! j \<noteq> None \<and> qd_ok (qb_data s' j)"
      proof cases
        case 1
        then show ?thesis using new e il by (simp add: s'_def s1_def m_def)
      next
        case 2
        then show ?thesis using old [OF 2(2)] inv by (auto simp: qb_inv_def s'_def s1_def m_def)
      qed
    qed
    have "k \<notin> qb_ram s ` vivos (bufmem s)" using vk inv by (auto simp: qb_inv_def)
    moreover have "inj_on (qb_ram s') (vivos (bufmem s))"
      using inv old inj_on_cong [of "vivos (bufmem s)" "qb_ram s'" "qb_ram s"] by (auto simp: qb_inv_def)
    moreover have img: "qb_ram s' ` vivos (bufmem s) = qb_ram s ` vivos (bufmem s)" using old by force
    ultimately show "inj_on (qb_ram s') (insert i (vivos (bufmem s)))" using vi ram by auto
    show "qb_ram s' ` insert i (vivos (bufmem s)) = insert k (vivos (buframmem s))"
      using inv ram [of i] img by (simp add: qb_inv_def)
    show "\<forall>d \<in> set (mem (buframmem s')). length (qd_data d) = PACKETBUF_SIZE"
      using inv e(2) set_update_subset_insert [of "mem (buframmem s)" k e] by (auto simp: s'_def s1_def qb_inv_def)
  qed (use inv in \<open>simp_all add: s'_def s1_def m_def qb_inv_def\<close>)
  moreover have "qb_packet s' i = (pb_bytes b, packetbuf_attrs b, packetbuf_addrs b)"
    using new e by (simp add: qb_packet_def)
  moreover have "\<forall>j \<in> vivos (bufmem s). qb_packet s' j = qb_packet s j" using old by (simp add: qb_packet_def)
  ultimately show ?thesis using run V(1) vi by (intro exI [of _ "Some i"] exI [of _ s']) simp
qed

lemma free_run:
  assumes inv: "qb_inv s" and i: "i \<in> vivos (bufmem s)"
  shows "\<exists>s'. queuebuf_free (Some i) s = Some s' \<and> qb_inv s' \<and> vivos (bufmem s') = vivos (bufmem s) - {i}
     \<and> (\<forall>j \<in> vivos (bufmem s'). qb_packet s' j = qb_packet s j)"
proof -
  note d = qb_invD [OF inv i]
  define s' where "s' = s\<lparr>buframmem := snd (memb_free (Some (qb_ram s i)) (buframmem s)),
      bufmem := snd (memb_free (Some i) (bufmem s))\<rparr>"
  have r: "queuebuf_free (Some i) s = Some s'"
    using d(1,2,3) by (simp add: queuebuf_free_def memb_inmemb_def rd_def s'_def)
  have V: "vivos (bufmem s') = vivos (bufmem s) - {i}" "vivos (buframmem s') = vivos (buframmem s) - {qb_ram s i}"
    by (simp_all add: s'_def vivos_free)
  have old: "qb_ram s' j = qb_ram s j" "qb_data s' j = qb_data s j" for j
    by (simp_all add: s'_def qb_ram_def qb_data_def)
  have inj: "inj_on (qb_ram s) (vivos (bufmem s))" "qb_ram s ` vivos (bufmem s) = vivos (buframmem s)"
    using inv by (auto simp: qb_inv_def)
  have "qb_ram s' ` (vivos (bufmem s) - {i}) = vivos (buframmem s) - {qb_ram s i}"
    using inj i inj_on_image_set_diff [OF inj(1), of "vivos (bufmem s)" "{i}"] by (simp add: old cong: image_cong)
  moreover have "inj_on (qb_ram s') (vivos (bufmem s) - {i})"
    using inj_on_diff [OF inj(1), of "{i}"] by (simp add: old cong: inj_on_cong)
  ultimately have "qb_inv s'"
    using inv unfolding qb_inv_def V by (auto simp: old) (auto simp: s'_def)
  then show ?thesis using r V(1) old by (simp add: qb_packet_def)
qed

end
