(* ===== verification/Tsch_Timesync.thy ===== *)
theory Tsch_Timesync
  imports Tsch_Prelude "HOL-Library.Signed_Division"
begin

text \<open>
  os/net/mac/tsch/tsch-adaptive-timesync.c: the estimate of the drift against the time source and
  its compensation, with the keep-alive settings of tsch.c that it changes. The signed integers of C
  are ints: an arithmetic result outside int32-t is None (overflow is undefined), a conversion to a
  narrower signed type wraps. The conversions between microseconds and ticks are those of the cooja
  platform, where both are the same.
\<close>

section \<open>Signed integers\<close>

type_synonym u64 = "64 word"

definition i32 :: "int \<Rightarrow> int option" where
  "i32 x = (if - (2 ^ 31) \<le> x \<and> x < 2 ^ 31 then Some x else None)"

definition to_i32 :: "int \<Rightarrow> int" where
  "to_i32 x = signed_take_bit 31 x"

definition to_i16 :: "int \<Rightarrow> int" where
  "to_i16 x = signed_take_bit 15 x"

lemma to_i32_id: "- (2 ^ 31) \<le> x \<Longrightarrow> x < 2 ^ 31 \<Longrightarrow> to_i32 x = x"
  by (simp add: to_i32_def signed_take_bit_int_eq_self)

lemma uint_unat_ucast: "unat (t :: u64) < 2 ^ 32 \<Longrightarrow> uint (ucast t :: u32) = int (unat t)"
proof -
  assume "unat t < 2 ^ 32"
  then have "int (unat t) < int (2 ^ 32)" by (simp only: of_nat_less_iff)
  then have "uint t < 4294967296" unfolding uint_unat by (simp only: of_nat_power of_nat_numeral) simp
  then have "uint (ucast t :: u32) = uint t" by (simp add: unsigned_ucast_eq take_bit_int_eq_self)
  then show ?thesis unfolding uint_unat .
qed

section \<open>Platform\<close>

definition RTIMER_ARCH_SECOND :: u64 where "RTIMER_ARCH_SECOND = 1000000"

definition US_TO_RTIMERTICKS :: "'a \<Rightarrow> 'a" where "US_TO_RTIMERTICKS us = us"
definition RTIMERTICKS_TO_US :: "'a \<Rightarrow> 'a" where "RTIMERTICKS_TO_US t = t"
definition RTIMERTICKS_TO_US_64 :: "'a \<Rightarrow> 'a" where "RTIMERTICKS_TO_US_64 t = t"

definition CLOCK_SECOND :: nat where "CLOCK_SECOND = 1000"

section \<open>Keep-alive settings\<close>

datatype tsch_keepalive_status =
  KEEPALIVE_SCHEDULING_UNCHANGED | KEEPALIVE_SCHEDULE_OR_STOP | KEEPALIVE_SEND_IMMEDIATELY

text \<open>
  The static variables of the file and of the two functions that have some; pending tells that
  tsch-pending-events-process has been polled.
\<close>

record timesync =
  drift_ppm :: int
  compensated_ticks :: int
  timesync_entry_count :: u8
  asn_since_last_learning :: u32
  last_timesource_neighbor :: "nat option"
  entry_buffer :: "int list"
  entry_pos :: u8
  ppm_remainder :: int
  tick_conversion_error :: int
  base_drift_remainder :: int
  base_drift_tick_conversion_error :: int
  min_drift_seen :: int
  max_drift_seen :: int
  keepalive_status :: tsch_keepalive_status
  tsch_current_ka_timeout :: nat
  pending :: bool

definition TSCH_MAX_KEEPALIVE_TIMEOUT :: nat where "TSCH_MAX_KEEPALIVE_TIMEOUT = 60 * CLOCK_SECOND"

definition tsch_schedule_keepalive :: "bool \<Rightarrow> timesync \<Rightarrow> timesync" where
  "tsch_schedule_keepalive immediate s =
     (if immediate then s\<lparr>keepalive_status := KEEPALIVE_SEND_IMMEDIATELY\<rparr>
      else if keepalive_status s \<noteq> KEEPALIVE_SEND_IMMEDIATELY then s\<lparr>keepalive_status := KEEPALIVE_SCHEDULE_OR_STOP\<rparr>
      else s)\<lparr>pending := True\<rparr>"

definition tsch_set_ka_timeout :: "nat \<Rightarrow> timesync \<Rightarrow> timesync" where
  "tsch_set_ka_timeout timeout s = tsch_schedule_keepalive False (s\<lparr>tsch_current_ka_timeout := timeout\<rparr>)"

section \<open>Learning the drift\<close>

definition TSCH_DRIFT_UNIT :: int where "TSCH_DRIFT_UNIT = 1000 * 1000 * 256"

definition NUM_TIMESYNC_ENTRIES :: nat where "NUM_TIMESYNC_ENTRIES = 8"

definition tsch_adaptive_timesync_get_drift_ppm :: "timesync \<Rightarrow> int" where
  "tsch_adaptive_timesync_get_drift_ppm s = drift_ppm s sdiv 256"

definition timesync_entry_add :: "int \<Rightarrow> timesync \<Rightarrow> (int \<times> timesync) option" where
  "timesync_entry_add v s = do {
     let s = (if timesync_entry_count s = 0 then s\<lparr>entry_pos := 0\<rparr> else s);
     buf \<leftarrow> wr (entry_buffer s) (unat (entry_pos s)) v;
     let s = s\<lparr>entry_buffer := buf\<rparr>;
     let s = (if unat (timesync_entry_count s) < NUM_TIMESYNC_ENTRIES
              then s\<lparr>timesync_entry_count := timesync_entry_count s + 1\<rparr>
              else tsch_set_ka_timeout TSCH_MAX_KEEPALIVE_TIMEOUT s);
     let s = s\<lparr>entry_pos := of_nat ((unat (entry_pos s) + 1) mod NUM_TIMESYNC_ENTRIES)\<rparr>;
     sum \<leftarrow> for_upt 0 (unat (timesync_entry_count s)) (\<lambda>i x. do { b \<leftarrow> rd buf i; i32 (x + b) }) 0;
     Some (sum sdiv uint (timesync_entry_count s), s) }"

text \<open>timeslot-length is the entry of tsch-timing.\<close>

definition timesync_learn_drift_ticks :: "u64 \<Rightarrow> u32 \<Rightarrow> int \<Rightarrow> timesync \<Rightarrow> timesync option" where
  "timesync_learn_drift_ticks timeslot_length time_delta_asn drift_ticks s = do {
     let time_delta_ticks = to_i32 (uint (ucast time_delta_asn * timeslot_length));
     real_drift_ticks \<leftarrow> i32 (drift_ticks + compensated_ticks s);
     if time_delta_ticks = 0 then None
     else do {
       let last_drift_ppm = to_i32 ((real_drift_ticks * TSCH_DRIFT_UNIT) sdiv time_delta_ticks);
       (ppm, s) \<leftarrow> timesync_entry_add last_drift_ppm s;
       Some (s\<lparr>drift_ppm := ppm\<rparr>) } }"

definition tsch_adaptive_timesync_reset :: "timesync \<Rightarrow> timesync" where
  "tsch_adaptive_timesync_reset s = s\<lparr>last_timesource_neighbor := None, drift_ppm := 0,
     timesync_entry_count := 0, compensated_ticks := 0, asn_since_last_learning := 0\<rparr>"

text \<open>timing-us and timing are the timeslot length in microseconds and in ticks.\<close>

definition tsch_timesync_update :: "u16 \<Rightarrow> u64 \<Rightarrow> nat option \<Rightarrow> u16 \<Rightarrow> int \<Rightarrow> timesync \<Rightarrow> timesync option" where
  "tsch_timesync_update timing_us timing n time_delta_asn drift_correction s = do {
     s \<leftarrow> (if last_timesource_neighbor s \<noteq> n
          then Some ((tsch_adaptive_timesync_reset s)\<lparr>last_timesource_neighbor := n\<rparr>)
          else do {
            let s = s\<lparr>asn_since_last_learning := asn_since_last_learning s + ucast time_delta_asn\<rparr>;
            if timing_us = 0 then None
            else if uint (asn_since_last_learning s) \<ge> 4 * (1000000 div uint timing_us) then do {
              s \<leftarrow> timesync_learn_drift_ticks timing (asn_since_last_learning s) drift_correction s;
              Some (s\<lparr>compensated_ticks := 0, asn_since_last_learning := 0\<rparr>) }
            else do {
              c \<leftarrow> i32 (compensated_ticks s + drift_correction);
              Some (s\<lparr>compensated_ticks := c\<rparr>) } });
     Some (s\<lparr>min_drift_seen := min drift_correction (min_drift_seen s),
             max_drift_seen := max drift_correction (max_drift_seen s)\<rparr>) }"

section \<open>Compensating the drift\<close>

text \<open>
  The result, the new remainder and the new conversion error. In the clamped case the quotient is
  computed with the unsigned type of RTIMER-ARCH-SECOND.
\<close>

definition compensate_internal :: "u32 \<Rightarrow> int \<Rightarrow> int \<Rightarrow> int \<Rightarrow> (int \<times> int \<times> int) option" where
  "compensate_internal time_delta_usec ppm rem tick_error = do {
     let d = uint time_delta_usec * ppm + rem;
     let amount = to_i32 (d sdiv TSCH_DRIFT_UNIT);
     let rem = to_i32 (d - amount * TSCH_DRIFT_UNIT);
     amount \<leftarrow> i32 (amount + tick_error);
     let amount_ticks = US_TO_RTIMERTICKS amount;
     let tick_error = to_i16 (amount - RTIMERTICKS_TO_US amount_ticks);
     a \<leftarrow> i32 (abs amount_ticks);
     Some (if a > uint (RTIMER_ARCH_SECOND div 128)
           then to_i32 (uint ((if amount_ticks > 0 then RTIMER_ARCH_SECOND else - RTIMER_ARCH_SECOND) div 128))
           else amount_ticks, rem, tick_error) }"

text \<open>The first argument is TSCH-BASE-DRIFT-PPM.\<close>

definition tsch_timesync_adaptive_compensate :: "int \<Rightarrow> u64 \<Rightarrow> timesync \<Rightarrow> (int \<times> timesync) option" where
  "tsch_timesync_adaptive_compensate base_drift time_delta_ticks s = do {
     let time_delta_usec = ucast (RTIMERTICKS_TO_US_64 time_delta_ticks);
     (result, s) \<leftarrow>
       (if drift_ppm s \<noteq> 0 \<and> last_timesource_neighbor s \<noteq> None then do {
          (r, rem, err) \<leftarrow> compensate_internal time_delta_usec (drift_ppm s) (ppm_remainder s) (tick_conversion_error s);
          c \<leftarrow> i32 (compensated_ticks s + r);
          Some (r, s\<lparr>ppm_remainder := rem, tick_conversion_error := err, compensated_ticks := c\<rparr>) }
        else Some (0, s));
     (if base_drift \<noteq> 0 then do {
        (r, rem, err) \<leftarrow> compensate_internal time_delta_usec (256 * base_drift) (base_drift_remainder s)
            (base_drift_tick_conversion_error s);
        result \<leftarrow> i32 (result + r);
        Some (result, s\<lparr>base_drift_remainder := rem, base_drift_tick_conversion_error := err\<rparr>) }
      else Some (result, s)) }"

section \<open>Messages\<close>

text \<open>
  The functions above write messages into the TSCH log, which their callers keep: one when the drift is
  learned, and one for each compensation that is clamped.
\<close>

definition learn_message :: "u16 \<Rightarrow> nat option \<Rightarrow> u16 \<Rightarrow> timesync \<Rightarrow> bool" where
  "learn_message timing_us n time_delta_asn s \<longleftrightarrow> last_timesource_neighbor s = n
     \<and> uint (asn_since_last_learning s + ucast time_delta_asn) \<ge> 4 * (1000000 div uint timing_us)"

definition too_big :: "u32 \<Rightarrow> int \<Rightarrow> int \<Rightarrow> int \<Rightarrow> bool" where
  "too_big time_delta_usec ppm rem tick_error \<longleftrightarrow>
     \<bar>US_TO_RTIMERTICKS (to_i32 ((uint time_delta_usec * ppm + rem) sdiv TSCH_DRIFT_UNIT) + tick_error)\<bar>
       > uint (RTIMER_ARCH_SECOND div 128)"

definition compensate_messages :: "int \<Rightarrow> u64 \<Rightarrow> timesync \<Rightarrow> nat" where
  "compensate_messages base_drift time_delta_ticks s =
     (let usec = ucast (RTIMERTICKS_TO_US_64 time_delta_ticks) in
      (if drift_ppm s \<noteq> 0 \<and> last_timesource_neighbor s \<noteq> None
          \<and> too_big usec (drift_ppm s) (ppm_remainder s) (tick_conversion_error s) then 1 else 0)
      + (if base_drift \<noteq> 0
          \<and> too_big usec (256 * base_drift) (base_drift_remainder s) (base_drift_tick_conversion_error s) then 1 else 0))"

section \<open>The moving average\<close>

text \<open>The last eight of a list of measurements, and adding a list one by one.\<close>

definition ultimos :: "'a list \<Rightarrow> 'a list" where
  "ultimos vs = drop (length vs - NUM_TIMESYNC_ENTRIES) vs"

fun entradas_add :: "int list \<Rightarrow> int \<Rightarrow> timesync \<Rightarrow> (int \<times> timesync) option" where
  "entradas_add [] r s = Some (r, s)"
| "entradas_add (v # vs) r s = do { (r, s) \<leftarrow> timesync_entry_add v s; entradas_add vs r s }"

lemma entradas_add_append:
  "entradas_add (vs @ ws) r s = entradas_add vs r s \<bind> (\<lambda>(r, s). entradas_add ws r s)"
  by (induction vs arbitrary: r s) (auto split: bind_splits)

text \<open>The array after the measurements vs: measurement i is at position i mod 8.\<close>

definition guardou :: "int list \<Rightarrow> timesync \<Rightarrow> bool" where
  "guardou vs s \<longleftrightarrow> length (entry_buffer s) = 8
     \<and> unat (timesync_entry_count s) = min 8 (length vs)
     \<and> (vs \<noteq> [] \<longrightarrow> unat (entry_pos s) = length vs mod 8)
     \<and> (\<forall>i < length vs. length vs \<le> i + 8 \<longrightarrow> entry_buffer s ! (i mod 8) = vs ! i)"

definition medida_ok :: "int \<Rightarrow> bool" where
  "medida_ok x \<longleftrightarrow> \<bar>x\<bar> < 2 ^ 28"

lemma sum_list_bound: "\<forall>x \<in> set xs. medida_ok x \<Longrightarrow> \<bar>sum_list xs\<bar> \<le> int (length xs) * 2 ^ 28"
  by (induction xs) (auto simp: medida_ok_def)

lemma for_upt_sum:
  assumes "n \<le> length xs" and "\<forall>x \<in> set (take n xs). medida_ok x" and "n \<le> 8"
  shows "for_upt 0 n (\<lambda>i x. do { b \<leftarrow> rd xs i; i32 (x + b) }) 0 = Some (sum_list (take n xs))"
proof -
  have "runs_to (for_upt 0 n (\<lambda>i x. do { b \<leftarrow> rd xs i; i32 (x + b) }) 0) (\<lambda>x. x = sum_list (take n xs))"
  proof (rule for_upt_inv)
    fix i x
    assume i: "0 \<le> i" "i < n" and x: "x = sum_list (take i xs)"
    have "take n xs ! i \<in> set (take n xs)" using i assms(1) by (intro nth_mem) simp
    then have m: "medida_ok (xs ! i)" using assms(2) i by simp
    have "\<bar>sum_list (take i xs)\<bar> \<le> int (length (take i xs)) * 2 ^ 28"
      by (rule sum_list_bound) (use assms(2) i set_take_subset_set_take [of i n xs] in auto)
    then have "\<bar>sum_list (take i xs)\<bar> \<le> 7 * 2 ^ 28" using i assms by simp
    then have "i32 (x + xs ! i) = Some (x + xs ! i)" using m x
      unfolding i32_def medida_ok_def by (simp add: abs_le_iff abs_less_iff)
    then show "runs_to (do { b \<leftarrow> rd xs i; i32 (x + b) }) (\<lambda>x. x = sum_list (take (Suc i) xs))"
      using i assms(1) x by (simp add: rd_def take_Suc_conv_app_nth)
  qed simp_all
  then show ?thesis by (simp add: runs_to_eq)
qed

text \<open>Position by position, the array holds the last eight measurements.\<close>

lemma guardou_set:
  assumes "guardou vs s"
  shows "sum_list (take (min 8 (length vs)) (entry_buffer s)) = sum_list (ultimos vs)"
    and "set (take (min 8 (length vs)) (entry_buffer s)) \<subseteq> set vs"
proof -
  let ?n = "length vs" and ?B = "entry_buffer s" and ?k = "min 8 (length vs)"
  have l: "length ?B = 8" and e: "?B ! (i mod 8) = vs ! i" if "i < ?n" "?n \<le> i + 8" for i
    using assms that by (auto simp: guardou_def)
  have l: "length ?B = 8" using assms by (simp add: guardou_def)
  have bij: "bij_betw (\<lambda>i. i mod 8) {?n - 8..<?n} {..<?k}"
    unfolding bij_betw_def
  proof
    have inj: "a = b" if "a mod 8 = b mod 8" "a \<le> b" "b < a + 8" for a b :: nat
    proof -
      have "8 dvd b - a" using that(1,2) by (metis mod_eq_dvd_iff_nat)
      then obtain k where "b - a = 8 * k" ..
      then show ?thesis using that(2,3) by (cases k) auto
    qed
    show i: "inj_on (\<lambda>i. i mod 8) {?n - 8..<?n}"
    proof (rule inj_onI)
      fix a b
      assume ab: "a \<in> {?n - 8..<?n}" "b \<in> {?n - 8..<?n}" "a mod 8 = b mod 8"
      then have "b < a + 8" "a < b + 8" by auto
      then show "a = b" using inj [of a b] inj [of b a] ab(3) by (cases "a \<le> b") simp_all
    qed
    have "(\<lambda>i. i mod 8) ` {?n - 8..<?n} \<subseteq> {..<?k}"
      by (cases "8 \<le> ?n") auto
    moreover have "card ((\<lambda>i. i mod 8) ` {?n - 8..<?n}) = card {..<?k}"
      using card_image [OF i] by simp
    ultimately show "(\<lambda>i. i mod 8) ` {?n - 8..<?n} = {..<?k}" by (simp add: card_subset_eq)
  qed
  have "sum_list (take ?k ?B) = (\<Sum>j < ?k. ?B ! j)"
    using l by (simp add: sum_list_sum_nth atLeast0LessThan)
  also have "\<dots> = (\<Sum>i \<in> {?n - 8..<?n}. ?B ! (i mod 8))"
    by (rule sum.reindex_bij_betw [OF bij, symmetric])
  also have "\<dots> = (\<Sum>i \<in> {?n - 8..<?n}. vs ! i)" by (rule sum.cong) (auto intro: e)
  also have "\<dots> = (\<Sum>i \<in> {0..<?n - (?n - 8)}. vs ! (i + (?n - 8)))"
    using sum.shift_bounds_nat_ivl [of "\<lambda>i. vs ! i" 0 "?n - 8" "?n - (?n - 8)"] by simp
  also have "\<dots> = sum_list (ultimos vs)"
    unfolding ultimos_def NUM_TIMESYNC_ENTRIES_def sum_list_sum_nth
    by (intro sum.cong) (auto simp: add.commute)
  finally show "sum_list (take ?k ?B) = sum_list (ultimos vs)" .
  have "?B ! j \<in> set vs" if "j < ?k" for j
  proof -
    obtain i where "i \<in> {?n - 8..<?n}" "j = i mod 8" using bij \<open>j < ?k\<close> unfolding bij_betw_def by blast
    then show ?thesis using e [of i] by auto
  qed
  then show "set (take ?k ?B) \<subseteq> set vs" by (auto simp: in_set_conv_nth)
qed

lemma entry_add_run:
  assumes g: "guardou vs s" and v: "\<forall>x \<in> set (vs @ [v]). medida_ok x"
  shows "\<exists>s'. timesync_entry_add v s = Some (sum_list (ultimos (vs @ [v])) sdiv int (min 8 (Suc (length vs))), s')
     \<and> guardou (vs @ [v]) s'"
proof -
  let ?n = "length vs"
  let ?p = "?n mod 8"
  define s1 where "s1 = (if timesync_entry_count s = 0 then s\<lparr>entry_pos := 0\<rparr> else s)"
  have g1: "length (entry_buffer s) = 8" "unat (timesync_entry_count s) = min 8 ?n"
    "\<And>i. i < ?n \<Longrightarrow> ?n \<le> i + 8 \<Longrightarrow> entry_buffer s ! (i mod 8) = vs ! i"
    "vs \<noteq> [] \<Longrightarrow> unat (entry_pos s) = ?p"
    using g by (auto simp: guardou_def)
  have pos: "unat (entry_pos s1) = ?p"
  proof (cases "timesync_entry_count s = 0")
    case True
    then have "vs = []" using g1(2) by (simp add: min_def split: if_splits)
    then show ?thesis using True by (simp add: s1_def)
  next
    case False
    then have "vs \<noteq> []" using g1(2) unat_eq_0 [of "timesync_entry_count s"] by (cases vs) simp_all
    then show ?thesis using g1(4) False by (simp add: s1_def)
  qed
  define b where "b = (entry_buffer s)[?p := v]"
  have w: "wr (entry_buffer s1) (unat (entry_pos s1)) v = Some b"
    using g1(1) by (simp add: pos wr_def b_def) (simp add: s1_def)
  define s2 where "s2 = s1\<lparr>entry_buffer := b\<rparr>"
  define s3 where "s3 = (if unat (timesync_entry_count s2) < NUM_TIMESYNC_ENTRIES
              then s2\<lparr>timesync_entry_count := timesync_entry_count s2 + 1\<rparr>
              else tsch_set_ka_timeout TSCH_MAX_KEEPALIVE_TIMEOUT s2)"
  define s' where "s' = s3\<lparr>entry_pos := of_nat ((unat (entry_pos s3) + 1) mod NUM_TIMESYNC_ENTRIES)\<rparr>"
  have c2: "unat (timesync_entry_count s2) = min 8 ?n" "entry_buffer s2 = b" "entry_pos s2 = entry_pos s1"
  proof -
    have "timesync_entry_count s1 = timesync_entry_count s" by (simp add: s1_def)
    then show "unat (timesync_entry_count s2) = min 8 ?n" using g1(2) by (simp add: s2_def)
  qed (simp_all add: s2_def)
  have c3: "unat (timesync_entry_count s3) = min 8 (Suc ?n)" "entry_buffer s3 = b" "entry_pos s3 = entry_pos s1"
    using c2 unat_Suc8 [of "timesync_entry_count s2"]
    by (auto simp: s3_def NUM_TIMESYNC_ENTRIES_def tsch_set_ka_timeout_def tsch_schedule_keepalive_def min_def)
  have "unat (of_nat ((?p + 1) mod 8) :: u8) = Suc ?n mod 8"
    by (simp add: unsigned_of_nat take_bit_nat_eq_self mod_Suc_eq)
  then have p': "unat (entry_pos s') = Suc ?n mod 8" using pos c3(3) by (simp add: s'_def NUM_TIMESYNC_ENTRIES_def)
  have ne: "i mod 8 \<noteq> ?p" if "i < ?n" "Suc ?n \<le> i + 8" for i
  proof
    assume "i mod 8 = ?p"
    then have "8 dvd ?n - i" using that by (metis mod_eq_dvd_iff_nat less_imp_le)
    then obtain k where "?n - i = 8 * k" ..
    then show False using that by (cases k) auto
  qed
  have g': "guardou (vs @ [v]) s'"
    unfolding guardou_def
  proof (intro conjI allI impI)
    show "unat (entry_pos s') = length (vs @ [v]) mod 8" using p' by simp
    show "unat (timesync_entry_count s') = min 8 (length (vs @ [v]))" using c3(1) by (simp add: s'_def)
    show "length (entry_buffer s') = 8" using g1(1) c3(2) by (simp add: s'_def b_def)
    fix i
    assume i: "i < length (vs @ [v])" "length (vs @ [v]) \<le> i + 8"
    show "entry_buffer s' ! (i mod 8) = (vs @ [v]) ! i"
    proof (cases "i = ?n")
      case True
      then show ?thesis using g1(1) c3(2) by (simp add: s'_def b_def)
    next
      case False
      then have "i < ?n" "Suc ?n \<le> i + 8" using i by auto
      then show ?thesis using g1(3) [of i] ne [of i] c3(2) by (simp add: s'_def b_def nth_append)
    qed
  qed
  have B: "entry_buffer s' = b" using c3(2) by (simp add: s'_def)
  have "for_upt 0 (unat (timesync_entry_count s')) (\<lambda>i x. do { b' \<leftarrow> rd b i; i32 (x + b') }) 0
      = Some (sum_list (ultimos (vs @ [v])))"
    using for_upt_sum [of "min 8 (Suc ?n)" b] guardou_set [OF g'] v g1(1) c3(1) unfolding B
    by (auto simp: s'_def b_def)
  moreover have "uint (timesync_entry_count s') = int (min 8 (Suc ?n))"
  proof -
    have "unat (timesync_entry_count s') = min 8 (Suc ?n)" using c3(1) by (simp add: s'_def)
    then show ?thesis unfolding uint_unat by (simp only:)
  qed
  ultimately have "timesync_entry_add v s
      = Some (sum_list (ultimos (vs @ [v])) sdiv int (min 8 (Suc (length vs))), s')"
    unfolding timesync_entry_add_def Let_def s1_def [symmetric] w bind.bind_lunit s2_def [symmetric]
      s3_def [symmetric] s'_def [symmetric] by simp
  then show ?thesis using g' by blast
qed

lemma guardou_inicio: "timesync_entry_count s = 0 \<Longrightarrow> length (entry_buffer s) = 8 \<Longrightarrow> guardou [] s"
  by (simp add: guardou_def)

text \<open>The average after any number of measurements since the last reset.\<close>

lemma entradas_run:
  assumes "guardou us s" and "\<forall>x \<in> set (us @ vs). medida_ok x" and "vs \<noteq> []"
  shows "\<exists>s'. entradas_add vs r s
      = Some (sum_list (ultimos (us @ vs)) sdiv int (min 8 (length (us @ vs))), s') \<and> guardou (us @ vs) s'"
  using assms
proof (induction vs arbitrary: us s r)
  case Nil
  then show ?case by simp
next
  case (Cons v vs)
  obtain s1 where s1: "timesync_entry_add v s = Some (sum_list (ultimos (us @ [v])) sdiv int (min 8 (Suc (length us))), s1)"
    "guardou (us @ [v]) s1"
    using entry_add_run [OF Cons.prems(1), of v] Cons.prems(2) by auto
  show ?case
  proof (cases "vs = []")
    case True
    then show ?thesis using s1 by simp
  next
    case False
    then show ?thesis using Cons.IH [OF s1(2)] Cons.prems(2) s1(1) by simp
  qed
qed

section \<open>Compensation without accumulated error\<close>

lemma drift_unit_pos: "0 < TSCH_DRIFT_UNIT" by (simp add: TSCH_DRIFT_UNIT_def)

lemma sdiv_unit:
  fixes d :: int
  shows "\<bar>d - d sdiv TSCH_DRIFT_UNIT * TSCH_DRIFT_UNIT\<bar> < TSCH_DRIFT_UNIT"
    and "\<bar>d\<bar> \<le> k * TSCH_DRIFT_UNIT \<Longrightarrow> \<bar>d sdiv TSCH_DRIFT_UNIT\<bar> \<le> k"
proof -
  let ?U = TSCH_DRIFT_UNIT
  have q: "d sdiv ?U = sgn d * (\<bar>d\<bar> div ?U)" by (simp add: signed_divide_int_def TSCH_DRIFT_UNIT_def)
  have m: "\<bar>d\<bar> - \<bar>d\<bar> div ?U * ?U = \<bar>d\<bar> mod ?U" by (simp add: minus_div_mult_eq_mod)
  have "d - d sdiv ?U * ?U = sgn d * (\<bar>d\<bar> - \<bar>d\<bar> div ?U * ?U)"
    unfolding q by (simp add: right_diff_distrib mult_sgn_abs mult.assoc)
  then have "\<bar>d - d sdiv ?U * ?U\<bar> = \<bar>sgn d\<bar> * (\<bar>d\<bar> mod ?U)"
    using m drift_unit_pos by (simp add: abs_mult)
  moreover have "0 \<le> \<bar>d\<bar> mod ?U" "\<bar>d\<bar> mod ?U < ?U" using drift_unit_pos by auto
  moreover have "\<bar>sgn d\<bar> \<le> 1" by (simp add: sgn_if)
  ultimately show "\<bar>d - d sdiv ?U * ?U\<bar> < ?U" by (simp add: sgn_if drift_unit_pos split: if_splits)
  assume "\<bar>d\<bar> \<le> k * ?U"
  then have "\<bar>d\<bar> div ?U \<le> k" using drift_unit_pos zdiv_mono1 [of "\<bar>d\<bar>" "k * ?U" ?U] by simp
  moreover have "0 \<le> \<bar>d\<bar> div ?U" using drift_unit_pos by (simp add: pos_imp_zdiv_nonneg_iff)
  moreover have "\<bar>d sdiv ?U\<bar> \<le> \<bar>\<bar>d\<bar> div ?U\<bar>" unfolding q abs_mult by (simp add: abs_sgn_eq)
  ultimately show "\<bar>d sdiv ?U\<bar> \<le> k" by linarith
qed

text \<open>A step small enough not to be clamped: what is left over is carried to the next one.\<close>

lemma compensate_step:
  assumes "\<bar>uint us * ppm\<bar> \<le> 7811 * TSCH_DRIFT_UNIT" and "\<bar>rem\<bar> < TSCH_DRIFT_UNIT"
  shows "\<exists>r rem'. compensate_internal us ppm rem 0 = Some (r, rem', 0)
     \<and> r * TSCH_DRIFT_UNIT + rem' = uint us * ppm + rem \<and> \<bar>rem'\<bar> < TSCH_DRIFT_UNIT \<and> \<bar>r\<bar> \<le> 7812"
proof -
  let ?U = TSCH_DRIFT_UNIT
  define d where "d = uint us * ppm + rem"
  have "\<bar>d\<bar> \<le> 7812 * ?U" using assms unfolding d_def by (simp add: abs_le_iff abs_less_iff)
  then have r: "\<bar>d sdiv ?U\<bar> \<le> 7812" by (rule sdiv_unit(2))
  then have i: "to_i32 (d sdiv ?U) = d sdiv ?U" by (intro to_i32_id) (auto simp: abs_le_iff)
  have m: "\<bar>d - d sdiv ?U * ?U\<bar> < ?U" by (rule sdiv_unit(1))
  then have j: "to_i32 (d - d sdiv ?U * ?U) = d - d sdiv ?U * ?U"
    by (intro to_i32_id) (auto simp: abs_less_iff TSCH_DRIFT_UNIT_def)
  have k: "i32 (d sdiv ?U) = Some (d sdiv ?U)" "i32 \<bar>d sdiv ?U\<bar> = Some \<bar>d sdiv ?U\<bar>"
    using r by (auto simp: i32_def abs_le_iff)
  have c: "\<not> \<bar>d sdiv ?U\<bar> > uint (RTIMER_ARCH_SECOND div 128)" using r by (simp add: RTIMER_ARCH_SECOND_def uint_div)
  have "compensate_internal us ppm rem 0 = Some (d sdiv ?U, d - d sdiv ?U * ?U, 0)"
    using c unfolding compensate_internal_def Let_def d_def [symmetric] i j add_0_right
      US_TO_RTIMERTICKS_def RTIMERTICKS_TO_US_def k bind.bind_lunit by (simp add: to_i16_def k)
  then show ?thesis using m r by (simp add: d_def)
qed

text \<open>The clamp: an amount is never more than a 128th of a second, and a step has a result.\<close>

lemma compensate_total:
  assumes "\<bar>ppm\<bar> \<le> 2 ^ 24" and "\<bar>rem\<bar> < TSCH_DRIFT_UNIT" and "\<bar>err\<bar> \<le> 2 ^ 15"
  shows "\<exists>r rem'. compensate_internal us ppm rem err = Some (r, rem', 0) \<and> \<bar>rem'\<bar> < TSCH_DRIFT_UNIT \<and> \<bar>r\<bar> \<le> 7813"
proof -
  let ?U = TSCH_DRIFT_UNIT
  define d where "d = uint us * ppm + rem"
  have u: "\<bar>uint us\<bar> < 2 ^ 32"
  proof -
    have "unat us < 4294967296" by (rule unat_less32)
    then have "int (unat us) < int 4294967296" by (simp only: of_nat_less_iff)
    then show ?thesis unfolding uint_unat by simp
  qed
  have "\<bar>uint us * ppm\<bar> \<le> 2 ^ 32 * 2 ^ 24" unfolding abs_mult
    by (rule mult_mono) (use u assms(1) in auto)
  then have "\<bar>d\<bar> \<le> 281474978 * ?U" using assms(2) unfolding d_def by (simp add: TSCH_DRIFT_UNIT_def)
  then have r: "\<bar>d sdiv ?U\<bar> \<le> 281474978" by (rule sdiv_unit(2))
  then have i: "to_i32 (d sdiv ?U) = d sdiv ?U" by (intro to_i32_id) (auto simp: abs_le_iff)
  have m: "\<bar>d - d sdiv ?U * ?U\<bar> < ?U" by (rule sdiv_unit(1))
  then have j: "to_i32 (d - d sdiv ?U * ?U) = d - d sdiv ?U * ?U"
    by (intro to_i32_id) (auto simp: abs_less_iff TSCH_DRIFT_UNIT_def)
  define a where "a = d sdiv ?U + err"
  have a: "i32 a = Some a" "i32 \<bar>a\<bar> = Some \<bar>a\<bar>" using r assms(3) by (auto simp: a_def i32_def abs_le_iff)
  have z: "to_i16 (a - a) = 0" by (simp add: to_i16_def)
  have e: "compensate_internal us ppm rem err = Some (if \<bar>a\<bar> > uint (RTIMER_ARCH_SECOND div 128)
           then to_i32 (uint ((if a > 0 then RTIMER_ARCH_SECOND else - RTIMER_ARCH_SECOND) div 128))
           else a, d - d sdiv ?U * ?U, 0)"
    unfolding compensate_internal_def Let_def d_def [symmetric] i j a_def [symmetric] a bind.bind_lunit
      US_TO_RTIMERTICKS_def RTIMERTICKS_TO_US_def z by (rule refl)
  have k: "uint (RTIMER_ARCH_SECOND div 128) = 7812"
    "to_i32 (uint (RTIMER_ARCH_SECOND div 128)) = 7812" "to_i32 (uint (- RTIMER_ARCH_SECOND div 128)) = -7813"
    by code_simp+
  have "\<bar>if \<bar>a\<bar> > uint (RTIMER_ARCH_SECOND div 128)
           then to_i32 (uint ((if a > 0 then RTIMER_ARCH_SECOND else - RTIMER_ARCH_SECOND) div 128))
           else a\<bar> \<le> 7813" using k by auto
  then show ?thesis using m unfolding e by blast
qed

definition sync_ok :: "nat \<Rightarrow> timesync \<Rightarrow> bool" where
  "sync_ok n y \<longleftrightarrow> \<bar>drift_ppm y\<bar> \<le> 2 ^ 24 \<and> \<bar>ppm_remainder y\<bar> < TSCH_DRIFT_UNIT \<and>
     \<bar>tick_conversion_error y\<bar> \<le> 2 ^ 15 \<and> \<bar>compensated_ticks y\<bar> + 7813 * int n < 2 ^ 31"

lemma adaptive_compensate_run:
  assumes "sync_ok (Suc n) y"
  shows "\<exists>r y'. tsch_timesync_adaptive_compensate 0 t y = Some (r, y') \<and> sync_ok n y' \<and> \<bar>r\<bar> \<le> 7813"
proof (cases "drift_ppm y \<noteq> 0 \<and> last_timesource_neighbor y \<noteq> None")
  case False
  then show ?thesis using assms by (auto simp: tsch_timesync_adaptive_compensate_def sync_ok_def)
next
  case True
  obtain r rem' where r: "compensate_internal (ucast (RTIMERTICKS_TO_US_64 t)) (drift_ppm y) (ppm_remainder y) (tick_conversion_error y)
      = Some (r, rem', 0)" "\<bar>rem'\<bar> < TSCH_DRIFT_UNIT" "\<bar>r\<bar> \<le> 7813"
    using compensate_total assms unfolding sync_ok_def by blast
  have "i32 (compensated_ticks y + r) = Some (compensated_ticks y + r)"
    using assms r(3) by (auto simp: i32_def sync_ok_def)
  then show ?thesis using True r assms by (auto simp: tsch_timesync_adaptive_compensate_def sync_ok_def)
qed

text \<open>A run of compensations, for a list of times, with the total of the results.\<close>

fun compensa :: "u64 list \<Rightarrow> int \<Rightarrow> timesync \<Rightarrow> (int \<times> timesync) option" where
  "compensa [] tot s = Some (tot, s)"
| "compensa (t # ts) tot s = do {
     (r, s) \<leftarrow> tsch_timesync_adaptive_compensate 0 t s;
     compensa ts (tot + r) s }"

lemma compensa_run:
  assumes "drift_ppm s \<noteq> 0" and "last_timesource_neighbor s \<noteq> None" and "tick_conversion_error s = 0"
    and "\<bar>ppm_remainder s\<bar> < TSCH_DRIFT_UNIT"
    and "\<forall>t \<in> set ts. unat t < 2 ^ 32 \<and> int (unat t) * \<bar>drift_ppm s\<bar> \<le> 7811 * TSCH_DRIFT_UNIT"
    and "\<bar>compensated_ticks s\<bar> + 7812 * int (length ts) < 2 ^ 31"
  shows "\<exists>R s'. compensa ts tot s = Some (tot + R, s') \<and> drift_ppm s' = drift_ppm s
     \<and> compensated_ticks s' = compensated_ticks s + R \<and> \<bar>ppm_remainder s'\<bar> < TSCH_DRIFT_UNIT
     \<and> R * TSCH_DRIFT_UNIT + ppm_remainder s' = (\<Sum>t \<leftarrow> ts. int (unat t)) * drift_ppm s + ppm_remainder s"
  using assms
proof (induction ts arbitrary: tot s)
  case Nil
  then show ?case by (intro exI [of _ 0] exI [of _ s]) simp
next
  case (Cons t ts)
  let ?u = "ucast t :: u32"
  have "unat t < 2 ^ 32" using Cons.prems(5) by simp
  then have u: "uint ?u = int (unat t)"
    by (simp add: uint_unat_ucast)
  have "\<bar>uint ?u * drift_ppm s\<bar> \<le> 7811 * TSCH_DRIFT_UNIT"
    using Cons.prems(5) unfolding u by (simp add: abs_mult)
  then obtain r rem' where c: "compensate_internal ?u (drift_ppm s) (ppm_remainder s) 0 = Some (r, rem', 0)"
    and e: "r * TSCH_DRIFT_UNIT + rem' = uint ?u * drift_ppm s + ppm_remainder s"
    and b: "\<bar>rem'\<bar> < TSCH_DRIFT_UNIT" "\<bar>r\<bar> \<le> 7812"
    using compensate_step [OF _ Cons.prems(4)] by blast
  have i: "i32 (compensated_ticks s + r) = Some (compensated_ticks s + r)"
    using Cons.prems(6) b(2) by (auto simp: i32_def)
  define s1 where "s1 = s\<lparr>ppm_remainder := rem', tick_conversion_error := 0, compensated_ticks := compensated_ticks s + r\<rparr>"
  have st: "tsch_timesync_adaptive_compensate 0 t s = Some (r, s1)"
    using Cons.prems(1,2,3) c i
    by (simp add: tsch_timesync_adaptive_compensate_def RTIMERTICKS_TO_US_64_def s1_def)
  have "\<exists>R s'. compensa ts (tot + r) s1 = Some (tot + r + R, s') \<and> drift_ppm s' = drift_ppm s1
     \<and> compensated_ticks s' = compensated_ticks s1 + R \<and> \<bar>ppm_remainder s'\<bar> < TSCH_DRIFT_UNIT
     \<and> R * TSCH_DRIFT_UNIT + ppm_remainder s' = (\<Sum>t \<leftarrow> ts. int (unat t)) * drift_ppm s1 + ppm_remainder s1"
    by (rule Cons.IH) (use Cons.prems b in \<open>auto simp: s1_def\<close>)
  then obtain R s' where R: "compensa ts (tot + r) s1 = Some (tot + r + R, s')" "drift_ppm s' = drift_ppm s"
    "compensated_ticks s' = compensated_ticks s + r + R" "\<bar>ppm_remainder s'\<bar> < TSCH_DRIFT_UNIT"
    "R * TSCH_DRIFT_UNIT + ppm_remainder s' = (\<Sum>t \<leftarrow> ts. int (unat t)) * drift_ppm s + rem'"
    by (auto simp: s1_def)
  have "(r + R) * TSCH_DRIFT_UNIT + ppm_remainder s'
      = (\<Sum>t \<leftarrow> t # ts. int (unat t)) * drift_ppm s + ppm_remainder s"
    using R(5) e unfolding u by (simp add: algebra_simps)
  then show ?case using R st by (intro exI [of _ "r + R"] exI [of _ s']) (simp add: add.assoc)
qed

end
