(* ===== verification/Tsch_Log.thy ===== *)
theory Tsch_Log
  imports Tsch_Queue Asn
begin

text \<open>
  os/net/mac/tsch/tsch-log.c: the log that is filled during the slots and read by the main program.
  Its entries are more than text: the main program finds the neighbors of a node and counts its
  packets in them. A full log drops entries; process-poll of the reading process is the flag log-polled.
  The entries of type message only carry text, which is left out.
\<close>

definition TSCH_LOG_QUEUE_LEN :: nat where "TSCH_LOG_QUEUE_LEN = 8"

record log_tx =
  lt_status :: mac_status
  lt_dest :: linkaddr
  lt_drift :: int
  lt_num_tx :: u8
  lt_datalen :: u8
  lt_is_data :: bool
  lt_drift_used :: bool
  lt_seqno :: u8

record log_rx =
  lr_src :: linkaddr
  lr_drift :: int
  lr_estimated_drift :: int
  lr_datalen :: u8
  lr_is_unicast :: bool
  lr_is_data :: bool
  lr_sec_level :: u8
  lr_drift_used :: bool
  lr_seqno :: u8

datatype log_body = tsch_log_tx log_tx | tsch_log_rx log_rx | tsch_log_message

record tsch_log_t =
  lg_body :: log_body
  lg_asn :: tsch_asn_t
  lg_link :: "nat option"
  lg_burst_count :: u8
  lg_channel :: u8
  lg_channel_offset :: u8

record tsch_log =
  log_ringbuf :: ringbufindex
  log_array :: "tsch_log_t list"
  log_dropped :: int
  log_active :: bool
  log_polled :: bool

definition tsch_log_commit :: "tsch_log \<Rightarrow> tsch_log" where
  "tsch_log_commit g =
     (if log_active g then g\<lparr>log_ringbuf := snd (ringbufindex_put (log_ringbuf g)), log_polled := True\<rparr> else g)"

text \<open>
  The macro TSCH-LOG-ADD with tsch-log-prepare-add: e is the entry with what is current when it is
  prepared. The static array has as many places as the ring buffer was initialised with.
\<close>

definition TSCH_LOG_ADD :: "tsch_log_t \<Rightarrow> tsch_log \<Rightarrow> tsch_log" where
  "TSCH_LOG_ADD e g =
     (let log_index = ringbufindex_peek_put (log_ringbuf g) in
      if log_index \<noteq> -1 then tsch_log_commit (g\<lparr>log_array := (log_array g)[nat log_index := e]\<rparr>)
      else g\<lparr>log_dropped := log_dropped g + 1\<rparr>)"

definition tsch_log_init :: "tsch_log \<Rightarrow> tsch_log" where
  "tsch_log_init g =
     (if \<not> log_active g then g\<lparr>log_ringbuf := ringbufindex_init (of_nat TSCH_LOG_QUEUE_LEN), log_active := True\<rparr> else g)"

section \<open>What a log holds\<close>

text \<open>The type of the log and its entries, oldest first.\<close>

definition log_ok :: "tsch_log \<Rightarrow> bool" where
  "log_ok g \<longleftrightarrow> rb_ok (log_ringbuf g) \<and> rb_sz (log_ringbuf g) = TSCH_LOG_QUEUE_LEN \<and> length (log_array g) = TSCH_LOG_QUEUE_LEN"

definition entradas :: "tsch_log \<Rightarrow> tsch_log_t list" where
  "entradas g = rbi.conteudo (log_array g) (log_ringbuf g)"

definition log_cheio :: "tsch_log \<Rightarrow> bool" where
  "log_cheio g \<longleftrightarrow> ringbufindex_peek_put (log_ringbuf g) = -1"

lemma log_add_run:
  assumes "log_ok g" and "log_active g"
  shows "log_ok (TSCH_LOG_ADD e g)" and "log_active (TSCH_LOG_ADD e g)"
    and "if log_cheio g then entradas (TSCH_LOG_ADD e g) = entradas g \<and> log_dropped (TSCH_LOG_ADD e g) = log_dropped g + 1
       else entradas (TSCH_LOG_ADD e g) = entradas g @ [e] \<and> log_polled (TSCH_LOG_ADD e g)"
proof -
  let ?r = "log_ringbuf g"
  have r: "rb_ok ?r" "rb_sz ?r = TSCH_LOG_QUEUE_LEN" "length (log_array g) = rb_sz ?r" using assms(1) by (simp_all add: log_ok_def)
  show "log_active (TSCH_LOG_ADD e g)" using assms(2) by (simp add: TSCH_LOG_ADD_def tsch_log_commit_def Let_def)
  have "log_ok (TSCH_LOG_ADD e g) \<and> (if log_cheio g then entradas (TSCH_LOG_ADD e g) = entradas g \<and> log_dropped (TSCH_LOG_ADD e g) = log_dropped g + 1
       else entradas (TSCH_LOG_ADD e g) = entradas g @ [e] \<and> log_polled (TSCH_LOG_ADD e g))"
  proof (cases "log_cheio g")
    case True
    then show ?thesis using assms(1) by (simp add: log_cheio_def TSCH_LOG_ADD_def log_ok_def entradas_def)
  next
    case False
    have l: "length (rb_els ?r) + 1 < rb_sz ?r"
      using rbi.els_ok [OF r(1)] rbi.full [OF r(1)] False by (cases "length (rb_els ?r) + 1 = rb_sz ?r") (auto simp: log_cheio_def)
    have "rb_ok (snd (ringbufindex_put ?r))" "rb_sz (snd (ringbufindex_put ?r)) = rb_sz ?r"
      using rbi.room [OF r(1) l] by auto
    then show ?thesis
      using r False assms(2) rbi.write_put [OF r(1) l r(3), of e]
      by (simp add: TSCH_LOG_ADD_def tsch_log_commit_def log_cheio_def log_ok_def entradas_def)
  qed
  then show "log_ok (TSCH_LOG_ADD e g)" "if log_cheio g then entradas (TSCH_LOG_ADD e g) = entradas g \<and> log_dropped (TSCH_LOG_ADD e g) = log_dropped g + 1
       else entradas (TSCH_LOG_ADD e g) = entradas g @ [e] \<and> log_polled (TSCH_LOG_ADD e g)" by simp_all
qed

lemma log_init_run:
  assumes "\<not> log_active g" and "length (log_array g) = TSCH_LOG_QUEUE_LEN"
  shows "log_ok (tsch_log_init g) \<and> log_active (tsch_log_init g) \<and> entradas (tsch_log_init g) = []"
proof -
  have "rb_ok (ringbufindex_init 8)" "rb_sz (ringbufindex_init 8) = 8" "rb_els (ringbufindex_init 8) = []"
    using rb_init_ok [of 3] by (auto simp: rb_ok_def)
  then show ?thesis using assms by (simp add: tsch_log_init_def log_ok_def entradas_def TSCH_LOG_QUEUE_LEN_def rbi.conteudo_def)
qed

end
