(* ===== verification/Slot_Operation.thy ===== *)
theory Slot_Operation
  imports Tsch_Packet Queuebuf Tsch_Schedule Tsch_Timesync Tsch_Log
begin

text \<open>
  os/net/mac/tsch/tsch-slot-operation.c: what a node does in one timeslot. The protothreads of the
  file give up the processor only to wait for a time of the slot, so a slot is modelled as one
  step: every wait is recorded as an event, and what the radio, the clocks and the random generator
  answer is the record ambiente. The build is that of the cooja platform: no radio delays, no guard
  time of the timer, no CCA, no link-layer security, TSCH-STATS-ON off; the radio policy and the
  longest burst are part of the record conf. Hardware frame filtering is on, so the radio accepts any
  address while an acknowledgement is awaited. input-queue-drop is the static counter of tsch-rx-slot.
\<close>

section \<open>State\<close>

record input_packet =
  payload :: "u8 list"
  rx_asn :: tsch_asn_t
  in_len :: int
  in_rssi :: int
  in_channel :: u8

datatype radio_event =
    Radio_on | Radio_off | Set_channel u8 | Prepare "u8 list" | Transmit int | Wake u64 u64 | Timer u64
  | Set_rx_mode u32
  | Poll_tsch_process

datatype tsch_radio_state_on_cmd =
    TSCH_RADIO_CMD_ON_START_OF_TIMESLOT | TSCH_RADIO_CMD_ON_WITHIN_TIMESLOT | TSCH_RADIO_CMD_ON_FORCE

datatype tsch_radio_state_off_cmd =
    TSCH_RADIO_CMD_OFF_END_OF_TIMESLOT | TSCH_RADIO_CMD_OFF_WITHIN_TIMESLOT | TSCH_RADIO_CMD_OFF_FORCE

record slot_state =
  so_sched :: sched
  so_sync :: timesync
  so_qb :: queuebufs
  so_pan_id :: u16
  dequeued_ringbuf :: ringbufindex
  dequeued_array :: "nat option list"
  input_ringbuf :: ringbufindex
  input_array :: "input_packet list"
  last_sync_asn :: tsch_asn_t
  tsch_last_sync_time :: u64
  drift_correction :: int
  is_drift_correction_used :: bool
  current_slot_start :: u64
  tsch_current_channel :: u8
  tsch_current_channel_offset :: u8
  backup_link :: "nat option"
  current_packet :: "nat option"
  current_neighbor :: "nat option"
  burst_link_scheduled :: bool
  tsch_current_burst_count :: int
  tsch_current_asn :: tsch_asn_t
  tsch_join_priority :: u8
  tsch_is_associated :: bool
  tsch_is_coordinator :: bool
  tsch_hopping_sequence :: "u8 list"
  tsch_hopping_sequence_length :: tsch_asn_divisor_t
  tsch_timing_us :: "u16 list"
  tsch_timing :: "u64 list"
  tx_count :: u64
  rx_count :: u64
  sync_count :: u64
  rx_frame :: frame802154_t
  input_queue_drop :: int
  so_log :: "radio_event list"
  so_tlog :: tsch_log

record conf =
  TSCH_RADIO_ON_DURING_TIMESLOT :: bool
  TSCH_BURST_MAX_LEN :: int
  max_hopping :: nat
  with_sixtop :: bool
  TSCH_BASE_DRIFT_PPM :: int

text \<open>
  The answers of the hardware in one slot: the results of prepare and transmit, the acknowledgement
  buffer and the length read into it, the packet seen, its arrival time and the packet read, its
  signal strength, clock-time, a random number, the readings of the timer when the next slot is
  scheduled and at the waits inside the slot, the two readings of the receive mode of the radio. Local variables of the C code that are not initialised are here too.
\<close>

record ambiente =
  prepare_ok :: bool
  transmit_ok :: bool
  ackbuf :: "u8 list"
  ack_read :: int
  packet_seen :: bool
  seen_at :: u64
  pending_packet :: bool
  read_payload :: "u8 list"
  read_len :: int
  last_rssi :: int
  clock_time :: u64
  random_rand :: u16
  rtimer_now :: "u64 list"
  ack_frame :: frame802154_t
  local_ies :: ieee802154_ies
  ack_hdrlen :: u8
  eack_params :: frame802154_t
  wait_now :: "nat \<Rightarrow> u64"
  rx_modes :: "u32 \<times> u32"

definition event :: "radio_event \<Rightarrow> slot_state \<Rightarrow> slot_state" where
  "event e s = s\<lparr>so_log := so_log s @ [e]\<rparr>"

definition on_queue :: "(tq \<Rightarrow> tq) \<Rightarrow> slot_state \<Rightarrow> slot_state" where
  "on_queue f s = s\<lparr>so_sched := (so_sched s)\<lparr>queue := f (queue (so_sched s))\<rparr>\<rparr>"

abbreviation so_queue :: "slot_state \<Rightarrow> tq" where
  "so_queue s \<equiv> queue (so_sched s)"

abbreviation pk_of :: "slot_state \<Rightarrow> nat \<Rightarrow> tsch_packet" where
  "pk_of s p \<equiv> mem (tq_pks (so_queue s)) ! p"

definition process_poll_pending :: "slot_state \<Rightarrow> slot_state" where
  "process_poll_pending s = s\<lparr>so_sync := (so_sync s)\<lparr>pending := True\<rparr>\<rparr>"

text \<open>An entry of the TSCH log, with what is current when it is prepared.\<close>

definition log_add :: "log_body \<Rightarrow> slot_state \<Rightarrow> slot_state" where
  "log_add b s = s\<lparr>so_tlog := TSCH_LOG_ADD \<lparr>lg_body = b, lg_asn = tsch_current_asn s, lg_link = current_link (so_sched s),
     lg_burst_count = word_of_int (tsch_current_burst_count s), lg_channel = tsch_current_channel s,
     lg_channel_offset = tsch_current_channel_offset s\<rparr> (so_tlog s)\<rparr>"

text \<open>The positions of the timing elements.\<close>

definition tsch_ts_tx_offset :: nat where "tsch_ts_tx_offset = 2"
definition tsch_ts_rx_offset :: nat where "tsch_ts_rx_offset = 3"
definition tsch_ts_rx_ack_delay :: nat where "tsch_ts_rx_ack_delay = 4"
definition tsch_ts_tx_ack_delay :: nat where "tsch_ts_tx_ack_delay = 5"
definition tsch_ts_rx_wait :: nat where "tsch_ts_rx_wait = 6"
definition tsch_ts_max_tx :: nat where "tsch_ts_max_tx = 10"
definition tsch_ts_timeslot_length :: nat where "tsch_ts_timeslot_length = 11"

definition TSCH_PACKET_MAX_LEN :: nat where "TSCH_PACKET_MAX_LEN = PACKETBUF_SIZE"

definition TSCH_PACKET_DURATION :: "int \<Rightarrow> u64" where
  "TSCH_PACKET_DURATION l = word_of_int (US_TO_RTIMERTICKS (32 * (l + 3)))"

definition SYNC_IE_BOUND :: "slot_state \<Rightarrow> int option" where
  "SYNC_IE_BOUND s = map_option (\<lambda>w. US_TO_RTIMERTICKS (uint w div 4)) (rd (tsch_timing_us s) tsch_ts_rx_wait)"

section \<open>Channel hopping\<close>

text \<open>Without a link selector the packet plays no part; the result is an unsigned byte.\<close>

definition tsch_get_channel_offset :: "tsch_link \<Rightarrow> u8" where
  "tsch_get_channel_offset l = ucast (l_choff l)"

definition tsch_calculate_channel :: "tsch_asn_t \<Rightarrow> u16 \<Rightarrow> slot_state \<Rightarrow> u8 option" where
  "tsch_calculate_channel asn channel_offset s = do {
     index_of_0 \<leftarrow> TSCH_ASN_MOD asn (tsch_hopping_sequence_length s);
     let index_of_offset = (unat index_of_0 + unat channel_offset) mod unat (val (tsch_hopping_sequence_length s));
     rd (tsch_hopping_sequence s) index_of_offset }"

section \<open>Timers\<close>

definition check_timer_miss :: "u64 \<Rightarrow> u64 \<Rightarrow> u64 \<Rightarrow> bool" where
  "check_timer_miss ref_time offset now =
     (let target = ref_time + offset;
          now_has_overflowed = now < ref_time;
          target_has_overflowed = target < ref_time
      in if now_has_overflowed = target_has_overflowed then target \<le> now else now_has_overflowed)"

definition RTIMER_GUARD :: u64 where "RTIMER_GUARD = 0"

text \<open>now is the reading of the timer; setting a timer always succeeds (sys/rtimer.c).\<close>

definition tsch_schedule_slot_operation :: "u64 \<Rightarrow> u64 \<Rightarrow> u64 \<Rightarrow> slot_state \<Rightarrow> bool \<times> slot_state" where
  "tsch_schedule_slot_operation now ref_time offset s =
     (let missed = check_timer_miss ref_time (offset - RTIMER_GUARD) now in
      if missed then (False, log_add tsch_log_message s) else (True, event (Timer (ref_time + offset)) s))"

text \<open>
  TSCH-SCHEDULE-AND-YIELD: the i-th wait of a slot. When its time is over already, which the reading of the
  timer tells, there is a message and no wait.
\<close>

definition wait_until :: "ambiente \<Rightarrow> nat \<Rightarrow> u64 \<Rightarrow> u64 \<Rightarrow> slot_state \<Rightarrow> slot_state" where
  "wait_until env i ref_time offset s =
     (let s = event (Wake ref_time offset) s in
      if check_timer_miss ref_time (offset - RTIMER_GUARD - RTIMER_GUARD) (wait_now env i) then log_add tsch_log_message s else s)"

section \<open>Packets\<close>

text \<open>The option byte of a link; a packet with its neighbor.\<close>

definition opt_of :: "slot_state \<Rightarrow> nat \<Rightarrow> u8" where
  "opt_of s l = l_options (link_at (so_sched s) l)"

definition get_packet_and_neighbor_for_link :: "nat \<Rightarrow> slot_state \<Rightarrow> (nat option \<times> nat option) option" where
  "get_packet_and_neighbor_for_link link s =
     (let q = so_queue s; k = link_at (so_sched s) link; opt = Some (l_options k) in
      if l_options k AND LINK_OPTION_TX \<noteq> 0 then do {
        (p, n) \<leftarrow> (if l_type k = LINK_TYPE_ADVERTISING \<or> l_type k = LINK_TYPE_ADVERTISING_ONLY
          then do { p \<leftarrow> tsch_queue_get_packet_for_nbr (n_eb q) opt q; Some (p, n_eb q) }
          else Some (None, None));
        (if l_type k \<noteq> LINK_TYPE_ADVERTISING_ONLY \<and> p = None then do {
           let n = tsch_queue_get_nbr (l_addr k) q;
           p \<leftarrow> tsch_queue_get_packet_for_nbr n opt q;
           (if p = None \<and> n = n_broadcast q then do {
              r \<leftarrow> tsch_queue_get_unicast_packet_for_any opt q;
              Some (case r of None \<Rightarrow> (None, n) | Some (p, n) \<Rightarrow> (Some p, Some n)) }
            else Some (p, n)) }
         else Some (p, n)) }
      else Some (None, None))"

definition update_link_backoff :: "nat option \<Rightarrow> slot_state \<Rightarrow> slot_state" where
  "update_link_backoff link s = (case link of None \<Rightarrow> s
     | Some l \<Rightarrow>
         if opt_of s l AND LINK_OPTION_TX \<noteq> 0 \<and> opt_of s l AND LINK_OPTION_SHARED \<noteq> 0
         then on_queue (tsch_queue_update_all_backoff_windows (l_addr (link_at (so_sched s) l))) s
         else s)"

definition tsch_get_network_uptime_ticks :: "u64 \<Rightarrow> slot_state \<Rightarrow> u64 option" where
  "tsch_get_network_uptime_ticks now s =
     (if \<not> tsch_is_associated s then Some (-1)
      else do {
        let uptime_asn = (ucast (ls4b (last_sync_asn s)) + push_bit 32 (ucast (ms1b (last_sync_asn s))) :: u64);
        len \<leftarrow> rd (tsch_timing s) tsch_ts_timeslot_length;
        Some (uptime_asn * len div (RTIMER_ARCH_SECOND div of_nat CLOCK_SECOND) + (now - tsch_last_sync_time s)) })"

section \<open>Radio\<close>

definition tsch_radio_on :: "conf \<Rightarrow> tsch_radio_state_on_cmd \<Rightarrow> slot_state \<Rightarrow> slot_state" where
  "tsch_radio_on c command s =
     (let do_it = (case command of
          TSCH_RADIO_CMD_ON_START_OF_TIMESLOT \<Rightarrow> TSCH_RADIO_ON_DURING_TIMESLOT c
        | TSCH_RADIO_CMD_ON_WITHIN_TIMESLOT \<Rightarrow> \<not> TSCH_RADIO_ON_DURING_TIMESLOT c
        | TSCH_RADIO_CMD_ON_FORCE \<Rightarrow> True)
      in if do_it then event Radio_on s else s)"

definition tsch_radio_off :: "conf \<Rightarrow> tsch_radio_state_off_cmd \<Rightarrow> slot_state \<Rightarrow> slot_state" where
  "tsch_radio_off c command s =
     (let do_it = (case command of
          TSCH_RADIO_CMD_OFF_END_OF_TIMESLOT \<Rightarrow> TSCH_RADIO_ON_DURING_TIMESLOT c
        | TSCH_RADIO_CMD_OFF_WITHIN_TIMESLOT \<Rightarrow> \<not> TSCH_RADIO_ON_DURING_TIMESLOT c
        | TSCH_RADIO_CMD_OFF_FORCE \<Rightarrow> True)
      in if do_it then event Radio_off s else s)"

section \<open>Transmission\<close>

text \<open>The bytes behind the pointer to a data block of a queue buffer.\<close>

definition so_bytes :: "slot_state \<Rightarrow> nat \<Rightarrow> u8 list option" where
  "so_bytes s r = map_option qd_data (rd (mem (buframmem (so_qb s))) r)"

definition set_bytes :: "nat \<Rightarrow> u8 list \<Rightarrow> slot_state \<Rightarrow> slot_state option" where
  "set_bytes r b s = do {
     d \<leftarrow> rd (mem (buframmem (so_qb s))) r;
     m \<leftarrow> wr (mem (buframmem (so_qb s))) r (d\<lparr>qd_data := b\<rparr>);
     Some (s\<lparr>so_qb := (so_qb s)\<lparr>buframmem := (buframmem (so_qb s))\<lparr>mem := m\<rparr>\<rparr>\<rparr>) }"

definition upd_pk :: "nat \<Rightarrow> (tsch_packet \<Rightarrow> tsch_packet) \<Rightarrow> slot_state \<Rightarrow> slot_state" where
  "upd_pk p f = on_queue (\<lambda>q. q\<lparr>tq_pks := (tq_pks q)\<lparr>mem := (mem (tq_pks q))[p := f (mem (tq_pks q) ! p)]\<rparr>\<rparr>)"

text \<open>
  The packet made ready: its data block, its length, its sequence number, whether an acknowledgement
  is waited for, whether a burst was requested, and whether the beacon could be updated.
\<close>

definition tx_packet ::
  "conf \<Rightarrow> ambiente \<Rightarrow> nat option \<Rightarrow> u8 \<Rightarrow> slot_state \<Rightarrow> (nat \<times> u8 \<times> u8 \<times> bool \<times> bool \<times> bool \<times> slot_state) option" where
  "tx_packet c env qb sync_ie_offset s = do {
     packet \<leftarrow> queuebuf_dataptr qb (so_qb s);
     len \<leftarrow> queuebuf_datalen qb (so_qb s);
     let packet_len = word_of_int len;
     n \<leftarrow> current_neighbor s;
     let do_wait_for_ack = \<not> is_broadcast (nbr_at (so_queue s) n);
     let burst_link_requested = (do_wait_for_ack
           \<and> tsch_current_burst_count s + 1 < TSCH_BURST_MAX_LEN c
           \<and> tsch_queue_nbr_packet_count (Some n) (so_queue s) > 1);
     r \<leftarrow> packet;
     s \<leftarrow> (if burst_link_requested then do {
             b \<leftarrow> so_bytes s r;
             b \<leftarrow> tsch_packet_set_frame_pending b;
             set_bytes r b s }
           else Some s);
     b \<leftarrow> so_bytes s r;
     seqno \<leftarrow> rd b 2;
     (packet_ready, s) \<leftarrow> (if Some n = n_eb (so_queue s) then do {
             (ok, b) \<leftarrow> tsch_packet_update_eb (tsch_current_asn s) (tsch_join_priority s) (local_ies env) b
                (uint packet_len) sync_ie_offset;
             s \<leftarrow> set_bytes r b s;
             Some (ok, s) }
           else Some (True, s));
     Some (r, packet_len, seqno, do_wait_for_ack, burst_link_requested, packet_ready, s) }"

text \<open>tsch-timesync-update with its message.\<close>

definition sync_update :: "nat option \<Rightarrow> u16 \<Rightarrow> int \<Rightarrow> slot_state \<Rightarrow> slot_state option" where
  "sync_update n time_delta_asn d s = do {
     us \<leftarrow> rd (tsch_timing_us s) tsch_ts_timeslot_length;
     ticks \<leftarrow> rd (tsch_timing s) tsch_ts_timeslot_length;
     y \<leftarrow> tsch_timesync_update us ticks n time_delta_asn d (so_sync s);
     let s' = (if learn_message us n time_delta_asn (so_sync s) then log_add tsch_log_message s else s);
     Some (s'\<lparr>so_sync := y\<rparr>) }"

text \<open>What the correction in the acknowledgement of a time source does.\<close>

definition tx_sync :: "ambiente \<Rightarrow> ieee802154_ies \<Rightarrow> slot_state \<Rightarrow> slot_state option" where
  "tx_sync env ies s = do {
     let eack_time_correction = US_TO_RTIMERTICKS (sint (ie_time_correction ies));
     let since_last_timesync = TSCH_ASN_DIFF (tsch_current_asn s) (last_sync_asn s);
     bound \<leftarrow> SYNC_IE_BOUND s;
     let d = (if eack_time_correction > bound then bound
              else if eack_time_correction < - bound then - bound else eack_time_correction);
     let s = (if d \<noteq> eack_time_correction then log_add tsch_log_message s else s);
     s \<leftarrow> sync_update (current_neighbor s) (ucast since_last_timesync) d s;
     Some (s\<lparr>drift_correction := d, is_drift_correction_used := True,
            so_sync := tsch_schedule_keepalive False (so_sync s),
            last_sync_asn := tsch_current_asn s, tsch_last_sync_time := clock_time env\<rparr>) }"

text \<open>The acknowledgement that was read, or that there is none.\<close>

definition tx_ack :: "conf \<Rightarrow> ambiente \<Rightarrow> u8 \<Rightarrow> bool \<Rightarrow> slot_state \<Rightarrow> (mac_status \<times> slot_state) option" where
  "tx_ack c env seqno burst_link_requested s = do {
     (ack_len, is_source, ies) \<leftarrow>
       (if ack_read env > 0 then do {
          let is_source = (case current_neighbor s of None \<Rightarrow> False | Some n \<Rightarrow> is_time_source (nbr_at (so_queue s) n));
          (ok, _, ies, _) \<leftarrow> tsch_packet_parse_eack (with_sixtop c) (max_hopping c) (so_pan_id s)
             (linkaddr_node_addr (so_sched s)) (ackbuf env) (ack_read env) seqno (ack_frame env)
             (Some (local_ies env)) (Some (ack_hdrlen env));
          ies \<leftarrow> ies;
          Some (if ok = 0 then 0 else ack_read env, is_source, ies) }
        else Some (ack_read env, False, local_ies env));
     if ack_len \<noteq> 0 then do {
       s \<leftarrow> (if is_source then tx_sync env ies s else Some s);
       Some (MAC_TX_OK, if burst_link_requested then s\<lparr>burst_link_scheduled := True\<rparr> else s) }
     else Some (MAC_TX_NOACK, s) }"

definition RADIO_RX_MODE_ADDRESS_FILTER :: u32 where "RADIO_RX_MODE_ADDRESS_FILTER = 1"

text \<open>The exchange on the air, from the prepared packet to the status.\<close>

definition tx_exchange ::
  "conf \<Rightarrow> ambiente \<Rightarrow> nat \<Rightarrow> u8 \<Rightarrow> u8 \<Rightarrow> bool \<Rightarrow> bool \<Rightarrow> bool \<Rightarrow> slot_state \<Rightarrow> (mac_status \<times> slot_state) option" where
  "tx_exchange c env r packet_len seqno do_wait_for_ack burst_link_requested packet_ready s = do {
     b \<leftarrow> so_bytes s r;
     let s = (if packet_ready then event (Prepare (take (unat packet_len) b)) s else s);
     if packet_ready \<and> prepare_ok env then do {
       tx_off \<leftarrow> rd (tsch_timing s) tsch_ts_tx_offset;
       max_tx \<leftarrow> rd (tsch_timing s) tsch_ts_max_tx;
       ack_delay \<leftarrow> rd (tsch_timing s) tsch_ts_rx_ack_delay;
       let s = event (Transmit (uint packet_len)) (wait_until env 0 (current_slot_start s) tx_off s);
       let s = s\<lparr>tx_count := tx_count s + 1\<rparr>;
       let tx_duration = min (TSCH_PACKET_DURATION (uint packet_len)) max_tx;
       let s = tsch_radio_off c TSCH_RADIO_CMD_OFF_WITHIN_TIMESLOT s;
       if transmit_ok env then
         if do_wait_for_ack then do {
           let s = event (Set_rx_mode (fst (rx_modes env) AND NOT RADIO_RX_MODE_ADDRESS_FILTER)) s;
           let s = wait_until env 1 (current_slot_start s) (tx_off + tx_duration + ack_delay) s;
           let s = tsch_radio_on c TSCH_RADIO_CMD_ON_WITHIN_TIMESLOT s;
           let s = tsch_radio_off c TSCH_RADIO_CMD_OFF_WITHIN_TIMESLOT s;
           let s = event (Set_rx_mode (snd (rx_modes env) OR RADIO_RX_MODE_ADDRESS_FILTER)) s;
           tx_ack c env seqno burst_link_requested s }
         else Some (MAC_TX_OK, s)
       else Some (MAC_TX_ERR, s) }
     else Some (MAC_TX_ERR, s) }"

text \<open>The entry of an attempt, made when the log has a place: the packet's queue buffer is read for it.\<close>

definition log_attempt :: "mac_status \<Rightarrow> nat \<Rightarrow> slot_state \<Rightarrow> slot_state option" where
  "log_attempt mac_tx_status p s =
     (if log_cheio (so_tlog s) then Some (log_add tsch_log_message s)
      else do {
        let qb = pk_qb (pk_of s p);
        datalen \<leftarrow> queuebuf_datalen qb (so_qb s);
        r \<leftarrow> queuebuf_dataptr qb (so_qb s);
        r \<leftarrow> r;
        b \<leftarrow> so_bytes s r;
        b0 \<leftarrow> rd b 0;
        dest \<leftarrow> queuebuf_addr qb PACKETBUF_ADDR_RECEIVER (so_qb s);
        seqno \<leftarrow> queuebuf_attr qb PACKETBUF_ATTR_MAC_SEQNO (so_qb s);
        Some (log_add (tsch_log_tx \<lparr>lt_status = mac_tx_status, lt_dest = linkaddr_copy dest, lt_drift = drift_correction s,
          lt_num_tx = pk_transmissions (pk_of s p), lt_datalen = word_of_int datalen,
          lt_is_data = (b0 AND 7 = FRAME802154_DATAFRAME),
          lt_drift_used = is_drift_correction_used s, lt_seqno = ucast seqno\<rparr>) s) })"

definition tsch_tx_slot :: "conf \<Rightarrow> ambiente \<Rightarrow> slot_state \<Rightarrow> slot_state option" where
  "tsch_tx_slot c env s = do {
     let dequeued_index = ringbufindex_peek_put (dequeued_ringbuf s);
     if dequeued_index \<noteq> -1 then do {
       (mac_tx_status, s) \<leftarrow>
         (case current_packet s of
            None \<Rightarrow> Some (MAC_TX_ERR_FATAL, s)
          | Some p \<Rightarrow>
              if pk_qb (pk_of s p) = None then Some (MAC_TX_ERR_FATAL, s)
              else do {
                (r, packet_len, seqno, do_wait_for_ack, burst_link_requested, packet_ready, s) \<leftarrow>
                  tx_packet c env (pk_qb (pk_of s p)) (pk_sync_offset (pk_of s p)) s;
                tx_exchange c env r packet_len seqno do_wait_for_ack burst_link_requested packet_ready s });
       let s = tsch_radio_off c TSCH_RADIO_CMD_OFF_END_OF_TIMESLOT s;
       p \<leftarrow> current_packet s;
       let s = upd_pk p (\<lambda>k. k\<lparr>pk_transmissions := pk_transmissions k + 1, pk_ret := mac_tx_status\<rparr>) s;
       n \<leftarrow> current_neighbor s;
       l \<leftarrow> current_link (so_sched s);
       (in_queue, q) \<leftarrow> tsch_queue_packet_sent (random_rand env) n p (opt_of s l) mac_tx_status (so_queue s);
       let s = on_queue (\<lambda>_. q) s;
       s \<leftarrow> (if in_queue = 0 then do {
              a \<leftarrow> wri (dequeued_array s) dequeued_index (Some p);
              Some (s\<lparr>dequeued_array := a, dequeued_ringbuf := snd (ringbufindex_put (dequeued_ringbuf s))\<rparr>) }
            else Some s);
       s \<leftarrow> log_attempt mac_tx_status p s;
       Some (process_poll_pending s) }
     else Some s }"

section \<open>Reception\<close>

text \<open>The acknowledgement of the packet in the input array; d is the estimated drift.\<close>

definition rx_ack :: "conf \<Rightarrow> ambiente \<Rightarrow> linkaddr \<Rightarrow> int \<Rightarrow> input_packet \<Rightarrow> slot_state \<Rightarrow> slot_state option" where
  "rx_ack c env source_address d inp s = do {
     max_tx \<leftarrow> rd (tsch_timing s) tsch_ts_max_tx;
     ack_delay \<leftarrow> rd (tsch_timing s) tsch_ts_tx_ack_delay;
     let packet_duration = min (TSCH_PACKET_DURATION (in_len inp)) max_tx;
     if ack_required (fr_fcf (rx_frame s)) \<noteq> 0 then do {
       (ack_len, buf) \<leftarrow> tsch_packet_create_eack (max_hopping c) (so_pan_id s) (eack_params env)
          (Some (replicate TSCH_PACKET_MAX_LEN 0)) (of_nat TSCH_PACKET_MAX_LEN) (Some source_address)
          (fr_seq (rx_frame s)) (word_of_int (RTIMERTICKS_TO_US d)) 0;
       buf \<leftarrow> buf;
       if ack_len > 0 then do {
         let s = event (Prepare (take (nat ack_len) buf)) s;
         let s = event (Transmit ack_len) (wait_until env 1 (seen_at env) (packet_duration + ack_delay) s);
         let s = tsch_radio_off c TSCH_RADIO_CMD_OFF_WITHIN_TIMESLOT s;
         fp \<leftarrow> tsch_packet_get_frame_pending (payload inp);
         Some (s\<lparr>burst_link_scheduled := (fp \<noteq> 0)\<rparr>) }
       else Some s }
     else Some s }"

definition rx_sync :: "ambiente \<Rightarrow> linkaddr \<Rightarrow> int \<Rightarrow> slot_state \<Rightarrow> slot_state option" where
  "rx_sync env source_address d s = (case tsch_queue_get_nbr source_address (so_queue s) of
     None \<Rightarrow> Some s
   | Some n \<Rightarrow>
       if is_time_source (nbr_at (so_queue s) n) then do {
         let since_last_timesync = TSCH_ASN_DIFF (tsch_current_asn s) (last_sync_asn s);
         m \<leftarrow> i32 (- d);
         s \<leftarrow> sync_update (Some n) (ucast since_last_timesync) m s;
         Some (s\<lparr>last_sync_asn := tsch_current_asn s, tsch_last_sync_time := clock_time env,
                drift_correction := m, is_drift_correction_used := True, sync_count := sync_count s + 1,
                so_sync := tsch_schedule_keepalive False (so_sync s)\<rparr>) }
       else Some s)"

text \<open>The entry of a frame; a frame whose sender asks for an acknowledgement counts as unicast.\<close>

definition rx_entry :: "int \<Rightarrow> input_packet \<Rightarrow> slot_state \<Rightarrow> log_body" where
  "rx_entry d inp s = tsch_log_rx \<lparr>lr_src = linkaddr_copy (fr_src_addr (rx_frame s)), lr_drift = drift_correction s,
     lr_estimated_drift = d, lr_datalen = word_of_int (in_len inp), lr_is_unicast = (ack_required (fr_fcf (rx_frame s)) \<noteq> 0),
     lr_is_data = (frame_type (fr_fcf (rx_frame s)) = FRAME802154_DATAFRAME),
     lr_sec_level = security_level (security_control (fr_aux_hdr (rx_frame s))),
     lr_drift_used = is_drift_correction_used s, lr_seqno = fr_seq (rx_frame s)\<rparr>"

text \<open>A frame that was parsed and is for this node: acknowledge, synchronise, store, log.\<close>

definition rx_accept :: "conf \<Rightarrow> ambiente \<Rightarrow> linkaddr \<Rightarrow> input_packet \<Rightarrow> slot_state \<Rightarrow> slot_state option" where
  "rx_accept c env source_address inp s = do {
     tx_off \<leftarrow> rd (tsch_timing s) tsch_ts_tx_offset;
     let s = s\<lparr>rx_count := rx_count s + 1\<rparr>;
     let d = to_i32 (sint (current_slot_start s + tx_off - seen_at env));
     s \<leftarrow> rx_ack c env source_address d inp s;
     s \<leftarrow> rx_sync env source_address d s;
     let s = s\<lparr>input_ringbuf := snd (ringbufindex_put (input_ringbuf s))\<rparr>;
     Some (log_add (rx_entry d inp s) s) }"

text \<open>The sender of a valid frame for this node.\<close>

definition rx_source :: "slot_state \<Rightarrow> int \<Rightarrow> (linkaddr option \<times> bool) option" where
  "rx_source s header_len =
     (if header_len > 0 \<and> frame802154_check_dest_panid (so_pan_id s) (Some (rx_frame s)) then do {
        (ok, src, dst) \<leftarrow> frame802154_extract_linkaddr (Some (rx_frame s));
        let t = frame_type (fr_fcf (rx_frame s));
        let valid = (ok \<and> (t = FRAME802154_DATAFRAME \<or> t = FRAME802154_BEACONFRAME));
        Some (if valid \<and> (linkaddr_cmp (the dst) (linkaddr_node_addr (so_sched s)) \<or> linkaddr_cmp (the dst) linkaddr_null)
                 \<and> \<not> linkaddr_cmp (the src) (linkaddr_node_addr (so_sched s))
              then src else None, valid) }
      else Some (None, False))"

definition rx_read :: "conf \<Rightarrow> ambiente \<Rightarrow> int \<Rightarrow> slot_state \<Rightarrow> slot_state option" where
  "rx_read c env input_index s = do {
     let inp = \<lparr>payload = read_payload env, rx_asn = tsch_current_asn s, in_len = read_len env,
                in_rssi = to_i16 (last_rssi env), in_channel = tsch_current_channel s\<rparr>;
     a \<leftarrow> wri (input_array s) input_index inp;
     (header_len, f) \<leftarrow> frame802154_parse False False (payload inp) (in_len inp) (rx_frame s);
     let s = s\<lparr>input_array := a, rx_frame := f\<rparr>;
     (src, valid) \<leftarrow> rx_source s header_len;
     let s = (if valid then s else log_add tsch_log_message s);
     s \<leftarrow> (case src of None \<Rightarrow> Some s | Some a \<Rightarrow> rx_accept c env a inp s);
     Some (if valid then process_poll_pending s else s) }"

text \<open>
  A slot that finds the input queue full only counts; the next slot with room logs the count at its end
  and resets it.
\<close>

definition log_drops :: "slot_state \<Rightarrow> slot_state" where
  "log_drops s = (if input_queue_drop s \<noteq> 0 then (log_add tsch_log_message s)\<lparr>input_queue_drop := 0\<rparr> else s)"

definition tsch_rx_slot :: "conf \<Rightarrow> ambiente \<Rightarrow> slot_state \<Rightarrow> slot_state option" where
  "tsch_rx_slot c env s = do {
     let input_index = ringbufindex_peek_put (input_ringbuf s);
     if input_index = -1 then do {
       d \<leftarrow> i32 (input_queue_drop s + 1);
       Some (s\<lparr>input_queue_drop := d\<rparr>) }
     else do {
       rx_off \<leftarrow> rd (tsch_timing s) tsch_ts_rx_offset;
       let s = tsch_radio_on c TSCH_RADIO_CMD_ON_WITHIN_TIMESLOT (wait_until env 0 (current_slot_start s) rx_off s);
       s \<leftarrow> (if \<not> packet_seen env then Some (tsch_radio_off c TSCH_RADIO_CMD_OFF_FORCE s)
             else do {
               let s = tsch_radio_off c TSCH_RADIO_CMD_OFF_WITHIN_TIMESLOT s;
               s \<leftarrow> (if pending_packet env then rx_read c env input_index s else Some s);
               Some (tsch_radio_off c TSCH_RADIO_CMD_OFF_END_OF_TIMESLOT s) });
       Some (log_drops s) } }"

section \<open>The slot operation\<close>

definition tsch_disassociate :: "slot_state \<Rightarrow> slot_state" where
  "tsch_disassociate s = (if tsch_is_associated s
     then event Poll_tsch_process
       (s\<lparr>tsch_is_associated := False, so_sync := tsch_adaptive_timesync_reset (so_sync s)\<rparr>) else s)"

definition with_current :: "nat option \<Rightarrow> slot_state \<Rightarrow> slot_state" where
  "with_current l s = s\<lparr>so_sched := (so_sched s)\<lparr>current_link := l\<rparr>\<rparr>"

definition with_packet :: "nat \<Rightarrow> slot_state \<Rightarrow> slot_state option" where
  "with_packet l s = do {
     (p, n) \<leftarrow> get_packet_and_neighbor_for_link l s;
     Some (s\<lparr>current_packet := p, current_neighbor := n\<rparr>) }"

text \<open>The packet and, when there is none, the switch to the backup link.\<close>

definition choose_link :: "nat \<Rightarrow> slot_state \<Rightarrow> slot_state option" where
  "choose_link l s = do {
     s \<leftarrow> with_packet l s;
     (case backup_link s of
        None \<Rightarrow> Some s
      | Some b \<Rightarrow>
          let do_skip_best_link = (current_packet s = None
                \<and> (opt_of s l AND LINK_OPTION_RX = 0
                   \<or> l_sf (link_at (so_sched s) b) < l_sf (link_at (so_sched s) l)))
          in if do_skip_best_link
             then with_packet b (with_current (Some b) (update_link_backoff (Some l) s))
             else Some s) }"

definition hop_channel :: "nat \<Rightarrow> slot_state \<Rightarrow> slot_state option" where
  "hop_channel l s =
     (if burst_link_scheduled s then Some (s\<lparr>burst_link_scheduled := False\<rparr>)
      else do {
        let s = s\<lparr>tsch_current_channel_offset := tsch_get_channel_offset (link_at (so_sched s) l)\<rparr>;
        ch \<leftarrow> tsch_calculate_channel (tsch_current_asn s) (ucast (tsch_current_channel_offset s)) s;
        Some (s\<lparr>tsch_current_channel := ch\<rparr>) })"

definition lock_flags :: "(tsch_lk \<Rightarrow> tsch_lk) \<Rightarrow> slot_state \<Rightarrow> slot_state" where
  "lock_flags f = on_queue (\<lambda>q. q\<lparr>tq_lk := f (tq_lk q)\<rparr>)"

text \<open>The part of tsch-slot-operation from the start of the slot to its end.\<close>

definition slot_body :: "conf \<Rightarrow> ambiente \<Rightarrow> slot_state \<Rightarrow> slot_state option" where
  "slot_body c env s = (case current_link (so_sched s) of
     None \<Rightarrow> Some (log_add tsch_log_message s)
   | Some l \<Rightarrow>
       if tsch_lock_requested (tq_lk (so_queue s)) then Some (log_add tsch_log_message s)
       else do {
         let s = lock_flags (tsch_in_slot_operation_update (\<lambda>_. True)) s;
         let s = s\<lparr>drift_correction := 0, is_drift_correction_used := False\<rparr>;
         s \<leftarrow> choose_link l s;
         l \<leftarrow> current_link (so_sched s);
         let is_active_slot = (current_packet s \<noteq> None \<or> opt_of s l AND LINK_OPTION_RX \<noteq> 0);
         if is_active_slot then do {
           s \<leftarrow> hop_channel l s;
           let s = event (Set_channel (tsch_current_channel s)) s;
           let s = tsch_radio_on c TSCH_RADIO_CMD_ON_START_OF_TIMESLOT s;
           if current_packet s \<noteq> None then tsch_tx_slot c env s else tsch_rx_slot c env s }
         else Some (s\<lparr>burst_link_scheduled := False\<rparr>) })"

definition RTIMER_SECOND :: u64 where "RTIMER_SECOND = RTIMER_ARCH_SECOND"

definition TSCH_DESYNC_THRESHOLD :: nat where "TSCH_DESYNC_THRESHOLD = 1 * TSCH_MAX_KEEPALIVE_TIMEOUT"

definition TSCH_CLOCK_TO_TICKS :: "u64 \<Rightarrow> u64" where
  "TSCH_CLOCK_TO_TICKS k = k * RTIMER_SECOND div of_nat CLOCK_SECOND"

definition TSCH_CLOCK_TO_SLOTS :: "u64 \<Rightarrow> u64 \<Rightarrow> u64 option" where
  "TSCH_CLOCK_TO_SLOTS k timeslot_length =
     (if timeslot_length = 0 then None else Some ((TSCH_CLOCK_TO_TICKS k + timeslot_length - 1) div timeslot_length))"

definition must_leave :: "slot_state \<Rightarrow> bool option" where
  "must_leave s = (if tsch_is_coordinator s then Some False
     else do {
       len \<leftarrow> rd (tsch_timing s) tsch_ts_timeslot_length;
       n \<leftarrow> TSCH_CLOCK_TO_SLOTS (of_nat (TSCH_DESYNC_THRESHOLD div 100)) len;
       Some (ucast (TSCH_ASN_DIFF (tsch_current_asn s) (last_sync_asn s)) > 100 * n) })"

text \<open>The next active link and the offset of its slot; a missing link means the next slot.\<close>

definition next_link :: "slot_state \<Rightarrow> (u16 \<times> slot_state) option" where
  "next_link s = do {
     (l, off, b) \<leftarrow> tsch_schedule_get_next_active_link (tsch_current_asn s) (so_sched s);
     let s = (with_current l s)\<lparr>backup_link := b\<rparr>;
     Some (case (l, off) of (Some _, Some t) \<Rightarrow> (t, s) | _ \<Rightarrow> (1, s)) }"

text \<open>Advance the ASN and the start of the slot by timeslot-diff slots.\<close>

definition advance :: "conf \<Rightarrow> u16 \<Rightarrow> int \<Rightarrow> slot_state \<Rightarrow> (u64 \<times> slot_state) option" where
  "advance c timeslot_diff drift s = do {
     let s = s\<lparr>tsch_current_asn := TSCH_ASN_INC (tsch_current_asn s) (ucast timeslot_diff)\<rparr>;
     len \<leftarrow> rd (tsch_timing s) tsch_ts_timeslot_length;
     let time = ucast timeslot_diff * len + word_of_int drift;
     let s = (log_add tsch_log_message ^^ compensate_messages (TSCH_BASE_DRIFT_PPM c) time (so_sync s)) s;
     (comp, y) \<leftarrow> tsch_timesync_adaptive_compensate (TSCH_BASE_DRIFT_PPM c) time (so_sync s);
     let time = time + word_of_int comp;
     Some (time, s\<lparr>so_sync := y, current_slot_start := current_slot_start s + time\<rparr>) }"

definition schedule_step :: "conf \<Rightarrow> slot_state \<Rightarrow> (u64 \<times> slot_state) option" where
  "schedule_step c s = do {
     let s = update_link_backoff (current_link (so_sched s)) s;
     (timeslot_diff, s) \<leftarrow>
       (if burst_link_scheduled s \<and> current_link (so_sched s) \<noteq> None
        then Some (1, s\<lparr>backup_link := None, tsch_current_burst_count := tsch_current_burst_count s + 1\<rparr>)
        else do {
          (t, s) \<leftarrow> next_link s;
          Some (t, if current_link (so_sched s) = None then s else s\<lparr>tsch_current_burst_count := 0\<rparr>) });
     (time, s) \<leftarrow> advance c timeslot_diff (drift_correction s) s;
     Some (time, s\<lparr>drift_correction := 0, is_drift_correction_used := False\<rparr>) }"

text \<open>
  The loop that schedules the next wake-up, one reading of the timer for each attempt. It is None
  when the readings given are used up before a slot could be scheduled.
\<close>

fun schedule_loop :: "(slot_state \<Rightarrow> (u64 \<times> slot_state) option) \<Rightarrow> u64 list \<Rightarrow> slot_state \<Rightarrow> slot_state option" where
  "schedule_loop step [] s = None"
| "schedule_loop step (now # nows) s = do {
     let prev_slot_start = current_slot_start s;
     (time, s) \<leftarrow> step s;
     let (ok, s) = tsch_schedule_slot_operation now prev_slot_start time s;
     if ok then Some s else schedule_loop step nows s }"

text \<open>One activation of the protothread: from one wake-up to the next.\<close>

definition tsch_slot_operation :: "conf \<Rightarrow> ambiente \<Rightarrow> slot_state \<Rightarrow> slot_state option" where
  "tsch_slot_operation c env s =
     (if \<not> tsch_is_associated s then Some s
      else do {
        s \<leftarrow> slot_body c env s;
        let s = (if tsch_is_coordinator s
                 then s\<lparr>last_sync_asn := tsch_current_asn s, tsch_last_sync_time := clock_time env\<rparr> else s);
        leave \<leftarrow> must_leave s;
        s \<leftarrow> (if leave then Some (tsch_disassociate (log_add tsch_log_message s)) else schedule_loop (schedule_step c) (rtimer_now env) s);
        Some (lock_flags (tsch_in_slot_operation_update (\<lambda>_. False)) s) })"

definition start_step :: "conf \<Rightarrow> slot_state \<Rightarrow> (u64 \<times> slot_state) option" where
  "start_step c s = do { (t, s) \<leftarrow> next_link s; advance c t 0 s }"

definition tsch_slot_operation_start :: "conf \<Rightarrow> u64 list \<Rightarrow> slot_state \<Rightarrow> slot_state option" where
  "tsch_slot_operation_start c = schedule_loop (start_step c)"

definition tsch_slot_operation_sync :: "u64 \<Rightarrow> u64 \<Rightarrow> tsch_asn_t \<Rightarrow> slot_state \<Rightarrow> slot_state" where
  "tsch_slot_operation_sync now next_slot_start next_slot_asn s =
     with_current None (s\<lparr>current_slot_start := next_slot_start, tsch_current_asn := next_slot_asn,
        last_sync_asn := next_slot_asn, tsch_last_sync_time := now\<rparr>)"

end
