(* ===== verification/Tsch_Mac.thy ===== *)
theory Tsch_Mac
  imports Slot_Operation Static_Schedule
begin

text \<open>
  os/net/mac/tsch/tsch.c with os/net/mac/mac-sequence.c and the callback of os/net/mac/mac.c: the
  part of TSCH that runs in the main program. It passes received frames up and sent packets back to
  their callbacks, keeps the node synchronised, scans for a network and joins it from a beacon, and
  sends beacons of its own. A process is modelled by what it does between two waits.

  The build is the one of the slot operation: no link-layer security, no automatic choice of the
  time source, no minimal schedule, no check of the time at association, only the own PAN joined, RPL
  present. What the other layers answer is in the record mac-conf, what the hardware and the random
  generator answer in the record mac-env. Calls into other layers are events of a log.
\<close>

section \<open>State\<close>

record seqno =
  sq_sender :: linkaddr
  sq_timestamp :: u64
  sq_seqno :: u8

text \<open>
  Packet-sent: the callback of a packet of another layer, with its pointer, status and number of
  transmissions. Net-input and Sixtop-input get the packet buffer.
\<close>

datatype mac_event =
    Packet_sent nat nat mac_status int
  | Link_stats linkaddr mac_status int
  | Rpl_ka_sent linkaddr mac_status int
  | Net_input packetbuf
  | Sixtop_input packetbuf
  | Rpl_leaving
  | Rpl_joining
  | Scan_channel u8
  | Scan_radio_on
  | Scan_radio_off
  | Start_pending_events_process
  | Start_send_eb_process
  | Start_tsch_process

record tsch_mac =
  m_slot :: slot_state
  m_dsn :: u8
  m_dsn_init :: bool
  m_pb :: packetbuf
  received_seqnos :: "seqno list"
  last_eb_nbr_addr :: linkaddr
  last_eb_nbr_jp :: u8
  tsch_default_timing_us :: "u16 list"
  tsch_is_started :: bool
  tsch_is_initialized :: bool
  tsch_association_count :: int
  tsch_is_pan_secured :: bool
  tsch_packet_seqno :: u8
  tsch_current_eb_period :: u64
  keepalive_timer :: "u64 option"
  current_channel :: u8
  current_channel_since :: u64
  m_log :: "mac_event list"

text \<open>
  victim is the neighbor the removal policy of the neighbor table gives up, for a state of the table.
\<close>

record mac_conf =
  mc_conf :: conf
  mc_eb :: eb_conf
  victim :: "nbr_state \<Rightarrow> linkaddr option"
  is_in_leaf_mode :: bool
  node_has_joined :: bool

record mac_env =
  me_clock :: u64
  me_now :: u64
  me_random :: u16
  me_random2 :: u16
  me_frame :: frame802154_t
  me_ies :: ieee802154_ies
  me_hdrlen :: u8

definition on_slot :: "(slot_state \<Rightarrow> slot_state) \<Rightarrow> tsch_mac \<Rightarrow> tsch_mac" where
  "on_slot f m = m\<lparr>m_slot := f (m_slot m)\<rparr>"

definition on_sync :: "(timesync \<Rightarrow> timesync) \<Rightarrow> tsch_mac \<Rightarrow> tsch_mac" where
  "on_sync f = on_slot (\<lambda>s. s\<lparr>so_sync := f (so_sync s)\<rparr>)"

definition mac_event :: "mac_event \<Rightarrow> tsch_mac \<Rightarrow> tsch_mac" where
  "mac_event e m = m\<lparr>m_log := m_log m @ [e]\<rparr>"

abbreviation m_queue :: "tsch_mac \<Rightarrow> tq" where
  "m_queue m \<equiv> so_queue (m_slot m)"

abbreviation m_sched :: "tsch_mac \<Rightarrow> sched" where
  "m_sched m \<equiv> so_sched (m_slot m)"

abbreviation associated :: "tsch_mac \<Rightarrow> bool" where
  "associated m \<equiv> tsch_is_associated (m_slot m)"

abbreviation coordinator :: "tsch_mac \<Rightarrow> bool" where
  "coordinator m \<equiv> tsch_is_coordinator (m_slot m)"

definition TSCH_EB_PERIOD :: u64 where "TSCH_EB_PERIOD = 2 * of_nat CLOCK_SECOND"
definition TSCH_MAX_EB_PERIOD :: u64 where "TSCH_MAX_EB_PERIOD = 4 * of_nat CLOCK_SECOND"
definition TSCH_MAX_JOIN_PRIORITY :: u8 where "TSCH_MAX_JOIN_PRIORITY = 32"
definition TSCH_MAC_MAX_FRAME_RETRIES :: u8 where "TSCH_MAC_MAX_FRAME_RETRIES = 7"
definition TSCH_CHANNEL_SCAN_DURATION :: u64 where "TSCH_CHANNEL_SCAN_DURATION = of_nat CLOCK_SECOND"

definition PACKETBUF_ATTR_CHANNEL :: nat where "PACKETBUF_ATTR_CHANNEL = 1"
definition PACKETBUF_ATTR_RSSI :: nat where "PACKETBUF_ATTR_RSSI = 4"
definition PACKETBUF_ATTR_MAX_MAC_TRANSMISSIONS :: nat where "PACKETBUF_ATTR_MAX_MAC_TRANSMISSIONS = 6"

definition TSCH_DEFAULT_HOPPING_SEQUENCE :: "u8 list" where
  "TSCH_DEFAULT_HOPPING_SEQUENCE = [15, 25, 26, 20]"

text \<open>os/net/mac/tsch/tsch-timeslot-timing.c, with TSCH-CONF-RX-WAIT 2200.\<close>

definition TSCH_CONF_RX_WAIT :: u16 where "TSCH_CONF_RX_WAIT = 2200"

definition tsch_timeslot_timing_us_10000 :: "u16 list" where
  "tsch_timeslot_timing_us_10000 = [1800, 128, 2120, 2120 - TSCH_CONF_RX_WAIT div 2, 800, 1000,
     TSCH_CONF_RX_WAIT, 400, 192, 2400, 4256, 10000]"

section \<open>Duplicate frames\<close>

definition MAX_SEQNOS :: nat where "MAX_SEQNOS = 16"
definition SEQNO_MAX_AGE :: u64 where "SEQNO_MAX_AGE = 20 * of_nat CLOCK_SECOND"

definition mac_sequence_is_duplicate :: "u64 \<Rightarrow> packetbuf \<Rightarrow> seqno list \<Rightarrow> bool option" where
  "mac_sequence_is_duplicate now b rs = do {
     a \<leftarrow> packetbuf_addr b PACKETBUF_ADDR_SENDER;
     q \<leftarrow> packetbuf_attr b PACKETBUF_ATTR_MAC_SEQNO;
     Some (case List.find (\<lambda>e. linkaddr_cmp a (sq_sender e)) rs of
         None \<Rightarrow> False
       | Some e \<Rightarrow> q = ucast (sq_seqno e) \<and> now - sq_timestamp e \<le> SEQNO_MAX_AGE) }"

definition mac_sequence_register_seqno :: "u64 \<Rightarrow> packetbuf \<Rightarrow> seqno list \<Rightarrow> seqno list option" where
  "mac_sequence_register_seqno now b rs = do {
     a \<leftarrow> packetbuf_addr b PACKETBUF_ADDR_SENDER;
     q \<leftarrow> packetbuf_attr b PACKETBUF_ATTR_MAC_SEQNO;
     let i = (case List.find (\<lambda>i. linkaddr_cmp a (sq_sender (rs ! i))) [0..<MAX_SEQNOS] of
         None \<Rightarrow> MAX_SEQNOS
       | Some i \<Rightarrow> i + 1);
     rs \<leftarrow> loopM (\<lambda>j rs. do { e \<leftarrow> rd rs (j - 1); wr rs j e }) (rev [1..<i]) rs;
     wr rs 0 \<lparr>sq_sender = linkaddr_copy a, sq_timestamp = now, sq_seqno = ucast q\<rparr> }"

section \<open>Settings\<close>

definition tsch_set_eb_period :: "u32 \<Rightarrow> tsch_mac \<Rightarrow> tsch_mac" where
  "tsch_set_eb_period period m = m\<lparr>tsch_current_eb_period := min (ucast period) TSCH_MAX_EB_PERIOD\<rparr>"

definition tsch_set_coordinator :: "bool \<Rightarrow> tsch_mac \<Rightarrow> tsch_mac" where
  "tsch_set_coordinator enable m =
     (let m = (if coordinator m \<noteq> enable then on_slot (tsch_is_associated_update (\<lambda>_. False)) m else m)
      in tsch_set_eb_period (ucast TSCH_EB_PERIOD) (on_slot (tsch_is_coordinator_update (\<lambda>_. enable)) m))"

definition tsch_set_pan_secured :: "bool \<Rightarrow> tsch_mac \<Rightarrow> tsch_mac" where
  "tsch_set_pan_secured enable m = m\<lparr>tsch_is_pan_secured := False \<and> enable\<rparr>"

definition tsch_set_join_priority :: "u8 \<Rightarrow> tsch_mac \<Rightarrow> tsch_mac" where
  "tsch_set_join_priority jp = on_slot (tsch_join_priority_update (\<lambda>_. jp))"

section \<open>Calls into the framer and the queues\<close>

text \<open>The framer works on the packet buffer, the PAN identifier and its own sequence number.\<close>

definition with_framer :: "(mac \<Rightarrow> ('a \<times> mac) option) \<Rightarrow> tsch_mac \<Rightarrow> ('a \<times> tsch_mac) option" where
  "with_framer f m = do {
     (r, k) \<leftarrow> f \<lparr>mac_pan_id = so_pan_id (m_slot m), mac_dsn = m_dsn m, initialized = m_dsn_init m, pb = m_pb m\<rparr>;
     Some (r, (on_slot (so_pan_id_update (\<lambda>_. mac_pan_id k)) m)\<lparr>m_dsn := mac_dsn k, m_dsn_init := initialized k,
       m_pb := pb k\<rparr>) }"

text \<open>
  The queues record their calls into other modules as events; here they are carried out, in
  their order, after the operation. cb is the call of a sent callback.
\<close>

fun replay_event ::
  "(nat \<Rightarrow> nat \<Rightarrow> mac_status \<Rightarrow> int \<Rightarrow> tsch_mac \<Rightarrow> tsch_mac option) \<Rightarrow> tq_event \<Rightarrow> tsch_mac \<Rightarrow> tsch_mac option" where
  "replay_event cb (Sent_callback f p st n) m = cb f p st (uint n) m"
| "replay_event cb (Queuebuf_free b) m = do {
     q \<leftarrow> queuebuf_free b (so_qb (m_slot m));
     Some (on_slot (so_qb_update (\<lambda>_. q)) m) }"
| "replay_event cb (Ka_timeout t) m = Some (on_sync (tsch_set_ka_timeout t) m)"
| "replay_event cb Stats_reset m = Some m"

definition with_queue ::
  "(nat \<Rightarrow> nat \<Rightarrow> mac_status \<Rightarrow> int \<Rightarrow> tsch_mac \<Rightarrow> tsch_mac option) \<Rightarrow>
   (tq \<Rightarrow> ('a \<times> tq) option) \<Rightarrow> tsch_mac \<Rightarrow> ('a \<times> tsch_mac) option" where
  "with_queue cb f m = do {
     let q = m_queue m;
     (r, q') \<leftarrow> f q;
     m \<leftarrow> loopM (replay_event cb) (drop (length (tq_log q)) (tq_log q')) (on_slot (on_queue (\<lambda>_. q')) m);
     Some (r, m) }"

definition with_sched :: "(sched \<Rightarrow> ('a \<times> sched) option) \<Rightarrow> tsch_mac \<Rightarrow> ('a \<times> tsch_mac) option" where
  "with_sched f m = do {
     (r, s) \<leftarrow> f (m_sched m);
     Some (r, on_slot (so_sched_update (\<lambda>_. s)) m) }"

definition vic_of :: "mac_conf \<Rightarrow> tsch_mac \<Rightarrow> linkaddr option" where
  "vic_of c m = victim c (tq_nt (m_queue m))"

definition m_disassociate :: "tsch_mac \<Rightarrow> tsch_mac" where
  "m_disassociate = on_slot tsch_disassociate"

section \<open>Keep-alives\<close>

text \<open>
  tsch-queue-update-time-source calls no sent callback. The result tells that this function
  schedules the next keep-alive.
\<close>

definition resynchronize :: "mac_conf \<Rightarrow> linkaddr \<Rightarrow> tsch_mac \<Rightarrow> (bool \<times> tsch_mac) option" where
  "resynchronize c original_time_source_addr m =
     (let ts_addr = tsch_queue_get_nbr_address (tsch_queue_get_time_source (m_queue m)) (m_queue m) in
      if ts_addr \<noteq> None \<and> \<not> linkaddr_cmp (the ts_addr) original_time_source_addr then Some (False, m)
      else if linkaddr_cmp (last_eb_nbr_addr m) linkaddr_null then
        Some (False, if sync_count (m_slot m) = 0 then m_disassociate m else m)
      else do {
        (_, m) \<leftarrow> with_queue (\<lambda>_ _ _ _. Some)
          (tsch_queue_update_time_source (coordinator m) (vic_of c m) (Some (last_eb_nbr_addr m))) m;
        let m = tsch_set_join_priority (last_eb_nbr_jp m + 1) m;
        let m = m\<lparr>last_eb_nbr_addr := linkaddr_copy linkaddr_null\<rparr>;
        Some (True, on_sync (tsch_schedule_keepalive True) m) })"

definition keepalive_packet_sent :: "mac_conf \<Rightarrow> mac_status \<Rightarrow> int \<Rightarrow> tsch_mac \<Rightarrow> tsch_mac option" where
  "keepalive_packet_sent c status transmissions m = do {
     a \<leftarrow> packetbuf_addr (m_pb m) PACKETBUF_ADDR_RECEIVER;
     let m = mac_event (Rpl_ka_sent a status transmissions) (mac_event (Link_stats a status transmissions) m);
     (scheduled, m) \<leftarrow> (if status = MAC_TX_NOACK then resynchronize c a m else Some (False, m));
     Some (if scheduled then m else on_sync (tsch_schedule_keepalive False) m) }"

text \<open>Callbacks are numbered: 0 is NULL, 1 is keepalive-packet-sent, the others belong to other layers.\<close>

definition mac_call_sent_callback ::
  "mac_conf \<Rightarrow> nat \<Rightarrow> nat \<Rightarrow> mac_status \<Rightarrow> int \<Rightarrow> tsch_mac \<Rightarrow> tsch_mac option" where
  "mac_call_sent_callback c sent pt status num_tx m =
     (if sent = 0 then Some m
      else if sent = 1 then keepalive_packet_sent c status num_tx m
      else Some (mac_event (Packet_sent sent pt status num_tx) m))"

section \<open>Sending\<close>

text \<open>
  The queue buffer is taken by tsch-queue-add-packet when the packet gets a place; when none is
  given, no buffer is taken.
\<close>

definition add_packet ::
  "mac_conf \<Rightarrow> linkaddr \<Rightarrow> u8 \<Rightarrow> nat \<Rightarrow> nat \<Rightarrow> tsch_mac \<Rightarrow> (nat option \<times> tsch_mac) option" where
  "add_packet c addr max_transmissions sent pt m = do {
     (qb, qs) \<leftarrow> queuebuf_new_from_packetbuf (m_pb m) (so_qb (m_slot m));
     (p, m) \<leftarrow> with_queue (mac_call_sent_callback c)
        (tsch_queue_add_packet (vic_of c m) qb addr max_transmissions sent pt) m;
     Some (p, if p = None then m else on_slot (so_qb_update (\<lambda>_. qs)) m) }"

definition send_packet :: "mac_conf \<Rightarrow> mac_env \<Rightarrow> nat \<Rightarrow> nat \<Rightarrow> tsch_mac \<Rightarrow> tsch_mac option" where
  "send_packet c env sent pt m = do {
     addr \<leftarrow> packetbuf_addr (m_pb m) PACKETBUF_ADDR_RECEIVER;
     if \<not> associated m then mac_call_sent_callback c sent pt MAC_TX_ERR 1 m
     else do {
       (addr, m) \<leftarrow> (if \<not> linkaddr_cmp addr linkaddr_null then do {
           let n = tsch_packet_seqno m + 1;
           let n = (if n = 0 then n + 1 else n);
           b \<leftarrow> packetbuf_set_attr PACKETBUF_ATTR_MAC_SEQNO (ucast n) (m_pb m);
           b \<leftarrow> packetbuf_set_attr PACKETBUF_ATTR_MAC_ACK 1 b;
           Some (addr, m\<lparr>tsch_packet_seqno := n, m_pb := b\<rparr>) }
         else Some (tsch_broadcast_address, m));
       b \<leftarrow> packetbuf_set_attr PACKETBUF_ATTR_FRAME_TYPE (ucast FRAME802154_DATAFRAME) (m_pb m);
       b \<leftarrow> packetbuf_set_addr PACKETBUF_ADDR_SENDER (linkaddr_node_addr (m_sched m)) b;
       t \<leftarrow> packetbuf_attr b PACKETBUF_ATTR_MAX_MAC_TRANSMISSIONS;
       let max_transmissions = (if (ucast t :: u8) = 0 then TSCH_MAC_MAX_FRAME_RETRIES + 1 else ucast t);
       (hdr_len, m) \<leftarrow> with_framer (framer_create (me_random2 env)) (m\<lparr>m_pb := b\<rparr>);
       if hdr_len < 0 then mac_call_sent_callback c sent pt MAC_TX_ERR 1 m
       else do {
         (p, m) \<leftarrow> add_packet c addr max_transmissions sent pt m;
         (case p of
            None \<Rightarrow> mac_call_sent_callback c sent pt MAC_TX_ERR 1 m
          | Some p \<Rightarrow> Some (on_slot (upd_pk p (pk_header_len_update (\<lambda>_. word_of_int hdr_len))) m)) } } }"

definition keepalive_send :: "mac_conf \<Rightarrow> mac_env \<Rightarrow> tsch_mac \<Rightarrow> tsch_mac option" where
  "keepalive_send c env m =
     (let m = m\<lparr>keepalive_timer := None\<rparr> in
      if associated m then
        (case tsch_queue_get_time_source (m_queue m) of
           None \<Rightarrow> Some m
         | Some n \<Rightarrow> do {
             destination \<leftarrow> tsch_queue_get_nbr_address (Some n) (m_queue m);
             b \<leftarrow> packetbuf_set_addr PACKETBUF_ADDR_RECEIVER destination (packetbuf_clear (m_pb m));
             send_packet c env 1 0 (m\<lparr>m_pb := b\<rparr>) })
      else Some m)"

definition keepalive_delay :: "nat \<Rightarrow> u16 \<Rightarrow> nat" where
  "keepalive_delay timeout rnd =
     (if timeout \<ge> 10 then (timeout - timeout div 10) + unat rnd mod (timeout div 10) else timeout - 1)"

definition tsch_keepalive_process_pending :: "mac_conf \<Rightarrow> mac_env \<Rightarrow> tsch_mac \<Rightarrow> tsch_mac option" where
  "tsch_keepalive_process_pending c env m =
     (if keepalive_status (so_sync (m_slot m)) = KEEPALIVE_SCHEDULING_UNCHANGED then Some m
      else
        (let scheduled_status = keepalive_status (so_sync (m_slot m));
             m = on_sync (keepalive_status_update (\<lambda>_. KEEPALIVE_SCHEDULING_UNCHANGED)) m;
             timeout = tsch_current_ka_timeout (so_sync (m_slot m))
         in if \<not> coordinator m \<and> associated m then
              (if scheduled_status = KEEPALIVE_SEND_IMMEDIATELY then keepalive_send c env m
               else if timeout > 0 then Some (m\<lparr>keepalive_timer := Some (of_nat (keepalive_delay timeout (me_random env)))\<rparr>)
               else Some (m\<lparr>keepalive_timer := None\<rparr>))
            else Some (m\<lparr>keepalive_timer := None\<rparr>)))"

section \<open>Receiving\<close>

definition packet_input :: "mac_conf \<Rightarrow> mac_env \<Rightarrow> tsch_mac \<Rightarrow> tsch_mac option" where
  "packet_input c env m = do {
     (frame_parsed, m) \<leftarrow> with_framer (framer_parse (me_frame env)) m;
     if frame_parsed < 0 then Some m
     else do {
       q \<leftarrow> packetbuf_attr (m_pb m) PACKETBUF_ATTR_MAC_SEQNO;
       (duplicate, m) \<leftarrow> (if q \<noteq> 0xffff then do {
           d \<leftarrow> mac_sequence_is_duplicate (me_clock env) (m_pb m) (received_seqnos m);
           if d then Some (True, m)
           else do {
             rs \<leftarrow> mac_sequence_register_seqno (me_clock env) (m_pb m) (received_seqnos m);
             Some (False, m\<lparr>received_seqnos := rs\<rparr>) } }
         else Some (False, m));
       if duplicate then Some m
       else Some (mac_event (Net_input (m_pb m))
         (if with_sixtop (mc_conf c) then mac_event (Sixtop_input (m_pb m)) m else m)) } }"

text \<open>Writing a received hopping sequence; memcmp and memcpy must stay inside both arrays.\<close>

definition set_hopping :: "u8 list \<Rightarrow> u16 \<Rightarrow> slot_state \<Rightarrow> slot_state option" where
  "set_hopping src len s = do {
     h \<leftarrow> memcpy_at (tsch_hopping_sequence s) 0 src (unat len);
     dv \<leftarrow> TSCH_ASN_DIVISOR_INIT len;
     Some (s\<lparr>tsch_hopping_sequence := h, tsch_hopping_sequence_length := dv\<rparr>) }"

definition same_hopping :: "ieee802154_ies \<Rightarrow> slot_state \<Rightarrow> bool option" where
  "same_hopping ies s =
     (let n = unat (val (tsch_hopping_sequence_length s)) in
      if ie_hopping_sequence_len ies \<noteq> val (tsch_hopping_sequence_length s) then Some False
      else if n \<le> length (tsch_hopping_sequence s) \<and> n \<le> length (ie_hopping_sequence_list ies)
      then Some (take n (tsch_hopping_sequence s) = take n (ie_hopping_sequence_list ies))
      else None)"

definition eb_hopping :: "ieee802154_ies \<Rightarrow> slot_state \<Rightarrow> slot_state option" where
  "eb_hopping ies s =
     (if ie_channel_hopping_sequence_id ies \<noteq> 0 then do {
        same \<leftarrow> same_hopping ies s;
        if \<not> same \<and> unat (ie_hopping_sequence_len ies) \<le> length (tsch_hopping_sequence s)
        then set_hopping (ie_hopping_sequence_list ies) (ie_hopping_sequence_len ies) s
        else Some s }
      else Some s)"

definition eb_input :: "mac_conf \<Rightarrow> mac_env \<Rightarrow> input_packet \<Rightarrow> tsch_mac \<Rightarrow> tsch_mac option" where
  "eb_input c env current_input m = do {
     (ok, frame, ies, _) \<leftarrow> tsch_packet_parse_eb (with_sixtop (mc_conf c)) (max_hopping (mc_conf c))
        (payload current_input) (in_len current_input) (me_frame env) (Some (me_ies env)) None;
     if ok = 0 then Some m
     else do {
       eb_ies \<leftarrow> ies;
       let ts_addr = tsch_queue_get_nbr_address (tsch_queue_get_time_source (m_queue m)) (m_queue m);
       let m = (if ts_addr = None \<or> \<not> linkaddr_cmp (fr_src_addr frame) (the ts_addr)
                then m\<lparr>last_eb_nbr_addr := linkaddr_copy (fr_src_addr frame), last_eb_nbr_jp := ie_join_priority eb_ies\<rparr>
                else m);
       if ts_addr \<noteq> None \<and> linkaddr_cmp (fr_src_addr frame) (the ts_addr) then do {
         let m = (if TSCH_ASN_DIFF (rx_asn current_input) (ie_asn eb_ies) \<noteq> 0 then m_disassociate m else m);
         let m = (if ie_join_priority eb_ies \<ge> TSCH_MAX_JOIN_PRIORITY then m_disassociate m else m);
         s \<leftarrow> eb_hopping eb_ies (m_slot m);
         Some (m\<lparr>m_slot := s\<rparr>) }
       else Some m } }"

definition rx_pending_one :: "mac_conf \<Rightarrow> mac_env \<Rightarrow> int \<Rightarrow> tsch_mac \<Rightarrow> tsch_mac option" where
  "rx_pending_one c env input_index m = do {
     current_input \<leftarrow> rdi (input_array (m_slot m)) input_index;
     (ret, frame) \<leftarrow> frame802154_parse False False (payload current_input) (in_len current_input) (me_frame env);
     let ret = (word_of_int ret :: u8);
     let is_data = (ret \<noteq> 0 \<and> frame_type (fr_fcf frame) = FRAME802154_DATAFRAME);
     let is_eb = (ret \<noteq> 0 \<and> frame_version (fr_fcf frame) = FRAME802154_IEEE802154_2015
                    \<and> frame_type (fr_fcf frame) = FRAME802154_BEACONFRAME);
     m \<leftarrow> (if is_data then do {
         (_, b) \<leftarrow> packetbuf_copyfrom (payload current_input) (word_of_int (in_len current_input)) (m_pb m);
         b \<leftarrow> packetbuf_set_attr PACKETBUF_ATTR_RSSI (word_of_int (in_rssi current_input)) b;
         b \<leftarrow> packetbuf_set_attr PACKETBUF_ATTR_CHANNEL (ucast (in_channel current_input)) b;
         packet_input c env (m\<lparr>m_pb := b\<rparr>) }
       else if is_eb then eb_input c env current_input m
       else Some m);
     Some (on_slot (\<lambda>s. s\<lparr>input_ringbuf := snd (ringbufindex_get (input_ringbuf s))\<rparr>) m) }"

partial_function (option) tsch_rx_process_pending :: "mac_conf \<Rightarrow> mac_env \<Rightarrow> tsch_mac \<Rightarrow> tsch_mac option" where
  "tsch_rx_process_pending c env m =
     (let input_index = ringbufindex_peek_get (input_ringbuf (m_slot m)) in
      if input_index \<noteq> -1 then do {
        m \<leftarrow> rx_pending_one c env input_index m;
        tsch_rx_process_pending c env m }
      else Some m)"

declare tsch_rx_process_pending.simps [code]

definition tx_pending_one :: "mac_conf \<Rightarrow> int \<Rightarrow> tsch_mac \<Rightarrow> tsch_mac option" where
  "tx_pending_one c dequeued_index m = do {
     p \<leftarrow> rdi (dequeued_array (m_slot m)) dequeued_index;
     p \<leftarrow> p;
     let pk = pk_of (m_slot m) p;
     b \<leftarrow> queuebuf_to_packetbuf (pk_qb pk) (so_qb (m_slot m)) (m_pb m);
     m \<leftarrow> mac_call_sent_callback c (pk_sent pk) (pk_ptr pk) (pk_ret pk) (uint (pk_transmissions pk)) (m\<lparr>m_pb := b\<rparr>);
     (_, m) \<leftarrow> with_queue (mac_call_sent_callback c) (\<lambda>q. Some ((), tsch_queue_free_packet (Some p) q)) m;
     (_, m) \<leftarrow> with_queue (mac_call_sent_callback c) (\<lambda>q. map_option (Pair ()) (tsch_queue_free_unused_neighbors q)) m;
     Some (on_slot (\<lambda>s. s\<lparr>dequeued_ringbuf := snd (ringbufindex_get (dequeued_ringbuf s))\<rparr>) m) }"

partial_function (option) tsch_tx_process_pending :: "mac_conf \<Rightarrow> tsch_mac \<Rightarrow> tsch_mac option" where
  "tsch_tx_process_pending c m =
     (let dequeued_index = ringbufindex_peek_get (dequeued_ringbuf (m_slot m)) in
      if dequeued_index \<noteq> -1 then do {
        m \<leftarrow> tx_pending_one c dequeued_index m;
        tsch_tx_process_pending c m }
      else Some m)"

declare tsch_tx_process_pending.simps [code]

text \<open>
  os/net/mac/tsch/tsch-log.c in the main program: an entry is printed and, in this program, evaluated. A frame
  that asked for no acknowledgement makes its sender a neighbor; unicast packets on slotframe 2 are counted.
\<close>

definition log_evaluate :: "tsch_log_t \<Rightarrow> sched \<Rightarrow> sched option" where
  "log_evaluate log h =
     (let slotframe_handle = map_option (\<lambda>l. l_sf (link_at h l)) (lg_link log) in
      case lg_body log of
        tsch_log_tx t \<Rightarrow>
          if \<not> linkaddr_cmp (lt_dest t) linkaddr_null then do {
            k \<leftarrow> slotframe_handle;
            Some (if k = 2 then count_sent_packs h else h) }
          else Some h
      | tsch_log_rx r \<Rightarrow>
          if \<not> lr_is_unicast r then Some (tsch_print_neighbors (node_num (lr_src r)) h)
          else do {
            k \<leftarrow> slotframe_handle;
            if k = 2 then count_packs (lr_src r) h else Some h }
      | tsch_log_message \<Rightarrow> Some h)"

definition log_pending_one :: "int \<Rightarrow> tsch_mac \<Rightarrow> tsch_mac option" where
  "log_pending_one log_index m = do {
     log \<leftarrow> rdi (log_array (so_tlog (m_slot m))) log_index;
     (_, m) \<leftarrow> with_sched (\<lambda>h. map_option (Pair ()) (log_evaluate log h)) m;
     Some (on_slot (\<lambda>s. s\<lparr>so_tlog := (so_tlog s)\<lparr>log_ringbuf := snd (ringbufindex_get (log_ringbuf (so_tlog s)))\<rparr>\<rparr>) m) }"

partial_function (option) tsch_log_process_pending :: "tsch_mac \<Rightarrow> tsch_mac option" where
  "tsch_log_process_pending m =
     (let log_index = ringbufindex_peek_get (log_ringbuf (so_tlog (m_slot m))) in
      if log_index \<noteq> -1 then do {
        m \<leftarrow> log_pending_one log_index m;
        tsch_log_process_pending m }
      else Some m)"

declare tsch_log_process_pending.simps [code]

definition tsch_log_stop :: "tsch_mac \<Rightarrow> tsch_mac option" where
  "tsch_log_stop m =
     (if log_active (so_tlog (m_slot m)) then do {
        m \<leftarrow> tsch_log_process_pending m;
        Some (on_slot (\<lambda>s. s\<lparr>so_tlog := (so_tlog s)\<lparr>log_active := False\<rparr>\<rparr>) m) }
      else Some m)"

text \<open>What tsch-pending-events-process does when it is polled.\<close>

definition pending_events :: "mac_conf \<Rightarrow> mac_env \<Rightarrow> tsch_mac \<Rightarrow> tsch_mac option" where
  "pending_events c env m = do {
     m \<leftarrow> tsch_rx_process_pending c env m;
     m \<leftarrow> tsch_tx_process_pending c m;
     m \<leftarrow> tsch_log_process_pending m;
     tsch_keepalive_process_pending c env m }"

definition tsch_pending_events_process :: "mac_conf \<Rightarrow> mac_env \<Rightarrow> tsch_mac \<Rightarrow> tsch_mac option" where
  "tsch_pending_events_process c env m =
     (if pending (so_sync (m_slot m)) \<or> log_polled (so_tlog (m_slot m))
      then pending_events c env (on_slot (\<lambda>s. s\<lparr>so_sync := (so_sync s)\<lparr>pending := False\<rparr>,
        so_tlog := (so_tlog s)\<lparr>log_polled := False\<rparr>\<rparr>) m)
      else Some m)"

section \<open>Starting and leaving\<close>

text \<open>The twelve timings, in microseconds and in ticks.\<close>

definition set_timing :: "u16 list \<Rightarrow> slot_state \<Rightarrow> slot_state option" where
  "set_timing src = for_upt 0 tsch_ts_elements_count (\<lambda>i s. do {
     v \<leftarrow> rd src i;
     us \<leftarrow> wr (tsch_timing_us s) i v;
     ticks \<leftarrow> wr (tsch_timing s) i (US_TO_RTIMERTICKS (ucast v));
     Some (s\<lparr>tsch_timing_us := us, tsch_timing := ticks\<rparr>) })"

text \<open>The pending events are handled first when their process is running.\<close>

definition tsch_reset :: "mac_conf \<Rightarrow> mac_env \<Rightarrow> tsch_mac \<Rightarrow> tsch_mac option" where
  "tsch_reset c env m = do {
     let m = on_slot (\<lambda>s. s\<lparr>so_pan_id := frame802154_set_pan_id 0xffff (so_pan_id s)\<rparr>) m;
     m \<leftarrow> (if tsch_is_started m then pending_events c env m else Some m);
     (_, m) \<leftarrow> with_queue (mac_call_sent_callback c) (\<lambda>q. map_option (Pair ()) (tsch_queue_reset q)) m;
     (_, m) \<leftarrow> with_queue (mac_call_sent_callback c) (\<lambda>q. map_option (Pair ()) (tsch_queue_free_unused_neighbors q)) m;
     (_, m) \<leftarrow> with_queue (mac_call_sent_callback c)
        (tsch_queue_update_time_source (coordinator m) (vic_of c m) None) m;
     let m = on_slot (\<lambda>s. with_current None (s\<lparr>tsch_join_priority := 0xff, tsch_current_asn := TSCH_ASN_INIT 0 0\<rparr>)) m;
     let m = m\<lparr>tsch_default_timing_us := tsch_timeslot_timing_us_10000\<rparr>;
     s \<leftarrow> set_timing (tsch_default_timing_us m) (m_slot m);
     let m = mac_event Rpl_leaving (m\<lparr>m_slot := s\<rparr>);
     let m = m\<lparr>last_eb_nbr_addr := linkaddr_copy linkaddr_null\<rparr>;
     Some (on_sync (keepalive_status_update (\<lambda>_. KEEPALIVE_SCHEDULING_UNCHANGED))
        (tsch_set_eb_period (ucast TSCH_EB_PERIOD) m)) }"

definition default_hopping :: "slot_state \<Rightarrow> slot_state option" where
  "default_hopping = set_hopping TSCH_DEFAULT_HOPPING_SEQUENCE (of_nat (length TSCH_DEFAULT_HOPPING_SEQUENCE))"

definition tsch_start_coordinator :: "mac_env \<Rightarrow> tsch_mac \<Rightarrow> tsch_mac option" where
  "tsch_start_coordinator env m = do {
     let m = on_slot (\<lambda>s. s\<lparr>so_pan_id := frame802154_set_pan_id IEEE802154_PANID (so_pan_id s)\<rparr>) m;
     s \<leftarrow> default_hopping (m_slot m);
     let s = s\<lparr>tsch_is_associated := True, tsch_join_priority := 0\<rparr>;
     Some (m\<lparr>m_slot := tsch_slot_operation_sync (me_clock env) (me_now env) (tsch_current_asn s) s\<rparr>) }"

section \<open>Association\<close>

text \<open>The timing and the hopping sequence of the beacon; False when the sequence is too long.\<close>

definition join_hopping :: "ieee802154_ies \<Rightarrow> slot_state \<Rightarrow> (bool \<times> slot_state) option" where
  "join_hopping ies s =
     (if ie_channel_hopping_sequence_id ies = 0 then map_option (Pair True) (default_hopping s)
      else if unat (ie_hopping_sequence_len ies) \<le> length (tsch_hopping_sequence s)
      then map_option (Pair True) (set_hopping (ie_hopping_sequence_list ies) (ie_hopping_sequence_len ies) s)
      else Some (False, s))"

text \<open>The schedule of the beacon; False when it has too many links.\<close>

definition join_schedule :: "mac_conf \<Rightarrow> ieee802154_ies \<Rightarrow> tsch_mac \<Rightarrow> (bool \<times> tsch_mac) option" where
  "join_schedule c ies m =
     (let sl = ie_tsch_slotframe_and_link ies in
      if sl_num_slotframes sl = 0 then Some (True, m)
      else do {
        (_, m) \<leftarrow> with_sched tsch_schedule_remove_all_slotframes m;
        let num_links = uint (sl_num_links sl);
        if num_links \<le> FRAME802154E_IE_MAX_LINKS then do {
          (sf, m) \<leftarrow> with_sched (tsch_schedule_add_slotframe (ucast (sl_handle sl)) (sl_size sl)) m;
          m \<leftarrow> for_upt 0 (nat num_links) (\<lambda>i m. do {
            l \<leftarrow> rd (sl_links sl) i;
            (_, m) \<leftarrow> with_sched (tsch_schedule_add_link (vic_of c m) sf (ie_link_options l) LINK_TYPE_ADVERTISING
               (Some tsch_broadcast_address) (ie_timeslot l) (ie_channel_offset l) True) m;
            Some m }) m;
          Some (True, m) }
        else Some (False, m) })"

text \<open>The last step: the sender of the beacon becomes the time source.\<close>

definition join_network ::
  "mac_conf \<Rightarrow> mac_env \<Rightarrow> frame802154_t \<Rightarrow> u64 \<Rightarrow> tsch_mac \<Rightarrow> (bool \<times> tsch_mac) option" where
  "join_network c env frame timestamp m =
     (if tsch_join_priority (m_slot m) < TSCH_MAX_JOIN_PRIORITY then do {
        (n, m) \<leftarrow> with_queue (mac_call_sent_callback c) (tsch_queue_add_nbr (vic_of c m) (fr_src_addr frame)) m;
        if n = None then Some (False, m)
        else do {
          (_, m) \<leftarrow> with_queue (mac_call_sent_callback c)
             (tsch_queue_update_time_source (coordinator m) (vic_of c m) (Some (fr_src_addr frame))) m;
          let m = on_slot (\<lambda>s. s\<lparr>so_pan_id := frame802154_set_pan_id (fr_src_pid frame) (so_pan_id s)\<rparr>) m;
          tx_offset \<leftarrow> rd (tsch_timing (m_slot m)) tsch_ts_tx_offset;
          let m = on_slot (\<lambda>s. tsch_slot_operation_sync (me_clock env) (timestamp - tx_offset) (tsch_current_asn s) s) m;
          let m = on_slot (\<lambda>s. s\<lparr>tsch_is_associated := True, tx_count := 0, rx_count := 0, sync_count := 0\<rparr>) m;
          let m = m\<lparr>tsch_is_pan_secured := security_enabled (fr_fcf frame) \<noteq> 0\<rparr>;
          let m = on_sync (\<lambda>y. tsch_schedule_keepalive False (y\<lparr>min_drift_seen := 0, max_drift_seen := 0\<rparr>)) m;
          let m = mac_event Rpl_joining m;
          Some (True, m\<lparr>tsch_association_count := tsch_association_count m + 1\<rparr>) } }
      else Some (False, m))"

text \<open>The part of tsch-associate after the checks of the beacon.\<close>

definition adopt ::
  "mac_conf \<Rightarrow> mac_env \<Rightarrow> frame802154_t \<Rightarrow> ieee802154_ies \<Rightarrow> u64 \<Rightarrow> tsch_mac \<Rightarrow> (bool \<times> tsch_mac) option" where
  "adopt c env frame ies timestamp m = do {
     s \<leftarrow> set_timing (if ie_tsch_timeslot_id ies = 0 then tsch_default_timing_us m else ie_tsch_timeslot ies) (m_slot m);
     (ok, s) \<leftarrow> join_hopping ies s;
     let m = m\<lparr>m_slot := s\<rparr>;
     if \<not> ok then Some (False, m)
     else do {
       (ok, m) \<leftarrow> join_schedule c ies m;
       if \<not> ok then Some (False, m)
       else join_network c env frame timestamp m } }"

text \<open>
  input-eb is None for NULL: the condition stops there, but the log statement of the branch, which this
  build compiles, reads the length of the packet.
\<close>

definition tsch_associate ::
  "mac_conf \<Rightarrow> mac_env \<Rightarrow> input_packet option \<Rightarrow> u64 \<Rightarrow> tsch_mac \<Rightarrow> (bool \<times> tsch_mac) option" where
  "tsch_associate c env input_eb timestamp m = do {
     input_eb \<leftarrow> input_eb;
     (ok, frame, ies, _) \<leftarrow> tsch_packet_parse_eb (with_sixtop (mc_conf c)) (max_hopping (mc_conf c))
        (payload input_eb) (in_len input_eb) (me_frame env) (Some (me_ies env)) (Some (me_hdrlen env));
     if ok = 0 then Some (False, m)
     else do {
       ies \<leftarrow> ies;
       let m = on_slot (\<lambda>s. s\<lparr>tsch_current_asn := ie_asn ies, tsch_join_priority := ie_join_priority ies + 1\<rparr>) m;
       if security_enabled (fr_fcf frame) = 1 then Some (False, m)
       else if fr_src_pid frame \<noteq> IEEE802154_PANID then Some (False, m)
       else if ie_join_priority ies = 0xff then Some (False, m)
       else adopt c env frame ies timestamp m } }"

section \<open>Scanning\<close>

text \<open>
  What the radio answers in one round of the scan: a pending packet, one being received and
  pending after the wait, the packet read with its length, and the two times.
\<close>

record scan_env =
  pending_now :: bool
  receiving :: bool
  pending_later :: bool
  scan_payload :: "u8 list"
  scan_len :: int
  scan_t0 :: u64
  scan_t1 :: u64

definition scan_start :: "mac_env \<Rightarrow> tsch_mac \<Rightarrow> tsch_mac" where
  "scan_start env m = on_slot (\<lambda>s. s\<lparr>tsch_current_asn := TSCH_ASN_INIT 0 0\<rparr>) (m\<lparr>current_channel_since := me_clock env\<rparr>)"

definition scan_hop :: "mac_env \<Rightarrow> tsch_mac \<Rightarrow> tsch_mac option" where
  "scan_hop env m =
     (if current_channel m = 0 \<or> me_clock env - current_channel_since m > TSCH_CHANNEL_SCAN_DURATION then do {
        scan_channel \<leftarrow> rd TSCH_DEFAULT_HOPPING_SEQUENCE (unat (me_random env) mod length TSCH_DEFAULT_HOPPING_SEQUENCE);
        Some (mac_event (Scan_channel scan_channel) (m\<lparr>current_channel := scan_channel, current_channel_since := me_clock env\<rparr>)) }
      else Some m)"

text \<open>The difference of the two times is signed, its absolute value compared as unsigned.\<close>

definition timestamp_ok :: "u64 \<Rightarrow> u64 \<Rightarrow> bool" where
  "timestamp_ok t0 t1 \<longleftrightarrow> (let d = t0 - t1 in (if sint d < 0 then - d else d) < 2 * RTIMER_SECOND)"

text \<open>One round of the loop of tsch-scan.\<close>

definition tsch_scan :: "mac_conf \<Rightarrow> mac_env \<Rightarrow> scan_env \<Rightarrow> tsch_mac \<Rightarrow> tsch_mac option" where
  "tsch_scan c env e m = do {
     m \<leftarrow> scan_hop env m;
     let m = mac_event Scan_radio_on m;
     let is_packet_pending = (pending_now e \<or> receiving e \<and> pending_later e);
     m \<leftarrow> (if is_packet_pending \<and> scan_len e > 0 \<and> timestamp_ok (scan_t0 e) (scan_t1 e) then do {
         (_, m) \<leftarrow> tsch_associate c env
            (Some \<lparr>payload = scan_payload e, rx_asn = tsch_current_asn (m_slot m), in_len = scan_len e, in_rssi = 0,
               in_channel = 0\<rparr>) (scan_t0 e) m;
         Some m }
       else Some m);
     Some (if associated m then mac_event Scan_radio_off m else m) }"

text \<open>
  The main process from one wait to the next. It starts the slot operation when it is in a network and
  then waits to have left it; the flag tells whether it is in that second wait. nows are the timer
  readings of the start of the slot operation.
\<close>

definition start_operation :: "mac_conf \<Rightarrow> u64 list \<Rightarrow> tsch_mac \<Rightarrow> (bool \<times> tsch_mac) option" where
  "start_operation c nows m = do {
     s \<leftarrow> tsch_slot_operation_start (mc_conf c) nows (m_slot m);
     Some (True, m\<lparr>m_slot := s\<rparr>) }"

definition join_or_wait :: "mac_conf \<Rightarrow> mac_env \<Rightarrow> scan_env \<Rightarrow> u64 list \<Rightarrow> tsch_mac \<Rightarrow> (bool \<times> tsch_mac) option" where
  "join_or_wait c env e nows m =
     (if associated m then start_operation c nows m
      else if coordinator m then do { m \<leftarrow> tsch_start_coordinator env m; start_operation c nows m }
      else do {
        m \<leftarrow> tsch_scan c env e m;
        if associated m then start_operation c nows m else Some (False, m) })"

definition tsch_process_start ::
  "mac_conf \<Rightarrow> mac_env \<Rightarrow> scan_env \<Rightarrow> u64 list \<Rightarrow> tsch_mac \<Rightarrow> (bool \<times> tsch_mac) option" where
  "tsch_process_start c env e nows m =
     join_or_wait c env e nows (if associated m \<or> coordinator m then m else scan_start env m)"

definition tsch_process ::
  "mac_conf \<Rightarrow> mac_env \<Rightarrow> scan_env \<Rightarrow> u64 list \<Rightarrow> bool \<Rightarrow> tsch_mac \<Rightarrow> (bool \<times> tsch_mac) option" where
  "tsch_process c env e nows operating m =
     (if operating then
        (if associated m then Some (True, m)
         else do {
           m \<leftarrow> tsch_reset c env m;
           tsch_process_start c env e nows m })
      else join_or_wait c env e nows m)"

section \<open>Beacons\<close>

definition eb_env_of :: "mac_conf \<Rightarrow> tsch_mac \<Rightarrow> eb_env" where
  "eb_env_of c m = \<lparr>env_max_hopping = max_hopping (mc_conf c), env_timing_us = tsch_timing_us (m_slot m),
     env_hop_len = val (tsch_hopping_sequence_length (m_slot m)), env_hop_seq = tsch_hopping_sequence (m_slot m),
     env_sched = m_sched m, env_node_addr = linkaddr_node_addr (m_sched m)\<rparr>"

definition queue_eb :: "mac_conf \<Rightarrow> mac_env \<Rightarrow> tsch_mac \<Rightarrow> tsch_mac option" where
  "queue_eb c env m = do {
     ((len, lens), m) \<leftarrow> with_framer (\<lambda>k. map_option (\<lambda>(r, l, k). ((r, l), k))
        (tsch_packet_create_eb (mc_eb c) (eb_env_of c m) (me_random2 env) k)) m;
     (if len > 0 then do {
        (hdr_len, sync_offset) \<leftarrow> lens;
        (p, m) \<leftarrow> add_packet c tsch_eb_address 1 0 0 m;
        (case p of
           None \<Rightarrow> Some m
         | Some p \<Rightarrow> Some (on_slot (upd_pk p (\<lambda>k. k\<lparr>pk_sync_offset := sync_offset, pk_header_len := hdr_len\<rparr>)) m)) }
      else Some m) }"

text \<open>
  One round of tsch-send-eb-process with the delay to the next one, and the delays before the first:
  while not associated, and then once for a node that is not the coordinator.
\<close>

definition eb_delay :: "u64 \<Rightarrow> u16 \<Rightarrow> u64 option" where
  "eb_delay period rnd =
     (if period > 0 then
        (if period div 4 = 0 then None else Some ((period - period div 4) + ucast rnd mod (period div 4)))
      else Some TSCH_EB_PERIOD)"

definition eb_first_delay :: "bool \<Rightarrow> u16 \<Rightarrow> u64 option" where
  "eb_first_delay is_coordinator rnd = (if is_coordinator then None else Some (ucast rnd mod TSCH_EB_PERIOD))"

definition tsch_send_eb_process :: "mac_conf \<Rightarrow> mac_env \<Rightarrow> tsch_mac \<Rightarrow> (u64 \<times> tsch_mac) option" where
  "tsch_send_eb_process c env m = do {
     m \<leftarrow> (if \<not> associated m then Some m
          else if tsch_current_eb_period m = 0 then Some m
          else if \<not> node_has_joined c then Some m
          else if is_in_leaf_mode c then Some m
          else if tsch_queue_nbr_packet_count (n_eb (m_queue m)) (m_queue m) \<noteq> 0 then Some m
          else queue_eb c env m);
     d \<leftarrow> eb_delay (tsch_current_eb_period m) (me_random env);
     Some (d, m) }"

section \<open>The driver\<close>

definition turn_on :: "tsch_mac \<Rightarrow> bool \<times> tsch_mac" where
  "turn_on m = (if tsch_is_initialized m \<and> \<not> tsch_is_started m
     then (True, mac_event Start_tsch_process (mac_event Start_send_eb_process (mac_event Start_pending_events_process
       (m\<lparr>tsch_is_started := True\<rparr>)))) else (False, m))"

text \<open>
  radio-ok are the results of the seven calls that configure and try the radio, in their order; the
  first failure ends the function. The zero blocks are what the pools are cleared to. TSCH-AUTOSTART
  is on.
\<close>

definition tsch_init ::
  "mac_conf \<Rightarrow> mac_env \<Rightarrow> bool list \<Rightarrow> tsch_packet \<Rightarrow> tsch_link \<Rightarrow> tsch_slotframe \<Rightarrow> tsch_mac \<Rightarrow> tsch_mac option" where
  "tsch_init c env radio_ok zp zl zs m =
     (if \<not> list_all id radio_ok then Some m
      else if length (tsch_hopping_sequence (m_slot m)) < length TSCH_DEFAULT_HOPPING_SEQUENCE then Some m
      else do {
        m \<leftarrow> tsch_reset c env m;
        (_, m) \<leftarrow> with_queue (mac_call_sent_callback c)
           (\<lambda>q. map_option (Pair ()) (tsch_queue_init (vic_of c m) zp q)) m;
        (_, m) \<leftarrow> with_sched (tsch_schedule_init zl zs) m;
        let m = on_slot (\<lambda>s. s\<lparr>so_tlog := tsch_log_init (so_tlog s)\<rparr>) m;
        let m = on_slot (\<lambda>s. s\<lparr>input_ringbuf := ringbufindex_init (of_nat (length (input_array s))),
           dequeued_ringbuf := ringbufindex_init (of_nat (length (dequeued_array s)))\<rparr>) m;
        let m = m\<lparr>tsch_packet_seqno := ucast (me_random env), tsch_is_initialized := True\<rparr>;
        Some (snd (turn_on m)) })"

definition turn_off :: "tsch_mac \<Rightarrow> bool \<times> tsch_mac" where
  "turn_off m = (True, mac_event Scan_radio_off m)"

text \<open>max-radio is the payload of the radio, None when the driver does not tell.\<close>

definition max_payload :: "mac_env \<Rightarrow> int option \<Rightarrow> tsch_mac \<Rightarrow> (int \<times> tsch_mac) option" where
  "max_payload env max_radio m =
     (if \<not> associated m then Some (0, m)
      else case max_radio of
        None \<Rightarrow> Some (0, m)
      | Some max_radio_payload_len \<Rightarrow> do {
          (framer_hdrlen, m) \<leftarrow> with_framer (hdr_length (me_random2 env)) m;
          Some (if framer_hdrlen < 0 then (0, m)
                else (min max_radio_payload_len (int TSCH_PACKET_MAX_LEN) - framer_hdrlen, m)) })"

end
