(* ===== verification/Tsch_Rpl.thy ===== *)
theory Tsch_Rpl
  imports Tsch_Mac
begin

text \<open>
  tsch-rpl.c: how RPL steers TSCH. RPL calls the first function when the interval of its DIO timer
  changes, the second when the node changes its preferred parent. The record holds what they read of the
  state of RPL-lite: the rank of the node and the rank step of the network. The callbacks in the other
  direction are the events Rpl-ka-sent, Rpl-joining and Rpl-leaving of tsch.c.
\<close>

record rpl =
  rpl_rank :: u16
  min_hoprankinc :: u16

definition RPL_INFINITE_RANK :: u16 where "RPL_INFINITE_RANK = 0xFFFF"

definition ROOT_RANK :: "rpl \<Rightarrow> u16" where "ROOT_RANK r = min_hoprankinc r"

definition DAG_RANK :: "rpl \<Rightarrow> u16 \<Rightarrow> u16 option" where
  "DAG_RANK r fixpt_rank = (if min_hoprankinc r = 0 then None else Some (fixpt_rank div min_hoprankinc r))"

definition tsch_rpl_callback_new_dio_interval :: "u64 \<Rightarrow> rpl \<Rightarrow> tsch_mac \<Rightarrow> tsch_mac option" where
  "tsch_rpl_callback_new_dio_interval dio_interval dag m = do {
     let root_rank = ROOT_RANK dag;
     dag_rank \<leftarrow> DAG_RANK dag (rpl_rank dag);
     if rpl_rank dag \<noteq> RPL_INFINITE_RANK then do {
       let m = (if rpl_rank dag = root_rank then tsch_set_coordinator True m else m);
       let m = tsch_set_eb_period (ucast dio_interval) m;
       Some (tsch_set_join_priority (word_of_int (uint dag_rank - 1)) m) }
     else Some (tsch_set_eb_period (ucast TSCH_EB_PERIOD) m) }"

text \<open>new is the link-layer address of the new parent, None when there is no parent or its address is unknown.\<close>

definition tsch_rpl_callback_parent_switch :: "mac_conf \<Rightarrow> linkaddr option \<Rightarrow> tsch_mac \<Rightarrow> tsch_mac option" where
  "tsch_rpl_callback_parent_switch c new m =
     (if associated m then do {
        (_, m) \<leftarrow> with_queue (mac_call_sent_callback c) (tsch_queue_update_time_source (coordinator m) (vic_of c m) new) m;
        Some m }
      else Some m)"

text \<open>
  A node that RPL made the root becomes the coordinator, with join priority 0; a node with a rank keeps its role
  and announces its distance to the root; without a rank only the period of the beacons changes.
\<close>

lemma dio_root:
  assumes "rpl_rank dag = min_hoprankinc dag" "min_hoprankinc dag \<noteq> 0" "min_hoprankinc dag \<noteq> RPL_INFINITE_RANK"
  shows "\<exists>m'. tsch_rpl_callback_new_dio_interval t dag m = Some m' \<and> coordinator m' \<and> tsch_join_priority (m_slot m') = 0"
proof -
  have "rpl_rank dag div min_hoprankinc dag = 1"
    using assms by (simp add: word_div_def uint_0_iff)
  then show ?thesis
    using assms by (simp add: tsch_rpl_callback_new_dio_interval_def DAG_RANK_def ROOT_RANK_def Let_def
        tsch_set_coordinator_def tsch_set_join_priority_def tsch_set_eb_period_def on_slot_def)
qed

lemma dio_other:
  assumes "rpl_rank dag \<noteq> min_hoprankinc dag" "tsch_rpl_callback_new_dio_interval t dag m = Some m'"
  shows "coordinator m' = coordinator m \<and> associated m' = associated m"
  using assms by (auto simp: tsch_rpl_callback_new_dio_interval_def DAG_RANK_def ROOT_RANK_def Let_def
      tsch_set_join_priority_def tsch_set_eb_period_def on_slot_def split: if_splits)

end
