(* ===== verification/Slot_Facts.thy ===== *)
theory Slot_Facts
  imports Slot_Operation
begin

text \<open>
  Facts about the slot operation: the deadline test and the hop to a channel; what a slot never
  changes; that the radio is off after every slot; how a transmission moves a packet between
  the queues; that the loop that schedules the next slot ends and finds a link of that slot; the
  acknowledgement as receiver and sender see it; which frames reach the input queue.
\<close>

section \<open>Timers and channels\<close>

lemma unat_less64: "unat (w :: u64) < 18446744073709551616"
  using unsigned_less [of w, where ?'a = nat] by simp

lemma unat_add64: "unat (a + b :: u64) = (if unat a + unat b < 18446744073709551616 then unat a + unat b
  else unat a + unat b - 18446744073709551616)"
  using unat_less64 [of a] unat_less64 [of b] by (simp add: unat_word_ariths mod_if)

text \<open>The test is right however the timer wraps: it compares the time since the reference.\<close>

lemma check_timer_miss_iff: "check_timer_miss r off now \<longleftrightarrow> off \<le> now - r"
proof -
  have e: "now = r + (now - r)" by simp
  define d where "d = now - r"
  have "check_timer_miss r off (r + d) \<longleftrightarrow> off \<le> d"
  proof -
    have "unat r < 18446744073709551616" "unat off < 18446744073709551616" "unat d < 18446744073709551616"
      by (rule unat_less64)+
    then show ?thesis
      unfolding check_timer_miss_def Let_def word_less_nat_alt word_le_nat_alt unat_add64 by (auto split: if_splits)
  qed
  then show ?thesis using e d_def by metis
qed

definition saltos_ok :: "slot_state \<Rightarrow> bool" where
  "saltos_ok s \<longleftrightarrow> TSCH_ASN_DIVISOR_INIT (of_nat (length (tsch_hopping_sequence s))) = Some (tsch_hopping_sequence_length s)
     \<and> length (tsch_hopping_sequence s) < 2 ^ 16"

lemma divisor_init_some: "TSCH_ASN_DIVISOR_INIT v = Some d \<Longrightarrow> val d = v \<and> v \<noteq> 0"
  by (auto simp: TSCH_ASN_DIVISOR_INIT_def split: if_splits)

lemma calculate_channel_run:
  assumes "saltos_ok s"
  shows "tsch_calculate_channel asn choff s
    = Some (tsch_hopping_sequence s ! ((asn_val asn + unat choff) mod length (tsch_hopping_sequence s)))"
proof -
  let ?h = "tsch_hopping_sequence s"
  have d: "TSCH_ASN_DIVISOR_INIT (of_nat (length ?h)) = Some (tsch_hopping_sequence_length s)"
    using assms by (simp add: saltos_ok_def)
  have l: "unat (of_nat (length ?h) :: u16) = length ?h"
    using assms by (simp add: saltos_ok_def unsigned_of_nat take_bit_nat_eq_self)
  have v: "val (tsch_hopping_sequence_length s) = of_nat (length ?h)" "(of_nat (length ?h) :: u16) \<noteq> 0"
    using divisor_init_some [OF d] by auto
  then have ne: "0 < length ?h" using l by (cases ?h) auto
  obtain m where m: "TSCH_ASN_MOD asn (tsch_hopping_sequence_length s) = Some m" "unat m = asn_val asn mod length ?h"
    using asn_mod_run [OF d, of asn] l by auto
  show ?thesis
    using m l ne v(1) by (simp add: tsch_calculate_channel_def rd_def mod_add_left_eq)
qed

section \<open>The log\<close>

text \<open>An entry in the log changes nothing else.\<close>

lemma log_add_only: "\<exists>g. log_add b s = s\<lparr>so_tlog := g\<rparr>"
  by (auto simp: log_add_def)

lemma log_adds_only: "\<exists>g. (log_add b ^^ n) s = s\<lparr>so_tlog := g\<rparr>"
proof (induction n)
  case 0
  show ?case by (rule exI [of _ "so_tlog s"]) simp
next
  case (Suc n)
  then show ?case using log_add_only [of b "(log_add b ^^ n) s"] by auto
qed

lemma log_keeps:
  assumes "\<And>g. f (s\<lparr>so_tlog := g\<rparr>) = f s"
  shows "f (log_add b s) = f s" and "f ((log_add b ^^ n) s) = f s"
proof -
  show "f (log_add b s) = f s" using log_add_only [of b s] assms by (elim exE) simp
  show "f ((log_add b ^^ n) s) = f s" using log_adds_only [of n b s] assms by (elim exE) simp
qed

lemma log_fields [simp]:
  "so_sched (log_add b s) = so_sched s" "so_sched ((log_add b ^^ n) s) = so_sched s"
  "so_sync (log_add b s) = so_sync s" "so_sync ((log_add b ^^ n) s) = so_sync s"
  "so_qb (log_add b s) = so_qb s" "so_qb ((log_add b ^^ n) s) = so_qb s"
  "so_pan_id (log_add b s) = so_pan_id s" "so_pan_id ((log_add b ^^ n) s) = so_pan_id s"
  "dequeued_ringbuf (log_add b s) = dequeued_ringbuf s" "dequeued_ringbuf ((log_add b ^^ n) s) = dequeued_ringbuf s"
  "dequeued_array (log_add b s) = dequeued_array s" "dequeued_array ((log_add b ^^ n) s) = dequeued_array s"
  "input_ringbuf (log_add b s) = input_ringbuf s" "input_ringbuf ((log_add b ^^ n) s) = input_ringbuf s"
  "input_array (log_add b s) = input_array s" "input_array ((log_add b ^^ n) s) = input_array s"
  "last_sync_asn (log_add b s) = last_sync_asn s" "last_sync_asn ((log_add b ^^ n) s) = last_sync_asn s"
  "tsch_last_sync_time (log_add b s) = tsch_last_sync_time s" "tsch_last_sync_time ((log_add b ^^ n) s) = tsch_last_sync_time s"
  "drift_correction (log_add b s) = drift_correction s" "drift_correction ((log_add b ^^ n) s) = drift_correction s"
  "is_drift_correction_used (log_add b s) = is_drift_correction_used s" "is_drift_correction_used ((log_add b ^^ n) s) = is_drift_correction_used s"
  "current_slot_start (log_add b s) = current_slot_start s" "current_slot_start ((log_add b ^^ n) s) = current_slot_start s"
  "tsch_current_channel (log_add b s) = tsch_current_channel s" "tsch_current_channel ((log_add b ^^ n) s) = tsch_current_channel s"
  "tsch_current_channel_offset (log_add b s) = tsch_current_channel_offset s" "tsch_current_channel_offset ((log_add b ^^ n) s) = tsch_current_channel_offset s"
  "backup_link (log_add b s) = backup_link s" "backup_link ((log_add b ^^ n) s) = backup_link s"
  "current_packet (log_add b s) = current_packet s" "current_packet ((log_add b ^^ n) s) = current_packet s"
  "current_neighbor (log_add b s) = current_neighbor s" "current_neighbor ((log_add b ^^ n) s) = current_neighbor s"
  "burst_link_scheduled (log_add b s) = burst_link_scheduled s" "burst_link_scheduled ((log_add b ^^ n) s) = burst_link_scheduled s"
  "tsch_current_burst_count (log_add b s) = tsch_current_burst_count s" "tsch_current_burst_count ((log_add b ^^ n) s) = tsch_current_burst_count s"
  "tsch_current_asn (log_add b s) = tsch_current_asn s" "tsch_current_asn ((log_add b ^^ n) s) = tsch_current_asn s"
  "tsch_join_priority (log_add b s) = tsch_join_priority s" "tsch_join_priority ((log_add b ^^ n) s) = tsch_join_priority s"
  "tsch_is_associated (log_add b s) = tsch_is_associated s" "tsch_is_associated ((log_add b ^^ n) s) = tsch_is_associated s"
  "tsch_is_coordinator (log_add b s) = tsch_is_coordinator s" "tsch_is_coordinator ((log_add b ^^ n) s) = tsch_is_coordinator s"
  "tsch_hopping_sequence (log_add b s) = tsch_hopping_sequence s" "tsch_hopping_sequence ((log_add b ^^ n) s) = tsch_hopping_sequence s"
  "tsch_hopping_sequence_length (log_add b s) = tsch_hopping_sequence_length s" "tsch_hopping_sequence_length ((log_add b ^^ n) s) = tsch_hopping_sequence_length s"
  "tsch_timing_us (log_add b s) = tsch_timing_us s" "tsch_timing_us ((log_add b ^^ n) s) = tsch_timing_us s"
  "tsch_timing (log_add b s) = tsch_timing s" "tsch_timing ((log_add b ^^ n) s) = tsch_timing s"
  "tx_count (log_add b s) = tx_count s" "tx_count ((log_add b ^^ n) s) = tx_count s"
  "rx_count (log_add b s) = rx_count s" "rx_count ((log_add b ^^ n) s) = rx_count s"
  "sync_count (log_add b s) = sync_count s" "sync_count ((log_add b ^^ n) s) = sync_count s"
  "rx_frame (log_add b s) = rx_frame s" "rx_frame ((log_add b ^^ n) s) = rx_frame s"
  "input_queue_drop (log_add b s) = input_queue_drop s" "input_queue_drop ((log_add b ^^ n) s) = input_queue_drop s"
  "so_log (log_add b s) = so_log s" "so_log ((log_add b ^^ n) s) = so_log s"
  by (rule log_keeps, simp)+

section \<open>What a slot leaves alone\<close>

text \<open>
  What no part of a transmission changes, then what the parts before the packet leaves the queue
  leave alone too.
\<close>

definition resto where
  "resto s = (so_sched s, so_pan_id s, (current_slot_start s, tsch_current_asn s), (current_packet s, current_neighbor s),
     (backup_link s, tsch_current_burst_count s), (tsch_is_associated s, tsch_is_coordinator s, tsch_join_priority s),
     (tsch_hopping_sequence s, tsch_hopping_sequence_length s, tsch_timing_us s, tsch_timing s),
     (tsch_current_channel s, tsch_current_channel_offset s))"

definition filas where
  "filas s = (dequeued_ringbuf s, dequeued_array s, input_ringbuf s, input_array s)"

lemma wait_keeps:
  assumes "\<And>g. f (s\<lparr>so_tlog := g\<rparr>) = f s" and "\<And>l. f (s\<lparr>so_log := l\<rparr>) = f s" and "\<And>g l. f (s\<lparr>so_log := l, so_tlog := g\<rparr>) = f s"
  shows "f (wait_until env i r off s) = f s"
  using assms log_add_only [of tsch_log_message "event (Wake r off) s"] by (auto simp: wait_until_def event_def Let_def)

lemma wait_fields [simp]:
  "so_sched (wait_until env i r off s) = so_sched s"
  "so_sync (wait_until env i r off s) = so_sync s"
  "so_qb (wait_until env i r off s) = so_qb s"
  "so_pan_id (wait_until env i r off s) = so_pan_id s"
  "dequeued_ringbuf (wait_until env i r off s) = dequeued_ringbuf s"
  "dequeued_array (wait_until env i r off s) = dequeued_array s"
  "input_ringbuf (wait_until env i r off s) = input_ringbuf s"
  "input_array (wait_until env i r off s) = input_array s"
  "last_sync_asn (wait_until env i r off s) = last_sync_asn s"
  "tsch_last_sync_time (wait_until env i r off s) = tsch_last_sync_time s"
  "drift_correction (wait_until env i r off s) = drift_correction s"
  "is_drift_correction_used (wait_until env i r off s) = is_drift_correction_used s"
  "current_slot_start (wait_until env i r off s) = current_slot_start s"
  "tsch_current_channel (wait_until env i r off s) = tsch_current_channel s"
  "tsch_current_channel_offset (wait_until env i r off s) = tsch_current_channel_offset s"
  "backup_link (wait_until env i r off s) = backup_link s"
  "current_packet (wait_until env i r off s) = current_packet s"
  "current_neighbor (wait_until env i r off s) = current_neighbor s"
  "burst_link_scheduled (wait_until env i r off s) = burst_link_scheduled s"
  "tsch_current_burst_count (wait_until env i r off s) = tsch_current_burst_count s"
  "tsch_current_asn (wait_until env i r off s) = tsch_current_asn s"
  "tsch_join_priority (wait_until env i r off s) = tsch_join_priority s"
  "tsch_is_associated (wait_until env i r off s) = tsch_is_associated s"
  "tsch_is_coordinator (wait_until env i r off s) = tsch_is_coordinator s"
  "tsch_hopping_sequence (wait_until env i r off s) = tsch_hopping_sequence s"
  "tsch_hopping_sequence_length (wait_until env i r off s) = tsch_hopping_sequence_length s"
  "tsch_timing_us (wait_until env i r off s) = tsch_timing_us s"
  "tsch_timing (wait_until env i r off s) = tsch_timing s"
  "tx_count (wait_until env i r off s) = tx_count s"
  "rx_count (wait_until env i r off s) = rx_count s"
  "sync_count (wait_until env i r off s) = sync_count s"
  "rx_frame (wait_until env i r off s) = rx_frame s"
  by (rule wait_keeps; simp)+

lemma wait_log [simp]: "so_log (wait_until env i r off s) = so_log s @ [Wake r off]"
  by (simp add: wait_until_def event_def Let_def)

lemmas resto_simps = resto_def filas_def event_def tsch_radio_on_def tsch_radio_off_def process_poll_pending_def

lemma tx_packet_keeps:
  "sempre (tx_packet c env qb off s) (\<lambda>(r, l, q, w, b, ok, s'). resto s' = resto s \<and> filas s' = filas s \<and>
     so_log s' = so_log s \<and> so_sync s' = so_sync s)"
  unfolding tx_packet_def set_bytes_def
  by (rule leva | rule sempre_any | (simp add: resto_simps; fail))+

lemma sync_update_only: "sempre (sync_update n k d s) (\<lambda>s'. \<exists>y g. s' = s\<lparr>so_sync := y, so_tlog := g\<rparr>)"
proof -
  have x: "\<exists>y g. (if b then log_add e s else s)\<lparr>so_sync := z\<rparr> = s\<lparr>so_sync := y, so_tlog := g\<rparr>" for b e z
    by (rule exI [of _ z], rule exI [of _ "so_tlog (if b then log_add e s else s)"]) (simp add: log_add_def)
  show ?thesis unfolding sync_update_def Let_def by (rule leva | rule x | rule sempre_any)+
qed

lemma sync_update_keeps: "sempre (sync_update n k d s) (\<lambda>s'. resto s' = resto s \<and> filas s' = filas s \<and> so_log s' = so_log s \<and> so_qb s' = so_qb s)"
  by (rule sempre_weaken [OF sync_update_only]) (auto simp: resto_def filas_def)

lemma tx_ack_keeps:
  "sempre (tx_ack c env seqno b s) (\<lambda>(st, s'). resto s' = resto s \<and> filas s' = filas s \<and>
     so_log s' = so_log s \<and> so_qb s' = so_qb s)"
  unfolding tx_ack_def tx_sync_def
  by (rule leva | rule sempre_weaken [OF sync_update_keeps] | rule sempre_any | (simp add: resto_simps; fail))+

section \<open>The radio is switched off\<close>

fun ligado :: "bool \<Rightarrow> radio_event list \<Rightarrow> bool" where
  "ligado b [] = b"
| "ligado b (Radio_on # es) = ligado True es"
| "ligado b (Radio_off # es) = ligado False es"
| "ligado b (e # es) = ligado b es"

lemma ligado_append [simp]: "ligado b (xs @ ys) = ligado (ligado b xs) ys"
  by (induction b xs rule: ligado.induct) simp_all

text \<open>The parts of an exchange, one at a time.\<close>

lemma troca_simps:
  "resto (event e s) = resto s" "filas (event e s) = filas s" "so_qb (event e s) = so_qb s" "so_log (event e s) = so_log s @ [e]"
  "resto (tsch_radio_on c on s) = resto s" "filas (tsch_radio_on c on s) = filas s" "so_qb (tsch_radio_on c on s) = so_qb s"
  "resto (tsch_radio_off c off s) = resto s" "filas (tsch_radio_off c off s) = filas s" "so_qb (tsch_radio_off c off s) = so_qb s"
  "resto (wait_until env i r t s) = resto s" "filas (wait_until env i r t s) = filas s" "so_qb (wait_until env i r t s) = so_qb s"
  "resto (s\<lparr>tx_count := n\<rparr>) = resto s" "filas (s\<lparr>tx_count := n\<rparr>) = filas s" "so_qb (s\<lparr>tx_count := n\<rparr>) = so_qb s"
  "so_log (s\<lparr>tx_count := n\<rparr>) = so_log s"
  by (simp_all add: resto_simps)

lemma radio_off_within:
  "\<not> TSCH_RADIO_ON_DURING_TIMESLOT c \<Longrightarrow> \<not> ligado False (so_log (tsch_radio_off c TSCH_RADIO_CMD_OFF_WITHIN_TIMESLOT s))"
  by (simp add: tsch_radio_off_def event_def)

lemma tx_exchange_keeps:
  "sempre (tx_exchange c env r l q w b ok s) (\<lambda>(st, s'). resto s' = resto s \<and> filas s' = filas s \<and>
     so_qb s' = so_qb s \<and>
     (\<not> TSCH_RADIO_ON_DURING_TIMESLOT c \<longrightarrow> \<not> ligado False (so_log s) \<longrightarrow> \<not> ligado False (so_log s')))"
  unfolding tx_exchange_def
  by (rule leva | rule sempre_weaken [OF tx_ack_keeps] | rule sempre_any | (simp add: troca_simps radio_off_within; fail)
      | (clarsimp simp: troca_simps radio_off_within; fail))+

section \<open>A transmission and the queues\<close>

lemma rb_store:
  assumes "rb_ok r" and "length d = rb_sz r" and "ringbufindex_peek_put r \<noteq> -1"
  shows "\<exists>d'. wri d (ringbufindex_peek_put r) v = Some d' \<and> length d' = length d \<and>
    rb_ok (snd (ringbufindex_put r)) \<and> rb_sz (snd (ringbufindex_put r)) = rb_sz r \<and>
    rbi.conteudo d' (snd (ringbufindex_put r)) = rbi.conteudo d r @ [v]"
proof -
  have l: "length (rb_els r) + 1 < rb_sz r"
    using rbi.els_ok [OF assms(1)] rbi.full [OF assms(1)] assms(3) by (cases "length (rb_els r) + 1 = rb_sz r") auto
  obtain i where i: "ringbufindex_peek_put r = int i" "i < rb_sz r" "rb_ok (snd (ringbufindex_put r))"
    "rb_sz (snd (ringbufindex_put r)) = rb_sz r"
    using rbi.room [OF assms(1) l] by blast
  show ?thesis using rbi.write_put [OF assms(1) l assms(2), of v] i assms(2) by simp
qed

lemma on_queue_simps [simp]:
  "so_queue (on_queue f s) = f (so_queue s)" "dequeued_ringbuf (on_queue f s) = dequeued_ringbuf s"
  "dequeued_array (on_queue f s) = dequeued_array s" "current_packet (on_queue f s) = current_packet s"
  "current_neighbor (on_queue f s) = current_neighbor s" "so_log (on_queue f s) = so_log s"
  "current_link (so_sched (on_queue f s)) = current_link (so_sched s)"
  "link_memb (so_sched (on_queue f s)) = link_memb (so_sched s)"
  by (simp_all add: on_queue_def)

lemma upd_pk_queue:
  "tq_nbrs (so_queue (upd_pk p f s)) = tq_nbrs (so_queue s)" "tq_nt (so_queue (upd_pk p f s)) = tq_nt (so_queue s)"
  "tq_lk (so_queue (upd_pk p f s)) = tq_lk (so_queue s)"
  "used (tq_pks (so_queue (upd_pk p f s))) = used (tq_pks (so_queue s))"
  "length (mem (tq_pks (so_queue (upd_pk p f s)))) = length (mem (tq_pks (so_queue s)))"
  "p < length (mem (tq_pks (so_queue s))) \<Longrightarrow> pk_of (upd_pk p f s) p = f (pk_of s p)"
  by (simp_all add: upd_pk_def)

lemma upd_pk_inv: "tq_inv (so_queue (upd_pk p f s)) \<longleftrightarrow> tq_inv (so_queue s)"
  by (simp add: tq_inv_def todos_def upd_pk_queue vivos_def)

text \<open>The status a transmission ended with, and the state in which the packet is handed to the queue.\<close>

lemma log_attempt_only: "sempre (log_attempt st p s) (\<lambda>s'. \<exists>g. s' = s\<lparr>so_tlog := g\<rparr>)"
  unfolding log_attempt_def Let_def by (rule leva | rule sempre_any | rule log_add_only)+

lemma log_attempt_eq: "log_attempt st p s = Some s' \<Longrightarrow> \<exists>g. s' = s\<lparr>so_tlog := g\<rparr>"
  by (rule sempreD [OF log_attempt_only])

definition enviou :: "conf \<Rightarrow> ambiente \<Rightarrow> nat \<Rightarrow> slot_state \<Rightarrow> mac_status \<Rightarrow> slot_state \<Rightarrow> bool" where
  "enviou c env p s st t \<longleftrightarrow> resto t = resto s \<and> filas t = filas s \<and>
     (if pk_qb (pk_of s p) = None then st = MAC_TX_ERR_FATAL \<and> t = tsch_radio_off c TSCH_RADIO_CMD_OFF_END_OF_TIMESLOT s
      else \<exists>r l q w b ok s1 s2. tx_packet c env (pk_qb (pk_of s p)) (pk_sync_offset (pk_of s p)) s = Some (r, l, q, w, b, ok, s1) \<and>
        tx_exchange c env r l q w b ok s1 = Some (st, s2) \<and> t = tsch_radio_off c TSCH_RADIO_CMD_OFF_END_OF_TIMESLOT s2)"

lemma tx_slot_cases:
  assumes run: "tsch_tx_slot c env s = Some s'" and room: "ringbufindex_peek_put (dequeued_ringbuf s) \<noteq> -1"
    and p: "current_packet s = Some p"
  obtains st t n l q iq where "enviou c env p s st t" "current_neighbor s = Some n" "current_link (so_sched s) = Some l"
    "tsch_queue_packet_sent (random_rand env) n p (opt_of s l) st
       (so_queue (upd_pk p (\<lambda>k. k\<lparr>pk_transmissions := pk_transmissions k + 1, pk_ret := st\<rparr>) t)) = Some (iq, q)"
    "so_queue s' = q" "so_log s' = so_log t"
    "if iq = 0 then wri (dequeued_array s) (ringbufindex_peek_put (dequeued_ringbuf s)) (Some p) = Some (dequeued_array s') \<and>
         dequeued_ringbuf s' = snd (ringbufindex_put (dequeued_ringbuf s))
     else dequeued_array s' = dequeued_array s \<and> dequeued_ringbuf s' = dequeued_ringbuf s"
proof -
  let ?m = "if pk_qb (pk_of s p) = None then Some (MAC_TX_ERR_FATAL, s)
      else do { (r, l, q, w, b, ok, s) \<leftarrow> tx_packet c env (pk_qb (pk_of s p)) (pk_sync_offset (pk_of s p)) s;
                tx_exchange c env r l q w b ok s }"
  obtain st s2 where m: "?m = Some (st, s2)"
    using run room p by (cases ?m) (auto simp: tsch_tx_slot_def)
  have k: "resto s2 = resto s \<and> filas s2 = filas s"
  proof (cases "pk_qb (pk_of s p) = None")
    case True
    then show ?thesis using m by simp
  next
    case False
    then obtain r l q w b ok s1 where e: "tx_packet c env (pk_qb (pk_of s p)) (pk_sync_offset (pk_of s p)) s = Some (r, l, q, w, b, ok, s1)"
      "tx_exchange c env r l q w b ok s1 = Some (st, s2)"
      using m by (auto split: bind_splits)
    then show ?thesis using sempreD [OF tx_packet_keeps e(1)] sempreD [OF tx_exchange_keeps e(2)] by simp
  qed
  define t where "t = tsch_radio_off c TSCH_RADIO_CMD_OFF_END_OF_TIMESLOT s2"
  have kt: "resto t = resto s" "filas t = filas s" using k by (auto simp: t_def resto_simps)
  have env: "enviou c env p s st t"
    using m kt unfolding enviou_def by (auto simp: t_def split: bind_splits if_splits)
  define u where "u = upd_pk p (\<lambda>k. k\<lparr>pk_transmissions := pk_transmissions k + 1, pk_ret := st\<rparr>) t"
  have f: "current_packet t = Some p" "current_neighbor u = current_neighbor s" "current_link (so_sched u) = current_link (so_sched s)"
    "opt_of u l = opt_of s l" "dequeued_array u = dequeued_array s" "dequeued_ringbuf u = dequeued_ringbuf s" "so_log u = so_log t" for l
    using kt p by (auto simp: u_def upd_pk_def opt_of_def resto_def filas_def on_queue_def)
  have "tsch_tx_slot c env s = do {
       n \<leftarrow> current_neighbor u;
       l \<leftarrow> current_link (so_sched u);
       (in_queue, q) \<leftarrow> tsch_queue_packet_sent (random_rand env) n p (opt_of u l) st (so_queue u);
       let s = on_queue (\<lambda>_. q) u;
       s \<leftarrow> (if in_queue = 0 then do {
              a \<leftarrow> wri (dequeued_array s) (ringbufindex_peek_put (dequeued_ringbuf s)) (Some p);
              Some (s\<lparr>dequeued_array := a, dequeued_ringbuf := snd (ringbufindex_put (dequeued_ringbuf s))\<rparr>) }
            else Some s);
       s \<leftarrow> log_attempt st p s;
       Some (process_poll_pending s) }"
    unfolding tsch_tx_slot_def Let_def if_P [OF room] p option.case m bind.bind_lunit prod.case t_def [symmetric] f(1)
      u_def [symmetric] on_queue_simps f(6) by (rule refl)
  then have run': "\<dots> = Some s'" using run by simp
  then obtain n l q iq where o: "current_neighbor u = Some n" "current_link (so_sched u) = Some l"
    "tsch_queue_packet_sent (random_rand env) n p (opt_of u l) st (so_queue u) = Some (iq, q)"
    by (elim bind_SomeE) (auto elim!: bind_SomeE)
  show ?thesis
  proof (rule that [OF env])
    show "current_neighbor s = Some n" "current_link (so_sched s) = Some l" using o f(2,3) by simp_all
    show "tsch_queue_packet_sent (random_rand env) n p (opt_of s l) st
       (so_queue (upd_pk p (\<lambda>k. k\<lparr>pk_transmissions := pk_transmissions k + 1, pk_ret := st\<rparr>) t)) = Some (iq, q)"
      using o(3) unfolding u_def [symmetric] f(4) .
    show "so_queue s' = q" "so_log s' = so_log t"
      "if iq = 0 then wri (dequeued_array s) (ringbufindex_peek_put (dequeued_ringbuf s)) (Some p) = Some (dequeued_array s') \<and>
         dequeued_ringbuf s' = snd (ringbufindex_put (dequeued_ringbuf s))
       else dequeued_array s' = dequeued_array s \<and> dequeued_ringbuf s' = dequeued_ringbuf s"
      using run' o f(5-7) by (auto simp: Let_def process_poll_pending_def split: if_splits bind_splits dest!: log_attempt_eq)
  qed
qed


text \<open>
  A transmission keeps the invariant of the queues; the packet moves from the head of its queue to
  the dequeued packets when it was acknowledged or its retries are used up, and stays otherwise.
\<close>

lemma enviou_sched: "enviou c env p s st t \<Longrightarrow> so_sched t = so_sched s"
  by (simp add: enviou_def resto_def)

lemma tx_slot_run:
  assumes run: "tsch_tx_slot c env s = Some s'" and room: "ringbufindex_peek_put (dequeued_ringbuf s) \<noteq> -1"
    and p: "current_packet s = Some p" and n: "current_neighbor s = Some n" "n \<in> set (tq_em (so_queue s))"
    and inv: "tq_inv (so_queue s)" and un: "\<not> tsch_is_locked (tq_lk (so_queue s))"
    and f: "fila_nbr (nbr_at (so_queue s) n) = Some p # ps"
    and rb: "rb_ok (dequeued_ringbuf s)" "length (dequeued_array s) = rb_sz (dequeued_ringbuf s)"
  shows "\<exists>st. (\<exists>t. enviou c env p s st t) \<and> tq_inv (so_queue s') \<and>
    (let fim = (st = MAC_TX_OK \<or> pk_transmissions (pk_of s p) + 1 \<ge> pk_max (pk_of s p)) in
     fila_nbr (nbr_at (so_queue s') n) = (if fim then ps else Some p # ps) \<and>
     rbi.conteudo (dequeued_array s') (dequeued_ringbuf s') =
       rbi.conteudo (dequeued_array s) (dequeued_ringbuf s) @ (if fim then [Some p] else [])) \<and>
    (\<forall>j. j \<noteq> n \<longrightarrow> nbr_at (so_queue s') j = nbr_at (so_queue s) j) \<and>
    rb_ok (dequeued_ringbuf s') \<and> length (dequeued_array s') = rb_sz (dequeued_ringbuf s')"
proof -
  obtain st t n' l q iq where e: "enviou c env p s st t" and n': "current_neighbor s = Some n'"
    and l: "current_link (so_sched s) = Some l"
    and sent: "tsch_queue_packet_sent (random_rand env) n' p (opt_of s l) st
       (so_queue (upd_pk p (\<lambda>k. k\<lparr>pk_transmissions := pk_transmissions k + 1, pk_ret := st\<rparr>) t)) = Some (iq, q)"
    and q: "so_queue s' = q"
    and d: "if iq = 0 then wri (dequeued_array s) (ringbufindex_peek_put (dequeued_ringbuf s)) (Some p) = Some (dequeued_array s') \<and>
         dequeued_ringbuf s' = snd (ringbufindex_put (dequeued_ringbuf s))
     else dequeued_array s' = dequeued_array s \<and> dequeued_ringbuf s' = dequeued_ringbuf s"
    by (rule tx_slot_cases [OF run room p], rule that; assumption)
  define u where "u = so_queue (upd_pk p (\<lambda>k. k\<lparr>pk_transmissions := pk_transmissions k + 1, pk_ret := st\<rparr>) t)"
  have t: "so_sched t = so_sched s" using e by (rule enviou_sched)
  have nn: "n' = n" using n(1) n' by simp
  have "Some p \<in> set (todos (so_queue s))" unfolding todos_def using f n(2) by force
  then have "p \<in> vivos (tq_pks (so_queue s))" using tq_invD(6) [OF inv] by blast
  then have pl: "p < length (mem (tq_pks (so_queue s)))"
    using inv unfolding tq_inv_def vivos_def by simp
  have u: "tq_inv u" "tq_nbrs u = tq_nbrs (so_queue s)" "tq_nt u = tq_nt (so_queue s)" "tq_lk u = tq_lk (so_queue s)"
    "mem (tq_pks u) ! p = (pk_of s p)\<lparr>pk_transmissions := pk_transmissions (pk_of s p) + 1, pk_ret := st\<rparr>"
    using inv pl t by (simp_all add: u_def upd_pk_inv upd_pk_queue)
  have a: "tq_inv u" "n \<in> set (tq_em u)" "\<not> tsch_is_locked (tq_lk u)" "fila_nbr (nbr_at u n) = Some p # ps"
    using u n(2) un f by simp_all
  note r = packet_sent_inv [OF a sent [folded u_def, unfolded nn]]
  have iq: "iq = 0 \<longleftrightarrow> st = MAC_TX_OK \<or> pk_transmissions (pk_of s p) + 1 \<ge> pk_max (pk_of s p)"
    using r(4) u(5) by simp
  obtain d' where d': "wri (dequeued_array s) (ringbufindex_peek_put (dequeued_ringbuf s)) (Some p) = Some d'"
    "length d' = length (dequeued_array s)" "rb_ok (snd (ringbufindex_put (dequeued_ringbuf s)))"
    "rb_sz (snd (ringbufindex_put (dequeued_ringbuf s))) = rb_sz (dequeued_ringbuf s)"
    "rbi.conteudo d' (snd (ringbufindex_put (dequeued_ringbuf s)))
      = rbi.conteudo (dequeued_array s) (dequeued_ringbuf s) @ [Some p]"
    using rb_store [OF rb room, of "Some p"] by blast
  have "rb_ok (dequeued_ringbuf s') \<and> length (dequeued_array s') = rb_sz (dequeued_ringbuf s') \<and>
    rbi.conteudo (dequeued_array s') (dequeued_ringbuf s') =
       rbi.conteudo (dequeued_array s) (dequeued_ringbuf s) @ (if iq = 0 then [Some p] else [])"
    using d d' rb by (cases "iq = 0") simp_all
  then show ?thesis
    using e r(1-3) u(2) unfolding iq q Let_def by (intro exI [of _ st]) auto
qed

section \<open>The radio is off after every slot\<close>

abbreviation radio :: "slot_state \<Rightarrow> bool" where
  "radio s \<equiv> ligado False (so_log s)"

lemma tx_slot_radio:
  assumes run: "tsch_tx_slot c env s = Some s'" and p: "current_packet s = Some p"
    and off: "if TSCH_RADIO_ON_DURING_TIMESLOT c then ringbufindex_peek_put (dequeued_ringbuf s) \<noteq> -1 else \<not> radio s"
  shows "\<not> radio s'"
proof (cases "ringbufindex_peek_put (dequeued_ringbuf s) = -1")
  case True
  then show ?thesis using run off by (simp add: tsch_tx_slot_def split: if_splits)
next
  case False
  obtain st t where e: "enviou c env p s st t" and l: "so_log s' = so_log t"
    by (rule tx_slot_cases [OF run False p], rule that; assumption)
  have "\<not> radio t"
  proof (cases "TSCH_RADIO_ON_DURING_TIMESLOT c")
    case True
    then show ?thesis using e unfolding enviou_def
      by (auto simp: tsch_radio_off_def event_def split: if_splits)
  next
    case no: False
    then have o: "tsch_radio_off c TSCH_RADIO_CMD_OFF_END_OF_TIMESLOT x = x" for x
      by (simp add: tsch_radio_off_def)
    show ?thesis
    proof (cases "pk_qb (pk_of s p) = None")
      case True
      then show ?thesis using e off no by (simp add: enviou_def o)
    next
      case False
      then obtain r l q w b ok s1 where x: "tx_packet c env (pk_qb (pk_of s p)) (pk_sync_offset (pk_of s p)) s = Some (r, l, q, w, b, ok, s1)"
        "tx_exchange c env r l q w b ok s1 = Some (st, t)"
        using e by (auto simp: enviou_def o)
      show ?thesis
        using sempreD [OF tx_packet_keeps x(1)] sempreD [OF tx_exchange_keeps x(2)] off no by simp
    qed
  qed
  then show ?thesis using l by simp
qed

lemma rx_ack_keeps:
  "sempre (rx_ack c env a d inp s) (\<lambda>s'. resto s' = resto s \<and> filas s' = filas s \<and> so_qb s' = so_qb s \<and>
     so_sync s' = so_sync s \<and> (\<not> radio s \<longrightarrow> \<not> radio s'))"
  unfolding rx_ack_def
  by (rule leva | rule sempre_any | (simp add: resto_simps; fail) | (clarsimp simp: resto_simps; fail))+

lemma rx_sync_keeps:
  "sempre (rx_sync env a d s) (\<lambda>s'. resto s' = resto s \<and> filas s' = filas s \<and> so_qb s' = so_qb s \<and> so_log s' = so_log s)"
  unfolding rx_sync_def
  by (rule leva | rule sempre_weaken [OF sync_update_keeps] | rule sempre_any | (simp add: resto_simps; fail))+

lemma rx_accept_keeps:
  "sempre (rx_accept c env a inp s) (\<lambda>s'. resto s' = resto s \<and> so_qb s' = so_qb s \<and>
     dequeued_ringbuf s' = dequeued_ringbuf s \<and> dequeued_array s' = dequeued_array s \<and>
     input_array s' = input_array s \<and> input_ringbuf s' = snd (ringbufindex_put (input_ringbuf s)) \<and>
     (\<not> radio s \<longrightarrow> \<not> radio s'))"
  unfolding rx_accept_def
  by (rule leva | rule sempre_weaken [OF rx_ack_keeps] | rule sempre_weaken [OF rx_sync_keeps] | rule sempre_any
      | (simp add: resto_simps; fail))+

lemma rx_read_keeps:
  "sempre (rx_read c env i s) (\<lambda>s'. resto s' = resto s \<and> so_qb s' = so_qb s \<and>
     dequeued_ringbuf s' = dequeued_ringbuf s \<and> dequeued_array s' = dequeued_array s \<and>
     (\<not> radio s \<longrightarrow> \<not> radio s'))"
  unfolding rx_read_def
  by (rule leva | rule sempre_weaken [OF rx_accept_keeps] | rule sempre_any
      | (simp add: resto_simps split: if_splits; fail))+

lemma log_drops_keeps:
  "resto (log_drops s) = resto s" "filas (log_drops s) = filas s" "so_qb (log_drops s) = so_qb s" "so_log (log_drops s) = so_log s"
  "so_sched (log_drops s) = so_sched s" "dequeued_ringbuf (log_drops s) = dequeued_ringbuf s"
  "dequeued_array (log_drops s) = dequeued_array s" "input_ringbuf (log_drops s) = input_ringbuf s" "input_array (log_drops s) = input_array s"
  by (simp_all add: log_drops_def resto_def filas_def)

lemma rx_slot_keeps:
  "sempre (tsch_rx_slot c env s) (\<lambda>s'. resto s' = resto s \<and> so_qb s' = so_qb s \<and>
     dequeued_ringbuf s' = dequeued_ringbuf s \<and> dequeued_array s' = dequeued_array s \<and>
     ((if TSCH_RADIO_ON_DURING_TIMESLOT c then ringbufindex_peek_put (input_ringbuf s) \<noteq> -1 else \<not> radio s)
       \<longrightarrow> \<not> radio s'))"
  unfolding tsch_rx_slot_def
  by (rule leva | rule sempre_weaken [OF rx_read_keeps] | rule sempre_any
      | (simp add: resto_simps split: if_splits; fail) | (clarsimp simp: resto_simps split: if_splits; fail)
      | unfold log_drops_keeps)+

lemma with_packet_keeps:
  "sempre (with_packet l s) (\<lambda>s'. so_sched s' = so_sched s \<and> filas s' = filas s \<and> so_qb s' = so_qb s \<and> so_sync s' = so_sync s \<and>
     so_log s' = so_log s \<and> backup_link s' = backup_link s \<and> tsch_current_asn s' = tsch_current_asn s \<and>
     tsch_is_associated s' = tsch_is_associated s)"
  unfolding with_packet_def by (rule leva | rule sempre_any | (simp add: resto_simps; fail))+

lemma update_link_backoff_simps [simp]:
  "so_log (update_link_backoff l s) = so_log s" "filas (update_link_backoff l s) = filas s"
  "backup_link (update_link_backoff l s) = backup_link s"
  by (simp_all add: update_link_backoff_def on_queue_def filas_def split: option.splits)

lemma with_current_simps [simp]:
  "so_log (with_current l s) = so_log s" "filas (with_current l s) = filas s"
  "backup_link (with_current l s) = backup_link s" "so_queue (with_current l s) = so_queue s"
  "current_link (so_sched (with_current l s)) = l"
  by (simp_all add: with_current_def filas_def)

lemma choose_link_keeps:
  "sempre (choose_link l s) (\<lambda>s'. filas s' = filas s \<and> so_log s' = so_log s)"
  unfolding choose_link_def
  by (rule leva | rule sempre_weaken [OF with_packet_keeps] | rule sempre_any
      | (simp; fail))+

lemma hop_channel_keeps:
  "sempre (hop_channel l s) (\<lambda>s'. filas s' = filas s \<and> so_log s' = so_log s \<and> current_packet s' = current_packet s)"
  unfolding hop_channel_def by (rule leva | rule sempre_any | (simp add: filas_def; fail))+

lemma slot_body_radio:
  assumes run: "slot_body c env s = Some s'" and off: "\<not> radio s"
    and room: "TSCH_RADIO_ON_DURING_TIMESLOT c \<Longrightarrow>
      ringbufindex_peek_put (dequeued_ringbuf s) \<noteq> -1 \<and> ringbufindex_peek_put (input_ringbuf s) \<noteq> -1"
  shows "\<not> radio s'"
proof (cases "current_link (so_sched s) = None \<or> tsch_lock_requested (tq_lk (so_queue s))")
  case True
  then show ?thesis using run off by (auto simp: slot_body_def split: option.splits)
next
  case False
  then obtain l where l: "current_link (so_sched s) = Some l" "\<not> tsch_lock_requested (tq_lk (so_queue s))" by auto
  define s0 where "s0 = (lock_flags (tsch_in_slot_operation_update (\<lambda>_. True)) s)\<lparr>drift_correction := 0, is_drift_correction_used := False\<rparr>"
  have s0: "filas s0 = filas s" "so_log s0 = so_log s" by (simp_all add: s0_def lock_flags_def on_queue_def filas_def)
  obtain s1 l1 where s1: "choose_link l s0 = Some s1" "current_link (so_sched s1) = Some l1"
    and r1: "(if current_packet s1 \<noteq> None \<or> opt_of s1 l1 AND LINK_OPTION_RX \<noteq> 0 then do {
           s \<leftarrow> hop_channel l1 s1;
           let s = event (Set_channel (tsch_current_channel s)) s;
           let s = tsch_radio_on c TSCH_RADIO_CMD_ON_START_OF_TIMESLOT s;
           if current_packet s \<noteq> None then tsch_tx_slot c env s else tsch_rx_slot c env s }
         else Some (s1\<lparr>burst_link_scheduled := False\<rparr>)) = Some s'"
    using run l unfolding slot_body_def Let_def s0_def [symmetric] by (auto elim!: bind_SomeE)
  have k1: "filas s1 = filas s" "so_log s1 = so_log s" using sempreD [OF choose_link_keeps s1(1)] s0 by simp_all
  show ?thesis
  proof (cases "current_packet s1 \<noteq> None \<or> opt_of s1 l1 AND LINK_OPTION_RX \<noteq> 0")
    case False
    then show ?thesis using r1 k1 off by auto
  next
    case True
    obtain s2 where s2: "hop_channel l1 s1 = Some s2" using r1 True by (auto elim!: bind_SomeE)
    define s3 where "s3 = tsch_radio_on c TSCH_RADIO_CMD_ON_START_OF_TIMESLOT (event (Set_channel (tsch_current_channel s2)) s2)"
    have r3: "(if current_packet s3 \<noteq> None then tsch_tx_slot c env s3 else tsch_rx_slot c env s3) = Some s'"
      using r1 unfolding if_P [OF True] s2 bind.bind_lunit Let_def s3_def [symmetric] .
    have "filas s3 = filas s" "\<not> TSCH_RADIO_ON_DURING_TIMESLOT c \<Longrightarrow> \<not> radio s3"
      using sempreD [OF hop_channel_keeps s2] k1 off by (simp_all add: s3_def resto_simps)
    then have "if TSCH_RADIO_ON_DURING_TIMESLOT c then ringbufindex_peek_put (dequeued_ringbuf s3) \<noteq> -1 else \<not> radio s3"
      "if TSCH_RADIO_ON_DURING_TIMESLOT c then ringbufindex_peek_put (input_ringbuf s3) \<noteq> -1 else \<not> radio s3"
      using room by (auto simp: filas_def)
    then show ?thesis
      using r3 tx_slot_radio [of c env s3 s'] sempreD [OF rx_slot_keeps, of c env s3 s'] by (cases "current_packet s3") auto
  qed
qed

section \<open>Scheduling the next slot\<close>

lemma schedule_slot_cases:
  "tsch_schedule_slot_operation now r off s
    = (if off \<le> now - r then (False, log_add tsch_log_message s) else (True, event (Timer (r + off)) s))"
  by (simp add: tsch_schedule_slot_operation_def RTIMER_GUARD_def check_timer_miss_iff)

lemma schedule_loop_Cons:
  "schedule_loop step (now # nows) s = do {
     (time, s') \<leftarrow> step s;
     if time \<le> now - current_slot_start s then schedule_loop step nows (log_add tsch_log_message s')
     else Some (event (Timer (current_slot_start s + time)) s') }"
  by (simp add: schedule_slot_cases split: bind_splits)

declare schedule_loop.simps(2) [simp del]

text \<open>
  Every missed deadline moves the start of the slot forward by at least m ticks, so with readings up
  to E the loop ends after at most (E - start) / m + 1 attempts.
\<close>

lemma schedule_loop_ends:
  assumes step: "\<And>n s. P (Suc n) s \<Longrightarrow> \<exists>t s'. step s = Some (t, s') \<and> P n s' \<and>
      current_slot_start s' = current_slot_start s + t \<and> m \<le> unat t"
    and keep: "\<And>n s. P n s \<Longrightarrow> P n (log_add tsch_log_message s)"
  shows "P (length nows) s \<Longrightarrow> sorted (map unat nows) \<Longrightarrow>
    (\<forall>w \<in> set nows. unat (current_slot_start s) \<le> unat w \<and> unat w \<le> E) \<Longrightarrow> unat (current_slot_start s) \<le> E \<Longrightarrow>
    E < unat (current_slot_start s) + m * length nows \<Longrightarrow> \<exists>s'. schedule_loop step nows s = Some s'"
proof (induction nows arbitrary: s)
  case Nil
  then show ?case by simp
next
  case (Cons now nows)
  let ?b = "current_slot_start s"
  obtain t s1 where s1: "step s = Some (t, s1)" "P (length nows) s1" "current_slot_start s1 = ?b + t" "m \<le> unat t"
    using step [of "length nows" s] Cons.prems(1) by auto
  show ?case
  proof (cases "t \<le> now - ?b")
    case False
    then show ?thesis using s1 by (simp add: schedule_loop_Cons)
  next
    case True
    have b: "unat ?b \<le> unat now" "unat now \<le> E" using Cons.prems(3) by simp_all
    have "unat (now - ?b) = unat now - unat ?b" using b by (simp add: unat_sub word_le_nat_alt)
    then have le: "unat ?b + unat t \<le> unat now" using True b by (simp add: word_le_nat_alt)
    have e: "unat (current_slot_start s1) = unat ?b + unat t"
      using le unat_less64 [of now] unfolding s1(3) unat_add64 by simp
    have "\<exists>s'. schedule_loop step nows (log_add tsch_log_message s1) = Some s'"
    proof (rule Cons.IH [OF keep [OF s1(2)]])
      show "sorted (map unat nows)" using Cons.prems(2) by simp
      show "\<forall>w \<in> set nows. unat (current_slot_start (log_add tsch_log_message s1)) \<le> unat w \<and> unat w \<le> E"
        using Cons.prems(2,3) le e by fastforce
      show "unat (current_slot_start (log_add tsch_log_message s1)) \<le> E" using le e b by simp
      show "E < unat (current_slot_start (log_add tsch_log_message s1)) + m * length nows" using Cons.prems(5) s1(4) e by simp
    qed
    then show ?thesis using s1 True by (simp add: schedule_loop_Cons)
  qed
qed

text \<open>What every step of the loop keeps, the result keeps.\<close>

lemma schedule_loop_inv:
  assumes step: "\<And>n s t s'. P (Suc n) s \<Longrightarrow> step s = Some (t, s') \<Longrightarrow> P n s'"
    and keep: "\<And>n s. P n s \<Longrightarrow> P n (log_add tsch_log_message s)"
  shows "P (length nows) s \<Longrightarrow> schedule_loop step nows s = Some s' \<Longrightarrow>
    \<exists>u e k. P k u \<and> k < length nows \<and> s' = event (Timer e) u"
proof (induction nows arbitrary: s)
  case Nil
  then show ?case by simp
next
  case (Cons now nows)
  obtain t s1 where s1: "step s = Some (t, s1)"
    "(if t \<le> now - current_slot_start s then schedule_loop step nows (log_add tsch_log_message s1)
      else Some (event (Timer (current_slot_start s + t)) s1)) = Some s'"
    using Cons.prems(2) unfolding schedule_loop_Cons by (auto elim!: bind_SomeE)
  have p: "P (length nows) s1" using step [of "length nows" s] Cons.prems(1) s1(1) by simp
  show ?case
  proof (cases "t \<le> now - current_slot_start s")
    case True
    then show ?thesis using Cons.IH [OF keep [OF p]] s1(2) by (auto simp: less_Suc_eq)
  next
    case False
    then show ?thesis using s1(2) p by (intro exI [of _ s1] exI [of _ "current_slot_start s + t"] exI [of _ "length nows"]) auto
  qed
qed

lemma next_link_keeps:
  "sempre (next_link s) (\<lambda>(t, s'). so_log s' = so_log s \<and> so_sync s' = so_sync s)"
  unfolding next_link_def
  by (rule leva | rule sempre_any | (simp add: with_current_def split: option.splits; fail))+

lemma schedule_step_keeps:
  "sempre (schedule_step c s) (\<lambda>(t, s'). so_log s' = so_log s)"
  unfolding schedule_step_def advance_def
  by (rule leva | rule sempre_weaken [OF next_link_keeps] | rule sempre_any | (simp split: prod.splits; fail)
     | (clarsimp; fail))+

lemma slot_operation_radio:
  assumes run: "tsch_slot_operation c env s = Some s'" and off: "\<not> radio s"
    and room: "TSCH_RADIO_ON_DURING_TIMESLOT c \<Longrightarrow>
      ringbufindex_peek_put (dequeued_ringbuf s) \<noteq> -1 \<and> ringbufindex_peek_put (input_ringbuf s) \<noteq> -1"
  shows "\<not> radio s'"
proof (cases "tsch_is_associated s")
  case False
  then show ?thesis using run off by (simp add: tsch_slot_operation_def)
next
  case True
  obtain s1 s2 b s3 where s1: "slot_body c env s = Some s1"
    and s2: "s2 = (if tsch_is_coordinator s1
                 then s1\<lparr>last_sync_asn := tsch_current_asn s1, tsch_last_sync_time := clock_time env\<rparr> else s1)"
    and s3: "(if b then Some (tsch_disassociate (log_add tsch_log_message s2)) else schedule_loop (schedule_step c) (rtimer_now env) s2) = Some s3"
    and s': "s' = lock_flags (tsch_in_slot_operation_update (\<lambda>_. False)) s3"
    using run True unfolding tsch_slot_operation_def Let_def by (auto elim!: bind_SomeE)
  have "\<not> radio s2" using slot_body_radio [OF s1 off room] s2 by simp
  moreover have "radio s3 \<longleftrightarrow> radio s2"
  proof (cases b)
    case True
    then show ?thesis using s3 by (auto simp: tsch_disassociate_def event_def split: if_splits)
  next
    case False
    then have "schedule_loop (schedule_step c) (rtimer_now env) s2 = Some s3" using s3 by simp
    then obtain u e where "so_log u = so_log s2" "s3 = event (Timer e) u"
      using schedule_loop_inv [of "\<lambda>_ u. so_log u = so_log s2" "schedule_step c" "rtimer_now env" s2 s3]
        sempreD [OF schedule_step_keeps] by fastforce
    then show ?thesis by (simp add: event_def)
  qed
  ultimately show ?thesis using s' by (simp add: lock_flags_def)
qed

section \<open>The start of the next slot\<close>

lemma update_backoff_lk [simp]: "tq_lk (tsch_queue_update_all_backoff_windows a q) = tq_lk q"
proof -
  have "tq_lk (fold (\<lambda>n s. if backoff_window (nbr_at s n) \<noteq> 0 \<and>
                 (tx_links_count (nbr_at s n) = 0 \<and> linkaddr_cmp a tsch_broadcast_address \<or>
                  tx_links_count (nbr_at s n) > 0 \<and>
                    tsch_queue_get_nbr_address (Some n) s = Some a)
               then upd_nbr n (backoff_window_update (\<lambda>w. w - 1)) s else s) ns q) = tq_lk q" for ns
    by (induction ns arbitrary: q) simp_all
  then show ?thesis by (simp add: tsch_queue_update_all_backoff_windows_def)
qed

text \<open>The part of the schedule that the choice of a link depends on.\<close>

definition agenda where
  "agenda h = (slotframe_memb h, slotframe_list h, link_memb h, tq_lk (queue h))"

lemma agenda_eq:
  assumes "agenda h = agenda g"
  shows "tam_ok h = tam_ok g" "locked h = locked g" "slotframe_list h = slotframe_list g" "slotframe_memb h = slotframe_memb g"
    "link_memb h = link_memb g" "ativo h i l n = ativo g i l n"
  using assms by (simp_all add: agenda_def tam_ok_def locked_def ativo_def sf_len_def)

lemma agenda_simps [simp]:
  "agenda (h\<lparr>current_link := x\<rparr>) = agenda h"
  "agenda (so_sched (with_current x s)) = agenda (so_sched s)"
  "agenda (so_sched (update_link_backoff y s)) = agenda (so_sched s)"
  by (simp_all add: agenda_def with_current_def update_link_backoff_def on_queue_def split: option.splits)

lemma update_link_backoff_fields [simp]:
  "current_slot_start (update_link_backoff l s) = current_slot_start s" "so_sync (update_link_backoff l s) = so_sync s"
  "tsch_current_asn (update_link_backoff l s) = tsch_current_asn s" "tsch_timing (update_link_backoff l s) = tsch_timing s"
  "drift_correction (update_link_backoff l s) = drift_correction s"
  "burst_link_scheduled (update_link_backoff l s) = burst_link_scheduled s"
  "current_link (so_sched (update_link_backoff l s)) = current_link (so_sched s)"
  by (simp_all add: update_link_backoff_def on_queue_def split: option.splits)

text \<open>The current link belongs to the slot with the current ASN.\<close>

definition alinhado :: "slot_state \<Rightarrow> bool" where
  "alinhado s \<longleftrightarrow> (\<forall>l. current_link (so_sched s) = Some l \<longrightarrow>
     (\<exists>i \<in> set (slotframe_list (so_sched s)). l \<in> set (sf_links (sf_at (so_sched s) i)) \<and>
        ativo (so_sched s) i l (asn_val (tsch_current_asn s))))"

text \<open>The link chosen by next-link is active timeslot-diff slots later.\<close>

lemma next_link_run2:
  assumes ok: "tam_ok (so_sched s)"
  shows "\<exists>t s'. next_link s = Some (t, s') \<and> 1 \<le> unat t \<and> agenda (so_sched s') = agenda (so_sched s) \<and>
    s'\<lparr>so_sched := so_sched s, backup_link := backup_link s\<rparr> = s \<and>
    (\<forall>l. current_link (so_sched s') = Some l \<longrightarrow> (\<exists>i \<in> set (slotframe_list (so_sched s)).
       l \<in> set (sf_links (sf_at (so_sched s) i)) \<and> ativo (so_sched s) i l (asn_val (tsch_current_asn s) + unat t)))"
proof (cases "locked (so_sched s)")
  case True
  then show ?thesis
    by (simp add: next_link_def tsch_schedule_get_next_active_link_def with_current_def agenda_def)
next
  case False
  let ?h = "so_sched s" and ?a = "tsch_current_asn s"
  obtain t best backup where run: "tsch_schedule_get_next_active_link ?a ?h = Some (best, Some t, backup)"
    and es: "escolha_ok ?h (candidatos ?h ?a (slotframe_list ?h)) (t, best, backup)"
    using next_link_run [OF ok False] by blast
  show ?thesis
  proof (cases best)
    case None
    then show ?thesis using run by (simp add: next_link_def with_current_def agenda_def)
  next
    case (Some b)
    have "(t, b) \<in> set (candidatos ?h ?a (slotframe_list ?h))"
      using es Some unfolding escolha_ok_def by (cases "candidatos ?h ?a (slotframe_list ?h)") auto
    then obtain i where i: "i \<in> set (slotframe_list ?h)" "b \<in> set (sf_links (sf_at ?h i))" "t = distancia ?h ?a i b"
      by (auto simp: candidatos_def)
    have "1 \<le> unat t" "ativo ?h i b (asn_val ?a + unat t)"
      using distancia_spec(1,3) [OF ok i(1,2), of ?a] unfolding i(3) by simp_all
    then show ?thesis using run Some i by (auto simp: next_link_def with_current_def agenda_def)
  qed
qed


section \<open>One step of the loop\<close>

lemma word_time:
  assumes "0 \<le> z" and "z < 2 ^ 64" and "z = int (unat (t :: u16)) * int (unat len) + d"
  shows "unat (ucast t * len + word_of_int d :: u64) = nat z"
proof -
  have "ucast t * len + word_of_int d = (word_of_int z :: u64)"
    unfolding assms(3) by simp
  then show ?thesis using assms(1,2) by (simp add: unsigned_of_int take_bit_int_eq_self)
qed

lemma advance_run:
  assumes len: "rd (tsch_timing s) tsch_ts_timeslot_length = Some len" and c: "TSCH_BASE_DRIFT_PPM c = 0"
    and y: "sync_ok (Suc n) (so_sync s)" and t: "1 \<le> unat t"
    and d: "\<bar>d\<bar> \<le> D" and m: "int m + D + 7813 \<le> int (unat len)" and M: "65536 * int (unat len) + D + 7813 < 2 ^ 64"
  shows "\<exists>time s'. advance c t d s = Some (time, s') \<and> sync_ok n (so_sync s') \<and>
    s'\<lparr>so_sync := so_sync s, current_slot_start := current_slot_start s, tsch_current_asn := tsch_current_asn s,
       so_tlog := so_tlog s\<rparr> = s \<and>
    tsch_current_asn s' = TSCH_ASN_INC (tsch_current_asn s) (ucast t) \<and>
    current_slot_start s' = current_slot_start s + time \<and> m \<le> unat time \<and>
    \<bar>int (unat time) - int (unat t) * int (unat len) - d\<bar> \<le> 7813"
proof -
  let ?w = "ucast t * len + word_of_int d :: u64"
  define z where "z = int (unat t) * int (unat len) + d"
  have l: "0 \<le> int (unat len)" by simp
  have t1: "1 \<le> int (unat t)" using t by linarith
  have "int (unat t) < int 65536" using unat_less16 [of t] by (simp only: of_nat_less_iff)
  then have t2: "int (unat t) \<le> 65535" by linarith
  have a: "int (unat len) \<le> int (unat t) * int (unat len)" using mult_right_mono [OF t1 l] by (simp only: mult_1)
  have b: "int (unat t) * int (unat len) \<le> 65535 * int (unat len)" using t2 l by (intro mult_right_mono)
  obtain r y' where r: "tsch_timesync_adaptive_compensate 0 ?w (so_sync s) = Some (r, y')" "sync_ok n y'" "\<bar>r\<bar> \<le> 7813"
    using adaptive_compensate_run [OF y] by blast
  have z: "0 \<le> z + r" "z + r < 2 ^ 64" "int m \<le> z + r" using a b d m M r(3) unfolding z_def by linarith+
  have e: "?w + word_of_int r = ucast t * len + word_of_int (d + r)" by simp
  have w: "unat (?w + word_of_int r) = nat (z + r)"
    unfolding e by (rule word_time [OF z(1,2)]) (simp add: z_def)
  let ?s1 = "s\<lparr>tsch_current_asn := TSCH_ASN_INC (tsch_current_asn s) (ucast t)\<rparr>"
  obtain g where g: "(log_add tsch_log_message ^^ compensate_messages 0 ?w (so_sync s)) ?s1 = ?s1\<lparr>so_tlog := g\<rparr>"
    using log_adds_only by blast
  have "advance c t d s = Some (?w + word_of_int r, s\<lparr>tsch_current_asn := TSCH_ASN_INC (tsch_current_asn s) (ucast t), so_tlog := g,
      so_sync := y', current_slot_start := current_slot_start s + (?w + word_of_int r)\<rparr>)"
    using len r(1) c g unfolding advance_def Let_def by simp
  moreover have i: "int (unat (?w + word_of_int r)) = int (unat t) * int (unat len) + d + r"
    unfolding w using z(1) unfolding z_def by (rule int_nat_eq [THEN trans, OF if_P])
  have "m \<le> unat (?w + word_of_int r)" "\<bar>int (unat (?w + word_of_int r)) - int (unat t) * int (unat len) - d\<bar> \<le> 7813"
    using i r(3) z(3) unfolding z_def by linarith+
  ultimately show ?thesis using r(2) by (intro exI conjI) (assumption | simp)+
qed

text \<open>
  The state of the loop with n attempts left: the schedule h, the timing, the bounds of the
  synchronisation, and a link aligned with the ASN once the first attempt was made.
\<close>

definition prepara :: "sched \<Rightarrow> u64 \<Rightarrow> int \<Rightarrow> nat \<Rightarrow> slot_state \<Rightarrow> bool" where
  "prepara h len D n s \<longleftrightarrow> tam_ok h \<and> agenda (so_sched s) = agenda h \<and>
     rd (tsch_timing s) tsch_ts_timeslot_length = Some len \<and> sync_ok n (so_sync s) \<and> \<bar>drift_correction s\<bar> \<le> D"

lemma schedule_step_run:
  assumes p: "prepara h len D (Suc n) s" and c: "TSCH_BASE_DRIFT_PPM c = 0"
    and m: "int m + D + 7813 \<le> int (unat len)" and M: "65536 * int (unat len) + D + 7813 < 2 ^ 64"
  shows "\<exists>time s'. \<exists>t :: u16. schedule_step c s = Some (time, s') \<and> prepara h len D n s' \<and>
    current_slot_start s' = current_slot_start s + time \<and> m \<le> unat time \<and> 1 \<le> unat t \<and>
    \<bar>int (unat time) - int (unat t) * int (unat len) - drift_correction s\<bar> \<le> 7813 \<and>
    tsch_current_asn s' = TSCH_ASN_INC (tsch_current_asn s) (ucast t) \<and> drift_correction s' = 0 \<and>
    burst_link_scheduled s' = burst_link_scheduled s \<and>
    (if burst_link_scheduled s \<and> current_link (so_sched s) \<noteq> None
     then t = 1 \<and> current_link (so_sched s') = current_link (so_sched s)
     else \<forall>l. current_link (so_sched s') = Some l \<longrightarrow> (\<exists>i \<in> set (slotframe_list (so_sched s')).
       l \<in> set (sf_links (sf_at (so_sched s') i)) \<and> ativo (so_sched s') i l (asn_val (tsch_current_asn s) + unat t)))"
proof -
  let ?s1 = "update_link_backoff (current_link (so_sched s)) s"
  have D0: "0 \<le> D" using p by (auto simp: prepara_def)
  have ok: "tam_ok (so_sched ?s1)" using p agenda_eq(1) [of "so_sched ?s1" h] by (simp add: prepara_def)
  define x where "x = (if burst_link_scheduled ?s1 \<and> current_link (so_sched ?s1) \<noteq> None
        then Some (1, ?s1\<lparr>backup_link := None, tsch_current_burst_count := tsch_current_burst_count ?s1 + 1\<rparr>)
        else do {
          (t, s) \<leftarrow> next_link ?s1;
          Some (t, if current_link (so_sched s) = None then s else s\<lparr>tsch_current_burst_count := 0\<rparr>) })"
  obtain t s2 where s2: "x = Some (t, s2)" "1 \<le> unat t" "agenda (so_sched s2) = agenda (so_sched ?s1)"
    "current_slot_start s2 = current_slot_start s" "so_sync s2 = so_sync s" "tsch_current_asn s2 = tsch_current_asn s"
    "tsch_timing s2 = tsch_timing s" "drift_correction s2 = drift_correction s" "burst_link_scheduled s2 = burst_link_scheduled s"
    "if burst_link_scheduled s \<and> current_link (so_sched s) \<noteq> None
     then t = 1 \<and> current_link (so_sched s2) = current_link (so_sched s)
     else \<forall>l. current_link (so_sched s2) = Some l \<longrightarrow> (\<exists>i \<in> set (slotframe_list (so_sched ?s1)).
       l \<in> set (sf_links (sf_at (so_sched ?s1) i)) \<and> ativo (so_sched ?s1) i l (asn_val (tsch_current_asn s) + unat t))"
  proof (cases "burst_link_scheduled s \<and> current_link (so_sched s) \<noteq> None")
    case True
    show ?thesis
      by (rule that [of 1 "?s1\<lparr>backup_link := None, tsch_current_burst_count := tsch_current_burst_count ?s1 + 1\<rparr>"])
        (use True in \<open>simp_all add: x_def\<close>)
  next
    case False
    obtain t s2 where n: "next_link ?s1 = Some (t, s2)" "1 \<le> unat t" "agenda (so_sched s2) = agenda (so_sched ?s1)"
      "s2\<lparr>so_sched := so_sched ?s1, backup_link := backup_link ?s1\<rparr> = ?s1"
      "\<forall>l. current_link (so_sched s2) = Some l \<longrightarrow> (\<exists>i \<in> set (slotframe_list (so_sched ?s1)).
       l \<in> set (sf_links (sf_at (so_sched ?s1) i)) \<and> ativo (so_sched ?s1) i l (asn_val (tsch_current_asn ?s1) + unat t))"
      using next_link_run2 [OF ok] by blast
    have f: "current_slot_start s2 = current_slot_start s" "so_sync s2 = so_sync s" "tsch_current_asn s2 = tsch_current_asn s"
      "tsch_timing s2 = tsch_timing s" "drift_correction s2 = drift_correction s" "burst_link_scheduled s2 = burst_link_scheduled s"
      using arg_cong [OF n(4), of current_slot_start] arg_cong [OF n(4), of so_sync] arg_cong [OF n(4), of tsch_current_asn]
        arg_cong [OF n(4), of tsch_timing] arg_cong [OF n(4), of drift_correction] arg_cong [OF n(4), of burst_link_scheduled]
      by simp_all
    let ?s3 = "if current_link (so_sched s2) = None then s2 else s2\<lparr>tsch_current_burst_count := 0\<rparr>"
    show ?thesis
    proof (rule that [of t ?s3])
      have nb: "\<not> (burst_link_scheduled ?s1 \<and> current_link (so_sched ?s1) \<noteq> None)" using False by simp
      show "x = Some (t, ?s3)" unfolding x_def if_not_P [OF nb] n(1) by simp
      have "current_link (so_sched ?s3) = current_link (so_sched s2)" by simp
      then show "if burst_link_scheduled s \<and> current_link (so_sched s) \<noteq> None
        then t = 1 \<and> current_link (so_sched ?s3) = current_link (so_sched s)
        else \<forall>l. current_link (so_sched ?s3) = Some l \<longrightarrow> (\<exists>i \<in> set (slotframe_list (so_sched ?s1)).
          l \<in> set (sf_links (sf_at (so_sched ?s1) i)) \<and> ativo (so_sched ?s1) i l (asn_val (tsch_current_asn s) + unat t))"
        unfolding if_not_P [OF False] using n(5) by simp
    qed (use n(2,3) f in simp_all)
  qed
  have len: "rd (tsch_timing s2) tsch_ts_timeslot_length = Some len" and y: "sync_ok (Suc n) (so_sync s2)"
    and d: "\<bar>drift_correction s2\<bar> \<le> D" using p s2 by (simp_all add: prepara_def)
  obtain time s3 where s3: "advance c t (drift_correction s2) s2 = Some (time, s3)" "sync_ok n (so_sync s3)"
    "s3\<lparr>so_sync := so_sync s2, current_slot_start := current_slot_start s2, tsch_current_asn := tsch_current_asn s2,
       so_tlog := so_tlog s2\<rparr> = s2"
    "tsch_current_asn s3 = TSCH_ASN_INC (tsch_current_asn s2) (ucast t)"
    "current_slot_start s3 = current_slot_start s2 + time" "m \<le> unat time"
    "\<bar>int (unat time) - int (unat t) * int (unat len) - drift_correction s2\<bar> \<le> 7813"
    using advance_run [OF len c y s2(2) d m M] by blast
  have k: "so_sched s3 = so_sched s2" "tsch_timing s3 = tsch_timing s2" "burst_link_scheduled s3 = burst_link_scheduled s2"
    using arg_cong [OF s3(3), of so_sched] arg_cong [OF s3(3), of tsch_timing] arg_cong [OF s3(3), of burst_link_scheduled]
    by simp_all
  have run: "schedule_step c s = Some (time, s3\<lparr>drift_correction := 0, is_drift_correction_used := False\<rparr>)"
    using s3(1) unfolding schedule_step_def Let_def x_def [symmetric] s2(1) by simp
  have g: "agenda (so_sched s2) = agenda h" using s2(3) p by (simp add: prepara_def)
  have e: "slotframe_list (so_sched s2) = slotframe_list (so_sched ?s1)" "sf_at (so_sched s2) i = sf_at (so_sched ?s1) i"
    "ativo (so_sched s2) i l u = ativo (so_sched ?s1) i l u" for i l u
    using agenda_eq [OF s2(3)] by simp_all
  let ?u = "s3\<lparr>drift_correction := 0, is_drift_correction_used := False\<rparr>"
  have last: "if burst_link_scheduled s \<and> current_link (so_sched s) \<noteq> None
     then t = 1 \<and> current_link (so_sched ?u) = current_link (so_sched s)
     else \<forall>l. current_link (so_sched ?u) = Some l \<longrightarrow> (\<exists>i \<in> set (slotframe_list (so_sched ?u)).
       l \<in> set (sf_links (sf_at (so_sched ?u) i)) \<and> ativo (so_sched ?u) i l (asn_val (tsch_current_asn s) + unat t))"
    using s2(10) unfolding e [symmetric] by (simp add: k)
  have pu: "prepara h len D n ?u" using p s3(2) k g len D0 by (simp add: prepara_def)
  have f: "current_slot_start ?u = current_slot_start s + time" "tsch_current_asn ?u = TSCH_ASN_INC (tsch_current_asn s) (ucast t)"
    "burst_link_scheduled ?u = burst_link_scheduled s"
    "\<bar>int (unat time) - int (unat t) * int (unat len) - drift_correction s\<bar> \<le> 7813"
    using s2(4,6,8,9) s3(4,5,7) k by simp_all
  show ?thesis
    by (rule exI [of _ time], rule exI [of _ ?u], rule exI [of _ t], intro conjI;
        (rule run | rule pu | rule f | rule s2(2) | rule s3(6) | rule last | (simp; fail)))
qed

text \<open>The loop ends: with a slot length above the corrections, every attempt gains m ticks.\<close>

lemma schedule_loop_total:
  assumes p: "prepara h len D (length nows) s" and c: "TSCH_BASE_DRIFT_PPM c = 0"
    and m: "int m + D + 7813 \<le> int (unat len)" and M: "65536 * int (unat len) + D + 7813 < 2 ^ 64"
    and so: "sorted (map unat nows)" and E: "\<forall>w \<in> set nows. unat (current_slot_start s) \<le> unat w \<and> unat w \<le> E"
    "unat (current_slot_start s) \<le> E" "E < unat (current_slot_start s) + m * length nows"
  shows "\<exists>s'. schedule_loop (schedule_step c) nows s = Some s'"
proof (rule schedule_loop_ends [of "prepara h len D", OF _ _ p so E])
  fix n u
  assume "prepara h len D (Suc n) u"
  from schedule_step_run [OF this c m M]
  show "\<exists>t s'. schedule_step c u = Some (t, s') \<and> prepara h len D n s' \<and>
      current_slot_start s' = current_slot_start u + t \<and> m \<le> unat t" by blast
next
  fix n u
  assume "prepara h len D n u"
  then show "prepara h len D n (log_add tsch_log_message u)" by (simp add: prepara_def)
qed

section \<open>Slots stay aligned\<close>

definition mapa_links where
  "mapa_links h = (slotframe_memb h, slotframe_list h, link_memb h)"

lemma mapa_links_eq:
  assumes "mapa_links h = mapa_links g"
  shows "tam_ok h = tam_ok g" "slotframe_list h = slotframe_list g" "sf_at h i = sf_at g i"
    "ativo h i l n = ativo g i l n"
  using assms by (simp_all add: mapa_links_def tam_ok_def ativo_def sf_len_def)

lemma mapa_links_simps [simp]:
  "mapa_links (so_sched (on_queue f s)) = mapa_links (so_sched s)"
  "mapa_links (so_sched (with_current x s)) = mapa_links (so_sched s)"
  "mapa_links (so_sched (update_link_backoff y s)) = mapa_links (so_sched s)"
  "mapa_links (so_sched (upd_pk p g s)) = mapa_links (so_sched s)"
  "mapa_links (so_sched (lock_flags k s)) = mapa_links (so_sched s)"
  by (simp_all add: mapa_links_def with_current_def update_link_backoff_def on_queue_def upd_pk_def lock_flags_def
      split: option.splits)

text \<open>What a slot never changes: the schedule, the ASN, the association.\<close>

definition fixo where
  "fixo s = (mapa_links (so_sched s), tsch_current_asn s, tsch_is_associated s, tsch_is_coordinator s)"

lemma fixo_simps [simp]:
  "fixo (on_queue f s) = fixo s" "fixo (with_current x s) = fixo s" "fixo (update_link_backoff y s) = fixo s"
  "fixo (upd_pk p g s) = fixo s" "fixo (lock_flags k s) = fixo s" "fixo (event e s) = fixo s"
  "fixo (tsch_radio_off c cm s) = fixo s" "fixo (tsch_radio_on c cn s) = fixo s" "fixo (process_poll_pending s) = fixo s"
  "fixo (s\<lparr>dequeued_array := a, dequeued_ringbuf := b\<rparr>) = fixo s" "fixo (s\<lparr>burst_link_scheduled := bb\<rparr>) = fixo s"
  "fixo (s\<lparr>drift_correction := d, is_drift_correction_used := u\<rparr>) = fixo s"
  "fixo (s\<lparr>tsch_current_channel_offset := o1, tsch_current_channel := o2\<rparr>) = fixo s"
  "fixo (s\<lparr>current_packet := cp, current_neighbor := cn1\<rparr>) = fixo s"
  "fixo (log_add lb s) = fixo s" "fixo (s\<lparr>so_tlog := lg\<rparr>) = fixo s"
  by (simp_all add: fixo_def event_def tsch_radio_on_def tsch_radio_off_def process_poll_pending_def)
    (simp_all add: mapa_links_def on_queue_def with_current_def update_link_backoff_def upd_pk_def lock_flags_def
      split: option.splits)

lemma fixo_resto: "resto t = resto s \<Longrightarrow> fixo t = fixo s"
  by (simp add: resto_def fixo_def)

lemma log_attempt_fixo: "sempre (log_attempt st p s) (\<lambda>s'. fixo s' = fixo s)"
  by (rule sempre_weaken [OF log_attempt_only]) auto

lemma tx_slot_fixo: "sempre (tsch_tx_slot c env s) (\<lambda>s'. fixo s' = fixo s)"
  unfolding tsch_tx_slot_def
  by (rule leva | rule sempre_weaken [OF log_attempt_fixo] | rule sempre_weaken [OF tx_packet_keeps] | rule sempre_weaken [OF tx_exchange_keeps] | rule sempre_any
      | (simp; fail) | (auto dest!: fixo_resto; fail))+

lemma slot_body_fixo: "sempre (slot_body c env s) (\<lambda>s'. fixo s' = fixo s)"
proof -
  have ch: "sempre (with_packet l s) (\<lambda>s'. fixo s' = fixo s)" for l s
    unfolding with_packet_def by (rule leva | rule sempre_any | (simp; fail))+
  have cl: "sempre (choose_link l s) (\<lambda>s'. fixo s' = fixo s)" for l s
    unfolding choose_link_def by (rule leva | rule sempre_weaken [OF ch] | rule sempre_any | (simp; fail))+
  have hc: "sempre (hop_channel l s) (\<lambda>s'. fixo s' = fixo s)" for l s
    unfolding hop_channel_def by (rule leva | rule sempre_any | (simp; fail))+
  have rx: "sempre (tsch_rx_slot c env s) (\<lambda>s'. fixo s' = fixo s)" for s
    using rx_slot_keeps [of c env s] fixo_resto by (auto simp: sempre_def)
  show ?thesis
    unfolding slot_body_def
    by (rule leva | rule sempre_weaken [OF cl] | rule sempre_weaken [OF hc] | rule sempre_weaken [OF tx_slot_fixo]
        | rule sempre_weaken [OF rx] | rule sempre_any | (simp; fail))+
qed

lemma advance_keeps:
  "sempre (advance c t d s) (\<lambda>(time, s'). so_sched s' = so_sched s \<and>
     tsch_current_asn s' = TSCH_ASN_INC (tsch_current_asn s) (ucast t) \<and> tsch_is_associated s' = tsch_is_associated s \<and>
     burst_link_scheduled s' = burst_link_scheduled s)"
  unfolding advance_def by (rule leva | rule sempre_any | (simp; fail))+

lemma asn_step:
  assumes "asn_val a + 65536 < 2 ^ 40"
  shows "asn_val (TSCH_ASN_INC a (ucast (t :: u16))) = asn_val a + unat t"
proof -
  have "unat (ucast t :: u32) = unat t" by (rule unat_ucast_16_32)
  then show ?thesis using assms unat_less16 [of t] by (simp add: asn_val_INC)
qed

lemma schedule_step_aligned:
  assumes ok: "tam_ok (so_sched s)" and b: "\<not> burst_link_scheduled s" and r: "schedule_step c s = Some (time, s')"
    and a: "asn_val (tsch_current_asn s) + 65536 < 2 ^ 40"
  shows "alinhado s'" and "mapa_links (so_sched s') = mapa_links (so_sched s)" and "\<not> burst_link_scheduled s'"
    and "asn_val (tsch_current_asn s') \<le> asn_val (tsch_current_asn s) + 65536"
    and "asn_val (tsch_current_asn s) < asn_val (tsch_current_asn s')"
    and "tsch_is_associated s' = tsch_is_associated s"
proof -
  let ?s1 = "update_link_backoff (current_link (so_sched s)) s"
  have ok1: "tam_ok (so_sched ?s1)" using ok mapa_links_eq(1) [of "so_sched ?s1" "so_sched s"] by simp
  obtain t s2 where n: "next_link ?s1 = Some (t, s2)" "1 \<le> unat t" "agenda (so_sched s2) = agenda (so_sched ?s1)"
    "s2\<lparr>so_sched := so_sched ?s1, backup_link := backup_link ?s1\<rparr> = ?s1"
    "\<forall>l. current_link (so_sched s2) = Some l \<longrightarrow> (\<exists>i \<in> set (slotframe_list (so_sched ?s1)).
       l \<in> set (sf_links (sf_at (so_sched ?s1) i)) \<and> ativo (so_sched ?s1) i l (asn_val (tsch_current_asn ?s1) + unat t))"
    using next_link_run2 [OF ok1] by blast
  have k: "tsch_current_asn s2 = tsch_current_asn s" "burst_link_scheduled s2 = burst_link_scheduled s"
    "tsch_is_associated s2 = tsch_is_associated s"
    using arg_cong [OF n(4), of tsch_current_asn] arg_cong [OF n(4), of burst_link_scheduled]
      arg_cong [OF n(4), of tsch_is_associated] by (simp_all add: update_link_backoff_def on_queue_def split: option.splits)
  define s3 where "s3 = (if current_link (so_sched s2) = None then s2 else s2\<lparr>tsch_current_burst_count := 0\<rparr>)"
  have k3: "so_sched s3 = so_sched s2" "tsch_current_asn s3 = tsch_current_asn s" "\<not> burst_link_scheduled s3"
    "tsch_is_associated s3 = tsch_is_associated s"
    using k b by (simp_all add: s3_def)
  have nb: "\<not> (burst_link_scheduled ?s1 \<and> current_link (so_sched ?s1) \<noteq> None)" using b by simp
  have r3: "schedule_step c s = do { (time, s) \<leftarrow> advance c t (drift_correction s3) s3;
     Some (time, s\<lparr>drift_correction := 0, is_drift_correction_used := False\<rparr>) }"
    unfolding schedule_step_def Let_def if_not_P [OF nb] n(1) bind.bind_lunit prod.case s3_def [symmetric] by (rule refl)
  obtain s4 where s4: "advance c t (drift_correction s3) s3 = Some (time, s4)"
    "s' = s4\<lparr>drift_correction := 0, is_drift_correction_used := False\<rparr>"
    using r unfolding r3 by (auto elim!: bind_SomeE)
  have k4: "so_sched s' = so_sched s2" "tsch_current_asn s' = TSCH_ASN_INC (tsch_current_asn s) (ucast t)"
    "tsch_is_associated s' = tsch_is_associated s" "\<not> burst_link_scheduled s'"
    using sempreD [OF advance_keeps s4(1)] s4(2) k3 by simp_all
  have v: "asn_val (tsch_current_asn s') = asn_val (tsch_current_asn s) + unat t"
    unfolding k4(2) by (rule asn_step [OF a])
  have m: "mapa_links (so_sched s') = mapa_links (so_sched ?s1)"
    using n(3) unfolding k4(1) by (simp add: agenda_def mapa_links_def)
  then show "mapa_links (so_sched s') = mapa_links (so_sched s)" by simp
  show "alinhado s'" unfolding alinhado_def v using n(5) unfolding k4(1) [symmetric]
    by (simp add: mapa_links_eq [OF m])
  show "asn_val (tsch_current_asn s') \<le> asn_val (tsch_current_asn s) + 65536"
    "asn_val (tsch_current_asn s) < asn_val (tsch_current_asn s')"
    using v n(2) unat_less16 [of t] by simp_all
  show "\<not> burst_link_scheduled s'" "tsch_is_associated s' = tsch_is_associated s" by (fact k4)+
qed

lemma schedule_loop_keeps:
  assumes "schedule_loop (schedule_step c) nows s = Some s'"
  shows "burst_link_scheduled s' = burst_link_scheduled s" and "tsch_is_associated s' = tsch_is_associated s"
proof -
  let ?k = "\<lambda>u s. burst_link_scheduled u = burst_link_scheduled s \<and> tsch_is_associated u = tsch_is_associated s"
  have nl: "sempre (next_link s) (\<lambda>(t, s'). ?k s' s)" for s
    unfolding next_link_def
    by (rule leva | rule sempre_any | (simp add: with_current_def split: option.splits; fail))+
  have ub: "tsch_is_associated (update_link_backoff l s) = tsch_is_associated s" for l s
    by (simp add: update_link_backoff_def on_queue_def split: option.splits)
  have st: "sempre (schedule_step c s) (\<lambda>(t, s'). ?k s' s)" for s
    unfolding schedule_step_def
    by (rule leva | rule sempre_weaken [OF nl] | rule sempre_weaken [OF advance_keeps] | rule sempre_any
       | (simp add: ub split: prod.splits; fail) | (clarsimp simp: ub; fail))+
  obtain u e k where "?k u s" "s' = event (Timer e) u"
    using schedule_loop_inv [of "\<lambda>_ u. ?k u s" "schedule_step c" nows s s'] sempreD [OF st] assms by fastforce
  then show "burst_link_scheduled s' = burst_link_scheduled s" "tsch_is_associated s' = tsch_is_associated s"
    by (simp_all add: event_def)
qed

text \<open>An activation that ends in the network and not in a burst leaves the next slot aligned.\<close>

lemma schedule_loop_aligned:
  assumes ok: "tam_ok (so_sched s)" and b: "\<not> burst_link_scheduled s"
    and a: "asn_val (tsch_current_asn s) + 65536 * length nows < 2 ^ 40"
    and r: "schedule_loop (schedule_step c) nows s = Some s'"
  shows "alinhado s'" and "mapa_links (so_sched s') = mapa_links (so_sched s)"
    and "asn_val (tsch_current_asn s) < asn_val (tsch_current_asn s')"
proof -
  let ?N = "length nows"
  let ?P = "\<lambda>n u. tam_ok (so_sched u) \<and> \<not> burst_link_scheduled u \<and> mapa_links (so_sched u) = mapa_links (so_sched s) \<and>
     asn_val (tsch_current_asn u) + 65536 * n < 2 ^ 40 \<and>
     (n < ?N \<longrightarrow> alinhado u \<and> asn_val (tsch_current_asn s) < asn_val (tsch_current_asn u)) \<and>
     (asn_val (tsch_current_asn s) \<le> asn_val (tsch_current_asn u))"
  have st: "?P n u'" if p: "?P (Suc n) u" and x: "schedule_step c u = Some (t, u')" for n u t u'
  proof -
    have q: "tam_ok (so_sched u)" "\<not> burst_link_scheduled u" "asn_val (tsch_current_asn u) + 65536 < 2 ^ 40"
      using p by simp_all
    note z = schedule_step_aligned [OF q(1,2) x q(3)]
    then show ?thesis using p mapa_links_eq(1) [OF z(2)] by auto
  qed
  have p0: "?P ?N s" using ok b a by simp
  have "\<exists>u e k. ?P k u \<and> k < ?N \<and> s' = event (Timer e) u"
    by (rule schedule_loop_inv [of ?P, OF _ _ p0 r]) (rule st, assumption+, simp add: alinhado_def)
  then obtain u e k where u: "?P k u" "k < ?N" "s' = event (Timer e) u" by blast
  show "alinhado s'" "mapa_links (so_sched s') = mapa_links (so_sched s)"
    "asn_val (tsch_current_asn s) < asn_val (tsch_current_asn s')"
    using u by (simp_all add: alinhado_def event_def)
qed

lemma slot_operation_aligned:
  assumes ok: "tam_ok (so_sched s)" and a: "asn_val (tsch_current_asn s) + 65536 * length (rtimer_now env) < 2 ^ 40"
    and r: "tsch_slot_operation c env s = Some s'" and as: "tsch_is_associated s'" and b: "\<not> burst_link_scheduled s'"
  shows "alinhado s'" and "mapa_links (so_sched s') = mapa_links (so_sched s)"
    and "asn_val (tsch_current_asn s) < asn_val (tsch_current_asn s')"
proof -
  have as0: "tsch_is_associated s"
  proof (rule ccontr)
    assume "\<not> tsch_is_associated s"
    then show False using r as by (simp add: tsch_slot_operation_def)
  qed
  obtain s1 s2 g s3 where s1: "slot_body c env s = Some s1"
    and s2: "s2 = (if tsch_is_coordinator s1
                 then s1\<lparr>last_sync_asn := tsch_current_asn s1, tsch_last_sync_time := clock_time env\<rparr> else s1)"
    and s3: "(if g then Some (tsch_disassociate (log_add tsch_log_message s2)) else schedule_loop (schedule_step c) (rtimer_now env) s2) = Some s3"
    and s': "s' = lock_flags (tsch_in_slot_operation_update (\<lambda>_. False)) s3"
    using r as0 unfolding tsch_slot_operation_def Let_def by (auto elim!: bind_SomeE)
  have f: "fixo s2 = fixo s" using sempreD [OF slot_body_fixo s1] s2 by (auto simp: fixo_def)
  then have m: "mapa_links (so_sched s2) = mapa_links (so_sched s)" "tsch_current_asn s2 = tsch_current_asn s"
    by (simp_all add: fixo_def)
  have e: "tsch_is_associated s' = tsch_is_associated s3" "burst_link_scheduled s' = burst_link_scheduled s3"
    "tsch_current_asn s' = tsch_current_asn s3" "current_link (so_sched s') = current_link (so_sched s3)"
    "mapa_links (so_sched s') = mapa_links (so_sched s3)"
    using s' by (simp_all add: lock_flags_def on_queue_def mapa_links_def)
  have "\<not> g" using s3 as e(1) by (auto simp: tsch_disassociate_def event_def split: if_splits)
  then have l: "schedule_loop (schedule_step c) (rtimer_now env) s2 = Some s3" using s3 by simp
  have b2: "\<not> burst_link_scheduled s2" using schedule_loop_keeps(1) [OF l] b e(2) by simp
  have ok2: "tam_ok (so_sched s2)" using ok mapa_links_eq(1) [OF m(1)] by simp
  note z = schedule_loop_aligned [OF ok2 b2 _ l]
  show "mapa_links (so_sched s') = mapa_links (so_sched s)"
    "asn_val (tsch_current_asn s) < asn_val (tsch_current_asn s')" using z(2,3) a m e by simp_all
  have "alinhado s3" using z(1) a m by simp
  then show "alinhado s'" unfolding alinhado_def e(3,4) mapa_links_eq [OF e(5)] .
qed


section \<open>The acknowledgement seen by both sides\<close>

text \<open>The receiver's part: one Prepare event with the acknowledgement.\<close>

lemma rx_ack_sends:
  assumes t: "rd (tsch_timing r) tsch_ts_max_tx = Some mx" "rd (tsch_timing r) tsch_ts_tx_ack_delay = Some dl"
    and q: "ack_required (fr_fcf (rx_frame r)) \<noteq> 0" and p: "payload inp = b0 # bs"
    and a: "length a = 8" "length (fr_src_addr (eack_params env)) = 8"
    and d: "-2048 \<le> d" "d < 2048"
  shows "\<exists>ack r'. rx_ack c env a d inp r = Some r' \<and> length ack = 17 \<and>
    so_log r' = so_log r @ [Prepare ack, Wake (seen_at env) (min (TSCH_PACKET_DURATION (in_len inp)) mx + dl), Transmit 17] @
      (if TSCH_RADIO_ON_DURING_TIMESLOT c then [] else [Radio_off]) \<and>
    (\<forall>z six n' pf i h. length (fr_dest_addr pf) = 8 \<longrightarrow> length (fr_src_addr pf) = 8 \<longrightarrow>
      (\<exists>f. tsch_packet_parse_eack six n' (so_pan_id r) a (ack @ z) 17 (fr_seq (rx_frame r)) pf (Some i) (Some h)
      = Some (17, f, Some ((zero_ies n')\<lparr>ie_is_nack := 0, ie_time_correction := word_of_int d, ie_payload_ie_offset := 4\<rparr>), Some 17)))"
proof -
  let ?w = "word_of_int d :: u16"
  have sw: "sint ?w = d" using d by (simp add: sint_sbintrunc' signed_take_bit_int_eq_self)
  have L: "17 \<le> unat (of_nat TSCH_PACKET_MAX_LEN :: u16)"
    "unat (of_nat TSCH_PACKET_MAX_LEN :: u16) \<le> length (replicate TSCH_PACKET_MAX_LEN (0 :: u8))"
    by (simp_all add: TSCH_PACKET_MAX_LEN_def PACKETBUF_SIZE_def)
  let ?j = "(zero_ies (max_hopping c))\<lparr>ie_time_correction := ?w, ie_is_nack := 0\<rparr>"
  let ?h = "hdr_bytes (eack_frame (so_pan_id r) a (fr_seq (rx_frame r)) (eack_params env))"
  obtain zs where zs: "tsch_packet_create_eack (max_hopping c) (so_pan_id r) (eack_params env)
      (Some (replicate TSCH_PACKET_MAX_LEN 0)) (of_nat TSCH_PACKET_MAX_LEN) (Some a) (fr_seq (rx_frame r)) ?w 0
      = Some (17, Some (?h @ ack_bytes ?j @ zs))"
    using create_eack_run [OF a L] by blast
  have l: "length ?h = 13" "length (ack_bytes ?j) = 4"
    using eack_hdr_length [OF a(1)] by (simp_all add: ack_bytes_def)
  have p17: "\<exists>f. tsch_packet_parse_eack six n' (so_pan_id r) a ((?h @ ack_bytes ?j) @ z) 17 (fr_seq (rx_frame r)) pf (Some i) (Some h)
      = Some (17, f, Some ((zero_ies n')\<lparr>ie_is_nack := 0, ie_time_correction := ?w, ie_payload_ie_offset := 4\<rparr>), Some 17)"
    if "length (fr_dest_addr pf) = 8" "length (fr_src_addr pf) = 8" for z six n' pf i h
    using eack_parsed [OF a that, of ?j six n' "so_pan_id r" "fr_seq (rx_frame r)" z i h] d sw by simp
  have k: "take (nat 17) (?h @ ack_bytes ?j @ zs) = ?h @ ack_bytes ?j" using l by simp
  have run: "\<exists>r'. rx_ack c env a d inp r = Some r' \<and>
    so_log r' = so_log r @ [Prepare (?h @ ack_bytes ?j), Wake (seen_at env) (min (TSCH_PACKET_DURATION (in_len inp)) mx + dl), Transmit 17] @
      (if TSCH_RADIO_ON_DURING_TIMESLOT c then [] else [Radio_off])"
    using q p k unfolding rx_ack_def t bind.bind_lunit Let_def RTIMERTICKS_TO_US_def zs prod.case
    by (simp add: tsch_packet_get_frame_pending_def rd_def tsch_radio_off_def event_def)
  then show ?thesis using p17 l by (intro exI [of _ "?h @ ack_bytes ?j"]) auto
qed

lemma tx_sync_drift:
  assumes "tx_sync env ies s = Some s'"
  shows "\<exists>B. SYNC_IE_BOUND s = Some B \<and> (0 \<le> B \<longrightarrow>
      drift_correction s' = max (- B) (min B (sint (ie_time_correction ies)))) \<and>
    last_sync_asn s' = tsch_current_asn s \<and> is_drift_correction_used s'"
proof -
  let ?t = "sint (ie_time_correction ies)"
  define D where "D B = (if ?t > B then B else if ?t < - B then - B else ?t)" for B
  define u where "u B = (if D B \<noteq> ?t then log_add tsch_log_message s else s)" for B
  obtain B s1 where B: "SYNC_IE_BOUND s = Some B"
    and s1: "sync_update (current_neighbor (u B)) (ucast (TSCH_ASN_DIFF (tsch_current_asn s) (last_sync_asn s))) (D B) (u B) = Some s1"
    and s': "s' = s1\<lparr>drift_correction := D B, is_drift_correction_used := True,
            so_sync := tsch_schedule_keepalive False (so_sync s1), last_sync_asn := tsch_current_asn s1, tsch_last_sync_time := clock_time env\<rparr>"
    using assms unfolding tx_sync_def Let_def US_TO_RTIMERTICKS_def D_def [symmetric] u_def [symmetric] by (auto elim!: bind_SomeE)
  have "tsch_current_asn s1 = tsch_current_asn (u B)" using sempreD [OF sync_update_only s1] by auto
  then have "tsch_current_asn s1 = tsch_current_asn s" by (simp add: u_def)
  then show ?thesis using B s' by (auto simp: D_def)
qed

text \<open>The sender's part: with such an acknowledgement the transmission succeeded.\<close>

lemma tx_ack_receives:
  assumes k: "tsch_packet_parse_eack (with_sixtop c) (max_hopping c) (so_pan_id s) (linkaddr_node_addr (so_sched s))
      (ackbuf env) 17 seqno (ack_frame env) (Some (local_ies env)) (Some (ack_hdrlen env)) = Some (17, f, Some ies, h)"
    and r: "ack_read env = 17" and n: "current_neighbor s = Some n"
  shows "tx_ack c env seqno b s = do {
     s \<leftarrow> (if is_time_source (nbr_at (so_queue s) n) then tx_sync env ies s else Some s);
     Some (MAC_TX_OK, if b then s\<lparr>burst_link_scheduled := True\<rparr> else s) }"
  unfolding tx_ack_def r k n by simp

lemma SYNC_IE_BOUND_nonneg: "SYNC_IE_BOUND s = Some B \<Longrightarrow> 0 \<le> B"
  by (auto simp: SYNC_IE_BOUND_def US_TO_RTIMERTICKS_def pos_imp_zdiv_nonneg_iff)

lemma ack_exchange:
  assumes t: "rd (tsch_timing r) tsch_ts_max_tx = Some mx" "rd (tsch_timing r) tsch_ts_tx_ack_delay = Some dl"
    and q: "ack_required (fr_fcf (rx_frame r)) \<noteq> 0" and p: "payload inp = b0 # bs"
    and a: "length a = 8" "length (fr_src_addr (eack_params env)) = 8"
    and d: "-2048 \<le> d" "d < 2048"
    and s: "so_pan_id s = so_pan_id r" "linkaddr_node_addr (so_sched s) = a" "current_neighbor s = Some n"
    and f: "length (fr_dest_addr (ack_frame env')) = 8" "length (fr_src_addr (ack_frame env')) = 8"
  shows "\<exists>ack r'. rx_ack c env a d inp r = Some r' \<and> Prepare ack \<in> set (so_log r') \<and> Transmit 17 \<in> set (so_log r') \<and>
    (\<forall>z. ackbuf env' = ack @ z \<and> ack_read env' = 17 \<longrightarrow>
      (if is_time_source (nbr_at (so_queue s) n)
       then \<forall>st s'. tx_ack c' env' (fr_seq (rx_frame r)) b s = Some (st, s') \<longrightarrow> st = MAC_TX_OK \<and>
          last_sync_asn s' = tsch_current_asn s \<and>
          (\<exists>B. SYNC_IE_BOUND s = Some B \<and> drift_correction s' = max (- B) (min B d))
       else tx_ack c' env' (fr_seq (rx_frame r)) b s = Some (MAC_TX_OK, if b then s\<lparr>burst_link_scheduled := True\<rparr> else s)))"
proof -
  let ?w = "word_of_int d :: u16"
  have sw: "sint ?w = d" using d by (simp add: sint_sbintrunc' signed_take_bit_int_eq_self)
  obtain ack r' where x: "rx_ack c env a d inp r = Some r'"
    "so_log r' = so_log r @ [Prepare ack, Wake (seen_at env) (min (TSCH_PACKET_DURATION (in_len inp)) mx + dl), Transmit 17] @
      (if TSCH_RADIO_ON_DURING_TIMESLOT c then [] else [Radio_off])"
    and y: "\<forall>z six n' pf i h. length (fr_dest_addr pf) = 8 \<longrightarrow> length (fr_src_addr pf) = 8 \<longrightarrow>
      (\<exists>f. tsch_packet_parse_eack six n' (so_pan_id r) a (ack @ z) 17 (fr_seq (rx_frame r)) pf (Some i) (Some h)
      = Some (17, f, Some ((zero_ies n')\<lparr>ie_is_nack := 0, ie_time_correction := ?w, ie_payload_ie_offset := 4\<rparr>), Some 17))"
    using rx_ack_sends [OF t q p a d] by blast
  have "if is_time_source (nbr_at (so_queue s) n)
       then \<forall>st s'. tx_ack c' env' (fr_seq (rx_frame r)) b s = Some (st, s') \<longrightarrow> st = MAC_TX_OK \<and>
          last_sync_asn s' = tsch_current_asn s \<and>
          (\<exists>B. SYNC_IE_BOUND s = Some B \<and> drift_correction s' = max (- B) (min B d))
       else tx_ack c' env' (fr_seq (rx_frame r)) b s = Some (MAC_TX_OK, if b then s\<lparr>burst_link_scheduled := True\<rparr> else s)"
    if z: "ackbuf env' = ack @ z" "ack_read env' = 17" for z
  proof -
    let ?i = "(zero_ies (max_hopping c'))\<lparr>ie_is_nack := 0, ie_time_correction := ?w, ie_payload_ie_offset := 4\<rparr>"
    obtain g where "tsch_packet_parse_eack (with_sixtop c') (max_hopping c') (so_pan_id s) (linkaddr_node_addr (so_sched s))
        (ackbuf env') 17 (fr_seq (rx_frame r)) (ack_frame env') (Some (local_ies env')) (Some (ack_hdrlen env'))
      = Some (17, g, Some ?i, Some 17)"
      using y f unfolding s z by blast
    note e = tx_ack_receives [OF this z(2) s(3), of b]
    show ?thesis
    proof (cases "is_time_source (nbr_at (so_queue s) n)")
      case False
      then show ?thesis using e by simp
    next
      case True
      have "st = MAC_TX_OK \<and> last_sync_asn s' = tsch_current_asn s \<and>
          (\<exists>B. SYNC_IE_BOUND s = Some B \<and> drift_correction s' = max (- B) (min B d))"
        if u: "tx_ack c' env' (fr_seq (rx_frame r)) b s = Some (st, s')" for st s'
      proof -
        obtain s1 where s1: "tx_sync env' ?i s = Some s1" "st = MAC_TX_OK"
          "s' = (if b then s1\<lparr>burst_link_scheduled := True\<rparr> else s1)"
          using u True unfolding e by (auto elim!: bind_SomeE)
        show ?thesis using tx_sync_drift [OF s1(1)] s1(2,3) SYNC_IE_BOUND_nonneg [of s] sw by auto
      qed
      then show ?thesis using True by simp
    qed
  qed
  then show ?thesis using x by (intro exI [of _ ack] exI [of _ r']) auto
qed

section \<open>What is received\<close>

text \<open>A frame that this node takes: the bytes of a data or beacon frame of its PAN, from another node, to it or to all.\<close>

definition quadro_meu :: "u16 \<Rightarrow> linkaddr \<Rightarrow> int \<Rightarrow> frame802154_t \<Rightarrow> bool" where
  "quadro_meu pan me h f \<longleftrightarrow> h > 0 \<and> frame802154_check_dest_panid pan (Some f) \<and>
     (frame_type (fr_fcf f) = FRAME802154_DATAFRAME \<or> frame_type (fr_fcf f) = FRAME802154_BEACONFRAME) \<and>
     (case frame802154_extract_linkaddr (Some f) of
        Some (True, Some a, Some d) \<Rightarrow> (d = me \<or> d = linkaddr_null) \<and> a \<noteq> me
      | _ \<Rightarrow> False)"

lemma extract_ok_some:
  "frame802154_extract_linkaddr (Some f) = Some (True, src, dst) \<Longrightarrow> \<exists>a d. src = Some a \<and> dst = Some d"
  by (auto simp: frame802154_extract_linkaddr_def split: if_splits elim!: bind_SomeE)

lemma rx_source_meu:
  assumes "rx_source s h = Some (src, valid)"
  shows "(src \<noteq> None) = quadro_meu (so_pan_id s) (linkaddr_node_addr (so_sched s)) h (rx_frame s)"
proof (cases "h > 0 \<and> frame802154_check_dest_panid (so_pan_id s) (Some (rx_frame s))")
  case False
  then show ?thesis using assms by (auto simp: rx_source_def quadro_meu_def)
next
  case True
  obtain ok a d where e: "frame802154_extract_linkaddr (Some (rx_frame s)) = Some (ok, a, d)"
    "src = (if (ok \<and> (frame_type (fr_fcf (rx_frame s)) = FRAME802154_DATAFRAME \<or> frame_type (fr_fcf (rx_frame s)) = FRAME802154_BEACONFRAME))
        \<and> (linkaddr_cmp (the d) (linkaddr_node_addr (so_sched s)) \<or> linkaddr_cmp (the d) linkaddr_null)
        \<and> \<not> linkaddr_cmp (the a) (linkaddr_node_addr (so_sched s)) then a else None)"
    using assms True unfolding rx_source_def Let_def by (auto elim!: bind_SomeE)
  show ?thesis
  proof (cases ok)
    case False
    then show ?thesis using e by (auto simp: quadro_meu_def)
  next
    case k: True
    then have "frame802154_extract_linkaddr (Some (rx_frame s)) = Some (True, a, d)" using e(1) by simp
    then obtain a' d' where "a = Some a'" "d = Some d'" using extract_ok_some by blast
    then show ?thesis using e k True by (auto simp: quadro_meu_def linkaddr_cmp_def)
  qed
qed

definition pacote_lido :: "ambiente \<Rightarrow> slot_state \<Rightarrow> input_packet" where
  "pacote_lido env s = \<lparr>payload = read_payload env, rx_asn = tsch_current_asn s, in_len = read_len env,
     in_rssi = to_i16 (last_rssi env), in_channel = tsch_current_channel s\<rparr>"

lemma rx_read_fila:
  assumes rb: "rb_ok (input_ringbuf s)" "length (input_array s) = rb_sz (input_ringbuf s)"
    and room: "ringbufindex_peek_put (input_ringbuf s) \<noteq> -1"
    and run: "rx_read c env (ringbufindex_peek_put (input_ringbuf s)) s = Some s'"
  shows "\<exists>h f. frame802154_parse False False (read_payload env) (read_len env) (rx_frame s) = Some (h, f) \<and>
    rbi.conteudo (input_array s') (input_ringbuf s') = rbi.conteudo (input_array s) (input_ringbuf s) @
      (if quadro_meu (so_pan_id s) (linkaddr_node_addr (so_sched s)) h f then [pacote_lido env s] else []) \<and>
    rb_ok (input_ringbuf s') \<and> length (input_array s') = rb_sz (input_ringbuf s')"
proof -
  let ?i = "ringbufindex_peek_put (input_ringbuf s)"
  obtain a where a: "wri (input_array s) ?i (pacote_lido env s) = Some a" "length a = length (input_array s)"
    "rb_ok (snd (ringbufindex_put (input_ringbuf s)))"
    "rb_sz (snd (ringbufindex_put (input_ringbuf s))) = rb_sz (input_ringbuf s)"
    "rbi.conteudo a (snd (ringbufindex_put (input_ringbuf s))) = rbi.conteudo (input_array s) (input_ringbuf s) @ [pacote_lido env s]"
    using rb_store [OF rb room, of "pacote_lido env s"] by blast
  have fresh: "0 \<le> ?i \<and> nat ?i < rb_sz (input_ringbuf s) \<and> nat ?i \<notin> set (rb_els (input_ringbuf s))"
    by (rule rbi.peek_put_fresh [OF rb(1) room])
  have "wri (input_array s) ?i (pacote_lido env s) = Some ((input_array s)[nat ?i := pacote_lido env s])"
    using fresh rb(2) by (intro wri_Some) auto
  then have old: "rbi.conteudo a (input_ringbuf s) = rbi.conteudo (input_array s) (input_ringbuf s)"
    using a(1) fresh unfolding rbi.conteudo_def by (intro map_cong refl) (metis nth_list_update_neq option.inject)
  obtain h f s1 src valid s2 where p: "frame802154_parse False False (read_payload env) (read_len env) (rx_frame s) = Some (h, f)"
    and s1: "s1 = s\<lparr>input_array := a, rx_frame := f\<rparr>" and src: "rx_source s1 h = Some (src, valid)"
    and s2: "(case src of None \<Rightarrow> Some (if valid then s1 else log_add tsch_log_message s1)
       | Some x \<Rightarrow> rx_accept c env x (pacote_lido env s) (if valid then s1 else log_add tsch_log_message s1)) = Some s2"
    and s': "s' = (if valid then process_poll_pending s2 else s2)"
    using run a(1) unfolding rx_read_def Let_def pacote_lido_def [symmetric] by (auto elim!: bind_SomeE simp: pacote_lido_def)
  have m: "(src \<noteq> None) = quadro_meu (so_pan_id s) (linkaddr_node_addr (so_sched s)) h f"
    using rx_source_meu [OF src] unfolding s1 by simp
  have q: "input_array s' = input_array s2" "input_ringbuf s' = input_ringbuf s2"
    using s' by (simp_all add: process_poll_pending_def)
  have "rbi.conteudo (input_array s2) (input_ringbuf s2) = rbi.conteudo (input_array s) (input_ringbuf s) @
      (if src \<noteq> None then [pacote_lido env s] else []) \<and>
    rb_ok (input_ringbuf s2) \<and> length (input_array s2) = rb_sz (input_ringbuf s2)"
  proof -
    define w where "w = (if valid then s1 else log_add tsch_log_message s1)"
    have w: "input_array w = a" "input_ringbuf w = input_ringbuf s" by (simp_all add: w_def s1)
    show ?thesis
    proof (cases src)
      case None
      then show ?thesis using s2 [folded w_def] w old rb a(2) by auto
    next
      case (Some x)
      then have "rx_accept c env x (pacote_lido env s) w = Some s2" using s2 [folded w_def] by simp
      from sempreD [OF rx_accept_keeps this] show ?thesis using a rb(2) w Some by simp
    qed
  qed
  then show ?thesis using p m q by auto
qed

lemma rx_slot_fila:
  assumes rb: "rb_ok (input_ringbuf s)" "length (input_array s) = rb_sz (input_ringbuf s)"
    and room: "ringbufindex_peek_put (input_ringbuf s) \<noteq> -1" and seen: "packet_seen env" "pending_packet env"
    and run: "tsch_rx_slot c env s = Some s'"
  shows "\<exists>h f. frame802154_parse False False (read_payload env) (read_len env) (rx_frame s) = Some (h, f) \<and>
    rbi.conteudo (input_array s') (input_ringbuf s') = rbi.conteudo (input_array s) (input_ringbuf s) @
      (if quadro_meu (so_pan_id s) (linkaddr_node_addr (so_sched s)) h f then [pacote_lido env s] else [])"
proof -
  define v where "v rx_off = tsch_radio_off c TSCH_RADIO_CMD_OFF_WITHIN_TIMESLOT
    (tsch_radio_on c TSCH_RADIO_CMD_ON_WITHIN_TIMESLOT (wait_until env 0 (current_slot_start s) rx_off s))" for rx_off
  obtain rx_off s1 where u: "rx_read c env (ringbufindex_peek_put (input_ringbuf s)) (v rx_off) = Some s1"
    "s' = log_drops (tsch_radio_off c TSCH_RADIO_CMD_OFF_END_OF_TIMESLOT s1)"
    using run room seen unfolding tsch_rx_slot_def Let_def v_def [symmetric] by (auto elim!: bind_SomeE)
  let ?u = "v rx_off"
  have k: "input_ringbuf ?u = input_ringbuf s" "input_array ?u = input_array s" "rx_frame ?u = rx_frame s"
    "so_pan_id ?u = so_pan_id s" "so_sched ?u = so_sched s" "pacote_lido env ?u = pacote_lido env s"
    by (simp_all add: v_def resto_simps pacote_lido_def)
  have o: "input_ringbuf s' = input_ringbuf s1" "input_array s' = input_array s1" using u(2) by (simp_all add: log_drops_keeps resto_simps)
  show ?thesis using rx_read_fila [of ?u c env s1] u(1) rb room unfolding k o by blast
qed

lemma mod_apart:
  fixes n :: nat
  assumes "x < n" and "y < n" and "x \<noteq> y"
  shows "(k + x) mod n \<noteq> (k + y) mod n"
proof -
  have "k mod n < n" using assms(1) by simp
  then have "inj_on (\<lambda>i. (k mod n + i) mod n) {0..<n}" by (rule window_inj)
  from inj_on_contraD [OF this assms(3)] assms(1,2) have "(k mod n + x) mod n \<noteq> (k mod n + y) mod n" by simp
  then show ?thesis unfolding mod_add_left_eq .
qed

text \<open>
  With the radio on for whole timeslots, a slot that finds its ring buffer full ends with the radio
  on: the command at the end of the slot is inside the branch that has room.
\<close>

lemma radio_left_on:
  assumes "TSCH_RADIO_ON_DURING_TIMESLOT c"
  shows "ringbufindex_peek_put (dequeued_ringbuf s) = -1 \<Longrightarrow>
      tsch_tx_slot c env (tsch_radio_on c TSCH_RADIO_CMD_ON_START_OF_TIMESLOT s) = Some (event Radio_on s)"
    and "ringbufindex_peek_put (input_ringbuf s) = -1 \<Longrightarrow> 0 \<le> input_queue_drop s \<Longrightarrow> input_queue_drop s + 1 < 2 ^ 31 \<Longrightarrow>
      tsch_rx_slot c env (tsch_radio_on c TSCH_RADIO_CMD_ON_START_OF_TIMESLOT s) =
        Some ((event Radio_on s)\<lparr>input_queue_drop := input_queue_drop s + 1\<rparr>)"
  using assms by (simp_all add: tsch_tx_slot_def tsch_rx_slot_def tsch_radio_on_def event_def i32_def)

end
