(* ===== verification/Mac_Facts.thy ===== *)
theory Mac_Facts
  imports Tsch_Rpl Slot_Facts
begin

text \<open>
  Facts about tsch.c: the type of the state of a node, which every operation keeps; which operations
  leave alone the timings, the hopping sequence and the PAN; the steps of a node as a relation.
\<close>

section \<open>The type of the state\<close>

text \<open>What the slot operation and the queues never change.\<close>

definition aspecto where
  "aspecto s = (tsch_timing_us s, tsch_timing s, tsch_hopping_sequence s, tsch_hopping_sequence_length s, so_pan_id s,
     tsch_is_coordinator s)"

lemma aspecto_simps [simp]:
  "aspecto (on_queue f s) = aspecto s" "aspecto (with_current x s) = aspecto s" "aspecto (update_link_backoff y s) = aspecto s"
  "aspecto (upd_pk p g s) = aspecto s" "aspecto (lock_flags k s) = aspecto s" "aspecto (event e s) = aspecto s"
  "aspecto (tsch_radio_off c cm s) = aspecto s" "aspecto (tsch_radio_on c cn s) = aspecto s"
  "aspecto (process_poll_pending s) = aspecto s" "aspecto (tsch_disassociate s) = aspecto s"
  "aspecto (s\<lparr>dequeued_array := a, dequeued_ringbuf := b\<rparr>) = aspecto s" "aspecto (s\<lparr>burst_link_scheduled := bb\<rparr>) = aspecto s"
  "aspecto (s\<lparr>drift_correction := d, is_drift_correction_used := u\<rparr>) = aspecto s"
  "aspecto (s\<lparr>tsch_current_channel_offset := o1, tsch_current_channel := o2\<rparr>) = aspecto s"
  "aspecto (s\<lparr>current_packet := cp, current_neighbor := cn1\<rparr>) = aspecto s"
  "aspecto (s\<lparr>last_sync_asn := la, tsch_last_sync_time := lt\<rparr>) = aspecto s"
  "aspecto (s\<lparr>backup_link := bl\<rparr>) = aspecto s" "aspecto (s\<lparr>tsch_current_burst_count := bc\<rparr>) = aspecto s"
  "aspecto (s\<lparr>backup_link := bl, tsch_current_burst_count := bc\<rparr>) = aspecto s"
  "aspecto (s\<lparr>tsch_current_asn := as\<rparr>) = aspecto s" "aspecto (s\<lparr>so_sync := sy, current_slot_start := st\<rparr>) = aspecto s"
  "aspecto (log_add lb s) = aspecto s" "aspecto ((log_add lb ^^ ln) s) = aspecto s" "aspecto (s\<lparr>so_tlog := lg\<rparr>) = aspecto s"
  by (simp_all add: aspecto_def event_def tsch_radio_on_def tsch_radio_off_def process_poll_pending_def on_queue_def
      with_current_def update_link_backoff_def upd_pk_def lock_flags_def tsch_disassociate_def split: option.splits)

lemma aspecto_resto: "resto t = resto s \<Longrightarrow> aspecto t = aspecto s"
  by (simp add: resto_def aspecto_def)

lemma log_attempt_aspecto: "sempre (log_attempt st p s) (\<lambda>s'. aspecto s' = aspecto s)"
  by (rule sempre_weaken [OF log_attempt_only]) auto

lemma tx_slot_aspecto: "sempre (tsch_tx_slot c env s) (\<lambda>s'. aspecto s' = aspecto s)"
  unfolding tsch_tx_slot_def
  by (rule leva | rule sempre_weaken [OF log_attempt_aspecto] | rule sempre_weaken [OF tx_packet_keeps] | rule sempre_weaken [OF tx_exchange_keeps] | rule sempre_any
      | (simp; fail) | (auto dest!: aspecto_resto; fail))+

lemma slot_body_aspecto: "sempre (slot_body c env s) (\<lambda>s'. aspecto s' = aspecto s)"
proof -
  have ch: "sempre (with_packet l s) (\<lambda>s'. aspecto s' = aspecto s)" for l s
    unfolding with_packet_def by (rule leva | rule sempre_any | (simp; fail))+
  have cl: "sempre (choose_link l s) (\<lambda>s'. aspecto s' = aspecto s)" for l s
    unfolding choose_link_def by (rule leva | rule sempre_weaken [OF ch] | rule sempre_any | (simp; fail))+
  have hc: "sempre (hop_channel l s) (\<lambda>s'. aspecto s' = aspecto s)" for l s
    unfolding hop_channel_def by (rule leva | rule sempre_any | (simp; fail))+
  have rx: "sempre (tsch_rx_slot c env s) (\<lambda>s'. aspecto s' = aspecto s)" for s
    using rx_slot_keeps [of c env s] aspecto_resto by (auto simp: sempre_def)
  show ?thesis
    unfolding slot_body_def
    by (rule leva | rule sempre_weaken [OF cl] | rule sempre_weaken [OF hc] | rule sempre_weaken [OF tx_slot_aspecto]
        | rule sempre_weaken [OF rx] | rule sempre_any | (simp; fail))+
qed

lemma schedule_step_aspecto:
  "sempre (schedule_step c s) (\<lambda>(t, s'). aspecto s' = aspecto s)" "sempre (start_step c s) (\<lambda>(t, s'). aspecto s' = aspecto s \<and> tsch_is_associated s' = tsch_is_associated s)"
proof -
  have nl: "sempre (next_link s) (\<lambda>(t, s'). aspecto s' = aspecto s \<and> tsch_is_associated s' = tsch_is_associated s)" for s
    unfolding next_link_def by (rule leva | rule sempre_any | (simp add: with_current_def aspecto_def split: option.splits; fail))+
  have ad: "sempre (advance c t d s) (\<lambda>(time, s'). aspecto s' = aspecto s \<and> tsch_is_associated s' = tsch_is_associated s)" for t d s
    unfolding advance_def by (rule leva | rule sempre_any | (simp; fail))+
  show "sempre (schedule_step c s) (\<lambda>(t, s'). aspecto s' = aspecto s)"
    unfolding schedule_step_def
    by (rule leva | rule sempre_weaken [OF nl] | rule sempre_weaken [OF ad] | rule sempre_any
       | (simp split: prod.splits; fail) | (clarsimp; fail))+
  show "sempre (start_step c s) (\<lambda>(t, s'). aspecto s' = aspecto s \<and> tsch_is_associated s' = tsch_is_associated s)"
    unfolding start_step_def
    by (rule leva | rule sempre_weaken [OF nl] | rule sempre_weaken [OF ad] | rule sempre_any
       | (simp split: prod.splits; fail) | (clarsimp; fail))+
qed

lemma slot_operation_aspecto:
  "sempre (tsch_slot_operation c env s) (\<lambda>s'. aspecto s' = aspecto s \<and> (tsch_is_associated s' \<longrightarrow> tsch_is_associated s))"
  "sempre (tsch_slot_operation_start c nows s) (\<lambda>s'. aspecto s' = aspecto s \<and> tsch_is_associated s' = tsch_is_associated s)"
proof -
  have sl: "sempre (schedule_loop (schedule_step c) nows s) (\<lambda>s'. aspecto s' = aspecto s)" for nows s
  proof (rule sempre_any)
    fix s' assume "schedule_loop (schedule_step c) nows s = Some s'"
    then obtain u e where "aspecto u = aspecto s" "s' = event (Timer e) u"
      using schedule_loop_inv [of "\<lambda>_ u. aspecto u = aspecto s" "schedule_step c" nows s s'] sempreD [OF schedule_step_aspecto(1)]
      by fastforce
    then show "aspecto s' = aspecto s" by simp
  qed
  have "sempre (tsch_slot_operation c env s) (\<lambda>s'. aspecto s' = aspecto s)"
    unfolding tsch_slot_operation_def
    by (rule leva | rule sempre_weaken [OF slot_body_aspecto] | rule sempre_weaken [OF sl] | rule sempre_any | (simp; fail))+
  moreover have "tsch_is_associated s" if "tsch_slot_operation c env s = Some s'" "tsch_is_associated s'" for s'
    using that by (auto simp: tsch_slot_operation_def split: if_splits)
  ultimately show "sempre (tsch_slot_operation c env s) (\<lambda>s'. aspecto s' = aspecto s \<and> (tsch_is_associated s' \<longrightarrow> tsch_is_associated s))"
    by (simp add: sempre_def)
  show "sempre (tsch_slot_operation_start c nows s) (\<lambda>s'. aspecto s' = aspecto s \<and> tsch_is_associated s' = tsch_is_associated s)"
  proof (rule sempre_any)
    fix s' assume "tsch_slot_operation_start c nows s = Some s'"
    then obtain u e where "aspecto u = aspecto s \<and> tsch_is_associated u = tsch_is_associated s" "s' = event (Timer e) u"
      using schedule_loop_inv [of "\<lambda>_ u. aspecto u = aspecto s \<and> tsch_is_associated u = tsch_is_associated s" "start_step c" nows s s']
        sempreD [OF schedule_step_aspecto(2)] unfolding tsch_slot_operation_start_def by fastforce
    then show "aspecto s' = aspecto s \<and> tsch_is_associated s' = tsch_is_associated s"
      by (auto simp: event_def aspecto_def)
  qed
qed

text \<open>
  The type of the state: the sizes of the arrays, the timings in ticks those in microseconds, the
  period of beacons bounded, and, in a network, a hopping sequence that fits its array and the PAN.
\<close>

definition slot_ok :: "slot_state \<Rightarrow> bool" where
  "slot_ok s \<longleftrightarrow> length (tsch_timing_us s) = tsch_ts_elements_count
     \<and> tsch_timing s = map (\<lambda>us. US_TO_RTIMERTICKS (ucast us)) (tsch_timing_us s)
     \<and> length (tsch_hopping_sequence s) = length TSCH_DEFAULT_HOPPING_SEQUENCE
     \<and> (tsch_is_associated s \<longrightarrow> so_pan_id s = IEEE802154_PANID
        \<and> TSCH_ASN_DIVISOR_INIT (val (tsch_hopping_sequence_length s)) = Some (tsch_hopping_sequence_length s)
        \<and> unat (val (tsch_hopping_sequence_length s)) \<le> length (tsch_hopping_sequence s))"

definition mac_ok :: "tsch_mac \<Rightarrow> bool" where
  "mac_ok m \<longleftrightarrow> slot_ok (m_slot m) \<and> length (received_seqnos m) = MAX_SEQNOS
     \<and> tsch_current_eb_period m \<le> TSCH_MAX_EB_PERIOD"

lemma slot_ok_aspecto:
  "aspecto t = aspecto s \<Longrightarrow> (tsch_is_associated t \<longrightarrow> tsch_is_associated s) \<Longrightarrow> slot_ok s \<Longrightarrow> slot_ok t"
  by (auto simp: aspecto_def slot_ok_def)

lemma slot_ok_dis: "slot_ok s \<Longrightarrow> slot_ok (tsch_disassociate s)"
  by (auto simp: slot_ok_def tsch_disassociate_def event_def)

lemma slot_ok_simps [simp]:
  "slot_ok (s\<lparr>so_sync := y\<rparr>) = slot_ok s" "slot_ok (s\<lparr>so_qb := q\<rparr>) = slot_ok s" "slot_ok (on_queue f s) = slot_ok s"
  "slot_ok (s\<lparr>so_sched := h\<rparr>) = slot_ok s" "slot_ok (s\<lparr>tsch_join_priority := jp\<rparr>) = slot_ok s" "slot_ok (upd_pk p g s) = slot_ok s"
  "slot_ok (s\<lparr>input_ringbuf := r\<rparr>) = slot_ok s" "slot_ok (s\<lparr>dequeued_ringbuf := r\<rparr>) = slot_ok s"
  "slot_ok (s\<lparr>input_ringbuf := r, dequeued_ringbuf := r2\<rparr>) = slot_ok s" "slot_ok (s\<lparr>tsch_current_asn := a\<rparr>) = slot_ok s"
  "slot_ok (s\<lparr>tsch_current_asn := a, tsch_join_priority := jp\<rparr>) = slot_ok s"
  "slot_ok (s\<lparr>tsch_join_priority := jp, tsch_current_asn := a\<rparr>) = slot_ok s"
  "slot_ok (with_current l s) = slot_ok s" "slot_ok (tsch_slot_operation_sync now st a s) = slot_ok s"
  by (simp_all add: slot_ok_def on_queue_def upd_pk_def with_current_def tsch_slot_operation_sync_def)

lemma assoc_simps [simp]:
  "tsch_is_associated (on_queue f s) = tsch_is_associated s" "tsch_is_associated (with_current l s) = tsch_is_associated s"
  "tsch_is_associated (upd_pk p g s) = tsch_is_associated s"
  "tsch_is_associated (tsch_slot_operation_sync now st a s) = tsch_is_associated s"
  "\<not> tsch_is_associated (tsch_disassociate s)"
  by (simp_all add: on_queue_def upd_pk_def with_current_def tsch_slot_operation_sync_def tsch_disassociate_def event_def)

lemma mac_ok_simps [simp]:
  "mac_ok (mac_event e m) = mac_ok m" "mac_ok (on_sync f m) = mac_ok m"
  "mac_ok (m\<lparr>m_pb := b\<rparr>) = mac_ok m" "mac_ok (m\<lparr>keepalive_timer := k\<rparr>) = mac_ok m" "mac_ok (m\<lparr>last_eb_nbr_addr := a\<rparr>) = mac_ok m"
  "mac_ok (m\<lparr>last_eb_nbr_addr := a, last_eb_nbr_jp := jp\<rparr>) = mac_ok m" "mac_ok (m\<lparr>tsch_packet_seqno := q\<rparr>) = mac_ok m"
  "mac_ok (m\<lparr>tsch_packet_seqno := q, m_pb := b\<rparr>) = mac_ok m" "mac_ok (tsch_set_join_priority jp m) = mac_ok m"
  "mac_ok (m\<lparr>m_dsn := d, m_dsn_init := i, m_pb := b\<rparr>) = mac_ok m"
  "mac_ok (m\<lparr>tsch_default_timing_us := us\<rparr>) = mac_ok m" "mac_ok (m\<lparr>tsch_association_count := n\<rparr>) = mac_ok m"
  "mac_ok (m\<lparr>tsch_is_pan_secured := sec\<rparr>) = mac_ok m" "mac_ok (m\<lparr>tsch_is_started := st\<rparr>) = mac_ok m"
  "mac_ok (m\<lparr>current_channel := ch, current_channel_since := si\<rparr>) = mac_ok m" "mac_ok (m\<lparr>current_channel_since := si\<rparr>) = mac_ok m"
  "mac_ok (m\<lparr>tsch_packet_seqno := q, tsch_is_initialized := ii\<rparr>) = mac_ok m"
  "mac_ok (on_slot (on_queue g) m) = mac_ok m" "mac_ok (on_slot (so_qb_update h) m) = mac_ok m"
  "mac_ok (on_slot (so_sched_update k2) m) = mac_ok m" "mac_ok (on_slot (upd_pk p g2) m) = mac_ok m"
  by (simp_all add: mac_ok_def mac_event_def on_sync_def on_slot_def tsch_set_join_priority_def slot_ok_def
     on_queue_def upd_pk_def)

text \<open>What most operations leave alone.\<close>

definition tipo_de where
  "tipo_de m = (aspecto (m_slot m), received_seqnos m, tsch_current_eb_period m)"

lemma tipo_de_simps [simp]:
  "tipo_de (mac_event e m) = tipo_de m" "tipo_de (on_sync f m) = tipo_de m"
  "tipo_de (m\<lparr>m_pb := b\<rparr>) = tipo_de m" "tipo_de (m\<lparr>keepalive_timer := k\<rparr>) = tipo_de m" "tipo_de (m\<lparr>last_eb_nbr_addr := a\<rparr>) = tipo_de m"
  "tipo_de (m\<lparr>last_eb_nbr_addr := a, last_eb_nbr_jp := jp\<rparr>) = tipo_de m" "tipo_de (m\<lparr>tsch_packet_seqno := q\<rparr>) = tipo_de m"
  "tipo_de (m\<lparr>tsch_packet_seqno := q, m_pb := b\<rparr>) = tipo_de m" "tipo_de (tsch_set_join_priority jp m) = tipo_de m"
  "tipo_de (m\<lparr>m_dsn := d, m_dsn_init := i, m_pb := b\<rparr>) = tipo_de m"
  "tipo_de (m\<lparr>tsch_default_timing_us := us\<rparr>) = tipo_de m" "tipo_de (m\<lparr>tsch_association_count := n\<rparr>) = tipo_de m"
  "tipo_de (m\<lparr>tsch_is_pan_secured := sec\<rparr>) = tipo_de m" "tipo_de (m\<lparr>tsch_is_started := st\<rparr>) = tipo_de m"
  "tipo_de (m\<lparr>current_channel := ch, current_channel_since := si\<rparr>) = tipo_de m" "tipo_de (m\<lparr>current_channel_since := si\<rparr>) = tipo_de m"
  "tipo_de (m\<lparr>tsch_packet_seqno := q, tsch_is_initialized := ii\<rparr>) = tipo_de m"
  "tipo_de (on_slot (on_queue g) m) = tipo_de m" "tipo_de (on_slot (so_qb_update h) m) = tipo_de m"
  "tipo_de (on_slot (so_sched_update k2) m) = tipo_de m" "tipo_de (on_slot (upd_pk p g2) m) = tipo_de m"
  by (simp_all add: tipo_de_def mac_event_def on_sync_def on_slot_def tsch_set_join_priority_def)
    (simp_all add: aspecto_def)

lemma m_assoc_simps [simp]:
  "m_slot (mac_event e m) = m_slot m" "tsch_is_associated (m_slot (on_sync f m)) = associated m"
  "tsch_is_associated (m_slot (on_slot (on_queue g) m)) = associated m" "tsch_is_associated (m_slot (on_slot (so_qb_update h) m)) = associated m"
  "tsch_is_associated (m_slot (on_slot (so_sched_update k2) m)) = associated m"
  "tsch_is_associated (m_slot (on_slot (upd_pk p g2) m)) = associated m"
  "tsch_is_associated (m_slot (tsch_set_join_priority jp m)) = associated m"
  "\<not> tsch_is_associated (m_slot (m_disassociate m))"
  by (simp_all add: mac_event_def on_sync_def on_slot_def tsch_set_join_priority_def m_disassociate_def)

lemma mac_ok_dis [simp]: "mac_ok m \<Longrightarrow> mac_ok (m_disassociate m)"
  using slot_ok_dis [of "m_slot m"] by (simp add: mac_ok_def m_disassociate_def on_slot_def)

text \<open>
  An operation that leaves this alone and does not enter a network, and one that keeps the type and
  does not enter a network.
\<close>

definition quieto :: "tsch_mac \<Rightarrow> tsch_mac \<Rightarrow> bool" where
  "quieto m m' \<longleftrightarrow> tipo_de m' = tipo_de m \<and> (associated m' \<longrightarrow> associated m)"

definition mantem :: "tsch_mac \<Rightarrow> tsch_mac \<Rightarrow> bool" where
  "mantem m m' \<longleftrightarrow> (mac_ok m \<longrightarrow> mac_ok m') \<and> (associated m' \<longrightarrow> associated m)"

lemma quieto_mantem: "quieto m m' \<Longrightarrow> mantem m m'"
  by (auto simp: quieto_def mantem_def tipo_de_def mac_ok_def intro: slot_ok_aspecto)

lemma tipo_de_dis [simp]: "tipo_de (m_disassociate m) = tipo_de m"
  by (simp add: tipo_de_def m_disassociate_def on_slot_def)

lemma replay_quieto:
  assumes "\<And>f p st n m. sempre (cb f p st n m) (quieto m)"
  shows "sempre (loopM (replay_event cb) es m) (quieto m)"
proof (induction es arbitrary: m)
  case Nil
  then show ?case by (simp add: sempre_def quieto_def)
next
  case (Cons e es)
  have "sempre (replay_event cb e m) (quieto m)"
    using assms by (cases e) (auto simp: sempre_def quieto_def elim!: bind_SomeE)
  then show ?case
    using Cons.IH by (fastforce simp: sempre_def quieto_def elim!: bind_SomeE)
qed

lemma with_queue_quieto:
  assumes "\<And>f p st n m. sempre (cb f p st n m) (quieto m)"
  shows "sempre (with_queue cb f m) (\<lambda>(r, m'). quieto m m')"
  unfolding with_queue_def
  by (rule leva | rule sempre_weaken [OF replay_quieto [OF assms]] | rule sempre_any | (simp add: quieto_def; fail))+

lemma with_sched_quieto: "sempre (with_sched f m) (\<lambda>(r, m'). quieto m m')"
  unfolding with_sched_def by (rule leva | rule sempre_any | (simp add: quieto_def; fail))+

text \<open>A framer that leaves the PAN identifier alone.\<close>

lemma with_framer_quieto:
  assumes "\<And>k. sempre (f k) (\<lambda>(r, k'). mac_pan_id k' = mac_pan_id k)"
  shows "sempre (with_framer f m) (\<lambda>(r, m'). quieto m m')"
proof -
  have k: "quieto m ((on_slot (so_pan_id_update (\<lambda>_. so_pan_id (m_slot m))) m)\<lparr>m_dsn := d, m_dsn_init := i, m_pb := b\<rparr>)"
    for d i b
    by (auto simp: quieto_def on_slot_def tipo_de_def aspecto_def)
  show ?thesis
    unfolding with_framer_def by (rule sempre_bind, rule sempre_weaken [OF assms]) (auto simp: sempre_def k)
qed

lemma create_pan: "sempre (create_frame b r k) (\<lambda>(x, k'). mac_pan_id k' = mac_pan_id k)"
proof -
  have t: "sempre (take_seqno b r k) (\<lambda>k'. mac_pan_id k' = mac_pan_id k)" for k
    unfolding take_seqno_def by (rule leva | rule sempre_any | (simp; fail))+
  show ?thesis
    unfolding create_frame_def
    by (rule leva | rule sempre_weaken [OF t] | rule sempre_any | (simp; fail))+
qed

lemma framer_pan: "sempre (framer_create r k) (\<lambda>(x, k'). mac_pan_id k' = mac_pan_id k)"
  "sempre (hdr_length r k) (\<lambda>(x, k'). mac_pan_id k' = mac_pan_id k)"
  "sempre (framer_parse f k) (\<lambda>(x, k'). mac_pan_id k' = mac_pan_id k)"
proof -
  show "sempre (framer_create r k) (\<lambda>(x, k'). mac_pan_id k' = mac_pan_id k)"
    "sempre (hdr_length r k) (\<lambda>(x, k'). mac_pan_id k' = mac_pan_id k)"
    unfolding framer_create_def hdr_length_def by (rule create_pan)+
  show "sempre (framer_parse f k) (\<lambda>(x, k'). mac_pan_id k' = mac_pan_id k)"
    unfolding framer_parse_def by (rule leva | rule sempre_any | (simp; fail))+
qed

lemma create_eb_pan: "sempre (tsch_packet_create_eb ec e r k) (\<lambda>(x, l, k'). mac_pan_id k' = mac_pan_id k)"
  unfolding tsch_packet_create_eb_def
  by (rule leva | rule sempre_weaken [OF framer_pan(1)] | rule sempre_any | (simp; fail) | (simp split: sum.splits; fail))+

lemma resynchronize_quieto: "sempre (resynchronize c a m) (\<lambda>(b, m'). quieto m m')"
proof -
  have cb: "sempre ((\<lambda>_ _ _ _. Some) f p st n m) (quieto m)" for f p :: nat and st :: mac_status and n :: int and m
    by (simp add: sempre_def quieto_def)
  show ?thesis
    unfolding resynchronize_def
    by (rule leva | rule sempre_weaken [OF with_queue_quieto [OF cb]] | rule sempre_any
        | (simp add: quieto_def; fail) | (auto simp: quieto_def; fail))+
qed

lemma callback_quieto: "sempre (mac_call_sent_callback c f p st n m) (quieto m)"
proof -
  have "sempre (keepalive_packet_sent c st n m) (quieto m)"
    unfolding keepalive_packet_sent_def
    by (rule leva | rule sempre_weaken [OF resynchronize_quieto] | rule sempre_any
        | (simp add: quieto_def; fail) | (auto simp: quieto_def; fail))+
  then show ?thesis
    unfolding mac_call_sent_callback_def by (auto simp: sempre_def quieto_def)
qed

lemmas queue_quieto = with_queue_quieto [OF callback_quieto]

text \<open>The same facts in their weaker form.\<close>

lemma mantem_pair: "sempre x (\<lambda>(r, m'). quieto m m') \<Longrightarrow> sempre x (\<lambda>(r, m'). mantem m m')"
  by (auto simp: sempre_def dest: quieto_mantem)

lemmas queue_mantem = mantem_pair [OF queue_quieto]
lemmas with_framer_mantem = mantem_pair [OF with_framer_quieto]

lemma callback_mantem: "sempre (mac_call_sent_callback c f p st n m) (mantem m)"
  using callback_quieto [of c f p st n m] by (auto simp: sempre_def dest: quieto_mantem)

lemma mantem_refl: "mantem m m"
  by (simp add: mantem_def)

lemma add_packet_mantem: "sempre (add_packet c a t f p m) (\<lambda>(r, m'). mantem m m')"
  unfolding add_packet_def
  by (rule leva | rule sempre_weaken [OF queue_mantem] | rule sempre_any | (clarsimp simp: mantem_def; fail)
     | (simp add: mantem_def split: prod.splits; fail))+

lemma send_packet_mantem: "sempre (send_packet c env f p m) (mantem m)"
  unfolding send_packet_def
  by (rule leva | rule sempre_weaken [OF with_framer_mantem [OF framer_pan(1)]] | rule sempre_weaken [OF add_packet_mantem]
      | rule sempre_weaken [OF callback_mantem] | rule sempre_any | (clarsimp simp: mantem_def; fail))+

lemma keepalive_send_mantem: "sempre (keepalive_send c env m) (mantem m)"
  unfolding keepalive_send_def
  by (rule leva | rule sempre_weaken [OF send_packet_mantem] | rule sempre_any | (clarsimp simp: mantem_def; fail))+

lemma keepalive_pending_mantem: "sempre (tsch_keepalive_process_pending c env m) (mantem m)"
  unfolding tsch_keepalive_process_pending_def
  by (rule leva | rule sempre_weaken [OF keepalive_send_mantem] | rule sempre_any | (clarsimp simp: mantem_def; fail))+

lemma loop_length:
  assumes "\<And>i x. sempre (f i x) (\<lambda>y. length y = length x)"
  shows "sempre (loopM f is x) (\<lambda>y. length y = length x)"
proof (induction "is" arbitrary: x)
  case (Cons i "is")
  then show ?case using assms by (fastforce simp: sempre_def elim!: bind_SomeE)
qed (simp add: sempre_def)

lemma wr_length: "sempre (wr a i v) (\<lambda>y. length y = length a)"
  by (simp add: wr_def sempre_def)

lemma register_length: "sempre (mac_sequence_register_seqno now b rs) (\<lambda>rs'. length rs' = length rs)"
proof -
  have "sempre (do { e \<leftarrow> rd rs (j - 1); wr rs j e }) (\<lambda>y. length y = length rs)" for j and rs :: "seqno list"
    by (rule leva | rule sempre_weaken [OF wr_length] | rule sempre_any | (simp; fail))+
  note l = loop_length [of "\<lambda>j rs. do { e \<leftarrow> rd rs (j - 1); wr rs j e }", OF this]
  show ?thesis
    unfolding mac_sequence_register_seqno_def
    by (rule leva | rule sempre_weaken [OF l] | rule sempre_weaken [OF wr_length] | rule sempre_any | (simp; fail))+
qed

lemma packet_input_mantem: "sempre (packet_input c env m) (mantem m)"
proof -
  have s: "mac_ok (m\<lparr>received_seqnos := rs\<rparr>)" if "mac_ok m" "length rs = length (received_seqnos m)" for m rs
    using that by (simp add: mac_ok_def)
  show ?thesis
    unfolding packet_input_def
    by (rule leva | rule sempre_weaken [OF with_framer_mantem [OF framer_pan(3)]] | rule sempre_weaken [OF register_length]
        | rule sempre_any | (clarsimp simp: mantem_def s; fail))+
qed

lemma set_hopping_run:
  assumes "set_hopping src len s = Some s'"
  shows "\<exists>h d. s' = s\<lparr>tsch_hopping_sequence := h, tsch_hopping_sequence_length := d\<rparr> \<and> length h = length (tsch_hopping_sequence s) \<and>
    TSCH_ASN_DIVISOR_INIT (val d) = Some d \<and> val d = len \<and> unat len \<le> length (tsch_hopping_sequence s) \<and>
    take (unat len) h = take (unat len) src"
proof -
  obtain h d where *: "memcpy_at (tsch_hopping_sequence s) 0 src (unat len) = Some h" "TSCH_ASN_DIVISOR_INIT len = Some d"
    "s' = s\<lparr>tsch_hopping_sequence := h, tsch_hopping_sequence_length := d\<rparr>"
    using assms unfolding set_hopping_def by (auto elim!: bind_SomeE)
  show ?thesis
    by (rule exI [of _ h], rule exI [of _ d])
      (use * divisor_init_some [OF *(2)] in \<open>auto simp: memcpy_at_def split: if_splits\<close>)
qed

lemma eb_hopping_ok: "sempre (eb_hopping ies s) (\<lambda>s'. (slot_ok s \<longrightarrow> slot_ok s') \<and> tsch_is_associated s' = tsch_is_associated s)"
proof -
  have sh: "sempre (set_hopping src len s) (\<lambda>s'. (slot_ok s \<longrightarrow> slot_ok s') \<and> tsch_is_associated s' = tsch_is_associated s)" for src len s
    using set_hopping_run [of src len s] by (fastforce simp: sempre_def slot_ok_def)
  show ?thesis
    unfolding eb_hopping_def
    by (rule leva | rule sempre_weaken [OF sh] | rule sempre_any | (simp; fail))+
qed

lemma eb_input_mantem: "sempre (eb_input c env p m) (mantem m)"
proof -
  have s: "mantem m (k\<lparr>m_slot := s\<rparr>)"
    if "(mac_ok m \<longrightarrow> mac_ok k) \<and> (associated k \<longrightarrow> associated m)"
      "(slot_ok (m_slot k) \<longrightarrow> slot_ok s) \<and> tsch_is_associated s = associated k" for k s
    using that by (auto simp: mantem_def mac_ok_def)
  show ?thesis
    unfolding eb_input_def
    by (rule leva | rule sempre_weaken [OF eb_hopping_ok] | rule sempre_any | (rule s; auto; fail) | (clarsimp simp: mantem_def; fail))+
qed

lemma rx_one_mantem: "sempre (rx_pending_one c env i m) (mantem m)"
proof -
  have s: "mantem m (on_slot (\<lambda>s. s\<lparr>input_ringbuf := f s\<rparr>) k)" if "mantem m k" for k f
    using that by (auto simp: mantem_def mac_ok_def on_slot_def)
  show ?thesis
    unfolding rx_pending_one_def
    by (rule leva | rule sempre_weaken [OF eb_input_mantem] | rule sempre_weaken [OF packet_input_mantem] | rule sempre_any
       | (rule s; simp add: mantem_def; fail) | (clarsimp simp: mantem_def; fail))+
qed

lemma tx_one_mantem: "sempre (tx_pending_one c i m) (mantem m)"
proof -
  have s: "mantem m (on_slot (\<lambda>s. s\<lparr>dequeued_ringbuf := f s\<rparr>) k)" if "mantem m k" for k f
    using that by (auto simp: mantem_def mac_ok_def on_slot_def)
  show ?thesis
    unfolding tx_pending_one_def
    by (rule leva | rule sempre_weaken [OF callback_mantem] | rule sempre_weaken [OF queue_mantem] | rule sempre_any
       | (rule s; simp add: mantem_def; fail) | (clarsimp simp: mantem_def; fail) | (rule s; clarsimp simp: mantem_def; fail))+
qed

lemma mantem_trans: "mantem a b \<Longrightarrow> mantem b d \<Longrightarrow> mantem a d"
  by (simp add: mantem_def)

lemma rx_pending_mantem: "sempre (tsch_rx_process_pending c env m) (mantem m)"
proof (rule sempre_any, erule tsch_rx_process_pending.raw_induct [of "\<lambda>c env m m'. mantem m m'", rotated])
  fix rec c env m m'
  assume ih: "\<And>c env m m'. rec c env m = Some m' \<Longrightarrow> mantem m m'"
    and r: "(let input_index = ringbufindex_peek_get (input_ringbuf (m_slot m)) in
        if input_index \<noteq> -1 then rx_pending_one c env input_index m \<bind> rec c env else Some m) = Some m'"
  show "mantem m m'"
    using r sempreD [OF rx_one_mantem] ih mantem_trans mantem_refl
    by (fastforce simp: Let_def split: if_splits elim!: bind_SomeE)
qed

lemma tx_pending_mantem: "sempre (tsch_tx_process_pending c m) (mantem m)"
proof (rule sempre_any, erule tsch_tx_process_pending.raw_induct [of "\<lambda>c m m'. mantem m m'", rotated])
  fix rec c m m'
  assume ih: "\<And>c m m'. rec c m = Some m' \<Longrightarrow> mantem m m'"
    and r: "(let dequeued_index = ringbufindex_peek_get (dequeued_ringbuf (m_slot m)) in
        if dequeued_index \<noteq> -1 then tx_pending_one c dequeued_index m \<bind> rec c else Some m) = Some m'"
  show "mantem m m'"
    using r sempreD [OF tx_one_mantem] ih mantem_trans mantem_refl
    by (fastforce simp: Let_def split: if_splits elim!: bind_SomeE)
qed

lemma log_one_mantem: "sempre (log_pending_one i m) (mantem m)"
proof -
  have s: "mantem m (on_slot (\<lambda>s. s\<lparr>so_tlog := f s\<rparr>) k)" if "quieto m k" for k f
    using quieto_mantem [OF that] by (auto simp: mantem_def mac_ok_def on_slot_def slot_ok_def)
  show ?thesis
    unfolding log_pending_one_def
    by (rule leva | rule sempre_weaken [OF with_sched_quieto] | rule sempre_any | (clarsimp simp: s; fail))+
qed

lemma log_pending_mantem: "sempre (tsch_log_process_pending m) (mantem m)"
proof (rule sempre_any, erule tsch_log_process_pending.raw_induct [of "\<lambda>m m'. mantem m m'", rotated])
  fix rec m m'
  assume ih: "\<And>m m'. rec m = Some m' \<Longrightarrow> mantem m m'"
    and r: "(let log_index = ringbufindex_peek_get (log_ringbuf (so_tlog (m_slot m))) in
        if log_index \<noteq> -1 then log_pending_one log_index m \<bind> rec else Some m) = Some m'"
  show "mantem m m'"
    using r sempreD [OF log_one_mantem] ih mantem_trans mantem_refl
    by (fastforce simp: Let_def split: if_splits elim!: bind_SomeE)
qed

lemma pending_events_mantem: "sempre (pending_events c env m) (mantem m)" "sempre (tsch_pending_events_process c env m) (mantem m)"
proof -
  show p: "sempre (pending_events c env m) (mantem m)" for m
    unfolding pending_events_def
    by (rule leva | rule sempre_weaken [OF rx_pending_mantem] | rule sempre_weaken [OF tx_pending_mantem]
      | rule sempre_weaken [OF log_pending_mantem]
      | rule sempre_weaken [OF keepalive_pending_mantem] | (simp add: mantem_def; fail))+
  have e: "mac_ok (on_slot (\<lambda>s. s\<lparr>so_sync := y s, so_tlog := g s\<rparr>) m) = mac_ok m"
    "associated (on_slot (\<lambda>s. s\<lparr>so_sync := y s, so_tlog := g s\<rparr>) m) = associated m" for m y g
    by (simp_all add: mac_ok_def slot_ok_def on_slot_def)
  then have o: "mantem m x" if "mantem (on_slot (\<lambda>s. s\<lparr>so_sync := y s, so_tlog := g s\<rparr>) m) x" for m x y g
    using that by (simp add: mantem_def)
  show "sempre (tsch_pending_events_process c env m) (mantem m)"
    unfolding tsch_pending_events_process_def
    by (rule leva | rule sempre_weaken [OF p] | (erule o) | (simp add: mantem_refl; fail))+
qed

text \<open>Setting the timings keeps microseconds and ticks together.\<close>

definition so_tempos where
  "so_tempos s s' \<longleftrightarrow> s' = s\<lparr>tsch_timing_us := tsch_timing_us s', tsch_timing := tsch_timing s'\<rparr> \<and>
     length (tsch_timing_us s') = length (tsch_timing_us s) \<and>
     (tsch_timing s = map (\<lambda>us. US_TO_RTIMERTICKS (ucast us)) (tsch_timing_us s) \<longrightarrow>
        tsch_timing s' = map (\<lambda>us. US_TO_RTIMERTICKS (ucast us)) (tsch_timing_us s'))"

lemma set_timing_keeps: "sempre (set_timing src s) (so_tempos s)"
  unfolding set_timing_def for_upt_def
proof (rule loopM_sempre)
  fix i x assume a: "so_tempos s x"
  show "sempre (do { v \<leftarrow> rd src i; us \<leftarrow> wr (tsch_timing_us x) i v;
      ticks \<leftarrow> wr (tsch_timing x) i (US_TO_RTIMERTICKS (ucast v));
      Some (x\<lparr>tsch_timing_us := us, tsch_timing := ticks\<rparr>) }) (so_tempos s)"
  proof (rule sempre_any)
    fix y assume "do { v \<leftarrow> rd src i; us \<leftarrow> wr (tsch_timing_us x) i v;
      ticks \<leftarrow> wr (tsch_timing x) i (US_TO_RTIMERTICKS (ucast v));
      Some (x\<lparr>tsch_timing_us := us, tsch_timing := ticks\<rparr>) } = Some y"
    then obtain v where y: "y = x\<lparr>tsch_timing_us := (tsch_timing_us x)[i := v], tsch_timing := (tsch_timing x)[i := US_TO_RTIMERTICKS (ucast v)]\<rparr>"
      by (auto simp: wr_def split: if_splits elim!: bind_SomeE)
    from a obtain us ticks where x: "x = s\<lparr>tsch_timing_us := us, tsch_timing := ticks\<rparr>" unfolding so_tempos_def by blast
    show "so_tempos s y" using a unfolding y x so_tempos_def by (simp add: map_update)
  qed
next
  show "so_tempos s s" by (simp add: so_tempos_def)
qed

lemma so_tempos_slot:
  assumes "so_tempos s s'"
  shows "slot_ok s \<Longrightarrow> slot_ok s'" and "tsch_is_associated s' = tsch_is_associated s"
    and "tsch_hopping_sequence s' = tsch_hopping_sequence s" "so_pan_id s' = so_pan_id s"
proof -
  obtain us ticks where x: "s' = s\<lparr>tsch_timing_us := us, tsch_timing := ticks\<rparr>" using assms unfolding so_tempos_def by blast
  show "slot_ok s \<Longrightarrow> slot_ok s'" and "tsch_is_associated s' = tsch_is_associated s"
    and "tsch_hopping_sequence s' = tsch_hopping_sequence s" "so_pan_id s' = so_pan_id s"
    using assms unfolding x so_tempos_def by (auto simp: slot_ok_def)
qed

lemma eb_period_le: "tsch_current_eb_period (tsch_set_eb_period p m) \<le> TSCH_MAX_EB_PERIOD"
  by (simp add: tsch_set_eb_period_def)

lemma mac_ok_period: "mac_ok (tsch_set_eb_period p m) \<longleftrightarrow> slot_ok (m_slot m) \<and> length (received_seqnos m) = MAX_SEQNOS"
  using eb_period_le [of p m] by (simp add: mac_ok_def tsch_set_eb_period_def)

lemma set_coordinator_mantem: "mantem m (tsch_set_coordinator b m)"
  by (auto simp: mantem_def tsch_set_coordinator_def mac_ok_period on_slot_def Let_def) (auto simp: mac_ok_def slot_ok_def tsch_set_eb_period_def)

text \<open>Leaving a network: the PAN is set to the broadcast identifier, which the type allows outside a network.\<close>

lemma reset_ok:
  assumes "tsch_reset c env m = Some m'" and "\<not> associated m"
  shows "(mac_ok m \<longrightarrow> mac_ok m') \<and> \<not> associated m'"
proof -
  let ?P = "\<lambda>m'. (mac_ok m \<longrightarrow> mac_ok m') \<and> \<not> associated m'"
  define m0 where "m0 = on_slot (\<lambda>s. s\<lparr>so_pan_id := frame802154_set_pan_id 0xffff (so_pan_id s)\<rparr>) m"
  obtain m1 r2 m2 r3 m3 r4 m4 s where s: "(if tsch_is_started m0 then pending_events c env m0 else Some m0) = Some m1"
    "with_queue (mac_call_sent_callback c) (\<lambda>q. map_option (Pair ()) (tsch_queue_reset q)) m1 = Some (r2, m2)"
    "with_queue (mac_call_sent_callback c) (\<lambda>q. map_option (Pair ()) (tsch_queue_free_unused_neighbors q)) m2 = Some (r3, m3)"
    "with_queue (mac_call_sent_callback c) (tsch_queue_update_time_source (coordinator m3) (vic_of c m3) None) m3 = Some (r4, m4)"
    and t: "set_timing tsch_timeslot_timing_us_10000 (with_current None ((m_slot m4)\<lparr>tsch_join_priority := 0xff, tsch_current_asn := TSCH_ASN_INIT 0 0\<rparr>)) = Some s"
    and e: "m' = on_sync (keepalive_status_update (\<lambda>_. KEEPALIVE_SCHEDULING_UNCHANGED)) (tsch_set_eb_period (ucast TSCH_EB_PERIOD)
      ((mac_event Rpl_leaving ((on_slot (\<lambda>s. with_current None (s\<lparr>tsch_join_priority := 0xff, tsch_current_asn := TSCH_ASN_INIT 0 0\<rparr>)) m4)
         \<lparr>tsch_default_timing_us := tsch_timeslot_timing_us_10000, m_slot := s\<rparr>))\<lparr>last_eb_nbr_addr := linkaddr_copy linkaddr_null\<rparr>))"
    using assms(1) unfolding tsch_reset_def Let_def m0_def [symmetric] by (auto simp: on_slot_def elim!: bind_SomeE)
  have p0: "?P m0" using assms(2) by (auto simp: m0_def mac_ok_def slot_ok_def on_slot_def)
  have "?P m1" using s(1) p0 sempreD [OF pending_events_mantem(1)] by (auto simp: mantem_def split: if_splits)
  then have "?P m4"
    using sempreD [OF queue_mantem s(2)] sempreD [OF queue_mantem s(3)] sempreD [OF queue_mantem s(4)] by (auto simp: mantem_def)
  moreover note so_tempos_slot(1,2) [OF sempreD [OF set_timing_keeps t]]
  ultimately have "(mac_ok m \<longrightarrow> slot_ok s \<and> length (received_seqnos m4) = MAX_SEQNOS) \<and> \<not> tsch_is_associated s"
    by (auto simp: mac_ok_def)
  then show ?thesis
    unfolding e by (auto simp: mac_ok_period) (auto simp: mac_event_def on_sync_def on_slot_def tsch_set_eb_period_def)
qed

text \<open>The hopping sequence a node in a network has.\<close>

definition salto_ok :: "slot_state \<Rightarrow> bool" where
  "salto_ok s \<longleftrightarrow> TSCH_ASN_DIVISOR_INIT (val (tsch_hopping_sequence_length s)) = Some (tsch_hopping_sequence_length s)
     \<and> unat (val (tsch_hopping_sequence_length s)) \<le> length (tsch_hopping_sequence s)"

lemma salto_aspecto: "aspecto t = aspecto s \<Longrightarrow> salto_ok t = salto_ok s"
  by (simp add: aspecto_def salto_ok_def)

lemma set_hopping_ok:
  assumes "set_hopping src len s = Some s'"
  shows "salto_ok s'" and "slot_ok s \<Longrightarrow> slot_ok s'" and "tsch_is_associated s' = tsch_is_associated s" "so_pan_id s' = so_pan_id s"
  using set_hopping_run [OF assms] by (auto simp: salto_ok_def slot_ok_def)

lemma associa_ok:
  assumes "slot_ok s" and "salto_ok s"
  shows "slot_ok (s\<lparr>so_pan_id := IEEE802154_PANID, tsch_is_associated := True\<rparr>)"
  using assms by (simp add: slot_ok_def salto_ok_def)

lemma start_coordinator_ok:
  assumes "tsch_start_coordinator env m = Some m'" and "mac_ok m"
  shows "mac_ok m'"
proof -
  let ?p = "(m_slot m)\<lparr>so_pan_id := IEEE802154_PANID\<rparr>"
  obtain s where s: "default_hopping ?p = Some s"
    and e: "m' = m\<lparr>m_slot := tsch_slot_operation_sync (me_clock env) (me_now env) (tsch_current_asn s) (s\<lparr>tsch_is_associated := True, tsch_join_priority := 0\<rparr>)\<rparr>"
    using assms(1) unfolding tsch_start_coordinator_def
    by (auto simp: on_slot_def frame802154_set_pan_id_def elim!: bind_SomeE)
  obtain h d where "s = ?p\<lparr>tsch_hopping_sequence := h, tsch_hopping_sequence_length := d\<rparr>" "length h = length (tsch_hopping_sequence (m_slot m))"
    "TSCH_ASN_DIVISOR_INIT (val d) = Some d" "unat (val d) \<le> length (tsch_hopping_sequence (m_slot m))"
    using set_hopping_run s unfolding default_hopping_def by fastforce
  then show ?thesis
    using assms(2) unfolding e mac_ok_def by (simp add: slot_ok_def tsch_slot_operation_sync_def with_current_def)
qed

lemma sched_quieto: "sempre (with_sched f m) (\<lambda>(r, m'). quieto m m')"
  unfolding with_sched_def by (rule leva | rule sempre_any | (simp add: quieto_def; fail))+

lemma quieto_trans: "quieto a b \<Longrightarrow> quieto b d \<Longrightarrow> quieto a d"
  by (simp add: quieto_def)

lemma join_schedule_quieto: "sempre (join_schedule c ies m) (\<lambda>(r, m'). quieto m m')"
proof -
  have l: "sempre (loopM (\<lambda>i m. do {
      l \<leftarrow> rd (sl_links sl) i;
      (_, m) \<leftarrow> with_sched (tsch_schedule_add_link (vic_of c m) sf (ie_link_options l) LINK_TYPE_ADVERTISING
         (Some tsch_broadcast_address) (ie_timeslot l) (ie_channel_offset l) True) m;
      Some m }) is k) (quieto m)" if "quieto m k" for sl sf "is" k
  proof (rule loopM_sempre [where P = "quieto m"])
    show "quieto m k" by (rule that)
  next
    fix i x assume a: "quieto m x"
    show "sempre (do { l \<leftarrow> rd (sl_links sl) i;
      (_, m) \<leftarrow> with_sched (tsch_schedule_add_link (vic_of c x) sf (ie_link_options l) LINK_TYPE_ADVERTISING
         (Some tsch_broadcast_address) (ie_timeslot l) (ie_channel_offset l) True) x;
      Some m }) (quieto m)"
      by (rule leva | rule sempre_weaken [OF sched_quieto] | rule sempre_any | (use a in \<open>auto intro: quieto_trans; fail\<close>))+
  qed
  show ?thesis
    unfolding join_schedule_def for_upt_def
    by (rule leva | rule sempre_weaken [OF sched_quieto] | rule sempre_weaken [OF l]
      | (auto simp: quieto_def split: prod.splits; fail) | rule sempre_any)+
qed

lemma join_network_ok:
  assumes "join_network c env frame ts m = Some (ok, m')" and "mac_ok m" and "salto_ok (m_slot m)" and "fr_src_pid frame = IEEE802154_PANID"
  shows "mac_ok m' \<and> (ok \<longrightarrow> associated m') \<and> (associated m' \<longrightarrow> ok \<or> associated m)"
proof (cases ok)
  case False
  then consider "m' = m"
    | n where "with_queue (mac_call_sent_callback c) (tsch_queue_add_nbr (vic_of c m) (fr_src_addr frame)) m = Some (n, m')"
    using assms(1) unfolding join_network_def Let_def by (auto split: if_splits elim!: bind_SomeE)
  then have "mantem m m'"
  proof cases
    case 2
    from sempreD [OF queue_mantem this] show ?thesis by simp
  qed (simp add: mantem_refl)
  then show ?thesis using False assms(2) by (simp add: mantem_def)
next
  case True
  obtain n m1 r2 m2 off where s: "with_queue (mac_call_sent_callback c) (tsch_queue_add_nbr (vic_of c m) (fr_src_addr frame)) m = Some (n, m1)"
    "with_queue (mac_call_sent_callback c)
             (tsch_queue_update_time_source (coordinator m1) (vic_of c m1) (Some (fr_src_addr frame))) m1 = Some (r2, m2)"
    and e: "m_slot m' = (m_slot m')\<lparr>so_pan_id := IEEE802154_PANID, tsch_is_associated := True\<rparr>"
    "aspecto (m_slot m') = aspecto ((m_slot m2)\<lparr>so_pan_id := IEEE802154_PANID\<rparr>)" "tsch_is_associated (m_slot m')"
    "received_seqnos m' = received_seqnos m2" "tsch_current_eb_period m' = tsch_current_eb_period m2"
    using assms(1,4) True unfolding join_network_def
    by (auto simp: frame802154_set_pan_id_def on_slot_def on_sync_def mac_event_def tsch_slot_operation_sync_def with_current_def aspecto_def
        split: if_splits elim!: bind_SomeE)
  have "quieto m m2" using sempreD [OF queue_quieto s(1)] sempreD [OF queue_quieto s(2)] by (auto intro: quieto_trans)
  then have q: "aspecto (m_slot m2) = aspecto (m_slot m)" "received_seqnos m2 = received_seqnos m" "tsch_current_eb_period m2 = tsch_current_eb_period m"
    by (simp_all add: quieto_def tipo_de_def)
  have "slot_ok (m_slot m')"
    using e(2,3) q(1) assms(2,3) by (auto simp: aspecto_def slot_ok_def mac_ok_def salto_ok_def)
  then show ?thesis using e q assms(2) True by (simp add: mac_ok_def)
qed

lemma join_hopping_ok:
  assumes "join_hopping ies s = Some (ok, s')"
  shows "ok \<Longrightarrow> salto_ok s'" and "slot_ok s \<Longrightarrow> slot_ok s'" and "tsch_is_associated s' = tsch_is_associated s"
  using assms set_hopping_ok unfolding join_hopping_def default_hopping_def
  by (auto split: if_splits)

lemma adopt_ok:
  assumes "adopt c env frame ies ts m = Some (ok, m')" and "mac_ok m" and "\<not> associated m" and "fr_src_pid frame = IEEE802154_PANID"
  shows "mac_ok m' \<and> (associated m' \<longleftrightarrow> ok)"
proof -
  obtain src s1 okh s2 where s1: "set_timing src (m_slot m) = Some s1" and s2: "join_hopping ies s1 = Some (okh, s2)"
    and r: "(if \<not> okh then Some (False, m\<lparr>m_slot := s2\<rparr>)
       else do { (ok, m) \<leftarrow> join_schedule c ies (m\<lparr>m_slot := s2\<rparr>);
         if \<not> ok then Some (False, m) else join_network c env frame ts m }) = Some (ok, m')"
    using assms(1) unfolding adopt_def Let_def by (auto elim!: bind_SomeE)
  have m2: "mac_ok (m\<lparr>m_slot := s2\<rparr>)" "\<not> associated (m\<lparr>m_slot := s2\<rparr>)"
    using assms(2,3) so_tempos_slot [OF sempreD [OF set_timing_keeps s1]] join_hopping_ok [OF s2] by (auto simp: mac_ok_def)
  show ?thesis
  proof (cases okh)
    case True
    obtain oks m3 where j: "join_schedule c ies (m\<lparr>m_slot := s2\<rparr>) = Some (oks, m3)"
      and r3: "(if \<not> oks then Some (False, m3) else join_network c env frame ts m3) = Some (ok, m')"
      using r True by (auto elim!: bind_SomeE)
    have q: "quieto (m\<lparr>m_slot := s2\<rparr>) m3" using sempreD [OF join_schedule_quieto j] by simp
    then have m3: "mac_ok m3" "\<not> associated m3" "salto_ok (m_slot m3)"
      using m2 quieto_mantem [OF q] join_hopping_ok(1) [OF s2 True] salto_aspecto [of "m_slot m3" s2]
      by (auto simp: mantem_def quieto_def tipo_de_def)
    show ?thesis
    proof (cases oks)
      case True
      then show ?thesis using r3 join_network_ok [of c env frame ts m3 ok m'] m3 assms(4) by auto
    qed (use r3 m3 in auto)
  qed (use r m2 in auto)
qed

lemma associate_ok:
  assumes "tsch_associate c env inp ts m = Some (ok, m')" and "mac_ok m" and "\<not> associated m"
  shows "mac_ok m' \<and> (associated m' \<longleftrightarrow> ok)"
proof -
  define k where "k jp a = on_slot (\<lambda>s. s\<lparr>tsch_current_asn := a, tsch_join_priority := jp\<rparr>) m" for jp a
  have k: "mac_ok (k jp a)" "\<not> associated (k jp a)" for jp a
    using assms(2,3) by (simp_all add: k_def mac_ok_def on_slot_def)
  have "sempre (tsch_associate c env inp ts m) (\<lambda>(ok, m'). m' = m \<and> \<not> ok \<or> (\<exists>jp a. m' = k jp a \<and> \<not> ok) \<or>
    (\<exists>jp a frame ies. adopt c env frame ies ts (k jp a) = Some (ok, m') \<and> fr_src_pid frame = IEEE802154_PANID))"
    unfolding tsch_associate_def Let_def k_def [symmetric]
    by (rule leva | (simp; fail) | (blast; fail) | (rule sempre_any, clarify, blast) | (rule sempre_any, assumption) | rule sempre_any)+
  from sempreD [OF this assms(1)] consider "m' = m" "\<not> ok" | jp a where "m' = k jp a" "\<not> ok"
    | jp a frame ies where "adopt c env frame ies ts (k jp a) = Some (ok, m')" "fr_src_pid frame = IEEE802154_PANID"
    by auto
  then show ?thesis
  proof cases
    case 3
    then show ?thesis using adopt_ok k by blast
  qed (use assms(2,3) k in auto)
qed

lemma scan_ok:
  assumes "mac_ok m" and "\<not> associated m"
  shows "sempre (tsch_scan c env e m) mac_ok"
proof -
  have h: "sempre (scan_hop env m) (\<lambda>m1. mac_ok m1 \<and> \<not> associated m1)"
    using assms by (auto simp: scan_hop_def sempre_def mac_ok_def mac_event_def elim!: bind_SomeE)
  have a: "sempre (tsch_associate c env i t k) (\<lambda>(r, m'). mac_ok m')" if "mac_ok k \<and> \<not> associated k" for i t k
    using that associate_ok [of c env i t k] by (auto simp: sempre_def)
  show ?thesis
    unfolding tsch_scan_def Let_def
  proof (rule sempre_bind, rule sempre_weaken [OF h])
    fix m1 assume m1: "mac_ok m1 \<and> \<not> associated m1"
    have "sempre (if b then do { (_, m) \<leftarrow> tsch_associate c env i t (mac_event Scan_radio_on m1); Some m }
      else Some (mac_event Scan_radio_on m1)) mac_ok" for b i t
      using m1 sempreD [OF a [of "mac_event Scan_radio_on m1" i t]] by (auto simp: sempre_def elim!: bind_SomeE)
    note k = this
    show "sempre (do {
      m \<leftarrow> (if (pending_now e \<or> receiving e \<and> pending_later e) \<and> scan_len e > 0 \<and> timestamp_ok (scan_t0 e) (scan_t1 e) then do {
         (_, m) \<leftarrow> tsch_associate c env
            (Some \<lparr>payload = scan_payload e, rx_asn = tsch_current_asn (m_slot (mac_event Scan_radio_on m1)), in_len = scan_len e, in_rssi = 0,
               in_channel = 0\<rparr>) (scan_t0 e) (mac_event Scan_radio_on m1);
         Some m }
       else Some (mac_event Scan_radio_on m1));
      Some (if associated m then mac_event Scan_radio_off m else m) }) mac_ok"
      by (rule sempre_bind, rule sempre_weaken [OF k]) (simp add: sempre_def)
  qed
qed

lemma start_operation_ok:
  assumes "start_operation c nows m = Some (b, m')" and "mac_ok m"
  shows "mac_ok m'"
proof -
  obtain s where s: "tsch_slot_operation_start (mc_conf c) nows (m_slot m) = Some s" "m' = m\<lparr>m_slot := s\<rparr>"
    using assms(1) unfolding start_operation_def by (auto elim!: bind_SomeE)
  have "slot_ok s" using sempreD [OF slot_operation_aspecto(2) s(1)] slot_ok_aspecto [of s "m_slot m"] assms(2) by (simp add: mac_ok_def)
  then show ?thesis using s(2) assms(2) by (simp add: mac_ok_def)
qed

lemma join_or_wait_ok:
  assumes "join_or_wait c env e nows m = Some (b, m')" and "mac_ok m"
  shows "mac_ok m'"
proof (cases "associated m \<or> coordinator m")
  case True
  then show ?thesis
    using assms start_operation_ok start_coordinator_ok unfolding join_or_wait_def
    by (auto split: if_splits elim!: bind_SomeE)
next
  case False
  then obtain m1 where s: "tsch_scan c env e m = Some m1"
    and r: "(if associated m1 then start_operation c nows m1 else Some (False, m1)) = Some (b, m')"
    using assms(1) unfolding join_or_wait_def by (auto elim!: bind_SomeE)
  then show ?thesis using sempreD [OF scan_ok s] assms(2) False start_operation_ok by (auto split: if_splits)
qed

lemma process_ok:
  assumes "tsch_process c env e nows operating m = Some (b, m')" and "mac_ok m"
  shows "mac_ok m'"
proof -
  have st: "mac_ok x \<Longrightarrow> tsch_process_start c env e nows x = Some (b, m') \<Longrightarrow> mac_ok m'" for x
    using join_or_wait_ok [of c env e nows _ b m'] unfolding tsch_process_start_def
    by (auto simp: scan_start_def on_slot_def mac_ok_def split: if_splits)
  show ?thesis
  proof (cases operating)
    case True
    show ?thesis
    proof (cases "associated m")
      case False
      then obtain m1 where "tsch_reset c env m = Some m1" "tsch_process_start c env e nows m1 = Some (b, m')"
        using assms(1) True unfolding tsch_process_def by (auto elim!: bind_SomeE)
      then show ?thesis using reset_ok [of c env m m1] False assms(2) st by blast
    qed (use assms True in \<open>auto simp: tsch_process_def\<close>)
  qed (use assms join_or_wait_ok in \<open>auto simp: tsch_process_def\<close>)
qed

lemma send_eb_ok: "sempre (tsch_send_eb_process c env m) (\<lambda>(d, m'). mantem m m')"
proof -
  have f: "sempre ((\<lambda>k. map_option (\<lambda>(r, l, k). ((r, l), k)) (tsch_packet_create_eb ec e r k)) k)
      (\<lambda>(x, k'). mac_pan_id k' = mac_pan_id k)" for ec e r k
    using create_eb_pan [of ec e r k] by (cases "tsch_packet_create_eb ec e r k") (auto simp: sempre_def)
  have q: "sempre (queue_eb c env m) (mantem m)" for m
    unfolding queue_eb_def
  proof (rule sempre_bind, rule sempre_weaken [OF with_framer_mantem [OF f]], clarify)
    fix len lens m1
    assume a: "mantem m m1"
    have u: "mantem m x \<Longrightarrow> mantem m (on_slot (upd_pk p g) x)" for x p g
      by (simp add: mantem_def)
    have d: "sempre (do { (p, m) \<leftarrow> add_packet c tsch_eb_address 1 0 0 m1;
        (case p of None \<Rightarrow> Some m | Some p \<Rightarrow> Some (on_slot (upd_pk p g) m)) }) (mantem m)" for g
      by (rule sempre_bind, rule sempre_weaken [OF add_packet_mantem], clarify, rule sempre_option)
        (auto simp: sempre_def intro: mantem_trans [OF a] u)
    show "sempre (if len > 0 then do {
        (hdr_len, sync_offset) \<leftarrow> lens;
        (p, m) \<leftarrow> add_packet c tsch_eb_address 1 0 0 m1;
        (case p of
           None \<Rightarrow> Some m
         | Some p \<Rightarrow> Some (on_slot (upd_pk p (\<lambda>k. k\<lparr>pk_sync_offset := sync_offset, pk_header_len := hdr_len\<rparr>)) m)) }
      else Some m1) (mantem m)"
      using a d by (cases lens) (auto simp: sempre_Some sempre_None)
  qed
  show ?thesis
    unfolding tsch_send_eb_process_def
    by (rule leva | rule sempre_weaken [OF q] | rule sempre_any | (clarsimp simp: mantem_def; fail))+
qed

section \<open>The steps of a node\<close>

text \<open>
  What happens on a node once it has been initialised, one step at a time: the slot interrupt, the
  three processes, the timer of the keep-alives, and the calls of the other layers, which may fill the
  packet buffer before they send. A process step takes the flag that tells where the process waits. The
  second argument is the result of the step; it is None where the C code has no defined result.
\<close>

inductive mac_step :: "mac_conf \<Rightarrow> tsch_mac \<Rightarrow> tsch_mac option \<Rightarrow> bool" for c where
  slot: "mac_step c m (map_option (\<lambda>s. m\<lparr>m_slot := s\<rparr>) (tsch_slot_operation (mc_conf c) amb (m_slot m)))"
| pending: "mac_step c m (tsch_pending_events_process c env m)"
| main: "mac_step c m (map_option snd (tsch_process c env e nows operating m))"
| beacon: "mac_step c m (map_option snd (tsch_send_eb_process c env m))"
| keepalive: "mac_step c m (keepalive_send c env m)"
| send: "mac_step c m (send_packet c env sent pt (m\<lparr>m_pb := b\<rparr>))"
| payload: "mac_step c m (map_option snd (max_payload env r m))"
| set_coordinator: "mac_step c m (Some (tsch_set_coordinator on m))"
| set_eb_period: "mac_step c m (Some (tsch_set_eb_period p m))"
| set_join_priority: "mac_step c m (Some (tsch_set_join_priority jp m))"
| set_ka_timeout: "mac_step c m (Some (on_sync (tsch_set_ka_timeout t) m))"
| schedule: "mac_step c m (Some (on_slot (so_sched_update f) m))"
| leave: "mac_step c m (Some (m_disassociate m))"
| rpl_rank: "mac_step c m (tsch_rpl_callback_new_dio_interval t dag m)"
| rpl_parent: "mac_step c m (tsch_rpl_callback_parent_switch c new m)"

abbreviation mac_runs :: "mac_conf \<Rightarrow> tsch_mac \<Rightarrow> tsch_mac \<Rightarrow> bool" where
  "mac_runs c \<equiv> rtranclp (\<lambda>a b. mac_step c a (Some b))"

lemma map_option_SomeE: "Some y = map_option f x \<Longrightarrow> (\<And>z. x = Some z \<Longrightarrow> y = f z \<Longrightarrow> P) \<Longrightarrow> P"
  by (cases x) simp_all

lemma dio_mantem: "sempre (tsch_rpl_callback_new_dio_interval t dag m) (mantem m)"
proof -
  have p: "mantem m (tsch_set_eb_period p k)" if "mantem m k" for p k
    using that unfolding mantem_def mac_ok_period by (simp add: mac_ok_def tsch_set_eb_period_def)
  have j: "mantem m (tsch_set_join_priority jp k)" if "mantem m k" for jp k
    using that by (auto simp: mantem_def tsch_set_join_priority_def on_slot_def mac_ok_def slot_ok_def)
  show ?thesis
    unfolding tsch_rpl_callback_new_dio_interval_def Let_def
    by (rule leva | rule j | rule p | rule sempre_any | (simp add: set_coordinator_mantem mantem_refl; fail))+
qed

lemma parent_mantem: "sempre (tsch_rpl_callback_parent_switch c new m) (mantem m)"
  unfolding tsch_rpl_callback_parent_switch_def
  by (rule leva | rule sempre_weaken [OF queue_mantem] | rule sempre_any | (clarsimp simp: mantem_def; fail))+

lemma mac_step_ok:
  assumes "mac_step c m (Some m')" and "mac_ok m"
  shows "mac_ok m'"
  using assms
proof (cases rule: mac_step.cases)
  case (slot amb)
  then obtain s where s: "tsch_slot_operation (mc_conf c) amb (m_slot m) = Some s" "m' = m\<lparr>m_slot := s\<rparr>"
    by (elim map_option_SomeE) simp
  then show ?thesis
    using sempreD [OF slot_operation_aspecto(1) s(1)] slot_ok_aspecto [of s "m_slot m"] assms(2) by (auto simp: mac_ok_def)
next
  case (pending env)
  then show ?thesis using sempreD [OF pending_events_mantem(2) pending [symmetric]] assms(2) by (simp add: mantem_def)
next
  case (main env e nows operating)
  then obtain b where "tsch_process c env e nows operating m = Some (b, m')"
    by (elim map_option_SomeE) (simp add: prod_eq_iff)
  then show ?thesis using process_ok assms(2) by blast
next
  case (beacon env)
  then obtain d where "tsch_send_eb_process c env m = Some (d, m')"
    by (elim map_option_SomeE) (simp add: prod_eq_iff)
  from sempreD [OF send_eb_ok this] show ?thesis using assms(2) by (simp add: mantem_def)
next
  case (keepalive env)
  from sempreD [OF keepalive_send_mantem this [symmetric]] show ?thesis using assms(2) by (simp add: mantem_def)
next
  case (send env sent pt b)
  from sempreD [OF send_packet_mantem this [symmetric]] show ?thesis using assms(2) by (simp add: mantem_def)
next
  case (payload env r)
  have "mantem m m'" if "with_framer (hdr_length v) m = Some (x, m')" for v x
    using sempreD [OF with_framer_mantem [OF framer_pan(2)] that] by simp
  then have "mantem m m'"
    using payload
    by (elim map_option_SomeE) (auto simp: max_payload_def mantem_refl split: if_splits option.splits elim!: bind_SomeE)
  then show ?thesis using assms(2) by (simp add: mantem_def)
next
  case (set_coordinator on)
  then show ?thesis using set_coordinator_mantem [of m on] assms(2) by (simp add: mantem_def)
next
  case (rpl_rank t dag)
  then show ?thesis using sempreD [OF dio_mantem rpl_rank [symmetric]] assms(2) by (simp add: mantem_def)
next
  case (rpl_parent new)
  then show ?thesis using sempreD [OF parent_mantem rpl_parent [symmetric]] assms(2) by (simp add: mantem_def)
next
  case (set_eb_period p)
  then show ?thesis using assms(2) by (simp add: mac_ok_period) (simp add: mac_ok_def)
qed (use assms(2) in simp_all)

text \<open>In a network the type makes the hop to a channel defined.\<close>

lemma slot_ok_channel:
  assumes "slot_ok s" and "tsch_is_associated s"
  shows "tsch_calculate_channel asn off s \<noteq> None"
proof -
  let ?n = "unat (val (tsch_hopping_sequence_length s))"
  have d: "TSCH_ASN_DIVISOR_INIT (val (tsch_hopping_sequence_length s)) = Some (tsch_hopping_sequence_length s)"
    and le: "?n \<le> length (tsch_hopping_sequence s)"
    using assms by (simp_all add: slot_ok_def)
  have "0 < ?n" using divisor_init_some [OF d] by (simp add: unat_gt_0)
  then have "k mod ?n < length (tsch_hopping_sequence s)" for k using le mod_less_divisor order_less_le_trans by blast
  moreover obtain i where "TSCH_ASN_MOD asn (tsch_hopping_sequence_length s) = Some i"
    using asn_mod_run [OF d, of asn] by auto
  ultimately show ?thesis by (simp add: tsch_calculate_channel_def)
qed

lemma mac_steps_ok: "mac_runs c m m' \<Longrightarrow> mac_ok m \<Longrightarrow> mac_ok m'"
  by (induction rule: rtranclp_induct) (auto intro: mac_step_ok)

end
