(* ===== verification/Association.thy ===== *)
theory Association
  imports Mac_Facts
begin

text \<open>
  Joining a network: what tsch-associate of tsch.c does with a beacon that another node has built with
  tsch-packet-create-eb.
\<close>

section \<open>The beacon\<close>

text \<open>The structure that a beacon without a schedule is built from.\<close>

lemma eb_ies_run:
  assumes e: "eb_env_ok e" and ns: "\<not> with_slotframe_and_link c" and j: "eb_ies c e = Some j"
  shows "sl_num_slotframes (ie_tsch_slotframe_and_link j) = 0"
    and "if with_timeslot_timing c then ie_tsch_timeslot_id j = 1 \<and> ie_tsch_timeslot j = env_timing_us e
         else ie_tsch_timeslot_id j = 0"
    and "if with_hopping_sequence c then ie_channel_hopping_sequence_id j = 1 \<and> ie_hopping_sequence_len j = env_hop_len e \<and>
           take (unat (env_hop_len e)) (ie_hopping_sequence_list j) = take (unat (env_hop_len e)) (env_hop_seq e) \<and>
           length (ie_hopping_sequence_list j) = env_max_hopping e
         else ie_channel_hopping_sequence_id j = 0"
proof -
  let ?z = "zero_ies (env_max_hopping e)"
  have "for_upt 0 tsch_ts_elements_count (\<lambda>i ts. do {
            t \<leftarrow> rd (env_timing_us e) i;
            wr ts i t }) (ie_tsch_timeslot ?z) = Some (env_timing_us e @ drop tsch_ts_elements_count (ie_tsch_timeslot ?z))"
    by (rule for_upt_fill) (use e in \<open>auto simp: eb_env_ok_def zero_ies_def\<close>)
  then have t: "eb_ies_timing c e ?z = Some (if with_timeslot_timing c
      then ?z\<lparr>ie_tsch_timeslot_id := 1, ie_tsch_timeslot := env_timing_us e\<rparr> else ?z)"
    by (simp add: eb_ies_timing_def zero_ies_def)
  let ?t = "if with_timeslot_timing c then ?z\<lparr>ie_tsch_timeslot_id := 1, ie_tsch_timeslot := env_timing_us e\<rparr> else ?z"
  have l: "length (ie_hopping_sequence_list ?t) = env_max_hopping e" by (simp add: zero_ies_def)
  have m: "memcpy_at (ie_hopping_sequence_list ?t) 0 (env_hop_seq e) (unat (env_hop_len e))
      = Some (take (unat (env_hop_len e)) (env_hop_seq e) @ drop (unat (env_hop_len e)) (ie_hopping_sequence_list ?t))"
    using e l by (simp add: memcpy_at_def eb_env_ok_def)
  then have h: "eb_ies_hopping c e ?t = Some (if with_hopping_sequence c then
      ?t\<lparr>ie_channel_hopping_sequence_id := 1, ie_hopping_sequence_len := env_hop_len e,
         ie_hopping_sequence_list := take (unat (env_hop_len e)) (env_hop_seq e) @ drop (unat (env_hop_len e)) (ie_hopping_sequence_list ?t)\<rparr>
      else ?t)"
    using e l by (simp add: eb_ies_hopping_def eb_env_ok_def)
  have j': "j = (if with_hopping_sequence c then
      ?t\<lparr>ie_channel_hopping_sequence_id := 1, ie_hopping_sequence_len := env_hop_len e,
         ie_hopping_sequence_list := take (unat (env_hop_len e)) (env_hop_seq e) @ drop (unat (env_hop_len e)) (ie_hopping_sequence_list ?t)\<rparr>
      else ?t)"
    using j t h ns by (simp add: eb_ies_def eb_ies_slotframe_def)
  show "sl_num_slotframes (ie_tsch_slotframe_and_link j) = 0"
    and "if with_timeslot_timing c then ie_tsch_timeslot_id j = 1 \<and> ie_tsch_timeslot j = env_timing_us e
         else ie_tsch_timeslot_id j = 0"
    and "if with_hopping_sequence c then ie_channel_hopping_sequence_id j = 1 \<and> ie_hopping_sequence_len j = env_hop_len e \<and>
           take (unat (env_hop_len e)) (ie_hopping_sequence_list j) = take (unat (env_hop_len e)) (env_hop_seq e) \<and>
           length (ie_hopping_sequence_list j) = env_max_hopping e
         else ie_channel_hopping_sequence_id j = 0"
    using e l unfolding j' by (simp_all add: zero_ies_def eb_env_ok_def)
qed

section \<open>The timing and the hopping sequence\<close>

lemma set_timing_run:
  assumes "length src = tsch_ts_elements_count" and "length (tsch_timing_us s) = tsch_ts_elements_count"
    and "length (tsch_timing s) = tsch_ts_elements_count"
  shows "set_timing src s = Some (s\<lparr>tsch_timing_us := src, tsch_timing := map (\<lambda>us. US_TO_RTIMERTICKS (ucast us)) src\<rparr>)"
proof -
  let ?f = "\<lambda>us. US_TO_RTIMERTICKS (ucast us)"
  let ?B = "\<lambda>i s. do {
     v \<leftarrow> rd src i;
     us \<leftarrow> wr (tsch_timing_us s) i v;
     ticks \<leftarrow> wr (tsch_timing s) i (US_TO_RTIMERTICKS (ucast v));
     Some (s\<lparr>tsch_timing_us := us, tsch_timing := ticks\<rparr>) }"
  have "for_upt 0 k ?B s = Some (s\<lparr>tsch_timing_us := take k src @ drop k (tsch_timing_us s),
      tsch_timing := map ?f (take k src) @ drop k (tsch_timing s)\<rparr>)" if "k \<le> tsch_ts_elements_count" for k
    using that
  proof (induction k)
    case (Suc k)
    have d: "drop k (tsch_timing_us s) = tsch_timing_us s ! k # drop (Suc k) (tsch_timing_us s)"
      "drop k (tsch_timing s) = tsch_timing s ! k # drop (Suc k) (tsch_timing s)"
      using Suc.prems assms by (simp_all add: Cons_nth_drop_Suc)
    show ?case
      using Suc assms by (simp add: for_upt_Suc d take_Suc_conv_app_nth list_update_append)
  qed simp
  from this [of tsch_ts_elements_count] show ?thesis
    using assms by (simp add: set_timing_def)
qed

lemma memcpy_ok: "n \<le> length dst \<Longrightarrow> n \<le> length src \<Longrightarrow> memcpy_at dst 0 src n = Some (take n src @ drop n dst)"
  by (simp add: memcpy_at_def)

text \<open>
  What the beacon of another node may contain: on a node of the type, the timing and the hopping
  sequence of any beacon are read without an access outside an array, and with a defined
  result unless the beacon announces a hopping sequence of length 0, by which the code divides.
\<close>

lemma set_hopping_defined:
  assumes "unat len \<le> length (tsch_hopping_sequence s)" and "unat len \<le> length src"
  shows "set_hopping src len s = None \<longleftrightarrow> len = 0"
  using memcpy_ok [OF assms] by (simp add: set_hopping_def TSCH_ASN_DIVISOR_INIT_def)

lemma beacon_defined:
  assumes ok: "mac_ok m" and ies: "ies_ok (length TSCH_DEFAULT_HOPPING_SEQUENCE) i"
  shows "set_timing (ie_tsch_timeslot i) (m_slot m) \<noteq> None"
    and "join_hopping i (m_slot m) = None \<longleftrightarrow> ie_channel_hopping_sequence_id i \<noteq> 0 \<and> ie_hopping_sequence_len i = 0"
    and "associated m \<Longrightarrow> eb_hopping i (m_slot m) = None \<longleftrightarrow> ie_channel_hopping_sequence_id i \<noteq> 0 \<and> ie_hopping_sequence_len i = 0"
proof -
  have s: "slot_ok (m_slot m)" using ok by (simp add: mac_ok_def)
  then have l: "length (tsch_hopping_sequence (m_slot m)) = length TSCH_DEFAULT_HOPPING_SEQUENCE"
    "length (ie_hopping_sequence_list i) = length TSCH_DEFAULT_HOPPING_SEQUENCE"
    using ies by (simp_all add: slot_ok_def ies_ok_def)
  show "set_timing (ie_tsch_timeslot i) (m_slot m) \<noteq> None"
    using set_timing_run [of "ie_tsch_timeslot i" "m_slot m"] s ies by (simp add: slot_ok_def ies_ok_def)
  have n: "unat (of_nat (length TSCH_DEFAULT_HOPPING_SEQUENCE) :: u16) = length TSCH_DEFAULT_HOPPING_SEQUENCE"
    "(of_nat (length TSCH_DEFAULT_HOPPING_SEQUENCE) :: u16) \<noteq> 0"
    by (simp_all add: TSCH_DEFAULT_HOPPING_SEQUENCE_def)
  then have "default_hopping (m_slot m) \<noteq> None"
    using set_hopping_defined [of "of_nat (length TSCH_DEFAULT_HOPPING_SEQUENCE)" "m_slot m" TSCH_DEFAULT_HOPPING_SEQUENCE] l
    by (simp add: default_hopping_def)
  then show "join_hopping i (m_slot m) = None \<longleftrightarrow> ie_channel_hopping_sequence_id i \<noteq> 0 \<and> ie_hopping_sequence_len i = 0"
    using set_hopping_defined [of "ie_hopping_sequence_len i" "m_slot m" "ie_hopping_sequence_list i"] l
    by (auto simp: join_hopping_def)
  assume "associated m"
  then have v: "unat (val (tsch_hopping_sequence_length (m_slot m))) \<le> length TSCH_DEFAULT_HOPPING_SEQUENCE"
    "val (tsch_hopping_sequence_length (m_slot m)) \<noteq> 0"
    using s l(1) divisor_init_some by (auto simp: slot_ok_def)
  then show "eb_hopping i (m_slot m) = None \<longleftrightarrow> ie_channel_hopping_sequence_id i \<noteq> 0 \<and> ie_hopping_sequence_len i = 0"
    using set_hopping_defined [of "ie_hopping_sequence_len i" "m_slot m" "ie_hopping_sequence_list i"] l
    by (auto simp: eb_hopping_def same_hopping_def Let_def)
qed

text \<open>Same length and same entries up to it: the same channel in every slot.\<close>

definition mesmo_salto :: "slot_state \<Rightarrow> slot_state \<Rightarrow> bool" where
  "mesmo_salto s t \<longleftrightarrow> tsch_hopping_sequence_length s = tsch_hopping_sequence_length t \<and>
     take (unat (val (tsch_hopping_sequence_length t))) (tsch_hopping_sequence s)
       = take (unat (val (tsch_hopping_sequence_length t))) (tsch_hopping_sequence t)"

lemma mesmo_salto_channel:
  assumes "mesmo_salto s t" and "unat (val (tsch_hopping_sequence_length t)) \<le> length (tsch_hopping_sequence t)"
    and "unat (val (tsch_hopping_sequence_length t)) \<le> length (tsch_hopping_sequence s)"
    and "val (tsch_hopping_sequence_length t) \<noteq> 0"
  shows "tsch_calculate_channel asn off s = tsch_calculate_channel asn off t"
proof -
  let ?n = "unat (val (tsch_hopping_sequence_length t))"
  have n: "0 < ?n" using assms(4) by (simp add: unat_gt_0)
  have "rd (tsch_hopping_sequence s) (k mod ?n) = rd (tsch_hopping_sequence t) (k mod ?n)" for k
  proof -
    have k: "k mod ?n < ?n" using n by simp
    then have "tsch_hopping_sequence s ! (k mod ?n) = tsch_hopping_sequence t ! (k mod ?n)"
      using arg_cong [of _ _ "\<lambda>x. x ! (k mod ?n)", OF assms(1) [unfolded mesmo_salto_def, THEN conjunct2]] by simp
    then show ?thesis using k assms(2,3) by (simp add: rd_def)
  qed
  then show ?thesis using assms(1) by (simp add: tsch_calculate_channel_def mesmo_salto_def Let_def)
qed

section \<open>The time source\<close>

lemma add_nbr_log: "sempre (tsch_queue_add_nbr vic a s) (\<lambda>(r, s'). tq_log s' = tq_log s)"
  unfolding tsch_queue_add_nbr_def
  by (rule leva | rule sempre_any | (simp add: upd_nbr_def split: option.splits prod.splits; fail))+

text \<open>The neighbor is in the table and becomes the time source, which the node did not have.\<close>

lemma new_time_source:
  assumes inv: "tq_inv q" and lk: "livre (tq_lk q)" and ts: "tsch_queue_get_time_source q = None"
    and add: "tsch_queue_add_nbr vic a q = Some (Some k, q1)"
  shows "\<exists>q2. tsch_queue_update_time_source False vic2 (Some a) q1 = Some (1, q2)
    \<and> tq_log q1 = tq_log q \<and> tq_log q2 = tq_log q1 @ [Ka_timeout TSCH_KEEPALIVE_TIMEOUT, Stats_reset]
    \<and> tsch_queue_get_time_source q2 = Some k \<and> tsch_queue_get_nbr_address (Some k) q2 = Some a"
proof -
  have "tq_inv q1 \<and> livre (tq_lk q1) \<and> k \<in> set (tq_em q1) \<and> nt_addr (tq_nt q1) k = a \<and>
    (\<forall>j. j \<noteq> k \<longrightarrow> nbr_at q1 j = nbr_at q j \<and> (j \<in> set (tq_em q1) \<longrightarrow> j \<in> set (tq_em q))) \<and>
    (if tsch_queue_get_nbr a q = Some k then q1 = q else nbr_at q1 k = nbr_novo a)"
    using add_nbr_run [OF inv lk, of vic a] unfolding add option.inject prod.inject
    by (elim exE conjE, hypsubst+, unfold option.case, elim conjE, intro conjI) assumption+
  then have r: "tq_inv q1" "livre (tq_lk q1)" "k \<in> set (tq_em q1)" "nt_addr (tq_nt q1) k = a"
    "j \<noteq> k \<Longrightarrow> nbr_at q1 j = nbr_at q j \<and> (j \<in> set (tq_em q1) \<longrightarrow> j \<in> set (tq_em q))"
    "if tsch_queue_get_nbr a q = Some k then q1 = q else nbr_at q1 k = nbr_novo a" for j
    by blast+
  have none: "\<not> is_time_source (nbr_at q j)" if "j \<in> set (tq_em q)" for j
    using ts lk that by (simp add: tsch_queue_get_time_source_def tq_itens_em [OF inv] find_None_iff)
  have nk: "\<not> is_time_source (nbr_at q1 k)"
  proof (cases "tsch_queue_get_nbr a q = Some k")
    case True
    then show ?thesis using r(3,6) none by simp
  qed (use r(6) in \<open>simp add: nbr_novo_def nbr_zero_def tsch_queue_backoff_reset_def\<close>)
  then have n1: "\<not> is_time_source (nbr_at q1 j)" if "j \<in> set (tq_em q1)" for j
    using that r(5) [of j] none by (cases "j = k") auto
  then have ts1: "tsch_queue_get_time_source q1 = None"
    using r(2) by (simp add: tsch_queue_get_time_source_def tq_itens_em [OF r(1)] find_None_iff)
  have "tsch_queue_get_nbr a q1 = Some k"
    using r(2,3,4) nbr_get_iff [OF tq_invD(1) [OF r(1)]] by (simp add: tsch_queue_get_nbr_def)
  then have a1: "tsch_queue_add_nbr vic2 a q1 = Some (Some k, q1)" by (simp add: tsch_queue_add_nbr_def)
  let ?q2 = "tq_event Stats_reset (tq_event (Ka_timeout TSCH_KEEPALIVE_TIMEOUT) (upd_nbr k (is_time_source_update (\<lambda>_. True)) q1))"
  have u: "tsch_queue_update_time_source False vic2 (Some a) q1 = Some (1, ?q2)"
    using r(2) a1 ts1 by (simp add: tsch_queue_update_time_source_def Let_def)
  have it: "tq_itens ?q2 = tq_em q1" by (simp add: tq_itens_def tq_event_def upd_nbr_def tq_itens_em [OF r(1), unfolded tq_itens_def])
  have kl: "k < length (tq_nbrs q1)" using tq_invD(3) [OF r(1,3)] .
  have at: "nbr_at ?q2 j = (if j = k then (nbr_at q1 k)\<lparr>is_time_source := True\<rparr> else nbr_at q1 j)" for j
    using kl by (simp add: tq_event_def upd_nbr_def)
  have "List.find (\<lambda>j. is_time_source (nbr_at ?q2 j)) (tq_em q1) = Some k"
  proof -
    obtain i where i: "i < length (tq_em q1)" "tq_em q1 ! i = k" using r(3) by (auto simp: in_set_conv_nth)
    show ?thesis unfolding find_Some_iff
      by (rule exI [of _ i]) (use i n1 at tq_invD(4) [OF r(1)] in \<open>auto simp: nth_eq_iff_index_eq\<close>)
  qed
  then have "tsch_queue_get_time_source ?q2 = Some k"
    using r(2) it by (simp add: tsch_queue_get_time_source_def tq_event_def upd_nbr_def)
  moreover have "tsch_queue_get_nbr_address (Some k) ?q2 = Some a"
    using r(4) by (simp add: tsch_queue_get_nbr_address_def nbr_table_get_lladdr_def tq_event_def upd_nbr_def)
  moreover have "tq_log ?q2 = tq_log q1 @ [Ka_timeout TSCH_KEEPALIVE_TIMEOUT, Stats_reset]" by (simp add: tq_event_def upd_nbr_def)
  moreover have "tq_log q1 = tq_log q" using sempreD [OF add_nbr_log add] by simp
  ultimately show ?thesis using u by blast
qed

section \<open>Joining\<close>

definition igual_rede :: "slot_state \<Rightarrow> slot_state \<Rightarrow> bool" where
  "igual_rede s t \<longleftrightarrow> tsch_timing_us s = tsch_timing_us t \<and> tsch_hopping_sequence s = tsch_hopping_sequence t
     \<and> tsch_hopping_sequence_length s = tsch_hopping_sequence_length t \<and> tsch_current_asn s = tsch_current_asn t
     \<and> tsch_join_priority s = tsch_join_priority t"

lemma join_network_run:
  assumes "tsch_join_priority (m_slot m) < TSCH_MAX_JOIN_PRIORITY" and "\<not> coordinator m"
    and "tq_inv (m_queue m)" and "livre (tq_lk (m_queue m))" and "tsch_queue_get_time_source (m_queue m) = None"
    and "tsch_queue_add_nbr (vic_of c m) (fr_src_addr f) (m_queue m) = Some (Some k, q1)"
    and "length (tsch_timing (m_slot m)) = tsch_ts_elements_count"
  shows "\<exists>m'. join_network c env f ts m = Some (True, m') \<and> igual_rede (m_slot m') (m_slot m) \<and>
     tsch_queue_get_nbr_address (tsch_queue_get_time_source (m_queue m')) (m_queue m') = Some (fr_src_addr f)"
proof -
  let ?a = "fr_src_addr f"
  note nt = new_time_source [OF assms(3-6)]
  let ?m1 = "on_slot (on_queue (\<lambda>_. q1)) m"
  obtain q2 where q2: "tsch_queue_update_time_source False (vic_of c ?m1) (Some ?a) q1 = Some (1, q2)"
    "tq_log q1 = tq_log (m_queue m)" "tq_log q2 = tq_log q1 @ [Ka_timeout TSCH_KEEPALIVE_TIMEOUT, Stats_reset]"
    "tsch_queue_get_time_source q2 = Some k" "tsch_queue_get_nbr_address (Some k) q2 = Some ?a"
    using nt [of "vic_of c ?m1"] by blast
  have w1: "with_queue (mac_call_sent_callback c) (tsch_queue_add_nbr (vic_of c m) ?a) m = Some (Some k, ?m1)"
    using assms(6) q2(2) by (simp add: with_queue_def)
  have c1: "coordinator ?m1 = False" "m_queue ?m1 = q1" using assms(2) by (simp_all add: on_slot_def on_queue_def)
  let ?m2 = "on_sync (tsch_set_ka_timeout TSCH_KEEPALIVE_TIMEOUT) (on_slot (on_queue (\<lambda>_. q2)) ?m1)"
  have w2: "with_queue (mac_call_sent_callback c)
     (tsch_queue_update_time_source (coordinator ?m1) (vic_of c ?m1) (Some ?a)) ?m1 = Some (1, ?m2)"
    unfolding c1(1) with_queue_def c1(2) by (simp add: q2(1,3))
  have t2: "length (tsch_timing (m_slot ?m2)) = tsch_ts_elements_count"
    using assms(7) by (simp add: on_sync_def on_slot_def on_queue_def)
  show ?thesis
    unfolding join_network_def if_P [OF assms(1)] w1 bind.bind_lunit prod.case option.distinct if_False w2
    using t2 q2(4,5)
    by (simp add: rd_def igual_rede_def on_sync_def on_slot_def on_queue_def mac_event_def tsch_slot_operation_sync_def
        with_current_def tsch_ts_elements_count_def tsch_ts_tx_offset_def)
qed

text \<open>What the beacon says of the timing and of the hopping sequence, with the defaults.\<close>

definition eb_timing :: "ieee802154_ies \<Rightarrow> tsch_mac \<Rightarrow> u16 list" where
  "eb_timing ies m = (if ie_tsch_timeslot_id ies = 0 then tsch_default_timing_us m else ie_tsch_timeslot ies)"

definition eb_hops :: "ieee802154_ies \<Rightarrow> u8 list \<times> u16" where
  "eb_hops ies = (if ie_channel_hopping_sequence_id ies = 0
     then (TSCH_DEFAULT_HOPPING_SEQUENCE, of_nat (length TSCH_DEFAULT_HOPPING_SEQUENCE))
     else (ie_hopping_sequence_list ies, ie_hopping_sequence_len ies))"

lemma join_hopping_run:
  assumes "eb_hops ies = (src, len)" and "len \<noteq> 0" and "unat len \<le> length src" and "unat len \<le> length (tsch_hopping_sequence s)"
  shows "\<exists>d. join_hopping ies s = Some (True, s\<lparr>tsch_hopping_sequence := take (unat len) src @ drop (unat len) (tsch_hopping_sequence s),
     tsch_hopping_sequence_length := d\<rparr>) \<and> TSCH_ASN_DIVISOR_INIT len = Some d"
proof -
  obtain d where d: "TSCH_ASN_DIVISOR_INIT len = Some d"
    using assms(2) by (auto simp: TSCH_ASN_DIVISOR_INIT_def)
  have "set_hopping src len s = Some (s\<lparr>tsch_hopping_sequence := take (unat len) src @ drop (unat len) (tsch_hopping_sequence s),
     tsch_hopping_sequence_length := d\<rparr>)"
    using assms(3,4) d by (simp add: set_hopping_def memcpy_at_def)
  then show ?thesis
    using assms(1,4) d by (auto simp: join_hopping_def eb_hops_def default_hopping_def split: if_splits)
qed

lemma adopt_run:
  assumes jp: "tsch_join_priority (m_slot m) < TSCH_MAX_JOIN_PRIORITY" and co: "\<not> coordinator m"
    and q: "tq_inv (m_queue m)" "livre (tq_lk (m_queue m))" "tsch_queue_get_time_source (m_queue m) = None"
    and add: "tsch_queue_add_nbr (vic_of c m) (fr_src_addr f) (m_queue m) = Some (Some k, q1)"
    and ok: "slot_ok (m_slot m)" and nl: "sl_num_slotframes (ie_tsch_slotframe_and_link ies) = 0"
    and t: "length (eb_timing ies m) = tsch_ts_elements_count"
    and h: "eb_hops ies = (src, len)" "len \<noteq> 0" "unat len \<le> length src" "unat len \<le> length (tsch_hopping_sequence (m_slot m))"
  shows "\<exists>m' d. adopt c env f ies ts m = Some (True, m')
    \<and> TSCH_ASN_DIVISOR_INIT len = Some d \<and> tsch_hopping_sequence_length (m_slot m') = d
    \<and> take (unat len) (tsch_hopping_sequence (m_slot m')) = take (unat len) src
    \<and> unat len \<le> length (tsch_hopping_sequence (m_slot m'))
    \<and> tsch_timing_us (m_slot m') = eb_timing ies m
    \<and> tsch_current_asn (m_slot m') = tsch_current_asn (m_slot m) \<and> tsch_join_priority (m_slot m') = tsch_join_priority (m_slot m)
    \<and> tsch_queue_get_nbr_address (tsch_queue_get_time_source (m_queue m')) (m_queue m') = Some (fr_src_addr f)"
proof -
  let ?s1 = "(m_slot m)\<lparr>tsch_timing_us := eb_timing ies m, tsch_timing := map (\<lambda>us. US_TO_RTIMERTICKS (ucast us)) (eb_timing ies m)\<rparr>"
  have s1: "set_timing (eb_timing ies m) (m_slot m) = Some ?s1"
    by (rule set_timing_run [OF t]) (use ok in \<open>simp_all add: slot_ok_def\<close>)
  obtain d where d: "join_hopping ies ?s1 = Some (True, ?s1\<lparr>tsch_hopping_sequence := take (unat len) src @ drop (unat len) (tsch_hopping_sequence ?s1),
     tsch_hopping_sequence_length := d\<rparr>)" "TSCH_ASN_DIVISOR_INIT len = Some d"
    using join_hopping_run [OF h(1,2,3), of ?s1] h(4) by auto
  let ?m2 = "m\<lparr>m_slot := ?s1\<lparr>tsch_hopping_sequence := take (unat len) src @ drop (unat len) (tsch_hopping_sequence ?s1),
     tsch_hopping_sequence_length := d\<rparr>\<rparr>"
  have "vic_of c ?m2 = vic_of c m" by (simp add: vic_of_def)
  then obtain m' where m': "join_network c env f ts ?m2 = Some (True, m')" "igual_rede (m_slot m') (m_slot ?m2)"
     "tsch_queue_get_nbr_address (tsch_queue_get_time_source (m_queue m')) (m_queue m') = Some (fr_src_addr f)"
    using join_network_run [of ?m2 c f k q1 env ts] jp co q add t by auto
  have "adopt c env f ies ts m = Some (True, m')"
    unfolding adopt_def eb_timing_def [symmetric] s1 bind.bind_lunit d(1) prod.case
    using nl m'(1) by (simp add: join_schedule_def)
  then show ?thesis
    using m'(2,3) d(2) h(3,4) by (intro exI [of _ m'] exI [of _ d]) (simp add: igual_rede_def)
qed

lemma associate_run:
  assumes p: "tsch_packet_parse_eb (with_sixtop (mc_conf c)) (max_hopping (mc_conf c))
        (payload inp) (in_len inp) (me_frame env) (Some (me_ies env)) (Some (me_hdrlen env)) = Some (n, f, Some ies, hl)"
    and n: "n \<noteq> 0" and sec: "security_enabled (fr_fcf f) = 0" and pid: "fr_src_pid f = IEEE802154_PANID"
    and jp: "ie_join_priority ies + 1 < TSCH_MAX_JOIN_PRIORITY" "ie_join_priority ies \<noteq> 0xff" and co: "\<not> coordinator m"
    and q: "tq_inv (m_queue m)" "livre (tq_lk (m_queue m))" "tsch_queue_get_time_source (m_queue m) = None"
    and add: "tsch_queue_add_nbr (vic_of c m) (fr_src_addr f) (m_queue m) = Some (Some k, q1)"
    and ok: "mac_ok m" "\<not> associated m" and nl: "sl_num_slotframes (ie_tsch_slotframe_and_link ies) = 0"
    and t: "length (eb_timing ies m) = tsch_ts_elements_count"
    and h: "eb_hops ies = (src, len)" "len \<noteq> 0" "unat len \<le> length src" "unat len \<le> length (tsch_hopping_sequence (m_slot m))"
  shows "\<exists>m' d. tsch_associate c env (Some inp) ts m = Some (True, m') \<and> mac_ok m' \<and> associated m'
    \<and> TSCH_ASN_DIVISOR_INIT len = Some d \<and> tsch_hopping_sequence_length (m_slot m') = d
    \<and> take (unat len) (tsch_hopping_sequence (m_slot m')) = take (unat len) src
    \<and> unat len \<le> length (tsch_hopping_sequence (m_slot m'))
    \<and> tsch_timing_us (m_slot m') = eb_timing ies m
    \<and> tsch_current_asn (m_slot m') = ie_asn ies \<and> tsch_join_priority (m_slot m') = ie_join_priority ies + 1
    \<and> tsch_queue_get_nbr_address (tsch_queue_get_time_source (m_queue m')) (m_queue m') = Some (fr_src_addr f)"
proof -
  let ?m = "on_slot (\<lambda>s. s\<lparr>tsch_current_asn := ie_asn ies, tsch_join_priority := ie_join_priority ies + 1\<rparr>) m"
  have e: "eb_timing ies ?m = eb_timing ies m" "vic_of c ?m = vic_of c m" by (simp_all add: eb_timing_def on_slot_def vic_of_def)
  have "slot_ok (m_slot ?m)" using ok(1) by (simp add: on_slot_def mac_ok_def)
  with adopt_run [of ?m c f k q1 ies src len env ts] obtain m' d where a: "adopt c env f ies ts ?m = Some (True, m')"
    and r: "TSCH_ASN_DIVISOR_INIT len = Some d \<and> tsch_hopping_sequence_length (m_slot m') = d
    \<and> take (unat len) (tsch_hopping_sequence (m_slot m')) = take (unat len) src
    \<and> unat len \<le> length (tsch_hopping_sequence (m_slot m'))
    \<and> tsch_timing_us (m_slot m') = eb_timing ies m
    \<and> tsch_current_asn (m_slot m') = ie_asn ies \<and> tsch_join_priority (m_slot m') = ie_join_priority ies + 1
    \<and> tsch_queue_get_nbr_address (tsch_queue_get_time_source (m_queue m')) (m_queue m') = Some (fr_src_addr f)"
    using jp(1) co q add nl t h unfolding e by (auto simp: on_slot_def)
  have s: "tsch_associate c env (Some inp) ts m = Some (True, m')"
    using n sec pid jp(2) a by (simp add: tsch_associate_def p Let_def)
  then show ?thesis using r associate_ok [OF s ok] by blast
qed

text \<open>
  A node in a network builds a beacon, without a schedule; another one joins from it. What the beacon
  does not carry must be the defaults of both.
\<close>

lemma joins_from_beacon:
  assumes hop: "max_hopping (mc_conf conf0) = length TSCH_DEFAULT_HOPPING_SEQUENCE" "max_hopping (mc_conf c) = length TSCH_DEFAULT_HOPPING_SEQUENCE"
    and sender: "mac_ok mac0" "associated mac0" "length (linkaddr_node_addr (m_sched mac0)) = 8"
    and k: "mac_pan_id k = so_pan_id (m_slot mac0)" "length (pb_mem (pb k)) = PACKETBUF_SIZE"
    and eb: "\<not> with_slotframe_and_link (mc_eb conf0)"
      "with_hopping_sequence (mc_eb conf0) \<or> tsch_hopping_sequence (m_slot mac0) = TSCH_DEFAULT_HOPPING_SEQUENCE \<and>
         val (tsch_hopping_sequence_length (m_slot mac0)) = of_nat (length TSCH_DEFAULT_HOPPING_SEQUENCE)"
      "with_timeslot_timing (mc_eb conf0) \<or> tsch_timing_us (m_slot mac0) = tsch_default_timing_us m"
    and jp: "jp < 31"
    and receiver: "mac_ok m" "\<not> associated m" "\<not> coordinator m"
    and q: "tq_inv (m_queue m)" "livre (tq_lk (m_queue m))" "tsch_queue_get_time_source (m_queue m) = None"
    and add: "tsch_queue_add_nbr (vic_of c m) (linkaddr_node_addr (m_sched mac0)) (m_queue m) = Some (Some p, q1)"
    and fr: "length (fr_dest_addr (me_frame env)) = 8" "length (fr_src_addr (me_frame env)) = 8" "4 \<le> length slack"
  shows "\<exists>len k' bs m'. tsch_packet_create_eb (mc_eb conf0) (eb_env_of conf0 mac0) r k = Some (int len, Some (16, 18), k')
    \<and> tsch_packet_update_eb asn jp ies (take len (pb_mem (pb k'))) (int len) 18 = Some (True, bs)
    \<and> tsch_associate c env (Some \<lparr>payload = bs @ slack, rx_asn = ra, in_len = int len, in_rssi = rs, in_channel = ch\<rparr>) ts m
        = Some (True, m')
    \<and> mac_ok m' \<and> associated m' \<and> so_pan_id (m_slot m') = so_pan_id (m_slot mac0)
    \<and> tsch_current_asn (m_slot m') = asn \<and> tsch_join_priority (m_slot m') = jp + 1
    \<and> tsch_queue_get_nbr_address (tsch_queue_get_time_source (m_queue m')) (m_queue m') = Some (linkaddr_node_addr (m_sched mac0))
    \<and> tsch_timing (m_slot m') = tsch_timing (m_slot mac0)
    \<and> (\<forall>a off. tsch_calculate_channel a off (m_slot m') = tsch_calculate_channel a off (m_slot mac0))"
proof -
  let ?e = "eb_env_of conf0 mac0" and ?s0 = "m_slot mac0"
  let ?H = "tsch_hopping_sequence ?s0" and ?L = "val (tsch_hopping_sequence_length ?s0)"
  have so: "slot_ok ?s0" "slot_ok (m_slot m)" using sender(1) receiver(1) by (simp_all add: mac_ok_def)
  have d0: "TSCH_ASN_DIVISOR_INIT ?L = Some (tsch_hopping_sequence_length ?s0)" "unat ?L \<le> length ?H" "so_pan_id ?s0 = IEEE802154_PANID"
    and l0: "length ?H = length TSCH_DEFAULT_HOPPING_SEQUENCE" "length (tsch_timing_us ?s0) = tsch_ts_elements_count"
    using so(1) sender(2) by (simp_all add: slot_ok_def)
  have L0: "?L \<noteq> 0" using divisor_init_some [OF d0(1)] by simp
  have "eb_env_ok ?e"
    using l0 d0(2) hop(1) sender(3) by (simp add: eb_env_ok_def eb_env_of_def TSCH_DEFAULT_HOPPING_SEQUENCE_def)
  note ok = this
  have pan: "mac_pan_id k \<noteq> 0xffff" using k(1) d0(3) by (simp add: IEEE802154_PANID_def)
  obtain j len k' bs f where b: "eb_ies (mc_eb conf0) ?e = Some j"
    "tsch_packet_create_eb (mc_eb conf0) ?e r k = Some (int len, Some (16, 18), k')"
    "tsch_packet_update_eb asn jp ies (take len (pb_mem (pb k'))) (int len) 18 = Some (True, bs)"
    "tsch_packet_parse_eb (with_sixtop (mc_conf c)) (env_max_hopping ?e) (bs @ slack) (int len) (me_frame env) (Some (me_ies env)) (Some (me_hdrlen env))
       = Some (int len, f, Some (j\<lparr>ie_payload_ie_offset := 2, ie_asn := asn, ie_join_priority := jp\<rparr>), Some 16)"
    "fr_src_addr f = env_node_addr ?e" "fr_src_pid f = mac_pan_id k" "security_enabled (fr_fcf f) = 0" "0 < len"
    using eb_received [OF ok k(2) pan fr, of "mc_eb conf0" r asn jp ies "with_sixtop (mc_conf c)" "me_ies env" "me_hdrlen env"] by blast
  note js = eb_ies_run [OF ok eb(1) b(1)]
  let ?j = "j\<lparr>ie_payload_ie_offset := 2, ie_asn := asn, ie_join_priority := jp\<rparr>"
  let ?inp = "\<lparr>payload = bs @ slack, rx_asn = ra, in_len = int len, in_rssi = rs, in_channel = ch\<rparr>"
  have me: "env_max_hopping ?e = max_hopping (mc_conf c)" "env_node_addr ?e = linkaddr_node_addr (m_sched mac0)"
    "env_timing_us ?e = tsch_timing_us ?s0" "env_hop_seq ?e = ?H" "env_hop_len ?e = ?L"
    using hop by (simp_all add: eb_env_of_def)
  have ti: "eb_timing ?j m = tsch_timing_us ?s0"
    using js(2) eb(3) me(3) by (auto simp: eb_timing_def split: if_splits)
  obtain src where src: "eb_hops ?j = (src, ?L)" "unat ?L \<le> length src" "take (unat ?L) src = take (unat ?L) ?H"
    using js(3) eb(2) me(4,5) d0(2) l0(1) hop(2) me(1) by (auto simp: eb_hops_def split: if_splits)
  have jp1: "jp + 1 < TSCH_MAX_JOIN_PRIORITY" "jp \<noteq> 0xff"
    using jp unfolding TSCH_MAX_JOIN_PRIORITY_def by unat_arith+
  obtain m' d where m': "tsch_associate c env (Some ?inp) ts m = Some (True, m')" "mac_ok m'" "associated m'"
    and rest: "TSCH_ASN_DIVISOR_INIT ?L = Some d" "tsch_hopping_sequence_length (m_slot m') = d"
    "take (unat ?L) (tsch_hopping_sequence (m_slot m')) = take (unat ?L) src"
    "unat ?L \<le> length (tsch_hopping_sequence (m_slot m'))"
    "tsch_timing_us (m_slot m') = tsch_timing_us ?s0"
    "tsch_current_asn (m_slot m') = asn" "tsch_join_priority (m_slot m') = jp + 1"
    "tsch_queue_get_nbr_address (tsch_queue_get_time_source (m_queue m')) (m_queue m') = Some (linkaddr_node_addr (m_sched mac0))"
    using associate_run [of c ?inp env "int len" f ?j "Some 16" m p q1 src ?L ts] b me k(1) d0(2,3) jp1 receiver q add ti l0 src L0 js(1) so(2)
    by (auto simp: slot_ok_def)
  have "mesmo_salto (m_slot m') ?s0"
    using rest(1-3) src(3) d0(1) by (simp add: mesmo_salto_def)
  then have ch: "tsch_calculate_channel a off (m_slot m') = tsch_calculate_channel a off ?s0" for a off
    using mesmo_salto_channel d0(2) rest(4) L0 by blast
  have "slot_ok (m_slot m')" using m'(2) by (simp add: mac_ok_def)
  then have "tsch_timing (m_slot m') = tsch_timing ?s0" "so_pan_id (m_slot m') = so_pan_id ?s0"
    using so(1) rest(5) m'(3) d0(3) by (auto simp: slot_ok_def)
  then show ?thesis using b(2,3) m' rest(6-8) ch by blast
qed

end
