(* ===== verification/Log_Facts.thy ===== *)
theory Log_Facts
  imports Mac_Facts
begin

text \<open>
  Facts about the log: what the main program makes of its entries, what a slot adds to it, and that
  together they make the sender of a frame heard a neighbor of the node.
\<close>

section \<open>Reading the log\<close>

text \<open>The main program evaluates the entries in their order and empties the log.\<close>

lemma log_process_run:
  assumes "log_ok (so_tlog (m_slot m))" and "entradas (so_tlog (m_slot m)) = es" and "loopM log_evaluate es (m_sched m) = Some h"
  shows "\<exists>g. tsch_log_process_pending m = Some (on_slot (\<lambda>s. s\<lparr>so_sched := h, so_tlog := g\<rparr>) m) \<and> log_ok g \<and> entradas g = []"
  using assms
proof (induction es arbitrary: m)
  case Nil
  let ?g = "so_tlog (m_slot m)"
  have "rb_els (log_ringbuf ?g) = []" using Nil.prems(2) by (simp add: entradas_def rbi.conteudo_def)
  then have "ringbufindex_peek_get (log_ringbuf ?g) = -1" using rbi.empty Nil.prems(1) by (simp add: log_ok_def)
  then have "tsch_log_process_pending m = Some m" by (subst tsch_log_process_pending.simps) simp
  moreover have "m = on_slot (\<lambda>s. s\<lparr>so_sched := h, so_tlog := ?g\<rparr>) m" using Nil.prems(3) by (simp add: on_slot_def)
  ultimately show ?case using Nil.prems(1,2) by auto
next
  case (Cons e es)
  let ?g = "so_tlog (m_slot m)" and ?r = "log_ringbuf (so_tlog (m_slot m))"
  have r: "rb_ok ?r" "rb_sz ?r = TSCH_LOG_QUEUE_LEN" "length (log_array ?g) = TSCH_LOG_QUEUE_LEN" using Cons.prems(1) by (simp_all add: log_ok_def)
  obtain i "is" where i: "rb_els ?r = i # is" using Cons.prems(2) by (cases "rb_els ?r") (auto simp: entradas_def rbi.conteudo_def)
  have f: "ringbufindex_peek_get ?r = int i" "rb_ok (snd (ringbufindex_get ?r))" "rb_sz (snd (ringbufindex_get ?r)) = rb_sz ?r"
    using rbi.front [OF r(1) i] by auto
  have il: "i < TSCH_LOG_QUEUE_LEN" using rbi.els_ok [OF r(1)] i r(2) by auto
  have c: "log_array ?g ! i = e" "rbi.conteudo (log_array ?g) (snd (ringbufindex_get ?r)) = es"
    using rbi.read_get [OF r(1), of "log_array ?g" e es] Cons.prems(2) f(1) by (simp_all add: entradas_def)
  obtain h1 where h1: "log_evaluate e (m_sched m) = Some h1" "loopM log_evaluate es h1 = Some h"
    using Cons.prems(3) by (auto elim!: bind_SomeE)
  let ?g1 = "?g\<lparr>log_ringbuf := snd (ringbufindex_get ?r)\<rparr>"
  let ?m1 = "on_slot (\<lambda>s. s\<lparr>so_sched := h1, so_tlog := ?g1\<rparr>) m"
  have one: "log_pending_one (int i) m = Some ?m1"
    using h1(1) c(1) il r(3) by (simp add: log_pending_one_def rdi_def with_sched_def on_slot_def)
  have "log_ok (so_tlog (m_slot ?m1))" "entradas (so_tlog (m_slot ?m1)) = es" "m_sched ?m1 = h1"
    using f(2,3) r c(2) by (simp_all add: on_slot_def log_ok_def entradas_def)
  then obtain g where g: "tsch_log_process_pending ?m1 = Some (on_slot (\<lambda>s. s\<lparr>so_sched := h, so_tlog := g\<rparr>) ?m1)" "log_ok g" "entradas g = []"
    using Cons.IH [of ?m1] h1(2) by auto
  have "tsch_log_process_pending m = tsch_log_process_pending ?m1"
    by (subst tsch_log_process_pending.simps) (simp add: f(1) one)
  moreover have "on_slot (\<lambda>s. s\<lparr>so_sched := h, so_tlog := g\<rparr>) ?m1 = on_slot (\<lambda>s. s\<lparr>so_sched := h, so_tlog := g\<rparr>) m"
    by (simp add: on_slot_def)
  ultimately show ?case using g by auto
qed

text \<open>Messages are passed over.\<close>

definition so_msgs :: "tsch_log_t list \<Rightarrow> bool" where
  "so_msgs es \<longleftrightarrow> (\<forall>e \<in> set es. lg_body e = tsch_log_message)"

lemma evaluate_msgs: "so_msgs es \<Longrightarrow> loopM log_evaluate es h = Some h"
  by (induction es) (simp_all add: so_msgs_def log_evaluate_def)

section \<open>Writing into the log\<close>

text \<open>At most n messages were added, and nothing else.\<close>

definition com_msgs :: "nat \<Rightarrow> tsch_log \<Rightarrow> tsch_log \<Rightarrow> bool" where
  "com_msgs n g g' \<longleftrightarrow> (log_ok g \<and> log_active g \<longrightarrow> log_ok g' \<and> log_active g' \<and>
     (\<exists>es. so_msgs es \<and> length es \<le> n \<and> entradas g' = entradas g @ es))"

lemma com_msgs_refl [simp]: "com_msgs n g g"
  by (auto simp: com_msgs_def so_msgs_def intro: exI [of _ "[]"])

lemma com_msgs_trans:
  assumes "com_msgs a g h" and "com_msgs b h k"
  shows "com_msgs (a + b) g k"
  unfolding com_msgs_def
proof
  assume g: "log_ok g \<and> log_active g"
  obtain es where h: "log_ok h \<and> log_active h" "so_msgs es" "length es \<le> a" "entradas h = entradas g @ es"
    using assms(1) g unfolding com_msgs_def by blast
  obtain fs where k: "log_ok k \<and> log_active k" "so_msgs fs" "length fs \<le> b" "entradas k = entradas h @ fs"
    using assms(2) h(1) unfolding com_msgs_def by blast
  show "log_ok k \<and> log_active k \<and> (\<exists>es. so_msgs es \<and> length es \<le> a + b \<and> entradas k = entradas g @ es)"
    using h k by (auto simp: so_msgs_def intro!: exI [of _ "es @ fs"])
qed

lemma com_msgs_add: "com_msgs (Suc n) (so_tlog s) (so_tlog (log_add tsch_log_message s))"
  unfolding com_msgs_def
proof
  assume a: "log_ok (so_tlog s) \<and> log_active (so_tlog s)"
  let ?e = "\<lparr>lg_body = tsch_log_message, lg_asn = tsch_current_asn s, lg_link = current_link (so_sched s),
     lg_burst_count = word_of_int (tsch_current_burst_count s), lg_channel = tsch_current_channel s,
     lg_channel_offset = tsch_current_channel_offset s\<rparr>"
  have l: "so_tlog (log_add tsch_log_message s) = TSCH_LOG_ADD ?e (so_tlog s)" by (simp add: log_add_def)
  show "log_ok (so_tlog (log_add tsch_log_message s)) \<and> log_active (so_tlog (log_add tsch_log_message s)) \<and>
    (\<exists>es. so_msgs es \<and> length es \<le> Suc n \<and> entradas (so_tlog (log_add tsch_log_message s)) = entradas (so_tlog s) @ es)"
    unfolding l using log_add_run [of "so_tlog s" ?e] a
    by (cases "log_cheio (so_tlog s)") (auto simp: so_msgs_def intro: exI [of _ "[]"] exI [of _ "[?e]"])
qed

lemma log_cheio_iff: "log_ok g \<Longrightarrow> log_cheio g \<longleftrightarrow> length (entradas g) + 1 = TSCH_LOG_QUEUE_LEN"
proof -
  assume g: "log_ok g"
  then have r: "rb_ok (log_ringbuf g)" "rb_sz (log_ringbuf g) = TSCH_LOG_QUEUE_LEN" by (simp_all add: log_ok_def)
  have l: "length (rb_els (log_ringbuf g)) < TSCH_LOG_QUEUE_LEN" using rbi.els_ok [OF r(1)] r(2) by simp
  have e: "length (entradas g) = length (rb_els (log_ringbuf g))" by (simp add: entradas_def rbi.conteudo_def)
  show ?thesis
  proof (cases "length (rb_els (log_ringbuf g)) + 1 = rb_sz (log_ringbuf g)")
    case True
    then show ?thesis using rbi.full [OF r(1)] r(2) e by (simp add: log_cheio_def)
  next
    case False
    then have "length (rb_els (log_ringbuf g)) + 1 < rb_sz (log_ringbuf g)" using l r(2) by simp
    from rbi.room [OF r(1) this] show ?thesis using False r(2) e by (auto simp: log_cheio_def)
  qed
qed

lemma com_msgs_mono: "com_msgs a g h \<Longrightarrow> a \<le> b \<Longrightarrow> com_msgs b g h"
  unfolding com_msgs_def using le_trans by blast

lemma wait_msgs: "com_msgs 1 (so_tlog s) (so_tlog (wait_until env i r off s))"
  using com_msgs_add [of 0 "event (Wake r off) s"] by (simp add: wait_until_def Let_def event_def)

lemma sync_update_msgs: "sempre (sync_update n k d s) (\<lambda>s'. com_msgs 1 (so_tlog s) (so_tlog s'))"
proof -
  have x: "com_msgs 1 (so_tlog s) (so_tlog ((if b then log_add tsch_log_message s else s)\<lparr>so_sync := y\<rparr>))" for b y
    using com_msgs_add [of 0 s] by simp
  show ?thesis unfolding sync_update_def Let_def by (rule leva | rule x | rule sempre_any)+
qed

lemma rx_sync_msgs: "sempre (rx_sync env a d s) (\<lambda>s'. com_msgs 1 (so_tlog s) (so_tlog s') \<and> rx_frame s' = rx_frame s)"
proof -
  have f: "sempre (sync_update n k d s) (\<lambda>s'. com_msgs 1 (so_tlog s) (so_tlog s') \<and> rx_frame s' = rx_frame s)" for n k d
    using sync_update_msgs [of n k d s] sync_update_only [of n k d s] unfolding sempre_def by fastforce
  show ?thesis unfolding rx_sync_def Let_def
    by (rule leva | rule sempre_weaken [OF f] | rule sempre_any | (simp; fail))+
qed

text \<open>A frame for this node that asks for no acknowledgement ends in the log with its sender.\<close>

definition ouvida :: "linkaddr \<Rightarrow> tsch_log_t \<Rightarrow> bool" where
  "ouvida a e \<longleftrightarrow> (\<exists>r. lg_body e = tsch_log_rx r \<and> lr_src r = a \<and> \<not> lr_is_unicast r)"

lemma rx_accept_log:
  assumes run: "rx_accept c env a inp s = Some s'" and noack: "ack_required (fr_fcf (rx_frame s)) = 0"
    and g: "log_ok (so_tlog s)" "log_active (so_tlog s)" "length (entradas (so_tlog s)) + 2 < TSCH_LOG_QUEUE_LEN"
  shows "\<exists>es e. entradas (so_tlog s') = entradas (so_tlog s) @ es @ [e] \<and> so_msgs es \<and> ouvida (fr_src_addr (rx_frame s)) e \<and>
     log_ok (so_tlog s') \<and> log_active (so_tlog s') \<and> log_polled (so_tlog s')"
proof -
  let ?s1 = "s\<lparr>rx_count := rx_count s + 1\<rparr>"
  obtain d s2 where s2: "rx_sync env a d ?s1 = Some s2"
    and s': "\<exists>b. s' = log_add (rx_entry d inp (s2\<lparr>input_ringbuf := b\<rparr>)) (s2\<lparr>input_ringbuf := b\<rparr>)"
    using run noack unfolding rx_accept_def rx_ack_def Let_def by (auto elim!: bind_SomeE)
  have m: "com_msgs 1 (so_tlog s) (so_tlog s2)" "rx_frame s2 = rx_frame s" using sempreD [OF rx_sync_msgs s2] by simp_all
  then obtain es where es: "log_ok (so_tlog s2)" "log_active (so_tlog s2)" "so_msgs es" "length es \<le> 1"
    "entradas (so_tlog s2) = entradas (so_tlog s) @ es"
    using g unfolding com_msgs_def by blast
  have nf: "\<not> log_cheio (so_tlog s2)" using log_cheio_iff [OF es(1)] es(4,5) g(3) by simp
  obtain b where b: "s' = log_add (rx_entry d inp (s2\<lparr>input_ringbuf := b\<rparr>)) (s2\<lparr>input_ringbuf := b\<rparr>)" using s' by blast
  obtain e where e: "so_tlog s' = TSCH_LOG_ADD e (so_tlog s2)" "lg_body e = rx_entry d inp (s2\<lparr>input_ringbuf := b\<rparr>)"
    unfolding b log_add_def by simp
  have "ouvida (fr_src_addr (rx_frame s)) e"
    unfolding ouvida_def e(2) rx_entry_def using noack by (simp add: m(2) linkaddr_copy_def)
  then show ?thesis
    using log_add_run [OF es(1,2), of e] nf es(3,5) unfolding e(1) by auto
qed

lemma rx_slot_log:
  assumes run: "tsch_rx_slot c env s = Some s'" and room: "ringbufindex_peek_put (input_ringbuf s) \<noteq> -1"
    and seen: "packet_seen env" "pending_packet env"
    and p: "frame802154_parse False False (read_payload env) (read_len env) (rx_frame s) = Some (h, f)"
    and meu: "quadro_meu (so_pan_id s) (linkaddr_node_addr (so_sched s)) h f" and noack: "ack_required (fr_fcf f) = 0"
    and g: "log_ok (so_tlog s)" "log_active (so_tlog s)" "length (entradas (so_tlog s)) + 3 < TSCH_LOG_QUEUE_LEN"
  shows "\<exists>es e ds. entradas (so_tlog s') = entradas (so_tlog s) @ es @ e # ds \<and> so_msgs es \<and> so_msgs ds \<and>
     ouvida (fr_src_addr f) e \<and> log_ok (so_tlog s') \<and> log_active (so_tlog s')"
proof -
  define v where "v rx_off = tsch_radio_off c TSCH_RADIO_CMD_OFF_WITHIN_TIMESLOT
    (tsch_radio_on c TSCH_RADIO_CMD_ON_WITHIN_TIMESLOT (wait_until env 0 (current_slot_start s) rx_off s))" for rx_off
  obtain rx_off s1 where u: "rx_read c env (ringbufindex_peek_put (input_ringbuf s)) (v rx_off) = Some s1"
    "s' = log_drops (tsch_radio_off c TSCH_RADIO_CMD_OFF_END_OF_TIMESLOT s1)"
    using run room seen unfolding tsch_rx_slot_def Let_def v_def [symmetric] by (auto elim!: bind_SomeE)
  let ?u = "v rx_off"
  have k: "rx_frame ?u = rx_frame s" "so_pan_id ?u = so_pan_id s" "so_sched ?u = so_sched s"
    "so_tlog ?u = so_tlog (wait_until env 0 (current_slot_start s) rx_off s)"
    by (simp_all add: v_def resto_simps)
  obtain ms where ms: "so_msgs ms" "length ms \<le> 1" "entradas (so_tlog ?u) = entradas (so_tlog s) @ ms" "log_ok (so_tlog ?u)" "log_active (so_tlog ?u)"
    using wait_msgs [of s env 0 "current_slot_start s" rx_off] g(1,2) unfolding com_msgs_def k(4) by blast
  obtain a s2 src valid s3 where s2: "s2 = ?u\<lparr>input_array := a, rx_frame := f\<rparr>" and src: "rx_source s2 h = Some (src, valid)"
    and s3: "(case src of None \<Rightarrow> Some (if valid then s2 else log_add tsch_log_message s2)
       | Some x \<Rightarrow> rx_accept c env x (pacote_lido env ?u) (if valid then s2 else log_add tsch_log_message s2)) = Some s3"
    and s1: "s1 = (if valid then process_poll_pending s3 else s3)"
    using u(1) p [folded k(1)] unfolding rx_read_def Let_def pacote_lido_def [symmetric]
    by (auto elim!: bind_SomeE simp: pacote_lido_def)
  have "src \<noteq> None" using rx_source_meu [OF src] meu unfolding s2 by (simp add: k)
  then obtain x where x: "src = Some x" by blast
  have "valid" using src x unfolding rx_source_def Let_def by (auto split: if_splits elim!: bind_SomeE)
  then have "rx_accept c env x (pacote_lido env ?u) s2 = Some s3" using s3 x by simp
  from rx_accept_log [OF this] noack ms g(3) obtain es e where e: "entradas (so_tlog s3) = entradas (so_tlog ?u) @ es @ [e]" "so_msgs es"
    "ouvida (fr_src_addr f) e" "log_ok (so_tlog s3)" "log_active (so_tlog s3)" "log_polled (so_tlog s3)"
    unfolding s2 by auto
  let ?o = "tsch_radio_off c TSCH_RADIO_CMD_OFF_END_OF_TIMESLOT s1"
  have o: "so_tlog ?o = so_tlog s3" unfolding s1 by (simp add: resto_simps)
  have "com_msgs 1 (so_tlog ?o) (so_tlog s')"
    using com_msgs_add [of 0 ?o] unfolding u(2) by (simp add: log_drops_def)
  then obtain ds where d: "log_ok (so_tlog s')" "log_active (so_tlog s')" "so_msgs ds" "entradas (so_tlog s') = entradas (so_tlog s3) @ ds"
    using e(4,5) unfolding com_msgs_def o by blast
  have "entradas (so_tlog s') = entradas (so_tlog s) @ (ms @ es) @ e # ds" unfolding d(4) e(1) ms(3) by simp
  moreover have "so_msgs (ms @ es)" using ms(1) e(2) by (auto simp: so_msgs_def)
  ultimately show ?thesis using d(1-3) e(3) by blast
qed

text \<open>A node that hears a frame learns its sender.\<close>

lemma hears_neighbor:
  assumes run: "tsch_rx_slot c env s = Some s'" and room: "ringbufindex_peek_put (input_ringbuf s) \<noteq> -1"
    and seen: "packet_seen env" "pending_packet env"
    and p: "frame802154_parse False False (read_payload env) (read_len env) (rx_frame s) = Some (h, f)"
    and meu: "quadro_meu (so_pan_id s) (linkaddr_node_addr (so_sched s)) h f" and noack: "ack_required (fr_fcf f) = 0"
    and g: "log_ok (so_tlog s)" "log_active (so_tlog s)" "so_msgs (entradas (so_tlog s))" "length (entradas (so_tlog s)) + 3 < TSCH_LOG_QUEUE_LEN"
  shows "\<exists>m'. tsch_log_process_pending (m\<lparr>m_slot := s'\<rparr>) = Some m' \<and>
     m_sched m' = tsch_print_neighbors (node_num (fr_src_addr f)) (so_sched s) \<and> entradas (so_tlog (m_slot m')) = []"
proof -
  obtain es e ds where e: "entradas (so_tlog s') = entradas (so_tlog s) @ es @ e # ds" "so_msgs es" "so_msgs ds"
    "ouvida (fr_src_addr f) e" "log_ok (so_tlog s')"
    using rx_slot_log [OF run room seen p meu noack g(1,2,4)] by blast
  have sch: "so_sched s' = so_sched s" using sempreD [OF rx_slot_keeps run] by (simp add: resto_def)
  let ?h = "tsch_print_neighbors (node_num (fr_src_addr f)) (so_sched s)"
  have ev: "log_evaluate e (so_sched s) = Some ?h"
    using e(4) by (auto simp: ouvida_def log_evaluate_def)
  have "loopM log_evaluate (entradas (so_tlog s) @ es @ e # ds) (so_sched s) = Some ?h"
    by (simp add: evaluate_msgs g(3) e(2,3) ev)
  then show ?thesis
    using log_process_run [of "m\<lparr>m_slot := s'\<rparr>" "entradas (so_tlog s) @ es @ e # ds" ?h] e(1,5) by (auto simp: on_slot_def sch)
qed

text \<open>In a list of neighbors a node is found again, and those before it stay.\<close>

lemma anota_vizinho_run:
  "set (anota_vizinho n vs) \<subseteq> insert n (set vs)" "length (anota_vizinho n vs) = length vs"
  "n \<in> set vs \<or> 0 \<in> set vs \<Longrightarrow> n \<in> set (anota_vizinho n vs)"
  "v \<in> set vs \<Longrightarrow> v \<noteq> 0 \<Longrightarrow> v \<in> set (anota_vizinho n vs)"
  by (induction vs) auto

end
