(* ===== verification/Node_App.thy ===== *)
theory Node_App
  imports Mac_Facts
begin

text \<open>
  examples/6tisch/tschLBV/node.c: the process of the application. It makes the slotframe for broadcasts, waits
  until a neighbor was heard, makes one link to send to a neighbor with a smaller number, makes links to
  receive from its children in the topology file, and runs the static scheduler in every round. The
  calls into UDP, the routing layer and the timer are events; what is only printed is left out.
\<close>

section \<open>State\<close>

datatype app_event = Udp_register | Etimer_set u64 | Root_start | Udp_send u32

record app =
  ap_mac :: tsch_mac
  verify :: int
  aux_id :: int
  seqnum :: u32
  ap_log :: "app_event list"

text \<open>
  Random numbers, uninitialised variables of the functions that read files, the arguments of the
  static scheduler, and whether the root of the network can be reached.
\<close>

record app_env =
  ae_random :: u16
  ae_random2 :: u16
  ae_lixo :: "int \<times> int"
  ae_sorteio :: "nat \<Rightarrow> nat \<Rightarrow> nat"
  ae_canais :: "nat \<Rightarrow> nat \<Rightarrow> int"
  ae_lixo2 :: "int \<times> int"
  ae_lixo4 :: "int \<times> int \<times> int \<times> int"
  ae_reachable :: bool

definition app_event :: "app_event \<Rightarrow> app \<Rightarrow> app" where
  "app_event e a = a\<lparr>ap_log := ap_log a @ [e]\<rparr>"

definition coordinator_addr :: linkaddr where "coordinator_addr = [1, 0, 0, 0, 0, 0, 0, 0]"

definition SEND_INTERVAL :: nat where "SEND_INTERVAL = 1 * CLOCK_SECOND"
definition UNICAST_SLOTFRAME_HANDLE :: u16 where "UNICAST_SLOTFRAME_HANDLE = 2"
definition BROADCAST_SLOTFRAME_HANDLE :: u16 where "BROADCAST_SLOTFRAME_HANDLE = 1"
definition APP_UNICAST_TIMESLOT :: u16 where "APP_UNICAST_TIMESLOT = 4"
definition APP_CHANNEL_OFSETT :: u16 where "APP_CHANNEL_OFSETT = 8"
definition APP_SLOTFRAME_SIZE :: u16 where "APP_SLOTFRAME_SIZE = 8"

section \<open>Links\<close>

definition init_broad :: "mac_conf \<Rightarrow> tsch_mac \<Rightarrow> tsch_mac option" where
  "init_broad c m = do {
     (sf_common, m) \<leftarrow> with_sched (tsch_schedule_add_slotframe BROADCAST_SLOTFRAME_HANDLE APP_SLOTFRAME_SIZE) m;
     (_, m) \<leftarrow> with_sched (tsch_schedule_add_link (vic_of c m) sf_common
        (LINK_OPTION_TX OR LINK_OPTION_RX OR LINK_OPTION_SHARED) LINK_TYPE_ADVERTISING (Some tsch_broadcast_address) 0 0 False) m;
     Some m }"

definition initialize_tsch_schedule :: "mac_conf \<Rightarrow> u16 \<Rightarrow> app_env \<Rightarrow> tsch_mac \<Rightarrow> (int \<times> tsch_mac) option" where
  "initialize_tsch_schedule c node_id env m = do {
     (sf_common, m) \<leftarrow> with_sched (tsch_schedule_add_slotframe UNICAST_SLOTFRAME_HANDLE APP_SLOTFRAME_SIZE) m;
     let sf_common = (if sf_common = None
       then tsch_schedule_get_slotframe_by_handle UNICAST_SLOTFRAME_HANDLE (m_sched m) else sf_common);
     let remote_id = (word_of_int (sort_node_to_create_link (uint node_id) (m_sched m)) :: u16);
     if remote_id = 0 then Some (0, m)
     else if node_id = 1 then Some (1, m)
     else do {
       let slot_offset = ae_random env mod APP_UNICAST_TIMESLOT;
       let channel_offset = ae_random2 env mod APP_CHANNEL_OFSETT;
       (_, m) \<leftarrow> with_sched (tsch_schedule_add_link (vic_of c m) sf_common LINK_OPTION_TX LINK_TYPE_NORMAL
          (Some (addr_of_num (uint remote_id))) slot_offset channel_offset False) m;
       Some (uint remote_id, m) } }"

section \<open>The process\<close>

text \<open>Up to the main loop.\<close>

definition node_process_start :: "mac_conf \<Rightarrow> u16 \<Rightarrow> app \<Rightarrow> app option" where
  "node_process_start c node_id a = do {
     m \<leftarrow> init_broad c (ap_mac a);
     let m = tsch_set_coordinator (linkaddr_cmp coordinator_addr (linkaddr_node_addr (m_sched m))) m;
     let a = app_event (Etimer_set (of_nat (SEND_INTERVAL div 100))) (app_event Udp_register a);
     let a = (if node_id = 1 then app_event Root_start a else a);
     Some (a\<lparr>ap_mac := snd (turn_on m)\<rparr>) }"

text \<open>A round of the main loop up to its wait.\<close>

definition app_links :: "mac_conf \<Rightarrow> u16 \<Rightarrow> app_env \<Rightarrow> app \<Rightarrow> app option" where
  "app_links c node_id env a =
     (if verify a = 0 then do {
        (v, m) \<leftarrow> with_sched (\<lambda>h. Some (change_slotframe h)) (ap_mac a);
        let a = a\<lparr>ap_mac := m, verify := v\<rparr>;
        if v = 1 then do {
          (x, m) \<leftarrow> initialize_tsch_schedule c node_id env (ap_mac a);
          Some (a\<lparr>ap_mac := m, aux_id := (if node_id = 1 then 1 else x)\<rparr>) }
        else Some a }
      else Some a)"

definition app_rx_links :: "mac_conf \<Rightarrow> u16 \<Rightarrow> app_env \<Rightarrow> app \<Rightarrow> app option" where
  "app_rx_links c node_id env a = do {
     (_, m) \<leftarrow> with_sched (\<lambda>h. map_option (Pair ())
        (find_neighbor_to_Rx (vic_of c (ap_mac a)) (ae_lixo env) (ucast node_id) h)) (ap_mac a);
     Some (a\<lparr>ap_mac := m\<rparr>) }"

definition app_schedule :: "app_env \<Rightarrow> app \<Rightarrow> app option" where
  "app_schedule env a =
     (if aux_id a \<ge> 1 then do {
        (_, m) \<leftarrow> with_sched (\<lambda>h. map_option (\<lambda>(r, bw, h). ((r, bw), h))
           (SCHEDULE_static (ae_sorteio env) (ae_canais env) (ae_lixo2 env) (ae_lixo4 env) h)) (ap_mac a);
        Some (a\<lparr>ap_mac := m\<rparr>) }
      else Some a)"

definition app_round :: "mac_conf \<Rightarrow> u16 \<Rightarrow> app_env \<Rightarrow> app \<Rightarrow> app option" where
  "app_round c node_id env a = do {
     a \<leftarrow> app_links c node_id env a;
     a \<leftarrow> app_rx_links c node_id env a;
     app_schedule env a }"

text \<open>After the wait.\<close>

definition app_send :: "app_env \<Rightarrow> app \<Rightarrow> app" where
  "app_send env a =
     (let a = (if ae_reachable env then app_event (Udp_send (seqnum a + 1)) (a\<lparr>seqnum := seqnum a + 1\<rparr>) else a)
      in app_event (Etimer_set (of_nat SEND_INTERVAL)) a)"

text \<open>A received datagram: its sequence number, in the byte order of the platform, is only printed.\<close>

definition rx_packet :: "u8 list \<Rightarrow> u16 \<Rightarrow> u32 option option" where
  "rx_packet data datalen =
     (if datalen \<ge> 4 then do {
        b0 \<leftarrow> rd data 0; b1 \<leftarrow> rd data 1; b2 \<leftarrow> rd data 2; b3 \<leftarrow> rd data 3;
        Some (Some (ucast b0 OR push_bit 8 (ucast b1) OR push_bit 16 (ucast b2) OR push_bit 24 (ucast b3))) }
      else Some None)"

text \<open>
  The rounds of the main loop. Between two rounds, while the process waits for its timer, the rest of the
  node runs: each round comes with what it did to the state of the MAC layer.
\<close>

primrec app_rounds :: "mac_conf \<Rightarrow> u16 \<Rightarrow> (app_env \<times> (tsch_mac \<Rightarrow> tsch_mac)) list \<Rightarrow> app \<Rightarrow> app option" where
  "app_rounds c node_id [] a = Some a"
| "app_rounds c node_id (r # rs) a = do {
     a \<leftarrow> app_round c node_id (fst r) a;
     app_rounds c node_id rs (app_send (fst r) (a\<lparr>ap_mac := snd r (ap_mac a)\<rparr>)) }"

section \<open>Facts\<close>

text \<open>What the operations on links leave alone: the neighbors heard and the address of the node.\<close>

definition ouviu where
  "ouviu s = (NBRlist s, cs_counter s, linkaddr_node_addr s)"

lemma ouviu_simps [simp]:
  "ouviu (release_lock s) = ouviu s" "ouviu (upd_sf i f s) = ouviu s" "ouviu (upd_link k g s) = ouviu s"
  "ouviu (s\<lparr>slotframe_memb := sm\<rparr>) = ouviu s" "ouviu (s\<lparr>link_memb := lm\<rparr>) = ouviu s" "ouviu (s\<lparr>slotframe_list := sl\<rparr>) = ouviu s"
  "ouviu (snd (fill_id n s)) = ouviu s" "ouviu (s\<lparr>queue := q\<rparr>) = ouviu s" "ouviu (s\<lparr>arvore := f'\<rparr>) = ouviu s"
  by (simp_all add: ouviu_def release_lock_def upd_sf_def upd_link_def fill_id_def split: option.splits)

lemma get_lock_ouviu: "get_lock s = Some (b, s') \<Longrightarrow> ouviu s' = ouviu s"
  by (auto simp: get_lock_def elim!: bind_SomeE)

lemma add_slotframe_ouviu: "tsch_schedule_add_slotframe h sz s = Some (r, s') \<Longrightarrow> ouviu s' = ouviu s"
  unfolding tsch_schedule_add_slotframe_def Let_def
  by (auto elim!: bind_SomeE dest!: get_lock_ouviu split: if_splits prod.splits option.splits)

lemma add_link_ouviu:
  "tsch_schedule_add_link vic sf opts ty ad ts ch False s = Some (r, s') \<Longrightarrow> ouviu s' = ouviu s"
  unfolding tsch_schedule_add_link_def Let_def
  by (auto elim!: bind_SomeE dest!: get_lock_ouviu split: if_splits prod.splits option.splits)

lemma with_sched_SomeE:
  assumes "with_sched f m = Some (r, m')"
  obtains h where "f (m_sched m) = Some (r, h)" "m' = on_slot (so_sched_update (\<lambda>_. h)) m"
  using assms unfolding with_sched_def by (auto elim!: bind_SomeE)

text \<open>
  The address the application compares with is that of no node, as the addresses repeat the number in
  every pair: no node becomes the coordinator, the root of the network included.
\<close>

lemma coordinator_addr_of_no_node: "addr_of_num n \<noteq> coordinator_addr"
  by (simp add: addr_of_num_def coordinator_addr_def numeral_eq_Suc)

lemma turn_on_keeps: "m_slot (snd (turn_on m)) = m_slot m"
  by (simp add: turn_on_def mac_event_def)

lemma coordinator_set: "coordinator (tsch_set_coordinator b m) = b"
  by (simp add: tsch_set_coordinator_def tsch_set_eb_period_def on_slot_def Let_def)

lemma init_broad_ouviu: "init_broad c m = Some m' \<Longrightarrow> ouviu (m_sched m') = ouviu (m_sched m)"
  unfolding init_broad_def
  by (auto elim!: bind_SomeE with_sched_SomeE dest!: add_slotframe_ouviu add_link_ouviu simp: on_slot_def)

lemma no_coordinator_is_started:
  assumes run: "node_process_start c node_id a = Some a'" and me: "linkaddr_node_addr (m_sched (ap_mac a)) = addr_of_num n"
  shows "\<not> coordinator (ap_mac a')"
proof -
  obtain m where m: "init_broad c (ap_mac a) = Some m"
    "ap_mac a' = snd (turn_on (tsch_set_coordinator (linkaddr_cmp coordinator_addr (linkaddr_node_addr (m_sched m))) m))"
    using run unfolding node_process_start_def Let_def by (auto elim!: bind_SomeE)
  have "linkaddr_node_addr (m_sched m) = addr_of_num n" using init_broad_ouviu [OF m(1)] me by (simp add: ouviu_def)
  then have "\<not> linkaddr_cmp coordinator_addr (linkaddr_node_addr (m_sched m))"
    using coordinator_addr_of_no_node [of n] by (simp add: linkaddr_cmp_def)
  then show ?thesis using coordinator_set unfolding m(2) turn_on_keeps by simp
qed

text \<open>Once the neighbors were looked at, the node keeps what it decided.\<close>

lemma decided_stays:
  "verify a \<noteq> 0 \<Longrightarrow> app_links c node_id env a = Some a"
  by (simp add: app_links_def)

lemma round_keeps_decision:
  assumes "app_round c node_id env a = Some a'" and "verify a \<noteq> 0"
  shows "verify a' = verify a \<and> aux_id a' = aux_id a"
  using assms unfolding app_round_def app_rx_links_def app_schedule_def
  by (auto simp: decided_stays elim!: bind_SomeE split: if_splits)

lemma send_keeps: "verify (app_send env a) = verify a" "aux_id (app_send env a) = aux_id a"
  by (simp_all add: app_send_def app_event_def Let_def)

lemma rounds_keep_decision:
  assumes "app_rounds c node_id rs a = Some a'" and "verify a \<noteq> 0"
  shows "verify a' = verify a \<and> aux_id a' = aux_id a"
  using assms
proof (induction rs arbitrary: a)
  case (Cons r rs)
  obtain b where b: "app_round c node_id (fst r) a = Some b"
    "app_rounds c node_id rs (app_send (fst r) (b\<lparr>ap_mac := snd r (ap_mac b)\<rparr>)) = Some a'"
    using Cons.prems(1) by (auto elim!: bind_SomeE)
  show ?case using Cons.IH [OF b(2)] round_keeps_decision [OF b(1) Cons.prems(2)] Cons.prems(2) by (simp add: send_keeps)
qed simp

text \<open>
  What it decides: the first neighbor with a smaller number, and 0 when there is none; node 1 sends to
  nobody and runs the scheduler in any case.
\<close>

lemma decision:
  assumes run: "app_links c node_id env a = Some a'" and v: "verify a = 0"
    and heard: "0 < foldl (+) (cs_counter (m_sched (ap_mac a))) (NBRlist (m_sched (ap_mac a)))"
  shows "verify a' = 1 \<and> aux_id a' = (if node_id = 1 then 1 else uint (word_of_int (sort_node_to_create_link (uint node_id) (m_sched (ap_mac a))) :: u16))"
proof -
  let ?h = "m_sched (ap_mac a)"
  obtain h' where h': "change_slotframe ?h = (1, h')" "NBRlist h' = NBRlist ?h"
    using heard by (simp add: change_slotframe_def Let_def)
  let ?m = "on_slot (so_sched_update (\<lambda>_. h')) (ap_mac a)"
  have lo: "with_sched (\<lambda>h. Some (change_slotframe h)) (ap_mac a) = Some (1, ?m)"
    by (simp add: with_sched_def h'(1))
  obtain x m where x: "initialize_tsch_schedule c node_id env ?m = Some (x, m)" "a' = a\<lparr>ap_mac := m, verify := 1, aux_id := (if node_id = 1 then 1 else x)\<rparr>"
    using run v lo unfolding app_links_def Let_def by (auto elim!: bind_SomeE)
  have z: "sort_node_to_create_link (uint node_id) h = sort_node_to_create_link (uint node_id) ?h" if "ouviu h = ouviu h'" for h
    using that h'(2) by (simp add: sort_node_to_create_link_def ouviu_def)
  have "node_id \<noteq> 1 \<longrightarrow> x = uint (word_of_int (sort_node_to_create_link (uint node_id) ?h) :: u16)"
    using x(1) unfolding initialize_tsch_schedule_def Let_def
    by (auto elim!: bind_SomeE with_sched_SomeE dest!: add_slotframe_ouviu simp: on_slot_def z split: if_splits)
  then show ?thesis using x(2) by simp
qed

lemma no_target: "aux_id a = 0 \<Longrightarrow> app_schedule env a = Some a"
  by (simp add: app_schedule_def)

lemma decides_once:
  assumes run: "app_rounds c node_id (r # rs) a = Some a'" and v: "verify a = 0"
    and heard: "0 < foldl (+) (cs_counter (m_sched (ap_mac a))) (NBRlist (m_sched (ap_mac a)))"
    and ids: "\<forall>v \<in> set (NBRlist (m_sched (ap_mac a))). 0 \<le> v"
  shows "verify a' = 1 \<and> aux_id a' = (if node_id = 1 then 1 else sort_node_to_create_link (uint node_id) (m_sched (ap_mac a)))"
proof -
  let ?h = "m_sched (ap_mac a)"
  obtain b a1 where b: "app_links c node_id (fst r) a = Some b" and a1: "app_round c node_id (fst r) a = Some a1"
    and rs: "app_rounds c node_id rs (app_send (fst r) (a1\<lparr>ap_mac := snd r (ap_mac a1)\<rparr>)) = Some a'"
    using run by (auto simp: app_round_def elim!: bind_SomeE)
  let ?n = "sort_node_to_create_link (uint node_id) ?h"
  have "0 \<le> ?n \<and> ?n < 2 ^ 16"
    using sort_node_run(2) [of "uint node_id" ?h] ids uint_lt2p [of node_id] by (cases "?n = 0") auto
  then have n: "uint (word_of_int ?n :: u16) = ?n" by (simp add: uint_word_of_int)
  have d: "verify b = 1 \<and> aux_id b = (if node_id = 1 then 1 else ?n)" using decision [OF b v heard] by (simp add: n)
  moreover have "verify a1 = verify b \<and> aux_id a1 = aux_id b"
    using a1 b unfolding app_round_def app_rx_links_def app_schedule_def by (auto elim!: bind_SomeE split: if_splits)
  ultimately show ?thesis using rounds_keep_decision [OF rs] by (simp add: send_keeps)
qed

end
