(* ===== verification/Cenarios.thy ===== *)
theory Cenarios
  imports Static_Schedule Tsch_Packet Queuebuf Association Log_Facts Node_App
begin

text \<open>
  Concrete states for the witnesses of the root theory: node 3 of the chain 4 - 3 - 2 - 1 with its
  slotframe, a Tx link to node 2 and an Rx link from node 4, the neighbor table with the virtual
  neighbors and node 2, and two packets queued for node 2.
\<close>

definition lk_ex :: tsch_lk where
  "lk_ex = \<lparr>tsch_locked = False, tsch_lock_requested = False, tsch_in_slot_operation = False\<rparr>"

definition nt_ex :: nbr_state where
  "nt_ex = \<lparr>nt_mem = \<lparr>used = [True, True, True, False],
       mem = [tsch_broadcast_address, tsch_eb_address, addr_of_num 2, tsch_eb_address]\<rparr>,
     nt_keys = [0, 1, 2], nt_used = [1, 1, 1, 0], nt_locked = [1, 1, 1, 0],
     nt_all = [Some 0, None, None, None, None, None, None, None], nt_num = 1, nt_index = (\<lambda>_. 0), nt_cb = (\<lambda>_. False),
     nt_log = []\<rparr>"

definition nbr_ex :: tsch_neighbor where
  "nbr_ex = nbr_novo (addr_of_num 2)\<lparr>tx_array := [Some 0, Some 1] @ replicate 62 None,
     tx_ringbuf := \<lparr>rb_mask = 63, put_ptr = 2, get_ptr = 0\<rparr>\<rparr>"

definition pk_ex :: tsch_packet where
  "pk_ex = \<lparr>pk_qb = Some 0, pk_sent = 0, pk_ptr = 0, pk_transmissions = 1, pk_max = 3, pk_ret = MAC_TX_DEFERRED, pk_header_len = 0,
     pk_sync_offset = 0\<rparr>"

definition tq_ex :: tq where
  "tq_ex = \<lparr>tq_lk = lk_ex, tq_nt = nt_ex,
     tq_nbrs = [nbr_novo tsch_broadcast_address, nbr_novo tsch_eb_address, nbr_ex, nbr_novo tsch_eb_address],
     tq_pks = \<lparr>used = [True, True, False], mem = [pk_ex, pk_ex, pk_ex]\<rparr>,
     n_broadcast = Some 0, n_eb = Some 1, tq_log = []\<rparr>"

definition tx_ex :: tsch_link where
  "tx_ex = \<lparr>l_handle = 1, l_addr = addr_of_num 2, l_sf = 2, l_timeslot = 0, l_choff = 0, l_options = LINK_OPTION_TX,
     l_aux = 2, l_type = LINK_TYPE_NORMAL, l_value = 0, l_data = None\<rparr>"

definition rx_ex :: tsch_link where
  "rx_ex = \<lparr>l_handle = -2, l_addr = addr_of_num 4, l_sf = 2, l_timeslot = 3, l_choff = 0, l_options = LINK_OPTION_RX,
     l_aux = 1, l_type = LINK_TYPE_NORMAL, l_value = 0, l_data = None\<rparr>"

definition sf_ex :: tsch_slotframe where
  "sf_ex = \<lparr>sf_handle = 2, sf_size = the (TSCH_ASN_DIVISOR_INIT 15), sf_links = [0, 1]\<rparr>"

definition xs_ex :: "(int \<times> int) list" where
  "xs_ex = [(2, 1), (3, 2), (4, 3)]"

definition sched_ex :: sched where
  "sched_ex = \<lparr>queue = tq_ex, link_memb = \<lparr>used = [True, True, False, False], mem = [tx_ex, rx_ex, rx_ex, rx_ex]\<rparr>,
     slotframe_memb = \<lparr>used = [True, False], mem = [sf_ex, sf_ex]\<rparr>, slotframe_list = [0], current_link = None,
     PossNeighbor = [4, 0, 0, 0, 0, 0], NBRlist = [2, 4, 0, 0], flag_schedule = 0, STpacks = 0,
     Packets_sent = [0, 0, 0, 0, 0, 0], Packets_received = [0, 0, 0, 0, 0, 0], cs_counter = 0,
     arvore = \<lparr>texto = Some (concat (map linha_dd xs_ex)), gravavel = True\<rparr>,
     TCH = \<lparr>texto = Some (concat (map linha_dddd [(4, 3, 5, 2)])), gravavel = True\<rparr>,
     linkaddr_node_addr = addr_of_num 3\<rparr>"

definition h_ex :: "nat \<Rightarrow> nat" where "h_ex x = x - 1"

lemma livre_ex: "livre lk_ex"
  by (simp add: lk_ex_def livre_def)

lemma tq_livre_ex: "livre (tq_lk tq_ex)" "livre (tq_lk (queue sched_ex))" "\<not> tsch_is_locked (tq_lk tq_ex)" "\<not> locked sched_ex"
  by (simp_all add: tq_ex_def sched_ex_def livre_ex locked_def)

lemma addrs_ex: "tsch_broadcast_address = [255, 255, 255, 255, 255, 255, 255, 255]"
  "tsch_eb_address = [0, 0, 0, 0, 0, 0, 0, 0]" "addr_of_num 2 = [0, 2, 0, 2, 0, 2, 0, 2]"
  by (simp_all add: tsch_broadcast_address_def tsch_eb_address_def addr_of_num_def numeral_eq_Suc)

lemma vivos_ex: "vivos (nt_mem nt_ex) = {0, 1, 2}" "vivos (tq_pks tq_ex) = {0, 1}"
  by (simp_all add: vivos_set nt_ex_def tq_ex_def upt_rec insert_commute numeral_2_eq_2)

lemma nt_inv_ex: "nt_inv nt_ex"
proof -
  have "inj_on (nt_addr nt_ex) {0, 1, 2}"
    by (simp add: inj_on_def nt_ex_def addrs_ex)
  moreover have "k \<notin> {0, 1, 2} \<longrightarrow> nt_used nt_ex ! k = 0" if "k < 4" for k :: nat
    using that by (auto simp: nt_ex_def numeral_eq_Suc less_Suc_eq)
  ultimately show ?thesis
    unfolding nt_inv_def vivos_ex by (auto simp: nt_ex_def MAX_NUM_TABLES_def)
qed

text \<open>The same table with every place taken.\<close>

definition nt_cheia_ex :: nbr_state where
  "nt_cheia_ex = nt_ex\<lparr>nt_mem := \<lparr>used = [True, True, True, True],
       mem = [tsch_broadcast_address, tsch_eb_address, addr_of_num 2, addr_of_num 5]\<rparr>,
     nt_keys := [0, 1, 2, 3], nt_used := [1, 1, 1, 1], nt_locked := [1, 1, 1, 0]\<rparr>"

lemma nt_cheia_ex:
  "nt_inv nt_cheia_ex" "cheia nt_cheia_ex" "\<exists>k s'. nbr_table_allocate (Some (addr_of_num 2)) nt_cheia_ex = (Some k, s')"
  "nt_keys nt_cheia_ex = [0, 1, 2, 3]" "nt_addr nt_cheia_ex 2 = addr_of_num 2" "nt_locked nt_cheia_ex ! 2 \<noteq> 0"
proof -
  have v: "vivos (nt_mem nt_cheia_ex) = {0, 1, 2, 3}" by (auto simp: vivos_set nt_cheia_ex_def)
  have a5: "addr_of_num 5 = [0, 5, 0, 5, 0, 5, 0, 5]" by (simp add: addr_of_num_def numeral_eq_Suc)
  have "inj_on (nt_addr nt_cheia_ex) {0, 1, 2, 3}" by (simp add: nt_cheia_ex_def addrs_ex a5)
  then show "nt_inv nt_cheia_ex" unfolding nt_inv_def v by (auto simp: nt_cheia_ex_def nt_ex_def MAX_NUM_TABLES_def)
  show "cheia nt_cheia_ex" unfolding cheia_def v by (auto simp: nt_cheia_ex_def)
  have "\<not> Option.is_none (fst (nbr_table_allocate (Some (addr_of_num 2)) nt_cheia_ex))" by code_simp
  then show "\<exists>k s'. nbr_table_allocate (Some (addr_of_num 2)) nt_cheia_ex = (Some k, s')"
    by (cases "nbr_table_allocate (Some (addr_of_num 2)) nt_cheia_ex") (auto simp: Option.is_none_def)
qed (simp_all add: nt_cheia_ex_def)

lemma em_ex: "em nt_ex tsch_neighbors = [0, 1, 2]"
  by (simp add: em_def nt_ex_def usa_def tsch_neighbors_def)

lemma nbr_novo_ok_ex: "nbr_ok (nbr_novo a)" "fila_nbr (nbr_novo a) = []"
  using nbr_novo_ok by auto

lemma nbr_ok_ex: "nbr_ok nbr_ex" "fila_nbr nbr_ex = [Some 0, Some 1]"
proof -
  have "rb_k 6 (tx_ringbuf nbr_ex)" by (simp add: nbr_ex_def rb_k_def mask_eq_exp_minus_1)
  then have "rb_ok (tx_ringbuf nbr_ex)" unfolding rb_ok_def by blast
  then show "nbr_ok nbr_ex"
    by (simp add: nbr_ok_def nbr_ex_def nbr_novo_def rb_sz_def nbr_zero_def tsch_queue_backoff_reset_def TSCH_MAC_MIN_BE_def)
  have "fila_nbr nbr_ex = map ((!) (tx_array nbr_ex)) (rb_els (tx_ringbuf nbr_ex))"
    by (simp add: fila_nbr_def rbi.conteudo_def)
  moreover have "rb_els (tx_ringbuf nbr_ex) = [0, 1]" by code_simp
  ultimately show "fila_nbr nbr_ex = [Some 0, Some 1]" by (simp add: nbr_ex_def)
qed

lemma tq_inv_ex: "tq_inv tq_ex"
proof -
  have "tq_nt tq_ex = nt_ex" "tq_nbrs tq_ex = [nbr_novo tsch_broadcast_address, nbr_novo tsch_eb_address, nbr_ex, nbr_novo tsch_eb_address]"
    by (simp_all add: tq_ex_def)
  moreover have "length (used (nt_mem nt_ex)) = 4" by (simp add: nt_ex_def)
  ultimately show ?thesis
    unfolding tq_inv_def todos_def vivos_ex
    by (auto simp: nt_inv_ex em_ex nbr_novo_ok_ex nbr_ok_ex) (simp_all add: tq_ex_def)
qed

lemma fila_ex: "fila_nbr (nbr_at tq_ex 2) = [Some 0, Some 1]"
  using nbr_ok_ex(2) by (simp add: tq_ex_def)

lemma arestas_ex: "arestas_de xs_ex = [(2, 1), (3, 2), (4, 3)]"
proof -
  have u: "[1..<MAX_NOS] = [1, 2, 3, 4, 5]" by (simp add: MAX_NOS_def upt_rec numeral_eq_Suc)
  show ?thesis
    unfolding arestas_de_def u by (simp add: arcos_def MAX_NOS_def no_raiz_def xs_ex_def)
qed

lemma arcos_ex: "arcos xs_ex = {(2, 1), (3, 2), (4, 3)}"
  by (auto simp: arcos_def MAX_NOS_def no_raiz_def xs_ex_def)

lemma rede_ex: "rede_ok (arestas_de xs_ex) h_ex" "alturas (arestas_de xs_ex) h_ex \<le> 8"
  "distinct (map fst (arestas_de xs_ex))"
proof -
  show "rede_ok (arestas_de xs_ex) h_ex" unfolding arestas_ex by (simp add: rede_ok_def MAX_NOS_def h_ex_def)
  have "{2..<MAX_NOS} = {2, 3, 4, 5}" by (auto simp: MAX_NOS_def)
  then show "alturas (arestas_de xs_ex) h_ex \<le> 8" unfolding arestas_ex by (simp add: alturas_def pac0_def h_ex_def)
  show "distinct (map fst (arestas_de xs_ex))" unfolding arestas_ex by simp
qed

lemma linhas_ex: "\<forall>v \<in> set xs_ex. linha_ok v" "xs_ex \<noteq> []" "\<forall>(x, y) \<in> arcos xs_ex. x \<noteq> 0 \<and> y \<noteq> 0"
  unfolding arcos_ex by (auto simp: xs_ex_def linha_ok_def MAX_NOS_def)

lemma sorteio_ex: "sorteio_ok (\<lambda>_. 2)"
  by (simp add: sorteio_ok_def dcfl_ruim_def MAX_NOS_def no_raiz_def)

lemma slotframe_ex: "tsch_schedule_get_slotframe_by_handle unicast_slotframe_handle sched_ex = Some 0"
  using tq_livre_ex(4)
  by (simp add: tsch_schedule_get_slotframe_by_handle_def sched_ex_def sf_ex_def unicast_slotframe_handle_def)

lemma tx_unico_ex: "link_tx_unico sched_ex 0 0 1"
  by (simp add: link_tx_unico_def sched_ex_def sf_ex_def tx_ex_def rx_ex_def)

lemma TCH_ex: "linhas_TCH (TCH sched_ex) [(4, 3, 5, 2)]"
  by (simp add: linhas_TCH_def sched_ex_def)

lemma arvore_ex: "texto (arvore sched_ex) = Some (concat (map linha_dd xs_ex))"
  by (simp add: sched_ex_def)


text \<open>A beacon of node 3 with the timing and the hopping sequence, and an empty packet buffer.\<close>

definition c_ex :: eb_conf where
  "c_ex = \<lparr>with_timeslot_timing = True, with_hopping_sequence = True, with_slotframe_and_link = False\<rparr>"

definition e_ex :: eb_env where
  "e_ex = \<lparr>env_max_hopping = 4,
     env_timing_us = [1800, 128, 2120, 1020, 800, 1000, 2200, 400, 192, 2400, 4256, 10000],
     env_hop_len = 4, env_hop_seq = [15, 25, 26, 20], env_sched = sched_ex,
     env_node_addr = [0, 3, 0, 3, 0, 3, 0, 3]\<rparr>"

definition m_ex :: mac where
  "m_ex = \<lparr>mac_pan_id = 0xABCD, mac_dsn = 0, initialized = False,
     pb = \<lparr>pb_mem = replicate 128 0, buflen = 0, bufptr = 0, hdrlen = 0,
       packetbuf_attrs = replicate 13 0, packetbuf_addrs = replicate 2 (replicate 8 0)\<rparr>\<rparr>"

lemma eb_ies_ex:
  "\<exists>j. eb_ies c_ex e_ex = Some j \<and> sl_num_links (ie_tsch_slotframe_and_link j) = 0
     \<and> ie_channel_hopping_sequence_id j = 1"
proof -
  obtain t where "eb_ies_timing c_ex e_ex (zero_ies 4) = Some ((zero_ies 4)\<lparr>ie_tsch_timeslot_id := 1,
      ie_tsch_timeslot := t\<rparr>)"
    using eb_ies_timing_like [of e_ex 4 "zero_ies 4" c_ex]
    by (auto simp: eb_ies_timing_def c_ex_def e_ex_def eb_env_ok_def tsch_ts_elements_count_def eb_like_zero
        eb_rest_zero split: bind_splits)
  then show ?thesis
    by (simp add: eb_ies_def eb_ies_hopping_def eb_ies_slotframe_def c_ex_def memcpy_at_def)
      (simp add: e_ex_def eb_ies_hopping_def c_ex_def memcpy_at_def zero_ies_def eb_ies_slotframe_def)
qed

text \<open>Two queue buffers, the first in use, and a packet buffer with five bytes.\<close>

definition qd_ex :: queuebuf_data where
  "qd_ex = \<lparr>qd_data = replicate 128 7, qd_len = 3, qd_attrs = replicate 13 0, qd_addrs = replicate 2 (replicate 8 0)\<rparr>"

definition qs_ex :: queuebufs where
  "qs_ex = \<lparr>bufmem = \<lparr>used = [True, False], mem = [Some 1, None]\<rparr>,
     buframmem = \<lparr>used = [False, True], mem = [qd_ex, qd_ex]\<rparr>\<rparr>"

definition pb_ex :: packetbuf where
  "pb_ex = (pb m_ex)\<lparr>pb_mem := [1, 2, 3, 4, 5] @ replicate 123 0, buflen := 3, hdrlen := 2\<rparr>"

lemma pb_ok_ex: "pb_ok pb_ex" "pb_ok (pb m_ex)"
  by (simp_all add: pb_ok_def pb_ex_def m_ex_def packetbuf_ids PACKETBUF_SIZE_def)

lemma pb_bytes_ex: "pb_bytes pb_ex = [1, 2, 3, 4, 5]"
  by code_simp

lemma qs_ex: "qb_inv qs_ex" "queuebuf_numfree qs_ex = 1" "vivos (bufmem qs_ex) = {0}"
proof -
  show v: "vivos (bufmem qs_ex) = {0}" by (auto simp: vivos_def qs_ex_def less_Suc_eq)
  have "vivos (buframmem qs_ex) = {1}" by (auto simp: vivos_def qs_ex_def less_Suc_eq)
  then show "qb_inv qs_ex"
    unfolding qb_inv_def v by (simp add: qs_ex_def qd_ex_def qb_ram_def qb_data_def qd_ok_def packetbuf_ids PACKETBUF_SIZE_def)
  show "queuebuf_numfree qs_ex = 1" unfolding queuebuf_numfree_def memb_numfree_vivos v by (simp add: qs_ex_def)
qed

text \<open>The time synchronisation after a reset, and one that has learned a drift of 20 ppm.\<close>

definition ts_ex :: timesync where
  "ts_ex = \<lparr>drift_ppm = 0, compensated_ticks = 0, timesync_entry_count = 0, asn_since_last_learning = 0,
     last_timesource_neighbor = None, entry_buffer = replicate 8 0, entry_pos = 0, ppm_remainder = 0,
     tick_conversion_error = 0, base_drift_remainder = 0, base_drift_tick_conversion_error = 0,
     min_drift_seen = 0, max_drift_seen = 0, keepalive_status = KEEPALIVE_SCHEDULING_UNCHANGED,
     tsch_current_ka_timeout = 0, pending = False\<rparr>"

definition ts2_ex :: timesync where
  "ts2_ex = ts_ex\<lparr>drift_ppm := 5120, last_timesource_neighbor := Some 2\<rparr>"

text \<open>
  A node in a slot: 10 ms slots, four channels, no packet from the radio, no acknowledgement, the
  timer read at the start of the slot. The second state is in the slot of the link to node 2.
\<close>

definition conf_ex :: conf where
  "conf_ex = \<lparr>TSCH_RADIO_ON_DURING_TIMESLOT = False, TSCH_BURST_MAX_LEN = 0, max_hopping = 4, with_sixtop = False,
     TSCH_BASE_DRIFT_PPM = 0\<rparr>"

definition env_ex :: ambiente where
  "env_ex = \<lparr>prepare_ok = True, transmit_ok = True, ackbuf = [], ack_read = 0, packet_seen = False, seen_at = 3000,
     pending_packet = False, read_payload = [], read_len = 0, last_rssi = 0, clock_time = 0, random_rand = 77,
     rtimer_now = [1000], ack_frame = zero_frame, local_ies = zero_ies 4, ack_hdrlen = 0, eack_params = zero_frame,
     wait_now = (\<lambda>_. 1000), rx_modes = (1, 0)\<rparr>"

text \<open>An empty log.\<close>

definition log_ex :: tsch_log where
  "log_ex = \<lparr>log_ringbuf = \<lparr>rb_mask = 7, put_ptr = 0, get_ptr = 0\<rparr>,
     log_array = replicate 8 \<lparr>lg_body = tsch_log_message, lg_asn = \<lparr>ls4b = 0, ms1b = 0\<rparr>, lg_link = None, lg_burst_count = 0,
       lg_channel = 0, lg_channel_offset = 0\<rparr>,
     log_dropped = 0, log_active = True, log_polled = False\<rparr>"

definition slot_ex :: slot_state where
  "slot_ex = \<lparr>so_sched = sched_ex, so_sync = ts2_ex, so_qb = qs_ex, so_pan_id = 0xABCD,
     dequeued_ringbuf = \<lparr>rb_mask = 7, put_ptr = 0, get_ptr = 0\<rparr>, dequeued_array = replicate 8 None,
     input_ringbuf = \<lparr>rb_mask = 3, put_ptr = 0, get_ptr = 0\<rparr>,
     input_array = replicate 4 \<lparr>payload = [], rx_asn = \<lparr>ls4b = 0, ms1b = 0\<rparr>, in_len = 0, in_rssi = 0, in_channel = 0\<rparr>,
     last_sync_asn = \<lparr>ls4b = 4, ms1b = 0\<rparr>, tsch_last_sync_time = 0, drift_correction = 0, is_drift_correction_used = False,
     current_slot_start = 1000, tsch_current_channel = 15, tsch_current_channel_offset = 0, backup_link = None,
     current_packet = None, current_neighbor = None, burst_link_scheduled = False, tsch_current_burst_count = 0,
     tsch_current_asn = \<lparr>ls4b = 4, ms1b = 0\<rparr>, tsch_join_priority = 1, tsch_is_associated = True, tsch_is_coordinator = False,
     tsch_hopping_sequence = [15, 25, 26, 20], tsch_hopping_sequence_length = the (TSCH_ASN_DIVISOR_INIT 4),
     tsch_timing_us = [1800, 128, 2120, 1020, 800, 1000, 2200, 400, 192, 2400, 4256, 10000],
     tsch_timing = [1800, 128, 2120, 1020, 800, 1000, 2200, 400, 192, 2400, 4256, 10000],
     tx_count = 0, rx_count = 0, sync_count = 0, rx_frame = zero_frame, input_queue_drop = 0, so_log = [], so_tlog = log_ex\<rparr>"

definition slot_tx_ex :: slot_state where
  "slot_tx_ex = (with_current (Some 0) slot_ex)\<lparr>current_packet := Some 0, current_neighbor := Some 2\<rparr>"

lemma tam_ok_slot_ex: "tam_ok (so_sched slot_ex)"
  by (simp add: slot_ex_def tam_ok_def sched_ex_def sf_ex_def tx_ex_def rx_ex_def sf_len_def TSCH_ASN_DIVISOR_INIT_def)

lemma prepara_ex:
  "n < 100 \<Longrightarrow> prepara sched_ex 10000 0 n (slot_ex\<lparr>tsch_is_coordinator := b, last_sync_asn := a, tsch_last_sync_time := t\<rparr>)"
  using tam_ok_slot_ex
  by (simp add: prepara_def slot_ex_def sync_ok_def ts2_ex_def ts_ex_def TSCH_DRIFT_UNIT_def tsch_ts_timeslot_length_def
      rd_def agenda_def)

lemma slot_operation_ex:
  "\<exists>s'. tsch_slot_operation conf_ex env_ex (slot_ex\<lparr>tsch_is_coordinator := True\<rparr>) = Some s' \<and> tsch_is_associated s' \<and>
     \<not> burst_link_scheduled s'"
proof -
  let ?s = "slot_ex\<lparr>tsch_is_coordinator := True\<rparr>"
  let ?v = "?s\<lparr>last_sync_asn := tsch_current_asn slot_ex, tsch_last_sync_time := 0\<rparr>"
  let ?u = "(log_add tsch_log_message ?s)\<lparr>last_sync_asn := tsch_current_asn slot_ex, tsch_last_sync_time := 0\<rparr>"
  have "prepara sched_ex 10000 0 (length [1000 :: u64]) ?v" by (rule prepara_ex) simp
  then have p: "prepara sched_ex 10000 0 (length [1000 :: u64]) ?u" by (simp add: prepara_def)
  obtain s' where l: "schedule_loop (schedule_step conf_ex) [1000] ?u = Some s'"
    using schedule_loop_total [OF p, of conf_ex 1 1000] by (auto simp: conf_ex_def slot_ex_def)
  have "slot_body conf_ex env_ex ?s = Some (log_add tsch_log_message ?s)" by (simp add: slot_body_def slot_ex_def sched_ex_def)
  moreover have "must_leave ?u = Some False" by (simp add: must_leave_def slot_ex_def)
  moreover have "tsch_is_associated ?s" "tsch_is_coordinator ?s" "rtimer_now env_ex = [1000]" "clock_time env_ex = 0"
    "tsch_current_asn ?s = tsch_current_asn slot_ex"
    by (simp_all add: slot_ex_def env_ex_def)
  ultimately have "tsch_slot_operation conf_ex env_ex ?s = Some (lock_flags (tsch_in_slot_operation_update (\<lambda>_. False)) s')"
    using l unfolding tsch_slot_operation_def Let_def by simp
  then show ?thesis using schedule_loop_keeps [OF l] by (auto simp: lock_flags_def on_queue_def slot_ex_def)
qed

lemma filas_ex: "rb_ok (dequeued_ringbuf slot_ex)" "rb_sz (dequeued_ringbuf slot_ex) = 8"
  "ringbufindex_peek_put (dequeued_ringbuf slot_ex) = 0"
  "rb_ok (input_ringbuf slot_ex)" "rb_sz (input_ringbuf slot_ex) = 4" "ringbufindex_peek_put (input_ringbuf slot_ex) = 0"
proof -
  have "rb_k 3 (dequeued_ringbuf slot_ex)" "rb_k 2 (input_ringbuf slot_ex)"
    by (simp_all add: slot_ex_def rb_k_def mask_eq_exp_minus_1)
  then show "rb_ok (dequeued_ringbuf slot_ex)" "rb_ok (input_ringbuf slot_ex)" unfolding rb_ok_def by blast+
  show "rb_sz (dequeued_ringbuf slot_ex) = 8" "rb_sz (input_ringbuf slot_ex) = 4"
    by (simp_all add: slot_ex_def rb_sz_def)
  show "ringbufindex_peek_put (dequeued_ringbuf slot_ex) = 0" "ringbufindex_peek_put (input_ringbuf slot_ex) = 0"
    by (simp_all add: slot_ex_def ringbufindex_peek_put_def rb_dif_def)
qed

lemma tx_slot_ex: "\<exists>s'. tsch_tx_slot conf_ex env_ex slot_tx_ex = Some s'"
proof -
  have "\<not> Option.is_none (tsch_tx_slot conf_ex env_ex slot_tx_ex)" by code_simp
  then show ?thesis by (cases "tsch_tx_slot conf_ex env_ex slot_tx_ex") simp_all
qed

lemma slot_tx_simps:
  "current_packet slot_tx_ex = Some 0" "current_neighbor slot_tx_ex = Some 2" "so_queue slot_tx_ex = tq_ex"
  "dequeued_ringbuf slot_tx_ex = dequeued_ringbuf slot_ex" "length (dequeued_array slot_tx_ex) = 8"
  "tq_em tq_ex = [0, 1, 2]" "so_pan_id slot_tx_ex = 0xABCD" "linkaddr_node_addr (so_sched slot_tx_ex) = addr_of_num 3"
  using em_ex by (simp_all add: slot_tx_ex_def slot_ex_def with_current_def sched_ex_def tq_ex_def)

text \<open>A data packet that asks for an acknowledgement, and the state that has parsed it.\<close>

definition pacote_ex :: input_packet where
  "pacote_ex = \<lparr>payload = [0x61, 0x98], rx_asn = \<lparr>ls4b = 4, ms1b = 0\<rparr>, in_len = 2, in_rssi = 0, in_channel = 15\<rparr>"

definition rx_slot_ex :: slot_state where
  "rx_slot_ex = slot_ex\<lparr>rx_frame := zero_frame\<lparr>fr_fcf := (fr_fcf zero_frame)\<lparr>ack_required := 1\<rparr>, fr_seq := 9\<rparr>\<rparr>"

lemma rx_slot_simps:
  "rd (tsch_timing rx_slot_ex) tsch_ts_max_tx = Some 4256" "rd (tsch_timing rx_slot_ex) tsch_ts_tx_ack_delay = Some 1000"
  "ack_required (fr_fcf (rx_frame rx_slot_ex)) = 1" "so_pan_id rx_slot_ex = 0xABCD"
  by (simp_all add: rx_slot_ex_def slot_ex_def rd_def tsch_ts_max_tx_def tsch_ts_tx_ack_delay_def)

text \<open>A data frame from node 2 to node 3 of the PAN that asks for an acknowledgement.\<close>

definition env_rx_ex :: ambiente where
  "env_rx_ex = env_ex\<lparr>packet_seen := True, pending_packet := True, read_len := 21,
     read_payload := [0x61, 0xDC, 9, 0xCD, 0xAB, 3, 0, 3, 0, 3, 0, 3, 0, 2, 0, 2, 0, 2, 0, 2, 0] @ replicate 107 0\<rparr>"

lemma env_rx_ex:
  "case frame802154_parse False False (read_payload env_rx_ex) (read_len env_rx_ex) (rx_frame slot_ex) of
     None \<Rightarrow> False | Some (h, f) \<Rightarrow> quadro_meu (so_pan_id slot_ex) (linkaddr_node_addr (so_sched slot_ex)) h f"
  by code_simp

lemma rx_slot_ex: "\<exists>s'. tsch_rx_slot conf_ex env_rx_ex slot_ex = Some s'"
proof -
  have "\<not> Option.is_none (tsch_rx_slot conf_ex env_rx_ex slot_ex)" by code_simp
  then show ?thesis by (cases "tsch_rx_slot conf_ex env_rx_ex slot_ex") simp_all
qed

text \<open>A whole node: the slot state above with an empty packet buffer, and what the other layers answer.\<close>

definition mconf_ex :: mac_conf where
  "mconf_ex = \<lparr>mc_conf = conf_ex, mc_eb = c_ex, victim = (\<lambda>_. None), is_in_leaf_mode = False, node_has_joined = True\<rparr>"

definition menv_ex :: mac_env where
  "menv_ex = \<lparr>me_clock = 500, me_now = 9000, me_random = 7, me_random2 = 5, me_frame = zero_frame, me_ies = zero_ies 4, me_hdrlen = 0\<rparr>"

definition mac_ex :: tsch_mac where
  "mac_ex = \<lparr>m_slot = slot_ex\<lparr>tsch_is_coordinator := True\<rparr>, m_dsn = 0, m_dsn_init = False, m_pb = pb m_ex,
     received_seqnos = replicate 16 \<lparr>sq_sender = linkaddr_null, sq_timestamp = 0, sq_seqno = 0\<rparr>,
     last_eb_nbr_addr = linkaddr_null, last_eb_nbr_jp = 0, tsch_default_timing_us = tsch_timeslot_timing_us_10000,
     tsch_is_started = True, tsch_is_initialized = True, tsch_association_count = 0, tsch_is_pan_secured = False,
     tsch_packet_seqno = 1, tsch_current_eb_period = 2000, keepalive_timer = None, current_channel = 0,
     current_channel_since = 0, m_log = []\<rparr>"

lemma mac_ok_ex: "mac_ok mac_ex"
  by (simp add: mac_ok_def mac_ex_def slot_ok_def slot_ex_def tsch_ts_elements_count_def US_TO_RTIMERTICKS_def
      TSCH_DEFAULT_HOPPING_SEQUENCE_def IEEE802154_PANID_def TSCH_ASN_DIVISOR_INIT_def MAX_SEQNOS_def
      TSCH_MAX_EB_PERIOD_def CLOCK_SECOND_def)

text \<open>Node 4, not in a network, with the queues of tq-ex.\<close>

definition mac_novo_ex :: tsch_mac where
  "mac_novo_ex = mac_ex\<lparr>m_slot := slot_ex\<lparr>tsch_is_associated := False,
     so_sched := sched_ex\<lparr>linkaddr_node_addr := addr_of_num 4\<rparr>\<rparr>\<rparr>"

lemma mac_novo_ex: "mac_ok mac_novo_ex" "\<not> associated mac_novo_ex" "\<not> coordinator mac_novo_ex" "m_queue mac_novo_ex = queue sched_ex"
proof -
  have "Mac_Facts.slot_ok (s\<lparr>tsch_is_coordinator := True\<rparr>) \<Longrightarrow> Mac_Facts.slot_ok (s\<lparr>tsch_is_associated := False, so_sched := h\<rparr>)" for s h
    by (simp add: Mac_Facts.slot_ok_def)
  from this [of slot_ex] show "mac_ok mac_novo_ex"
    using mac_ok_ex by (simp add: mac_novo_ex_def mac_ok_def mac_ex_def)
qed (simp_all add: mac_novo_ex_def slot_ex_def mac_ex_def)

lemma ts_none_ex: "tsch_queue_get_time_source tq_ex = None"
  by code_simp

lemma add_nbr_ex: "\<exists>k q. tsch_queue_add_nbr None (addr_of_num 3) tq_ex = Some (Some k, q)"
proof -
  have "case tsch_queue_add_nbr None (addr_of_num 3) tq_ex of Some (Some k, q) \<Rightarrow> True | _ \<Rightarrow> False" by code_simp
  then show ?thesis by (auto split: option.splits)
qed

lemma log_vazio_ex: "log_ok (so_tlog slot_ex)" "log_active (so_tlog slot_ex)" "entradas (so_tlog slot_ex) = []"
proof -
  have "rb_k 3 (log_ringbuf log_ex)" by (simp add: log_ex_def rb_k_def mask_eq_exp_minus_1)
  then have "rb_ok (log_ringbuf log_ex)" unfolding rb_ok_def by blast
  then show "log_ok (so_tlog slot_ex)" by (simp add: slot_ex_def log_ok_def log_ex_def rb_sz_def TSCH_LOG_QUEUE_LEN_def)
qed (simp_all add: slot_ex_def log_ex_def entradas_def rbi.conteudo_def rb_els_def rb_dif_def)

text \<open>A frame of node 5 to node 3 that asks for no acknowledgement.\<close>

definition env_ouve_ex :: ambiente where
  "env_ouve_ex = env_rx_ex\<lparr>read_payload := [0x41, 0xDC, 9, 0xCD, 0xAB, 3, 0, 3, 0, 3, 0, 3, 0, 5, 0, 5, 0, 5, 0, 5, 0] @ replicate 107 0\<rparr>"

lemma env_ouve_ex:
  "\<exists>h f. frame802154_parse False False (read_payload env_ouve_ex) (read_len env_ouve_ex) (rx_frame slot_ex) = Some (h, f)
     \<and> quadro_meu (so_pan_id slot_ex) (linkaddr_node_addr (so_sched slot_ex)) h f \<and> ack_required (fr_fcf f) = 0
     \<and> node_num (fr_src_addr f) = 5"
proof -
  have "case frame802154_parse False False (read_payload env_ouve_ex) (read_len env_ouve_ex) (rx_frame slot_ex) of
     None \<Rightarrow> False | Some (h, f) \<Rightarrow> quadro_meu (so_pan_id slot_ex) (linkaddr_node_addr (so_sched slot_ex)) h f
       \<and> ack_required (fr_fcf f) = 0 \<and> node_num (fr_src_addr f) = 5"
    by code_simp
  then show ?thesis by (auto split: option.splits)
qed

lemma ouve_slot_ex: "\<exists>s'. tsch_rx_slot conf_ex env_ouve_ex slot_ex = Some s'"
proof -
  have "\<not> Option.is_none (tsch_rx_slot conf_ex env_ouve_ex slot_ex)" by code_simp
  then show ?thesis by (cases "tsch_rx_slot conf_ex env_ouve_ex slot_ex") simp_all
qed

text \<open>The application on node 3, which has heard only node 4, without a topology file.\<close>

definition app_ex :: app where
  "app_ex = \<lparr>ap_mac = mac_ex\<lparr>m_slot := slot_ex\<lparr>so_sched := sched_ex\<lparr>NBRlist := [4, 0, 0, 0],
     arvore := \<lparr>texto = None, gravavel = True\<rparr>\<rparr>\<rparr>\<rparr>, verify = 0, aux_id = 0, seqnum = 0, ap_log = []\<rparr>"

definition app_env_ex :: app_env where
  "app_env_ex = \<lparr>ae_random = 7, ae_random2 = 5, ae_lixo = (0, 0), ae_sorteio = (\<lambda>_ _. 0), ae_canais = (\<lambda>_ _. 0),
     ae_lixo2 = (0, 0), ae_lixo4 = (0, 0, 0, 0), ae_reachable = False\<rparr>"

lemma app_rounds_ex: "\<exists>a'. app_rounds mconf_ex 3 [(app_env_ex, \<lambda>m. m), (app_env_ex, \<lambda>m. m)] app_ex = Some a'"
proof -
  have "\<not> Option.is_none (app_rounds mconf_ex 3 [(app_env_ex, \<lambda>m. m), (app_env_ex, \<lambda>m. m)] app_ex)" by code_simp
  then show ?thesis by (cases "app_rounds mconf_ex 3 [(app_env_ex, \<lambda>m. m), (app_env_ex, \<lambda>m. m)] app_ex") simp_all
qed

end
