(* ===== verification/Spec2Isabelle.thy ===== *)
theory Spec2Isabelle
  imports Cenarios
begin

text \<open>
  TSCH with static load-balanced scheduling: the TSCH MAC layer of a Contiki-NG tree in which every
  node computes the slots of the whole network from a shared file and moves its own links to them.
  This library models the C code under src/ that this needs and proves what makes it correct. The
  root theory holds the properties; every other theory holds one part of the program.

  The parts and how they interact. The application (examples/6tisch/tschLBV/node.c) asks
  tsch-schedule.c for links; tsch-schedule.c keeps slotframes and links (linked lists of blocks
  from memory pools), writes the links it adds into a text file, and in SCHEDULE-static reads the
  links of all nodes back, builds the conflict graph of the edges (conf.c), simulates the transport
  of one packet per node over the matchings that conf.c finds, and moves the links of this node.
  The slot operation (tsch-slot-operation.c) asks tsch-schedule.c for the next active link and
  tsch-queue.c for a packet, drives the radio, corrects the clock with what the time source says
  (tsch-adaptive-timesync.c) and leaves received frames and sent packets in two ring buffers for the
  main program, and an entry for every frame in a third, the log (tsch-log.c), from which the main program
  learns the neighbors of the node; the queues live in the neighbor table (nbr-table.c) and are ring buffers of packets
  from a pool, whose contents are queue buffers (queuebuf.c). Beacons and acknowledgements are built and parsed by
  tsch-packet.c from the frame header (frame802154.c, framer-802154.c, packetbuf.c) and the
  information elements (frame802154e-ie.c). A lock keeps the main program and the slot interrupt
  apart.

  The theories, each with the code it models; definitions have the names of the C functions.
    Tsch-Prelude: undefined behaviour as None, the predicate runs-to, array accesses, for loops.
    Asn: tsch-asn.h.  Linkaddr: linkaddr.c.  Memb: lib/memb.c, with the locale pool.
    Clist: lib/list.c on a heap of next pointers, with the abstract lists the other parts use.
    Ringbufindex: lib/ringbufindex.c, lib/ringbuf.c, with the locale index-queue.
    Nbr-Table: net/nbr-table.c.  Tsch-Lock: the lock of tsch-slot-operation.c.
    Tsch-Queue: tsch-queue.c.  Topology-File: stdio and the two text files.
    Conflict-Graph: conf.c and network-graph.h.  Tsch-Schedule: slotframes, links and the next
    active link of tsch-schedule.c.  Static-Schedule: the static scheduler of tsch-schedule.c.
    Frame-IE: frame802154e-ie.c.  Frame802154: frame802154.c.  Packetbuf: packetbuf.c.
    Framer802154: framer-802154.c.  Tsch-Packet: tsch-packet.c.  Queuebuf: queuebuf.c.
    Tsch-Timesync: tsch-adaptive-timesync.c and the keep-alive settings of tsch.c.
    Tsch-Log: the log of tsch-log.c, which is how a node finds its neighbors and counts its packets.
    Slot-Operation: tsch-slot-operation.c; Slot-Facts: what its functions keep and do.
    Tsch-Mac: tsch.c, mac-sequence.c and the callback of mac.c; Mac-Facts: the type of the state of a
    node, kept by all of its steps; Association: joining from a beacon that another node built.
    Log-Facts: what a received frame leaves in the log and what the evaluation makes of it.
    Tsch-Rpl: the callbacks of tsch-rpl.c by which RPL sets the role, the beacon period, the join priority and
    the time source of a node.  Node-App: the process of the application, examples/6tisch/tschLBV/node.c.
    Cenarios: concrete states for the witnesses.

  How code is read. A machine integer is a word of its width; C ints whose values stay small
  (node, edge and packet numbers) are int. A pointer into a pool is the number of the block, NULL is
  None; a pointer into a byte buffer is the list of the bytes from it to the end of the object. A
  result of type option is None when C has no defined result: an access outside an array, a
  NULL dereference, a division by zero, or a loop that never ends. Loops whose end is not obvious
  are partial functions into option, so the properties that say Some prove termination and the
  absence of such accesses at the same time. Uninitialised memory and random numbers are arguments.
  The slot operation is a protothread: one activation, from the wake-up at a slot start to the
  schedule of the next, is one function of the state; every wait inside it is an event of a trace
  with the radio commands, and what the hardware answers (clear channel, transmission results, the
  frame and acknowledgement on the air, the times read) is the record ambiente. A process of tsch.c is
  what it does between two waits; mac-step relates a node to the result of anything that
  can happen on it, which is None when the code has no defined result, mac-runs is the chains of steps with a result, and
  mac-ok the type of its state. The readings of the
  timer while the next slots are scheduled are a list, one per attempt.

  What the groups of lemmas show. The -run and -spec lemmas of a theory say what each operation
  does on every branch; the invariants (nt-inv, rep, pb-ok, the locks lock-inv) are kept by the
  operations; the locales pool, index-queue, list-iter and formato are the contracts the clients rely
  on, each interpreted on the model of the code. Static-Schedule carries the invariant of the simulation
  (turno-inv, simula-inv) and the run of the scheduler (SCHEDULE-run). Frame-IE, Frame802154 and
  Tsch-Packet give the bytes each create function writes and what the parsers read from them.
  Slot-Facts uses sempre, the partial-correctness predicate of the prelude, whose rules (collection
  leva) carry a fact through the binds and branches of a long function: which parts of the state
  a slot keeps, what its ring buffers gain, when the radio is off, how slot number and clock move.

  Bounds. SCHEDULE-static is shown to end and to stay inside its 16 by 8 table for trees whose
  heights add up to at most 8: the simulation then needs at most 8 turns, one per column. The
  parser of information elements is shown to stay inside the frame plus 8 bytes, which the buffers
  of the radio drivers have.

  The build is that of examples/6tisch/tschLBV: 8-byte addresses, no link-layer security, no link
  selector, MAX-NOS 6, 16 channels and 8 slots in the table, queues of 64 entries
  (QUEUEBUF-CONF-NUM of the cooja platform), hardware frame filtering on. Options a function depends on and that
  are easy to carry (6top elements, the elements of a beacon, auxiliary security headers) are
  arguments.

  Not modelled: the messages that tsch-get-lock writes into the log, tsch-security.c (absent from this build),
  tsch-stats.c, 6top, the radio drivers, the clock and rtimer modules, the routing and IPv6 layers;
  the printing of logs.
  The two directories beside os/net/mac/tsch with similar names are older copies of it.
\<close>

section \<open>The static scheduler\<close>

text \<open>
  C1: SCHEDULE-static on a tree. Let the topology file hold a tree rooted at node 1 whose heights add up to
  at most 8, let there be a slotframe with handle 2 in which this node has exactly one Tx link, whose handle is the
  number of its edge, let the file of channels hold well-formed lines and be writable, let the lock be free
  and the random numbers be such that DCFL finds a start. The call returns 1; the table that
  aloca computes from the topology file has no two conflicting entries in a slot and a slot for every sender; the link
  moves to the place (timeslot, channel) of the first entry of that table with its edge, channel by channel; the line with the new
  place is appended to the file of channels, every Rx link takes the place its last line in that
  file gives, counting is switched on and the lock is free again.
\<close>

theorem SCHEDULE_static_moves_link:
  assumes "livre (tq_lk (queue s))" and "tsch_schedule_get_slotframe_by_handle unicast_slotframe_handle s = Some i"
    and "texto (arvore s) = Some (concat (map linha_dd xs))"
    and "\<forall>v \<in> set xs. linha_ok v" and "xs \<noteq> []" and "\<forall>(x, y) \<in> arcos xs. x \<noteq> 0 \<and> y \<noteq> 0"
    and "rede_ok (arestas_de xs) h" and "alturas (arestas_de xs) h \<le> 8"
    and "distinct (map fst (arestas_de xs))" and "\<forall>k. sorteio_ok (rnd k)"
    and "t < length (arestas_de xs)" and "link_tx_unico s i k t" and "linhas_TCH (TCH s) ts"
  shows "\<exists>al x y bw s'. aloca rnd lixo lixo2 (concat (map linha_dd xs)) = Some al \<and> tabela_ok (arestas_de xs) al \<and>
    x < Channel \<and> y < Timeslot \<and> cell al x y = int t \<and>
    (\<forall>x' y'. y' < Timeslot \<and> (x' < x \<or> x' = x \<and> y' < y) \<longrightarrow> cell al x' y' \<noteq> int t) \<and>
    SCHEDULE_static rnd lixo lixo2 lixo4 s = Some (1, bw, s') \<and> depois s i k ts x y s'"
  using SCHEDULE_run [OF assms, of lixo lixo2 lixo4] by (simp add: primeira_def)

theorem SCHEDULE_static_moves_link_witness:
  "\<exists>al x y bw s'. aloca (\<lambda>_ _. 2) (\<lambda>_ _. 0) (0, 0) (concat (map linha_dd xs_ex)) = Some al \<and> cell al x y = 1 \<and>
    SCHEDULE_static (\<lambda>_ _. 2) (\<lambda>_ _. 0) (0, 0) (0, 0, 0, 0) sched_ex = Some (1, bw, s') \<and>
    depois sched_ex 0 0 [(4, 3, 5, 2)] x y s'"
proof -
  have a: "1 < length (arestas_de xs_ex)" "\<forall>k. sorteio_ok ((\<lambda>_ _. 2) (k :: nat))" using sorteio_ex by (simp_all add: arestas_ex)
  show ?thesis
    using SCHEDULE_static_moves_link [OF tq_livre_ex(2) slotframe_ex arvore_ex linhas_ex rede_ex a(2,1) tx_unico_ex TCH_ex,
      of "\<lambda>_ _. 0" "(0, 0)" "(0, 0, 0, 0)"] unfolding of_nat_1 by blast
qed

text \<open>
  C2: The simulation inside SCHEDULE-static ends, without an access outside its arrays, on every
  layered topology whose heights add up to at most 8, whatever acceptable random numbers DCFL
  draws and whatever the uninitialised memory holds; the table it fills has no two conflicting
  entries in a slot and a slot for every sender.
\<close>

theorem aloca_terminates_conflict_free:
  assumes "\<forall>v \<in> set xs. linha_ok v" and "xs \<noteq> []" and "\<forall>(x, y) \<in> arcos xs. x \<noteq> 0 \<and> y \<noteq> 0"
    and "rede_ok (arestas_de xs) h" and "alturas (arestas_de xs) h \<le> 8" and "\<forall>k. sorteio_ok (rnd k)"
  shows "\<exists>al. aloca rnd lixo lixo2 (concat (map linha_dd xs)) = Some al \<and> tabela_ok (arestas_de xs) al"
  using aloca_run [OF assms, of lixo lixo2] by (simp add: runs_to_def)

theorem aloca_terminates_conflict_free_witness:
  "\<exists>al. aloca (\<lambda>_ _. 2) (\<lambda>_ _. 7) (0, 0) (concat (map linha_dd xs_ex)) = Some al \<and> tabela_ok [(2, 1), (3, 2), (4, 3)] al"
  using aloca_terminates_conflict_free [OF linhas_ex rede_ex(1,2), of "\<lambda>_ _. 2"] sorteio_ex by (simp add: arestas_ex)

section \<open>The conflict graph and the matching\<close>

text \<open>
  C3: geraMaching on the conflict matrix computed by fazMatrizConf returns a matching: the chosen
  edges form a maximal independent set of the conflict graph that contains the start edge, the
  result holds exactly those of them whose sender has packets, and no two of them share a node.
\<close>

theorem geraMaching_maximal_matching:
  assumes m: "mapa_ok n t mapa" and "length pacotes = t" and "t \<le> r"
    and "dims n n g0" and "fazMatrizConf n mapa g0 = Some gc"
    and "node < n" and "dims n 2 vetor" and d: "dims r r (mat_adj res)"
    and z: "\<forall>i < r. \<forall>j < r. i = 0 \<or> j = 0 \<or> t \<le> i \<or> t \<le> j \<longrightarrow> cell (mat_adj res) i j = 0"
  shows "\<exists>res' vetor' S. geraMaching n t pacotes gc mapa node res vetor = Some (res', vetor') \<and>
     node \<in> S \<and> independente_maximal mapa n S \<and> sem_no_comum r (mat_adj res') \<and>
     (\<forall>i < r. \<forall>j < r. cell (mat_adj res') i j =
        (if \<exists>x \<in> S. cell mapa x 0 = int i \<and> cell mapa x 1 = int j \<and> pacotes ! i > 0 then 1 else 0))"
proof -
  obtain res' vetor' S where r: "geraMaching n t pacotes gc mapa node res vetor = Some (res', vetor')"
    "node \<in> S" "independente_maximal mapa n S" and c: "\<forall>i < r. \<forall>j < r. cell (mat_adj res') i j =
        (if \<exists>x \<in> S. cell mapa x 0 = int i \<and> cell mapa x 1 = int j \<and> pacotes ! i > 0 then 1
         else if 1 \<le> i \<and> i < t \<and> 1 \<le> j \<and> j < t then 0 else cell (mat_adj res) i j)"
    using geraMaching_run [OF assms(1-8)] by blast
  have c': "\<forall>i < r. \<forall>j < r. cell (mat_adj res') i j =
        (if \<exists>x \<in> S. cell mapa x 0 = int i \<and> cell mapa x 1 = int j \<and> pacotes ! i > 0 then 1 else 0)"
  proof (intro allI impI)
    fix i j
    assume ij: "i < r" "j < r"
    have "i = 0 \<or> j = 0 \<or> t \<le> i \<or> t \<le> j \<or> 1 \<le> i \<and> i < t \<and> 1 \<le> j \<and> j < t" by linarith
    then have "(if 1 \<le> i \<and> i < t \<and> 1 \<le> j \<and> j < t then 0 else cell (mat_adj res) i j) = 0"
      using z [rule_format, OF ij] by auto
    then show "cell (mat_adj res') i j =
        (if \<exists>x \<in> S. cell mapa x 0 = int i \<and> cell mapa x 1 = int j \<and> pacotes ! i > 0 then 1 else 0)"
      unfolding c [rule_format, OF ij] by (simp only:)
  qed
  have "sem_no_comum r (mat_adj res')"
    by (rule independente_sem_no_comum [OF r(3)]) (use c' in \<open>auto split: if_splits\<close>)
  then show ?thesis using r c' by blast
qed

theorem geraMaching_maximal_matching_witness:
  "\<exists>res' vetor' S. geraMaching 2 4 [0, 0, 1, 1] [[0, 1], [1, 0]] [[2, 1], [3, 2]] 1
       \<lparr>mat_adj = replicate 4 (replicate 4 0)\<rparr> [[0, 0], [0, 0]] = Some (res', vetor') \<and>
     1 \<in> S \<and> independente_maximal [[2, 1], [3, 2]] 2 S \<and> sem_no_comum 4 (mat_adj res') \<and>
     (\<forall>i < 4. \<forall>j < 4. cell (mat_adj res') i j = (if \<exists>x \<in> S. cell [[2, 1], [3, 2]] x 0 = int i \<and>
        cell [[2, 1], [3, 2]] x 1 = int j \<and> [0, 0, 1, 1 :: int] ! i > 0 then 1 else 0))"
proof (rule geraMaching_maximal_matching [of 2 4 "[[2, 1], [3, 2]]" "[0, 0, 1, 1]" 4 "[[0, 0], [0, 0]]"])
  show "mapa_ok 2 4 [[2, 1], [3, 2]]" by (simp add: mapa_ok_def dims_def less_2_cases_iff)
  show "fazMatrizConf 2 [[2, 1], [3, 2]] [[0, 0], [0, 0]] = Some [[0, 1], [1, 0]]" by code_simp
  show "\<forall>i < 4. \<forall>j < 4. i = 0 \<or> j = 0 \<or> 4 \<le> i \<or> 4 \<le> j \<longrightarrow>
      cell (mat_adj \<lparr>mat_adj = replicate 4 (replicate 4 0)\<rparr>) i j = 0" by simp
qed (simp_all add: dims_def)

text \<open>
  C4: fazMatrizConf computes the conflict graph: a symmetric relation without loops in which two
  edges with a common node always conflict.
\<close>

theorem fazMatrizConf_conflicts:
  assumes "dims n 2 mapa" and "dims n n g0"
  shows "\<exists>g. fazMatrizConf n mapa g0 = Some g \<and> dims n n g \<and>
    (\<forall>x < n. \<forall>i < n. cell g x i = (if conflito mapa n x i then 1 else 0) \<and> cell g x i = cell g i x \<and>
       (x = i \<longrightarrow> cell g x i = 0) \<and> (x \<noteq> i \<and> (\<exists>v. toca mapa x v \<and> toca mapa i v) \<longrightarrow> cell g x i = 1))"
proof -
  obtain g where g: "fazMatrizConf n mapa g0 = Some g" "dims n n g"
    and c: "\<And>x i. x < n \<Longrightarrow> i < n \<Longrightarrow> cell g x i = (if conflito mapa n x i then 1 else 0)"
    using fazMatrizConf_spec [OF assms] by blast
  have "conflito mapa n x i \<longleftrightarrow> conflito mapa n i x" for x i by (rule conflito_sym)
  moreover have "\<not> conflito mapa n x x" for x by (simp add: conflito_def)
  ultimately show ?thesis using g c conflito_toca by fastforce
qed

theorem fazMatrizConf_conflicts_witness:
  "\<exists>g. fazMatrizConf 3 [[2, 1], [3, 2], [4, 3]] (replicate 3 (replicate 3 5)) = Some g \<and> cell g 0 1 = 1 \<and> cell g 2 2 = 0"
proof -
  have d: "dims 3 2 [[2, 1], [3, 2], [4, 3 :: int]]" by (simp add: dims_def)
  let ?m = "[[2, 1], [3, 2], [4, 3 :: int]]"
  obtain g where g: "fazMatrizConf 3 ?m (replicate 3 (replicate 3 5)) = Some g"
    and c0: "\<forall>x < 3. \<forall>i < 3. x = i \<longrightarrow> cell g x i = 0"
    and c1: "\<forall>x < 3. \<forall>i < 3. x \<noteq> i \<and> (\<exists>v. toca ?m x v \<and> toca ?m i v) \<longrightarrow> cell g x i = 1"
    using fazMatrizConf_conflicts [OF d dims_replicate, of 5] by blast
  have "toca ?m 0 2 \<and> toca ?m 1 2" by (simp add: toca_def)
  then have "cell g 0 1 = 1" using c1 [rule_format, of 0 1] by auto
  moreover have "cell g 2 2 = 0" using c0 by simp
  ultimately show ?thesis using g by blast
qed

section \<open>The schedule\<close>

text \<open>
  C5: tsch-schedule-get-next-active-link, outside the lock, in a schedule that has a link and in which the
  timeslot of every link is below the length of its slotframe: the offset it returns is that of the
  earliest slot after asn in which any link of the schedule is active; the link it returns is
  active in that slot, is a Tx link if any link active in that slot is one, and has the smallest slotframe
  handle among those of its kind; the backup link is an Rx link of the schedule that is active in that same slot, and there
  is one whenever another Rx link is active in it.
\<close>

theorem next_active_link_earliest:
  assumes ok: "tam_ok s" and "\<not> locked s" and ex: "\<exists>i \<in> set (slotframe_list s). sf_links (sf_at s i) \<noteq> []"
  shows "\<exists>t i b backup. tsch_schedule_get_next_active_link asn s = Some (Some b, Some t, backup) \<and>
    i \<in> set (slotframe_list s) \<and> b \<in> set (sf_links (sf_at s i)) \<and> 1 \<le> unat t \<and> ativo s i b (asn_val asn + unat t) \<and>
    (\<forall>j \<in> set (slotframe_list s). \<forall>l \<in> set (sf_links (sf_at s j)).
       (\<forall>k. 1 \<le> k \<and> k < unat t \<longrightarrow> \<not> ativo s j l (asn_val asn + k)) \<and>
       (ativo s j l (asn_val asn + unat t) \<longrightarrow> (tem_tx s l \<longrightarrow> tem_tx s b) \<and>
          (tem_tx s b = tem_tx s l \<longrightarrow> l_sf (link_at s b) \<le> l_sf (link_at s l)) \<and>
          (tem_rx s l \<longrightarrow> l = b \<or> backup \<noteq> None))) \<and>
    (\<forall>k. backup = Some k \<longrightarrow> tem_rx s k \<and>
       (\<exists>j \<in> set (slotframe_list s). k \<in> set (sf_links (sf_at s j)) \<and> ativo s j k (asn_val asn + unat t)))"
proof -
  let ?c = "set (candidatos s asn (slotframe_list s))"
  obtain t best backup where run: "tsch_schedule_get_next_active_link asn s = Some (best, Some t, backup)"
    and es: "escolha_ok s (candidatos s asn (slotframe_list s)) (t, best, backup)"
    using next_link_run [OF assms(1,2), of asn] by blast
  have "candidatos s asn (slotframe_list s) \<noteq> []" using ex by (auto simp: candidatos_def)
  then obtain b where best: "best = Some b" and b: "(t, b) \<in> ?c" and mn: "\<And>u l. (u, l) \<in> ?c \<Longrightarrow> t \<le> u"
    and pr: "\<And>l. (t, l) \<in> ?c \<Longrightarrow> (tem_tx s l \<longrightarrow> tem_tx s b) \<and>
            (tem_tx s b = tem_tx s l \<longrightarrow> l_sf (link_at s b) \<le> l_sf (link_at s l)) \<and> (tem_rx s l \<longrightarrow> l = b \<or> backup \<noteq> None)"
    and bk: "\<And>k. backup = Some k \<Longrightarrow> (t, k) \<in> ?c \<and> tem_rx s k"
    using es unfolding escolha_ok_def by auto
  obtain i where i: "i \<in> set (slotframe_list s)" "b \<in> set (sf_links (sf_at s i))" "t = distancia s asn i b"
    using b unfolding candidatos_iff by blast
  have t: "1 \<le> unat t" using distancia_spec(1) [OF ok i(1,2)] i(3) by simp
  have le: "t \<le> distancia s asn j l" if "j \<in> set (slotframe_list s)" "l \<in> set (sf_links (sf_at s j))" for j l
    using mn that unfolding candidatos_iff by blast
  have nenhum: "\<forall>k. 1 \<le> k \<and> k < unat t \<longrightarrow> \<not> ativo s j l (asn_val asn + k)"
    if l: "j \<in> set (slotframe_list s)" "l \<in> set (sf_links (sf_at s j))" for j l
    using distancia_spec(4) [OF ok l, of _ asn] le [OF l] by (auto simp: word_le_nat_alt)
  have melhor: "(tem_tx s l \<longrightarrow> tem_tx s b) \<and> (tem_tx s b = tem_tx s l \<longrightarrow> l_sf (link_at s b) \<le> l_sf (link_at s l)) \<and>
      (tem_rx s l \<longrightarrow> l = b \<or> backup \<noteq> None)"
    if l: "j \<in> set (slotframe_list s)" "l \<in> set (sf_links (sf_at s j))" "ativo s j l (asn_val asn + unat t)" for j l
    using pr [of l] distancia_ativo [OF ok l(1,2) t le [OF l(1,2)] l(3)] l unfolding candidatos_iff by blast
  have reserva: "\<exists>j \<in> set (slotframe_list s). k \<in> set (sf_links (sf_at s j)) \<and> ativo s j k (asn_val asn + unat t)"
    if "backup = Some k" for k
    using bk [OF that] distancia_spec(3) [OF ok, of _ _ asn] unfolding candidatos_iff by metis
  show ?thesis
    by (rule exI [of _ t], rule exI [of _ i], rule exI [of _ b], rule exI [of _ backup])
      (use run best i t distancia_spec(3) [OF ok i(1,2), of asn] nenhum melhor reserva bk in auto)
qed

theorem next_active_link_earliest_witness:
  "\<exists>t i b backup. tsch_schedule_get_next_active_link \<lparr>ls4b = 4, ms1b = 0\<rparr> sched_ex = Some (Some b, Some t, backup) \<and>
    i \<in> set (slotframe_list sched_ex) \<and> 1 \<le> unat t"
proof -
  have dv: "TSCH_ASN_DIVISOR_INIT (val (the (TSCH_ASN_DIVISOR_INIT 15))) = Some (the (TSCH_ASN_DIVISOR_INIT 15))"
    by code_simp
  have v: "val (the (TSCH_ASN_DIVISOR_INIT 15)) = 15" by code_simp
  have "tam_ok sched_ex" using dv
    by (simp add: tam_ok_def sched_ex_def sf_ex_def tx_ex_def rx_ex_def sf_len_def v)
  moreover have "\<exists>i \<in> set (slotframe_list sched_ex). sf_links (sf_at sched_ex i) \<noteq> []" by (simp add: sched_ex_def sf_ex_def)
  ultimately obtain t i b backup where
    "tsch_schedule_get_next_active_link \<lparr>ls4b = 4, ms1b = 0\<rparr> sched_ex = Some (Some b, Some t, backup) \<and>
      i \<in> set (slotframe_list sched_ex) \<and> b \<in> set (sf_links (sf_at sched_ex i)) \<and> 1 \<le> unat t"
    using next_active_link_earliest [OF _ tq_livre_ex(4), of "\<lparr>ls4b = 4, ms1b = 0\<rparr>"] by metis
  then show ?thesis by blast
qed

section \<open>The queues\<close>

text \<open>
  C6: tsch-queue-packet-sent for the packet at the head of the queue of a neighbor: the invariant of
  the queues is kept, the packet leaves the queue exactly when it was acknowledged or has used up
  its transmissions, nothing else in the queues moves, and the queue of every other neighbor stays as it is.
\<close>

theorem packet_sent_dequeues:
  assumes "tq_inv s" and "n \<in> set (tq_em s)" and "\<not> tsch_is_locked (tq_lk s)"
    and "fila_nbr (nbr_at s n) = Some p # ps"
  shows "\<exists>q s'. tsch_queue_packet_sent rnd n p opt st s = Some (q, s') \<and> tq_inv s' \<and>
    fila_nbr (nbr_at s' n) = (if q = 0 then ps else Some p # ps) \<and>
    (\<forall>j. j \<noteq> n \<longrightarrow> nbr_at s' j = nbr_at s j) \<and>
    (q = 0 \<longleftrightarrow> st = MAC_TX_OK \<or> pk_transmissions (mem (tq_pks s) ! p) \<ge> pk_max (mem (tq_pks s) ! p))"
proof -
  obtain q s' where r: "tsch_queue_packet_sent rnd n p opt st s = Some (q, s')"
  proof (cases "st = MAC_TX_OK")
    case True
    then show ?thesis using that packet_sent_run(1) [OF assms] by blast
  next
    case False
    then show ?thesis using that packet_sent_run(2) [OF assms False] by (simp add: Let_def)
  qed
  show ?thesis using packet_sent_inv [OF assms r] r by blast
qed

theorem packet_sent_dequeues_witness:
  "\<exists>q s'. tsch_queue_packet_sent 77 2 0 LINK_OPTION_TX MAC_TX_OK tq_ex = Some (q, s') \<and> tq_inv s' \<and>
    fila_nbr (nbr_at s' 2) = (if q = 0 then [Some 1] else [Some 0, Some 1]) \<and> q = 0"
proof -
  have "2 \<in> set (tq_em tq_ex)" using em_ex by (simp add: tq_ex_def)
  then show ?thesis using packet_sent_dequeues [OF tq_inv_ex _ tq_livre_ex(3) fila_ex] by blast
qed

text \<open>
  C7: tsch-queue-add-packet with the lock free: it always returns, keeps the invariant and leaves the
  lock free. An answer is a block that was free, holds the new packet and is the last one in the
  queue of a neighbor with the given address, whose earlier packets and all other queues are
  unchanged. A failure takes no block, and leaves the queues of a known neighbor alone.
\<close>

theorem add_packet_enqueues:
  assumes "tq_inv s" and "livre (tq_lk s)"
  shows "\<exists>r s'. tsch_queue_add_packet vic qb addr mx sent pt s = Some (r, s') \<and> tq_inv s' \<and> livre (tq_lk s') \<and>
    (\<forall>p. r = Some p \<longrightarrow> p \<notin> vivos (tq_pks s) \<and> mem (tq_pks s') ! p = pacote_novo qb mx sent pt (mem (tq_pks s) ! p) \<and>
      (\<exists>k \<in> set (tq_em s'). nt_addr (tq_nt s') k = addr \<and>
         fila_nbr (nbr_at s' k) =
           (if tsch_queue_get_nbr addr s = Some k then fila_nbr (nbr_at s k) else []) @ [Some p] \<and>
         (\<forall>j. j \<noteq> k \<longrightarrow> nbr_at s' j = nbr_at s j))) \<and>
    (r = None \<longrightarrow> vivos (tq_pks s') = vivos (tq_pks s) \<and>
      (\<forall>k. tsch_queue_get_nbr addr s = Some k \<longrightarrow> tq_nbrs s' = tq_nbrs s))"
  by (rule add_packet_run [OF assms])

theorem add_packet_enqueues_witness:
  "\<exists>r s'. tsch_queue_add_packet None (Some 3) (addr_of_num 2) 4 0 0 tq_ex = Some (r, s') \<and> tq_inv s'"
  using add_packet_enqueues [OF tq_inv_ex tq_livre_ex(1), of None "Some 3" "addr_of_num 2" 4 0 0] by blast

text \<open>
  C8: tsch-queue-flush-nbr-queue while TSCH is not locked empties the queue of the neighbor: the loop ends, exactly the blocks
  of its packets are given back, the sent callback of each is called in queue order before its
  buffer is freed, and the other queues are untouched. While TSCH is locked the loop never ends, whatever is queued.
\<close>

theorem flush_empties_queue:
  assumes "tq_inv s" and "k \<in> set (tq_em s)"
  shows "if tsch_is_locked (tq_lk s) then tsch_queue_flush_nbr_queue (Some k) s = None
     else \<exists>s'. tsch_queue_flush_nbr_queue (Some k) s = Some s' \<and> tq_inv s' \<and>
     fila_nbr (nbr_at s' k) = [] \<and> (\<forall>j. j \<noteq> k \<longrightarrow> nbr_at s' j = nbr_at s j) \<and>
     vivos (tq_pks s') = vivos (tq_pks s) - {i. Some i \<in> set (fila_nbr (nbr_at s k))} \<and>
     tq_log s' = tq_log s @ concat (map (flush_events s) (fila_nbr (nbr_at s k)))"
  using flush_run [OF assms] flush_locked [of s "Some k"] by (simp add: runs_to_def) blast

theorem flush_empties_queue_witness:
  "\<exists>s'. tsch_queue_flush_nbr_queue (Some 2) tq_ex = Some s' \<and> tq_inv s' \<and> vivos (tq_pks s') = {}"
proof -
  have m: "2 \<in> set (tq_em tq_ex)" using em_ex by (simp add: tq_ex_def)
  obtain s' where s': "tsch_queue_flush_nbr_queue (Some 2) tq_ex = Some s'" "tq_inv s'"
    "vivos (tq_pks s') = vivos (tq_pks tq_ex) - {i. Some i \<in> set (fila_nbr (nbr_at tq_ex 2))}"
    using flush_empties_queue [OF tq_inv_ex m] tq_livre_ex(3) by auto
  have "vivos (tq_pks s') = {}" unfolding s'(3) fila_ex vivos_ex by auto
  then show ?thesis using s' by blast
qed

text \<open>
  C9: tsch-queue-add-nbr with the lock free: it returns with the lock free and the invariant kept. A
  known neighbor is returned and nothing changes; a new one enters the table with the address, an
  empty queue, the least backoff exponent and no window; when the table gives no entry, nothing changes.
\<close>

theorem add_nbr_fresh_queue:
  assumes "tq_inv s" and "livre (tq_lk s)"
  shows "\<exists>r s'. tsch_queue_add_nbr vic addr s = Some (r, s') \<and> tq_inv s' \<and> livre (tq_lk s') \<and>
    tq_pks s' = tq_pks s \<and> (tsch_queue_get_nbr addr s \<noteq> None \<longrightarrow> r = tsch_queue_get_nbr addr s) \<and>
    (case r of None \<Rightarrow> tsch_queue_get_nbr addr s = None \<and> tq_nbrs s' = tq_nbrs s \<and> tq_nt s' = tq_nt s
     | Some k \<Rightarrow> k \<in> set (tq_em s') \<and> nt_addr (tq_nt s') k = addr \<and>
         (\<forall>j. j \<noteq> k \<longrightarrow> nbr_at s' j = nbr_at s j \<and> (j \<in> set (tq_em s') \<longrightarrow> j \<in> set (tq_em s))) \<and>
         (if tsch_queue_get_nbr addr s = Some k then s' = s else nbr_at s' k = nbr_novo addr))"
  by (rule add_nbr_run [OF assms])

theorem add_nbr_fresh_queue_witness:
  "\<exists>r s'. tsch_queue_add_nbr None (addr_of_num 5) tq_ex = Some (r, s') \<and> tq_inv s' \<and> livre (tq_lk s')"
  using add_nbr_fresh_queue [OF tq_inv_ex tq_livre_ex(1), of None "addr_of_num 5"] by blast

text \<open>
  C10: tsch-queue-backoff-inc doubles the range of the window up to the largest exponent: the exponent
  goes up by one but not past 5, and the window lies between 1 and 2 to that exponent, so the
  bytes that hold them never wrap.
\<close>

theorem backoff_inc_bounds:
  assumes "nbr_ok n"
  shows "unat (backoff_exponent (tsch_queue_backoff_inc rnd n)) = min (unat (backoff_exponent n) + 1) 5 \<and>
    1 \<le> unat (backoff_window (tsch_queue_backoff_inc rnd n)) \<and>
    unat (backoff_window (tsch_queue_backoff_inc rnd n)) \<le> 2 ^ min (unat (backoff_exponent n) + 1) 5 \<and>
    nbr_ok (tsch_queue_backoff_inc rnd n)"
  using backoff_inc_val [OF assms, of rnd] by (simp add: Suc_le_eq)

theorem backoff_inc_bounds_witness:
  "unat (backoff_exponent (tsch_queue_backoff_inc 999 nbr_ex)) = 2 \<and> 1 \<le> unat (backoff_window (tsch_queue_backoff_inc 999 nbr_ex))"
proof -
  have "unat (backoff_exponent nbr_ex) = 1"
    by (simp add: nbr_ex_def nbr_novo_def tsch_queue_backoff_reset_def TSCH_MAC_MIN_BE_def)
  then show ?thesis using backoff_inc_bounds [OF nbr_ok_ex(1), of 999] by simp
qed

section \<open>The lock\<close>

text \<open>
  C11: The lock protocol between the main program and the slot interrupt, in every interleaving: a step
  that takes the lock is made while no slot operation runs; and from the moment the lock is
  requested until it is taken no slot operation starts.
\<close>

theorem lock_excludes_slot_start:
  assumes "alcanca w" and "passo w w'"
  shows "(pc w \<noteq> Com_lock \<and> pc w' = Com_lock \<longrightarrow> \<not> tsch_in_slot_operation (lk w) \<and> tsch_locked (lk w')) \<and>
    ((pc w = Pedindo \<or> pc w = Livre_visto) \<and> \<not> tsch_in_slot_operation (lk w) \<longrightarrow> \<not> tsch_in_slot_operation (lk w'))"
  using toma_fora_do_slot [OF assms] pedido_bloqueia_slot [OF assms(1) _ assms(2)] by auto

theorem lock_excludes_slot_start_witness:
  "\<not> tsch_in_slot_operation (lk (inicio\<lparr>pc := Pedindo, lk := (lk inicio)\<lparr>tsch_lock_requested := True\<rparr>\<rparr>)) \<and>
   alcanca inicio \<and> passo inicio (inicio\<lparr>pc := Pedindo, lk := (lk inicio)\<lparr>tsch_lock_requested := True\<rparr>\<rparr>)"
proof -
  let ?w = "inicio\<lparr>pc := Pedindo, lk := (lk inicio)\<lparr>tsch_lock_requested := True\<rparr>\<rparr>"
  let ?v = "?w\<lparr>pc := Livre_visto\<rparr>"
  have a: "alcanca inicio" by (simp add: alcanca_def)
  have p: "passo inicio ?w" by (rule passo.pede) (simp_all add: inicio_def)
  have q: "passo ?w ?v" by (rule passo.ve_livre) (simp_all add: inicio_def)
  have "alcanca ?w" using a p unfolding alcanca_def by (rule rtranclp.rtrancl_into_rtrancl)
  then have "\<not> tsch_in_slot_operation (lk ?v)"
    using lock_excludes_slot_start [OF _ q] by (simp add: inicio_def)
  then show ?thesis using a p by simp
qed

text \<open>
  C12: The wait for the lock is bounded in every interleaving. From a state in which the main program
  waits for the lock, take any sequence of steps that change the state, of the main program and of the interrupt in
  any order, before the lock is taken (a turn of the busy wait changes nothing): it has at most three steps, two when no
  slot operation is running, the lock is taken exactly when that many were made, and before that another
  such step is always possible.
\<close>

theorem requested_lock_granted:
  assumes "alcanca w" and "pc w = Pedindo"
    and "((\<lambda>a b. passo a b \<and> b \<noteq> a \<and> pc a \<noteq> Com_lock) ^^ n) w w'"
  shows "n \<le> (if tsch_in_slot_operation (lk w) then 3 else 2) \<and>
    (n = (if tsch_in_slot_operation (lk w) then 3 else 2) \<longleftrightarrow> pc w' = Com_lock) \<and>
    (pc w' \<noteq> Com_lock \<longrightarrow> (\<exists>w''. passo w' w'' \<and> w'' \<noteq> w'))"
proof -
  have "avanca = (\<lambda>a b. passo a b \<and> b \<noteq> a \<and> pc a \<noteq> Com_lock)" by (intro ext) (simp add: avanca_def)
  then have "(avanca ^^ n) w w'" using assms(3) by simp
  from pedido_atendido [OF assms(1,2) this] show ?thesis unfolding avanca_def by force
qed

theorem requested_lock_granted_witness:
  "\<exists>w''. passo (inicio\<lparr>pc := Livre_visto, lk := (lk inicio)\<lparr>tsch_lock_requested := True\<rparr>\<rparr>) w''"
proof -
  let ?w = "inicio\<lparr>pc := Pedindo, lk := (lk inicio)\<lparr>tsch_lock_requested := True\<rparr>\<rparr>" and ?v = "inicio\<lparr>pc := Livre_visto, lk := (lk inicio)\<lparr>tsch_lock_requested := True\<rparr>\<rparr>"
  have "passo inicio ?w" by (rule passo.pede) (simp_all add: inicio_def)
  then have a: "alcanca ?w" unfolding alcanca_def by (rule r_into_rtranclp)
  have "passo ?w (?w\<lparr>pc := Livre_visto\<rparr>)" by (rule passo.ve_livre) (simp_all add: inicio_def)
  then have "((\<lambda>a b. passo a b \<and> b \<noteq> a \<and> pc a \<noteq> Com_lock) ^^ Suc 0) ?w ?v" by (simp add: inicio_def relcompp.simps)
  from requested_lock_granted [OF a _ this] show ?thesis by (auto simp: inicio_def)
qed

text \<open>
  C13: SCHEDULE-static without the topology file returns 0 and keeps the lock: afterwards the lock
  cannot be taken and no slotframe is found any more.
\<close>

theorem SCHEDULE_static_keeps_lock:
  assumes "livre (tq_lk (queue s))" and "tsch_schedule_get_slotframe_by_handle unicast_slotframe_handle s = Some i"
    and "texto (arvore s) = None"
  shows "\<exists>s'. SCHEDULE_static rnd lixo lixo2 lixo4 s = Some (0, 0, s') \<and> locked s' \<and> get_lock s' = Some (False, s') \<and>
    (\<forall>h. tsch_schedule_get_slotframe_by_handle h s' = None)"
  using SCHEDULE_sem_arquivo [OF assms] tranca_prende trancado_nao_acha by auto

theorem SCHEDULE_static_keeps_lock_witness:
  "\<exists>s'. SCHEDULE_static (\<lambda>_ _. 2) (\<lambda>_ _. 0) (0, 0) (0, 0, 0, 0) (sched_ex\<lparr>arvore := \<lparr>texto = None, gravavel = True\<rparr>\<rparr>)
     = Some (0, 0, s') \<and> locked s'"
proof -
  let ?s = "sched_ex\<lparr>arvore := \<lparr>texto = None, gravavel = True\<rparr>\<rparr>"
  have "tsch_schedule_get_slotframe_by_handle unicast_slotframe_handle ?s = Some 0"
    using slotframe_ex tq_livre_ex(2) by (simp add: tsch_schedule_get_slotframe_by_handle_def locked_def)
  then show ?thesis using SCHEDULE_static_keeps_lock [of ?s 0] tq_livre_ex(2) by fastforce
qed

section \<open>Neighbors, buffers, lists, pools\<close>

text \<open>
  C14: nbr-table-add-lladdr keeps the invariant of the neighbor table and does what it says: the answer
  is a member of the table with the address, nothing about the other neighbors changes, a new key
  comes from the pool unless that is exhausted, and then from the neighbor the policy gives up or,
  when the policy names an unknown one, the least used neighbor that no table has locked.
\<close>

theorem nbr_add_lladdr_inv:
  assumes "nt_inv s" and "nbr_table_add_lladdr vic (Some t) (Some a) s = (r, s')"
  shows "nt_inv s' \<and> (case r of
     None \<Rightarrow> s' = s \<and> cheia s \<and> a \<notin> nt_addr s ` set (nt_keys s)
   | Some k \<Rightarrow> nbr_table_get_from_lladdr s' t (Some a) = Some k \<and> iguais k s s' \<and>
       (k \<in> set (nt_keys s) \<and> nt_addr s k = a \<and> nt_keys s' = nt_keys s \<or>
        a \<notin> nt_addr s ` set (nt_keys s) \<and> nt_keys s' = l_add k (nt_keys s) \<and>
          (k \<notin> set (nt_keys s) \<or> cheia s \<and> despejado vic s k)))"
proof -
  have a: "adicionado vic t a s r s'" by (rule nbr_add_run [OF assms])
  then have "nt_inv s'" by (simp add: adicionado_def)
  then show ?thesis using a nbr_get_iff [of s' t a] by (cases r) (simp_all add: adicionado_def)
qed

theorem nbr_add_lladdr_inv_witness:
  "nt_inv (snd (nbr_table_add_lladdr None (Some tsch_neighbors) (Some (addr_of_num 4)) nt_ex))"
  using nbr_add_lladdr_inv [OF nt_inv_ex, of None tsch_neighbors "addr_of_num 4"
      "fst (nbr_table_add_lladdr None (Some tsch_neighbors) (Some (addr_of_num 4)) nt_ex)"
      "snd (nbr_table_add_lladdr None (Some tsch_neighbors) (Some (addr_of_num 4)) nt_ex)"] by simp

text \<open>
  C15: The lock of a table does not protect a neighbor from the policy. When every place of the neighbor table is taken,
  the neighbor that nbr-table-allocate gives up for a new one is a member and leaves the table; it is the
  one the policy names, locked or not, when the policy names a member, and one that no table has locked otherwise.
\<close>

theorem locked_neighbor_given_up:
  assumes "nt_inv s" and "cheia s" and "nbr_table_allocate vic s = (Some k, s')"
  shows "k \<in> set (nt_keys s) \<and> nt_keys s' = l_remove k (nt_keys s) \<and>
    (\<forall>j \<in> set (nt_keys s). vic = Some (nt_addr s j) \<longrightarrow> k = j) \<and>
    (nt_locked s ! k \<noteq> 0 \<longrightarrow> vic = Some (nt_addr s k))"
  by (rule evicted_locked [OF assms])

theorem locked_neighbor_given_up_witness:
  "\<exists>s'. nbr_table_allocate (Some (addr_of_num 2)) nt_cheia_ex = (Some 2, s') \<and> nt_locked nt_cheia_ex ! 2 \<noteq> 0 \<and> 2 \<notin> set (nt_keys s')"
proof -
  obtain k s' where r: "nbr_table_allocate (Some (addr_of_num 2)) nt_cheia_ex = (Some k, s')" using nt_cheia_ex(3) by blast
  have v: "2 \<in> set (nt_keys nt_cheia_ex)" "Some (addr_of_num 2) = Some (nt_addr nt_cheia_ex 2)" using nt_cheia_ex(4,5) by simp_all
  have l: "k \<in> set (nt_keys nt_cheia_ex)" "nt_keys s' = l_remove k (nt_keys nt_cheia_ex)"
    "\<forall>j \<in> set (nt_keys nt_cheia_ex). Some (addr_of_num 2) = Some (nt_addr nt_cheia_ex j) \<longrightarrow> k = j"
    using locked_neighbor_given_up [OF nt_cheia_ex(1,2) r] by simp_all
  have "k = 2" using l(3) v by blast
  then show ?thesis using r l(2) nt_cheia_ex(4,6) by (simp add: l_remove_def)
qed

text \<open>
  C16: A byte ring buffer is a bounded queue of its size less one: put appends unless it is full, get
  takes from the front and answers -1 when it is empty, and neither reads outside the array.
\<close>

theorem ringbuf_refines_queue:
  assumes "ringbuf_ok r"
  shows "(\<exists>v r'. ringbuf_put r c = Some (v, r') \<and> ringbuf_ok r' \<and> rb_sz (rb_idx r') = rb_sz (rb_idx r) \<and>
      (if length (fila r) + 1 < rb_sz (rb_idx r) then v = 1 \<and> fila r' = fila r @ [c] else v = 0 \<and> r' = r)) \<and>
    (\<exists>v r'. ringbuf_get r = Some (v, r') \<and> ringbuf_ok r' \<and>
      (case fila r of [] \<Rightarrow> v = -1 \<and> r' = r | b # bs \<Rightarrow> v = uint b \<and> fila r' = bs))"
  using ringbuf_put_fila [OF assms, of c] ringbuf_get_fila [OF assms] by (rule conjI)

theorem ringbuf_refines_queue_witness:
  "\<exists>v r'. ringbuf_put \<lparr>rb_data = replicate 4 0, rb_idx = ringbufindex_init 4\<rparr> 9 = Some (v, r') \<and> ringbuf_ok r'"
proof -
  have "rb_ok (ringbufindex_init (2 ^ 2))" "rb_sz (ringbufindex_init (2 ^ 2)) = 2 ^ 2"
    using rb_init_ok(1,3) [of 2] unfolding rb_ok_def by auto
  then have "ringbuf_ok \<lparr>rb_data = replicate 4 0, rb_idx = ringbufindex_init 4\<rparr>"
    by (simp add: ringbuf_ok_def)
  then show ?thesis using ringbuf_refines_queue by blast
qed

text \<open>
  C17: The linked list of list.c, on any heap in which it is a list: adding moves an item to the end,
  pushing to the front, removing takes it out, chop and pop take off the last and the first item,
  length and contains answer about the items, no operation changes the link of an item outside the list and its
  argument, and pop changes no link at all.
\<close>

theorem list_c_refines_lists:
  assumes "rep c xs"
  shows "\<exists>c1 c2 c3 c4. list_add (Some x) c = Some c1 \<and> rep c1 (remove1 x xs @ [x]) \<and> quadro (insert x (set xs)) c c1 \<and>
    list_push (Some x) c = Some c2 \<and> rep c2 (x # remove1 x xs) \<and> quadro (insert x (set xs)) c c2 \<and>
    list_remove (Some x) c = Some c3 \<and> rep c3 (remove1 x xs) \<and> quadro (set xs) c c3 \<and>
    list_chop c = Some (if xs = [] then None else Some (last xs), c4) \<and> rep c4 (butlast xs) \<and> quadro (set xs) c c4 \<and>
    fst (list_pop c) = (if xs = [] then None else Some (hd xs)) \<and> rep (snd (list_pop c)) (tl xs) \<and>
    prox (snd (list_pop c)) = prox c \<and> list_length c = Some (int (length xs)) \<and> list_contains (Some x) c = Some (x \<in> set xs)"
proof -
  have "fst (list_pop c) = (if xs = [] then None else Some (hd xs)) \<and> rep (snd (list_pop c)) (tl xs) \<and> prox (snd (list_pop c)) = prox c"
    using list_pop_rep [OF assms] by (metis fst_conv)
  then show ?thesis
    using list_add_rep [OF assms, of x] list_push_rep [OF assms, of x] list_remove_rep [OF assms, of x]
      list_chop_rep [OF assms] list_length_rep [OF assms] list_contains_rep [OF assms, of x] by auto
qed

theorem list_c_refines_lists_witness:
  "\<exists>c1. list_add (Some 1) \<lparr>cabeca = Some 1, prox = (\<lambda>_. None)(1 := Some 2)\<rparr> = Some c1 \<and> rep c1 [2, 1]"
proof -
  have "rep \<lparr>cabeca = Some 1, prox = (\<lambda>_. None)(1 := Some 2)\<rparr> [1, 2]" by (simp add: rep_def)
  from list_c_refines_lists [OF this, of 1] show ?thesis by auto
qed

text \<open>
  C18: Blocks handed out by a memb pool: whatever the sequence of allocations and frees, the blocks a
  client holds are all different, and they are exactly the blocks in use.
\<close>

theorem memb_blocks_distinct:
  assumes "vivos m = set held" and "distinct held"
  shows "distinct (snd (memb.run ops m held)) \<and> vivos (fst (memb.run ops m held)) = set (snd (memb.run ops m held)) \<and>
    memb_numfree (fst (memb.run ops m held)) =
      length (used (fst (memb.run ops m held))) - length (snd (memb.run ops m held))"
  using memb.run_distinct [OF assms, of ops] memb_numfree_vivos by (metis distinct_card)

theorem memb_blocks_distinct_witness:
  "distinct (snd (memb.run [Inr (), Inr (), Inl 0, Inr ()] \<lparr>used = [False, False], mem = [0, 0 :: nat]\<rparr> []))"
  using memb_blocks_distinct [of "\<lparr>used = [False, False], mem = [0, 0 :: nat]\<rparr>" "[]" "[Inr (), Inr (), Inl 0, Inr ()]"]
  by (simp add: vivos_set)

section \<open>Slot numbers\<close>

text \<open>
  C19: TSCH-ASN-MOD, computed in 16 bits from the two halves of the slot number, is the remainder of the
  40-bit number by the divisor.
\<close>

theorem ASN_MOD_is_mod:
  assumes "TSCH_ASN_DIVISOR_INIT v = Some dv"
  shows "\<exists>m. TSCH_ASN_MOD a dv = Some m \<and> unat m = asn_val a mod unat v"
  by (rule asn_mod_run [OF assms])

theorem ASN_MOD_is_mod_witness:
  "\<exists>m. TSCH_ASN_MOD \<lparr>ls4b = 4294967295, ms1b = 255\<rparr> (the (TSCH_ASN_DIVISOR_INIT 15)) = Some m \<and>
     unat m = asn_val \<lparr>ls4b = 4294967295, ms1b = 255\<rparr> mod unat (15 :: u16)"
proof -
  have "TSCH_ASN_DIVISOR_INIT 15 = Some (the (TSCH_ASN_DIVISOR_INIT 15))" by code_simp
  then show ?thesis by (rule ASN_MOD_is_mod)
qed

text \<open>
  C20: Slot numbers are 40-bit counters: increment adds modulo 2 to the 40, decrement undoes it, and the
  32-bit difference of a number and an earlier one less than 2 to the 32 away is exact.
\<close>

theorem ASN_counter:
  "asn_val (TSCH_ASN_INC a k) = (asn_val a + unat k) mod 2 ^ 40 \<and> TSCH_ASN_DEC (TSCH_ASN_INC a k) k = a \<and>
   TSCH_ASN_INC (TSCH_ASN_DEC a k) k = a \<and> TSCH_ASN_DIFF (TSCH_ASN_INC a k) a = k"
  by (intro conjI asn_val_INC DEC_INC INC_DEC DIFF_INC)

section \<open>The shared files\<close>

text \<open>
  C21: What is written into the shared files is read back. A line that tsch-write-in-file appends to the topology file
  is in the graph that SCHEDULE-static loads from it, with the lines that were there before, and the number of edges
  is right although the last line is read twice; node numbers are below MAX-NOS or above it, and the root sends to
  nobody. An Rx link takes the place that the last line of the file of channels for it gives, and no other link
  or part of the schedule changes.
\<close>

theorem shared_files_read_back:
  assumes "gravavel f" and "texto f = Some (concat (map linha_dd xs))" and "\<forall>v \<in> set xs. linha_ok v" and "linha_ok (a, b)"
    and "k < length (mem (link_memb s))" and "texto (TCH s) = Some (concat (map linha_dddd ts))" and "ts \<noteq> []"
  shows "(\<exists>t adj. texto (tsch_write_in_file a b f) = Some t \<and> carrega lixo t = Some (adj, card (arcos (xs @ [(a, b)]))) \<and>
      dims MAX_NOS MAX_NOS (mat_adj adj) \<and>
      (\<forall>x < MAX_NOS. \<forall>y < MAX_NOS. cell (mat_adj adj) x y =
         (if int x \<noteq> no_raiz \<and> (int x, int y) \<in> set (xs @ [(a, b)]) then 1 else 0))) \<and>
    rx_schedule_intern lixo4 k s = Some (case List.find (rx_casa k s) (rev ts) of None \<Rightarrow> s
      | Some (_, _, t, c) \<Rightarrow> upd_link k (\<lambda>l. l\<lparr>l_timeslot := word_of_int t, l_choff := word_of_int c\<rparr>) s)"
proof -
  obtain t adj where t: "texto (tsch_write_in_file a b f) = Some t"
    "carrega lixo t = Some (adj, card (arcos (xs @ [(a, b)])))" "grafo_de (arcos (xs @ [(a, b)])) adj"
    using written_line_loaded [OF assms(1-4), of lixo] by blast
  have "dims MAX_NOS MAX_NOS (mat_adj adj) \<and> (\<forall>x < MAX_NOS. \<forall>y < MAX_NOS. cell (mat_adj adj) x y =
      (if int x \<noteq> no_raiz \<and> (int x, int y) \<in> set (xs @ [(a, b)]) then 1 else 0))"
    using t(3) unfolding grafo_de_def arcos_def by simp
  moreover have "rx_schedule_intern lixo4 k s = Some (case List.find (rx_casa k s) (rev ts) of None \<Rightarrow> s
      | Some (_, _, t, c) \<Rightarrow> upd_link k (\<lambda>l. l\<lparr>l_timeslot := word_of_int t, l_choff := word_of_int c\<rparr>) s)"
    using rx_intern_run [OF assms(5-7), of lixo4] by (simp add: rx_posto_def split: option.splits prod.splits)
  ultimately show ?thesis using t(1,2) by blast
qed

theorem shared_files_read_back_witness:
  "\<exists>t adj. texto (tsch_write_in_file 5 4 (arvore sched_ex)) = Some t \<and> carrega (0, 0) t = Some (adj, card (arcos (xs_ex @ [(5, 4)]))) \<and>
     cell (mat_adj adj) 5 4 = 1 \<and> cell (mat_adj adj) 4 5 = 0"
proof -
  have f: "gravavel (arvore sched_ex)" "linha_ok (5, 4)" "1 < length (mem (link_memb sched_ex))"
    by (simp_all add: sched_ex_def linha_ok_def MAX_NOS_def)
  have t: "texto (TCH sched_ex) = Some (concat (map linha_dddd [(4, 3, 5, 2)]))" by (simp add: sched_ex_def)
  from shared_files_read_back [OF f(1) arvore_ex linhas_ex(1) f(2,3) t, of "(0, 0)" "(0, 0, 0, 0)"]
  obtain u adj where u: "texto (tsch_write_in_file 5 4 (arvore sched_ex)) = Some u"
    "carrega (0, 0) u = Some (adj, card (arcos (xs_ex @ [(5, 4)])))"
    "\<forall>x < MAX_NOS. \<forall>y < MAX_NOS. cell (mat_adj adj) x y =
         (if int x \<noteq> no_raiz \<and> (int x, int y) \<in> set (xs_ex @ [(5, 4)]) then 1 else 0)"
    by auto
  have "cell (mat_adj adj) 5 4 = 1" using u(3) [rule_format, of 5 4] by (simp add: MAX_NOS_def no_raiz_def)
  moreover have "cell (mat_adj adj) 4 5 = 0" using u(3) [rule_format, of 4 5] by (simp add: MAX_NOS_def no_raiz_def xs_ex_def)
  ultimately show ?thesis using u(1,2) by blast
qed

section \<open>Frames\<close>

text \<open>
  C22: Whatever the bytes of a received frame are, parsing its information elements reads only the frame
  and eight bytes after it, ends, returns minus one or a length within the frame, and leaves the
  arrays of the structure with their declared lengths.
\<close>

theorem information_elements_stay_inside:
  assumes "ies_ok n i" and "unat sz + 8 \<le> length buf"
  shows "\<exists>r i'. frame802154e_parse_information_elements False buf sz (Some i) = Some (r, Some i') \<and>
    (r = -1 \<or> 0 \<le> r \<and> r \<le> uint sz) \<and> ies_ok n i'"
  using information_elements_parsed [OF assms] by (auto simp: runs_to_def)

theorem information_elements_stay_inside_witness:
  "\<exists>r i'. frame802154e_parse_information_elements False (replicate 20 0xff) 12 (Some (zero_ies 4))
      = Some (r, Some i') \<and> (r = -1 \<or> 0 \<le> r \<and> r \<le> uint (12 :: u8)) \<and> ies_ok 4 i'"
  by (rule information_elements_stay_inside) (simp_all add: ies_ok_def zero_ies_def)

text \<open>
  C23: The drift and the negative flag of an enhanced acknowledgement survive the trip: what the parser
  reads from the element that the sender wrote is the sender's drift, sign included, for every drift
  that fits twelve bits.
\<close>

theorem ack_correction_roundtrip:
  assumes "4 \<le> length buf" and "4 \<le> len"
    and "-2048 \<le> sint (ie_time_correction j)" and "sint (ie_time_correction j) < 2048"
  shows "\<exists>buf'. frame80215e_create_ie_header_ack_nack_time_correction buf len (Some j) = Some (4, buf')
    \<and> frame802154e_parse_information_elements six buf' 4 (Some i) = Some (4, Some (i\<lparr>
        ie_is_nack := (if ie_is_nack j \<noteq> 0 then 1 else 0),
        ie_time_correction := ie_time_correction j, ie_payload_ie_offset := 4\<rparr>))"
  by (rule ack_parsed [OF assms])

theorem ack_correction_roundtrip_witness:
  "\<exists>buf'. frame80215e_create_ie_header_ack_nack_time_correction [0, 0, 0, 0] 4
        (Some ((zero_ies 4)\<lparr>ie_time_correction := -7, ie_is_nack := 1\<rparr>)) = Some (4, buf')
    \<and> frame802154e_parse_information_elements False buf' 4 (Some (zero_ies 4)) = Some (4, Some ((zero_ies 4)\<lparr>
        ie_is_nack := 1, ie_time_correction := -7, ie_payload_ie_offset := 4\<rparr>))"
proof -
  have "sint (-7 :: u16) = -7"
    by (simp add: sint_uint)
  then show ?thesis
    using ack_correction_roundtrip [of "[0, 0, 0, 0]" 4 "(zero_ies 4)\<lparr>ie_time_correction := -7, ie_is_nack := 1\<rparr>"
        False "zero_ies 4"] by simp
qed

text \<open>
  C24: A frame header survives the trip: for every frame whose fields fit and that carries a destination
  PAN identifier only with a destination address, the receiver reads the control field, the sequence
  number unless it is suppressed, the addresses in the size of their modes and the PAN identifiers
  that the sender put there, and finds the payload where the header ends.
\<close>

theorem header_roundtrip:
  assumes "field_len False keys p = (p', fl)" and "hdr_ok p'"
    and "length (hdr_bytes p') \<le> length buf" and "length (hdr_bytes p') \<le> len"
    and "length (fr_dest_addr pf) = 8" and "length (fr_src_addr pf) = 8"
  shows "\<exists>n buf' pf'. frame802154_create False keys p buf = Some (p', buf', n)
    \<and> drop n buf' = drop n buf
    \<and> frame802154_parse False keys buf' (int len) pf = Some (int n, pf')
    \<and> fr_fcf pf' = fr_fcf p' \<and> fr_payload pf' = n \<and> fr_payload_len pf' = int len - int n
    \<and> (sequence_number_suppression (fr_fcf p') = 0 \<longrightarrow> fr_seq pf' = fr_seq p')
    \<and> (dest_addr_mode (fr_fcf p') = FRAME802154_LONGADDRMODE \<longrightarrow> fr_dest_addr pf' = fr_dest_addr p')
    \<and> (dest_addr_mode (fr_fcf p') = FRAME802154_SHORTADDRMODE \<longrightarrow>
         fr_dest_addr pf' = take 2 (fr_dest_addr p') @ replicate 6 0)
    \<and> (src_addr_mode (fr_fcf p') = FRAME802154_LONGADDRMODE \<longrightarrow> fr_src_addr pf' = fr_src_addr p')
    \<and> (src_addr_mode (fr_fcf p') = FRAME802154_SHORTADDRMODE \<longrightarrow>
         fr_src_addr pf' = take 2 (fr_src_addr p') @ replicate 6 0)
    \<and> (snd (frame802154_has_panid (fr_fcf p')) \<longrightarrow> fr_dest_pid pf' = fr_dest_pid p')
    \<and> (fst (frame802154_has_panid (fr_fcf p')) \<longrightarrow> fr_src_pid pf' = fr_src_pid p')"
proof -
  have a: "fr_dest_addr p' = fr_dest_addr p" "fr_src_addr p' = fr_src_addr p"
    using assms(1) by (auto simp: field_len_def Let_def split: prod.splits)
  then have "length (fr_dest_addr p) = 8" "length (fr_src_addr p) = 8"
    using assms(2) by (simp_all add: hdr_ok_def)
  note c = create_bytes [OF assms(1,3) this]
  have "int (length (hdr_bytes p')) \<le> int len"
    using assms(4) by simp
  have "\<not> False \<or> security_enabled (fr_fcf p') = 0" by simp
  note r = parse_hdr_bytes [OF assms(2,5,6) this \<open>int (length (hdr_bytes p')) \<le> int len\<close>,
      of keys "drop (length (hdr_bytes p')) buf"]
  obtain s d where sd: "frame802154_has_panid (fr_fcf p') = (s, d)"
    by (cases "frame802154_has_panid (fr_fcf p')")
  have sm: "s \<Longrightarrow> src_addr_mode (fr_fcf p') \<noteq> 0"
    using has_src_panid [of "fr_fcf p'"] sd by simp
  show ?thesis
  proof (intro exI conjI)
    show "frame802154_create False keys p buf = Some (p', hdr_bytes p' @ drop (length (hdr_bytes p')) buf,
        length (hdr_bytes p'))"
      using c by (simp add: img_def)
    show "frame802154_parse False keys (hdr_bytes p' @ drop (length (hdr_bytes p')) buf) (int len) pf
        = Some (int (length (hdr_bytes p')), hdr_read p' (int len) pf)"
      by (rule r)
  qed (use sm in \<open>simp_all add: hdr_read_def Let_def sd addr_read_def frame_consts\<close>)
qed

theorem header_roundtrip_witness:
  "\<exists>n buf' pf'. frame802154_create False False (eack_frame 7 [1,2,3,4,5,6,7,8] 9 zero_frame) (replicate 20 0)
      = Some (eack_frame 7 [1,2,3,4,5,6,7,8] 9 zero_frame, buf', n)
    \<and> frame802154_parse False False buf' 20 zero_frame = Some (int n, pf')
    \<and> fr_dest_addr pf' = [1,2,3,4,5,6,7,8] \<and> fr_seq pf' = 9"
proof -
  let ?p = "eack_frame 7 [1,2,3,4,5,6,7,8] 9 zero_frame"
  obtain fl where fl: "field_len False False ?p = (?p, fl)"
    using field_len_2015 [of ?p] by (auto simp: eack_frame_def eack_fcf_def frame_consts)
  have "hdr_ok ?p"
    by (rule eack_frame_ok) (simp_all add: zero_frame_def)
  note rt = header_roundtrip [OF fl this, of "replicate 20 0" 20 zero_frame]
  have "length (hdr_bytes ?p) \<le> length (replicate 20 (0 :: u8))" "length (hdr_bytes ?p) \<le> 20"
    "length (fr_dest_addr zero_frame) = 8" "length (fr_src_addr zero_frame) = 8"
    by (simp_all add: eack_hdr_length zero_frame_def)
  from rt [OF this] obtain n buf' pf' where
    "frame802154_create False False ?p (replicate 20 0) = Some (?p, buf', n)"
    "frame802154_parse False False buf' (int 20) zero_frame = Some (int n, pf')"
    and f: "sequence_number_suppression (fr_fcf ?p) = 0 \<longrightarrow> fr_seq pf' = fr_seq ?p"
      "dest_addr_mode (fr_fcf ?p) = FRAME802154_LONGADDRMODE \<longrightarrow> fr_dest_addr pf' = fr_dest_addr ?p"
    by blast
  moreover have "fr_dest_addr pf' = [1,2,3,4,5,6,7,8] \<and> fr_seq pf' = 9"
    using f by (simp add: eack_frame_def eack_fcf_def frame_consts)
  ultimately show ?thesis by auto
qed

text \<open>
  C25: Enhanced beacons end to end: whatever the options and the schedule, the beacon that a node
  creates from an empty packet buffer, with the ASN and the join priority written into it before it
  is sent, is parsed by the receiver, whose structure is then the sender's: the slotframe and link,
  the hopping sequence and the timing it was built from, the ASN and the join priority, and the
  sender's address and PAN identifier.
\<close>

theorem beacon_roundtrip:
  assumes "eb_env_ok e" and "length (pb_mem (pb m)) = PACKETBUF_SIZE" and "mac_pan_id m \<noteq> 0xffff"
    and "length (fr_dest_addr pf) = 8" and "length (fr_src_addr pf) = 8" and "4 \<le> length slack"
  shows "\<exists>j len m' eb f. eb_ies c e = Some j
    \<and> tsch_packet_create_eb c e r m = Some (int len, Some (16, 18), m')
    \<and> tsch_packet_update_eb asn jp ies (take len (pb_mem (pb m'))) (int len) 18 = Some (True, eb)
    \<and> tsch_packet_parse_eb six (env_max_hopping e) (eb @ slack) (int len) pf (Some i) (Some h)
       = Some (int len, f, Some (j\<lparr>ie_payload_ie_offset := 2, ie_asn := asn, ie_join_priority := jp\<rparr>), Some 16)
    \<and> fr_src_addr f = env_node_addr e \<and> fr_src_pid f = mac_pan_id m"
  using eb_received [OF assms] by blast

theorem beacon_roundtrip_witness:
  "\<exists>j len m' eb f. eb_ies c_ex e_ex = Some j \<and> sl_num_links (ie_tsch_slotframe_and_link j) = 0
    \<and> ie_channel_hopping_sequence_id j = 1
    \<and> tsch_packet_create_eb c_ex e_ex 5 m_ex = Some (int len, Some (16, 18), m')
    \<and> tsch_packet_update_eb \<lparr>ls4b = 1000, ms1b = 2\<rparr> 3 (zero_ies 4) (take len (pb_mem (pb m'))) (int len) 18
       = Some (True, eb)
    \<and> tsch_packet_parse_eb False 4 (eb @ [0, 0, 0, 0]) (int len) zero_frame (Some (zero_ies 4)) (Some 0)
       = Some (int len, f, Some (j\<lparr>ie_payload_ie_offset := 2, ie_asn := \<lparr>ls4b = 1000, ms1b = 2\<rparr>,
           ie_join_priority := 3\<rparr>), Some 16)
    \<and> fr_src_addr f = [0, 3, 0, 3, 0, 3, 0, 3]"
proof -
  have "eb_env_ok e_ex" "length (pb_mem (pb m_ex)) = PACKETBUF_SIZE" "mac_pan_id m_ex \<noteq> 0xffff"
    "env_max_hopping e_ex = 4" "env_node_addr e_ex = [0, 3, 0, 3, 0, 3, 0, 3]"
    by (simp_all add: eb_env_ok_def e_ex_def m_ex_def tsch_ts_elements_count_def PACKETBUF_SIZE_def)
  moreover have "\<exists>j. eb_ies c_ex e_ex = Some j \<and> sl_num_links (ie_tsch_slotframe_and_link j) = 0
      \<and> ie_channel_hopping_sequence_id j = 1"
    by (rule eb_ies_ex)
  moreover note beacon_roundtrip [of e_ex m_ex zero_frame "[0, 0, 0, 0]" c_ex 5 "\<lparr>ls4b = 1000, ms1b = 2\<rparr>" 3
      "zero_ies 4" False "zero_ies 4" 0]
  ultimately show ?thesis
    by (fastforce simp: zero_frame_def)
qed

text \<open>
  C26: Enhanced acknowledgements end to end: the acknowledgement that a node creates for a packet with a
  sequence number is accepted by the sender of that packet, who reads the drift, sign included, and
  the negative flag.
\<close>

theorem eack_roundtrip:
  assumes "length a = 8" and "length (fr_src_addr p) = 8"
    and "length (fr_dest_addr pf) = 8" and "length (fr_src_addr pf) = 8"
    and "17 \<le> unat L" and "unat L \<le> length buf"
    and "-2048 \<le> sint drift" and "sint drift < 2048"
  shows "\<exists>ack f. tsch_packet_create_eack n pan p (Some buf) L (Some a) sq drift nack = Some (17, Some ack)
    \<and> length ack = length buf
    \<and> tsch_packet_parse_eack six n pan a ack 17 sq pf (Some i) (Some h)
      = Some (17, f, Some ((zero_ies n)\<lparr>ie_is_nack := (if nack \<noteq> 0 then 1 else 0),
          ie_time_correction := drift, ie_payload_ie_offset := 4\<rparr>), Some 17)"
  by (rule eack_received [OF assms])

theorem eack_roundtrip_witness:
  "\<exists>ack f. tsch_packet_create_eack 4 0xABCD zero_frame (Some (replicate 20 9)) 20
        (Some [0, 3, 0, 3, 0, 3, 0, 3]) 77 (-100) 0 = Some (17, Some ack)
    \<and> tsch_packet_parse_eack False 4 0xABCD [0, 3, 0, 3, 0, 3, 0, 3] ack 17 77 zero_frame (Some (zero_ies 4)) (Some 0)
      = Some (17, f, Some ((zero_ies 4)\<lparr>ie_is_nack := 0, ie_time_correction := -100, ie_payload_ie_offset := 4\<rparr>),
          Some 17)"
proof -
  have "sint (-100 :: u16) = -100"
    by (simp add: sint_uint)
  then show ?thesis
    using eack_roundtrip [where a = "[0, 3, 0, 3, 0, 3, 0, 3]" and p = zero_frame and pf = zero_frame
        and L = 20 and buf = "replicate 20 9" and drift = "-100" and n = 4 and pan = "0xABCD" and sq = 77
        and nack = 0 and six = False and i = "zero_ies 4" and h = 0]
    by (auto simp: zero_frame_def)
qed

section \<open>Queue buffers\<close>

text \<open>
  C27: A packet stored in a queue buffer comes back: as long as a buffer is free, queuebuf-new
  copies the header, the data, the attributes and the addresses of the packet buffer into a fresh
  buffer without touching the packets that wait in other buffers, and queuebuf-to-packetbuf later
  restores exactly these bytes, attributes and addresses into whatever the packet buffer holds.
\<close>

theorem queuebuf_roundtrip:
  assumes "qb_inv s" and "pb_ok b" and "0 < queuebuf_numfree s" and "pb_ok b0"
  shows "\<exists>i s' b'. queuebuf_new_from_packetbuf b s = Some (Some i, s') \<and> qb_inv s' \<and>
    (\<forall>j \<in> vivos (bufmem s). j \<noteq> i \<and> qb_packet s' j = qb_packet s j) \<and>
    queuebuf_to_packetbuf (Some i) s' b0 = Some b' \<and> pb_ok b' \<and> pb_bytes b' = pb_bytes b \<and>
    packetbuf_attrs b' = packetbuf_attrs b \<and> packetbuf_addrs b' = packetbuf_addrs b"
proof -
  obtain r s' where r: "queuebuf_new_from_packetbuf b s = Some (r, s')" "qb_inv s'"
    "case r of None \<Rightarrow> s' = s \<and> queuebuf_numfree s = 0
     | Some i \<Rightarrow> i \<notin> vivos (bufmem s) \<and> vivos (bufmem s') = insert i (vivos (bufmem s))
         \<and> qb_packet s' i = (pb_bytes b, packetbuf_attrs b, packetbuf_addrs b)"
    "\<forall>j \<in> vivos (bufmem s). qb_packet s' j = qb_packet s j"
    using new_run [OF assms(1,2)] by blast
  then obtain i where i: "r = Some i" using assms(3) by (cases r) auto
  have "length (pb_mem b0) = PACKETBUF_SIZE" using assms(4) by (simp add: pb_ok_def)
  then show ?thesis using to_packetbuf_run [OF r(2), of i b0] r i by (auto 4 4)
qed

theorem queuebuf_roundtrip_witness:
  "\<exists>i s' b'. queuebuf_new_from_packetbuf pb_ex qs_ex = Some (Some i, s') \<and>
    queuebuf_to_packetbuf (Some i) s' (pb m_ex) = Some b' \<and> pb_bytes b' = [1, 2, 3, 4, 5]"
  using queuebuf_roundtrip [OF qs_ex(1) pb_ok_ex(1) _ pb_ok_ex(2)] qs_ex(2) unfolding pb_bytes_ex by auto

section \<open>Time synchronisation\<close>

text \<open>
  C28: The drift estimate is the moving average of the last eight measurements: starting from a
  reset, after any number of measurements timesync-entry-add returns the sum of the last eight of
  them (of all, when there are fewer) divided by their number, rounded towards zero. It never leaves
  its ring of eight values and its sum never overflows, for measurements below 2 to the power 28 (one part
  per unit).
\<close>

theorem drift_is_moving_average:
  assumes "timesync_entry_count s = 0" and "length (entry_buffer s) = 8"
    and "vs \<noteq> []" and "\<forall>x \<in> set vs. medida_ok x"
  shows "\<exists>s'. entradas_add vs r s
    = Some (sum_list (drop (length vs - 8) vs) sdiv int (min 8 (length vs)), s')"
  using entradas_run [OF guardou_inicio [OF assms(1,2)], of vs r] assms(3,4)
  by (auto simp: ultimos_def NUM_TIMESYNC_ENTRIES_def)

theorem drift_is_moving_average_witness:
  "\<exists>s'. entradas_add [256, -512, 1024, 0, 0, 0, 0, 0, 2560, -256] 0 ts_ex = Some (416, s')"
  using drift_is_moving_average [of ts_ex "[256, -512, 1024, 0, 0, 0, 0, 0, 2560, -256]" 0]
  by (simp add: ts_ex_def medida_ok_def signed_divide_int_def)

text \<open>
  C29: The compensation of the drift accumulates no rounding error: over any sequence of time
  steps that are not clamped, the ticks that tsch-timesync-adaptive-compensate hands out add up to
  the elapsed time times the estimated drift, with a rest below one tick that is carried to
  the next step; the compensated ticks are counted for the next measurement.
\<close>

theorem compensation_never_accumulates_error:
  assumes "drift_ppm s \<noteq> 0" and "last_timesource_neighbor s \<noteq> None" and "tick_conversion_error s = 0"
    and "\<bar>ppm_remainder s\<bar> < TSCH_DRIFT_UNIT"
    and "\<forall>t \<in> set ts. unat t < 2 ^ 32 \<and> int (unat t) * \<bar>drift_ppm s\<bar> \<le> 7811 * TSCH_DRIFT_UNIT"
    and "\<bar>compensated_ticks s\<bar> + 7812 * int (length ts) < 2 ^ 31"
  shows "\<exists>R s'. compensa ts 0 s = Some (R, s') \<and> compensated_ticks s' = compensated_ticks s + R \<and>
    \<bar>R * TSCH_DRIFT_UNIT - ((\<Sum>t \<leftarrow> ts. int (unat t)) * drift_ppm s + ppm_remainder s)\<bar> < TSCH_DRIFT_UNIT"
proof -
  obtain R s' where "compensa ts 0 s = Some (0 + R, s')" "compensated_ticks s' = compensated_ticks s + R"
    "\<bar>ppm_remainder s'\<bar> < TSCH_DRIFT_UNIT"
    "R * TSCH_DRIFT_UNIT + ppm_remainder s' = (\<Sum>t \<leftarrow> ts. int (unat t)) * drift_ppm s + ppm_remainder s"
    using compensa_run [OF assms, of 0] by blast
  then show ?thesis by (intro exI [of _ R] exI [of _ s']) (simp add: abs_less_iff)
qed

theorem compensation_never_accumulates_error_witness:
  "\<exists>s'. compensa [125000, 125000, 125000, 125000] 0 ts2_ex = Some (10, s')"
proof -
  let ?ts = "[125000, 125000, 125000, 125000] :: u64 list"
  obtain R s' where r: "compensa ?ts 0 ts2_ex = Some (R, s')"
    "\<bar>R * TSCH_DRIFT_UNIT - ((\<Sum>t \<leftarrow> ?ts. int (unat t)) * drift_ppm ts2_ex + ppm_remainder ts2_ex)\<bar>
      < TSCH_DRIFT_UNIT"
    using compensation_never_accumulates_error [of ts2_ex ?ts]
    by (auto simp: ts2_ex_def ts_ex_def TSCH_DRIFT_UNIT_def)
  then have "\<bar>R * 256000000 - 500000 * 5120\<bar> < 256000000"
    by (simp add: ts2_ex_def ts_ex_def TSCH_DRIFT_UNIT_def)
  then have "R = 10" by arith
  then show ?thesis using r(1) by auto
qed
section \<open>The slot operation\<close>

text \<open>
  C30: A node wakes up for a link in the slot that link belongs to, as long as every link of its schedule has a
  timeslot below the length of its slotframe (SCHEDULE-static can move a link to timeslot 8 of a slotframe of 8 slots,
  which never comes): after an activation of
  tsch-slot-operation that stays in the network and does not continue a burst, the schedule is
  unchanged, the ASN has grown, and the current link is in a slotframe of the schedule and has the
  timeslot given by the ASN modulo the length of that slotframe, even when deadlines were missed and slots
  skipped. The ASN must not reach its 40 bits.
\<close>

theorem slots_stay_aligned:
  assumes "tam_ok (so_sched s)" and "asn_val (tsch_current_asn s) + 65536 * length (rtimer_now env) < 2 ^ 40"
    and "tsch_slot_operation c env s = Some s'" and "tsch_is_associated s'" and "\<not> burst_link_scheduled s'"
  shows "tam_ok (so_sched s') \<and> asn_val (tsch_current_asn s) < asn_val (tsch_current_asn s') \<and>
    (\<forall>l. current_link (so_sched s') = Some l \<longrightarrow>
      (\<exists>i \<in> set (slotframe_list (so_sched s')). l \<in> set (sf_links (sf_at (so_sched s') i)) \<and>
        asn_val (tsch_current_asn s') mod unat (val (sf_size (sf_at (so_sched s') i)))
          = unat (l_timeslot (link_at (so_sched s') l))))"
  using slot_operation_aligned [OF assms] mapa_links_eq(1) [OF slot_operation_aligned(2) [OF assms]] assms(1)
  unfolding alinhado_def ativo_def sf_len_def by blast

theorem slots_stay_aligned_witness:
  "\<exists>s'. tsch_slot_operation conf_ex env_ex (slot_ex\<lparr>tsch_is_coordinator := True\<rparr>) = Some s' \<and> tam_ok (so_sched s') \<and>
    4 < asn_val (tsch_current_asn s')"
proof -
  obtain s' where "tsch_slot_operation conf_ex env_ex (slot_ex\<lparr>tsch_is_coordinator := True\<rparr>) = Some s'"
    "tsch_is_associated s'" "\<not> burst_link_scheduled s'"
    using slot_operation_ex by blast
  then show ?thesis
    using slots_stay_aligned [of "slot_ex\<lparr>tsch_is_coordinator := True\<rparr>" env_ex conf_ex s'] tam_ok_slot_ex
    by (auto simp: slot_ex_def env_ex_def asn_val_def)
qed

text \<open>
  C31: Scheduling the next wake-up always ends: every attempt that misses its deadline moves the
  start of the slot forward by at least m ticks (the slot length less the corrections), so when the
  timer stays below E while the loop runs, fewer than (E - start) / m + 2 attempts are made, without
  any access outside an array and without overflow of a signed integer.
\<close>

theorem scheduling_ends:
  assumes "tam_ok (so_sched s)" and "rd (tsch_timing s) tsch_ts_timeslot_length = Some len"
    and "sync_ok (length nows) (so_sync s)" and "\<bar>drift_correction s\<bar> \<le> D" and "TSCH_BASE_DRIFT_PPM c = 0"
    and "int m + D + 7813 \<le> int (unat len)" and "65536 * int (unat len) + D + 7813 < 2 ^ 64"
    and "sorted (map unat nows)" and "\<forall>w \<in> set nows. unat (current_slot_start s) \<le> unat w \<and> unat w \<le> E"
    and "unat (current_slot_start s) \<le> E" and "E < unat (current_slot_start s) + m * length nows"
  shows "\<exists>s'. schedule_loop (schedule_step c) nows s = Some s'"
  by (rule schedule_loop_total [OF _ assms(5-11)]) (use assms(1-4) in \<open>simp add: prepara_def\<close>)

theorem scheduling_ends_witness:
  "\<exists>s'. schedule_loop (schedule_step conf_ex) [1000, 5000, 7000] slot_ex = Some s'"
  by (rule scheduling_ends [where len = 10000 and m = 2187 and D = 0 and E = 7000, OF tam_ok_slot_ex])
    (simp_all add: slot_ex_def conf_ex_def rd_def tsch_ts_timeslot_length_def sync_ok_def ts2_ex_def ts_ex_def
      TSCH_DRIFT_UNIT_def)

text \<open>
  C32: No packet is lost or duplicated by a transmission slot: when there is room for a dequeued
  packet, tsch-tx-slot leaves the queues well-formed and the queues of the other neighbors untouched;
  the packet goes from the head of its queue to the dequeued packets when it was sent
  successfully or this was its last attempt, and it stays at the head of its queue otherwise.
\<close>

theorem transmission_conserves_packets:
  assumes "tsch_tx_slot c env s = Some s'" and "ringbufindex_peek_put (dequeued_ringbuf s) \<noteq> -1"
    and "current_packet s = Some p" and "current_neighbor s = Some n" and "n \<in> set (tq_em (so_queue s))"
    and "tq_inv (so_queue s)" and "\<not> tsch_is_locked (tq_lk (so_queue s))"
    and "fila_nbr (nbr_at (so_queue s) n) = Some p # ps"
    and "rb_ok (dequeued_ringbuf s)" and "length (dequeued_array s) = rb_sz (dequeued_ringbuf s)"
  shows "\<exists>st. (\<exists>t. enviou c env p s st t) \<and> tq_inv (so_queue s') \<and>
    (let fim = (st = MAC_TX_OK \<or> pk_transmissions (pk_of s p) + 1 \<ge> pk_max (pk_of s p)) in
     fila_nbr (nbr_at (so_queue s') n) = (if fim then ps else Some p # ps) \<and>
     rbi.conteudo (dequeued_array s') (dequeued_ringbuf s') =
       rbi.conteudo (dequeued_array s) (dequeued_ringbuf s) @ (if fim then [Some p] else [])) \<and>
    (\<forall>j. j \<noteq> n \<longrightarrow> nbr_at (so_queue s') j = nbr_at (so_queue s) j)"
  using tx_slot_run [OF assms] by blast

theorem transmission_conserves_packets_witness:
  "\<exists>s'. tsch_tx_slot conf_ex env_ex slot_tx_ex = Some s' \<and> tq_inv (so_queue s') \<and>
    fila_nbr (nbr_at (so_queue s') 2) \<in> {[Some 1], [Some 0, Some 1]}"
proof -
  obtain s' where s': "tsch_tx_slot conf_ex env_ex slot_tx_ex = Some s'" using tx_slot_ex by blast
  note e = slot_tx_simps tq_inv_ex fila_ex tq_livre_ex filas_ex
  have "\<exists>st. (\<exists>t. enviou conf_ex env_ex 0 slot_tx_ex st t) \<and> tq_inv (so_queue s') \<and>
    (let fim = (st = MAC_TX_OK \<or> pk_transmissions (pk_of slot_tx_ex 0) + 1 \<ge> pk_max (pk_of slot_tx_ex 0)) in
     fila_nbr (nbr_at (so_queue s') 2) = (if fim then [Some 1] else Some 0 # [Some 1]) \<and>
     rbi.conteudo (dequeued_array s') (dequeued_ringbuf s') =
       rbi.conteudo (dequeued_array slot_tx_ex) (dequeued_ringbuf slot_tx_ex) @ (if fim then [Some 0] else [])) \<and>
    (\<forall>j. j \<noteq> 2 \<longrightarrow> nbr_at (so_queue s') j = nbr_at (so_queue slot_tx_ex) j)"
    by (rule transmission_conserves_packets [OF s']) (simp_all add: e)
  then show ?thesis using s' by (auto simp: Let_def split: if_splits)
qed

text \<open>
  C33: The radio is off after every slot: whatever is sent, received or missed, an activation of
  tsch-slot-operation that starts with the radio off leaves it off. When the radio is configured to
  stay on during the whole timeslot this needs room in both ring buffers.
\<close>

theorem radio_off_after_slot:
  assumes "tsch_slot_operation c env s = Some s'" and "\<not> ligado False (so_log s)"
    and "TSCH_RADIO_ON_DURING_TIMESLOT c \<Longrightarrow>
      ringbufindex_peek_put (dequeued_ringbuf s) \<noteq> -1 \<and> ringbufindex_peek_put (input_ringbuf s) \<noteq> -1"
  shows "\<not> ligado False (so_log s')"
  by (rule slot_operation_radio [OF assms])

theorem radio_off_after_slot_witness:
  "\<exists>s'. tsch_slot_operation conf_ex env_ex (slot_ex\<lparr>tsch_is_coordinator := True\<rparr>) = Some s' \<and> \<not> ligado False (so_log s')"
  using slot_operation_ex radio_off_after_slot [of conf_ex env_ex "slot_ex\<lparr>tsch_is_coordinator := True\<rparr>"]
  by (auto simp: conf_ex_def) (auto simp: slot_ex_def)

text \<open>
  C34: The acknowledgement keeps two nodes in step: when the receiver of a frame answers with the
  drift d it measured (12 bits), it prepares and sends 17 bytes which, read by the sender
  with anything behind them, make the transmission succeed; a sender whose time source the receiver
  is then corrects its clock by exactly d, limited to a quarter of the receive window, and
  notes the slot of the synchronisation.
\<close>

theorem ack_keeps_nodes_in_step:
  assumes "rd (tsch_timing r) tsch_ts_max_tx = Some mx" and "rd (tsch_timing r) tsch_ts_tx_ack_delay = Some dl"
    and "ack_required (fr_fcf (rx_frame r)) \<noteq> 0" and "payload inp = bt # bs"
    and "length a = 8" and "length (fr_src_addr (eack_params env)) = 8" and "-2048 \<le> d" and "d < 2048"
    and "so_pan_id s = so_pan_id r" and "linkaddr_node_addr (so_sched s) = a" and "current_neighbor s = Some n"
    and "length (fr_dest_addr (ack_frame env')) = 8" and "length (fr_src_addr (ack_frame env')) = 8"
  shows "\<exists>ack r'. rx_ack c env a d inp r = Some r' \<and> Prepare ack \<in> set (so_log r') \<and> Transmit 17 \<in> set (so_log r') \<and>
    (\<forall>z. ackbuf env' = ack @ z \<and> ack_read env' = 17 \<longrightarrow>
      (if is_time_source (nbr_at (so_queue s) n)
       then \<forall>st s'. tx_ack c' env' (fr_seq (rx_frame r)) b s = Some (st, s') \<longrightarrow> st = MAC_TX_OK \<and>
          last_sync_asn s' = tsch_current_asn s \<and>
          (\<exists>B. SYNC_IE_BOUND s = Some B \<and> drift_correction s' = max (- B) (min B d))
       else tx_ack c' env' (fr_seq (rx_frame r)) b s = Some (MAC_TX_OK, if b then s\<lparr>burst_link_scheduled := True\<rparr> else s)))"
  by (rule ack_exchange [OF assms])

theorem ack_keeps_nodes_in_step_witness:
  "\<exists>ack r'. rx_ack conf_ex env_ex (addr_of_num 3) 120 pacote_ex rx_slot_ex = Some r' \<and> Prepare ack \<in> set (so_log r')"
  using ack_keeps_nodes_in_step [where r = rx_slot_ex and mx = 4256 and dl = 1000 and inp = pacote_ex and bt = "0x61"
      and bs = "[0x98]" and a = "addr_of_num 3" and env = env_ex and d = 120 and s = slot_tx_ex and n = 2 and env' = env_ex
      and c = conf_ex]
  by (auto simp: rx_slot_simps env_ex_def zero_frame_def pacote_ex_def LINKADDR_SIZE_def slot_tx_simps)

text \<open>
  C35: What a node receives: when the radio has a packet and there is room, tsch-rx-slot
  appends to the input queue exactly that packet, with its ASN and channel, if it is a valid data or
  beacon frame of the PAN, sent by another node to this one or to all, and nothing otherwise.
\<close>

theorem receives_own_frames:
  assumes "rb_ok (input_ringbuf s)" and "length (input_array s) = rb_sz (input_ringbuf s)"
    and "ringbufindex_peek_put (input_ringbuf s) \<noteq> -1" and "packet_seen env" and "pending_packet env"
    and "tsch_rx_slot c env s = Some s'"
  shows "\<exists>h f. frame802154_parse False False (read_payload env) (read_len env) (rx_frame s) = Some (h, f) \<and>
    rbi.conteudo (input_array s') (input_ringbuf s') = rbi.conteudo (input_array s) (input_ringbuf s) @
      (if quadro_meu (so_pan_id s) (linkaddr_node_addr (so_sched s)) h f then [pacote_lido env s] else [])"
  by (rule rx_slot_fila [OF assms])

theorem receives_own_frames_witness:
  "\<exists>s'. tsch_rx_slot conf_ex env_rx_ex slot_ex = Some s' \<and>
    rbi.conteudo (input_array s') (input_ringbuf s') = [pacote_lido env_rx_ex slot_ex]"
proof -
  obtain s' where s': "tsch_rx_slot conf_ex env_rx_ex slot_ex = Some s'" using rx_slot_ex by blast
  have e: "packet_seen env_rx_ex" "pending_packet env_rx_ex" "length (input_array slot_ex) = 4"
    "rbi.conteudo (input_array slot_ex) (input_ringbuf slot_ex) = []"
    by (simp_all add: env_rx_ex_def slot_ex_def rbi.conteudo_def rb_els_def rb_dif_def)
  show ?thesis
    using receives_own_frames [OF filas_ex(4) _ _ e(1,2) s'] env_rx_ex filas_ex(5,6) e(3,4) s' by auto
qed

text \<open>
  C36: Channel hopping: for every channel offset, also one past the end of the hopping sequence, the channel of a link in
  a slot is the entry of the sequence at the ASN plus the offset, modulo the length of the sequence. So, when no
  channel is twice in the sequence, two links use different channels in the same slot exactly when their
  offsets differ modulo that length.
\<close>

theorem channels_hop_apart:
  assumes "saltos_ok s"
  shows "tsch_calculate_channel asn a s
      = Some (tsch_hopping_sequence s ! ((asn_val asn + unat a) mod length (tsch_hopping_sequence s))) \<and>
    (distinct (tsch_hopping_sequence s) \<longrightarrow>
      (tsch_calculate_channel asn a s \<noteq> tsch_calculate_channel asn b s \<longleftrightarrow>
       unat a mod length (tsch_hopping_sequence s) \<noteq> unat b mod length (tsch_hopping_sequence s)))"
proof -
  let ?h = "tsch_hopping_sequence s"
  let ?n = "length ?h"
  have p: "0 < ?n" using assms by (cases ?h) (auto simp: saltos_ok_def TSCH_ASN_DIVISOR_INIT_def)
  have m: "(asn_val asn + unat x) mod ?n = (asn_val asn + unat x mod ?n) mod ?n" for x :: u16 by (simp add: mod_add_right_eq)
  have "(asn_val asn + unat a) mod ?n = (asn_val asn + unat b) mod ?n \<longleftrightarrow> unat a mod ?n = unat b mod ?n"
    using mod_apart [of "unat a mod ?n" ?n "unat b mod ?n" "asn_val asn"] p unfolding m [of a] m [of b] by (metis mod_less_divisor)
  then show ?thesis
    unfolding calculate_channel_run [OF assms] using p by (simp add: nth_eq_iff_index_eq)
qed

theorem channels_hop_apart_witness:
  "tsch_calculate_channel \<lparr>ls4b = 7, ms1b = 0\<rparr> 2 slot_ex = Some 25 \<and>
   tsch_calculate_channel \<lparr>ls4b = 7, ms1b = 0\<rparr> 6 slot_ex = tsch_calculate_channel \<lparr>ls4b = 7, ms1b = 0\<rparr> 2 slot_ex"
proof -
  have h: "saltos_ok slot_ex" "distinct (tsch_hopping_sequence slot_ex)"
    by (simp_all add: slot_ex_def saltos_ok_def TSCH_ASN_DIVISOR_INIT_def)
  show ?thesis
    using channels_hop_apart [OF h(1), of "\<lparr>ls4b = 7, ms1b = 0\<rparr>" 2 6] h(2) by (auto simp: slot_ex_def asn_val_def)
qed

section \<open>The main program\<close>

text \<open>
  C37: The type of a node's state is kept by everything that can happen on the node, in any order: slot
  interrupts, pending events, scanning, joining, leaving and resetting, beacons, keep-alives and
  the calls of other layers, as long as each has a defined result. The tables keep their sizes, the timings in ticks stay those in
  microseconds, the beacon period stays below its maximum; and a node in a network has joined its own PAN
  and has a hopping sequence that gives it a channel in every slot. In each of these states the timing and the hopping
  sequence of a beacon, whatever it announces, are taken over without an access outside an array, both when joining and
  in a network; the one undefined case is a hopping sequence of length 0, by which the code divides.
\<close>

theorem node_keeps_its_type:
  assumes "mac_ok m" and "mac_runs c m m'"
  shows "mac_ok m' \<and> (tsch_is_associated (m_slot m') \<longrightarrow> so_pan_id (m_slot m') = IEEE802154_PANID \<and>
      (\<forall>asn off. tsch_calculate_channel asn off (m_slot m') \<noteq> None)) \<and>
    (\<forall>i. ies_ok (length TSCH_DEFAULT_HOPPING_SEQUENCE) i \<longrightarrow>
      set_timing (ie_tsch_timeslot i) (m_slot m') \<noteq> None \<and>
      (join_hopping i (m_slot m') = None \<longleftrightarrow> ie_channel_hopping_sequence_id i \<noteq> 0 \<and> ie_hopping_sequence_len i = 0) \<and>
      (tsch_is_associated (m_slot m') \<longrightarrow>
        (eb_hopping i (m_slot m') = None \<longleftrightarrow> ie_channel_hopping_sequence_id i \<noteq> 0 \<and> ie_hopping_sequence_len i = 0)))"
proof -
  have ok: "mac_ok m'" by (rule mac_steps_ok [OF assms(2,1)])
  then have "slot_ok (m_slot m')" by (simp add: mac_ok_def)
  then show ?thesis using ok slot_ok_channel beacon_defined [OF ok] by (auto simp: slot_ok_def)
qed

theorem node_keeps_its_type_witness:
  "\<exists>s. tsch_slot_operation conf_ex env_ex (m_slot mac_ex) = Some s \<and>
    mac_ok (tsch_set_eb_period 700 (mac_ex\<lparr>m_slot := s\<rparr>)) \<and>
    so_pan_id (m_slot (tsch_set_eb_period 700 (mac_ex\<lparr>m_slot := s\<rparr>))) = IEEE802154_PANID \<and>
    join_hopping ((zero_ies 4)\<lparr>ie_channel_hopping_sequence_id := 1, ie_hopping_sequence_len := 200\<rparr>)
      (m_slot (tsch_set_eb_period 700 (mac_ex\<lparr>m_slot := s\<rparr>))) \<noteq> None"
proof -
  obtain s where s: "tsch_slot_operation conf_ex env_ex (m_slot mac_ex) = Some s" "tsch_is_associated s"
    using slot_operation_ex by (auto simp: mac_ex_def)
  let ?m = "tsch_set_eb_period 700 (mac_ex\<lparr>m_slot := s\<rparr>)"
  have "mac_step mconf_ex mac_ex (Some (mac_ex\<lparr>m_slot := s\<rparr>))"
    using mac_step.slot [of mconf_ex mac_ex env_ex] s(1) by (simp add: mconf_ex_def)
  then have r: "mac_runs mconf_ex mac_ex ?m"
    using mac_step.set_eb_period by (rule converse_rtranclp_into_rtranclp [OF _ r_into_rtranclp])
  have i: "ies_ok (length TSCH_DEFAULT_HOPPING_SEQUENCE) ((zero_ies 4)\<lparr>ie_channel_hopping_sequence_id := 1, ie_hopping_sequence_len := 200\<rparr>)"
    by (simp add: ies_ok_def zero_ies_def TSCH_DEFAULT_HOPPING_SEQUENCE_def)
  show ?thesis using node_keeps_its_type [OF mac_ok_ex r] s i by (auto simp: tsch_set_eb_period_def)
qed

text \<open>
  C38: Joining a network from its beacons: of two nodes that disagree on nothing the beacon leaves to the
  defaults, the one in the network builds a beacon without a schedule, writes into it the ASN and its join
  priority, and the other, which has no time source and a place for a neighbor, joins from it:
  it is then in the same PAN at the ASN of the beacon, one step further from the coordinator, with the sender as
  its time source, the sender's timings, and the same channel as the sender in every slot.
\<close>

theorem joining_from_beacon:
  assumes hop: "max_hopping (mc_conf conf0) = length TSCH_DEFAULT_HOPPING_SEQUENCE" "max_hopping (mc_conf c) = length TSCH_DEFAULT_HOPPING_SEQUENCE"
    and sender: "mac_ok mac0" "associated mac0" "length (linkaddr_node_addr (m_sched mac0)) = 8"
    and k: "mac_pan_id k = so_pan_id (m_slot mac0)" "length (pb_mem (pb k)) = PACKETBUF_SIZE"
    and eb: "\<not> with_slotframe_and_link (mc_eb conf0)"
      "with_hopping_sequence (mc_eb conf0) \<or> tsch_hopping_sequence (m_slot mac0) = TSCH_DEFAULT_HOPPING_SEQUENCE \<and>
         val (tsch_hopping_sequence_length (m_slot mac0)) = of_nat (length TSCH_DEFAULT_HOPPING_SEQUENCE)"
      "with_timeslot_timing (mc_eb conf0) \<or> tsch_timing_us (m_slot mac0) = tsch_default_timing_us m"
    and jp: "jp < 31"
    and receiver: "mac_ok m" "\<not> associated m" "\<not> coordinator m"
    and q: "tq_inv (m_queue m)" "livre (tq_lk (m_queue m))" "tsch_queue_get_time_source (m_queue m) = None"
    and add: "tsch_queue_add_nbr (vic_of c m) (linkaddr_node_addr (m_sched mac0)) (m_queue m) = Some (Some p, q1)"
    and fr: "length (fr_dest_addr (me_frame env)) = 8" "length (fr_src_addr (me_frame env)) = 8" "4 \<le> length slack"
  shows "\<exists>len k' bs m'. tsch_packet_create_eb (mc_eb conf0) (eb_env_of conf0 mac0) r k = Some (int len, Some (16, 18), k')
    \<and> tsch_packet_update_eb asn jp ies (take len (pb_mem (pb k'))) (int len) 18 = Some (True, bs)
    \<and> tsch_associate c env (Some \<lparr>payload = bs @ slack, rx_asn = ra, in_len = int len, in_rssi = rs, in_channel = ch\<rparr>) ts m
        = Some (True, m')
    \<and> mac_ok m' \<and> associated m' \<and> so_pan_id (m_slot m') = so_pan_id (m_slot mac0)
    \<and> tsch_current_asn (m_slot m') = asn \<and> tsch_join_priority (m_slot m') = jp + 1
    \<and> tsch_queue_get_nbr_address (tsch_queue_get_time_source (m_queue m')) (m_queue m') = Some (linkaddr_node_addr (m_sched mac0))
    \<and> tsch_timing (m_slot m') = tsch_timing (m_slot mac0)
    \<and> (\<forall>a off. tsch_calculate_channel a off (m_slot m') = tsch_calculate_channel a off (m_slot mac0))"
  by (rule joins_from_beacon [OF assms])

theorem joining_from_beacon_witness:
  "\<exists>len k' bs m'. tsch_packet_create_eb c_ex (eb_env_of mconf_ex mac_ex) 5 m_ex = Some (int len, Some (16, 18), k')
    \<and> tsch_packet_update_eb \<lparr>ls4b = 1000, ms1b = 2\<rparr> 3 (zero_ies 4) (take len (pb_mem (pb k'))) (int len) 18 = Some (True, bs)
    \<and> tsch_associate mconf_ex menv_ex (Some \<lparr>payload = bs @ [0, 0, 0, 0], rx_asn = \<lparr>ls4b = 0, ms1b = 0\<rparr>, in_len = int len,
          in_rssi = -50, in_channel = 15\<rparr>) 77 mac_novo_ex = Some (True, m')
    \<and> associated m' \<and> tsch_current_asn (m_slot m') = \<lparr>ls4b = 1000, ms1b = 2\<rparr> \<and> tsch_join_priority (m_slot m') = 4
    \<and> tsch_queue_get_nbr_address (tsch_queue_get_time_source (m_queue m')) (m_queue m') = Some [0, 3, 0, 3, 0, 3, 0, 3]"
proof -
  have n3: "linkaddr_node_addr (m_sched mac_ex) = [0, 3, 0, 3, 0, 3, 0, 3]" "addr_of_num 3 = [0, 3, 0, 3, 0, 3, 0, 3]"
    "vic_of mconf_ex mac_novo_ex = None" "queue sched_ex = tq_ex"
    by (simp_all add: mac_ex_def slot_ex_def sched_ex_def addr_of_num_def vic_of_def mconf_ex_def numeral_eq_Suc)
  obtain p q1 where a: "tsch_queue_add_nbr None [0, 3, 0, 3, 0, 3, 0, 3] tq_ex = Some (Some p, q1)"
    using add_nbr_ex unfolding n3 by blast
  have h: "max_hopping (mc_conf mconf_ex) = length TSCH_DEFAULT_HOPPING_SEQUENCE" "\<not> with_slotframe_and_link (mc_eb mconf_ex)"
    "with_hopping_sequence (mc_eb mconf_ex)" "with_timeslot_timing (mc_eb mconf_ex)" "mc_eb mconf_ex = c_ex" "associated mac_ex"
    by (simp_all add: mconf_ex_def conf_ex_def TSCH_DEFAULT_HOPPING_SEQUENCE_def c_ex_def mac_ex_def slot_ex_def)
  have k: "mac_pan_id m_ex = so_pan_id (m_slot mac_ex)" "length (pb_mem (pb m_ex)) = PACKETBUF_SIZE"
    "length (fr_dest_addr (me_frame menv_ex)) = 8" "length (fr_src_addr (me_frame menv_ex)) = 8"
    by (simp_all add: m_ex_def mac_ex_def slot_ex_def menv_ex_def zero_frame_def PACKETBUF_SIZE_def)
  show ?thesis
    using joining_from_beacon [of mconf_ex mconf_ex mac_ex m_ex mac_novo_ex 3 p q1 menv_ex "[0, 0, 0, 0]" 5 "\<lparr>ls4b = 1000, ms1b = 2\<rparr>" "zero_ies 4"
        "\<lparr>ls4b = 0, ms1b = 0\<rparr>" "-50" 15 77] h k mac_ok_ex mac_novo_ex tq_inv_ex tq_livre_ex(1) ts_none_ex a
    unfolding n3 by auto
qed

text \<open>
  C39: A node learns its neighbors by listening, when its log has room. When a slot with room in the input queue
  receives a frame for this node that asks for no acknowledgement, and the log is active, holds only messages and at
  most four of them (of the seven entries it has room for), then the next evaluation of the log by the main program ends with an
  empty log, the number of the sender is in the list of neighbors, provided that it is there already or the list has a
  free place, and nobody has left the list.
\<close>

theorem heard_node_becomes_neighbor:
  assumes "tsch_rx_slot c env s = Some s'" and "ringbufindex_peek_put (input_ringbuf s) \<noteq> -1"
    and "packet_seen env" "pending_packet env"
    and "frame802154_parse False False (read_payload env) (read_len env) (rx_frame s) = Some (h, f)"
    and "quadro_meu (so_pan_id s) (linkaddr_node_addr (so_sched s)) h f" and "ack_required (fr_fcf f) = 0"
    and "log_ok (so_tlog s)" "log_active (so_tlog s)" "so_msgs (entradas (so_tlog s))"
    and "length (entradas (so_tlog s)) + 3 < TSCH_LOG_QUEUE_LEN"
    and "node_num (fr_src_addr f) \<in> set (NBRlist (so_sched s)) \<or> 0 \<in> set (NBRlist (so_sched s))"
  shows "\<exists>m'. tsch_log_process_pending (m\<lparr>m_slot := s'\<rparr>) = Some m' \<and> entradas (so_tlog (m_slot m')) = [] \<and>
     node_num (fr_src_addr f) \<in> set (NBRlist (m_sched m')) \<and>
     (\<forall>v \<in> set (NBRlist (so_sched s)). v \<noteq> 0 \<longrightarrow> v \<in> set (NBRlist (m_sched m')))"
  using hears_neighbor [OF assms(1-11), of m] anota_vizinho_run(3,4) assms(12) by (auto simp: tsch_print_neighbors_def)

theorem heard_node_becomes_neighbor_witness:
  "\<exists>s' m'. tsch_rx_slot conf_ex env_ouve_ex slot_ex = Some s' \<and> tsch_log_process_pending (mac_ex\<lparr>m_slot := s'\<rparr>) = Some m' \<and>
     {2, 4, 5} \<subseteq> set (NBRlist (m_sched m'))"
proof -
  obtain s' where s': "tsch_rx_slot conf_ex env_ouve_ex slot_ex = Some s'" using ouve_slot_ex by blast
  obtain h f where f: "frame802154_parse False False (read_payload env_ouve_ex) (read_len env_ouve_ex) (rx_frame slot_ex) = Some (h, f)"
    "quadro_meu (so_pan_id slot_ex) (linkaddr_node_addr (so_sched slot_ex)) h f" "ack_required (fr_fcf f) = 0"
    "node_num (fr_src_addr f) = 5"
    using env_ouve_ex by blast
  have e: "packet_seen env_ouve_ex" "pending_packet env_ouve_ex" "NBRlist (so_sched slot_ex) = [2, 4, 0, 0]"
    by (simp_all add: env_ouve_ex_def env_rx_ex_def slot_ex_def sched_ex_def)
  have l: "ringbufindex_peek_put (input_ringbuf slot_ex) \<noteq> -1" "log_ok (so_tlog slot_ex)" "log_active (so_tlog slot_ex)"
    "entradas (so_tlog slot_ex) = []"
    using filas_ex(6) log_vazio_ex by simp_all
  show ?thesis
    using heard_node_becomes_neighbor [OF s' l(1) e(1,2) f(1-3) l(2,3), of mac_ex] s' unfolding l(4) e(3) f(4)
    by (auto simp: so_msgs_def TSCH_LOG_QUEUE_LEN_def)
qed

text \<open>
  C40: The application chooses the node it sends to once. In the first round in which a neighbor is known, a
  node other than 1 takes the first neighbor with a smaller number, and keeps this choice however many rounds follow and whatever the
  rest of the node hears between them. When no neighbor has a smaller number in that round, no later round of such a node runs
  the static scheduler. Node 1 chooses nobody and is always ready to run the scheduler from then on.
\<close>

theorem application_decides_once:
  assumes "app_rounds c node_id (r # rs) a = Some a'" and "verify a = 0"
    and "0 < foldl (+) (cs_counter (m_sched (ap_mac a))) (NBRlist (m_sched (ap_mac a)))"
    and "\<forall>v \<in> set (NBRlist (m_sched (ap_mac a))). 0 \<le> v"
  shows "verify a' = 1 \<and>
     aux_id a' = (if node_id = 1 then 1 else sort_node_to_create_link (uint node_id) (m_sched (ap_mac a))) \<and>
     (node_id \<noteq> 1 \<and> (\<forall>v \<in> set (NBRlist (m_sched (ap_mac a))). v \<noteq> 0 \<longrightarrow> uint node_id \<le> v) \<longrightarrow>
       (\<forall>env. app_schedule env a' = Some a'))"
  using decides_once [OF assms] sort_node_run(1) [of "uint node_id" "m_sched (ap_mac a)"] no_target by simp

theorem application_decides_once_witness:
  "\<exists>a'. app_rounds mconf_ex 3 [(app_env_ex, \<lambda>m. m), (app_env_ex, \<lambda>m. m)] app_ex = Some a' \<and> verify a' = 1 \<and> aux_id a' = 0 \<and>
     app_schedule app_env_ex a' = Some a'"
proof -
  obtain a' where a': "app_rounds mconf_ex 3 [(app_env_ex, \<lambda>m. m), (app_env_ex, \<lambda>m. m)] app_ex = Some a'"
    using app_rounds_ex by blast
  have n: "NBRlist (m_sched (ap_mac app_ex)) = [4, 0, 0, 0]" "cs_counter (m_sched (ap_mac app_ex)) = 0" "verify app_ex = 0"
    by (simp_all add: app_ex_def sched_ex_def mac_ex_def slot_ex_def)
  have "sort_node_to_create_link 3 (m_sched (ap_mac app_ex)) = 0" by (simp add: sort_node_to_create_link_def n)
  then show ?thesis using application_decides_once [OF a' n(3)] a' by (auto simp: n)
qed

end
